(* ===== verification/Prelude.thy ===== *)
theory Prelude
  imports Main "HOL-Library.Word" "HOL-Library.Sublist"
begin

text \<open>
  Shared vocabulary of the development: the machine integer types of the sources, the
  faults a C++ call can end in, the state-exception programs in which the stateful classes
  are written, text helpers (decimal and hexadecimal printing) and the generic lemmas the
  component theories use.  A fault is one of: an exception the code throws, a failing
  \<^verbatim>\<open>assert\<close>, or \<open>Undefined\<close>, which stands for undefined behaviour of C++
  (an access outside an object, a null dereference, a read of an indeterminate value).
  \<open>OutOfFuel\<close> is not a fault of the code: it is how a recursion bounded by fuel ends when the bound is
  too small.  It is shown never to occur, except in the parser of class and method signatures, where
  it stands for a loop without end.
\<close>

unbundle bit_operations_syntax

named_theorems prog_defs "unfolding of the program combinators"
named_theorems reads_intro "what a reader program consumes"

type_synonym u1 = "8 word"
type_synonym u2 = "16 word"
type_synonym u4 = "32 word"
type_synonym bytes = "u1 list"

datatype fault =
    RuntimeError string
  | InvalidArgument string
  | FilesystemError string
  | AssertFail
  | Undefined
  | OutOfFuel

type_synonym 'a result = "fault + 'a"
type_synonym ('s, 'a) prog = "'s \<Rightarrow> 'a result \<times> 's"

section \<open>Results and programs\<close>

fun bindR :: "'a result \<Rightarrow> ('a \<Rightarrow> 'b result) \<Rightarrow> 'b result" where
  "bindR (Inl e) f = Inl e"
| "bindR (Inr x) f = f x"

fun isOk :: "'a result \<Rightarrow> bool" where
  "isOk (Inl e) = False"
| "isOk (Inr x) = True"

definition ret :: "'a \<Rightarrow> ('s, 'a) prog" where
  "ret x = (\<lambda>s. (Inr x, s))"

definition throw :: "fault \<Rightarrow> ('s, 'a) prog" where
  "throw e = (\<lambda>s. (Inl e, s))"

definition andThen :: "('s, 'a) prog \<Rightarrow> ('a \<Rightarrow> ('s, 'b) prog) \<Rightarrow> ('s, 'b) prog" where
  "andThen m f = (\<lambda>s. case m s of (Inl e, s') \<Rightarrow> (Inl e, s') | (Inr x, s') \<Rightarrow> f x s')"

definition getState :: "('s, 's) prog" where
  "getState = (\<lambda>s. (Inr s, s))"

definition modify :: "('s \<Rightarrow> 's) \<Rightarrow> ('s, unit) prog" where
  "modify f = (\<lambda>s. (Inr (), f s))"

definition liftR :: "'a result \<Rightarrow> ('s, 'a) prog" where
  "liftR r = (\<lambda>s. (r, s))"

text \<open>A counted \<^verbatim>\<open>for\<close> loop whose bodies' results are collected in order.\<close>

primrec replicateP :: "nat \<Rightarrow> ('s, 'a) prog \<Rightarrow> ('s, 'a list) prog" where
  "replicateP 0 m = ret []"
| "replicateP (Suc n) m = andThen m (\<lambda>x. andThen (replicateP n m) (\<lambda>xs. ret (x # xs)))"

primrec mapR :: "('a \<Rightarrow> 'b result) \<Rightarrow> 'a list \<Rightarrow> 'b list result" where
  "mapR f [] = Inr []"
| "mapR f (x # xs) = bindR (f x) (\<lambda>y. bindR (mapR f xs) (\<lambda>ys. Inr (y # ys)))"

text \<open>Results of computations that may not return, which then are \<open>None\<close>.\<close>

fun bindO :: "'a result option \<Rightarrow> ('a \<Rightarrow> 'b result option) \<Rightarrow> 'b result option" where
  "bindO None f = None"
| "bindO (Some (Inl e)) f = Some (Inl e)"
| "bindO (Some (Inr x)) f = f x"

fun mapO :: "('a \<Rightarrow> 'b result option) \<Rightarrow> 'a list \<Rightarrow> 'b list result option" where
  "mapO f [] = Some (Inr [])"
| "mapO f (x # xs) = bindO (f x) (\<lambda>y. bindO (mapO f xs) (\<lambda>ys. Some (Inr (y # ys))))"

lemma mapO_cong [fundef_cong]: "xs = ys \<Longrightarrow> (\<And>x. x \<in> set ys \<Longrightarrow> f x = g x) \<Longrightarrow> mapO f xs = mapO g ys"
  by (induction xs arbitrary: ys) auto

text \<open>A \<^verbatim>\<open>for\<close> loop over a container, stopping at the first fault.\<close>

primrec mapProg :: "('a \<Rightarrow> ('s, 'b) prog) \<Rightarrow> 'a list \<Rightarrow> ('s, 'b list) prog" where
  "mapProg f [] = ret []"
| "mapProg f (x # xs) = andThen (f x) (\<lambda>y. andThen (mapProg f xs) (\<lambda>ys. ret (y # ys)))"

lemma ret_apply [simp]: "ret x s = (Inr x, s)"
  by (simp add: ret_def)

lemma throw_apply [simp]: "throw e s = (Inl e, s)"
  by (simp add: throw_def)

lemma modify_apply [simp]: "modify f s = (Inr (), f s)"
  by (simp add: modify_def)

lemma getState_apply [simp]: "getState s = (Inr s, s)"
  by (simp add: getState_def)

lemma liftR_apply [simp]: "liftR r s = (r, s)"
  by (simp add: liftR_def)

lemma andThen_ok [simp]: "m s = (Inr x, s') \<Longrightarrow> andThen m f s = f x s'"
  by (simp add: andThen_def)

lemma andThen_fault [simp]: "m s = (Inl e, s') \<Longrightarrow> andThen m f s = (Inl e, s')"
  by (simp add: andThen_def)

lemma andThen_Inr_iff:
  "andThen m f s = (Inr y, t) \<longleftrightarrow> (\<exists>x s'. m s = (Inr x, s') \<and> f x s' = (Inr y, t))"
  by (auto simp: andThen_def split: prod.splits sum.splits)

lemma andThen_Inl_iff:
  "andThen m f s = (Inl e, t) \<longleftrightarrow>
     m s = (Inl e, t) \<or> (\<exists>x s'. m s = (Inr x, s') \<and> f x s' = (Inl e, t))"
  by (auto simp: andThen_def split: prod.splits sum.splits)

lemma andThen_ret_left [simp]: "andThen (ret x) f = f x"
  by (rule ext) simp

lemma andThen_ret_right [simp]: "andThen m ret = m"
  by (rule ext) (auto simp: andThen_def split: prod.splits sum.splits)

lemma andThen_assoc: "andThen (andThen m f) g = andThen m (\<lambda>x. andThen (f x) g)"
  by (rule ext) (auto simp: andThen_def split: prod.splits sum.splits)

lemma bindR_Inr_iff: "bindR r f = Inr y \<longleftrightarrow> (\<exists>x. r = Inr x \<and> f x = Inr y)"
  by (cases r) auto

lemma bindR_Inl_iff: "bindR r f = Inl e \<longleftrightarrow> r = Inl e \<or> (\<exists>x. r = Inr x \<and> f x = Inl e)"
  by (cases r) auto

lemma isOk_iff: "isOk r \<longleftrightarrow> (\<exists>x. r = Inr x)"
  by (cases r) auto

lemma mapR_ok: "(\<And>x. x \<in> set xs \<Longrightarrow> f x = Inr (g x)) \<Longrightarrow> mapR f xs = Inr (map g xs)"
  by (induction xs) auto

lemma mapO_ok: "(\<And>x. x \<in> set xs \<Longrightarrow> f x = Some (Inr (g x))) \<Longrightarrow> mapO f xs = Some (Inr (map g xs))"
  by (induction xs) auto

lemma mapR_cong: "(\<And>x. x \<in> set xs \<Longrightarrow> f x = g x) \<Longrightarrow> mapR f xs = mapR g xs"
  by (induction xs) auto

lemma mapR_fault:
  assumes "x \<in> set xs" "f x = Inl e" "\<And>y. y \<in> set xs \<Longrightarrow> f y = Inl e \<or> (\<exists>z. f y = Inr z)"
  shows "mapR f xs = Inl e"
  using assms by (induction xs) (auto, force+)

lemma mapR_append: "mapR f (xs @ ys) = bindR (mapR f xs) (\<lambda>us. bindR (mapR f ys) (\<lambda>vs. Inr (us @ vs)))"
proof (induction xs)
  case Nil show ?case by (cases "mapR f ys") simp_all
next
  case (Cons x xs)
  then show ?case by (cases "f x"; cases "mapR f xs"; cases "mapR f ys") simp_all
qed

lemma mapR_Inr_length: "mapR f xs = Inr ys \<Longrightarrow> length ys = length xs"
  by (induction xs arbitrary: ys) (auto simp: bindR_Inr_iff)

text \<open>A program keeps a property of its state, whether it returns or faults.\<close>

definition keeps :: "('s \<Rightarrow> bool) \<Rightarrow> ('s, 'a) prog \<Rightarrow> bool" where
  "keeps I m \<longleftrightarrow> (\<forall>s. I s \<longrightarrow> I (snd (m s)))"

text \<open>A program never ends in one of the faults of \<open>F\<close> from a state in \<open>I\<close>.\<close>

definition avoids :: "fault set \<Rightarrow> ('s \<Rightarrow> bool) \<Rightarrow> ('s, 'a) prog \<Rightarrow> bool" where
  "avoids F I m \<longleftrightarrow> (\<forall>s. I s \<longrightarrow> I (snd (m s)) \<and> (\<forall>e. fst (m s) = Inl e \<longrightarrow> e \<notin> F))"

lemma avoids_keeps: "avoids F I m \<Longrightarrow> keeps I m"
  by (simp add: avoids_def keeps_def)

lemma avoids_ret [intro, simp]: "avoids F I (ret x)"
  by (simp add: avoids_def)

lemma avoids_throw [intro]: "e \<notin> F \<Longrightarrow> avoids F I (throw e)"
  by (simp add: avoids_def)

lemma avoids_andThen [intro]:
  assumes m: "avoids F I m" and f: "\<And>x. avoids F I (f x)"
  shows "avoids F I (andThen m f)"
  unfolding avoids_def
proof (intro allI impI)
  fix s assume s: "I s"
  obtain r t where ms: "m s = (r, t)" by fastforce
  have t: "I t" "\<forall>e. r = Inl e \<longrightarrow> e \<notin> F" using m s ms unfolding avoids_def by (metis fst_conv snd_conv)+
  show "I (snd (andThen m f s)) \<and> (\<forall>e. fst (andThen m f s) = Inl e \<longrightarrow> e \<notin> F)"
  proof (cases r)
    case (Inl e) with ms t show ?thesis by (simp add: andThen_def)
  next
    case (Inr x) with ms t f [of x] show ?thesis by (simp add: andThen_def avoids_def)
  qed
qed

lemma avoids_modify: "(\<And>s. I s \<Longrightarrow> I (f s)) \<Longrightarrow> avoids F I (modify f)"
  by (simp add: avoids_def)

lemma avoids_replicateP [intro]: "avoids F I m \<Longrightarrow> avoids F I (replicateP n m)"
  by (induction n) auto

lemma avoidsD:
  assumes "avoids F I m" "I s" "m s = (Inl e, t)" shows "e \<notin> F"
  using assms unfolding avoids_def by (metis fst_conv)

lemma avoids_stateD:
  assumes "avoids F I m" "I s" "m s = (r, t)" shows "I t"
  using assms unfolding avoids_def by (metis snd_conv)

section \<open>Text\<close>

definition byteChar :: "u1 \<Rightarrow> char" where
  "byteChar b = char_of (unat b)"

definition charByte :: "char \<Rightarrow> u1" where
  "charByte c = of_nat (of_char c)"

lemma byteChar_charByte [simp]: "byteChar (charByte c) = c"
  by (simp add: byteChar_def charByte_def unat_of_nat take_bit_eq_mod)

lemma charByte_byteChar [simp]: "charByte (byteChar b) = b"
proof -
  have "unat b < 256" using unsigned_less [of b] by simp
  then show ?thesis by (simp add: byteChar_def charByte_def)
qed

lemma charByte_eq_iff [simp]: "charByte a = charByte b \<longleftrightarrow> a = b"
  by (metis byteChar_charByte)

lemma map_byteChar_charByte [simp]: "map byteChar (map charByte s) = s"
  by (induction s) auto

lemma map_charByte_byteChar [simp]: "map charByte (map byteChar s) = s"
  by (induction s) auto

definition digitChar :: "nat \<Rightarrow> char" where
  "digitChar d = char_of (if d < 10 then 48 + d else 87 + d)"

fun natToString :: "nat \<Rightarrow> string" where
  "natToString n = (if n < 10 then [digitChar n] else natToString (n div 10) @ [digitChar (n mod 10)])"

declare natToString.simps [simp del]

definition intToString :: "int \<Rightarrow> string" where
  "intToString i = (if i < 0 then CHR ''-'' # natToString (nat (- i)) else natToString (nat i))"

text \<open>Two lower-case hexadecimal digits, as \<^verbatim>\<open>{:02x}\<close> prints a byte.\<close>

definition hex2 :: "nat \<Rightarrow> string" where
  "hex2 n = [digitChar (n div 16 mod 16), digitChar (n mod 16)]"

fun charDigit :: "char \<Rightarrow> nat" where
  "charDigit c = (let n = of_char c in if n < 58 then n - 48 else n - 87)"

definition readNat :: "string \<Rightarrow> nat" where
  "readNat s = foldl (\<lambda>n c. 10 * n + charDigit c) 0 s"

lemma charDigit_digitChar [simp]: "d < 16 \<Longrightarrow> charDigit (digitChar d) = d"
  by (simp add: digitChar_def)

declare charDigit.simps [simp del]

lemma readNat_natToString [simp]: "readNat (natToString n) = n"
proof (induction n rule: natToString.induct)
  case (1 n)
  show ?case
  proof (cases "n < 10")
    case True then show ?thesis by (subst natToString.simps) (simp add: readNat_def)
  next
    case False
    then have "readNat (natToString n) = 10 * readNat (natToString (n div 10)) + n mod 10"
      by (subst natToString.simps) (simp add: readNat_def)
    with 1 [OF False] show ?thesis by simp
  qed
qed

lemma natToString_inject [simp]: "natToString m = natToString n \<longleftrightarrow> m = n"
  by (metis readNat_natToString)

lemma hex2_inject: "m < 256 \<Longrightarrow> n < 256 \<Longrightarrow> hex2 m = hex2 n \<Longrightarrow> m = n"
proof -
  assume mn: "m < 256" "n < 256" "hex2 m = hex2 n"
  then have "m mod 16 = n mod 16" "m div 16 mod 16 = n div 16 mod 16"
    unfolding hex2_def by (metis charDigit_digitChar list.inject mod_less_divisor zero_less_numeral)+
  moreover have "m div 16 < 16" "n div 16 < 16" using mn by auto
  ultimately show "m = n" by (metis div_mult_mod_eq mod_less)
qed

lemma length_hex2 [simp]: "length (hex2 n) = 2"
  by (simp add: hex2_def)

section \<open>Lists\<close>

lemma take_drop_append [simp]: "drop n xs = ys @ zs \<Longrightarrow> take (length ys) (drop n xs) = ys"
  by simp

lemma drop_add_append: "drop n xs = ys @ zs \<Longrightarrow> drop (n + length ys) xs = zs"
  by (metis add.commute append_eq_conv_conj drop_drop)

lemma length_drop_append: "drop n xs = ys @ zs \<Longrightarrow> n \<le> length xs \<Longrightarrow> n + length ys + length zs = length xs"
  by (metis add.assoc length_append length_drop le_add_diff_inverse)

section \<open>Words\<close>

lemma bit_u1_high [simp]: "8 \<le> n \<Longrightarrow> \<not> bit (a :: u1) n"
  using bit_imp_le_length [of a n] by auto

lemma bit_u2_high [simp]: "16 \<le> n \<Longrightarrow> \<not> bit (a :: u2) n"
  using bit_imp_le_length [of a n] by auto

lemma bit_u4_high [simp]: "32 \<le> n \<Longrightarrow> \<not> bit (a :: u4) n"
  using bit_imp_le_length [of a n] by auto

end
