(* ===== verification/Reader.thy ===== *)
theory Reader
  imports Prelude
begin

text \<open>
  The byte readers of \<^verbatim>\<open>domain/classfile/reader\<close>: the base class
  \<^verbatim>\<open>ClassFileReader\<close> (bounds check, byte counter, byte order, header), its two
  implementations of the virtual \<^verbatim>\<open>readBytes\<close> (\<^verbatim>\<open>MemoryReader\<close> over a
  buffer, \<^verbatim>\<open>FileReader\<close> over a file stream), and \<^verbatim>\<open>VectorReader\<close>,
  which decodes attribute bodies.  The byte order of the machine is the field
  \<open>hostBigEndian\<close>: a multi-byte load depends on it, and the code corrects it with the
  magic number.  A destination buffer is a list of optional bytes, \<open>None\<close> being an
  indeterminate byte, so that a short read of a file stream leaves the rest as it was.
\<close>

section \<open>Byte order\<close>

definition swapShort :: "u2 \<Rightarrow> u2" where
  "swapShort value = drop_bit 8 value OR push_bit 8 value"

definition swapLong :: "u4 \<Rightarrow> u4" where
  "swapLong value = drop_bit 24 value OR (push_bit 8 value AND 0x00FF0000)
     OR (drop_bit 8 value AND 0x0000FF00) OR push_bit 24 value"

text \<open>Native loads: the value a \<open>u2\<close> or \<open>u4\<close> object has when its bytes are these.\<close>

definition beU2 :: "u1 \<Rightarrow> u1 \<Rightarrow> u2" where
  "beU2 a b = push_bit 8 (ucast a) OR ucast b"

definition beU4 :: "u1 \<Rightarrow> u1 \<Rightarrow> u1 \<Rightarrow> u1 \<Rightarrow> u4" where
  "beU4 a b c d = push_bit 24 (ucast a) OR push_bit 16 (ucast b) OR push_bit 8 (ucast c) OR ucast d"

fun loadU1 :: "bytes \<Rightarrow> u1 result" where
  "loadU1 [a] = Inr a"
| "loadU1 _ = Inl Undefined"

fun loadU2 :: "bool \<Rightarrow> bytes \<Rightarrow> u2 result" where
  "loadU2 host [a, b] = Inr (if host then beU2 a b else beU2 b a)"
| "loadU2 host _ = Inl Undefined"

fun loadU4 :: "bool \<Rightarrow> bytes \<Rightarrow> u4 result" where
  "loadU4 host [a, b, c, d] = Inr (if host then beU4 a b c d else beU4 d c b a)"
| "loadU4 host _ = Inl Undefined"

text \<open>The big-endian byte strings of the class-file format, and native stores.\<close>

definition encU2 :: "u2 \<Rightarrow> bytes" where
  "encU2 v = [ucast (drop_bit 8 v), ucast v]"

definition encU4 :: "u4 \<Rightarrow> bytes" where
  "encU4 v = [ucast (drop_bit 24 v), ucast (drop_bit 16 v), ucast (drop_bit 8 v), ucast v]"

definition storeU4 :: "bool \<Rightarrow> u4 \<Rightarrow> bytes" where
  "storeU4 host v = (if host then encU4 v else rev (encU4 v))"

section \<open>ClassFileReader\<close>

record class_file_header =
  magic :: u4
  minorVersion :: u2
  majorVersion :: u2

datatype byte_source =
    Memory bytes nat       \<comment> \<open>buffer, position\<close>
  | File bytes nat bool    \<comment> \<open>content, position, stream still good\<close>

record reader =
  hostBigEndian :: bool
  source :: byte_source
  isBigEndian :: bool
  readerSize :: int
  bytesRead :: u4
  lastReadCount :: int
  header :: class_file_header
  isValidHeader :: bool

type_synonym buffer = "u1 option list"

definition initialized :: "buffer \<Rightarrow> bytes result" where
  "initialized buf = (if list_all (\<lambda>b. b \<noteq> None) buf then Inr (map the buf) else Inl Undefined)"

definition memoryReadBytes :: "bytes \<Rightarrow> nat \<Rightarrow> u4 \<Rightarrow> buffer \<Rightarrow> (reader, buffer) prog" where
  "memoryReadBytes buf pos count dest = (\<lambda>r.
     if int pos + uint count > readerSize r then (Inl (RuntimeError ''Read beyond end of buffer''), r)
     else if pos + unat count > length buf then (Inl Undefined, r)
     else (Inr (map Some (take (unat count) (drop pos buf)) @ drop (unat count) dest),
           r\<lparr>source := Memory buf (pos + unat count), lastReadCount := uint count\<rparr>))"

definition fileReadBytes :: "bytes \<Rightarrow> nat \<Rightarrow> bool \<Rightarrow> u4 \<Rightarrow> buffer \<Rightarrow> (reader, buffer) prog" where
  "fileReadBytes content pos good count dest = (\<lambda>r.
     if \<not> good then (Inr dest, r\<lparr>lastReadCount := 0\<rparr>)
     else let chunk = take (unat count) (drop pos content) in
       (Inr (map Some chunk @ drop (length chunk) dest),
        r\<lparr>source := File content (pos + length chunk) (length chunk = unat count),
          lastReadCount := int (length chunk)\<rparr>))"

definition readBytes :: "u4 \<Rightarrow> buffer \<Rightarrow> (reader, buffer) prog" where
  "readBytes count dest = (\<lambda>r. case source r of
       Memory buf pos \<Rightarrow> memoryReadBytes buf pos count dest r
     | File content pos good \<Rightarrow> fileReadBytes content pos good count dest r)"

definition readRaw :: "u4 \<Rightarrow> buffer \<Rightarrow> (reader, buffer) prog" where
  "readRaw count dest = andThen getState (\<lambda>r.
     if uint (bytesRead r + count) > readerSize r then throw (RuntimeError ''Error reading beyond size'')
     else andThen (readBytes count dest) (\<lambda>buf.
       andThen (modify (\<lambda>r. r\<lparr>bytesRead := bytesRead r + count\<rparr>)) (\<lambda>_. ret buf)))"

definition uninit :: "nat \<Rightarrow> buffer" where
  "uninit n = replicate n None"

definition zeros :: "nat \<Rightarrow> buffer" where
  "zeros n = replicate n (Some 0)"

definition readU1 :: "(reader, u1) prog" where
  "readU1 = andThen (readRaw 1 (uninit 1)) (\<lambda>buf. liftR (bindR (initialized buf) loadU1))"

text \<open>
  \<^verbatim>\<open>read(u2 &buffer)\<close> fills an object the caller owns; \<^verbatim>\<open>readU2()\<close> fills a local
  that is not initialised.
\<close>

definition nativeU2 :: "buffer \<Rightarrow> (reader, u2) prog" where
  "nativeU2 dest = andThen (readRaw 2 dest) (\<lambda>buf. andThen getState (\<lambda>r.
     liftR (bindR (initialized buf) (loadU2 (hostBigEndian r)))))"

definition nativeU4 :: "buffer \<Rightarrow> (reader, u4) prog" where
  "nativeU4 dest = andThen (readRaw 4 dest) (\<lambda>buf. andThen getState (\<lambda>r.
     liftR (bindR (initialized buf) (loadU4 (hostBigEndian r)))))"

definition readU2Into :: "buffer \<Rightarrow> (reader, u2) prog" where
  "readU2Into dest = andThen (nativeU2 dest) (\<lambda>v. andThen getState (\<lambda>r.
     ret (if \<not> isBigEndian r then swapShort v else v)))"

definition readU2 :: "(reader, u2) prog" where
  "readU2 = readU2Into (uninit 2)"

definition readU2Reversed :: "(reader, u2) prog" where
  "readU2Reversed = andThen (nativeU2 (uninit 2)) (\<lambda>v. andThen getState (\<lambda>r.
     ret (if isBigEndian r then swapShort v else v)))"

definition readU4Into :: "buffer \<Rightarrow> (reader, u4) prog" where
  "readU4Into dest = andThen (nativeU4 dest) (\<lambda>v. andThen getState (\<lambda>r.
     ret (if \<not> isBigEndian r then swapLong v else v)))"

definition readU4 :: "(reader, u4) prog" where
  "readU4 = readU4Into (uninit 4)"

definition classMagic :: u4 where
  "classMagic = 0xcafebabe"

definition readMagic :: "(reader, unit) prog" where
  "readMagic = andThen getState (\<lambda>r.
     andThen (readRaw 4 (map Some (storeU4 (hostBigEndian r) (magic (header r))))) (\<lambda>buf.
     andThen (liftR (bindR (initialized buf) (loadU4 (hostBigEndian r)))) (\<lambda>m.
     modify (\<lambda>r. r\<lparr>header := (header r)\<lparr>magic := m\<rparr>\<rparr>))))"

definition readHeader :: "(reader, unit) prog" where
  "readHeader =
     andThen readMagic (\<lambda>_.
     andThen (modify (\<lambda>r. r\<lparr>isBigEndian := (magic (header r) = classMagic)\<rparr>)) (\<lambda>_.
     andThen (modify (\<lambda>r. r\<lparr>isValidHeader :=
       (isBigEndian r \<or> magic (header r) = swapLong classMagic)\<rparr>)) (\<lambda>_.
     andThen getState (\<lambda>r.
     if isValidHeader r then
       andThen readU2 (\<lambda>minor.
       andThen (modify (\<lambda>r. r\<lparr>header := (header r)\<lparr>minorVersion := minor\<rparr>\<rparr>)) (\<lambda>_.
       andThen readU2 (\<lambda>major.
       modify (\<lambda>r. r\<lparr>header := (header r)\<lparr>majorVersion := major\<rparr>\<rparr>))))
     else ret ()))))"

definition initialReader :: "bool \<Rightarrow> byte_source \<Rightarrow> int \<Rightarrow> reader" where
  "initialReader host src sz = \<lparr>hostBigEndian = host, source = src, isBigEndian = True,
     readerSize = sz, bytesRead = 0, lastReadCount = 0,
     header = \<lparr>magic = 0, minorVersion = 0, majorVersion = 0\<rparr>, isValidHeader = False\<rparr>"

text \<open>The constructors: an exception thrown by one leaves no object.\<close>

definition construct :: "(reader, unit) prog \<Rightarrow> reader \<Rightarrow> reader result" where
  "construct m r = (case m r of (Inl e, _) \<Rightarrow> Inl e | (Inr _, r') \<Rightarrow> Inr r')"

definition MemoryReader :: "bool \<Rightarrow> bytes option \<Rightarrow> int \<Rightarrow> reader result" where
  "MemoryReader host buffer sz = (case buffer of
       None \<Rightarrow> Inl (InvalidArgument ''MemoryReader requires a valid buffer'')
     | Some buf \<Rightarrow> if sz \<le> 0 then Inl (InvalidArgument ''MemoryReader requires a valid buffer'')
         else construct readHeader (initialReader host (Memory buf 0) sz))"

text \<open>The file system is the argument \<open>fs\<close>: the content of each existing file.\<close>

definition FileReader :: "bool \<Rightarrow> (string \<Rightarrow> bytes option) \<Rightarrow> string \<Rightarrow> reader result" where
  "FileReader host fs filename = (case fs filename of
       None \<Rightarrow> Inl (FilesystemError filename)
     | Some content \<Rightarrow>
         construct readHeader (initialReader host (File content 0 True) (int (length content))))"

section \<open>VectorReader\<close>

record vector_reader =
  bytesVector :: bytes
  position :: int
  vrBigEndian :: bool
  vrHost :: bool

definition vrReadRaw :: "nat \<Rightarrow> (vector_reader, bytes) prog" where
  "vrReadRaw n = (\<lambda>v.
     if \<not> (uint (word_of_int (position v) + of_nat n :: u4) \<le> int (length (bytesVector v)))
       then (Inl AssertFail, v)
     else if position v < 0 \<or> position v + int n > int (length (bytesVector v)) then (Inl Undefined, v)
     else (Inr (take n (drop (nat (position v)) (bytesVector v))), v\<lparr>position := position v + int n\<rparr>))"

definition vrReadU1 :: "(vector_reader, u1) prog" where
  "vrReadU1 = andThen (vrReadRaw 1) (\<lambda>bs. liftR (loadU1 bs))"

definition vrReadU2 :: "(vector_reader, u2) prog" where
  "vrReadU2 = andThen (vrReadRaw 2) (\<lambda>bs. andThen getState (\<lambda>v.
     andThen (liftR (loadU2 (vrHost v) bs)) (\<lambda>x. ret (if \<not> vrBigEndian v then swapShort x else x))))"

definition vrReadU4 :: "(vector_reader, u4) prog" where
  "vrReadU4 = andThen (vrReadRaw 4) (\<lambda>bs. andThen getState (\<lambda>v.
     andThen (liftR (loadU4 (vrHost v) bs)) (\<lambda>x. ret (if \<not> vrBigEndian v then swapLong x else x))))"

text \<open>The position is an \<^verbatim>\<open>int\<close> of 32 bits; a sum outside its range is undefined.\<close>

definition vrJump :: "int \<Rightarrow> (vector_reader, unit) prog" where
  "vrJump steps = (\<lambda>v. let q = position v + steps in
     if - (2 ^ 31) \<le> q \<and> q < 2 ^ 31 then (Inr (), v\<lparr>position := q\<rparr>) else (Inl Undefined, v))"

section \<open>Byte order lemmas\<close>

lemma bit_beU2:
  "n < 16 \<Longrightarrow> bit (beU2 a b) n = (if n < 8 then bit b n else bit a (n - 8))"
  by (auto simp: beU2_def bit_simps)

lemma bit_beU4:
  "n < 32 \<Longrightarrow> bit (beU4 a b c d) n =
     (if n < 8 then bit d n else if n < 16 then bit c (n - 8)
      else if n < 24 then bit b (n - 16) else bit a (n - 24))"
  by (auto simp: beU4_def bit_simps)

lemma bit_swapShort:
  "n < 16 \<Longrightarrow> bit (swapShort v) n = (if n < 8 then bit v (n + 8) else bit v (n - 8))"
  by (auto simp: swapShort_def bit_simps ac_simps)

lemma swap_masks:
  "(0x00FF0000 :: u4) = push_bit 16 (mask 8)" "(0x0000FF00 :: u4) = push_bit 8 (mask 8)"
  by (simp_all add: mask_eq_exp_minus_1 push_bit_eq_mult)

lemma bit_swapLong:
  "n < 32 \<Longrightarrow> bit (swapLong v) n =
     (if n < 8 then bit v (n + 24) else if n < 16 then bit v (n + 8)
      else if n < 24 then bit v (n - 8) else bit v (n - 24))"
  unfolding swapLong_def swap_masks by (auto simp: bit_simps ac_simps)

lemma swapShort_beU2 [simp]: "swapShort (beU2 a b) = beU2 b a"
  by (rule bit_word_eqI) (auto simp: bit_swapShort bit_beU2)

lemma swapLong_beU4 [simp]: "swapLong (beU4 a b c d) = beU4 d c b a"
  by (rule bit_word_eqI) (auto simp: bit_swapLong bit_beU4)

lemma swapShort_swapShort [simp]: "swapShort (swapShort v) = v"
  by (rule bit_word_eqI) (auto simp: bit_swapShort)

lemma swapLong_swapLong [simp]: "swapLong (swapLong v) = v"
  by (rule bit_word_eqI) (auto simp: bit_swapLong)

lemma beU2_enc [simp]: "beU2 (ucast (drop_bit 8 v)) (ucast v) = v"
  by (rule bit_word_eqI) (auto simp: bit_beU2 bit_simps)

lemma beU4_enc [simp]:
  "beU4 (ucast (drop_bit 24 v)) (ucast (drop_bit 16 v)) (ucast (drop_bit 8 v)) (ucast v) = v"
  by (rule bit_word_eqI) (auto simp: bit_beU4 bit_simps)

lemma load_encU2 [simp]: "loadU2 True (encU2 v) = Inr v" "loadU2 False (encU2 v) = Inr (swapShort v)"
proof -
  show "loadU2 True (encU2 v) = Inr v" by (simp add: encU2_def)
  have "swapShort (beU2 (ucast (drop_bit 8 v)) (ucast v)) = swapShort v" by (subst beU2_enc) simp
  then show "loadU2 False (encU2 v) = Inr (swapShort v)" by (simp add: encU2_def del: beU2_enc)
qed

lemma load_encU4 [simp]: "loadU4 True (encU4 v) = Inr v" "loadU4 False (encU4 v) = Inr (swapLong v)"
proof -
  show "loadU4 True (encU4 v) = Inr v" by (simp add: encU4_def)
  have "swapLong (beU4 (ucast (drop_bit 24 v)) (ucast (drop_bit 16 v)) (ucast (drop_bit 8 v)) (ucast v))
      = swapLong v" by (subst beU4_enc) simp
  then show "loadU4 False (encU4 v) = Inr (swapLong v)" by (simp add: encU4_def del: beU4_enc)
qed

lemma length_enc [simp]: "length (encU2 v) = 2" "length (encU4 w) = 4"
  by (simp_all add: encU2_def encU4_def)

lemma length_storeU4 [simp]: "length (storeU4 host v) = 4"
  by (simp add: storeU4_def)

lemma initialized_map_Some [simp]: "initialized (map Some bs) = Inr bs"
  by (simp add: initialized_def list.pred_map o_def list_all_iff map_idI)

section \<open>What a byte source promises\<close>

definition sameConfig :: "reader \<Rightarrow> reader \<Rightarrow> bool" where
  "sameConfig r r' \<longleftrightarrow> hostBigEndian r' = hostBigEndian r \<and> isBigEndian r' = isBigEndian r \<and>
     header r' = header r \<and> isValidHeader r' = isValidHeader r \<and> readerSize r' = readerSize r"

lemma sameConfig_refl [simp]: "sameConfig r r"
  by (simp add: sameConfig_def)

lemma sameConfig_trans: "sameConfig r s \<Longrightarrow> sameConfig s t \<Longrightarrow> sameConfig r t"
  by (simp add: sameConfig_def)

text \<open>
  A program \<open>reads\<close> a byte string as a value when, from every reader whose input starts with
  that string, it returns the value and leaves the reader just behind the string.
\<close>

definition reads :: "(reader \<Rightarrow> bytes \<Rightarrow> bool) \<Rightarrow> (reader, 'a) prog \<Rightarrow> bytes \<Rightarrow> 'a \<Rightarrow> bool" where
  "reads at m bs x \<longleftrightarrow> (\<forall>r rest. at r (bs @ rest) \<and> isBigEndian r = hostBigEndian r \<longrightarrow>
     (\<exists>r'. m r = (Inr x, r') \<and> at r' rest \<and> sameConfig r r'))"

lemma readsE:
  assumes "reads at m bs x" "at r (bs @ rest)" "isBigEndian r = hostBigEndian r"
  obtains r' where "m r = (Inr x, r')" "at r' rest" "sameConfig r r'"
  using assms unfolding reads_def by blast

lemma reads_ret [reads_intro]: "reads at (ret x) [] x"
  by (simp add: reads_def)

lemma reads_andThen:
  assumes m: "reads at m bs x" and f: "reads at (f x) cs y"
  shows "reads at (andThen m f) (bs @ cs) y"
  unfolding reads_def
proof (intro allI impI, elim conjE)
  fix r rest assume r: "at r ((bs @ cs) @ rest)" "isBigEndian r = hostBigEndian r"
  from r obtain s where s: "m r = (Inr x, s)" "at s (cs @ rest)" "sameConfig r s"
    by (auto elim: readsE [OF m])
  then have "isBigEndian s = hostBigEndian s" using r by (simp add: sameConfig_def)
  with s obtain t where "f x s = (Inr y, t)" "at t rest" "sameConfig s t"
    by (auto elim: readsE [OF f])
  with s show "\<exists>r'. andThen m f r = (Inr y, r') \<and> at r' rest \<and> sameConfig r r'"
    by (auto intro: sameConfig_trans)
qed

lemma reads_replicateP:
  assumes "length xs = n" and "\<And>x. x \<in> set xs \<Longrightarrow> reads at m (enc x) x"
  shows "reads at (replicateP n m) (concat (map enc xs)) xs"
  using assms
proof (induction xs arbitrary: n)
  case Nil then show ?case by (simp add: reads_def)
next
  case (Cons x xs)
  then obtain k where n: "n = Suc k" "length xs = k" by auto
  have tail: "reads at (replicateP k m) (concat (map enc xs)) xs" using Cons n by simp
  have last: "reads at (andThen (replicateP k m) (\<lambda>xs. ret (x # xs))) (concat (map enc xs) @ []) (x # xs)"
    by (rule reads_andThen [OF tail reads_ret])
  have hd: "reads at m (enc x) x" using Cons.prems by simp
  have "reads at (andThen m (\<lambda>x. andThen (replicateP k m) (\<lambda>xs. ret (x # xs))))
      (enc x @ concat (map enc xs) @ []) (x # xs)"
    by (rule reads_andThen [where f = "\<lambda>x. andThen (replicateP k m) (\<lambda>xs. ret (x # xs))", OF hd last])
  then show ?case using n by simp
qed

locale class_file_source =
  fixes at :: "reader \<Rightarrow> bytes \<Rightarrow> bool"
  assumes at_readBytes:
      "at r (bs @ rest) \<Longrightarrow> length bs = unat count \<Longrightarrow> length dest = unat count \<Longrightarrow>
       \<exists>r'. readBytes count dest r = (Inr (map Some bs), r') \<and> at r' rest \<and>
            sameConfig r r' \<and> bytesRead r' = bytesRead r"
    and at_bounds: "at r rest \<Longrightarrow> uint (bytesRead r) + int (length rest) \<le> readerSize r \<and> readerSize r < 2 ^ 32"
    and at_bytesRead: "at r rest \<Longrightarrow> uint c + int (length rest) \<le> readerSize r \<Longrightarrow> at (r\<lparr>bytesRead := c\<rparr>) rest"
    and at_header: "at r rest \<Longrightarrow> at (r\<lparr>header := h\<rparr>) rest"
    and at_order: "at r rest \<Longrightarrow> at (r\<lparr>isBigEndian := b\<rparr>) rest"
    and at_valid: "at r rest \<Longrightarrow> at (r\<lparr>isValidHeader := b\<rparr>) rest"
begin

lemma reads_bytes [reads_intro]:
  "length bs = unat count \<Longrightarrow> length dest = unat count \<Longrightarrow> reads at (readBytes count dest) bs (map Some bs)"
  unfolding reads_def using at_readBytes by blast

lemma at_readRaw:
  assumes r: "at r (bs @ rest)" and bs: "length bs = unat count" "length dest = unat count"
  shows "\<exists>r'. readRaw count dest r = (Inr (map Some bs), r') \<and> at r' rest \<and> sameConfig r r'"
proof -
  have cnt: "int (length bs) = uint count" using bs by simp
  from at_bounds [OF r] have b: "uint (bytesRead r) + uint count + int (length rest) \<le> readerSize r"
    "readerSize r < 2 ^ 32" by (simp_all add: cnt [symmetric])
  then have sum: "uint (bytesRead r + count) = uint (bytesRead r) + uint count"
    by (simp add: uint_plus_if_size word_size)
  obtain s where s: "readBytes count dest r = (Inr (map Some bs), s)" "at s rest" "sameConfig r s"
      "bytesRead s = bytesRead r"
    using at_readBytes [OF r bs] by blast
  have "at (s\<lparr>bytesRead := bytesRead s + count\<rparr>) rest"
    using s b sum by (auto intro!: at_bytesRead simp: sameConfig_def)
  then show ?thesis using s b sum by (simp add: readRaw_def sameConfig_def)
qed

lemma reads_raw [reads_intro]:
  "length bs = unat count \<Longrightarrow> length dest = unat count \<Longrightarrow> reads at (readRaw count dest) bs (map Some bs)"
  unfolding reads_def using at_readRaw by blast

lemma reads_U1 [reads_intro]: "reads at readU1 [v] v"
  unfolding reads_def readU1_def
proof (intro allI impI, elim conjE)
  fix r rest assume "at r ([v] @ rest)"
  from at_readRaw [OF this, of 1 "uninit 1"]
  show "\<exists>r'. andThen (readRaw 1 (uninit 1)) (\<lambda>buf. liftR (bindR (initialized buf) loadU1)) r = (Inr v, r') \<and>
          at r' rest \<and> sameConfig r r'"
    using initialized_map_Some [of "[v]"] by (auto simp: uninit_def simp del: initialized_map_Some)
qed

lemma reads_U2Into [reads_intro]:
  assumes dest: "length dest = 2"
  shows "reads at (readU2Into dest) (encU2 v) v"
  unfolding reads_def readU2Into_def nativeU2_def
proof (intro allI impI, elim conjE)
  fix r rest assume "at r (encU2 v @ rest)" and o: "isBigEndian r = hostBigEndian r"
  then obtain r' where r': "readRaw 2 dest r = (Inr (map Some (encU2 v)), r')" "at r' rest" "sameConfig r r'"
    using at_readRaw [of r "encU2 v" rest 2 dest] dest by auto
  then have "isBigEndian r' = hostBigEndian r'" using o by (simp add: sameConfig_def)
  with r' show "\<exists>r'. andThen (andThen (readRaw 2 dest) (\<lambda>buf. andThen getState (\<lambda>r.
        liftR (bindR (initialized buf) (loadU2 (hostBigEndian r)))))) (\<lambda>v. andThen getState (\<lambda>r.
        ret (if \<not> isBigEndian r then swapShort v else v))) r = (Inr v, r') \<and> at r' rest \<and> sameConfig r r'"
    by (cases "hostBigEndian r'") auto
qed

lemma reads_U4Into [reads_intro]:
  assumes dest: "length dest = 4"
  shows "reads at (readU4Into dest) (encU4 v) v"
  unfolding reads_def readU4Into_def nativeU4_def
proof (intro allI impI, elim conjE)
  fix r rest assume "at r (encU4 v @ rest)" and o: "isBigEndian r = hostBigEndian r"
  then obtain r' where r': "readRaw 4 dest r = (Inr (map Some (encU4 v)), r')" "at r' rest" "sameConfig r r'"
    using at_readRaw [of r "encU4 v" rest 4 dest] dest by auto
  then have "isBigEndian r' = hostBigEndian r'" using o by (simp add: sameConfig_def)
  with r' show "\<exists>r'. andThen (andThen (readRaw 4 dest) (\<lambda>buf. andThen getState (\<lambda>r.
        liftR (bindR (initialized buf) (loadU4 (hostBigEndian r)))))) (\<lambda>v. andThen getState (\<lambda>r.
        ret (if \<not> isBigEndian r then swapLong v else v))) r = (Inr v, r') \<and> at r' rest \<and> sameConfig r r'"
    by (cases "hostBigEndian r'") auto
qed

lemma reads_U2 [reads_intro]: "reads at readU2 (encU2 v) v"
  unfolding readU2_def by (rule reads_U2Into) (simp add: uninit_def)

lemma reads_U4 [reads_intro]: "reads at readU4 (encU4 v) v"
  unfolding readU4_def by (rule reads_U4Into) (simp add: uninit_def)

text \<open>A valid header fixes the byte order, on either kind of machine.\<close>

lemma at_readMagic:
  assumes "at r (encU4 v @ rest)"
  shows "\<exists>r'. readMagic r = (Inr (), r') \<and> at r' rest \<and>
     magic (header r') = (if hostBigEndian r then v else swapLong v) \<and> hostBigEndian r' = hostBigEndian r \<and>
     readerSize r' = readerSize r"
proof -
  let ?d = "map Some (storeU4 (hostBigEndian r) (magic (header r)))"
  obtain s where s: "readRaw 4 ?d r = (Inr (map Some (encU4 v)), s)" "at s rest" "sameConfig r s"
    using at_readRaw [OF assms, of 4 ?d] by auto
  then show ?thesis
    by (cases "hostBigEndian r") (auto simp: readMagic_def at_header sameConfig_def)
qed

lemma swapLong_classMagic: "swapLong classMagic \<noteq> classMagic"
  by (simp add: swapLong_def classMagic_def)

lemma at_readHeader:
  assumes "at r (encU4 classMagic @ encU2 minor @ encU2 major @ rest)"
  shows "\<exists>r'. readHeader r = (Inr (), r') \<and> at r' rest \<and> isValidHeader r' \<and>
     isBigEndian r' = hostBigEndian r' \<and> hostBigEndian r' = hostBigEndian r \<and>
     minorVersion (header r') = minor \<and> majorVersion (header r') = major \<and> readerSize r' = readerSize r"
proof -
  obtain s where s: "readMagic r = (Inr (), s)" "at s (encU2 minor @ encU2 major @ rest)"
      "magic (header s) = (if hostBigEndian r then classMagic else swapLong classMagic)"
      "hostBigEndian s = hostBigEndian r" "readerSize s = readerSize r"
    using at_readMagic [OF assms] by blast
  define t where "t = s\<lparr>isBigEndian := hostBigEndian s, isValidHeader := True\<rparr>"
  have t: "at t (encU2 minor @ encU2 major @ rest)" "isBigEndian t = hostBigEndian t"
    unfolding t_def using s by (auto intro!: at_valid at_order)
  obtain u where u: "readU2 t = (Inr minor, u)" "at u (encU2 major @ rest)" "sameConfig t u"
    using readsE [OF reads_U2 t] by blast
  define w where "w = u\<lparr>header := (header u)\<lparr>minorVersion := minor\<rparr>\<rparr>"
  have w: "at w (encU2 major @ rest)" "isBigEndian w = hostBigEndian w"
    unfolding w_def using u t by (auto intro!: at_header simp: sameConfig_def)
  obtain z where z: "readU2 w = (Inr major, z)" "at z rest" "sameConfig w z"
    using readsE [OF reads_U2 w] by blast
  have order: "(magic (header s) = classMagic) = hostBigEndian s"
    using s swapLong_classMagic by auto
  have "readHeader r = (Inr (), z\<lparr>header := (header z)\<lparr>majorVersion := major\<rparr>\<rparr>)"
    using s order u [unfolded t_def] z [unfolded w_def] by (auto simp: readHeader_def)
  moreover have "at (z\<lparr>header := (header z)\<lparr>majorVersion := major\<rparr>\<rparr>) rest" using z by (simp add: at_header)
  ultimately show ?thesis using s u z by (auto simp: sameConfig_def t_def w_def)
qed

lemma construct_header:
  assumes "at (initialReader host src sz) (encU4 classMagic @ encU2 minor @ encU2 major @ rest)"
  shows "\<exists>r. construct readHeader (initialReader host src sz) = Inr r \<and> at r rest \<and> isValidHeader r \<and>
     isBigEndian r = host \<and> hostBigEndian r = host \<and> readerSize r = sz \<and>
     minorVersion (header r) = minor \<and> majorVersion (header r) = major"
  using at_readHeader [OF assms] by (auto simp: construct_def initialReader_def)

end

section \<open>The two sources\<close>

definition memoryAt :: "reader \<Rightarrow> bytes \<Rightarrow> bool" where
  "memoryAt r rest \<longleftrightarrow> (\<exists>buf pos. source r = Memory buf pos \<and> pos \<le> length buf \<and> drop pos buf = rest \<and>
     readerSize r = int (length buf) \<and> length buf < 2 ^ 32 \<and> uint (bytesRead r) + int (length rest) \<le> readerSize r)"

definition fileAt :: "reader \<Rightarrow> bytes \<Rightarrow> bool" where
  "fileAt r rest \<longleftrightarrow> (\<exists>content pos. source r = File content pos True \<and> pos \<le> length content \<and>
     drop pos content = rest \<and> readerSize r = int (length content) \<and> length content < 2 ^ 32 \<and>
     uint (bytesRead r) + int (length rest) \<le> readerSize r)"

lemma memoryAt_readBytes:
  assumes "memoryAt r (bs @ rest)" "length bs = unat count" "length dest = unat count"
  shows "\<exists>r'. readBytes count dest r = (Inr (map Some bs), r') \<and> memoryAt r' rest \<and>
    sameConfig r r' \<and> bytesRead r' = bytesRead r"
proof -
  obtain buf pos where s: "source r = Memory buf pos" "pos \<le> length buf" "drop pos buf = bs @ rest"
    "readerSize r = int (length buf)" "length buf < 2 ^ 32" "uint (bytesRead r) + int (length (bs @ rest)) \<le> readerSize r"
    using assms unfolding memoryAt_def by blast
  have left: "uint (bytesRead r) + int (length rest) \<le> readerSize r" using s(6) by simp
  have len: "pos + unat count + length rest = length buf"
    using length_drop_append [OF s(3,2)] assms(2) by simp
  have "int pos + uint count \<le> readerSize r" using len s(4) assms(2)
    by (metis add.commute add_left_mono int_ops(5) le_add1 of_nat_mono uint_nat)
  moreover have "drop (pos + unat count) buf = rest" using drop_add_append [OF s(3)] assms(2) by simp
  ultimately show ?thesis using s(1-5) len assms(2,3) left
    by (simp add: readBytes_def memoryReadBytes_def sameConfig_def memoryAt_def)
qed

lemma fileAt_readBytes:
  assumes "fileAt r (bs @ rest)" "length bs = unat count" "length dest = unat count"
  shows "\<exists>r'. readBytes count dest r = (Inr (map Some bs), r') \<and> fileAt r' rest \<and>
    sameConfig r r' \<and> bytesRead r' = bytesRead r"
proof -
  obtain content pos where s: "source r = File content pos True" "pos \<le> length content"
    "drop pos content = bs @ rest" "readerSize r = int (length content)" "length content < 2 ^ 32"
    "uint (bytesRead r) + int (length (bs @ rest)) \<le> readerSize r"
    using assms unfolding fileAt_def by blast
  have left: "uint (bytesRead r) + int (length rest) \<le> readerSize r" using s(6) by simp
  have len: "pos + unat count + length rest = length content"
    using length_drop_append [OF s(3,2)] assms(2) by simp
  have "drop (pos + unat count) content = rest" using drop_add_append [OF s(3)] assms(2) by simp
  then show ?thesis using s(1-5) len assms(2,3) left
    by (simp add: readBytes_def fileReadBytes_def sameConfig_def fileAt_def)
qed

interpretation mem: class_file_source memoryAt
  by unfold_locales (fact memoryAt_readBytes, auto simp: memoryAt_def)

interpretation fil: class_file_source fileAt
  by unfold_locales (fact fileAt_readBytes, auto simp: fileAt_def)

section \<open>A memory reader only throws runtime errors\<close>

definition memoryOk :: "reader \<Rightarrow> bool" where
  "memoryOk r \<longleftrightarrow> (\<exists>buf pos. source r = Memory buf pos \<and> readerSize r = int (length buf) \<and> pos \<le> length buf)"

abbreviation notRuntime :: "fault set" where
  "notRuntime \<equiv> - range RuntimeError"

lemma memoryOk_readBytes:
  assumes "memoryOk r" "length dest = unat count"
  shows "(\<exists>e. readBytes count dest r = (Inl (RuntimeError e), r)) \<or>
    (\<exists>bs r'. readBytes count dest r = (Inr (map Some bs), r') \<and> length bs = unat count \<and> memoryOk r')"
proof -
  obtain buf pos where s: "source r = Memory buf pos" "readerSize r = int (length buf)" "pos \<le> length buf"
    using assms unfolding memoryOk_def by blast
  show ?thesis
  proof (cases "int pos + uint count > readerSize r")
    case True then show ?thesis by (simp add: s readBytes_def memoryReadBytes_def)
  next
    case False
    have "int (pos + unat count) \<le> int (length buf)" using False s(2) by simp
    then have "pos + unat count \<le> length buf" by linarith
    then show ?thesis using False s assms(2)
      by (auto simp: readBytes_def memoryReadBytes_def memoryOk_def intro!: exI [of _ "take (unat count) (drop pos buf)"])
  qed
qed

lemma memoryOk_readRaw:
  assumes "memoryOk r" "length dest = unat count"
  shows "(\<exists>e. readRaw count dest r = (Inl (RuntimeError e), r)) \<or>
    (\<exists>bs r'. readRaw count dest r = (Inr (map Some bs), r') \<and> length bs = unat count \<and> memoryOk r')"
  using memoryOk_readBytes [OF assms] by (auto simp: readRaw_def memoryOk_def)

lemma safe_readRaw [intro]: "length dest = unat count \<Longrightarrow> avoids notRuntime memoryOk (readRaw count dest)"
  unfolding avoids_def using memoryOk_readRaw by fastforce

lemma safe_readBytes [intro]: "length dest = unat count \<Longrightarrow> avoids notRuntime memoryOk (readBytes count dest)"
  unfolding avoids_def using memoryOk_readBytes by fastforce

lemma load_lengths:
  "length bs = 1 \<Longrightarrow> isOk (loadU1 bs)" "length bs = 2 \<Longrightarrow> isOk (loadU2 h bs)" "length bs = 4 \<Longrightarrow> isOk (loadU4 h bs)"
  by (auto simp: numeral_2_eq_2 eval_nat_numeral length_Suc_conv)

lemma safe_load:
  assumes "length dest = unat count" and "\<And>r bs. length bs = unat count \<Longrightarrow> isOk (load r bs)"
  shows "avoids notRuntime memoryOk (andThen (readRaw count dest) (\<lambda>buf. andThen getState (\<lambda>r.
     liftR (bindR (initialized buf) (load r)))))"
  unfolding avoids_def
proof (intro allI impI)
  fix r assume "memoryOk r"
  from memoryOk_readRaw [OF this assms(1)]
  show "memoryOk (snd (andThen (readRaw count dest) (\<lambda>buf. andThen getState (\<lambda>r.
     liftR (bindR (initialized buf) (load r)))) r)) \<and>
    (\<forall>e. fst (andThen (readRaw count dest) (\<lambda>buf. andThen getState (\<lambda>r.
     liftR (bindR (initialized buf) (load r)))) r) = Inl e \<longrightarrow> e \<notin> notRuntime)"
  proof (elim disjE exE conjE)
    fix e assume "readRaw count dest r = (Inl (RuntimeError e), r)"
    with \<open>memoryOk r\<close> show ?thesis by simp
  next
    fix bs r' assume "readRaw count dest r = (Inr (map Some bs), r')" "length bs = unat count" "memoryOk r'"
    with assms(2) [of bs r'] show ?thesis by (auto simp: isOk_iff)
  qed
qed

lemma andThen_getState_ignore [simp]: "andThen getState (\<lambda>r. m) = m"
  by (rule ext) simp

lemma safe_readU1 [intro]: "avoids notRuntime memoryOk readU1"
  unfolding readU1_def using safe_load [of "uninit 1" 1 "\<lambda>r. loadU1"]
  by (simp add: uninit_def load_lengths)

lemma safe_order: "avoids notRuntime memoryOk m \<Longrightarrow> avoids notRuntime memoryOk (andThen m (\<lambda>v. andThen getState (\<lambda>r. ret (f v r))))"
  by (intro avoids_andThen) (auto simp: avoids_def)

lemma safe_readU2Into [intro]: "length dest = 2 \<Longrightarrow> avoids notRuntime memoryOk (readU2Into dest)"
  unfolding readU2Into_def nativeU2_def
  by (rule safe_order, rule safe_load) (simp_all add: load_lengths)

lemma safe_readU2 [intro]: "avoids notRuntime memoryOk readU2"
  unfolding readU2_def by (rule safe_readU2Into) (simp add: uninit_def)

lemma safe_readU4Into [intro]: "length dest = 4 \<Longrightarrow> avoids notRuntime memoryOk (readU4Into dest)"
  unfolding readU4Into_def nativeU4_def
  by (rule safe_order, rule safe_load) (simp_all add: load_lengths)

lemma safe_readU4 [intro]: "avoids notRuntime memoryOk readU4"
  unfolding readU4_def by (rule safe_readU4Into) (simp add: uninit_def)

end
