(* ===== verification/String_Utils.thy ===== *)
theory String_Utils
  imports Prelude
begin

text \<open>
  \<^verbatim>\<open>infrastructure/string/StringUtils.h\<close>: escaping, search and replace, trimming,
  joining and splitting.  A \<^verbatim>\<open>std::string\<close> is a list of characters, one per byte.
  The two loops driven by \<^verbatim>\<open>find\<close> are \<open>partial_function (option)\<close>: an empty pattern
  makes them run forever, which is the value \<open>None\<close>.
\<close>

section \<open>Definitions\<close>

definition plainChar :: "char \<Rightarrow> bool" where
  "plainChar ch \<longleftrightarrow> (let c = (of_char ch :: nat) in
     c \<le> 0x7f \<and> c \<ge> 0x20 \<and> ch \<noteq> CHR 0x5C \<and> ch \<noteq> CHR 0x22 \<and> ch \<noteq> CHR 0x27)"

definition escapeUtf8 :: "string \<Rightarrow> string" where
  "escapeUtf8 input = concat (map (\<lambda>ch.
     if plainChar ch then [ch] else [CHR 0x5C, CHR ''x''] @ hex2 (of_char ch)) input)"

fun findAt :: "string \<Rightarrow> string \<Rightarrow> nat option" where
  "findAt pat [] = (if pat = [] then Some 0 else None)"
| "findAt pat (c # s) = (if prefix pat (c # s) then Some 0 else map_option Suc (findAt pat s))"

text \<open>\<^verbatim>\<open>std::string::find(pat, pos)\<close>; \<open>None\<close> is \<^verbatim>\<open>npos\<close>.\<close>

definition find :: "string \<Rightarrow> string \<Rightarrow> nat \<Rightarrow> nat option" where
  "find s pat pos = (if pos > length s then None else map_option ((+) pos) (findAt pat (drop pos s)))"

partial_function (option) replaceAllLoop :: "string \<Rightarrow> string \<Rightarrow> nat option \<Rightarrow> string \<Rightarrow> string option" where
  "replaceAllLoop old new pos result = (case pos of
       None \<Rightarrow> Some result
     | Some p \<Rightarrow> (let result' = take p result @ new @ drop (p + length old) result in
         replaceAllLoop old new (find result' old (p + length new)) result'))"

definition replaceAll :: "string \<Rightarrow> string \<Rightarrow> string \<Rightarrow> string option" where
  "replaceAll value old new = replaceAllLoop old new (find value old 0) value"

definition npos :: nat where
  "npos = 2 ^ 64 - 1"

definition subSize :: "nat \<Rightarrow> nat \<Rightarrow> nat" where
  "subSize a b = (a + 2 ^ 64 - b) mod 2 ^ 64"

fun findFirstNotOf :: "string \<Rightarrow> string \<Rightarrow> nat option" where
  "findFirstNotOf chars [] = None"
| "findFirstNotOf chars (c # s) = (if c \<in> set chars then map_option Suc (findFirstNotOf chars s) else Some 0)"

definition find_first_not_of :: "string \<Rightarrow> string \<Rightarrow> nat" where
  "find_first_not_of chars s = (case findFirstNotOf chars s of None \<Rightarrow> npos | Some i \<Rightarrow> i)"

definition find_last_not_of :: "string \<Rightarrow> string \<Rightarrow> nat" where
  "find_last_not_of chars s = (case findFirstNotOf chars (rev s) of None \<Rightarrow> npos | Some i \<Rightarrow> length s - 1 - i)"

definition trimView :: "string \<Rightarrow> string \<Rightarrow> string" where
  "trimView str chars =
     (let str = drop (min (find_first_not_of chars str) (length str)) str;
          n = min (subSize (subSize (length str) (find_last_not_of chars str)) 1) (length str)
      in take (length str - n) str)"

definition trim :: "string \<Rightarrow> string \<Rightarrow> string" where
  "trim str chars = trimView str chars"

text \<open>\<^verbatim>\<open>std::tolower\<close> of the "C" locale.\<close>

definition tolowerChar :: "char \<Rightarrow> char" where
  "tolowerChar c = (let n = (of_char c :: nat) in if 65 \<le> n \<and> n \<le> 90 then char_of (n + 32) else c)"

definition toLower :: "string \<Rightarrow> string" where
  "toLower data = map tolowerChar data"

text \<open>The two overloads of \<^verbatim>\<open>join\<close>: the generic one puts the delimiter before every part.\<close>

definition joinAll :: "string list \<Rightarrow> string \<Rightarrow> string" where
  "joinAll parts delim = foldl (\<lambda>x y. x @ delim @ y) [] parts"

definition join :: "string list \<Rightarrow> string \<Rightarrow> string" where
  "join parts delim = (if parts = [] then [] else foldl (\<lambda>x y. x @ delim @ y) (hd parts) (tl parts))"

definition pathToClassname :: "string \<Rightarrow> string" where
  "pathToClassname path = map (\<lambda>c. if c = CHR ''/'' then CHR ''.'' else c) path"

definition bytesToHexString :: "bytes \<Rightarrow> string" where
  "bytesToHexString bs = foldl (\<lambda>result b. result @ hex2 (unat b)) [] bs"

partial_function (option) splitLoop :: "string \<Rightarrow> string \<Rightarrow> nat \<Rightarrow> string list \<Rightarrow> string list option" where
  "splitLoop value separator start result =
     (if start < length value then
        (case find value separator start of
           Some index \<Rightarrow> splitLoop value separator (index + length separator)
                           (result @ [take (index - start) (drop start value)])
         | None \<Rightarrow> splitLoop value separator (length value) (result @ [drop start value]))
      else Some result)"

definition split :: "string \<Rightarrow> string \<Rightarrow> string list option" where
  "split value separator = splitLoop value separator 0 []"

declare replaceAllLoop.simps [code] splitLoop.simps [code]

section \<open>Search\<close>

lemma findAt_Some:
  "findAt pat s = Some i \<Longrightarrow>
     i + length pat \<le> length s \<and> s = take i s @ pat @ drop (i + length pat) s \<and>
     (\<forall>j<i. \<not> prefix pat (drop j s))"
proof (induction s arbitrary: i)
  case Nil then show ?case by (auto split: if_splits)
next
  case (Cons c s)
  show ?case
  proof (cases "prefix pat (c # s)")
    case True
    then have "i = 0" using Cons.prems by simp
    with True show ?thesis using prefix_length_le [OF True] by (auto simp: prefix_def)
  next
    case False
    then obtain k where k: "i = Suc k" "findAt pat s = Some k" using Cons.prems by auto
    from Cons.IH [OF k(2)] False k(1) show ?thesis
      by (auto simp: less_Suc_eq_0_disj)
  qed
qed

lemma findAt_None: "findAt pat s = None \<longleftrightarrow> (\<forall>j\<le>length s. \<not> prefix pat (drop j s))"
proof (induction s)
  case Nil then show ?case by auto
next
  case (Cons c s)
  have "(\<forall>j\<le>length (c # s). \<not> prefix pat (drop j (c # s))) \<longleftrightarrow>
        \<not> prefix pat (c # s) \<and> (\<forall>j\<le>length s. \<not> prefix pat (drop j s))"
    by (metis drop0 drop_Suc_Cons le0 length_Cons not0_implies_Suc not_less_eq_eq)
  with Cons show ?case by simp
qed

lemma findAt_empty [simp]: "findAt [] s = Some 0"
  by (cases s) auto

lemma findAt_take_None:
  assumes "findAt pat s = Some i" "pat \<noteq> []" shows "findAt pat (take i s) = None"
  unfolding findAt_None
proof (intro allI impI notI)
  fix j assume j: "j \<le> length (take i s)" and "prefix pat (drop j (take i s))"
  moreover have "prefix (drop j (take i s)) (drop j s)" by (metis append_take_drop_id drop_take prefixI take_drop)
  ultimately have p: "prefix pat (drop j s)" using prefix_order.trans by blast
  have "j < i"
  proof (rule ccontr)
    assume "\<not> j < i" then have "drop j (take i s) = []" by simp
    with \<open>prefix pat (drop j (take i s))\<close> assms(2) show False by simp
  qed
  with p findAt_Some [OF assms(1)] show False by blast
qed

section \<open>Replacement\<close>

text \<open>Reference: left to right, non-overlapping, nothing inserted is scanned again.\<close>

function replaceSpec :: "string \<Rightarrow> string \<Rightarrow> string \<Rightarrow> string" where
  "replaceSpec old new s = (if old = [] then s
     else if prefix old s then new @ replaceSpec old new (drop (length old) s)
     else (case s of [] \<Rightarrow> [] | c # t \<Rightarrow> c # replaceSpec old new t))"
  by pat_completeness auto
termination
  by (relation "measure (\<lambda>(old, new, s). length s)") (auto simp: prefix_def)

declare replaceSpec.simps [simp del]

lemma replaceSpec_None: "old \<noteq> [] \<Longrightarrow> findAt old s = None \<Longrightarrow> replaceSpec old new s = s"
  by (induction s) (auto simp: replaceSpec.simps [of old new "_ # _"] replaceSpec.simps [of old new "[]"] split: if_splits)

lemma replaceSpec_Some:
  "old \<noteq> [] \<Longrightarrow> findAt old s = Some i \<Longrightarrow>
     replaceSpec old new s = take i s @ new @ replaceSpec old new (drop (i + length old) s)"
  by (induction s arbitrary: i) (auto simp: replaceSpec.simps [of old new "_ # _"] split: if_splits)

lemma find_behind [simp]: "find (pre @ s) pat (length pre) = map_option ((+) (length pre)) (findAt pat s)"
  by (simp add: find_def)

lemma replaceAllLoop_spec:
  assumes "old \<noteq> []"
  shows "replaceAllLoop old new (find (pre @ s) old (length pre)) (pre @ s) = Some (pre @ replaceSpec old new s)"
proof (induction "length s" arbitrary: pre s rule: less_induct)
  case less
  show ?case
  proof (cases "findAt old s")
    case None
    then show ?thesis by (subst replaceAllLoop.simps) (simp add: replaceSpec_None assms)
  next
    case (Some i)
    note f = findAt_Some [OF Some]
    let ?pre = "pre @ take i s @ new" and ?s = "drop (i + length old) s"
    have "length old > 0" "i + length old \<le> length s" using assms f by auto
    then have "length ?s < length s" unfolding length_drop by linarith
    then have IH: "replaceAllLoop old new (find (?pre @ ?s) old (length ?pre)) (?pre @ ?s)
        = Some (?pre @ replaceSpec old new ?s)" by (rule less)
    have "length (take i s) = i" using f by simp
    with IH show ?thesis
      by (subst replaceAllLoop.simps) (simp add: Some replaceSpec_Some [OF assms Some] ac_simps)
  qed
qed

lemma replaceAllLoop_empty:
  assumes "replaceAllLoop old new pos result = Some y"
  shows "\<not> (old = [] \<and> (\<exists>p. pos = Some p \<and> p \<le> length result))"
  using assms
proof (rule replaceAllLoop.raw_induct [rotated])
  fix loop old new pos result y
  assume IH: "\<And>old new pos result y. loop old new pos result = Some y \<Longrightarrow>
      \<not> (old = [] \<and> (\<exists>p. pos = Some p \<and> p \<le> length result))"
    and body: "(case pos of None \<Rightarrow> Some result
       | Some p \<Rightarrow> let result' = take p result @ new @ drop (p + length old) result in
           loop old new (find result' old (p + length new)) result') = Some y"
  show "\<not> (old = [] \<and> (\<exists>p. pos = Some p \<and> p \<le> length result))"
  proof
    assume "old = [] \<and> (\<exists>p. pos = Some p \<and> p \<le> length result)"
    then obtain p where p: "old = []" "pos = Some p" "p \<le> length result" by blast
    let ?r = "take p result @ new @ drop p result"
    have "loop [] new (find ?r [] (p + length new)) ?r = Some y" using body p by (simp add: Let_def)
    from IH [OF this] p show False by (simp add: find_def)
  qed
qed

section \<open>Splitting and joining\<close>

lemma foldl_delim: "foldl (\<lambda>x y. x @ d @ y) (a @ b) ps = a @ foldl (\<lambda>x y. x @ d @ y) b ps"
  by (induction ps arbitrary: b) auto

lemma join_single [simp]: "join [p] d = p"
  by (simp add: join_def)

lemma join_snoc: "ps \<noteq> [] \<Longrightarrow> join (ps @ [p]) d = join ps d @ d @ p"
  by (simp add: join_def)

lemma join_Cons: "ps \<noteq> [] \<Longrightarrow> join (p # ps) d = p @ d @ join ps d"
  using foldl_delim [of d "p @ d" "hd ps" "tl ps"] by (cases ps) (simp_all add: join_def)

lemma joinAll_join: "joinAll ps d = (if ps = [] then [] else d @ join ps d)"
  using foldl_delim [of d d "hd ps" "tl ps"] by (cases ps) (simp_all add: joinAll_def join_def)

text \<open>Reference: cut at each leftmost occurrence; no empty part after a final separator.\<close>

function splitSpec :: "string \<Rightarrow> string \<Rightarrow> string list" where
  "splitSpec sep s = (if s = [] \<or> sep = [] then [] else (case findAt sep s of
       None \<Rightarrow> [s] | Some i \<Rightarrow> take i s # splitSpec sep (drop (i + length sep) s)))"
  by pat_completeness auto
termination
  by (relation "measure (\<lambda>(sep, s). length s)") (auto dest: findAt_Some)

declare splitSpec.simps [simp del]

lemma splitLoop_spec:
  assumes "sep \<noteq> []"
  shows "splitLoop (pre @ s) sep (length pre) acc = Some (acc @ splitSpec sep s)"
proof (induction "length s" arbitrary: pre s acc rule: less_induct)
  case less
  have stop: "splitLoop v sep (length v) acc = Some acc" for v acc
    by (subst splitLoop.simps) simp
  show ?case
  proof (cases "s = []")
    case True then show ?thesis using stop [of pre] by (simp add: splitSpec.simps)
  next
    case ne: False
    show ?thesis
    proof (cases "findAt sep s")
      case None
      then show ?thesis using ne assms stop [of "pre @ s"]
        by (subst splitLoop.simps) (simp add: splitSpec.simps [of sep s])
    next
      case (Some i)
      note f = findAt_Some [OF Some]
      let ?pre = "pre @ take i s @ sep" and ?s = "drop (i + length sep) s"
      have "length ?s < length s" using assms f ne by simp
      then have IH: "splitLoop (?pre @ ?s) sep (length ?pre) (acc @ [take i s])
          = Some ((acc @ [take i s]) @ splitSpec sep ?s)" by (rule less)
      have eq: "?pre @ ?s = pre @ s" "length ?pre = length pre + i + length sep" using f by auto
      show ?thesis using IH ne assms unfolding eq
        by (subst splitLoop.simps) (simp add: Some splitSpec.simps [of sep s])
    qed
  qed
qed

lemma splitSpec_join:
  "sep \<noteq> [] \<Longrightarrow> join (splitSpec sep s) sep = s \<or> join (splitSpec sep s) sep @ sep = s"
proof (induction "length s" arbitrary: s rule: less_induct)
  case less
  show ?case
  proof (cases "s = [] \<or> findAt sep s = None")
    case True then show ?thesis using less.prems by (auto simp: splitSpec.simps [of sep s] join_def)
  next
    case False
    then obtain i where i: "findAt sep s = Some i" "s \<noteq> []" by auto
    note f = findAt_Some [OF i(1)]
    let ?s = "drop (i + length sep) s"
    have step: "splitSpec sep s = take i s # splitSpec sep ?s" using i less.prems by (simp add: splitSpec.simps [of sep s])
    have s: "s = take i s @ sep @ ?s" using f by blast
    show ?thesis
    proof (cases "?s = []")
      case True
      then have "splitSpec sep ?s = []" by (simp add: splitSpec.simps)
      then show ?thesis using step s True by simp
    next
      case ne: False
      then have "splitSpec sep ?s \<noteq> []" using less.prems by (subst splitSpec.simps) (simp split: option.splits)
      then have j: "join (splitSpec sep s) sep = take i s @ sep @ join (splitSpec sep ?s) sep"
        by (simp add: step join_Cons)
      have "length ?s < length s" using f i(2) less.prems by simp
      then have "join (splitSpec sep ?s) sep = ?s \<or> join (splitSpec sep ?s) sep @ sep = ?s"
        by (rule less.hyps [OF _ less.prems])
      then show ?thesis using s unfolding j by (metis append.assoc)
    qed
  qed
qed

lemma splitSpec_parts: "sep \<noteq> [] \<Longrightarrow> list_all (\<lambda>p. findAt sep p = None) (splitSpec sep s)"
  by (induction sep s rule: splitSpec.induct)
    (subst splitSpec.simps, auto simp: findAt_take_None split: option.splits)

lemma splitLoop_empty:
  assumes "splitLoop v sep start result = Some y"
  shows "\<not> (sep = [] \<and> start < length v)"
  using assms
proof (rule splitLoop.raw_induct [rotated])
  fix loop v sep start result y
  assume IH: "\<And>v sep start result y. loop v sep start result = Some y \<Longrightarrow> \<not> (sep = [] \<and> start < length v)"
    and body: "(if start < length v then
        (case find v sep start of
           Some index \<Rightarrow> loop v sep (index + length sep) (result @ [take (index - start) (drop start v)])
         | None \<Rightarrow> loop v sep (length v) (result @ [drop start v]))
      else Some result) = Some y"
  show "\<not> (sep = [] \<and> start < length v)"
    using body IH by (auto simp: find_def)
qed

text \<open>\<open>replaceAll\<close> computes the left-to-right, non-overlapping replacement, text it inserted
  not being searched again; with an empty pattern, and only then, it never returns.\<close>

lemma replaceAll_correct:
  "replaceAll v old new = (if old = [] then None else Some (replaceSpec old new v))"
proof (cases "old = []")
  case True
  have "replaceAllLoop [] new (Some 0) v = None"
    using replaceAllLoop_empty [of "[]" new "Some 0" v] by (cases "replaceAllLoop [] new (Some 0) v") auto
  with True show ?thesis by (simp add: replaceAll_def find_def)
next
  case False
  then show ?thesis using replaceAllLoop_spec [OF False, of new "[]" v] by (simp add: replaceAll_def)
qed

text \<open>\<open>split\<close> loses nothing but at most one final separator: it returns parts that do not
  contain the separator and whose \<open>join\<close> is the input, up to a separator at its very end;
  an empty separator makes it run forever on every non-empty input.\<close>

lemma split_correct:
  "(case split v sep of
      None \<Rightarrow> sep = [] \<and> v \<noteq> []
    | Some parts \<Rightarrow> (sep = [] \<and> v = [] \<and> parts = []) \<or>
        sep \<noteq> [] \<and> list_all (\<lambda>p. find p sep 0 = None) parts \<and>
        (join parts sep = v \<or> join parts sep @ sep = v))"
proof (cases "sep = []")
  case True
  show ?thesis
  proof (cases "split v sep")
    case None
    have "splitLoop [] [] 0 [] = Some []" by (subst splitLoop.simps) simp
    with None True show ?thesis by (auto simp: split_def)
  next
    case (Some parts)
    then have "v = []" using True splitLoop_empty [of v sep 0 "[]" parts] by (auto simp: split_def)
    moreover have "splitLoop [] [] 0 [] = Some []" by (subst splitLoop.simps) simp
    ultimately show ?thesis using True Some by (simp add: split_def)
  qed
next
  case False
  have "split v sep = Some (splitSpec sep v)"
    using splitLoop_spec [OF False, of "[]" v "[]"] by (simp add: split_def)
  with False show ?thesis using splitSpec_join [OF False] splitSpec_parts [OF False, of v]
    by (simp add: find_def)
qed

section \<open>Trimming\<close>

lemma subSize_le: "b \<le> a \<Longrightarrow> a < 2 ^ 64 \<Longrightarrow> subSize a b = a - b"
proof -
  assume "b \<le> a" "a < 2 ^ 64"
  then have "a + 2 ^ 64 - b = (a - b) + 2 ^ 64" by simp
  then show ?thesis using \<open>a < 2 ^ 64\<close> unfolding subSize_def by (simp only: mod_add_self2) simp
qed

lemma findFirstNotOf_dropWhile:
  "findFirstNotOf chars s = None \<and> dropWhile (\<lambda>c. c \<in> set chars) s = [] \<or>
   (\<exists>i. findFirstNotOf chars s = Some i \<and> i < length s \<and> dropWhile (\<lambda>c. c \<in> set chars) s = drop i s)"
  by (induction s) auto

lemma drop_find_first_not_of:
  assumes "length s < 2 ^ 63"
  shows "drop (min (find_first_not_of chars s) (length s)) s = dropWhile (\<lambda>c. c \<in> set chars) s"
  using findFirstNotOf_dropWhile [of chars s] assms
proof (elim disjE exE conjE)
  assume "findFirstNotOf chars s = None" "dropWhile (\<lambda>c. c \<in> set chars) s = []"
  moreover have "min npos (length s) = length s" using assms by (simp add: npos_def)
  ultimately show ?thesis by (simp only: find_first_not_of_def option.case) simp
qed (simp add: find_first_not_of_def min_def)

lemma take_find_last_not_of:
  assumes "length s < 2 ^ 63"
  shows "take (length s - min (subSize (subSize (length s) (find_last_not_of chars s)) 1) (length s)) s
    = rev (dropWhile (\<lambda>c. c \<in> set chars) (rev s))"
  using findFirstNotOf_dropWhile [of chars "rev s"]
proof (elim disjE exE conjE)
  assume n: "findFirstNotOf chars (rev s) = None" "dropWhile (\<lambda>c. c \<in> set chars) (rev s) = []"
  have "subSize (subSize (length s) npos) 1 = length s"
    using assms by (simp add: subSize_def npos_def)
  with n show ?thesis by (simp add: find_last_not_of_def)
next
  fix i assume i: "findFirstNotOf chars (rev s) = Some i" "i < length (rev s)"
    "dropWhile (\<lambda>c. c \<in> set chars) (rev s) = drop i (rev s)"
  have "subSize (length s) (length s - 1 - i) = i + 1" using i assms by (subst subSize_le) auto
  moreover have "subSize (i + 1) 1 = i" using i assms by (subst subSize_le) auto
  ultimately show ?thesis using i by (simp add: find_last_not_of_def drop_rev)
qed

text \<open>\<open>trim\<close>, written with unsigned position arithmetic that wraps when nothing is found,
  removes exactly the leading and trailing characters of the given set.\<close>

lemma trim_correct:
  assumes "length str < 2 ^ 63"
  shows "trim str chars = rev (dropWhile (\<lambda>c. c \<in> set chars) (rev (dropWhile (\<lambda>c. c \<in> set chars) str)))"
proof -
  have "length (dropWhile (\<lambda>c. c \<in> set chars) str) < 2 ^ 63"
    using assms length_dropWhile_le [of "\<lambda>c. c \<in> set chars" str] by linarith
  then show ?thesis
    using take_find_last_not_of drop_find_first_not_of [OF assms, of chars]
    by (simp add: trim_def trimView_def Let_def)
qed

lemma trim_correct_witness: "trim '' a b '' '' '' = ''a b'' \<and> trim ''  '' '' '' = []"
  using trim_correct [of "'' a b ''" "'' ''"] trim_correct [of "''  ''" "'' ''"] by simp

section \<open>Escaping and hexadecimal text\<close>

fun unescape :: "string \<Rightarrow> string" where
  "unescape (b # x # h # l # s) = (if b = CHR 0x5C
     then char_of (16 * charDigit h + charDigit l) # unescape s
     else b # unescape (x # h # l # s))"
| "unescape (c # s) = c # unescape s"
| "unescape [] = []"

lemma unescape_plain: "c \<noteq> CHR 0x5C \<Longrightarrow> unescape (c # s) = c # unescape s"
  by (cases "(c # s)" rule: unescape.cases) auto

lemma hex2_value: "n < 256 \<Longrightarrow> 16 * charDigit (hex2 n ! 0) + charDigit (hex2 n ! 1) = n"
  by (simp add: hex2_def)

text \<open>Escaping loses nothing: every byte string is recovered from its escaped form, which
  contains no quote and no byte outside the printable range.\<close>

lemma escapeUtf8_roundtrip:
  "unescape (escapeUtf8 s) = s \<and> list_all (\<lambda>c. plainChar c \<or> c = CHR 0x5C) (escapeUtf8 s)"
proof (induction s)
  case Nil then show ?case by (simp add: escapeUtf8_def)
next
  case (Cons c s)
  have "list_all (\<lambda>d. plainChar (digitChar d)) [0..<16]"
    by (simp add: upt_rec plainChar_def digitChar_def char_of_def bit_0)
  then have digit: "plainChar (digitChar d)" if "d < 16" for d
    using that by (auto simp: list_all_iff)
  show ?case
  proof (cases "plainChar c")
    case True
    then have "c \<noteq> CHR 0x5C" by (auto simp: plainChar_def)
    with True Cons show ?thesis by (simp add: escapeUtf8_def unescape_plain)
  next
    case False
    define h l where "h = digitChar (of_char c div 16 mod 16)" and "l = digitChar (of_char c mod 16)"
    have "of_char c < (256 :: nat)" by simp
    then have "16 * charDigit h + charDigit l = of_char c"
      using hex2_value [of "of_char c"] unfolding h_def l_def hex2_def by simp
    moreover have "plainChar h" "plainChar l" "plainChar CHR ''x''"
      unfolding h_def l_def by (simp_all add: digit) (simp add: plainChar_def)
    moreover have "escapeUtf8 (c # s) = CHR 0x5C # CHR ''x'' # h # l # escapeUtf8 s"
      using False by (simp add: escapeUtf8_def hex2_def h_def l_def)
    ultimately show ?thesis using Cons by simp
  qed
qed

lemma bytesToHexString_concat: "bytesToHexString bs = concat (map (\<lambda>b. hex2 (unat b)) bs)"
proof -
  have "foldl (\<lambda>result b. result @ hex2 (unat b)) acc bs = acc @ concat (map (\<lambda>b. hex2 (unat b)) bs)" for acc
    by (induction bs arbitrary: acc) auto
  then show ?thesis by (simp add: bytesToHexString_def)
qed

lemma unat_u1: "unat (b :: u1) < 256"
  using unsigned_less [of b, where 'a = nat] by simp

lemma bytesToHexString_inject: "bytesToHexString xs = bytesToHexString ys \<longleftrightarrow> xs = ys"
  unfolding bytesToHexString_concat
proof (induction xs arbitrary: ys)
  case Nil then show ?case by (cases ys) (auto simp: hex2_def)
next
  case (Cons x xs)
  show ?case
  proof (cases ys)
    case Nil then show ?thesis by (simp add: hex2_def)
  next
    case (Cons y ys')
    have "hex2 (unat x) = hex2 (unat y) \<longleftrightarrow> x = y"
      using hex2_inject [OF unat_u1 unat_u1, of x y] by (auto intro: unsigned_word_eqI)
    with Cons Cons.IH show ?thesis by (simp add: append_eq_append_conv)
  qed
qed

end
