(* ===== verification/Descriptors.thy ===== *)
theory Descriptors
  imports Prelude
begin

text \<open>
  Field and method descriptors: \<^verbatim>\<open>signature/SignatureScanner.h\<close>,
  \<^verbatim>\<open>DescriptorParser.h\<close>, \<^verbatim>\<open>MethodDescriptorParser.h\<close> and
  \<^verbatim>\<open>types/DescriptorTypes.h\<close>.  The three loops may run forever on malformed input,
  so they are \<open>partial_function (option)\<close>: \<open>None\<close> is a run that does not end,
  \<open>Some (Inl e)\<close> one that ends in a fault.
\<close>

section \<open>SignatureScanner\<close>

record scanner =
  signatureString :: string
  scanPos :: int

definition newScanner :: "string \<Rightarrow> scanner" where
  "newScanner str = \<lparr>signatureString = str, scanPos = -1\<rparr>"

definition scanSize :: "scanner \<Rightarrow> int" where
  "scanSize s = int (length (signatureString s))"

abbreviation nul :: char where
  "nul \<equiv> CHR 0x00"

definition getNextChar :: "scanner \<Rightarrow> char \<times> scanner" where
  "getNextChar s = (if scanPos s + 1 \<ge> scanSize s then (nul, s)
     else (signatureString s ! nat (scanPos s + 1), s\<lparr>scanPos := scanPos s + 1\<rparr>))"

definition peekNextChar :: "scanner \<Rightarrow> char" where
  "peekNextChar s = (if scanPos s + 1 \<ge> scanSize s then nul else signatureString s ! nat (scanPos s + 1))"

definition step :: "scanner \<Rightarrow> scanner" where
  "step s = (if scanPos s + 1 \<ge> scanSize s then s else s\<lparr>scanPos := scanPos s + 1\<rparr>)"

definition backStep :: "scanner \<Rightarrow> scanner" where
  "backStep s = (if scanPos s - 1 \<ge> 0 then s else s\<lparr>scanPos := scanPos s - 1\<rparr>)"

definition currentChar :: "scanner \<Rightarrow> char result" where
  "currentChar s = (if scanPos s \<ge> scanSize s then Inr nul
     else if scanPos s < 0 then Inl Undefined
     else Inr (signatureString s ! nat (scanPos s)))"

definition isEOF :: "scanner \<Rightarrow> bool" where
  "isEOF s = (scanPos s \<ge> scanSize s)"

definition resetScanner :: "int \<Rightarrow> scanner \<Rightarrow> scanner" where
  "resetScanner p s = s\<lparr>scanPos := p\<rparr>"

section \<open>Descriptor, MethodDescriptor\<close>

record descriptor =
  isArray :: bool
  isClass :: bool
  dimensions :: int
  dtype :: string

definition emptyDescriptor :: descriptor where
  "emptyDescriptor = \<lparr>isArray = False, isClass = False, dimensions = 0, dtype = []\<rparr>"

definition descriptorToString :: "descriptor \<Rightarrow> string" where
  "descriptorToString d = dtype d @ concat (replicate (nat (dimensions d)) ''[]'')"

record method_descriptor =
  arguments :: "descriptor list"
  returnType :: descriptor

fun appendArguments :: "string \<Rightarrow> bool \<Rightarrow> descriptor list \<Rightarrow> string" where
  "appendArguments result first [] = result"
| "appendArguments result first (a # as) =
     appendArguments ((if first then result else result @ '', '') @ descriptorToString a) False as"

definition argumentsToString :: "method_descriptor \<Rightarrow> string" where
  "argumentsToString m = appendArguments ''('' True (arguments m) @ '')''"

section \<open>DescriptorParser\<close>

fun primitiveName :: "char \<Rightarrow> string option" where
  "primitiveName c =
    (if c = CHR ''B'' then Some ''byte'' else if c = CHR ''C'' then Some ''char''
     else if c = CHR ''F'' then Some ''float'' else if c = CHR ''Z'' then Some ''boolean''
     else if c = CHR ''D'' then Some ''double'' else if c = CHR ''I'' then Some ''int''
     else if c = CHR ''J'' then Some ''long'' else if c = CHR ''S'' then Some ''short''
     else if c = CHR ''V'' then Some ''void'' else None)"

definition skippedChar :: "char \<Rightarrow> bool" where
  "skippedChar c \<longleftrightarrow> c \<in> {CHR ''('', CHR '')'', CHR ''/'', CHR ''.'', CHR ''E'', CHR ''<'', CHR ''>''}"

partial_function (option) fqLoop :: "char \<Rightarrow> scanner \<Rightarrow> string \<Rightarrow> (string \<times> scanner) option" where
  "fqLoop c s ty = (if c \<noteq> CHR '';'' then
       (let ty' = ty @ [if c \<noteq> CHR ''/'' then c else CHR ''.''] in
        case getNextChar s of (c', s') \<Rightarrow> fqLoop c' s' ty')
     else Some (ty, s))"

definition getFQClassname :: "descriptor \<Rightarrow> scanner \<Rightarrow> (descriptor \<times> scanner) option" where
  "getFQClassname d s = (case getNextChar s of (c, s') \<Rightarrow>
     map_option (\<lambda>(ty, s''). (d\<lparr>dtype := ty\<rparr>, s'')) (fqLoop c s' (dtype d)))"

text \<open>One pass of the \<^verbatim>\<open>switch\<close>; only the class case can fail to return.\<close>

definition descriptorCase :: "char \<Rightarrow> descriptor \<Rightarrow> scanner \<Rightarrow> (descriptor \<times> scanner) option" where
  "descriptorCase c d s =
    (if c = CHR ''['' then Some (d\<lparr>isArray := True, dimensions := dimensions d + 1\<rparr>, s)
     else if c = CHR ''L'' then getFQClassname (d\<lparr>isClass := True\<rparr>) s
     else if skippedChar c then Some (d, s)
     else (case primitiveName c of
         Some n \<Rightarrow> Some (d\<lparr>dtype := n\<rparr>, s)
       | None \<Rightarrow> Some (d\<lparr>dtype := signatureString s\<rparr>, s)))"

partial_function (option) descriptorLoop :: "char \<Rightarrow> descriptor \<Rightarrow> scanner \<Rightarrow> (descriptor \<times> scanner) option" where
  "descriptorLoop c d s = (if c \<noteq> nul \<and> dtype d = [] \<and> c \<noteq> CHR '')'' then
       Option.bind (descriptorCase c d s) (\<lambda>(d', s').
         case getNextChar s' of (c', s'') \<Rightarrow> descriptorLoop c' d' s'')
     else Some (d, s))"

definition descriptorParse :: "scanner \<Rightarrow> (descriptor \<times> scanner) result option" where
  "descriptorParse s = (case currentChar s of
       Inl e \<Rightarrow> Some (Inl e)
     | Inr c \<Rightarrow> map_option Inr (descriptorLoop c emptyDescriptor s))"

definition DescriptorParser :: "string \<Rightarrow> descriptor result option" where
  "DescriptorParser value = map_option (map_sum id fst) (descriptorParse (step (newScanner value)))"

section \<open>MethodDescriptorParser\<close>

partial_function (option) parseParameters ::
  "scanner \<Rightarrow> descriptor list \<Rightarrow> (descriptor list \<times> scanner) result option" where
  "parseParameters s args = (case currentChar s of
       Inl e \<Rightarrow> Some (Inl e)
     | Inr c \<Rightarrow> if c \<noteq> CHR '')'' then
         Option.bind (descriptorParse s) (\<lambda>r. case r of
             Inl e \<Rightarrow> Some (Inl e)
           | Inr (d, s') \<Rightarrow> parseParameters s' (args @ [d]))
         else Some (Inr (args, s)))"

definition parseReturnType :: "scanner \<Rightarrow> (descriptor \<times> scanner) result option" where
  "parseReturnType s = descriptorParse (step s)"

definition methodFunc :: "method_descriptor \<Rightarrow> scanner \<Rightarrow> (method_descriptor \<times> scanner) result option" where
  "methodFunc m s = Option.bind (parseParameters (step s) (arguments m)) (\<lambda>r. case r of
       Inl e \<Rightarrow> Some (Inl e)
     | Inr (args, s') \<Rightarrow> Option.bind (parseReturnType s') (\<lambda>r'. case r' of
         Inl e \<Rightarrow> Some (Inl e)
       | Inr (d, s'') \<Rightarrow> Some (Inr (m\<lparr>arguments := args, returnType := d\<rparr>, s''))))"

partial_function (option) methodLoop ::
  "char \<Rightarrow> method_descriptor \<Rightarrow> scanner \<Rightarrow> method_descriptor result option" where
  "methodLoop c m s = (if c \<noteq> nul then
       (if c = CHR ''('' then Option.bind (methodFunc m s) (\<lambda>r. case r of
            Inl e \<Rightarrow> Some (Inl e)
          | Inr (m', s') \<Rightarrow> (case getNextChar s' of (c', s'') \<Rightarrow> methodLoop c' m' s''))
        else Some (Inl AssertFail))
     else Some (Inr m))"

definition MethodDescriptorParser :: "string \<Rightarrow> method_descriptor result option" where
  "MethodDescriptorParser str = (case getNextChar (newScanner str) of (c, s) \<Rightarrow>
     methodLoop c \<lparr>arguments = [], returnType = emptyDescriptor\<rparr> s)"

declare fqLoop.simps [code] descriptorLoop.simps [code] parseParameters.simps [code] methodLoop.simps [code]

section \<open>Reference grammar\<close>

text \<open>Field types of the class-file format, how they are written, and what they denote.\<close>

datatype ftype = Prim char | Obj string | Arr ftype

fun wfType :: "ftype \<Rightarrow> bool" where
  "wfType (Prim c) = (primitiveName c \<noteq> None)"
| "wfType (Obj n) = (n \<noteq> [] \<and> CHR '';'' \<notin> set n)"
| "wfType (Arr t) = wfType t"

fun printType :: "ftype \<Rightarrow> string" where
  "printType (Prim c) = [c]"
| "printType (Obj n) = CHR ''L'' # n @ '';''"
| "printType (Arr t) = CHR ''['' # printType t"

fun typeDescriptor :: "ftype \<Rightarrow> descriptor" where
  "typeDescriptor (Prim c) = emptyDescriptor\<lparr>dtype := the (primitiveName c)\<rparr>"
| "typeDescriptor (Obj n) = emptyDescriptor\<lparr>isClass := True,
     dtype := map (\<lambda>c. if c \<noteq> CHR ''/'' then c else CHR ''.'') n\<rparr>"
| "typeDescriptor (Arr t) = (let d = typeDescriptor t in d\<lparr>isArray := True, dimensions := dimensions d + 1\<rparr>)"

definition printMethod :: "ftype list \<Rightarrow> ftype \<Rightarrow> string" where
  "printMethod args r = ''('' @ concat (map printType args) @ '')'' @ printType r"

section \<open>Scanning a known text\<close>

definition scanAt :: "string \<Rightarrow> string \<Rightarrow> scanner" where
  "scanAt pre suf = \<lparr>signatureString = pre @ suf, scanPos = int (length pre)\<rparr>"

lemma next_Cons [simp]: "getNextChar (scanAt pre (a # b # suf)) = (b, scanAt (pre @ [a]) (b # suf))"
proof -
  have "nat (int (length pre) + 1) = Suc (length pre)" by simp
  then show ?thesis by (simp add: getNextChar_def scanSize_def scanAt_def nth_append)
qed

lemma next_last [simp]: "getNextChar (scanAt pre [a]) = (nul, scanAt pre [a])"
  by (simp add: getNextChar_def scanSize_def scanAt_def)

lemma next_start [simp]: "getNextChar (newScanner (a # suf)) = (a, scanAt [] (a # suf))"
  by (simp add: getNextChar_def scanSize_def newScanner_def scanAt_def)

lemma step_Cons [simp]: "step (scanAt pre (a # b # suf)) = scanAt (pre @ [a]) (b # suf)"
  by (simp add: step_def scanSize_def scanAt_def)

lemma step_start [simp]: "step (newScanner (a # suf)) = scanAt [] (a # suf)"
  by (simp add: step_def scanSize_def newScanner_def scanAt_def)

lemma current_Cons [simp]: "currentChar (scanAt pre (a # suf)) = Inr a"
  by (simp add: currentChar_def scanSize_def scanAt_def nth_append)

text \<open>
  Where a descriptor parser leaves the scanner behind a text \<open>x\<close>: on the first character
  that follows, or still on the last character of \<open>x\<close> when nothing follows.
\<close>

definition behind :: "string \<Rightarrow> string \<Rightarrow> string \<Rightarrow> scanner" where
  "behind pre x suf = (if suf = [] then scanAt (pre @ butlast x) [last x] else scanAt (pre @ x) suf)"

lemma next_behind: "snd (getNextChar (scanAt (pre @ x) (a # suf))) = behind pre (x @ [a]) suf"
  by (cases suf) (simp_all add: behind_def)

lemma fqLoop_end [simp]: "fqLoop CHR '';'' s ty = Some (ty, s)"
  by (subst fqLoop.simps) simp

lemma fqLoop_name:
  "CHR '';'' \<notin> set (c # n) \<Longrightarrow>
   fqLoop c (scanAt pre (c # n @ '';'' @ suf)) ty =
     Some (ty @ map (\<lambda>c. if c \<noteq> CHR ''/'' then c else CHR ''.'') (c # n), scanAt (pre @ c # n) ('';'' @ suf))"
proof (induction n arbitrary: c pre ty)
  case Nil then show ?case by (subst fqLoop.simps) simp
next
  case (Cons d n)
  then show ?case using Cons.IH [of d "pre @ [c]"] by (subst fqLoop.simps) auto
qed

lemma descriptorLoop_done [simp]:
  "dtype d \<noteq> [] \<Longrightarrow> descriptorLoop c d s = Some (d, s)"
  by (subst descriptorLoop.simps) simp

lemma primitiveName_not:
  "primitiveName c = Some n \<Longrightarrow> c \<noteq> nul \<and> c \<noteq> CHR '')'' \<and> c \<noteq> CHR ''['' \<and> c \<noteq> CHR ''L'' \<and> \<not> skippedChar c \<and> n \<noteq> []"
  by (auto simp: skippedChar_def split: if_splits)

declare primitiveName.simps [simp del]

fun addDims :: "descriptor \<Rightarrow> descriptor \<Rightarrow> descriptor" where
  "addDims d e = e\<lparr>isArray := isArray d \<or> isArray e, dimensions := dimensions d + dimensions e\<rparr>"

lemma descriptorLoop_type:
  assumes "wfType t" "dtype d = []" "\<not> isClass d"
  shows "descriptorLoop (hd (printType t)) d (scanAt pre (printType t @ suf)) =
    Some (addDims d (typeDescriptor t), behind pre (printType t) suf)"
  using assms
proof (induction t arbitrary: d pre)
  case (Prim c)
  then obtain n where n: "primitiveName c = Some n" by auto
  have "snd (getNextChar (scanAt pre (c # suf))) = behind pre [c] suf"
    using next_behind [of pre "[]"] by simp
  then show ?case using Prim primitiveName_not [OF n]
    by (subst descriptorLoop.simps)
      (auto simp: descriptorCase_def n emptyDescriptor_def split: prod.splits)
next
  case (Obj n)
  then obtain c m where n: "n = c # m" by (cases n) auto
  have "fqLoop c (scanAt (pre @ ''L'') (c # m @ '';'' @ suf)) [] = Some (map (\<lambda>c. if c \<noteq> CHR ''/'' then c else CHR ''.'') n,
      scanAt (pre @ ''L'' @ n) ('';'' @ suf))" using fqLoop_name [of c m "pre @ ''L''" suf "[]"] Obj n by simp
  moreover have "snd (getNextChar (scanAt (pre @ ''L'' @ n) ('';'' @ suf))) = behind pre (''L'' @ n @ '';'') suf"
    using next_behind [of pre "''L'' @ n" "CHR '';''" suf] by simp
  ultimately show ?case using Obj n
    by (subst descriptorLoop.simps)
      (auto simp: descriptorCase_def getFQClassname_def emptyDescriptor_def split: prod.splits)
next
  case (Arr t)
  obtain c m where t: "printType t = c # m" by (cases t) auto
  let ?d = "d\<lparr>isArray := True, dimensions := dimensions d + 1\<rparr>"
  have "descriptorLoop c ?d (scanAt (pre @ ''['') (c # m @ suf)) =
      Some (addDims ?d (typeDescriptor t), behind (pre @ ''['') (c # m) suf)"
    using Arr.IH [of ?d "pre @ ''[''"] Arr.prems t by simp
  moreover have "behind (pre @ ''['') (c # m) suf = behind pre (CHR ''['' # c # m) suf"
    by (simp add: behind_def)
  ultimately show ?case using Arr.prems t
    by (subst descriptorLoop.simps) (simp add: descriptorCase_def Let_def)
qed

lemma printType_Cons: "\<exists>c m. printType t = c # m"
  by (cases t) auto

lemma hd_printType: "wfType t \<Longrightarrow> hd (printType t) \<noteq> CHR '')'' \<and> hd (printType t) \<noteq> nul"
  by (cases t) (auto dest: primitiveName_not)

lemma emptyDescriptor_fields [simp]:
  "isArray emptyDescriptor = False" "isClass emptyDescriptor = False"
  "dimensions emptyDescriptor = 0" "dtype emptyDescriptor = []"
  by (simp_all add: emptyDescriptor_def)

lemma descriptorParse_type:
  assumes "wfType t"
  shows "descriptorParse (scanAt pre (printType t @ suf)) = Some (Inr (typeDescriptor t, behind pre (printType t) suf))"
proof -
  obtain c m where t: "printType t = c # m" using printType_Cons by blast
  have "descriptorLoop c emptyDescriptor (scanAt pre (printType t @ suf)) =
      Some (typeDescriptor t, behind pre (printType t) suf)"
    using descriptorLoop_type [OF assms, of emptyDescriptor pre suf] t by simp
  then show ?thesis by (simp add: descriptorParse_def t)
qed

lemma parseParameters_types:
  assumes "list_all wfType ts"
  shows "parseParameters (scanAt pre (concat (map printType ts) @ CHR '')'' # suf)) args =
    Some (Inr (args @ map typeDescriptor ts, scanAt (pre @ concat (map printType ts)) (CHR '')'' # suf)))"
  using assms
proof (induction ts arbitrary: pre args)
  case Nil then show ?case by (subst parseParameters.simps) simp
next
  case (Cons t ts)
  obtain c m where t: "printType t = c # m" using printType_Cons by blast
  have c: "c \<noteq> CHR '')''" using hd_printType [of t] Cons.prems t by simp
  let ?suf = "concat (map printType ts) @ CHR '')'' # suf"
  have "descriptorParse (scanAt pre (printType t @ ?suf)) = Some (Inr (typeDescriptor t, scanAt (pre @ printType t) ?suf))"
    using descriptorParse_type [of t pre ?suf] Cons.prems by (simp add: behind_def)
  then show ?case using Cons c t
    by (subst parseParameters.simps) simp
qed

text \<open>On every well-formed field descriptor the parser returns, and the result has the
  dimensions, the class flag and the dotted or primitive type name the text denotes.\<close>

lemma descriptor_parsed:
  assumes "wfType t"
  shows "DescriptorParser (printType t) = Some (Inr (typeDescriptor t))"
proof -
  obtain c m where t: "printType t = c # m" using printType_Cons by blast
  have "descriptorParse (scanAt [] (printType t)) = Some (Inr (typeDescriptor t, behind [] (printType t) []))"
    using descriptorParse_type [OF assms, of "[]" "[]"] by simp
  then show ?thesis by (simp add: DescriptorParser_def t)
qed

lemma descriptor_parsed_witness:
  "wfType (Arr (Obj ''java/lang/String'')) \<and> map_option (map_sum id descriptorToString)
     (DescriptorParser ''[Ljava/lang/String;'') = Some (Inr ''java.lang.String[]'')"
  using descriptor_parsed [of "Arr (Obj ''java/lang/String'')"]
  by (simp add: descriptorToString_def emptyDescriptor_def)

text \<open>A method descriptor is read argument by argument.\<close>

lemma method_descriptor_parsed:
  assumes "list_all wfType args" "wfType r"
  shows "MethodDescriptorParser (printMethod args r) =
    Some (Inr \<lparr>arguments = map typeDescriptor args, returnType = typeDescriptor r\<rparr>)"
proof -
  let ?ps = "concat (map printType args)"
  obtain c m where r: "printType r = c # m" using printType_Cons by blast
  obtain p ps where p: "?ps @ CHR '')'' # printType r = p # ps" by (cases "?ps @ CHR '')'' # printType r") auto
  have start: "step (scanAt [] (CHR ''('' # ?ps @ CHR '')'' # printType r)) = scanAt ''('' (?ps @ CHR '')'' # printType r)"
    unfolding p by simp
  have ret: "step (scanAt (''('' @ ?ps) (CHR '')'' # printType r)) = scanAt (''('' @ ?ps @ '')'') (printType r @ [])"
    unfolding r by simp
  have last: "getNextChar (behind pre (printType r) []) = (nul, behind pre (printType r) [])" for pre
    by (simp add: behind_def)
  have stop: "methodLoop nul m' s = Some (Inr m')" for m' s by (subst methodLoop.simps) simp
  show ?thesis
    using parseParameters_types [OF assms(1), of "''(''" "printType r" "[]"]
      descriptorParse_type [OF assms(2), of "''('' @ ?ps @ '')''" "[]"] last [of "''('' @ ?ps @ '')''"]
    by (simp add: MethodDescriptorParser_def printMethod_def methodLoop.simps [of "CHR ''(''"] methodFunc_def start
        parseReturnType_def ret [simplified] stop)
qed

text \<open>(C36) Field and method descriptors are read back.  On the text of every well-formed type (a primitive, a class or an
  array of one, nested to any depth) the field parser returns, and its result has the dimensions, the class flag
  and the dotted or primitive name of the type.  On the text of every well-formed method descriptor the
  method parser returns one such result per argument, in order, and the one of the return type.\<close>

theorem MethodDescriptorParser_correct:
  assumes "list_all wfType args" "wfType r"
  shows "MethodDescriptorParser (printMethod args r) =
      Some (Inr \<lparr>arguments = map typeDescriptor args, returnType = typeDescriptor r\<rparr>) \<and>
    map DescriptorParser (map printType args) = map (\<lambda>t. Some (Inr (typeDescriptor t))) args"
  using method_descriptor_parsed [OF assms] descriptor_parsed assms(1) by (simp add: list_all_iff)

theorem MethodDescriptorParser_correct_witness:
  "map_option (map_sum id (\<lambda>m. (argumentsToString m, descriptorToString (returnType m))))
     (MethodDescriptorParser ''(I[[Lq/X;)V'') = Some (Inr (''(int, q.X[][])'', ''void''))"
  using MethodDescriptorParser_correct [of "[Prim CHR ''I'', Arr (Arr (Obj ''q/X''))]" "Prim CHR ''V''"]
  by (simp add: printMethod_def primitiveName.simps argumentsToString_def descriptorToString_def emptyDescriptor_def numeral_2_eq_2)

section \<open>Malformed descriptors\<close>

definition noEnd :: "scanner \<Rightarrow> bool" where
  "noEnd s \<longleftrightarrow> CHR '')'' \<notin> set (signatureString s) \<and> 0 \<le> scanPos s \<and> scanPos s < scanSize s"

lemma noEnd_next: "noEnd s \<Longrightarrow> getNextChar s = (c, s') \<Longrightarrow> noEnd s'"
  by (auto simp: noEnd_def getNextChar_def scanSize_def split: if_splits)

lemma noEnd_current: "noEnd s \<Longrightarrow> \<exists>c. currentChar s = Inr c \<and> c \<noteq> CHR '')''"
  by (auto simp: noEnd_def currentChar_def scanSize_def) (metis nat_less_iff nth_mem)

lemma noEnd_fqLoop:
  assumes "fqLoop c s ty = Some y"
  shows "noEnd s \<longrightarrow> noEnd (snd y)"
  using assms
proof (rule fqLoop.raw_induct [rotated])
  fix loop c s ty y
  assume IH: "\<And>c s ty y. loop c s ty = Some y \<Longrightarrow> noEnd s \<longrightarrow> noEnd (snd y)"
    and body: "(if c \<noteq> CHR '';'' then let ty' = ty @ [if c \<noteq> CHR ''/'' then c else CHR ''.''] in
       case getNextChar s of (c', s') \<Rightarrow> loop c' s' ty' else Some (ty, s)) = Some y"
  show "noEnd s \<longrightarrow> noEnd (snd y)"
  proof (cases "c = CHR '';''")
    case True with body show ?thesis by auto
  next
    case False
    obtain c' s' where n: "getNextChar s = (c', s')" by fastforce
    obtain ty' where "loop c' s' ty' = Some y" using body False n by (simp add: Let_def)
    with IH noEnd_next [OF _ n] show ?thesis by blast
  qed
qed

lemma noEnd_case: "descriptorCase c d s = Some (d', s') \<Longrightarrow> noEnd s \<Longrightarrow> noEnd s'"
  by (auto simp: descriptorCase_def getFQClassname_def dest!: noEnd_fqLoop dest: noEnd_next
      split: if_splits prod.splits option.splits)

lemma noEnd_descriptorLoop:
  assumes "descriptorLoop c d s = Some y"
  shows "noEnd s \<longrightarrow> noEnd (snd y)"
  using assms
proof (rule descriptorLoop.raw_induct [rotated])
  fix loop c d s y
  assume IH: "\<And>c d s y. loop c d s = Some y \<Longrightarrow> noEnd s \<longrightarrow> noEnd (snd y)"
    and body: "(if c \<noteq> nul \<and> dtype d = [] \<and> c \<noteq> CHR '')'' then
       Option.bind (descriptorCase c d s) (\<lambda>(d', s').
         case getNextChar s' of (c', s'') \<Rightarrow> loop c' d' s'') else Some (d, s)) = Some y"
  show "noEnd s \<longrightarrow> noEnd (snd y)"
  proof
    assume s: "noEnd s"
    show "noEnd (snd y)"
    proof (cases "c \<noteq> nul \<and> dtype d = [] \<and> c \<noteq> CHR '')''")
      case False with body s show ?thesis by auto
    next
      case True
      then obtain d' s' where k: "descriptorCase c d s = Some (d', s')"
          "(case getNextChar s' of (c', s'') \<Rightarrow> loop c' d' s'') = Some y"
        using body by (auto simp: bind_eq_Some_conv)
      obtain c' s'' where n: "getNextChar s' = (c', s'')" by fastforce
      have "noEnd s''" using noEnd_next [OF noEnd_case [OF k(1) s] n] .
      then show ?thesis using IH k(2) n by simp
    qed
  qed
qed

lemma noEnd_parseParameters:
  assumes "parseParameters s args = Some y" shows "\<not> noEnd s"
  using assms
proof (rule parseParameters.raw_induct [rotated])
  fix loop s args y
  assume IH: "\<And>s args y. loop s args = Some y \<Longrightarrow> \<not> noEnd s"
    and body: "(case currentChar s of Inl e \<Rightarrow> Some (Inl e)
     | Inr c \<Rightarrow> if c \<noteq> CHR '')'' then Option.bind (descriptorParse s) (\<lambda>r. case r of
             Inl e \<Rightarrow> Some (Inl e) | Inr (d, s') \<Rightarrow> loop s' (args @ [d]))
         else Some (Inr (args, s))) = Some y"
  show "\<not> noEnd s"
  proof
    assume s: "noEnd s"
    then obtain c where c: "currentChar s = Inr c" "c \<noteq> CHR '')''" using noEnd_current by blast
    then obtain d s' where "descriptorLoop c emptyDescriptor s = Some (d, s')" "loop s' (args @ [d]) = Some y"
      using body by (auto simp: bind_eq_Some_conv descriptorParse_def)
    with IH noEnd_descriptorLoop s show False by fastforce
  qed
qed

text \<open>A method descriptor whose parameter list is not closed is never rejected: the parser
  runs forever on every text of the form \<open>(\<close> followed by characters other than \<open>)\<close>.\<close>

lemma MethodDescriptorParser_unclosed:
  assumes "str \<noteq> []" "CHR '')'' \<notin> set str"
  shows "MethodDescriptorParser (CHR ''('' # str) = None"
proof -
  obtain a b where str: "str = a # b" using assms(1) by (cases str) auto
  have "noEnd (scanAt [CHR ''(''] str)" using assms str by (simp add: noEnd_def scanAt_def scanSize_def)
  then have "parseParameters (scanAt [CHR ''(''] str) [] = None"
    using noEnd_parseParameters by (metis not_None_eq)
  then show ?thesis
    by (simp add: MethodDescriptorParser_def methodLoop.simps [of "CHR ''(''"] methodFunc_def str)
qed

lemma MethodDescriptorParser_unclosed_witness: "MethodDescriptorParser ''(I'' = None"
  using MethodDescriptorParser_unclosed [of "''I''"] by simp

end
