(* ===== verification/Constant_Pool.thy ===== *)
theory Constant_Pool
  imports Reader String_Utils Descriptors
begin

text \<open>
  The constant pool of a class file: the records of \<^verbatim>\<open>constantpool/ConstpoolStructures.h\<close>
  and the class \<^verbatim>\<open>ConstantPool\<close>.  The pool is a list of optional records, \<open>None\<close> being
  a null slot: slot 0 and the slot after each \<^verbatim>\<open>long\<close> or \<^verbatim>\<open>double\<close>.  Reading a
  member of the record union that is not the one stored is \<open>Undefined\<close>, and so is the
  dereference of a null slot; an index outside the pool fails the \<^verbatim>\<open>assert\<close> of
  \<open>getEntry\<close>.
\<close>

section \<open>Records\<close>

datatype constant_pool_record =
    Utf8Info bytes
  | IntegerInfo u4
  | FloatInfo u4
  | LongInfo u4 u4
  | DoubleInfo u4 u4
  | ClassInfo u2
  | StringInfo u2
  | FieldrefInfo u2 u2
  | MethodrefInfo u2 u2
  | InterfaceMethodrefInfo u2 u2
  | NameAndTypeInfo u2 u2
  | MethodHandleInfo u1 u2
  | MethodTypeInfo u2
  | DynamicInfo u2 u2
  | InvokeDynamicInfo u2 u2
  | ModuleInfo u2
  | PackageInfo u2

fun recordTag :: "constant_pool_record \<Rightarrow> u1" where
  "recordTag (Utf8Info _) = 1"
| "recordTag (IntegerInfo _) = 3"
| "recordTag (FloatInfo _) = 4"
| "recordTag (LongInfo _ _) = 5"
| "recordTag (DoubleInfo _ _) = 6"
| "recordTag (ClassInfo _) = 7"
| "recordTag (StringInfo _) = 8"
| "recordTag (FieldrefInfo _ _) = 9"
| "recordTag (MethodrefInfo _ _) = 10"
| "recordTag (InterfaceMethodrefInfo _ _) = 11"
| "recordTag (NameAndTypeInfo _ _) = 12"
| "recordTag (MethodHandleInfo _ _) = 15"
| "recordTag (MethodTypeInfo _) = 16"
| "recordTag (DynamicInfo _ _) = 17"
| "recordTag (InvokeDynamicInfo _ _) = 18"
| "recordTag (ModuleInfo _) = 19"
| "recordTag (PackageInfo _) = 20"

definition getAsUtf8 :: "bytes \<Rightarrow> bool \<Rightarrow> string" where
  "getAsUtf8 bs withEscaped = (let result = map byteChar bs in
     if withEscaped then escapeUtf8 result else result)"

definition getLongLong :: "u4 \<Rightarrow> u4 \<Rightarrow> 64 word" where
  "getLongLong highBytes lowBytes = push_bit 32 (ucast highBytes) OR ucast lowBytes"

text \<open>The bits of the \<^verbatim>\<open>double\<close> that \<^verbatim>\<open>getDouble\<close> reinterprets.\<close>

definition getDouble :: "u4 \<Rightarrow> u4 \<Rightarrow> 64 word" where
  "getDouble highBytes lowBytes = push_bit 32 (ucast highBytes) OR ucast lowBytes"

section \<open>Floating-point text\<close>

text \<open>
  \<^verbatim>\<open>std::to_string\<close> prints like \<^verbatim>\<open>%f\<close>: six decimals of the exact value, rounded to
  nearest, ties to even.  A number is its sign, exponent and fraction fields.
\<close>

definition roundDiv :: "nat \<Rightarrow> nat \<Rightarrow> nat" where
  "roundDiv a b = (let q = a div b; r = a mod b in
     if 2 * r < b then q else if 2 * r > b then q + 1 else if even q then q else q + 1)"

definition pad6 :: "nat \<Rightarrow> string" where
  "pad6 n = (let s = natToString n in replicate (6 - length s) CHR ''0'' @ s)"

definition fixed6 :: "nat \<Rightarrow> string" where
  "fixed6 n = natToString (n div 1000000) @ ''.'' @ pad6 (n mod 1000000)"

definition floatText :: "nat \<Rightarrow> nat \<Rightarrow> nat \<Rightarrow> string" where
  "floatText expBits fracBits x =
     (let neg = odd (x div 2 ^ (expBits + fracBits));
          e = x div 2 ^ fracBits mod 2 ^ expBits;
          f = x mod 2 ^ fracBits;
          bias = 2 ^ (expBits - 1) - 1 + fracBits;
          body = (if e = 2 ^ expBits - 1 then (if f = 0 then ''inf'' else ''nan'')
            else let mant = (if e = 0 then f else f + 2 ^ fracBits); ex = max 1 e in
              fixed6 (if ex \<ge> bias then mant * 2 ^ (ex - bias) * 1000000
                else roundDiv (mant * 1000000) (2 ^ (bias - ex))))
      in (if neg then ''-'' else []) @ body)"

definition floatToString :: "u4 \<Rightarrow> string" where
  "floatToString w = floatText 8 23 (unat w)"

definition doubleToString :: "64 word \<Rightarrow> string" where
  "doubleToString w = floatText 11 52 (unat w)"

section \<open>ConstantPool\<close>

type_synonym constant_pool = "constant_pool_record option list"

definition emptyPool :: constant_pool where
  "emptyPool = [None]"

definition addEmptyIndex :: "constant_pool \<Rightarrow> constant_pool" where
  "addEmptyIndex p = p @ [None]"

definition addRecord :: "constant_pool_record \<Rightarrow> constant_pool \<Rightarrow> constant_pool" where
  "addRecord r p = p @ [Some r]"

definition addUtf8Record :: "bytes \<Rightarrow> constant_pool \<Rightarrow> constant_pool" where
  "addUtf8Record val p = (let len = (of_nat (length val) :: u2) in p @ [Some (Utf8Info (take (unat len) val))])"

definition getPoolSize :: "constant_pool \<Rightarrow> u2" where
  "getPoolSize p = of_nat (length p)"

partial_function (option) getNextIndex :: "constant_pool \<Rightarrow> u2 \<Rightarrow> u2 option" where
  "getNextIndex p index =
     (if unat index < length p then
        (let index' = index + 1 in
         if unat index' \<ge> length p \<or> p ! unat index' \<noteq> None then Some index' else getNextIndex p index')
      else Some index)"

declare getNextIndex.simps [code]

definition getEntry :: "constant_pool \<Rightarrow> u2 \<Rightarrow> constant_pool_record result" where
  "getEntry p index = (if \<not> unat index < length p then Inl AssertFail
     else (case p ! unat index of None \<Rightarrow> Inl Undefined | Some r \<Rightarrow> Inr r))"

fun utf8Info :: "constant_pool_record \<Rightarrow> bytes result" where
  "utf8Info (Utf8Info bs) = Inr bs"
| "utf8Info _ = Inl Undefined"

fun classInfo :: "constant_pool_record \<Rightarrow> u2 result" where
  "classInfo (ClassInfo n) = Inr n"
| "classInfo _ = Inl Undefined"

definition getString :: "constant_pool \<Rightarrow> u2 \<Rightarrow> bool \<Rightarrow> string result" where
  "getString p stringIndex withEscaped =
     bindR (getEntry p stringIndex) (\<lambda>r. bindR (utf8Info r) (\<lambda>bs. Inr (getAsUtf8 bs withEscaped)))"

definition getClassname :: "constant_pool \<Rightarrow> u2 \<Rightarrow> string result" where
  "getClassname p nameIndex = (if nameIndex = 0 then Inr ''<anonymous>''
     else bindR (getEntry p nameIndex) (\<lambda>r. bindR (utf8Info r) (\<lambda>bs. Inr (getAsUtf8 bs False))))"

definition getClassInfoName :: "constant_pool \<Rightarrow> u2 \<Rightarrow> string result" where
  "getClassInfoName p classInfoIndex = (if classInfoIndex = 0 then Inr []
     else bindR (getEntry p classInfoIndex) (\<lambda>r. bindR (classInfo r) (\<lambda>n. getClassname p n)))"

definition getTypeString :: "constant_pool \<Rightarrow> u2 \<Rightarrow> string result option" where
  "getTypeString p stringIndex = (case getString p stringIndex False of
       Inl e \<Rightarrow> Some (Inl e)
     | Inr ty \<Rightarrow> map_option (map_sum id descriptorToString) (DescriptorParser ty))"

fun constantText :: "constant_pool \<Rightarrow> constant_pool_record \<Rightarrow> string result" where
  "constantText p (IntegerInfo v) = Inr (intToString (sint v))"
| "constantText p (FloatInfo v) = Inr (floatToString v)"
| "constantText p (LongInfo h l) = Inr (intToString (sint (getLongLong h l)))"
| "constantText p (DoubleInfo h l) = Inr (doubleToString (getDouble h l))"
| "constantText p (Utf8Info bs) = Inr ([CHR 0x22] @ getAsUtf8 bs True @ [CHR 0x22])"
| "constantText p (StringInfo i) = getString p i False"
| "constantText p (ClassInfo n) = getClassInfoName p n"
| "constantText p _ = Inl AssertFail"

definition getConstantValueString :: "constant_pool \<Rightarrow> u2 \<Rightarrow> string result" where
  "getConstantValueString p constantIndex = bindR (getEntry p constantIndex) (constantText p)"

section \<open>Well-formed pools\<close>

definition entryIs :: "(constant_pool_record \<Rightarrow> bool) \<Rightarrow> constant_pool \<Rightarrow> u2 \<Rightarrow> bool" where
  "entryIs q p i = (case getEntry p i of Inl _ \<Rightarrow> False | Inr r \<Rightarrow> q r)"

definition isUtf8 :: "constant_pool_record \<Rightarrow> bool" where
  "isUtf8 r = isOk (utf8Info r)"

definition isClassInfo :: "constant_pool_record \<Rightarrow> bool" where
  "isClassInfo r = isOk (classInfo r)"

fun isNameAndType :: "constant_pool_record \<Rightarrow> bool" where
  "isNameAndType (NameAndTypeInfo _ _) = True"
| "isNameAndType _ = False"

text \<open>Each record refers to records of the kinds the class-file format asks for.\<close>

fun wfRecord :: "constant_pool \<Rightarrow> constant_pool_record \<Rightarrow> bool" where
  "wfRecord p (ClassInfo n) = entryIs isUtf8 p n"
| "wfRecord p (StringInfo n) = entryIs isUtf8 p n"
| "wfRecord p (ModuleInfo n) = entryIs isUtf8 p n"
| "wfRecord p (PackageInfo n) = entryIs isUtf8 p n"
| "wfRecord p (MethodTypeInfo n) = entryIs isUtf8 p n"
| "wfRecord p (NameAndTypeInfo n d) = (entryIs isUtf8 p n \<and> entryIs isUtf8 p d)"
| "wfRecord p (FieldrefInfo c n) = (entryIs isClassInfo p c \<and> entryIs isNameAndType p n)"
| "wfRecord p (MethodrefInfo c n) = (entryIs isClassInfo p c \<and> entryIs isNameAndType p n)"
| "wfRecord p (InterfaceMethodrefInfo c n) = (entryIs isClassInfo p c \<and> entryIs isNameAndType p n)"
| "wfRecord p (DynamicInfo b n) = entryIs isNameAndType p n"
| "wfRecord p (InvokeDynamicInfo b n) = entryIs isNameAndType p n"
| "wfRecord p _ = True"

definition wfPool :: "constant_pool \<Rightarrow> bool" where
  "wfPool p \<longleftrightarrow> p \<noteq> [] \<and> hd p = None \<and> length p \<le> 65535 \<and>
     list_all (\<lambda>e. case e of None \<Rightarrow> True | Some r \<Rightarrow> wfRecord p r) p"

lemma getEntry_Inr_iff: "getEntry p i = Inr r \<longleftrightarrow> unat i < length p \<and> p ! unat i = Some r"
  by (auto simp: getEntry_def split: option.splits)

lemma entryIs_iff: "entryIs q p i \<longleftrightarrow> (\<exists>r. getEntry p i = Inr r \<and> q r)"
  by (auto simp: entryIs_def split: sum.splits)

lemma isUtf8_iff: "isUtf8 r \<longleftrightarrow> (\<exists>bs. r = Utf8Info bs)"
  by (cases r) (auto simp: isUtf8_def)

lemma isClassInfo_iff: "isClassInfo r \<longleftrightarrow> (\<exists>n. r = ClassInfo n)"
  by (cases r) (auto simp: isClassInfo_def)

lemma isNameAndType_iff: "isNameAndType r \<longleftrightarrow> (\<exists>n d. r = NameAndTypeInfo n d)"
  by (cases r) auto

lemmas entry_iffs = entryIs_iff isUtf8_iff isClassInfo_iff isNameAndType_iff

lemma wfPool_entry: "wfPool p \<Longrightarrow> getEntry p i = Inr r \<Longrightarrow> wfRecord p r"
  unfolding wfPool_def getEntry_Inr_iff list_all_length by fastforce

lemma wfPool_zero: "wfPool p \<Longrightarrow> \<not> entryIs q p 0"
  by (auto simp: wfPool_def entryIs_def getEntry_def hd_conv_nth)

lemma getString_utf8: "entryIs isUtf8 p i \<Longrightarrow> isOk (getString p i e)"
  by (auto simp: entry_iffs getString_def)

lemma getClassname_utf8: "entryIs isUtf8 p i \<Longrightarrow> isOk (getClassname p i)"
  by (auto simp: entry_iffs getClassname_def)

lemma getClassInfoName_class: "wfPool p \<Longrightarrow> entryIs isClassInfo p i \<Longrightarrow> isOk (getClassInfoName p i)"
  using wfPool_entry [of p i] getClassname_utf8 by (fastforce simp: entry_iffs getClassInfoName_def)

text \<open>In a well-formed pool the name of a class record is the text of the utf8 record it
  points to, and no lookup of a class or string constant faults.\<close>

lemma constant_lookup_wf:
  assumes "wfPool p" "getEntry p i = Inr r"
  shows "case r of
      ClassInfo n \<Rightarrow> (\<exists>bs. getEntry p n = Inr (Utf8Info bs) \<and> getClassInfoName p i = Inr (map byteChar bs))
    | StringInfo n \<Rightarrow> (\<exists>bs. getEntry p n = Inr (Utf8Info bs) \<and> getConstantValueString p i = Inr (map byteChar bs))
    | IntegerInfo v \<Rightarrow> getConstantValueString p i = Inr (intToString (sint v))
    | Utf8Info bs \<Rightarrow> getString p i False = Inr (map byteChar bs)
    | _ \<Rightarrow> True"
proof -
  have zero: "i \<noteq> 0" "\<And>n q. entryIs q p n \<Longrightarrow> n \<noteq> 0"
    using assms wfPool_zero [of p "\<lambda>_. True"] wfPool_zero [of p] by (auto simp: entryIs_iff)
  show ?thesis using assms zero wfPool_entry [OF assms]
    by (cases r) (auto simp: entry_iffs getClassInfoName_def getClassname_def getConstantValueString_def
        getString_def getAsUtf8_def)
qed

lemma constant_lookup_wf_witness:
  "wfPool [None, Some (ClassInfo 2), Some (Utf8Info [65, 47, 66])] \<and>
   getClassInfoName [None, Some (ClassInfo 2), Some (Utf8Info [65, 47, 66])] 1 = Inr ''A/B''"
proof -
  let ?p = "[None, Some (ClassInfo 2), Some (Utf8Info [65, 47, 66])]"
  have wf: "wfPool ?p" "getEntry ?p 1 = Inr (ClassInfo 2)" "getEntry ?p 2 = Inr (Utf8Info [65, 47, 66])"
    "map byteChar [65, 47, 66] = ''A/B''"
    by (simp_all add: wfPool_def entryIs_def getEntry_def isUtf8_def byteChar_def char_of_def bit_0)
  show ?thesis using constant_lookup_wf [OF wf(1,2)] wf by simp
qed

text \<open>The text of a class constant: \<open>getConstantValueString\<close> hands the name index of the
  class record to \<open>getClassInfoName\<close>, which expects the index of the class record, so in a
  well-formed pool it reads a utf8 record as a class record.\<close>

lemma class_constant_text_undefined:
  assumes "wfPool p" "getEntry p i = Inr (ClassInfo n)"
  shows "getConstantValueString p i = Inl Undefined"
proof -
  have "entryIs isUtf8 p n" using wfPool_entry [OF assms] by simp
  moreover have "n \<noteq> 0" using wfPool_zero [OF assms(1)] calculation by blast
  ultimately show ?thesis using assms(2)
    by (auto simp: entry_iffs getConstantValueString_def getClassInfoName_def)
qed

lemma class_constant_text_undefined_witness:
  "getConstantValueString [None, Some (ClassInfo 2), Some (Utf8Info [65])] 1 = Inl Undefined"
proof -
  have "wfPool [None, Some (ClassInfo 2), Some (Utf8Info [65])]"
    "getEntry [None, Some (ClassInfo 2), Some (Utf8Info [65])] 1 = Inr (ClassInfo 2)"
    by (simp_all add: wfPool_def entryIs_def getEntry_def isUtf8_def)
  then show ?thesis by (rule class_constant_text_undefined)
qed

section \<open>Iteration\<close>

lemma getNextIndex_next:
  assumes "length p \<le> 65535" "unat i < j" "j \<le> length p" "\<And>k. unat i < k \<Longrightarrow> k < j \<Longrightarrow> p ! k = None"
    "j < length p \<Longrightarrow> p ! j \<noteq> None"
  shows "getNextIndex p i = Some (of_nat j)"
  using assms
proof (induction "j - unat i" arbitrary: i)
  case 0 then show ?case by simp
next
  case (Suc d)
  have i: "unat i < length p" using Suc.prems by linarith
  then have i1: "unat (i + 1) = Suc (unat i)" using Suc.prems(1) by (simp add: unat_plus_if_size word_size)
  show ?case
  proof (cases "j = Suc (unat i)")
    case True
    then have "of_nat j = i + 1" using arg_cong [OF i1, of "of_nat :: nat \<Rightarrow> u2"] by simp
    then show ?thesis using Suc.prems i i1 True by (subst getNextIndex.simps) (auto simp: Let_def)
  next
    case False
    then have "Suc (unat i) < j" using Suc.prems by linarith
    moreover have "getNextIndex p (i + 1) = Some (of_nat j)"
      using Suc.hyps(2) Suc.prems i1 calculation by (intro Suc.hyps(1)) auto
    ultimately show ?thesis using Suc.prems i i1 by (subst getNextIndex.simps) (auto simp: Let_def)
  qed
qed

lemma next_slot:
  assumes "i < length p"
  shows "\<exists>j. i < j \<and> j \<le> length p \<and> (\<forall>k. i < k \<and> k < j \<longrightarrow> p ! k = None) \<and> (j < length p \<longrightarrow> p ! j \<noteq> None)"
proof -
  let ?P = "\<lambda>j. i < j \<and> (j < length p \<longrightarrow> p ! j \<noteq> None)"
  define j where "j = (LEAST j. ?P j)"
  have P: "?P (length p)" using assms by simp
  have "?P j" unfolding j_def using P by (rule LeastI)
  moreover have "j \<le> length p" unfolding j_def using P by (rule Least_le)
  moreover have "p ! k = None" if "i < k" "k < j" for k
    using not_less_Least [of k ?P] that unfolding j_def [symmetric] by auto
  ultimately show ?thesis by blast
qed

text \<open>Iterating a pool of at most 65535 slots: from every index inside the pool
  \<open>getNextIndex\<close> returns, moves forward, skips exactly the null slots and stops at the next
  record or at the pool size.\<close>

lemma getNextIndex_correct:
  assumes "length p \<le> 65535" "unat i < length p"
  shows "\<exists>j. getNextIndex p i = Some j \<and> unat i < unat j \<and> unat j \<le> length p \<and>
     (\<forall>k. unat i < k \<and> k < unat j \<longrightarrow> p ! k = None) \<and> (unat j < length p \<longrightarrow> p ! unat j \<noteq> None)"
proof -
  obtain j where j: "unat i < j" "j \<le> length p" "\<forall>k. unat i < k \<and> k < j \<longrightarrow> p ! k = None"
      "j < length p \<longrightarrow> p ! j \<noteq> None"
    using next_slot [OF assms(2)] by blast
  have "unat (of_nat j :: u2) = j" using j(2) assms(1) by (simp add: unat_of_nat take_bit_eq_mod)
  moreover have "getNextIndex p i = Some (of_nat j)"
    using j assms(1) by (intro getNextIndex_next) auto
  ultimately show ?thesis using j by metis
qed

lemma getNextIndex_correct_witness:
  "\<exists>j. getNextIndex [None, Some (LongInfo 0 1), None, Some (StringInfo 1)] 1 = Some j \<and> 1 < unat j"
  using getNextIndex_correct [of "[None, Some (LongInfo 0 1), None, Some (StringInfo 1)]" 1] by auto

end
