(* ===== verification/Access_Modifiers.thy ===== *)
theory Access_Modifiers
  imports String_Utils
begin

text \<open>
  \<^verbatim>\<open>domain/classfile/AccessModifiers.h\<close> and the flag constants of
  \<^verbatim>\<open>ClassFileConstants.h\<close>: the predicates on access flags and their printed form.
\<close>

section \<open>Flags\<close>

definition JVM_ACC_PUBLIC :: u2 where "JVM_ACC_PUBLIC = 0x0001"
definition JVM_ACC_PRIVATE :: u2 where "JVM_ACC_PRIVATE = 0x0002"
definition JVM_ACC_PROTECTED :: u2 where "JVM_ACC_PROTECTED = 0x0004"
definition JVM_ACC_STATIC :: u2 where "JVM_ACC_STATIC = 0x0008"
definition JVM_ACC_FINAL :: u2 where "JVM_ACC_FINAL = 0x0010"
definition JVM_ACC_SYNCHRONIZED :: u2 where "JVM_ACC_SYNCHRONIZED = 0x0020"
definition JVM_ACC_SUPER :: u2 where "JVM_ACC_SUPER = 0x0020"
definition JVM_ACC_VOLATILE :: u2 where "JVM_ACC_VOLATILE = 0x0040"
definition JVM_ACC_BRIDGE :: u2 where "JVM_ACC_BRIDGE = 0x0040"
definition JVM_ACC_TRANSIENT :: u2 where "JVM_ACC_TRANSIENT = 0x0080"
definition JVM_ACC_VARARGS :: u2 where "JVM_ACC_VARARGS = 0x0080"
definition JVM_ACC_NATIVE :: u2 where "JVM_ACC_NATIVE = 0x0100"
definition JVM_ACC_INTERFACE :: u2 where "JVM_ACC_INTERFACE = 0x0200"
definition JVM_ACC_ABSTRACT :: u2 where "JVM_ACC_ABSTRACT = 0x0400"
definition JVM_ACC_STRICT :: u2 where "JVM_ACC_STRICT = 0x0800"
definition JVM_ACC_SYNTHETIC :: u2 where "JVM_ACC_SYNTHETIC = 0x1000"
definition JVM_ACC_ANNOTATION :: u2 where "JVM_ACC_ANNOTATION = 0x2000"
definition JVM_ACC_ENUM :: u2 where "JVM_ACC_ENUM = 0x4000"
definition JVM_ACC_MODULE :: u2 where "JVM_ACC_MODULE = 0x8000"

definition accessModifiers :: "string list" where
  "accessModifiers = [''PUBLIC'', ''PRIVATE'', ''PROTECTED'', ''STATIC'', ''FINAL'', ''SYNCHRONIZED'',
     ''SUPER'', ''VOLATILE'', ''BRIDGE'', ''TRANSIENT'', ''VARARGS'', ''NATIVE'', ''INTERFACE'',
     ''ABSTRACT'', ''STRICT'', ''SYNTHETIC'', ''ANNOTATION'', ''ENUM'', ''MODULE'']"

fun presentModifiers :: "u2 \<Rightarrow> u4 \<Rightarrow> string list \<Rightarrow> string list" where
  "presentModifiers accessFlags b [] = []"
| "presentModifiers accessFlags b (m # ms) =
     (if ucast accessFlags AND b \<noteq> 0 then [toLower m] else []) @ presentModifiers accessFlags (push_bit 1 b) ms"

definition accessToString :: "u2 \<Rightarrow> string" where
  "accessToString accessFlags = join (presentModifiers accessFlags 1 accessModifiers) '' ''"

definition isPublic :: "u2 \<Rightarrow> bool" where "isPublic f \<longleftrightarrow> f AND JVM_ACC_PUBLIC \<noteq> 0"
definition isPrivate :: "u2 \<Rightarrow> bool" where "isPrivate f \<longleftrightarrow> f AND JVM_ACC_PRIVATE \<noteq> 0"
definition isProtected :: "u2 \<Rightarrow> bool" where "isProtected f \<longleftrightarrow> f AND JVM_ACC_PROTECTED \<noteq> 0"
definition isStatic :: "u2 \<Rightarrow> bool" where "isStatic f \<longleftrightarrow> f AND JVM_ACC_STATIC \<noteq> 0"
definition isFinal :: "u2 \<Rightarrow> bool" where "isFinal f \<longleftrightarrow> f AND JVM_ACC_FINAL \<noteq> 0"
definition isSynchronized :: "u2 \<Rightarrow> bool" where "isSynchronized f \<longleftrightarrow> f AND JVM_ACC_SYNCHRONIZED \<noteq> 0"
definition isSuper :: "u2 \<Rightarrow> bool" where "isSuper f \<longleftrightarrow> f AND JVM_ACC_SUPER \<noteq> 0"
definition isVolatile :: "u2 \<Rightarrow> bool" where "isVolatile f \<longleftrightarrow> f AND JVM_ACC_VOLATILE \<noteq> 0"
definition isBridge :: "u2 \<Rightarrow> bool" where "isBridge f \<longleftrightarrow> f AND JVM_ACC_BRIDGE \<noteq> 0"
definition isTransient :: "u2 \<Rightarrow> bool" where "isTransient f \<longleftrightarrow> f AND JVM_ACC_TRANSIENT \<noteq> 0"
definition isVarargs :: "u2 \<Rightarrow> bool" where "isVarargs f \<longleftrightarrow> f AND JVM_ACC_VARARGS \<noteq> 0"
definition isNative :: "u2 \<Rightarrow> bool" where "isNative f \<longleftrightarrow> f AND JVM_ACC_NATIVE \<noteq> 0"
definition isInterface :: "u2 \<Rightarrow> bool" where "isInterface f \<longleftrightarrow> f AND JVM_ACC_INTERFACE \<noteq> 0"
definition isAbstract :: "u2 \<Rightarrow> bool" where "isAbstract f \<longleftrightarrow> f AND JVM_ACC_ABSTRACT \<noteq> 0"

section \<open>Printed form\<close>

lemma and_pow_iff: "(w :: 'a :: len word) AND push_bit k 1 \<noteq> 0 \<longleftrightarrow> bit w k"
proof
  assume "w AND push_bit k 1 \<noteq> 0"
  then obtain n where "bit (w AND push_bit k 1) n" by (metis bit_word_eqI bit_0_eq bot_apply bot_bool_def)
  then show "bit w k" by (auto simp: bit_simps split: if_splits)
next
  assume b: "bit w k"
  then have "bit (w AND push_bit k 1) k" by (auto simp: bit_simps dest: bit_imp_le_length)
  then show "w AND push_bit k 1 \<noteq> 0" by auto
qed

lemma isPublic_bit [simp]: "isPublic f \<longleftrightarrow> bit f 0"
  using and_pow_iff [of f 0] by (simp add: isPublic_def JVM_ACC_PUBLIC_def)

lemma isPrivate_bit [simp]: "isPrivate f \<longleftrightarrow> bit f 1"
  using and_pow_iff [of f 1] by (simp add: isPrivate_def JVM_ACC_PRIVATE_def)

lemma presentModifiers_bits:
  "presentModifiers f (push_bit k 1) ms =
     map (\<lambda>i. toLower (ms ! i)) (filter (\<lambda>i. bit f (k + i)) [0..<length ms])"
proof (induction ms arbitrary: k)
  case Nil then show ?case by simp
next
  case (Cons m ms)
  have b: "(ucast f AND push_bit k 1 \<noteq> (0 :: u4)) = bit f k"
  proof -
    have "bit (ucast f :: u4) k = bit f k"
      using bit_imp_le_length [of f k] by (auto simp: bit_simps)
    then show ?thesis using and_pow_iff [of "ucast f :: u4" k] by simp
  qed
  have sh: "push_bit 1 (push_bit k (1 :: u4)) = push_bit (Suc k) 1" by simp
  have "[0..<length (m # ms)] = 0 # map Suc [0..<length ms]" by (simp add: map_Suc_upt upt_conv_Cons del: upt_Suc)
  then show ?case using Cons.IH [of "Suc k"]
    by (simp only: presentModifiers.simps b sh) (simp add: filter_map comp_def)
qed

text \<open>The printed access flags are the lower-case entries of the name table at the set bits,
  lowest bit first: the entry at position \<open>i\<close> stands for bit \<open>i\<close> of the sixteen flags.\<close>

lemma accessToString_bits:
  "accessToString f = join (map (\<lambda>i. toLower (accessModifiers ! i)) (filter (bit f) [0..<16])) '' ''"
proof -
  have high: "filter (bit f) [16..<19] = []" by (simp add: upt_rec [of 16] upt_rec [of 17] upt_rec [of 18])
  have "[0..<length accessModifiers] = [0..<16] @ [16..<19]" unfolding accessModifiers_def by (simp add: upt_rec)
  then show ?thesis using presentModifiers_bits [of f 0 accessModifiers] high
    by (simp add: accessToString_def)
qed

text \<open>The name table lists aliases of one bit one after the other, so from bit 6 on the name
  printed is not the name of the flag: a volatile or bridge member prints as \<open>super\<close>, a
  transient or varargs one as \<open>volatile\<close>, a native one as \<open>bridge\<close>, an interface as
  \<open>transient\<close>, an abstract one as \<open>varargs\<close>, and an enum as \<open>strict\<close>.\<close>

lemma accessToString_misnames:
  "accessToString JVM_ACC_VOLATILE = ''super'' \<and> accessToString JVM_ACC_TRANSIENT = ''volatile'' \<and>
   accessToString JVM_ACC_NATIVE = ''bridge'' \<and> accessToString JVM_ACC_INTERFACE = ''transient'' \<and>
   accessToString JVM_ACC_ABSTRACT = ''varargs'' \<and> accessToString JVM_ACC_ENUM = ''strict''"
  by code_simp

end
