(* ===== verification/Class_File_Parser.thy ===== *)
theory Class_File_Parser
  imports Constant_Pool Access_Modifiers
begin

text \<open>
  \<^verbatim>\<open>domain/classfile/ClassFileParser.cpp\<close>: the class-file parser as a program over the
  parser object, whose reader is one of its fields.  Messages to the log are kept; text
  written to the console is not.  The second half gives the class-file format as an
  encoder and shows that the parser inverts it on both byte sources.
\<close>

section \<open>State\<close>

datatype attribute_owner = ClassFileOwner | MethodOwner | FieldOwner | CodeOwner | RecordComponentOwner

record attribute_info =
  attrNameIndex :: u2
  attrLength :: u4
  attrInfo :: bytes
  attrOwner :: attribute_owner

record member_info =
  accessFlags :: u2
  nameIndex :: u2
  descriptorIndex :: u2
  memberAttributes :: "attribute_info list"

record main_class_info =
  classAccessFlags :: u2
  thisClass :: u2
  superClass :: u2

record class_file_parser =
  filename :: string
  log :: "string list"
  reader :: reader
  parseSucceed :: bool
  constantPool :: constant_pool
  mainClassInfo :: main_class_info
  interfaces :: "u2 list"
  classFields :: "member_info list"
  methods :: "member_info list"
  attributes :: "attribute_info list"
  attributesBigEndian :: bool

definition newParser :: "reader \<Rightarrow> string \<Rightarrow> string list \<Rightarrow> class_file_parser" where
  "newParser r name lg = \<lparr>filename = name, log = lg, reader = r, parseSucceed = False,
     constantPool = emptyPool, mainClassInfo = \<lparr>classAccessFlags = 0, thisClass = 0, superClass = 0\<rparr>,
     interfaces = [], classFields = [], methods = [], attributes = [], attributesBigEndian = False\<rparr>"

definition onReader :: "(reader, 'a) prog \<Rightarrow> (class_file_parser, 'a) prog" where
  "onReader m = (\<lambda>p. case m (reader p) of (x, r) \<Rightarrow> (x, p\<lparr>reader := r\<rparr>))"

definition onPool :: "(constant_pool \<Rightarrow> constant_pool) \<Rightarrow> (class_file_parser, unit) prog" where
  "onPool f = modify (\<lambda>p. p\<lparr>constantPool := f (constantPool p)\<rparr>)"

definition writeln :: "string \<Rightarrow> (class_file_parser, unit) prog" where
  "writeln msg = modify (\<lambda>p. p\<lparr>log := log p @ [msg]\<rparr>)"

section \<open>Constant pool entries\<close>

definition readUtf8 :: "(reader, bytes) prog" where
  "readUtf8 = andThen readU2 (\<lambda>len. andThen (readRaw (ucast len) (zeros (unat len))) (\<lambda>buf.
     liftR (initialized buf)))"

definition read1 :: "(u2 \<Rightarrow> 'a) \<Rightarrow> (reader, 'a) prog" where
  "read1 mk = andThen readU2 (\<lambda>a. ret (mk a))"

definition read2 :: "(u2 \<Rightarrow> u2 \<Rightarrow> 'a) \<Rightarrow> (reader, 'a) prog" where
  "read2 mk = andThen readU2 (\<lambda>a. andThen readU2 (\<lambda>b. ret (mk a b)))"

definition readWide :: "(u4 \<Rightarrow> u4 \<Rightarrow> 'a) \<Rightarrow> (reader, 'a) prog" where
  "readWide mk = andThen readU4 (\<lambda>a. andThen readU4 (\<lambda>b. ret (mk a b)))"

text \<open>The body of a record, for the tags that store a record other than utf8.\<close>

definition readRecord :: "u1 \<Rightarrow> (reader, constant_pool_record) prog option" where
  "readRecord tag =
    (if tag = 4 then Some (andThen readU4 (\<lambda>v. ret (FloatInfo v)))
     else if tag = 3 then Some (andThen readU4 (\<lambda>v. ret (IntegerInfo v)))
     else if tag = 5 then Some (readWide LongInfo)
     else if tag = 6 then Some (readWide DoubleInfo)
     else if tag = 16 then Some (read1 MethodTypeInfo)
     else if tag = 8 then Some (read1 StringInfo)
     else if tag = 7 then Some (read1 ClassInfo)
     else if tag = 12 then Some (read2 NameAndTypeInfo)
     else if tag = 10 then Some (read2 MethodrefInfo)
     else if tag = 9 then Some (read2 FieldrefInfo)
     else if tag = 11 then Some (read2 InterfaceMethodrefInfo)
     else if tag = 15 then Some (andThen readU1 (\<lambda>k. andThen readU2 (\<lambda>i. ret (MethodHandleInfo k i))))
     else if tag = 18 then Some (read2 InvokeDynamicInfo)
     else if tag = 19 then Some (read1 ModuleInfo)
     else if tag = 20 then Some (read1 PackageInfo)
     else if tag = 17 then Some (read2 DynamicInfo)
     else None)"

definition invalidTagMessage :: "u1 \<Rightarrow> string \<Rightarrow> string" where
  "invalidTagMessage tag name = ''Error - Invalid const-pool tag: '' @ natToString (unat tag) @ '' '' @ name"

text \<open>
  \<open>readConstPoolEntry\<close> returns the updated loop index.  The tags 0 and 2 only print a message:
  no record is stored for them.
\<close>

definition readConstPoolEntry :: "int \<Rightarrow> (class_file_parser, int) prog" where
  "readConstPoolEntry index = andThen (onReader readU1) (\<lambda>tag.
     if tag = 1 then andThen (onReader readUtf8) (\<lambda>val.
       andThen (onPool (addUtf8Record val)) (\<lambda>_. ret index))
     else (case readRecord tag of
       Some m \<Rightarrow> andThen (onReader m) (\<lambda>r. andThen (onPool (addRecord r)) (\<lambda>_.
         if tag = 5 \<or> tag = 6 then andThen (onPool addEmptyIndex) (\<lambda>_. ret (index + 1)) else ret index))
     | None \<Rightarrow>
         if tag = 2 \<or> tag = 0 then ret index
         else andThen getState (\<lambda>p. let msg = invalidTagMessage tag (filename p) in
           andThen (writeln msg) (\<lambda>_. throw (RuntimeError msg)))))"

lemma readConstPoolEntry_index:
  "readConstPoolEntry index p = (Inr index', p') \<Longrightarrow> index \<le> index'"
  by (auto simp: readConstPoolEntry_def andThen_Inr_iff Let_def split: if_splits option.splits)

function readConstantsLoop :: "int \<Rightarrow> int \<Rightarrow> (class_file_parser, unit) prog" where
  "readConstantsLoop count index p =
     (if index < count then (case readConstPoolEntry index p of
          (Inl e, p') \<Rightarrow> (Inl e, p')
        | (Inr index', p') \<Rightarrow> readConstantsLoop count (index' + 1) p')
      else (Inr (), p))"
  by pat_completeness auto
termination
  by (relation "measure (\<lambda>(count, index, p). nat (count - index))") (auto dest: readConstPoolEntry_index [OF sym])

declare readConstantsLoop.simps [simp del]

definition readConstantsPool :: "(class_file_parser, unit) prog" where
  "readConstantsPool = andThen (onReader readU2) (\<lambda>count. readConstantsLoop (uint count) 1)"

section \<open>The rest of the file\<close>

definition readMainClassInfo :: "(class_file_parser, unit) prog" where
  "readMainClassInfo =
     andThen (onReader readU2) (\<lambda>a. andThen (modify (\<lambda>p. p\<lparr>mainClassInfo := (mainClassInfo p)\<lparr>classAccessFlags := a\<rparr>\<rparr>)) (\<lambda>_.
     andThen (onReader readU2) (\<lambda>t. andThen (modify (\<lambda>p. p\<lparr>mainClassInfo := (mainClassInfo p)\<lparr>thisClass := t\<rparr>\<rparr>)) (\<lambda>_.
     andThen (onReader readU2) (\<lambda>s. modify (\<lambda>p. p\<lparr>mainClassInfo := (mainClassInfo p)\<lparr>superClass := s\<rparr>\<rparr>))))))"

text \<open>\<open>_interfaces.resize(count)\<close> then one read per slot.\<close>

fun readInterfacesLoop :: "nat \<Rightarrow> nat \<Rightarrow> (class_file_parser, unit) prog" where
  "readInterfacesLoop 0 i = ret ()"
| "readInterfacesLoop (Suc n) i = andThen (onReader (readU2Into (zeros 2))) (\<lambda>v.
     andThen (modify (\<lambda>p. p\<lparr>interfaces := (interfaces p)[i := v]\<rparr>)) (\<lambda>_. readInterfacesLoop n (Suc i)))"

definition resize :: "nat \<Rightarrow> 'a \<Rightarrow> 'a list \<Rightarrow> 'a list" where
  "resize n d xs = take n xs @ replicate (n - length xs) d"

definition readInterfaces :: "(class_file_parser, unit) prog" where
  "readInterfaces = andThen (onReader readU2) (\<lambda>count.
     andThen (modify (\<lambda>p. p\<lparr>interfaces := resize (unat count) 0 (interfaces p)\<rparr>)) (\<lambda>_.
     readInterfacesLoop (unat count) 0))"

definition readAttribute :: "attribute_owner \<Rightarrow> (reader, attribute_info) prog" where
  "readAttribute owner = andThen (readU2Into (zeros 2)) (\<lambda>n. andThen (readU4Into (zeros 4)) (\<lambda>len.
     andThen (if len > 0 then readBytes len (zeros (unat len)) else ret []) (\<lambda>buf.
     andThen (liftR (initialized buf)) (\<lambda>bs.
     ret \<lparr>attrNameIndex = n, attrLength = len, attrInfo = bs, attrOwner = owner\<rparr>))))"

definition readAttributesSection :: "nat \<Rightarrow> attribute_owner \<Rightarrow> (reader, attribute_info list) prog" where
  "readAttributesSection count owner = replicateP count (readAttribute owner)"

definition readField :: "(reader, member_info) prog" where
  "readField = andThen (readU2Into (zeros 2)) (\<lambda>a. andThen (readU2Into (zeros 2)) (\<lambda>n.
     andThen (readU2Into (zeros 2)) (\<lambda>d.
     andThen readU2 (\<lambda>count. andThen (readAttributesSection (unat count) FieldOwner) (\<lambda>as.
     ret \<lparr>accessFlags = a, nameIndex = n, descriptorIndex = d, memberAttributes = as\<rparr>)))))"

definition readMethod :: "(reader, member_info) prog" where
  "readMethod = andThen readU2 (\<lambda>a. andThen readU2 (\<lambda>n. andThen readU2 (\<lambda>d.
     andThen readU2 (\<lambda>count. andThen (readAttributesSection (unat count) MethodOwner) (\<lambda>as.
     ret \<lparr>accessFlags = a, nameIndex = n, descriptorIndex = d, memberAttributes = as\<rparr>)))))"

primrec readFieldsLoop :: "nat \<Rightarrow> (class_file_parser, unit) prog" where
  "readFieldsLoop 0 = ret ()"
| "readFieldsLoop (Suc n) = andThen (onReader readField) (\<lambda>f.
     andThen (modify (\<lambda>p. p\<lparr>classFields := classFields p @ [f]\<rparr>)) (\<lambda>_. readFieldsLoop n))"

definition readFields :: "(class_file_parser, unit) prog" where
  "readFields = andThen (onReader readU2) (\<lambda>count. readFieldsLoop (unat count))"

primrec readMethodsLoop :: "nat \<Rightarrow> (class_file_parser, unit) prog" where
  "readMethodsLoop 0 = ret ()"
| "readMethodsLoop (Suc n) = andThen (onReader readMethod) (\<lambda>m.
     andThen (modify (\<lambda>p. p\<lparr>methods := methods p @ [m]\<rparr>)) (\<lambda>_. readMethodsLoop n))"

definition readMethods :: "(class_file_parser, unit) prog" where
  "readMethods = andThen (onReader readU2) (\<lambda>count. readMethodsLoop (unat count))"

primrec readAttributesLoop :: "nat \<Rightarrow> (class_file_parser, unit) prog" where
  "readAttributesLoop 0 = ret ()"
| "readAttributesLoop (Suc n) = andThen (onReader (readAttribute ClassFileOwner)) (\<lambda>a.
     andThen (modify (\<lambda>p. p\<lparr>attributes := attributes p @ [a]\<rparr>)) (\<lambda>_. readAttributesLoop n))"

definition readAttributes :: "(class_file_parser, unit) prog" where
  "readAttributes = andThen (onReader readU2) (\<lambda>count. readAttributesLoop (unat count))"

definition initialize :: "(class_file_parser, unit) prog" where
  "initialize = modify (\<lambda>p. p\<lparr>attributesBigEndian := isBigEndian (reader p)\<rparr>)"

definition processFile :: "(class_file_parser, unit) prog" where
  "processFile = andThen initialize (\<lambda>_. andThen readConstantsPool (\<lambda>_. andThen readMainClassInfo (\<lambda>_.
     andThen readInterfaces (\<lambda>_. andThen readFields (\<lambda>_. andThen readMethods (\<lambda>_. readAttributes))))))"

text \<open>
  \<open>internalParse\<close> turns exceptions into \<open>False\<close> and a log line.  A failed assertion and
  undefined behaviour are not exceptions and remain faults.
\<close>

definition internalParse :: "(class_file_parser, bool) prog" where
  "internalParse = (\<lambda>p.
     case (if isValidHeader (reader p) then processFile
           else throw (RuntimeError (''Invalid class file header: '' @ filename p))) p of
       (Inr _, p') \<Rightarrow> (Inr True, p')
     | (Inl (RuntimeError msg), p') \<Rightarrow>
         (Inr False, p'\<lparr>log := log p' @ [''Error parsing file: '' @ filename p' @ '', msg:'' @ msg]\<rparr>)
     | (Inl AssertFail, p') \<Rightarrow> (Inl AssertFail, p')
     | (Inl Undefined, p') \<Rightarrow> (Inl Undefined, p')
     | (Inl OutOfFuel, p') \<Rightarrow> (Inl OutOfFuel, p')
     | (Inl _, p') \<Rightarrow> (Inr False, p'\<lparr>log := log p' @ [''Error parsing file: '' @ filename p']\<rparr>))"

definition parse :: "(class_file_parser, bool) prog" where
  "parse = andThen internalParse (\<lambda>ok. andThen (modify (\<lambda>p. p\<lparr>parseSucceed := ok\<rparr>)) (\<lambda>_. ret ok))"

definition getMainClassname :: "class_file_parser \<Rightarrow> string result" where
  "getMainClassname p = getClassInfoName (constantPool p) (thisClass (mainClassInfo p))"

section \<open>The class-file format\<close>

fun encBody :: "constant_pool_record \<Rightarrow> bytes" where
  "encBody (Utf8Info bs) = encU2 (of_nat (length bs)) @ bs"
| "encBody (IntegerInfo v) = encU4 v"
| "encBody (FloatInfo v) = encU4 v"
| "encBody (LongInfo h l) = encU4 h @ encU4 l"
| "encBody (DoubleInfo h l) = encU4 h @ encU4 l"
| "encBody (ClassInfo n) = encU2 n"
| "encBody (StringInfo n) = encU2 n"
| "encBody (FieldrefInfo c n) = encU2 c @ encU2 n"
| "encBody (MethodrefInfo c n) = encU2 c @ encU2 n"
| "encBody (InterfaceMethodrefInfo c n) = encU2 c @ encU2 n"
| "encBody (NameAndTypeInfo n d) = encU2 n @ encU2 d"
| "encBody (MethodHandleInfo k i) = [k] @ encU2 i"
| "encBody (MethodTypeInfo d) = encU2 d"
| "encBody (DynamicInfo b n) = encU2 b @ encU2 n"
| "encBody (InvokeDynamicInfo b n) = encU2 b @ encU2 n"
| "encBody (ModuleInfo n) = encU2 n"
| "encBody (PackageInfo n) = encU2 n"

definition encRecord :: "constant_pool_record \<Rightarrow> bytes" where
  "encRecord r = recordTag r # encBody r"

fun isWide :: "constant_pool_record \<Rightarrow> bool" where
  "isWide (LongInfo _ _) = True"
| "isWide (DoubleInfo _ _) = True"
| "isWide _ = False"

definition slots :: "constant_pool_record \<Rightarrow> constant_pool" where
  "slots r = Some r # (if isWide r then [None] else [])"

definition poolOf :: "constant_pool_record list \<Rightarrow> constant_pool" where
  "poolOf rs = None # concat (map slots rs)"

fun sizedRecord :: "constant_pool_record \<Rightarrow> bool" where
  "sizedRecord (Utf8Info bs) = (length bs < 65536)"
| "sizedRecord _ = True"

definition encAttribute :: "attribute_info \<Rightarrow> bytes" where
  "encAttribute a = encU2 (attrNameIndex a) @ encU4 (attrLength a) @ attrInfo a"

definition sizedAttribute :: "attribute_owner \<Rightarrow> attribute_info \<Rightarrow> bool" where
  "sizedAttribute owner a \<longleftrightarrow> attrOwner a = owner \<and> length (attrInfo a) = unat (attrLength a)"

definition encMember :: "member_info \<Rightarrow> bytes" where
  "encMember m = encU2 (accessFlags m) @ encU2 (nameIndex m) @ encU2 (descriptorIndex m) @
     encU2 (of_nat (length (memberAttributes m))) @ concat (map encAttribute (memberAttributes m))"

definition sizedMember :: "attribute_owner \<Rightarrow> member_info \<Rightarrow> bool" where
  "sizedMember owner m \<longleftrightarrow> length (memberAttributes m) < 65536 \<and> list_all (sizedAttribute owner) (memberAttributes m)"

record class_file =
  cfMinor :: u2
  cfMajor :: u2
  cfPool :: "constant_pool_record list"
  cfMain :: main_class_info
  cfInterfaces :: "u2 list"
  cfFields :: "member_info list"
  cfMethods :: "member_info list"
  cfAttributes :: "attribute_info list"

definition encContents :: "class_file \<Rightarrow> bytes" where
  "encContents cf =
     encU2 (of_nat (length (poolOf (cfPool cf)))) @ concat (map encRecord (cfPool cf)) @
     (encU2 (classAccessFlags (cfMain cf)) @ encU2 (thisClass (cfMain cf)) @ encU2 (superClass (cfMain cf))) @
     (encU2 (of_nat (length (cfInterfaces cf))) @ concat (map encU2 (cfInterfaces cf))) @
     (encU2 (of_nat (length (cfFields cf))) @ concat (map encMember (cfFields cf))) @
     (encU2 (of_nat (length (cfMethods cf))) @ concat (map encMember (cfMethods cf))) @
     (encU2 (of_nat (length (cfAttributes cf))) @ concat (map encAttribute (cfAttributes cf)))"

definition encClassFile :: "class_file \<Rightarrow> bytes" where
  "encClassFile cf = encU4 classMagic @ encU2 (cfMinor cf) @ encU2 (cfMajor cf) @ encContents cf"

text \<open>What fits the length fields of the format.\<close>

definition sizedClassFile :: "class_file \<Rightarrow> bool" where
  "sizedClassFile cf \<longleftrightarrow> list_all sizedRecord (cfPool cf) \<and> length (poolOf (cfPool cf)) < 65536 \<and>
     length (cfInterfaces cf) < 65536 \<and>
     length (cfFields cf) < 65536 \<and> list_all (sizedMember FieldOwner) (cfFields cf) \<and>
     length (cfMethods cf) < 65536 \<and> list_all (sizedMember MethodOwner) (cfMethods cf) \<and>
     length (cfAttributes cf) < 65536 \<and> list_all (sizedAttribute ClassFileOwner) (cfAttributes cf)"

section \<open>Programs over the parser\<close>

definition readerFree :: "(class_file_parser \<Rightarrow> class_file_parser) \<Rightarrow> bool" where
  "readerFree f \<longleftrightarrow> (\<forall>p r. f (p\<lparr>reader := r\<rparr>) = (f p)\<lparr>reader := r\<rparr>)"

lemma readerFree_reader: "readerFree f \<Longrightarrow> reader (f (p\<lparr>reader := r\<rparr>)) = r"
  by (simp add: readerFree_def)

text \<open>
  \<open>parses at m bs x f\<close>: from every parser whose input starts with \<open>bs\<close>, \<open>m\<close> returns \<open>x\<close>,
  moves the reader behind \<open>bs\<close> and changes the other fields by \<open>f\<close>.
\<close>

definition parses :: "(reader \<Rightarrow> bytes \<Rightarrow> bool) \<Rightarrow> (class_file_parser, 'a) prog \<Rightarrow> bytes \<Rightarrow> 'a \<Rightarrow>
    (class_file_parser \<Rightarrow> class_file_parser) \<Rightarrow> bool" where
  "parses at m bs x f \<longleftrightarrow> readerFree f \<and>
     (\<forall>p rest. at (reader p) (bs @ rest) \<and> isBigEndian (reader p) = hostBigEndian (reader p) \<longrightarrow>
        (\<exists>r. m p = (Inr x, f (p\<lparr>reader := r\<rparr>)) \<and> at r rest \<and> sameConfig (reader p) r))"

lemma parses_readerFree: "parses at m bs x f \<Longrightarrow> readerFree f"
  by (simp add: parses_def)

lemma parsesE:
  assumes "parses at m bs x f" "at (reader p) (bs @ rest)" "isBigEndian (reader p) = hostBigEndian (reader p)"
  obtains r where "m p = (Inr x, f (p\<lparr>reader := r\<rparr>))" "at r rest" "sameConfig (reader p) r"
  using assms unfolding parses_def by blast

lemma parses_andThen:
  assumes m: "parses at m bs x f" and n: "parses at (n x) cs y g"
  shows "parses at (andThen m n) (bs @ cs) y (g \<circ> f)"
  unfolding parses_def
proof (intro conjI allI impI, goal_cases)
  case 1 show ?case using m n by (simp add: parses_def readerFree_def)
next
  case (2 p rest)
  then obtain r where r: "m p = (Inr x, f (p\<lparr>reader := r\<rparr>))" "at r (cs @ rest)" "sameConfig (reader p) r"
    by (auto elim: parsesE [OF m])
  let ?q = "f (p\<lparr>reader := r\<rparr>)"
  have rd: "reader ?q = r" using readerFree_reader [OF parses_readerFree [OF m]] .
  have q: "at (reader ?q) (cs @ rest)" "isBigEndian (reader ?q) = hostBigEndian (reader ?q)"
    using 2 r rd by (simp_all add: sameConfig_def)
  obtain s where "n x ?q = (Inr y, g (?q\<lparr>reader := s\<rparr>))" "at s rest" "sameConfig r s"
    by (rule parsesE [OF n q]) (simp add: rd)
  moreover have "(f (p\<lparr>reader := r\<rparr>))\<lparr>reader := s\<rparr> = f (p\<lparr>reader := s\<rparr>)"
    using parses_readerFree [OF m] by (simp add: readerFree_def)
  ultimately show ?case using r by (auto intro: sameConfig_trans)
qed

lemma parses_onReader: "reads at m bs x \<Longrightarrow> parses at (onReader m) bs x id"
  unfolding parses_def readerFree_def reads_def onReader_def by fastforce

lemma reader_same [simp]: "p\<lparr>reader := reader p\<rparr> = p"
  by simp

lemma parses_pure:
  assumes "readerFree f" "\<And>p. m p = (Inr x, f p)"
  shows "parses at m [] x f"
  unfolding parses_def
proof (intro conjI allI impI)
  fix p :: class_file_parser and rest
  assume "at (reader p) ([] @ rest) \<and> isBigEndian (reader p) = hostBigEndian (reader p)"
  then show "\<exists>r. m p = (Inr x, f (p\<lparr>reader := r\<rparr>)) \<and> at r rest \<and> sameConfig (reader p) r"
    using assms(2) by (intro exI [of _ "reader p"]) simp
qed (rule assms(1))

lemma parses_ret: "parses at (ret x) [] x id"
  by (rule parses_pure) (simp_all add: readerFree_def)

lemma parses_modify: "readerFree f \<Longrightarrow> parses at (modify f) [] () f"
  by (rule parses_pure) simp_all

lemma parses_read:
  "reads at m bs x \<Longrightarrow> parses at (n x) cs y g \<Longrightarrow> parses at (andThen (onReader m) n) (bs @ cs) y g"
  using parses_andThen [OF parses_onReader] by fastforce

lemma parses_update:
  "readerFree f \<Longrightarrow> parses at (n ()) cs y g \<Longrightarrow> parses at (andThen (modify f) n) cs y (g \<circ> f)"
  using parses_andThen [OF parses_modify] by fastforce

lemma parses_cong: "parses at m bs x f \<Longrightarrow> bs = bs' \<Longrightarrow> (\<And>p. f p = f' p) \<Longrightarrow> parses at m bs' x f'"
  by (metis ext)

section \<open>The parser inverts the encoder\<close>

lemma readConstantsLoop_unfold:
  "readConstantsLoop count index =
     (if index < count then andThen (readConstPoolEntry index) (\<lambda>i. readConstantsLoop count (i + 1)) else ret ())"
  by (rule ext, subst readConstantsLoop.simps) (auto simp: andThen_def)

lemma unat_of_nat_u2: "n < 65536 \<Longrightarrow> unat (of_nat n :: u2) = n"
  by (simp add: unat_of_nat take_bit_eq_mod)

lemma unat_of_nat_u4: "n < 4294967296 \<Longrightarrow> unat (of_nat n :: u4) = n"
  by (simp add: unat_of_nat take_bit_eq_mod)

lemma unat_ucast_u4: "unat (ucast (w :: u2) :: u4) = unat w"
  using unsigned_less [of w, where 'a = nat] by (simp add: unsigned_ucast_eq take_bit_nat_eq_self_iff)

lemma readerFree_fields [simp]:
  "readerFree (\<lambda>p. p\<lparr>constantPool := c (constantPool p)\<rparr>)"
  "readerFree (\<lambda>p. p\<lparr>mainClassInfo := i (mainClassInfo p)\<rparr>)"
  "readerFree (\<lambda>p. p\<lparr>interfaces := v (interfaces p)\<rparr>)"
  "readerFree (\<lambda>p. p\<lparr>classFields := f (classFields p)\<rparr>)"
  "readerFree (\<lambda>p. p\<lparr>methods := f (methods p)\<rparr>)"
  "readerFree (\<lambda>p. p\<lparr>attributes := a (attributes p)\<rparr>)"
  "readerFree id"
  by (simp_all add: readerFree_def)

fun writeFrom :: "nat \<Rightarrow> 'a list \<Rightarrow> 'a list \<Rightarrow> 'a list" where
  "writeFrom i [] xs = xs"
| "writeFrom i (v # vs) xs = writeFrom (Suc i) vs (xs[i := v])"

lemma writeFrom_all: "length xs = i + length vs \<Longrightarrow> writeFrom i vs xs = take i xs @ vs"
  by (induction vs arbitrary: i xs) (auto simp: take_Suc_conv_app_nth)

lemma length_resize [simp]: "length (resize n d xs) = n"
  by (simp add: resize_def)

lemma reads_finish: "reads at m bs x \<Longrightarrow> reads at (f x) [] y \<Longrightarrow> reads at (andThen m f) bs y"
  using reads_andThen [of at m bs x f "[]" y] by simp

context class_file_source
begin

lemma reads_read1: "reads at (read1 mk) (encU2 a) (mk a)"
  unfolding read1_def using reads_andThen [OF reads_U2 reads_ret] by fastforce

lemma reads_read2: "reads at (read2 mk) (encU2 a @ encU2 b) (mk a b)"
  unfolding read2_def
  using reads_andThen [OF reads_U2 reads_andThen [OF reads_U2 reads_ret]] by fastforce

lemma reads_wide: "reads at (readWide mk) (encU4 a @ encU4 b) (mk a b)"
  unfolding readWide_def
  using reads_andThen [OF reads_U4 reads_andThen [OF reads_U4 reads_ret]] by fastforce

lemma reads_single: "reads at (andThen readU4 (\<lambda>v. ret (mk v))) (encU4 a) (mk a)"
  using reads_andThen [OF reads_U4 reads_ret] by fastforce

lemma reads_handle: "reads at (andThen readU1 (\<lambda>k. andThen readU2 (\<lambda>i. ret (mk k i)))) ([a] @ encU2 b) (mk a b)"
  using reads_andThen [OF reads_U1 reads_andThen [OF reads_U2 reads_ret]] by fastforce

lemmas reads_bodies = reads_read1 reads_read2 reads_wide reads_single reads_handle [simplified]

lemma reads_record:
  "\<not> isUtf8 r \<Longrightarrow> \<exists>m. readRecord (recordTag r) = Some m \<and> reads at m (encBody r) r"
  by (cases r) (simp_all add: isUtf8_def readRecord_def reads_bodies)

lemma reads_utf8:
  assumes "length bs < 65536"
  shows "reads at readUtf8 (encU2 (of_nat (length bs)) @ bs) bs"
proof -
  have n: "unat (ucast (of_nat (length bs) :: u2) :: u4) = length bs" "unat (of_nat (length bs) :: u2) = length bs"
    using assms by (simp_all add: unat_of_nat_u2 unat_ucast_u4)
  have raw: "reads at (readRaw (ucast (of_nat (length bs) :: u2)) (zeros (length bs))) bs (map Some bs)"
    by (rule reads_raw) (simp_all add: n zeros_def)
  have "reads at (liftR (initialized (map Some bs))) [] bs" by (simp add: reads_def)
  then have "reads at (andThen (readRaw (ucast (of_nat (length bs) :: u2)) (zeros (length bs))) (\<lambda>buf. liftR (initialized buf))) (bs @ []) bs"
    by (rule reads_andThen [OF raw])
  then show ?thesis unfolding readUtf8_def using reads_andThen [OF reads_U2, of _ "of_nat (length bs)" bs bs] n by simp
qed

lemma parses_entry:
  assumes "sizedRecord r"
  shows "parses at (readConstPoolEntry index) (encRecord r) (index + (if isWide r then 1 else 0))
    (\<lambda>p. p\<lparr>constantPool := constantPool p @ slots r\<rparr>)"
proof (cases "isUtf8 r")
  case True
  then obtain bs where r: "r = Utf8Info bs" by (auto simp: isUtf8_iff)
  have "parses at (andThen (onPool (addUtf8Record bs)) (\<lambda>_. ret index)) [] index (id \<circ> (\<lambda>p. p\<lparr>constantPool := addUtf8Record bs (constantPool p)\<rparr>))"
    unfolding onPool_def by (intro parses_update parses_ret) simp
  then have "parses at (andThen (onReader readUtf8) (\<lambda>val. andThen (onPool (addUtf8Record val)) (\<lambda>_. ret index)))
      ((encU2 (of_nat (length bs)) @ bs) @ []) index (id \<circ> (\<lambda>p. p\<lparr>constantPool := addUtf8Record bs (constantPool p)\<rparr>))"
    using reads_utf8 [of bs] assms r by (intro parses_read) auto
  then show ?thesis unfolding readConstPoolEntry_def r
    using assms r parses_read [OF reads_U1, of _ 1]
    by (auto intro!: parses_cong [OF parses_read [OF reads_U1, of _ 1]]
        simp: encRecord_def slots_def addUtf8Record_def unat_of_nat_u2)
next
  case False
  then obtain m where m: "readRecord (recordTag r) = Some m" "reads at m (encBody r) r" using reads_record by blast
  have tag: "recordTag r \<noteq> 1" "(recordTag r = 5 \<or> recordTag r = 6) = isWide r"
    using False by (cases r; simp add: isUtf8_def)+
  let ?n = "\<lambda>r. andThen (onPool (addRecord r)) (\<lambda>_. if isWide r then andThen (onPool addEmptyIndex) (\<lambda>_. ret (index + 1)) else ret index)"
  have "parses at (?n r) [] (index + (if isWide r then 1 else 0)) (\<lambda>p. p\<lparr>constantPool := constantPool p @ slots r\<rparr>)"
    by (rule parses_pure) (auto simp: onPool_def addRecord_def addEmptyIndex_def slots_def
        readerFree_fields(1) [where c = "\<lambda>c. c @ slots r", unfolded slots_def])
  then have "parses at (andThen (onReader m) (\<lambda>r'. andThen (onPool (addRecord r')) (\<lambda>_.
      if recordTag r = 5 \<or> recordTag r = 6 then andThen (onPool addEmptyIndex) (\<lambda>_. ret (index + 1)) else ret index)))
      (encBody r @ []) (index + (if isWide r then 1 else 0)) (\<lambda>p. p\<lparr>constantPool := constantPool p @ slots r\<rparr>)"
    using m(2) unfolding tag(2) by (intro parses_read) auto
  then show ?thesis unfolding readConstPoolEntry_def
    using tag m(1) by (intro parses_cong [OF parses_read [OF reads_U1, of _ "recordTag r"]]) (auto simp: encRecord_def)
qed

lemma parses_constants:
  assumes "list_all sizedRecord rs" "index + int (length (concat (map slots rs))) = count"
  shows "parses at (readConstantsLoop count index) (concat (map encRecord rs)) ()
    (\<lambda>p. p\<lparr>constantPool := constantPool p @ concat (map slots rs)\<rparr>)"
  using assms
proof (induction rs arbitrary: index)
  case Nil
  then show ?case by (subst readConstantsLoop_unfold) (auto intro: parses_cong [OF parses_ret])
next
  case (Cons r rs)
  have len: "length (slots r) = (if isWide r then 2 else 1)" by (simp add: slots_def)
  have lt: "index < count" using Cons.prems by (simp add: len split: if_splits)
  have nxt: "index + (if isWide r then 1 else 0) + 1 + int (length (concat (map slots rs))) = count"
    using Cons.prems by (simp add: len split: if_splits)
  have "parses at (readConstantsLoop count (index + (if isWide r then 1 else 0) + 1)) (concat (map encRecord rs)) ()
      (\<lambda>p. p\<lparr>constantPool := constantPool p @ concat (map slots rs)\<rparr>)"
    using Cons.IH [OF _ nxt] Cons.prems by simp
  then show ?case using lt Cons.prems
    by (subst readConstantsLoop_unfold)
      (auto intro!: parses_cong [OF parses_andThen [OF parses_entry]])
qed

lemma parses_main:
  "parses at readMainClassInfo (encU2 a @ encU2 t @ encU2 s) ()
     (\<lambda>p. p\<lparr>mainClassInfo := (mainClassInfo p)\<lparr>classAccessFlags := a, thisClass := t, superClass := s\<rparr>\<rparr>)"
  unfolding readMainClassInfo_def
  by (intro parses_cong [OF parses_read [OF reads_U2 parses_update [OF _ parses_read [OF reads_U2 parses_update
          [OF _ parses_read [OF reads_U2 parses_modify]]]]]])
    (simp_all add: readerFree_def)

lemma parses_main_info:
  "parses at readMainClassInfo (encU2 (classAccessFlags c) @ encU2 (thisClass c) @ encU2 (superClass c)) ()
     (\<lambda>p. p\<lparr>mainClassInfo := c\<rparr>)"
proof -
  have eq: "m\<lparr>classAccessFlags := classAccessFlags c, thisClass := thisClass c, superClass := superClass c\<rparr> = c"
    for m :: main_class_info by simp
  show ?thesis by (rule parses_cong [OF parses_main refl]) (simp only: eq)
qed

lemma parses_interfaces_loop:
  "parses at (readInterfacesLoop (length vs) i) (concat (map encU2 vs)) ()
     (\<lambda>p. p\<lparr>interfaces := writeFrom i vs (interfaces p)\<rparr>)"
proof (induction vs arbitrary: i)
  case Nil then show ?case by (simp, intro parses_pure) (simp_all add: readerFree_def)
next
  case (Cons v vs)
  have z: "length (zeros 2) = 2" by (simp add: zeros_def)
  show ?case
    by (simp, rule parses_cong [OF parses_read [OF reads_U2Into [OF z] parses_update [OF _ Cons.IH]]])
      (simp_all add: readerFree_def)
qed

lemma parses_interfaces:
  assumes "length vs < 65536"
  shows "parses at readInterfaces (encU2 (of_nat (length vs)) @ concat (map encU2 vs)) () (\<lambda>p. p\<lparr>interfaces := vs\<rparr>)"
proof -
  have "parses at (andThen (modify (\<lambda>p. p\<lparr>interfaces := resize (length vs) 0 (interfaces p)\<rparr>)) (\<lambda>_. readInterfacesLoop (length vs) 0))
      (concat (map encU2 vs)) () (\<lambda>p. p\<lparr>interfaces := vs\<rparr>)"
    by (rule parses_cong [OF parses_update [OF _ parses_interfaces_loop]]) (simp_all add: readerFree_def writeFrom_all)
  then show ?thesis unfolding readInterfaces_def using assms
    by (intro parses_read [OF reads_U2]) (simp add: unat_of_nat_u2)
qed

lemma reads_attribute:
  assumes "sizedAttribute owner a"
  shows "reads at (readAttribute owner) (encAttribute a) a"
proof -
  let ?len = "attrLength a" and ?bs = "attrInfo a"
  have z: "length (zeros 2) = 2" "length (zeros 4) = 4" "length (zeros (unat ?len)) = unat ?len"
    by (simp_all add: zeros_def)
  have a: "\<lparr>attrNameIndex = attrNameIndex a, attrLength = ?len, attrInfo = ?bs, attrOwner = owner\<rparr> = a"
    using assms by (simp add: sizedAttribute_def)
  have body: "reads at (if ?len > 0 then readBytes ?len (zeros (unat ?len)) else ret []) ?bs (map Some ?bs)"
  proof (cases "?len > 0")
    case True then show ?thesis using assms reads_bytes [of ?bs ?len] z by (simp add: sizedAttribute_def)
  next
    case False
    then have "?len = 0" by (simp add: word_greater_zero_iff)
    then show ?thesis using assms by (simp add: sizedAttribute_def reads_def)
  qed
  have fin: "reads at (andThen (liftR (initialized (map Some ?bs))) (\<lambda>bs.
      ret \<lparr>attrNameIndex = attrNameIndex a, attrLength = ?len, attrInfo = bs, attrOwner = owner\<rparr>)) [] a"
    by (simp add: reads_def a)
  show ?thesis unfolding readAttribute_def encAttribute_def
    by (rule reads_andThen, rule reads_U2Into [OF z(1)], rule reads_andThen, rule reads_U4Into [OF z(2)],
        rule reads_finish, rule body, rule fin)
qed

lemma reads_attributes:
  assumes "list_all (sizedAttribute owner) as"
  shows "reads at (readAttributesSection (length as) owner) (concat (map encAttribute as)) as"
  unfolding readAttributesSection_def using assms
  by (intro reads_replicateP reads_attribute) (auto simp: list_all_iff)

lemma reads_field:
  assumes "sizedMember FieldOwner f" shows "reads at readField (encMember f) f"
proof -
  have z: "length (zeros 2) = 2" by (simp add: zeros_def)
  have n: "unat (of_nat (length (memberAttributes f)) :: u2) = length (memberAttributes f)"
    using assms by (simp add: sizedMember_def unat_of_nat_u2)
  have as: "reads at (readAttributesSection (unat (of_nat (length (memberAttributes f)) :: u2)) FieldOwner)
      (concat (map encAttribute (memberAttributes f))) (memberAttributes f)"
    using assms reads_attributes [of FieldOwner "memberAttributes f"] by (simp add: sizedMember_def n)
  show ?thesis unfolding readField_def encMember_def
    by (rule reads_andThen, rule reads_U2Into [OF z], rule reads_andThen, rule reads_U2Into [OF z],
        rule reads_andThen, rule reads_U2Into [OF z], rule reads_andThen, rule reads_U2,
        rule reads_finish, rule as) (simp add: reads_def)
qed

lemma reads_method:
  assumes "sizedMember MethodOwner f" shows "reads at readMethod (encMember f) f"
proof -
  have n: "unat (of_nat (length (memberAttributes f)) :: u2) = length (memberAttributes f)"
    using assms by (simp add: sizedMember_def unat_of_nat_u2)
  have as: "reads at (readAttributesSection (unat (of_nat (length (memberAttributes f)) :: u2)) MethodOwner)
      (concat (map encAttribute (memberAttributes f))) (memberAttributes f)"
    using assms reads_attributes [of MethodOwner "memberAttributes f"] by (simp add: sizedMember_def n)
  show ?thesis unfolding readMethod_def encMember_def
    by (rule reads_andThen, rule reads_U2, rule reads_andThen, rule reads_U2,
        rule reads_andThen, rule reads_U2, rule reads_andThen, rule reads_U2,
        rule reads_finish, rule as) (simp add: reads_def)
qed

lemma parses_fields:
  "list_all (sizedMember FieldOwner) fs \<Longrightarrow>
   parses at (readFieldsLoop (length fs)) (concat (map encMember fs)) () (\<lambda>p. p\<lparr>classFields := classFields p @ fs\<rparr>)"
proof (induction fs)
  case Nil then show ?case by (simp, intro parses_pure) (simp_all add: readerFree_def)
next
  case (Cons f fs)
  show ?case
    by (simp, rule parses_cong [OF parses_read [OF reads_field parses_update [OF _ Cons.IH]]])
      (use Cons.prems in \<open>simp_all add: readerFree_def\<close>)
qed

lemma parses_methods:
  "list_all (sizedMember MethodOwner) ms \<Longrightarrow>
   parses at (readMethodsLoop (length ms)) (concat (map encMember ms)) () (\<lambda>p. p\<lparr>methods := methods p @ ms\<rparr>)"
proof (induction ms)
  case Nil then show ?case by (simp, intro parses_pure) (simp_all add: readerFree_def)
next
  case (Cons m ms)
  show ?case
    by (simp, rule parses_cong [OF parses_read [OF reads_method parses_update [OF _ Cons.IH]]])
      (use Cons.prems in \<open>simp_all add: readerFree_def\<close>)
qed

lemma parses_attributes:
  "list_all (sizedAttribute ClassFileOwner) as \<Longrightarrow>
   parses at (readAttributesLoop (length as)) (concat (map encAttribute as)) () (\<lambda>p. p\<lparr>attributes := attributes p @ as\<rparr>)"
proof (induction as)
  case Nil then show ?case by (simp, intro parses_pure) (simp_all add: readerFree_def)
next
  case (Cons a as)
  show ?case
    by (simp, rule parses_cong [OF parses_read [OF reads_attribute parses_update [OF _ Cons.IH]]])
      (use Cons.prems in \<open>simp_all add: readerFree_def\<close>)
qed

lemma parses_counted:
  assumes "n < 65536" "parses at (loop n) bs () f"
  shows "parses at (andThen (onReader readU2) (\<lambda>count. loop (unat count))) (encU2 (of_nat n) @ bs) () f"
  using assms by (intro parses_read [OF reads_U2]) (simp add: unat_of_nat_u2)

lemma parses_pool:
  assumes "list_all sizedRecord rs" "length (poolOf rs) < 65536"
  shows "parses at readConstantsPool (encU2 (of_nat (length (poolOf rs))) @ concat (map encRecord rs)) ()
    (\<lambda>p. p\<lparr>constantPool := constantPool p @ concat (map slots rs)\<rparr>)"
proof -
  have "uint (of_nat (length (poolOf rs)) :: u2) = 1 + int (length (concat (map slots rs)))"
    using assms(2) unat_of_nat_u2 [of "length (poolOf rs)"] by (simp add: uint_nat poolOf_def)
  then show ?thesis unfolding readConstantsPool_def
    by (intro parses_read [OF reads_U2] parses_constants assms(1)) simp
qed

text \<open>The parser object after a successful parse of \<open>cf\<close>, apart from its reader.\<close>

lemma parses_contents:
  assumes "sizedClassFile cf"
  shows "parses at (andThen readConstantsPool (\<lambda>_. andThen readMainClassInfo (\<lambda>_. andThen readInterfaces (\<lambda>_.
      andThen readFields (\<lambda>_. andThen readMethods (\<lambda>_. readAttributes)))))) (encContents cf) ()
    (\<lambda>p. p\<lparr>constantPool := constantPool p @ concat (map slots (cfPool cf)), mainClassInfo := cfMain cf,
       interfaces := cfInterfaces cf, classFields := classFields p @ cfFields cf, methods := methods p @ cfMethods cf,
       attributes := attributes p @ cfAttributes cf\<rparr>)"
proof -
  note sz = assms [unfolded sizedClassFile_def]
  have pool: "parses at readConstantsPool (encU2 (of_nat (length (poolOf (cfPool cf)))) @ concat (map encRecord (cfPool cf))) ()
    (\<lambda>p. p\<lparr>constantPool := constantPool p @ concat (map slots (cfPool cf))\<rparr>)" using sz by (intro parses_pool) auto
  have ifs: "parses at readInterfaces (encU2 (of_nat (length (cfInterfaces cf))) @ concat (map encU2 (cfInterfaces cf))) ()
    (\<lambda>p. p\<lparr>interfaces := cfInterfaces cf\<rparr>)" using sz by (intro parses_interfaces) auto
  have fs: "parses at readFields (encU2 (of_nat (length (cfFields cf))) @ concat (map encMember (cfFields cf))) ()
    (\<lambda>p. p\<lparr>classFields := classFields p @ cfFields cf\<rparr>)" unfolding readFields_def using sz by (intro parses_counted parses_fields) auto
  have ms: "parses at readMethods (encU2 (of_nat (length (cfMethods cf))) @ concat (map encMember (cfMethods cf))) ()
    (\<lambda>p. p\<lparr>methods := methods p @ cfMethods cf\<rparr>)" unfolding readMethods_def using sz by (intro parses_counted parses_methods) auto
  have as: "parses at readAttributes (encU2 (of_nat (length (cfAttributes cf))) @ concat (map encAttribute (cfAttributes cf))) ()
    (\<lambda>p. p\<lparr>attributes := attributes p @ cfAttributes cf\<rparr>)" unfolding readAttributes_def using sz by (intro parses_counted parses_attributes) auto
  show ?thesis
    by (rule parses_cong [OF parses_andThen [OF pool parses_andThen [OF parses_main_info [of "cfMain cf"] parses_andThen [OF ifs
            parses_andThen [OF fs parses_andThen [OF ms as]]]]]]) (simp_all add: encContents_def)
qed

lemma parse_contents:
  assumes "sizedClassFile cf" "at r (encContents cf @ rest)" "isValidHeader r" "isBigEndian r = hostBigEndian r"
  shows "\<exists>r'. parse (newParser r name lg) = (Inr True, (newParser r' name lg)\<lparr>parseSucceed := True,
      constantPool := poolOf (cfPool cf), mainClassInfo := cfMain cf, interfaces := cfInterfaces cf,
      classFields := cfFields cf, methods := cfMethods cf, attributes := cfAttributes cf,
      attributesBigEndian := hostBigEndian r\<rparr>) \<and> at r' rest \<and> sameConfig r r'"
proof -
  let ?p = "(newParser r name lg)\<lparr>attributesBigEndian := isBigEndian r\<rparr>"
  have rd: "reader ?p = r" by (simp add: newParser_def)
  then have "at (reader ?p) (encContents cf @ rest)" "isBigEndian (reader ?p) = hostBigEndian (reader ?p)"
    using assms by simp_all
  then obtain r' where r': "at r' rest \<and> sameConfig r r'" "andThen readConstantsPool (\<lambda>_. andThen readMainClassInfo (\<lambda>_. andThen readInterfaces (\<lambda>_.
      andThen readFields (\<lambda>_. andThen readMethods (\<lambda>_. readAttributes))))) ?p = (Inr (),
      (newParser r' name lg)\<lparr>constantPool := poolOf (cfPool cf), mainClassInfo := cfMain cf, interfaces := cfInterfaces cf,
      classFields := cfFields cf, methods := cfMethods cf, attributes := cfAttributes cf,
      attributesBigEndian := hostBigEndian r\<rparr>)"
    by (rule parsesE [OF parses_contents [OF assms(1)]]) (auto simp: newParser_def emptyPool_def poolOf_def assms(4))
  have "initialize (newParser r name lg) = (Inr (), ?p)" by (simp add: initialize_def newParser_def)
  then have "processFile (newParser r name lg) = (Inr (),
      (newParser r' name lg)\<lparr>constantPool := poolOf (cfPool cf), mainClassInfo := cfMain cf, interfaces := cfInterfaces cf,
      classFields := cfFields cf, methods := cfMethods cf, attributes := cfAttributes cf,
      attributesBigEndian := hostBigEndian r\<rparr>)"
    unfolding processFile_def using r' by simp
  moreover have "reader (newParser r name lg) = r" by (simp add: newParser_def)
  ultimately show ?thesis using r'(1) assms(3)
    by (intro exI [of _ r']) (simp add: parse_def internalParse_def newParser_def)
qed

end

section \<open>Round trip and totality\<close>

definition parsedAs :: "class_file \<Rightarrow> class_file_parser \<Rightarrow> bool" where
  "parsedAs cf p \<longleftrightarrow> parseSucceed p \<and> minorVersion (header (reader p)) = cfMinor cf \<and>
     majorVersion (header (reader p)) = cfMajor cf \<and>
     constantPool p = poolOf (cfPool cf) \<and> mainClassInfo p = cfMain cf \<and> interfaces p = cfInterfaces cf \<and>
     classFields p = cfFields cf \<and> methods p = cfMethods cf \<and> attributes p = cfAttributes cf"

context class_file_source
begin

lemma parse_encoded:
  assumes "sizedClassFile cf" "at (initialReader host src sz) (encClassFile cf @ rest)"
  shows "\<exists>r p. construct readHeader (initialReader host src sz) = Inr r \<and>
    parse (newParser r name lg) = (Inr True, p) \<and> parsedAs cf p \<and> log p = lg \<and> attributesBigEndian p = host"
proof -
  obtain r where r: "construct readHeader (initialReader host src sz) = Inr r" "at r (encContents cf @ rest)"
      "isValidHeader r" "isBigEndian r = hostBigEndian r" "hostBigEndian r = host"
      "minorVersion (header r) = cfMinor cf" "majorVersion (header r) = cfMajor cf"
    using construct_header [of host src sz "cfMinor cf" "cfMajor cf" "encContents cf @ rest"] assms(2)
    by (auto simp: encClassFile_def)
  then show ?thesis using parse_contents [OF assms(1) r(2-4), of name lg]
    by (auto simp: parsedAs_def newParser_def sameConfig_def)
qed

end

lemma memory_parse:
  assumes "sizedClassFile cf" "length (encClassFile cf @ rest) < 2 ^ 32"
  shows "\<exists>r p. MemoryReader host (Some (encClassFile cf @ rest)) (int (length (encClassFile cf @ rest))) = Inr r \<and>
    parse (newParser r name lg) = (Inr True, p) \<and> parsedAs cf p \<and> log p = lg \<and> attributesBigEndian p = host"
proof -
  let ?b = "encClassFile cf @ rest"
  have "memoryAt (initialReader host (Memory ?b 0) (int (length ?b))) ?b"
    using assms(2) by (auto simp: memoryAt_def initialReader_def)
  moreover have "\<not> int (length ?b) \<le> 0" by (simp add: encClassFile_def encU4_def)
  ultimately show ?thesis using mem.parse_encoded [OF assms(1), of host "Memory ?b 0" "int (length ?b)" rest name lg]
    unfolding MemoryReader_def by (simp only: option.case if_False)
qed

text \<open>(C1) Round trip through memory: for every class file whose parts fit the length fields of
  the format, a \<open>MemoryReader\<close> over its encoding (with any bytes behind it) is constructed, the
  parse succeeds without a log message, and the parser then holds the versions, the constant
  pool with its unusable slots, the class info, interfaces, fields, methods and attributes
  of the file, on big-endian and little-endian machines alike.\<close>

theorem memory_roundtrip:
  assumes "sizedClassFile cf" "length (encClassFile cf @ rest) < 2 ^ 32"
  shows "\<exists>r p. MemoryReader host (Some (encClassFile cf @ rest)) (int (length (encClassFile cf @ rest))) = Inr r \<and>
    parse (newParser r name lg) = (Inr True, p) \<and> parsedAs cf p \<and> log p = lg"
  using memory_parse [OF assms, of host name lg] by blast

definition sampleClass :: class_file where
  "sampleClass = \<lparr>cfMinor = 0, cfMajor = 52,
     cfPool = [Utf8Info [65], ClassInfo 1, LongInfo 1 2, Utf8Info [73]],
     cfMain = \<lparr>classAccessFlags = 0x21, thisClass = 2, superClass = 0\<rparr>, cfInterfaces = [2],
     cfFields = [\<lparr>accessFlags = 1, nameIndex = 1, descriptorIndex = 5, memberAttributes = []\<rparr>],
     cfMethods = [],
     cfAttributes = [\<lparr>attrNameIndex = 1, attrLength = 2, attrInfo = [7, 8], attrOwner = ClassFileOwner\<rparr>]\<rparr>"

lemma sampleClass_sized: "sizedClassFile sampleClass"
  by (simp add: sizedClassFile_def sampleClass_def poolOf_def slots_def sizedMember_def sizedAttribute_def)

lemma sampleClass_length: "length (encClassFile sampleClass @ [0]) < 2 ^ 32"
  by (simp add: encClassFile_def encContents_def sampleClass_def encRecord_def encMember_def encAttribute_def)

theorem memory_roundtrip_witness:
  "\<exists>r p. MemoryReader False (Some (encClassFile sampleClass @ [0])) (int (length (encClassFile sampleClass @ [0]))) = Inr r \<and>
    parse (newParser r ''A.class'' []) = (Inr True, p) \<and> parsedAs sampleClass p \<and> log p = []"
  by (rule memory_roundtrip [OF sampleClass_sized sampleClass_length])

lemma file_parse:
  assumes "sizedClassFile cf" "fs name = Some (encClassFile cf @ rest)" "length (encClassFile cf @ rest) < 2 ^ 32"
  shows "\<exists>r p. FileReader host fs name = Inr r \<and>
    parse (newParser r name lg) = (Inr True, p) \<and> parsedAs cf p \<and> log p = lg \<and> attributesBigEndian p = host"
proof -
  let ?b = "encClassFile cf @ rest"
  have "fileAt (initialReader host (File ?b 0 True) (int (length ?b))) ?b"
    using assms(3) by (auto simp: fileAt_def initialReader_def)
  from fil.parse_encoded [OF assms(1) this, of name lg] assms(2) show ?thesis by (simp add: FileReader_def)
qed

text \<open>(C3) Round trip through a file: for every class file whose parts fit the length fields of the format,
  a \<open>FileReader\<close> opened on a file with that content, followed by anything, is constructed, and the parse
  succeeds, gives back every part and logs nothing.  When there is no such file, the constructor throws.\<close>

theorem file_roundtrip:
  assumes "sizedClassFile cf" "fs name = Some (encClassFile cf @ rest)" "length (encClassFile cf @ rest) < 2 ^ 32"
  shows "(\<exists>r p. FileReader host fs name = Inr r \<and>
    parse (newParser r name lg) = (Inr True, p) \<and> parsedAs cf p \<and> log p = lg) \<and>
    FileReader host (fs(name := None)) name = Inl (FilesystemError name)"
  using file_parse [of cf fs name rest host lg] assms by (auto simp: FileReader_def)

theorem file_roundtrip_witness:
  "(\<exists>r p. FileReader True [''A.class'' \<mapsto> encClassFile sampleClass @ [0]] ''A.class'' = Inr r \<and>
    parse (newParser r ''A.class'' []) = (Inr True, p) \<and> parsedAs sampleClass p \<and> log p = []) \<and>
    FileReader True ([''A.class'' \<mapsto> encClassFile sampleClass @ [0]](''A.class'' := None)) ''A.class'' = Inl (FilesystemError ''A.class'')"
  by (rule file_roundtrip [OF sampleClass_sized _ sampleClass_length]) simp

section \<open>No input makes the parser of a memory buffer misbehave\<close>

abbreviation parserOk :: "class_file_parser \<Rightarrow> bool" where
  "parserOk p \<equiv> memoryOk (reader p)"

lemma safe_onReader [intro]:
  assumes "avoids F memoryOk m" shows "avoids F parserOk (onReader m)"
  unfolding avoids_def onReader_def
proof (intro allI impI)
  fix p :: class_file_parser assume "memoryOk (reader p)"
  then have "memoryOk (snd (m (reader p))) \<and> (\<forall>e. fst (m (reader p)) = Inl e \<longrightarrow> e \<notin> F)"
    using assms unfolding avoids_def by blast
  then show "memoryOk (reader (snd (case m (reader p) of (x, r) \<Rightarrow> (x, p\<lparr>reader := r\<rparr>)))) \<and>
     (\<forall>e. fst (case m (reader p) of (x, r) \<Rightarrow> (x, p\<lparr>reader := r\<rparr>)) = Inl e \<longrightarrow> e \<notin> F)"
    by (cases "m (reader p)") simp
qed

lemma safe_modify: "(\<And>p. reader (f p) = reader p) \<Longrightarrow> avoids F parserOk (modify f)"
  by (simp add: avoids_def)

lemma safe_onPool [intro]: "avoids F parserOk (onPool f)"
  unfolding onPool_def by (rule safe_modify) simp

lemma safe_filled:
  assumes "length dest = unat count"
  shows "avoids notRuntime memoryOk (andThen (readRaw count dest) (\<lambda>buf. liftR (initialized buf)))"
proof -
  have "bindR x Inr = x" for x :: "bytes result" by (cases x) auto
  then show ?thesis using safe_load [OF assms, of "\<lambda>_. Inr"] by simp
qed

lemma safe_readUtf8 [intro]: "avoids notRuntime memoryOk readUtf8"
  unfolding readUtf8_def by (intro avoids_andThen safe_readU2 safe_filled) (simp add: zeros_def unat_ucast_u4)

lemma safe_readRecord: "readRecord tag = Some m \<Longrightarrow> avoids notRuntime memoryOk m"
  by (auto simp: readRecord_def read1_def read2_def readWide_def split: if_splits)

lemma safe_message: "avoids notRuntime parserOk (andThen getState (\<lambda>p. let msg = g p in
    andThen (writeln msg) (\<lambda>_. throw (RuntimeError msg))))"
  by (simp add: avoids_def writeln_def Let_def)

lemma safe_entry [intro]: "avoids notRuntime parserOk (readConstPoolEntry index)"
  unfolding readConstPoolEntry_def
proof (rule avoids_andThen, rule safe_onReader, rule safe_readU1, goal_cases)
  case (1 tag)
  show ?case
  proof (cases "tag = 1")
    case True
    then show ?thesis by (simp, intro avoids_andThen safe_onReader safe_readUtf8 safe_onPool avoids_ret)
  next
    case False
    show ?thesis
    proof (cases "readRecord tag")
      case None
      then show ?thesis using False by (simp, intro impI safe_message)
    next
      case (Some m)
      then show ?thesis using False safe_readRecord [OF Some]
        by (simp, intro conjI impI avoids_andThen safe_onReader safe_onPool avoids_ret)
    qed
  qed
qed

lemma safe_constantsLoop: "parserOk p \<Longrightarrow> readConstantsLoop count index p = (x, p') \<Longrightarrow>
    parserOk p' \<and> (\<forall>e. x = Inl e \<longrightarrow> e \<notin> notRuntime)"
proof (induction count index p rule: readConstantsLoop.induct)
  case (1 count index p)
  obtain r q where e: "readConstPoolEntry index p = (r, q)" by fastforce
  have q: "parserOk q" "\<forall>e. r = Inl e \<longrightarrow> e \<notin> notRuntime"
    using avoids_stateD [OF safe_entry "1.prems"(1) e] avoidsD [OF safe_entry "1.prems"(1)] e by blast+
  show ?case
  proof (cases "index < count")
    case False with "1.prems" show ?thesis by (auto simp: readConstantsLoop.simps [of count index])
  next
    case True
    show ?thesis
    proof (cases r)
      case (Inl f) with True "1.prems" e q show ?thesis by (auto simp: readConstantsLoop.simps [of count index])
    next
      case (Inr i)
      then have "readConstantsLoop count (i + 1) q = (x, p')"
        using True "1.prems" e by (simp add: readConstantsLoop.simps [of count index])
      with "1.IH" [OF True e [symmetric] Inr q(1)] show ?thesis by blast
    qed
  qed
qed

lemma safe_constants: "avoids notRuntime parserOk readConstantsPool"
proof -
  have "avoids notRuntime parserOk (readConstantsLoop count 1)" for count
    unfolding avoids_def using safe_constantsLoop by (metis prod.collapse)
  then show ?thesis unfolding readConstantsPool_def by (intro avoids_andThen) auto
qed

lemma safe_attribute [intro]: "avoids notRuntime memoryOk (readAttribute owner)"
proof -
  have z: "length (zeros 2) = 2" "length (zeros 4) = 4" by (simp_all add: zeros_def)
  have body: "avoids notRuntime memoryOk (andThen (if len > 0 then readBytes len (zeros (unat len)) else ret []) (\<lambda>buf.
      andThen (liftR (initialized buf)) (\<lambda>bs. ret (mk bs))))" for len and mk :: "bytes \<Rightarrow> attribute_info"
    unfolding avoids_def
  proof (intro allI impI)
    fix r assume r: "memoryOk r"
    show "memoryOk (snd (andThen (if len > 0 then readBytes len (zeros (unat len)) else ret []) (\<lambda>buf.
      andThen (liftR (initialized buf)) (\<lambda>bs. ret (mk bs))) r)) \<and>
      (\<forall>e. fst (andThen (if len > 0 then readBytes len (zeros (unat len)) else ret []) (\<lambda>buf.
      andThen (liftR (initialized buf)) (\<lambda>bs. ret (mk bs))) r) = Inl e \<longrightarrow> e \<notin> notRuntime)"
      using r memoryOk_readBytes [OF r, of "zeros (unat len)" len]
        initialized_map_Some [of "[]"]
      by (cases "len > 0") (auto simp: zeros_def simp del: initialized_map_Some simp: initialized_map_Some)
  qed
  show ?thesis unfolding readAttribute_def
    by (intro avoids_andThen safe_readU2Into safe_readU4Into z body)
qed

lemma safe_interfacesLoop: "avoids notRuntime parserOk (readInterfacesLoop n i)"
proof (induction n arbitrary: i)
  case (Suc n)
  have z: "length (zeros 2) = 2" by (simp add: zeros_def)
  show ?case by (simp, intro avoids_andThen safe_onReader safe_readU2Into z safe_modify Suc) simp
qed simp

lemma safe_members:
  "avoids notRuntime memoryOk readField" "avoids notRuntime memoryOk readMethod"
proof -
  have z: "length (zeros 2) = 2" by (simp add: zeros_def)
  show "avoids notRuntime memoryOk readField" "avoids notRuntime memoryOk readMethod"
    unfolding readField_def readMethod_def readAttributesSection_def
    by (intro avoids_andThen safe_readU2Into z safe_readU2 avoids_replicateP safe_attribute avoids_ret)+
qed

lemma safe_loops:
  "avoids notRuntime parserOk (readFieldsLoop n)" "avoids notRuntime parserOk (readMethodsLoop n)"
  "avoids notRuntime parserOk (readAttributesLoop n)"
  by (induction n) (auto intro!: avoids_andThen safe_modify safe_members)

lemma safe_processFile: "avoids notRuntime parserOk processFile"
  unfolding processFile_def initialize_def readMainClassInfo_def readInterfaces_def readFields_def readMethods_def
    readAttributes_def
  by (intro avoids_andThen safe_modify safe_constants safe_onReader safe_readU2 safe_interfacesLoop safe_loops) simp_all

lemma safe_readMagic: "avoids notRuntime memoryOk readMagic"
  unfolding avoids_def
proof (intro allI impI)
  fix r assume r: "memoryOk r"
  let ?d = "map Some (storeU4 (hostBigEndian r) (magic (header r)))"
  from memoryOk_readRaw [OF r, of ?d 4] consider
      e where "readRaw 4 ?d r = (Inl (RuntimeError e), r)"
    | bs r' where "readRaw 4 ?d r = (Inr (map Some bs), r')" "length bs = 4" "memoryOk r'" by auto
  then show "memoryOk (snd (readMagic r)) \<and> (\<forall>e. fst (readMagic r) = Inl e \<longrightarrow> e \<notin> notRuntime)"
  proof cases
    case 1 with r show ?thesis by (simp add: readMagic_def)
  next
    case 2
    then obtain m where "loadU4 (hostBigEndian r) bs = Inr m" using load_lengths(3) by (metis isOk_iff)
    with 2 show ?thesis by (simp add: readMagic_def memoryOk_def)
  qed
qed

lemma safe_keepSource: "(\<And>r. source (f r) = source r \<and> readerSize (f r) = readerSize r) \<Longrightarrow> avoids F memoryOk (modify f)"
  by (simp add: avoids_def memoryOk_def)

lemma safe_getState: "(\<And>s. avoids F I (f s)) \<Longrightarrow> avoids F I (andThen getState f)"
  by (simp add: avoids_def)

lemma safe_if: "avoids F I m \<Longrightarrow> avoids F I n \<Longrightarrow> avoids F I (if b then m else n)"
  by simp

lemma safe_readHeader: "avoids notRuntime memoryOk readHeader"
  unfolding readHeader_def
  by (intro avoids_andThen safe_getState safe_readMagic safe_keepSource safe_if safe_readU2 avoids_ret) simp_all

text \<open>(C2) Totality on memory: for every byte string, the construction of a \<open>MemoryReader\<close> over it
  either throws one of its two kinds of exception or yields a reader from which \<open>parse\<close>
  returns a verdict: no assertion fails, nothing outside the buffer is read, no uninitialised
  value is used, and the verdict is recorded in the parser.\<close>

theorem memory_parse_total:
  "case MemoryReader host (Some buf) (int (length buf)) of
     Inl e \<Rightarrow> (\<exists>msg. e = RuntimeError msg \<or> e = InvalidArgument msg)
   | Inr r \<Rightarrow> (\<exists>ok p. parse (newParser r name lg) = (Inr ok, p) \<and> parseSucceed p = ok)"
proof (cases "construct readHeader (initialReader host (Memory buf 0) (int (length buf)))")
  case (Inl e)
  have "memoryOk (initialReader host (Memory buf 0) (int (length buf)))"
    by (simp add: memoryOk_def initialReader_def)
  then have "e \<notin> notRuntime" using Inl avoidsD [OF safe_readHeader]
    by (auto simp: construct_def split: prod.splits sum.splits)
  with Inl show ?thesis by (auto simp: MemoryReader_def)
next
  case (Inr r)
  have "memoryOk (initialReader host (Memory buf 0) (int (length buf)))"
    by (simp add: memoryOk_def initialReader_def)
  then have r: "memoryOk r" using Inr avoids_stateD [OF safe_readHeader]
    by (auto simp: construct_def split: prod.splits sum.splits)
  let ?p = "newParser r name lg"
  have rd: "reader ?p = r" by (simp add: newParser_def)
  obtain x q where x: "processFile ?p = (x, q)" by fastforce
  have "\<exists>ok p. internalParse ?p = (Inr ok, p)"
  proof (cases "isValidHeader r")
    case False then show ?thesis by (auto simp: internalParse_def rd)
  next
    case True
    have "e \<notin> notRuntime" if "x = Inl e" for e
      using avoidsD [OF safe_processFile _ x [unfolded that]] r rd by simp
    then show ?thesis using True x by (cases x) (auto simp: internalParse_def rd)
  qed
  then have "\<exists>ok p. parse ?p = (Inr ok, p) \<and> parseSucceed p = ok" by (auto simp: parse_def)
  with Inr show ?thesis by (auto simp: MemoryReader_def)
qed

section \<open>Truncated files\<close>

text \<open>(C6) A file that ends inside an attribute: \<open>readAttributesSection\<close> fetches the body with
  \<open>readBytes\<close>, which for a file stream neither checks the size nor reports the short read, so
  the attribute is accepted with its missing bytes taken as zero.\<close>

theorem truncated_attribute_accepted:
  assumes "fileAt r (encU2 n @ encU4 len @ bs)" "isBigEndian r = hostBigEndian r" "length bs < unat len"
  shows "\<exists>r'. readAttribute owner r = (Inr \<lparr>attrNameIndex = n, attrLength = len,
     attrInfo = bs @ replicate (unat len - length bs) 0, attrOwner = owner\<rparr>, r')"
proof -
  have z: "length (zeros 2) = 2" "length (zeros 4) = 4" by (simp_all add: zeros_def)
  obtain s where s: "readU2Into (zeros 2) r = (Inr n, s)" "fileAt s (encU4 len @ bs)" "sameConfig r s"
    using readsE [OF fil.reads_U2Into [OF z(1)] assms(1,2)] by blast
  have "isBigEndian s = hostBigEndian s" using s assms(2) by (simp add: sameConfig_def)
  then obtain t where t: "readU4Into (zeros 4) s = (Inr len, t)" "fileAt t bs"
    using readsE [OF fil.reads_U4Into [OF z(2)] s(2)] by blast
  obtain content pos where src: "source t = File content pos True" "drop pos content = bs"
    using t(2) by (auto simp: fileAt_def)
  have "len > 0" using assms(3) by (metis not_less_zero unat_0 word_gt_0)
  then show ?thesis using s t src assms(3) initialized_map_Some [of "bs @ replicate (unat len - length bs) 0"]
    by (simp add: readAttribute_def readBytes_def fileReadBytes_def zeros_def)
qed

theorem truncated_attribute_accepted_witness:
  "\<exists>r'. readAttribute ClassFileOwner
     (initialReader True (File (encU2 1 @ encU4 4 @ [9]) 0 True) 7) =
     (Inr \<lparr>attrNameIndex = 1, attrLength = 4, attrInfo = [9, 0, 0, 0], attrOwner = ClassFileOwner\<rparr>, r')"
proof -
  let ?r = "initialReader True (File (encU2 1 @ encU4 4 @ [9]) 0 True) 7"
  have "fileAt ?r (encU2 1 @ encU4 4 @ [9])" "isBigEndian ?r = hostBigEndian ?r"
    by (simp_all add: fileAt_def initialReader_def)
  from truncated_attribute_accepted [OF this, of ClassFileOwner] show ?thesis by (simp add: numeral_3_eq_3)
qed

end
