(* ===== verification/Signature_Parser.thy ===== *)
theory Signature_Parser
  imports Constant_Pool Class_File_Parser
begin

text \<open>
  Generic signatures: the tree of \<^verbatim>\<open>types/SignatureNodes.h\<close>, the recursive-descent parser
  of \<^verbatim>\<open>signature/parser/Parser.cpp\<close> and the attribute-level \<^verbatim>\<open>SignatureParser.cpp\<close>.
  The mutually recursive part and the loops take fuel: six units per character of input and a
  constant.  They are enough for the signature of a type on every input (\<open>parseTypeSig_terminates\<close>).
  For classes and methods the loop over the formal type parameters can run without end
  (\<open>formal_parameters_loop_forever\<close>), and \<open>OutOfFuel\<close> is how the model shows it.  \<open>current\<close> at the position of the terminating
  zero is that zero; one position further the string is indexed out of range.
\<close>

section \<open>Tree\<close>

datatype base_type = ByteSig | CharSig | DoubleSig | FloatSig | IntSig | LongSig | ShortSig | BooleanSig

datatype type_signature =
    BaseType base_type
  | FieldType field_signature
and field_signature =
    ClassType "simple_class_signature list"
  | TypeVariable string
  | ArrayType type_signature
  | BottomSignature
  | SimpleField simple_class_signature
and simple_class_signature = SimpleClass string bool "type_argument list"
and type_argument =
    FieldArgument field_signature
  | Wildcard "field_signature list" "field_signature list"

datatype return_type = VoidDescriptor | ReturnSignature type_signature

datatype formal_type_parameter = FormalTypeParameter string "field_signature list"

record class_signature =
  csFormals :: "formal_type_parameter list"
  csSuperclass :: field_signature
  csInterfaces :: "field_signature list"

record method_signature =
  msFormals :: "formal_type_parameter list"
  msParameters :: "type_signature list"
  msReturn :: return_type
  msThrows :: "field_signature list"

section \<open>Scanning\<close>

record sig_parser =
  sigInput :: string
  sigPos :: nat
  sigErrors :: "string list"

definition current :: "(sig_parser, char) prog" where
  "current = (\<lambda>s. (if sigPos s < length (sigInput s) then Inr (sigInput s ! sigPos s)
     else if sigPos s = length (sigInput s) then Inr nul else Inl Undefined, s))"

definition getNext :: "(sig_parser, char) prog" where
  "getNext = andThen current (\<lambda>c. andThen (modify (\<lambda>s. s\<lparr>sigPos := sigPos s + 1\<rparr>)) (\<lambda>_. ret c))"

definition isEof :: "sig_parser \<Rightarrow> bool" where
  "isEof s \<longleftrightarrow> sigPos s > length (sigInput s)"

definition advance :: "(sig_parser, unit) prog" where
  "advance = modify (\<lambda>s. s\<lparr>sigPos := sigPos s + 1\<rparr>)"

definition addError :: "string \<Rightarrow> (sig_parser, unit) prog" where
  "addError msg = modify (\<lambda>s. s\<lparr>sigErrors := sigErrors s @ [msg]\<rparr>)"

definition progress :: "nat \<Rightarrow> (sig_parser, unit) prog" where
  "progress startingPosition = andThen getState (\<lambda>s.
     if sigPos s \<le> startingPosition then addError ''Failure to make progress!'' else ret ())"

definition stopChar :: "char \<Rightarrow> bool" where
  "stopChar c \<longleftrightarrow> c \<in> {CHR '';'', CHR ''.'', CHR ''$'', CHR ''/'', CHR ''['', CHR '':'', CHR ''>'', CHR ''<''}"

function identifierLoop :: "string \<Rightarrow> (sig_parser, string) prog" where
  "identifierLoop result s = (if isEof s then (Inr result, s) else
     (case current s of
        (Inl e, s') \<Rightarrow> (Inl e, s')
      | (Inr c, s') \<Rightarrow> if stopChar c then (Inr result, s)
          else identifierLoop (result @ [c]) (s\<lparr>sigPos := sigPos s + 1\<rparr>)))"
  by pat_completeness auto
termination
  by (relation "measure (\<lambda>(result, s). Suc (length (sigInput s)) - sigPos s)") (auto simp: isEof_def)

declare identifierLoop.simps [simp del]

definition parseIdentifier :: "(sig_parser, string) prog" where
  "parseIdentifier = identifierLoop []"

section \<open>Types\<close>

fun baseTypeOf :: "char \<Rightarrow> base_type option" where
  "baseTypeOf c = (if c = CHR ''B'' then Some ByteSig else if c = CHR ''C'' then Some CharSig
     else if c = CHR ''D'' then Some DoubleSig else if c = CHR ''F'' then Some FloatSig
     else if c = CHR ''I'' then Some IntSig else if c = CHR ''J'' then Some LongSig
     else if c = CHR ''S'' then Some ShortSig else if c = CHR ''Z'' then Some BooleanSig else None)"

declare baseTypeOf.simps [simp del]

definition parseBaseType :: "(sig_parser, base_type) prog" where
  "parseBaseType = andThen current (\<lambda>c. case baseTypeOf c of
       Some b \<Rightarrow> andThen advance (\<lambda>_. ret b)
     | None \<Rightarrow> throw (RuntimeError ''expected primitive type''))"

definition parseTypeVariableSignature :: "(sig_parser, field_signature) prog" where
  "parseTypeVariableSignature = andThen current (\<lambda>c.
     if c \<noteq> CHR ''T'' then throw (RuntimeError ''expected a type variable usage'') else
     andThen advance (\<lambda>_. andThen parseIdentifier (\<lambda>name. andThen current (\<lambda>d.
     if d \<noteq> CHR '';'' then throw (RuntimeError (''; expected in signature of type variable named '' @ name)) else
     andThen advance (\<lambda>_. ret (TypeVariable name))))))"

text \<open>The loop over \<^verbatim>\<open>/\<close>-separated package parts.\<close>

primrec packageLoop :: "nat \<Rightarrow> string \<Rightarrow> (sig_parser, string) prog" where
  "packageLoop 0 idBuild = throw OutOfFuel"
| "packageLoop (Suc n) idBuild = andThen current (\<lambda>c.
     if c = CHR ''/'' then andThen advance (\<lambda>_. andThen parseIdentifier (\<lambda>i. packageLoop n (idBuild @ ''.'' @ i)))
     else ret idBuild)"

definition objectSignature :: field_signature where
  "objectSignature = SimpleField (SimpleClass ''java.lang.Object'' False [])"

definition quoted :: "char \<Rightarrow> string" where
  "quoted c = [CHR 0x27, c, CHR 0x27]"

definition packageError :: "char \<Rightarrow> string" where
  "packageError c = ''expected '' @ quoted CHR ''<'' @ '', '' @ quoted CHR '';'' @ '', '' @ quoted CHR ''.'' @
     '' or '' @ quoted CHR ''$'' @ '' but got '' @ [c]"

fun parseFieldTypeSignature :: "nat \<Rightarrow> bool \<Rightarrow> (sig_parser, field_signature) prog"
and parseClassTypeSignature :: "nat \<Rightarrow> (sig_parser, field_signature) prog"
and parsePackageNameAndSimpleClassTypeSignature :: "nat \<Rightarrow> (sig_parser, simple_class_signature) prog"
and parseSimpleClassTypeSignature :: "nat \<Rightarrow> bool \<Rightarrow> (sig_parser, simple_class_signature) prog"
and parseClassTypeSignatureSuffix :: "nat \<Rightarrow> simple_class_signature list \<Rightarrow> (sig_parser, simple_class_signature list) prog"
and parseTypeArguments :: "nat \<Rightarrow> (sig_parser, type_argument list) prog"
and typeArgumentsLoop :: "nat \<Rightarrow> type_argument list \<Rightarrow> (sig_parser, type_argument list) prog"
and parseTypeArgument :: "nat \<Rightarrow> (sig_parser, type_argument) prog"
and parseArrayTypeSignature :: "nat \<Rightarrow> (sig_parser, field_signature) prog"
and parseTypeSignature :: "nat \<Rightarrow> (sig_parser, type_signature) prog"
where
  "parseFieldTypeSignature 0 allowArrays = throw OutOfFuel"
| "parseFieldTypeSignature (Suc n) allowArrays = andThen current (\<lambda>c.
     if c = CHR ''L'' then parseClassTypeSignature n
     else if c = CHR ''T'' then parseTypeVariableSignature
     else if c = CHR ''['' then
       (if allowArrays then parseArrayTypeSignature n
        else throw (RuntimeError ''Array signature not allowed here.''))
     else throw (RuntimeError ''Expected Field Type Signature''))"
| "parseClassTypeSignature 0 = throw OutOfFuel"
| "parseClassTypeSignature (Suc n) = andThen current (\<lambda>c.
     if c \<noteq> CHR ''L'' then andThen getState (\<lambda>s. throw (RuntimeError (''expected a class type but found '' @ quoted c @
         '' at position '' @ natToString (sigPos s) @ '' while parsing '' @ [CHR 0x27] @ sigInput s @ [CHR 0x27])))
     else andThen advance (\<lambda>_.
       andThen (parsePackageNameAndSimpleClassTypeSignature n) (\<lambda>first.
       andThen (parseClassTypeSignatureSuffix n [first]) (\<lambda>path.
       andThen current (\<lambda>d.
         if d \<noteq> CHR '';'' then throw (RuntimeError (''expected '' @ quoted CHR '';'' @ '' got '' @ quoted d))
         else andThen advance (\<lambda>_. ret (ClassType path)))))))"
| "parsePackageNameAndSimpleClassTypeSignature 0 = throw OutOfFuel"
| "parsePackageNameAndSimpleClassTypeSignature (Suc n) = andThen parseIdentifier (\<lambda>id.
     andThen (packageLoop n id) (\<lambda>name. andThen current (\<lambda>c.
       if c = CHR '';'' then ret (SimpleClass name False [])
       else if c = CHR ''<'' then andThen (parseTypeArguments n) (\<lambda>args. ret (SimpleClass name False args))
       else if c = CHR ''.'' \<or> c = CHR ''$'' then ret (SimpleClass name False [])
       else throw (RuntimeError (packageError c)))))"
| "parseSimpleClassTypeSignature 0 dollar = throw OutOfFuel"
| "parseSimpleClassTypeSignature (Suc n) dollar = andThen parseIdentifier (\<lambda>id. andThen current (\<lambda>c.
     if c = CHR '';'' \<or> c = CHR ''.'' \<or> c = CHR ''$'' then ret (SimpleClass id dollar [])
     else if c = CHR ''<'' then andThen (parseTypeArguments n) (\<lambda>args. ret (SimpleClass id dollar args))
     else throw (RuntimeError (''expected '' @ quoted CHR ''<'' @ '' or '' @ quoted CHR '';'' @ '' or '' @ quoted CHR ''.'' @
       '', got '' @ quoted c @ ''.''))))"
| "parseClassTypeSignatureSuffix 0 path = throw OutOfFuel"
| "parseClassTypeSignatureSuffix (Suc n) path = andThen current (\<lambda>c.
     if c = CHR ''.'' \<or> c = CHR ''$'' then andThen advance (\<lambda>_.
       andThen (parseSimpleClassTypeSignature n True) (\<lambda>s. parseClassTypeSignatureSuffix n (path @ [s])))
     else ret path)"
| "parseTypeArguments 0 = throw OutOfFuel"
| "parseTypeArguments (Suc n) = andThen current (\<lambda>c.
     if c \<noteq> CHR ''<'' then throw (RuntimeError (''expected '' @ quoted CHR ''<''))
     else andThen advance (\<lambda>_. andThen (parseTypeArgument n) (\<lambda>a. andThen (typeArgumentsLoop n [a]) (\<lambda>tas.
       andThen advance (\<lambda>_. ret tas)))))"
| "typeArgumentsLoop 0 tas = throw OutOfFuel"
| "typeArgumentsLoop (Suc n) tas = andThen current (\<lambda>c.
     if c \<noteq> CHR ''>'' then andThen (parseTypeArgument n) (\<lambda>a. typeArgumentsLoop n (tas @ [a])) else ret tas)"
| "parseTypeArgument 0 = throw OutOfFuel"
| "parseTypeArgument (Suc n) = andThen current (\<lambda>c.
     if c = CHR ''+'' then andThen advance (\<lambda>_. andThen (parseFieldTypeSignature n True) (\<lambda>f.
       ret (Wildcard [f] [BottomSignature])))
     else if c = CHR ''*'' then andThen advance (\<lambda>_. ret (Wildcard [objectSignature] [BottomSignature]))
     else if c = CHR ''-'' then andThen advance (\<lambda>_. andThen (parseFieldTypeSignature n True) (\<lambda>f.
       ret (Wildcard [objectSignature] [f])))
     else andThen (parseFieldTypeSignature n True) (\<lambda>f. ret (FieldArgument f)))"
| "parseArrayTypeSignature 0 = throw OutOfFuel"
| "parseArrayTypeSignature (Suc n) = andThen current (\<lambda>c.
     if c \<noteq> CHR ''['' then throw (RuntimeError ''expected array type signature'')
     else andThen advance (\<lambda>_. andThen (parseTypeSignature n) (\<lambda>t. ret (ArrayType t))))"
| "parseTypeSignature 0 = throw OutOfFuel"
| "parseTypeSignature (Suc n) = andThen current (\<lambda>c. case baseTypeOf c of
       Some _ \<Rightarrow> andThen parseBaseType (\<lambda>b. ret (BaseType b))
     | None \<Rightarrow> andThen (parseFieldTypeSignature n True) (\<lambda>f. ret (FieldType f)))"

section \<open>Class and method signatures\<close>

primrec boundsLoop :: "nat \<Rightarrow> field_signature list \<Rightarrow> (sig_parser, field_signature list) prog" where
  "boundsLoop 0 fts = throw OutOfFuel"
| "boundsLoop (Suc n) fts = andThen current (\<lambda>c.
     if c = CHR '':'' then andThen advance (\<lambda>_. andThen (parseFieldTypeSignature n True) (\<lambda>f. boundsLoop n (fts @ [f])))
     else ret fts)"

definition parseBounds :: "nat \<Rightarrow> (sig_parser, field_signature list) prog" where
  "parseBounds n = andThen current (\<lambda>c.
     if c = CHR '':'' then andThen advance (\<lambda>_. andThen current (\<lambda>d.
       andThen (if d = CHR '':'' then ret [] else andThen (parseFieldTypeSignature n True) (\<lambda>f. ret [f])) (boundsLoop n)))
     else andThen (addError ''Bound expected'') (\<lambda>_. ret []))"

definition parseFormalTypeParameter :: "nat \<Rightarrow> (sig_parser, formal_type_parameter) prog" where
  "parseFormalTypeParameter n = andThen parseIdentifier (\<lambda>id. andThen (parseBounds n) (\<lambda>bs.
     ret (FormalTypeParameter id bs)))"

primrec formalsLoop :: "nat \<Rightarrow> formal_type_parameter list \<Rightarrow> (sig_parser, formal_type_parameter list) prog" where
  "formalsLoop 0 ftps = throw OutOfFuel"
| "formalsLoop (Suc n) ftps = andThen current (\<lambda>c.
     if c \<noteq> CHR ''>'' then andThen getState (\<lambda>s. andThen (parseFormalTypeParameter n) (\<lambda>f.
       andThen (progress (sigPos s)) (\<lambda>_. formalsLoop n (ftps @ [f]))))
     else ret ftps)"

definition parseFormalTypeParameters :: "nat \<Rightarrow> (sig_parser, formal_type_parameter list) prog" where
  "parseFormalTypeParameters n = andThen current (\<lambda>c.
     if c \<noteq> CHR ''<'' then throw (RuntimeError (''expected '' @ quoted CHR ''<''))
     else andThen advance (\<lambda>_. andThen (parseFormalTypeParameter n) (\<lambda>f. andThen (formalsLoop n [f]) (\<lambda>ftps.
       andThen advance (\<lambda>_. ret ftps)))))"

definition parseZeroOrMoreFormalTypeParameters :: "nat \<Rightarrow> (sig_parser, formal_type_parameter list) prog" where
  "parseZeroOrMoreFormalTypeParameters n = andThen current (\<lambda>c.
     if c = CHR ''<'' then parseFormalTypeParameters n else ret [])"

primrec superInterfacesLoop :: "nat \<Rightarrow> field_signature list \<Rightarrow> (sig_parser, field_signature list) prog" where
  "superInterfacesLoop 0 cts = throw OutOfFuel"
| "superInterfacesLoop (Suc n) cts = andThen current (\<lambda>c.
     if c = CHR ''L'' then andThen (parseClassTypeSignature n) (\<lambda>f. superInterfacesLoop n (cts @ [f])) else ret cts)"

definition parseSuperInterfaces :: "nat \<Rightarrow> (sig_parser, field_signature list) prog" where
  "parseSuperInterfaces n = superInterfacesLoop n []"

definition parseClassSignature :: "nat \<Rightarrow> (sig_parser, class_signature) prog" where
  "parseClassSignature n = andThen (parseZeroOrMoreFormalTypeParameters n) (\<lambda>ftps.
     andThen (parseClassTypeSignature n) (\<lambda>sc. andThen (parseSuperInterfaces n) (\<lambda>sis.
     ret \<lparr>csFormals = ftps, csSuperclass = sc, csInterfaces = sis\<rparr>)))"

definition typeStart :: "char \<Rightarrow> bool" where
  "typeStart c \<longleftrightarrow> c \<in> {CHR ''B'', CHR ''C'', CHR ''D'', CHR ''F'', CHR ''I'', CHR ''J'', CHR ''S'', CHR ''Z'',
     CHR ''L'', CHR ''T'', CHR ''[''}"

primrec typeSignaturesLoop :: "nat \<Rightarrow> type_signature list \<Rightarrow> (sig_parser, type_signature list) prog" where
  "typeSignaturesLoop 0 ts = throw OutOfFuel"
| "typeSignaturesLoop (Suc n) ts = andThen current (\<lambda>c.
     if typeStart c then andThen (parseTypeSignature n) (\<lambda>t. typeSignaturesLoop n (ts @ [t])) else ret ts)"

definition parseZeroOrMoreTypeSignatures :: "nat \<Rightarrow> (sig_parser, type_signature list) prog" where
  "parseZeroOrMoreTypeSignatures n = typeSignaturesLoop n []"

definition parseFormalParameters :: "nat \<Rightarrow> (sig_parser, type_signature list) prog" where
  "parseFormalParameters n = andThen current (\<lambda>c.
     if c \<noteq> CHR ''('' then throw (RuntimeError (''expected '' @ quoted CHR ''(''))
     else andThen advance (\<lambda>_. andThen (parseZeroOrMoreTypeSignatures n) (\<lambda>pts. andThen current (\<lambda>d.
       if d \<noteq> CHR '')'' then throw (RuntimeError (''expected '' @ quoted CHR '')''))
       else andThen advance (\<lambda>_. ret pts)))))"

definition parseReturnTypeSig :: "nat \<Rightarrow> (sig_parser, return_type) prog" where
  "parseReturnTypeSig n = andThen current (\<lambda>c.
     if c = CHR ''V'' then andThen advance (\<lambda>_. ret VoidDescriptor)
     else andThen (parseTypeSignature n) (\<lambda>t. ret (ReturnSignature t)))"

definition parseThrowsSignature :: "nat \<Rightarrow> (sig_parser, field_signature) prog" where
  "parseThrowsSignature n = andThen current (\<lambda>c.
     if c \<noteq> CHR ''^'' then throw (RuntimeError ''expected throws signature'')
     else andThen advance (\<lambda>_. parseFieldTypeSignature n False))"

primrec throwsLoop :: "nat \<Rightarrow> field_signature list \<Rightarrow> (sig_parser, field_signature list) prog" where
  "throwsLoop 0 ets = throw OutOfFuel"
| "throwsLoop (Suc n) ets = andThen current (\<lambda>c.
     if c = CHR ''^'' then andThen (parseThrowsSignature n) (\<lambda>f. throwsLoop n (ets @ [f])) else ret ets)"

definition parseZeroOrMoreThrowsSignatures :: "nat \<Rightarrow> (sig_parser, field_signature list) prog" where
  "parseZeroOrMoreThrowsSignatures n = throwsLoop n []"

definition parseMethodTypeSignature :: "nat \<Rightarrow> (sig_parser, method_signature) prog" where
  "parseMethodTypeSignature n = andThen getState (\<lambda>s. if sigPos s \<noteq> 0 then throw AssertFail else
     andThen (parseZeroOrMoreFormalTypeParameters n) (\<lambda>ftps. andThen (parseFormalParameters n) (\<lambda>pts.
     andThen (parseReturnTypeSig n) (\<lambda>rt. andThen (parseZeroOrMoreThrowsSignatures n) (\<lambda>ets.
     ret \<lparr>msFormals = ftps, msParameters = pts, msReturn = rt, msThrows = ets\<rparr>)))))"

definition fuelFor :: "string \<Rightarrow> nat" where
  "fuelFor signature = 6 * length signature + 24"

definition startParser :: "string \<Rightarrow> sig_parser" where
  "startParser signature = \<lparr>sigInput = signature, sigPos = 0, sigErrors = []\<rparr>"

definition parseClassSig :: "string \<Rightarrow> class_signature result \<times> sig_parser" where
  "parseClassSig signature = parseClassSignature (fuelFor signature) (startParser signature)"

definition parseMethodSig :: "string \<Rightarrow> method_signature result \<times> sig_parser" where
  "parseMethodSig signature = parseMethodTypeSignature (fuelFor signature) (startParser signature)"

definition parseTypeSig :: "string \<Rightarrow> type_signature result \<times> sig_parser" where
  "parseTypeSig signature = parseTypeSignature (fuelFor signature) (startParser signature)"

section \<open>The signature attribute\<close>

text \<open>
  \<open>getString\<close> parses the text only to discard the tree: an exception is ignored and the text is
  returned as it is.  Other faults are not exceptions; \<open>OutOfFuel\<close> stands for a run of the parser
  without end and passes through every caller, as such a run does.
\<close>

definition ignoreException :: "'a result \<Rightarrow> string \<Rightarrow> string result" where
  "ignoreException r text = (case r of
       Inr _ \<Rightarrow> Inr text
     | Inl (RuntimeError _) \<Rightarrow> Inr text
     | Inl (InvalidArgument _) \<Rightarrow> Inr text
     | Inl (FilesystemError _) \<Rightarrow> Inr text
     | Inl e \<Rightarrow> Inl e)"

definition signatureText :: "constant_pool \<Rightarrow> attribute_owner \<Rightarrow> u2 \<Rightarrow> string result" where
  "signatureText cp owner index = (case owner of
       ClassFileOwner \<Rightarrow> bindR (getString cp index False) (\<lambda>t. ignoreException (fst (parseClassSig t)) t)
     | MethodOwner \<Rightarrow> bindR (getString cp index False) (\<lambda>t. ignoreException (fst (parseMethodSig t)) t)
     | FieldOwner \<Rightarrow> bindR (getString cp index False) (\<lambda>t. ignoreException (fst (parseTypeSig t)) t)
     | _ \<Rightarrow> Inr [])"

definition signatureToString :: "constant_pool \<Rightarrow> attribute_info \<Rightarrow> (vector_reader, string) prog" where
  "signatureToString cp a = (if attrOwner a \<in> {ClassFileOwner, MethodOwner, FieldOwner}
     then andThen vrReadU2 (\<lambda>i. liftR (signatureText cp (attrOwner a) i)) else ret [])"

section \<open>Fuel\<close>

definition left :: "sig_parser \<Rightarrow> nat" where
  "left s = length (sigInput s) + 2 - sigPos s"

text \<open>\<open>total k m s\<close>: from \<open>s\<close> the program does not run out of fuel, and it consumes at least
  \<open>k\<close> characters when it returns.\<close>

definition total :: "nat \<Rightarrow> (sig_parser, 'a) prog \<Rightarrow> sig_parser \<Rightarrow> bool" where
  "total k m s \<longleftrightarrow> fst (m s) \<noteq> Inl OutOfFuel \<and> (\<forall>x s'. m s = (Inr x, s') \<longrightarrow> left s' + k \<le> left s)"

lemma total_ret [intro]: "total 0 (ret x) s"
  by (simp add: total_def)

lemma total_throw [intro]: "e \<noteq> OutOfFuel \<Longrightarrow> total k (throw e) s"
  by (simp add: total_def)

lemma total_mono: "total j m s \<Longrightarrow> k \<le> j \<Longrightarrow> total k m s"
  unfolding total_def by (meson add_left_mono order_trans)

lemma total_andThen:
  assumes "total j m s" "\<And>x s'. m s = (Inr x, s') \<Longrightarrow> left s' + j \<le> left s \<Longrightarrow> total i (f x) s'" "k \<le> i + j"
  shows "total k (andThen m f) s"
proof -
  obtain r t where m: "m s = (r, t)" by fastforce
  show ?thesis
  proof (cases r)
    case (Inl e) with m assms(1) show ?thesis by (auto simp: total_def)
  next
    case (Inr x)
    have j: "left t + j \<le> left s" using assms(1) m Inr by (simp add: total_def)
    with assms(2) [of x t] m Inr have f: "total i (f x) t" by simp
    show ?thesis unfolding total_def using f m Inr j assms(3) by (auto simp: total_def)
  qed
qed

lemma total_current:
  "(\<And>c. sigPos s \<le> length (sigInput s) \<Longrightarrow> total k (f c) s) \<Longrightarrow> total k (andThen current f) s"
  by (auto simp: total_def current_def andThen_def)

lemma total_advance: "sigPos s \<le> length (sigInput s) \<Longrightarrow> total 1 advance s"
  by (simp add: total_def advance_def left_def)

lemma total_step:
  assumes "sigPos s \<le> length (sigInput s)" "\<And>s'. left s' + 1 \<le> left s \<Longrightarrow> total i (f ()) s'" "k \<le> i + 1"
  shows "total k (andThen advance f) s"
  by (rule total_andThen [OF total_advance [OF assms(1)] _ assms(3)]) (use assms(2) in auto)

lemma total_identifierLoop: "total 0 (identifierLoop r) s"
proof (induction r s rule: identifierLoop.induct)
  case (1 r s)
  show ?case
  proof (cases "isEof s")
    case True then show ?thesis by (simp add: total_def identifierLoop.simps [of r s])
  next
    case False
    then have "\<exists>c. current s = (Inr c, s)" by (simp add: current_def isEof_def)
    then obtain c where c: "current s = (Inr c, s)" by blast
    let ?t = "s\<lparr>sigPos := sigPos s + 1\<rparr>"
    show ?thesis
    proof (cases "stopChar c")
      case True then show ?thesis using False c by (simp add: total_def identifierLoop.simps [of r s])
    next
      case nstop: False
      have IH: "total 0 (identifierLoop (r @ [c])) ?t" using 1 [OF False c [symmetric] refl nstop] by simp
      have "left ?t \<le> left s" by (simp add: left_def)
      with IH show ?thesis using False nstop c
        by (auto simp: total_def identifierLoop.simps [of r s])
    qed
  qed
qed

lemma total_identifier [intro]: "total 0 parseIdentifier s"
  unfolding parseIdentifier_def by (rule total_identifierLoop)

lemma total_package: "left s < n \<Longrightarrow> total 0 (packageLoop n idb) s"
proof (induction n arbitrary: idb s)
  case (Suc n)
  show ?case
  proof (simp, rule total_current, goal_cases)
    case (1 c)
    show ?case
    proof (cases "c = CHR ''/''")
      case True
      show ?thesis unfolding True
        by (simp, rule total_step [OF 1, where i = 0], rule total_andThen [OF total_identifier, where i = 0])
          (use Suc in auto)
    qed auto
  qed
qed simp

lemma total_typeVariable: "total 1 parseTypeVariableSignature s"
  unfolding parseTypeVariableSignature_def
proof (rule total_current, goal_cases)
  case (1 c)
  show ?case
  proof (cases "c = CHR ''T''")
    case True
    have "total 0 (andThen parseIdentifier (\<lambda>name. andThen current (\<lambda>d.
        if d \<noteq> CHR '';'' then throw (RuntimeError (''; expected in signature of type variable named '' @ name))
        else andThen advance (\<lambda>_. ret (TypeVariable name))))) s'" for s'
      by (rule total_andThen [OF total_identifier, where i = 0])
        (auto intro!: total_current total_step [where i = 0])
    with True 1 show ?thesis by (simp, intro total_step [where i = 0]) auto
  qed auto
qed

text \<open>Enough fuel for every nonterminal: six units per character left and its rank.\<close>

definition fueled :: "nat \<Rightarrow> bool" where
  "fueled n \<longleftrightarrow>
     (\<forall>s a. 6 * left s + 2 \<le> n \<longrightarrow> total 1 (parseFieldTypeSignature n a) s) \<and>
     (\<forall>s. 6 * left s + 1 \<le> n \<longrightarrow> total 1 (parseClassTypeSignature n) s) \<and>
     (\<forall>s. 6 * left s + 2 \<le> n \<longrightarrow> total 0 (parsePackageNameAndSimpleClassTypeSignature n) s) \<and>
     (\<forall>s d. 6 * left s + 2 \<le> n \<longrightarrow> total 0 (parseSimpleClassTypeSignature n d) s) \<and>
     (\<forall>s p. 6 * left s + 1 \<le> n \<longrightarrow> total 0 (parseClassTypeSignatureSuffix n p) s) \<and>
     (\<forall>s. 6 * left s + 1 \<le> n \<longrightarrow> total 1 (parseTypeArguments n) s) \<and>
     (\<forall>s t. 6 * left s + 4 \<le> n \<longrightarrow> total 0 (typeArgumentsLoop n t) s) \<and>
     (\<forall>s. 6 * left s + 3 \<le> n \<longrightarrow> total 1 (parseTypeArgument n) s) \<and>
     (\<forall>s. 6 * left s + 1 \<le> n \<longrightarrow> total 1 (parseArrayTypeSignature n) s) \<and>
     (\<forall>s. 6 * left s + 3 \<le> n \<longrightarrow> total 1 (parseTypeSignature n) s)"

lemma fueledD:
  assumes "fueled n"
  shows "6 * left s + 2 \<le> n \<Longrightarrow> total 1 (parseFieldTypeSignature n a) s"
    "6 * left s + 1 \<le> n \<Longrightarrow> total 1 (parseClassTypeSignature n) s"
    "6 * left s + 2 \<le> n \<Longrightarrow> total 0 (parsePackageNameAndSimpleClassTypeSignature n) s"
    "6 * left s + 2 \<le> n \<Longrightarrow> total 0 (parseSimpleClassTypeSignature n d) s"
    "6 * left s + 1 \<le> n \<Longrightarrow> total 0 (parseClassTypeSignatureSuffix n p) s"
    "6 * left s + 1 \<le> n \<Longrightarrow> total 1 (parseTypeArguments n) s"
    "6 * left s + 4 \<le> n \<Longrightarrow> total 0 (typeArgumentsLoop n t) s"
    "6 * left s + 3 \<le> n \<Longrightarrow> total 1 (parseTypeArgument n) s"
    "6 * left s + 1 \<le> n \<Longrightarrow> total 1 (parseArrayTypeSignature n) s"
    "6 * left s + 3 \<le> n \<Longrightarrow> total 1 (parseTypeSignature n) s"
  using assms unfolding fueled_def by blast+

lemma fueled_field:
  assumes "fueled n" "6 * left s + 2 \<le> Suc n"
  shows "total 1 (parseFieldTypeSignature (Suc n) a) s"
proof (simp only: parseFieldTypeSignature.simps, rule total_current, goal_cases)
  case (1 c)
  have "total 1 (parseClassTypeSignature n) s" "total 1 (parseArrayTypeSignature n) s"
    using assms(2) by (auto intro!: fueledD(2,9) [OF assms(1)] simp del: One_nat_def)
  then show ?case using total_typeVariable [of s] by (auto simp del: One_nat_def)
qed

lemma total_close:
  "total 1 (andThen current (\<lambda>d. if d \<noteq> c then throw (RuntimeError (msg d)) else andThen advance (\<lambda>_. ret x))) s"
  by (auto intro!: total_current total_step [where i = 0])

lemma fueled_class:
  assumes "fueled n" "6 * left s + 1 \<le> Suc n"
  shows "total 1 (parseClassTypeSignature (Suc n)) s"
proof (simp only: parseClassTypeSignature.simps, rule total_current, goal_cases)
  case (1 c)
  show ?case
  proof (cases "c = CHR ''L''")
    case False then show ?thesis by (simp add: total_def)
  next
    case True
    show ?thesis unfolding True
    proof (simp, rule total_step [OF 1, where i = 1], goal_cases)
      case (1 s')
      show ?case
        by (rule total_andThen [OF fueledD(3) [OF assms(1)], where i = 1],
            use 1 assms in simp,
            rule total_andThen [OF fueledD(5) [OF assms(1)], where i = 1],
            use 1 assms in simp)
          (auto intro!: total_close simp del: One_nat_def)
    qed simp
  qed
qed

lemma fueled_tail:
  assumes "fueled n" "6 * left s + 1 \<le> n"
  shows "total 0 (andThen (parseTypeArguments n) (\<lambda>args. ret (f args))) s"
  by (rule total_andThen [OF fueledD(6) [OF assms], where i = 0]) auto

lemma fueled_package:
  assumes "fueled n" "6 * left s + 2 \<le> Suc n"
  shows "total 0 (parsePackageNameAndSimpleClassTypeSignature (Suc n)) s"
proof (simp only: parsePackageNameAndSimpleClassTypeSignature.simps,
    rule total_andThen [OF total_identifier, where i = 0], goal_cases)
  case (1 id t)
  show ?case
  proof (rule total_andThen [OF total_package, where i = 0], goal_cases)
    case 1 show ?case using \<open>left t + 0 \<le> left s\<close> assms by linarith
  next
    case (2 name u)
    then show ?case using 1 assms by (intro total_current) (auto intro!: fueled_tail [OF assms(1)])
  qed simp
qed simp

lemma fueled_simple:
  assumes "fueled n" "6 * left s + 2 \<le> Suc n"
  shows "total 0 (parseSimpleClassTypeSignature (Suc n) d) s"
proof (simp only: parseSimpleClassTypeSignature.simps,
    rule total_andThen [OF total_identifier, where i = 0], goal_cases)
  case (1 id t)
  then show ?case using assms by (intro total_current) (auto intro!: fueled_tail [OF assms(1)])
qed simp

lemma fueled_suffix:
  assumes "fueled n" "6 * left s + 1 \<le> Suc n"
  shows "total 0 (parseClassTypeSignatureSuffix (Suc n) p) s"
proof (simp only: parseClassTypeSignatureSuffix.simps, rule total_current, goal_cases)
  case (1 c)
  show ?case
  proof (cases "c = CHR ''.'' \<or> c = CHR ''$''")
    case True
    have "total 0 (andThen advance (\<lambda>_. andThen (parseSimpleClassTypeSignature n True)
        (\<lambda>s. parseClassTypeSignatureSuffix n (p @ [s])))) s"
    proof (rule total_step [OF 1, where i = 0], goal_cases)
      case (1 t)
      show ?case
        by (rule total_andThen [OF fueledD(4) [OF assms(1)], where i = 0])
          (use 1 assms in \<open>auto intro!: fueledD(5) [OF assms(1)]\<close>)
    qed simp
    then show ?thesis by (simp only: True if_True)
  qed auto
qed

lemma fueled_arguments:
  assumes "fueled n" "6 * left s + 1 \<le> Suc n"
  shows "total 1 (parseTypeArguments (Suc n)) s"
proof (simp only: parseTypeArguments.simps, rule total_current, goal_cases)
  case (1 c)
  show ?case
  proof (cases "c = CHR ''<''")
    case True
    show ?thesis unfolding True
    proof (simp, rule total_step [OF 1, where i = 0], goal_cases)
      case (1 t)
      show ?case
      proof (rule total_andThen [OF fueledD(8) [OF assms(1)], where i = 0], goal_cases)
        case 1 show ?case using \<open>left t + 1 \<le> left s\<close> assms by linarith
      next
        case (2 a u)
        show ?case
          by (rule total_andThen [OF fueledD(7) [OF assms(1)], where i = 0])
            (use 1 2 assms in \<open>auto simp: total_def advance_def left_def\<close>)
      qed simp
    qed simp
  qed auto
qed

lemma fueled_loop:
  assumes "fueled n" "6 * left s + 4 \<le> Suc n"
  shows "total 0 (typeArgumentsLoop (Suc n) tas) s"
proof (simp only: typeArgumentsLoop.simps, rule total_current, goal_cases)
  case (1 c)
  have "total 0 (andThen (parseTypeArgument n) (\<lambda>a. typeArgumentsLoop n (tas @ [a]))) s"
    by (rule total_andThen [OF fueledD(8) [OF assms(1)], where i = 0])
      (use assms in \<open>auto intro!: fueledD(7) [OF assms(1)]\<close>)
  then show ?case by auto
qed

lemma fueled_then_ret:
  assumes "fueled n" "6 * left s + 2 \<le> n"
  shows "total 1 (andThen (parseFieldTypeSignature n True) (\<lambda>f. ret (g f))) s"
  by (rule total_andThen [OF fueledD(1) [OF assms], where i = 0]) auto

lemma fueled_argument:
  assumes "fueled n" "6 * left s + 3 \<le> Suc n"
  shows "total 1 (parseTypeArgument (Suc n)) s"
proof (simp only: parseTypeArgument.simps, rule total_current, goal_cases)
  case (1 c)
  have a: "total 1 (andThen advance (\<lambda>_. andThen (parseFieldTypeSignature n True) (\<lambda>f. ret (g f)))) s" for g :: "field_signature \<Rightarrow> type_argument"
    by (rule total_step [OF 1, where i = 1]) (use assms in \<open>auto intro!: fueled_then_ret [OF assms(1)] simp del: One_nat_def\<close>)
  have b: "total 1 (andThen advance (\<lambda>_. ret x)) s" for x :: type_argument
    by (rule total_step [OF 1, where i = 0]) auto
  have c: "total 1 (andThen (parseFieldTypeSignature n True) (\<lambda>f. ret (FieldArgument f))) s"
    using assms(2) by (intro fueled_then_ret [OF assms(1)]) simp
  show ?case using a b c by simp
qed

lemma fueled_array:
  assumes "fueled n" "6 * left s + 1 \<le> Suc n"
  shows "total 1 (parseArrayTypeSignature (Suc n)) s"
proof (simp only: parseArrayTypeSignature.simps, rule total_current, goal_cases)
  case (1 c)
  have "total 1 (andThen advance (\<lambda>_. andThen (parseTypeSignature n) (\<lambda>t. ret (ArrayType t)))) s"
  proof (rule total_step [OF 1, where i = 1], goal_cases)
    case (1 t)
    show ?case by (rule total_andThen [OF fueledD(10) [OF assms(1)], where i = 0]) (use 1 assms in auto)
  qed simp
  then show ?case by auto
qed

lemma fueled_type:
  assumes "fueled n" "6 * left s + 3 \<le> Suc n"
  shows "total 1 (parseTypeSignature (Suc n)) s"
proof (simp only: parseTypeSignature.simps, rule total_current, goal_cases)
  case (1 c)
  have "total 1 parseBaseType s" unfolding parseBaseType_def
    by (auto intro!: total_current total_step [where i = 0] split: option.splits)
  then have "total 1 (andThen parseBaseType (\<lambda>b. ret (BaseType b))) s"
    by (rule total_andThen [where i = 0]) auto
  moreover have "total 1 (andThen (parseFieldTypeSignature n True) (\<lambda>f. ret (FieldType f))) s"
    using assms(2) by (intro fueled_then_ret [OF assms(1)]) simp
  ultimately show ?case by (simp split: option.splits)
qed

lemma fueled_all: "fueled n"
proof (induction n)
  case 0 then show ?case by (simp add: fueled_def)
next
  case (Suc n)
  show ?case unfolding fueled_def
    using fueled_field [OF Suc] fueled_class [OF Suc] fueled_package [OF Suc] fueled_simple [OF Suc] fueled_suffix [OF Suc]
      fueled_arguments [OF Suc] fueled_loop [OF Suc] fueled_argument [OF Suc] fueled_array [OF Suc] fueled_type [OF Suc]
    by blast
qed

text \<open>(C32) Parsing a type signature ends on every input: the recursion never exceeds six calls
  per character and a constant, so the fuel is never exhausted.\<close>

theorem parseTypeSig_terminates: "fst (parseTypeSig signature) \<noteq> Inl OutOfFuel"
  using fueledD(10) [OF fueled_all, of "startParser signature" "fuelFor signature"]
  by (simp add: parseTypeSig_def total_def left_def startParser_def fuelFor_def)

section \<open>Well-formed signatures and their text\<close>

fun baseChar :: "base_type \<Rightarrow> char" where
  "baseChar ByteSig = CHR ''B''"
| "baseChar CharSig = CHR ''C''"
| "baseChar DoubleSig = CHR ''D''"
| "baseChar FloatSig = CHR ''F''"
| "baseChar IntSig = CHR ''I''"
| "baseChar LongSig = CHR ''J''"
| "baseChar ShortSig = CHR ''S''"
| "baseChar BooleanSig = CHR ''Z''"

definition slashed :: "bool \<Rightarrow> string \<Rightarrow> string" where
  "slashed first name = (if first then map (\<lambda>c. if c = CHR ''.'' then CHR ''/'' else c) name else name)"

fun printSig :: "type_signature \<Rightarrow> string"
and printField :: "field_signature \<Rightarrow> string"
and printSimple :: "bool \<Rightarrow> simple_class_signature \<Rightarrow> string"
and printArg :: "type_argument \<Rightarrow> string"
where
  "printSig (BaseType b) = [baseChar b]"
| "printSig (FieldType f) = printField f"
| "printField (ClassType []) = []"
| "printField (ClassType (p # ps)) = ''L'' @ printSimple True p @ concat (map (\<lambda>q. ''$'' @ printSimple False q) ps) @ '';''"
| "printField (TypeVariable n) = ''T'' @ n @ '';''"
| "printField (ArrayType t) = ''['' @ printSig t"
| "printField BottomSignature = []"
| "printField (SimpleField _) = []"
| "printSimple first (SimpleClass n d args) = slashed first n @
     (if args = [] then [] else ''<'' @ concat (map printArg args) @ ''>'')"
| "printArg (FieldArgument f) = printField f"
| "printArg (Wildcard [u] [l]) = (if u = objectSignature then (if l = BottomSignature then ''*'' else ''-'' @ printField l)
     else ''+'' @ printField u)"
| "printArg (Wildcard _ _) = []"

definition wfName :: "bool \<Rightarrow> string \<Rightarrow> bool" where
  "wfName first n \<longleftrightarrow> list_all (\<lambda>c. \<not> stopChar c \<or> (first \<and> c = CHR ''.'')) n"

fun wfSig :: "type_signature \<Rightarrow> bool"
and wfField :: "field_signature \<Rightarrow> bool"
and wfSimple :: "bool \<Rightarrow> simple_class_signature \<Rightarrow> bool"
and wfArg :: "type_argument \<Rightarrow> bool"
where
  "wfSig (BaseType b) = True"
| "wfSig (FieldType f) = wfField f"
| "wfField (ClassType []) = False"
| "wfField (ClassType (p # ps)) = (wfSimple True p \<and> list_all (wfSimple False) ps)"
| "wfField (TypeVariable n) = wfName False n"
| "wfField (ArrayType t) = wfSig t"
| "wfField BottomSignature = False"
| "wfField (SimpleField _) = False"
| "wfSimple first (SimpleClass n d args) = (d = (\<not> first) \<and> wfName first n \<and> list_all wfArg args)"
| "wfArg (FieldArgument f) = wfField f"
| "wfArg (Wildcard [u] [l]) = ((u = objectSignature \<and> (l = BottomSignature \<or> wfField l)) \<or> (l = BottomSignature \<and> wfField u))"
| "wfArg (Wildcard _ _) = False"

definition sigAt :: "string \<Rightarrow> string \<Rightarrow> string list \<Rightarrow> sig_parser" where
  "sigAt pre suf e = \<lparr>sigInput = pre @ suf, sigPos = length pre, sigErrors = e\<rparr>"

lemma current_Cons_sig [simp]: "current (sigAt pre (c # suf) e) = (Inr c, sigAt pre (c # suf) e)"
  by (simp add: current_def sigAt_def nth_append)

lemma current_Nil_sig [simp]: "current (sigAt pre [] e) = (Inr nul, sigAt pre [] e)"
  by (simp add: current_def sigAt_def)

lemma advance_sig [simp]: "advance (sigAt pre (c # suf) e) = (Inr (), sigAt (pre @ [c]) suf e)"
  by (simp add: advance_def sigAt_def)

lemma identifierLoop_stop: "stopChar d \<Longrightarrow> identifierLoop acc (sigAt pre (d # suf) e) = (Inr acc, sigAt pre (d # suf) e)"
  by (subst identifierLoop.simps) simp

lemma identifierLoop_step:
  "\<not> stopChar c \<Longrightarrow> identifierLoop acc (sigAt pre (c # suf) e) = identifierLoop (acc @ [c]) (sigAt (pre @ [c]) suf e)"
proof -
  assume c: "\<not> stopChar c"
  have pos: "(sigAt pre (c # suf) e)\<lparr>sigPos := sigPos (sigAt pre (c # suf) e) + 1\<rparr> = sigAt (pre @ [c]) suf e"
    "\<not> isEof (sigAt pre (c # suf) e)"
    by (simp_all add: sigAt_def isEof_def)
  show ?thesis by (subst identifierLoop.simps) (simp only: pos current_Cons_sig prod.case sum.case c if_False)
qed

lemma identifierLoop_name:
  "wfName False n \<Longrightarrow> stopChar d \<Longrightarrow>
   identifierLoop acc (sigAt pre (n @ d # suf) e) = (Inr (acc @ n), sigAt (pre @ n) (d # suf) e)"
proof (induction n arbitrary: acc pre)
  case Nil then show ?case by (simp add: identifierLoop_stop)
next
  case (Cons c n)
  then show ?case by (simp add: identifierLoop_step wfName_def)
qed

lemma packageLoop_name:
  assumes "wfName True n" "stopChar d" "d \<noteq> CHR ''/''" "length n < k"
  shows "andThen (identifierLoop acc) (\<lambda>i. packageLoop k (idb @ i)) (sigAt pre (slashed True n @ d # suf) e) =
    (Inr (idb @ acc @ n), sigAt (pre @ slashed True n) (d # suf) e)"
  using assms
proof (induction n arbitrary: acc idb pre k)
  case Nil
  then obtain k' where "k = Suc k'" by (cases k) auto
  with Nil show ?case by (simp add: identifierLoop_stop slashed_def)
next
  case (Cons c n)
  then obtain k' where k: "k = Suc k'" by (cases k) auto
  show ?case
  proof (cases "c = CHR ''.''")
    case True
    have st: "stopChar CHR ''/''" by (simp add: stopChar_def)
    have "andThen (identifierLoop []) (\<lambda>i. packageLoop k' ((idb @ acc @ ''.'') @ i)) (sigAt (pre @ ''/'') (slashed True n @ d # suf) e) =
      (Inr ((idb @ acc @ ''.'') @ [] @ n), sigAt ((pre @ ''/'') @ slashed True n) (d # suf) e)"
      using Cons k by (intro Cons.IH) (auto simp: wfName_def)
    then show ?thesis using True k st
      by (simp add: slashed_def identifierLoop_stop parseIdentifier_def)
  next
    case False
    then have "\<not> stopChar c" using Cons.prems(1) by (simp add: wfName_def)
    moreover have "andThen (identifierLoop (acc @ [c])) (\<lambda>i. packageLoop k (idb @ i)) (sigAt (pre @ [c]) (slashed True n @ d # suf) e) =
      (Inr (idb @ (acc @ [c]) @ n), sigAt ((pre @ [c]) @ slashed True n) (d # suf) e)"
      using Cons by (intro Cons.IH) (auto simp: wfName_def)
    ultimately show ?thesis using False by (simp add: slashed_def andThen_def identifierLoop_step)
  qed
qed

definition reads_sig :: "(sig_parser, 'a) prog \<Rightarrow> string \<Rightarrow> 'a \<Rightarrow> bool" where
  "reads_sig m txt x \<longleftrightarrow> (\<forall>pre suf e. m (sigAt pre (txt @ suf) e) = (Inr x, sigAt (pre @ txt) suf e))"

lemma reads_sigD: "reads_sig m txt x \<Longrightarrow> m (sigAt pre (txt @ suf) e) = (Inr x, sigAt (pre @ txt) suf e)"
  by (simp add: reads_sig_def)

text \<open>Texts read only when one of the characters of \<open>D\<close> follows.\<close>

definition reads_before :: "char set \<Rightarrow> (sig_parser, 'a) prog \<Rightarrow> string \<Rightarrow> 'a \<Rightarrow> bool" where
  "reads_before D m txt x \<longleftrightarrow> (\<forall>pre d suf e. d \<in> D \<longrightarrow>
     m (sigAt pre (txt @ d # suf) e) = (Inr x, sigAt (pre @ txt) (d # suf) e))"

lemma reads_beforeD: "reads_before D m txt x \<Longrightarrow> d \<in> D \<Longrightarrow>
    m (sigAt pre (txt @ d # suf) e) = (Inr x, sigAt (pre @ txt) (d # suf) e)"
  by (simp add: reads_before_def)

abbreviation nameEnds :: "char set" where
  "nameEnds \<equiv> {CHR '';'', CHR ''$''}"

lemma baseTypeOf_baseChar [simp]: "baseTypeOf (baseChar b) = Some b"
  by (cases b) (simp_all add: baseTypeOf.simps)

lemma baseTypeOf_field: "baseTypeOf CHR ''L'' = None" "baseTypeOf CHR ''T'' = None" "baseTypeOf CHR ''['' = None"
  by (simp_all add: baseTypeOf.simps)

lemma printField_hd:
  "wfField f \<Longrightarrow> \<exists>c t. printField f = c # t \<and> c \<in> {CHR ''L'', CHR ''T'', CHR ''[''}"
  by (cases f rule: printField.cases) auto

lemma printArg_hd:
  "wfArg a \<Longrightarrow> \<exists>c t. printArg a = c # t \<and> c \<in> {CHR ''L'', CHR ''T'', CHR ''['', CHR ''+'', CHR ''-'', CHR ''*''}"
  using printField_hd by (cases a rule: printArg.cases) fastforce+

lemma typeArgumentsLoop_reads:
  assumes "\<And>a n. a \<in> set as \<Longrightarrow> wfArg a \<and> (6 * length (printArg a) + 3 \<le> n \<longrightarrow> reads_sig (parseTypeArgument n) (printArg a) a)"
    "6 * length (concat (map printArg as)) + 4 \<le> n"
  shows "reads_before {CHR ''>''} (typeArgumentsLoop n tas) (concat (map printArg as)) (tas @ as)"
  using assms
proof (induction as arbitrary: n tas)
  case Nil
  then obtain m where "n = Suc m" by (cases n) auto
  then show ?case by (simp add: reads_before_def)
next
  case (Cons a as)
  obtain m where n: "n = Suc m" using Cons.prems(2) by (cases n) auto
  have "wfArg a" using Cons.prems(1) [of a 0] by simp
  then obtain c t where a: "printArg a = c # t" "c \<noteq> CHR ''>''" using printArg_hd [of a] by auto
  have ra: "reads_sig (parseTypeArgument m) (c # t) a"
    using Cons.prems(1) [of a m] Cons.prems(2) n a by simp
  have IH: "reads_before {CHR ''>''} (typeArgumentsLoop m (tas @ [a])) (concat (map printArg as)) ((tas @ [a]) @ as)"
    using Cons.prems n a by (intro Cons.IH) auto
  show ?case unfolding reads_before_def
  proof (intro allI impI)
    fix pre d suf e assume d: "d \<in> {CHR ''>''}"
    show "typeArgumentsLoop n tas (sigAt pre (concat (map printArg (a # as)) @ d # suf) e) =
        (Inr (tas @ a # as), sigAt (pre @ concat (map printArg (a # as))) (d # suf) e)"
      using a(2) reads_sigD [OF ra, of pre "concat (map printArg as) @ d # suf" e]
        reads_beforeD [OF IH d, of "pre @ c # t" suf e] by (simp add: n a(1))
  qed
qed

lemma parseTypeArguments_reads:
  assumes "\<And>a n. a \<in> set as \<Longrightarrow> wfArg a \<and> (6 * length (printArg a) + 3 \<le> n \<longrightarrow> reads_sig (parseTypeArgument n) (printArg a) a)"
    "as \<noteq> []" "6 * length (concat (map printArg as)) + 5 \<le> n"
  shows "reads_sig (parseTypeArguments n) (''<'' @ concat (map printArg as) @ ''>'') as"
proof -
  obtain m where n: "n = Suc m" using assms(3) by (cases n) auto
  obtain b bs where as: "as = b # bs" using assms(2) by (cases as) auto
  have rb: "reads_sig (parseTypeArgument m) (printArg b) b" using assms n as by auto
  have loop: "reads_before {CHR ''>''} (typeArgumentsLoop m [b]) (concat (map printArg bs)) ([b] @ bs)"
    using assms n as by (intro typeArgumentsLoop_reads) auto
  show ?thesis unfolding reads_sig_def
  proof (intro allI)
    fix pre suf e
    show "parseTypeArguments n (sigAt pre ((''<'' @ concat (map printArg as) @ ''>'') @ suf) e) =
        (Inr as, sigAt (pre @ ''<'' @ concat (map printArg as) @ ''>'') suf e)"
      using reads_sigD [OF rb, of "pre @ ''<''" "concat (map printArg bs) @ CHR ''>'' # suf" e]
        reads_beforeD [OF loop, of "CHR ''>''" "pre @ ''<'' @ printArg b" suf e] by (simp add: n as)
  qed
qed

lemma nameEnds_stop: "d \<in> nameEnds \<Longrightarrow> stopChar d \<and> d \<noteq> CHR ''/''"
  by (auto simp: stopChar_def)

lemma parseSimple_reads:
  assumes "\<And>a n. a \<in> set args \<Longrightarrow> wfArg a \<and> (6 * length (printArg a) + 3 \<le> n \<longrightarrow> reads_sig (parseTypeArgument n) (printArg a) a)"
    "wfName first name" "6 * length (printSimple first (SimpleClass name d args)) + 2 \<le> n"
  shows "reads_before nameEnds
    (if first then parsePackageNameAndSimpleClassTypeSignature n else parseSimpleClassTypeSignature n True)
    (printSimple first (SimpleClass name d args)) (SimpleClass name (\<not> first) args)"
  unfolding reads_before_def
proof (intro allI impI)
  fix pre c suf e assume c: "c \<in> nameEnds"
  obtain m where n: "n = Suc m" using assms(3) by (cases n) auto
  have lt: "stopChar CHR ''<''" by (simp add: stopChar_def)
  have len: "length (slashed first name) = length name" by (simp add: slashed_def)
  show "(if first then parsePackageNameAndSimpleClassTypeSignature n else parseSimpleClassTypeSignature n True)
      (sigAt pre (printSimple first (SimpleClass name d args) @ c # suf) e) =
      (Inr (SimpleClass name (\<not> first) args), sigAt (pre @ printSimple first (SimpleClass name d args)) (c # suf) e)"
  proof (cases "args = []")
    case True
    show ?thesis
    proof (cases first)
      case first: True
      have "length name < m" using assms(3) n len by simp
      then have "andThen (identifierLoop []) (\<lambda>i. packageLoop m ([] @ i)) (sigAt pre (slashed True name @ c # suf) e) =
          (Inr ([] @ [] @ name), sigAt (pre @ slashed True name) (c # suf) e)"
        using assms(2) nameEnds_stop [OF c] first by (intro packageLoop_name) auto
      then show ?thesis using True first c
        by (auto simp: n parseIdentifier_def andThen_assoc [symmetric])
    next
      case False
      then have "identifierLoop [] (sigAt pre (name @ c # suf) e) = (Inr name, sigAt (pre @ name) (c # suf) e)"
        using assms(2) nameEnds_stop [OF c] identifierLoop_name [of name c "[]" pre suf e] by simp
      then show ?thesis using True False c by (auto simp: n parseIdentifier_def slashed_def)
    qed
  next
    case args: False
    have ra: "reads_sig (parseTypeArguments m) (''<'' @ concat (map printArg args) @ ''>'') args"
      using assms n args len by (intro parseTypeArguments_reads) auto
    note r = reads_sigD [OF ra, of "pre @ slashed first name" "c # suf" e]
    show ?thesis
    proof (cases first)
      case first: True
      have "length name < m" using assms(3) n len by simp
      then have "andThen (identifierLoop []) (\<lambda>i. packageLoop m ([] @ i)) (sigAt pre (slashed True name @ CHR ''<'' # concat (map printArg args) @ ''>'' @ c # suf) e) =
          (Inr ([] @ [] @ name), sigAt (pre @ slashed True name) (CHR ''<'' # concat (map printArg args) @ ''>'' @ c # suf) e)"
        using assms(2) first lt by (intro packageLoop_name) auto
      then show ?thesis using args first r
        by (simp add: n parseIdentifier_def andThen_assoc [symmetric])
    next
      case False
      then show ?thesis using args assms(2) r lt identifierLoop_name [of name "CHR ''<''" "[]" pre "concat (map printArg args) @ ''>'' @ c # suf" e]
        by (simp add: n parseIdentifier_def slashed_def)
    qed
  qed
qed

lemma parseSuffix_reads:
  assumes "\<And>q n. q \<in> set ps \<Longrightarrow> 6 * length (printSimple False q) + 2 \<le> n \<Longrightarrow>
      reads_before nameEnds (parseSimpleClassTypeSignature n True) (printSimple False q) q"
    "6 * length (concat (map (\<lambda>q. ''$'' @ printSimple False q) ps)) + 1 \<le> n"
  shows "reads_before {CHR '';''} (parseClassTypeSignatureSuffix n path)
    (concat (map (\<lambda>q. ''$'' @ printSimple False q) ps)) (path @ ps)"
  using assms
proof (induction ps arbitrary: n path)
  case Nil
  then obtain m where "n = Suc m" by (cases n) auto
  then show ?case by (simp add: reads_before_def)
next
  case (Cons q ps)
  obtain m where n: "n = Suc m" using Cons.prems(2) by (cases n) auto
  let ?rest = "concat (map (\<lambda>q. ''$'' @ printSimple False q) ps)"
  have rq: "reads_before nameEnds (parseSimpleClassTypeSignature m True) (printSimple False q) q"
    using Cons.prems n by simp
  have IH: "reads_before {CHR '';''} (parseClassTypeSignatureSuffix m (path @ [q])) ?rest ((path @ [q]) @ ps)"
    using Cons.prems n by (intro Cons.IH) auto
  show ?case unfolding reads_before_def
  proof (intro allI impI)
    fix pre d suf e assume d: "d \<in> {CHR '';''}"
    have "\<exists>c t. ?rest @ d # suf = c # t \<and> c \<in> nameEnds" using d by (cases ps) auto
    then obtain c t where ct: "?rest @ d # suf = c # t" "c \<in> nameEnds" by blast
    show "parseClassTypeSignatureSuffix n path (sigAt pre (concat (map (\<lambda>q. ''$'' @ printSimple False q) (q # ps)) @ d # suf) e) =
        (Inr (path @ q # ps), sigAt (pre @ concat (map (\<lambda>q. ''$'' @ printSimple False q) (q # ps))) (d # suf) e)"
      using reads_beforeD [OF rq ct(2), of "pre @ ''$''" t e] reads_beforeD [OF IH d, of "pre @ ''$'' @ printSimple False q" suf e] ct(1)
      by (simp add: n)
  qed
qed

lemma parseClass_reads:
  assumes "\<And>first q n. q \<in> set (p # ps) \<Longrightarrow> wfSimple first q \<Longrightarrow> 6 * length (printSimple first q) + 2 \<le> n \<Longrightarrow>
      reads_before nameEnds (if first then parsePackageNameAndSimpleClassTypeSignature n else parseSimpleClassTypeSignature n True)
        (printSimple first q) q"
    "wfField (ClassType (p # ps))" "6 * length (printField (ClassType (p # ps))) + 1 \<le> n"
  shows "reads_sig (parseClassTypeSignature n) (printField (ClassType (p # ps))) (ClassType (p # ps))"
proof -
  let ?rest = "concat (map (\<lambda>q. ''$'' @ printSimple False q) ps)"
  obtain m where n: "n = Suc m" using assms(3) by (cases n) auto
  have rp: "reads_before nameEnds (parsePackageNameAndSimpleClassTypeSignature m) (printSimple True p) p"
    using assms(1) [of p True m] assms(2,3) n by simp
  have rs: "reads_before {CHR '';''} (parseClassTypeSignatureSuffix m [p]) ?rest ([p] @ ps)"
  proof (rule parseSuffix_reads)
    fix q k assume "q \<in> set ps" "6 * length (printSimple False q) + 2 \<le> k"
    then show "reads_before nameEnds (parseSimpleClassTypeSignature k True) (printSimple False q) q"
      using assms(1) [of q False k] assms(2) by (simp add: list_all_iff)
  qed (use assms(3) n in simp)
  show ?thesis unfolding reads_sig_def
  proof (intro allI)
    fix pre suf e
    have "\<exists>c t. ?rest @ CHR '';'' # suf = c # t \<and> c \<in> nameEnds" by (cases ps) auto
    then obtain c t where ct: "?rest @ CHR '';'' # suf = c # t" "c \<in> nameEnds" by blast
    show "parseClassTypeSignature n (sigAt pre (printField (ClassType (p # ps)) @ suf) e) =
        (Inr (ClassType (p # ps)), sigAt (pre @ printField (ClassType (p # ps))) suf e)"
      using reads_beforeD [OF rp ct(2), of "pre @ ''L''" t e] ct(1)
        reads_beforeD [OF rs, of "CHR '';''" "pre @ ''L'' @ printSimple True p" suf e]
      by (simp add: n)
  qed
qed

lemma typeVariable_reads:
  assumes "wfName False name"
  shows "reads_sig parseTypeVariableSignature (printField (TypeVariable name)) (TypeVariable name)"
  unfolding reads_sig_def
proof (intro allI)
  fix pre suf e
  have "stopChar CHR '';''" by (simp add: stopChar_def)
  then show "parseTypeVariableSignature (sigAt pre (printField (TypeVariable name) @ suf) e) =
      (Inr (TypeVariable name), sigAt (pre @ printField (TypeVariable name)) suf e)"
    using identifierLoop_name [OF assms, of "CHR '';''" "[]" "pre @ ''T''" suf e]
    by (simp add: parseTypeVariableSignature_def parseIdentifier_def)
qed

lemma parse_print:
  "wfSig t \<Longrightarrow> 6 * length (printSig t) + 3 \<le> n \<Longrightarrow> reads_sig (parseTypeSignature n) (printSig t) t"
  "wfField f \<Longrightarrow> 6 * length (printField f) + 2 \<le> n \<Longrightarrow> reads_sig (parseFieldTypeSignature n True) (printField f) f"
  "wfSimple first s \<Longrightarrow> 6 * length (printSimple first s) + 2 \<le> n \<Longrightarrow> reads_before nameEnds
     (if first then parsePackageNameAndSimpleClassTypeSignature n else parseSimpleClassTypeSignature n True)
     (printSimple first s) s"
  "wfArg a \<Longrightarrow> 6 * length (printArg a) + 3 \<le> n \<Longrightarrow> reads_sig (parseTypeArgument n) (printArg a) a"
proof (induction t and f and s and a arbitrary: n and n and first n and n)
  case (BaseType b)
  then obtain m where "n = Suc m" by (cases n) auto
  then show ?case by (simp add: reads_sig_def parseBaseType_def)
next
  case (FieldType f)
  then obtain m where n: "n = Suc m" by (cases n) auto
  obtain c t where f: "printField f = c # t" "baseTypeOf c = None"
    using printField_hd [of f] FieldType.prems(1) by (auto simp: baseTypeOf_field)
  have "reads_sig (parseFieldTypeSignature m True) (printField f) f" using FieldType n by simp
  then show ?case using f by (simp add: reads_sig_def n)
next
  case (ClassType path)
  then obtain m where n: "n = Suc m" by (cases n) auto
  obtain p ps where path: "path = p # ps" using ClassType.prems(1) by (cases path) auto
  have "reads_sig (parseClassTypeSignature m) (printField (ClassType (p # ps))) (ClassType (p # ps))"
    using ClassType n path by (intro parseClass_reads) auto
  then show ?case by (simp add: reads_sig_def n path)
next
  case (TypeVariable name)
  then obtain m where "n = Suc m" by (cases n) auto
  then show ?case using typeVariable_reads TypeVariable by (simp add: reads_sig_def)
next
  case (ArrayType t)
  then obtain m where n: "n = Suc (Suc m)" by (cases n; cases "n - 1") auto
  have "reads_sig (parseTypeSignature m) (printSig t) t" using ArrayType n by simp
  then have "reads_sig (parseArrayTypeSignature (Suc m)) (printField (ArrayType t)) (ArrayType t)"
    by (simp add: reads_sig_def)
  then show ?case by (simp add: reads_sig_def n)
next
  case (SimpleClass name d args)
  then show ?case using parseSimple_reads [where args = args and first = first and name = name and d = d and n = n] by (auto simp: list_all_iff)
next
  case (FieldArgument f)
  then obtain m where n: "n = Suc m" by (cases n) auto
  obtain c t where f: "printField f = c # t" "c \<in> {CHR ''L'', CHR ''T'', CHR ''[''}"
    using printField_hd [of f] FieldArgument.prems(1) by auto
  have "reads_sig (parseFieldTypeSignature m True) (printField f) f" using FieldArgument n by simp
  then show ?case using f by (auto simp: reads_sig_def n)
next
  case (Wildcard us ls)
  then obtain m where n: "n = Suc m" by (cases n) auto
  obtain u l where ul: "us = [u]" "ls = [l]" using Wildcard.prems(1) by (cases "(us, ls)" rule: prod.exhaust; cases us; cases ls; cases "tl us"; cases "tl ls") auto
  have field: "reads_sig (parseFieldTypeSignature m True) (printField f) f"
    if "f = u \<or> f = l" "wfField f" "6 * length (printField f) + 2 \<le> m" for f
    using that Wildcard.IH ul by auto
  have wild: "\<not> wfField objectSignature" by (simp add: objectSignature_def)
  show ?case
  proof (cases "u = objectSignature")
    case True
    show ?thesis
    proof (cases "l = BottomSignature")
      case bot: True then show ?thesis using True by (simp add: reads_sig_def n ul)
    next
      case False
      then have "reads_sig (parseFieldTypeSignature m True) (printField l) l"
        using True Wildcard.prems ul n wild by (intro field) auto
      then show ?thesis using True False by (simp add: reads_sig_def n ul)
    qed
  next
    case False
    then have "reads_sig (parseFieldTypeSignature m True) (printField u) u" "l = BottomSignature"
      using Wildcard.prems ul n by (auto intro!: field)
    then show ?thesis using False by (simp add: reads_sig_def n ul)
  qed
qed auto

text \<open>(C31) Round trip of type signatures: the parser recovers every well-formed tree (primitive,
  class with package, nested classes and type arguments, wildcards, type variables, arrays)
  from its text, consumes the text exactly and records no error.\<close>

theorem parseTypeSig_roundtrip:
  assumes "wfSig t"
  shows "parseTypeSig (printSig t) =
    (Inr t, \<lparr>sigInput = printSig t, sigPos = length (printSig t), sigErrors = []\<rparr>)"
  using reads_sigD [OF parse_print(1) [OF assms, of "fuelFor (printSig t)"], of "[]" "[]" "[]"]
  by (simp add: parseTypeSig_def startParser_def fuelFor_def sigAt_def)

theorem parseTypeSig_roundtrip_witness:
  "fst (parseTypeSig ''[Ljava/util/Map<TK;+[I>$Entry;'') =
     Inr (FieldType (ArrayType (FieldType (ClassType [SimpleClass ''java.util.Map'' False
       [FieldArgument (TypeVariable ''K''), Wildcard [ArrayType (BaseType IntSig)] [BottomSignature]],
       SimpleClass ''Entry'' True []]))))"
  using parseTypeSig_roundtrip [of "FieldType (ArrayType (FieldType (ClassType [SimpleClass ''java.util.Map'' False
       [FieldArgument (TypeVariable ''K''), Wildcard [ArrayType (BaseType IntSig)] [BottomSignature]],
       SimpleClass ''Entry'' True []])))"]
  by (simp add: wfName_def stopChar_def slashed_def objectSignature_def)

section \<open>Malformed signatures\<close>

lemma fst_andThen_fault: "fst (m s) = Inl e \<Longrightarrow> fst (andThen m f s) = Inl e"
  by (cases "m s") simp

lemma formalsLoop_stuck:
  assumes "stopChar c" "c \<noteq> CHR ''>''" "c \<noteq> CHR '':''"
  shows "fst (formalsLoop n ftps (sigAt pre (c # suf) e)) = Inl OutOfFuel"
proof (induction n arbitrary: ftps e)
  case (Suc n)
  have err: "addError msg (sigAt pre (c # suf) e) = (Inr (), sigAt pre (c # suf) (e @ [msg]))" for msg e
    by (simp add: addError_def sigAt_def)
  have par: "parseFormalTypeParameter n (sigAt pre (c # suf) e) =
      (Inr (FormalTypeParameter [] []), sigAt pre (c # suf) (e @ [''Bound expected'']))"
    using assms by (simp add: parseFormalTypeParameter_def parseIdentifier_def identifierLoop_stop parseBounds_def err)
  have pos: "sigPos (sigAt pre (c # suf) e) = length pre" for e by (simp add: sigAt_def)
  show ?case using assms Suc
    by (simp add: par progress_def pos err)
qed simp

text \<open>A class signature whose formal type parameters are followed by a stray delimiter is
  never rejected: the loop over the parameters notices that it makes no progress, records an
  error and goes on, so no amount of fuel lets it end.\<close>

lemma formal_parameters_loop_forever:
  assumes "wfName False name" "wfField f" "fuelFor (''<'' @ name @ '':'' @ printField f) \<le> n"
  shows "fst (parseClassSignature n (startParser (''<'' @ name @ '':'' @ printField f @ '';'' @ rest))) = Inl OutOfFuel"
proof -
  obtain m where n: "n = Suc m" using assms(3) by (cases n) (auto simp: fuelFor_def)
  obtain c t where f: "printField f = c # t" "c \<noteq> CHR '':''" using printField_hd [OF assms(2)] by auto
  have stop: "stopChar CHR '':''" "stopChar CHR '';''" by (simp_all add: stopChar_def)
  have start: "startParser (''<'' @ name @ '':'' @ printField f @ '';'' @ rest) =
      sigAt [] (CHR ''<'' # name @ CHR '':'' # printField f @ CHR '';'' # rest) []"
    by (simp add: startParser_def sigAt_def)
  have field: "parseFieldTypeSignature n True (sigAt pre (printField f @ CHR '';'' # rest) e) =
      (Inr f, sigAt (pre @ printField f) (CHR '';'' # rest) e)" for pre e
    using assms(3) by (intro reads_sigD parse_print(2) assms(2)) (simp add: fuelFor_def)
  have param: "parseFormalTypeParameter n (sigAt ''<'' (name @ CHR '':'' # printField f @ CHR '';'' # rest) []) =
      (Inr (FormalTypeParameter name [f]), sigAt (''<'' @ name @ '':'' @ printField f) (CHR '';'' # rest) [])"
    using identifierLoop_name [OF assms(1) stop(1), of "[]" "''<''" "printField f @ CHR '';'' # rest" "[]"]
      field [of "''<'' @ name @ '':''" "[]"] f
    by (simp add: parseFormalTypeParameter_def parseIdentifier_def parseBounds_def n)
  have "fst (parseFormalTypeParameters n (sigAt [] (CHR ''<'' # name @ CHR '':'' # printField f @ CHR '';'' # rest) [])) = Inl OutOfFuel"
    using param formalsLoop_stuck [OF stop(2)] by (simp add: parseFormalTypeParameters_def fst_andThen_fault)
  then show ?thesis unfolding start parseClassSignature_def
    by (intro fst_andThen_fault) (simp add: parseZeroOrMoreFormalTypeParameters_def)
qed

lemma formal_parameters_loop_forever_witness:
  "fst (parseClassSignature 1000 (startParser ''<A:TB;;>Lx;'')) = Inl OutOfFuel"
  using formal_parameters_loop_forever [of "''A''" "TypeVariable ''B''" 1000 "''>Lx;''"]
  by (simp add: wfName_def stopChar_def fuelFor_def)

lemma identifierLoop_end:
  "wfName False n \<Longrightarrow> \<exists>r s. identifierLoop acc (sigAt pre n e) = (Inr r, s) \<and> sigPos s > length (sigInput s)"
proof (induction n arbitrary: acc pre)
  case Nil
  have nul: "\<not> stopChar nul" "current (sigAt pre [] e) = (Inr nul, sigAt pre [] e)" "\<not> isEof (sigAt pre [] e)"
    by (simp_all add: stopChar_def) (simp add: sigAt_def isEof_def)
  let ?s = "(sigAt pre [] e)\<lparr>sigPos := sigPos (sigAt pre [] e) + 1\<rparr>"
  have eof: "isEof ?s" by (simp add: sigAt_def isEof_def)
  have "identifierLoop (acc @ [nul]) ?s = (Inr (acc @ [nul]), ?s)"
    by (subst identifierLoop.simps) (simp only: eof if_True)
  then have "identifierLoop acc (sigAt pre [] e) = (Inr (acc @ [nul]), ?s)"
    by (subst identifierLoop.simps) (simp only: nul if_False prod.case sum.case)
  then show ?case using eof by (simp add: isEof_def)
next
  case (Cons c n)
  then show ?case by (simp add: identifierLoop_step wfName_def)
qed

text \<open>A type variable without its semicolon: the end test of \<open>parseIdentifier\<close> is off by one,
  the terminating zero is taken into the name, and the next look at the input is outside
  the string.\<close>

lemma unterminated_name_undefined:
  assumes "wfName False name"
  shows "fst (parseTypeSig (''T'' @ name)) = Inl Undefined"
proof -
  obtain r s where ident: "identifierLoop [] (sigAt ''T'' name []) = (Inr r, s)" and s: "sigPos s > length (sigInput s)"
    using identifierLoop_end [OF assms, of "[]" "''T''" "[]"] by blast
  have past: "current s = (Inl Undefined, s)" using s by (simp add: current_def)
  moreover have "startParser (''T'' @ name) = sigAt [] (CHR ''T'' # name) []" by (simp add: startParser_def sigAt_def)
  moreover obtain k where "fuelFor (''T'' @ name) = Suc (Suc k)" by (simp add: fuelFor_def eval_nat_numeral)
  ultimately show ?thesis
    by (simp add: parseTypeSig_def baseTypeOf_field parseTypeVariableSignature_def parseIdentifier_def past ident)
qed

lemma unterminated_name_undefined_witness: "fst (parseTypeSig ''TK'') = Inl Undefined"
  using unterminated_name_undefined [of "''K''"] by (simp add: wfName_def stopChar_def)

end
