(* ===== verification/Annotations.thy ===== *)
theory Annotations
  imports Signature_Parser
begin

text \<open>
  The annotation attributes (\<^verbatim>\<open>domain/classfile/AnnotationsParser.cpp\<close>): the structures of
  \<^verbatim>\<open>types/AttributeStructures.h\<close>, the reading of an attribute body and its text.  An element
  value may contain element values and annotations; the reader recurses on the structure it
  finds in the input and takes fuel here, one unit per byte of the body and one more, which
  is shown to be enough on every body.  The text of a type descriptor may take for ever
  (\<open>DescriptorParser\<close>), so a text is an optional result.  A count member is the length of the
  list that follows it.
\<close>

section \<open>Runs that may not return\<close>

text \<open>A call on the reader that may not return.\<close>

type_synonym 'a run = "vector_reader \<Rightarrow> ('a result \<times> vector_reader) option"

definition runProg :: "(vector_reader, 'a) prog \<Rightarrow> 'a run" where
  "runProg m = (\<lambda>v. Some (m v))"

definition runText :: "'a result option \<Rightarrow> 'a run" where
  "runText t = (\<lambda>v. map_option (\<lambda>r. (r, v)) t)"

definition thenRun :: "'a run \<Rightarrow> ('a \<Rightarrow> 'b run) \<Rightarrow> 'b run" where
  "thenRun m f = (\<lambda>v. case m v of None \<Rightarrow> None
     | Some (r, v') \<Rightarrow> (case r of Inl e \<Rightarrow> Some (Inl e, v') | Inr x \<Rightarrow> f x v'))"

definition retRun :: "'a \<Rightarrow> 'a run" where
  "retRun x = (\<lambda>v. Some (Inr x, v))"

primrec replicateRun :: "nat \<Rightarrow> 'a run \<Rightarrow> 'a list run" where
  "replicateRun 0 m = retRun []"
| "replicateRun (Suc n) m = thenRun m (\<lambda>x. thenRun (replicateRun n m) (\<lambda>xs. retRun (x # xs)))"

section \<open>Structures\<close>

datatype element_value =
    ArrayValue "element_value list"
  | ConstValue u1 u2
  | ClassValue u2
  | AnnotationValue annotation
  | EnumConstValue u2 u2
  | NoValue u1
and annotation_value_pair = AnnotationValuePair u2 element_value
and annotation = Annotation u2 "annotation_value_pair list"

datatype target_info =
    TypeParameterTarget u1
  | SupertypeTarget u2
  | TypeParameterBoundTarget u1 u1
  | EmptyTarget
  | FormalParameterTarget u1
  | ThrowsTarget u2
  | LocalVarTarget "(u2 \<times> u2 \<times> u2) list"
  | CatchTarget u2
  | OffsetTarget u2
  | TypeArgumentTarget u2 u2

record type_annotation =
  targetType :: u1
  targetInfo :: target_info
  targetPath :: "(u1 \<times> u1) list"
  typeIndex :: u2
  typeValues :: "annotation_value_pair list"

section \<open>Reading\<close>

definition constantTag :: "char \<Rightarrow> bool" where
  "constantTag c \<longleftrightarrow> c \<in> set ''IJSZCBFDs''"

definition rejectedTag :: "char \<Rightarrow> bool" where
  "rejectedTag c \<longleftrightarrow> c \<in> set ''/.<>L;E()V''"

text \<open>The calls to \<^verbatim>\<open>readElementValue\<close> go to \<open>element\<close>.\<close>

definition readAnnotationValuePair :: "(vector_reader, element_value) prog \<Rightarrow> (vector_reader, annotation_value_pair) prog" where
  "readAnnotationValuePair element = andThen vrReadU2 (\<lambda>name. andThen element (\<lambda>v. ret (AnnotationValuePair name v)))"

definition readAnnotationValues :: "(vector_reader, element_value) prog \<Rightarrow> u2 \<Rightarrow> (vector_reader, annotation_value_pair list) prog" where
  "readAnnotationValues element count = replicateP (unat count) (readAnnotationValuePair element)"

definition readAnnotationWith :: "(vector_reader, element_value) prog \<Rightarrow> (vector_reader, annotation) prog" where
  "readAnnotationWith element = andThen vrReadU2 (\<lambda>ty. andThen vrReadU2 (\<lambda>count.
     andThen (readAnnotationValues element count) (\<lambda>vs. ret (Annotation ty vs))))"

primrec readElementValue :: "nat \<Rightarrow> (vector_reader, element_value) prog" where
  "readElementValue 0 = throw OutOfFuel"
| "readElementValue (Suc n) = andThen vrReadU1 (\<lambda>tag. let c = byteChar tag in
     if c = CHR ''['' then andThen vrReadU2 (\<lambda>count.
       andThen (replicateP (unat count) (readElementValue n)) (\<lambda>vs. ret (ArrayValue vs)))
     else if constantTag c then andThen vrReadU2 (\<lambda>i. ret (ConstValue tag i))
     else if c = CHR ''c'' then andThen vrReadU2 (\<lambda>i. ret (ClassValue i))
     else if c = CHR ''@'' then andThen (readAnnotationWith (readElementValue n)) (\<lambda>a. ret (AnnotationValue a))
     else if c = CHR ''e'' then andThen vrReadU2 (\<lambda>t. andThen vrReadU2 (\<lambda>i. ret (EnumConstValue t i)))
     else if rejectedTag c then throw AssertFail
     else ret (NoValue tag))"

definition elementReader :: "(vector_reader, element_value) prog" where
  "elementReader = andThen getState (\<lambda>v. readElementValue (Suc (length (bytesVector v))))"

definition readAnnotation :: "(vector_reader, annotation) prog" where
  "readAnnotation = readAnnotationWith elementReader"

definition readAnnotations :: "u2 \<Rightarrow> (vector_reader, annotation list) prog" where
  "readAnnotations count = replicateP (unat count) readAnnotation"

definition readParameterAnnotation :: "(vector_reader, annotation list) prog" where
  "readParameterAnnotation = andThen vrReadU2 (\<lambda>count. replicateP (unat count) readAnnotation)"

definition readParameterAnnotations :: "u1 \<Rightarrow> (vector_reader, annotation list list) prog" where
  "readParameterAnnotations count = replicateP (unat count) readParameterAnnotation"

definition readLocalVarTargetEntry :: "(vector_reader, u2 \<times> u2 \<times> u2) prog" where
  "readLocalVarTargetEntry = andThen vrReadU2 (\<lambda>startPC. andThen vrReadU2 (\<lambda>len. andThen vrReadU2 (\<lambda>index.
     ret (startPC, len, index))))"

definition readTargetInfo :: "u1 \<Rightarrow> (vector_reader, target_info) prog" where
  "readTargetInfo t =
     (if t \<in> {0x00, 0x01} then andThen vrReadU1 (\<lambda>i. ret (TypeParameterTarget i))
      else if t = 0x10 then andThen vrReadU2 (\<lambda>i. ret (SupertypeTarget i))
      else if t \<in> {0x11, 0x12} then andThen vrReadU1 (\<lambda>i. andThen vrReadU1 (\<lambda>b. ret (TypeParameterBoundTarget i b)))
      else if t \<in> {0x13, 0x14, 0x15} then ret EmptyTarget
      else if t = 0x16 then andThen vrReadU1 (\<lambda>i. ret (FormalParameterTarget i))
      else if t = 0x17 then andThen vrReadU2 (\<lambda>i. ret (ThrowsTarget i))
      else if t \<in> {0x40, 0x41} then andThen vrReadU2 (\<lambda>count.
        andThen (replicateP (unat count) readLocalVarTargetEntry) (\<lambda>es. ret (LocalVarTarget es)))
      else if t = 0x42 then andThen vrReadU2 (\<lambda>i. ret (CatchTarget i))
      else if t \<in> {0x43, 0x44, 0x45, 0x46} then andThen vrReadU2 (\<lambda>i. ret (OffsetTarget i))
      else if t \<in> {0x47, 0x48, 0x49, 0x4A, 0x4B} then
        andThen vrReadU2 (\<lambda>off. andThen vrReadU2 (\<lambda>i. ret (TypeArgumentTarget off i)))
      else throw AssertFail)"

definition readTypeAnnotation :: "(vector_reader, type_annotation) prog" where
  "readTypeAnnotation = andThen vrReadU1 (\<lambda>t. andThen (readTargetInfo t) (\<lambda>info.
     andThen vrReadU1 (\<lambda>pathLength.
     andThen (replicateP (unat pathLength) (andThen vrReadU1 (\<lambda>kind. andThen vrReadU1 (\<lambda>arg. ret (kind, arg))))) (\<lambda>path.
     andThen vrReadU2 (\<lambda>ty. andThen vrReadU2 (\<lambda>count.
     andThen (readAnnotationValues elementReader count) (\<lambda>vs.
       ret \<lparr>targetType = t, targetInfo = info, targetPath = path, typeIndex = ty, typeValues = vs\<rparr>)))))))"

definition readTypeAnnotations :: "u2 \<Rightarrow> (vector_reader, type_annotation list) prog" where
  "readTypeAnnotations count = replicateP (unat count) readTypeAnnotation"

section \<open>Text\<close>

fun elementValueToString :: "constant_pool \<Rightarrow> element_value \<Rightarrow> string result option"
  and valuePairToString :: "constant_pool \<Rightarrow> annotation_value_pair \<Rightarrow> string result option"
  and annotationToString :: "constant_pool \<Rightarrow> annotation \<Rightarrow> string result option" where
  "elementValueToString cp (ArrayValue vs) =
     bindO (mapO (elementValueToString cp) vs) (\<lambda>parts. Some (Inr (join parts '','')))"
| "elementValueToString cp (ConstValue tag i) = Some (getConstantValueString cp i)"
| "elementValueToString cp (ClassValue i) = Some (getClassname cp i)"
| "elementValueToString cp (AnnotationValue a) = annotationToString cp a"
| "elementValueToString cp (EnumConstValue t c) =
     Some (bindR (getString cp t False) (\<lambda>ty. bindR (getConstantValueString cp c) (\<lambda>name. Inr (ty @ ''='' @ name))))"
| "elementValueToString cp (NoValue tag) = Some (Inr [])"
| "valuePairToString cp (AnnotationValuePair n v) =
     bindO (Some (getString cp n False)) (\<lambda>name. bindO (elementValueToString cp v) (\<lambda>val.
       Some (Inr (name @ ''=('' @ val @ '')''))))"
| "annotationToString cp (Annotation ty vs) =
     bindO (getTypeString cp ty) (\<lambda>typeString. bindO (mapO (valuePairToString cp) vs) (\<lambda>valuePairs.
       Some (Inr (typeString @ '': ('' @ join valuePairs '', '' @ '')''))))"

definition parameterAnnotationToString :: "constant_pool \<Rightarrow> annotation list \<Rightarrow> string result option" where
  "parameterAnnotationToString cp as = bindO (mapO (annotationToString cp) as) (\<lambda>parts. Some (Inr (join parts '', '')))"

definition annotationsToString :: "constant_pool \<Rightarrow> annotation list \<Rightarrow> string result option" where
  "annotationsToString cp as = bindO (mapO (annotationToString cp) as) (\<lambda>parts. Some (Inr (join parts '', '')))"

definition parameterAnnotationsToString :: "constant_pool \<Rightarrow> annotation list list \<Rightarrow> string result option" where
  "parameterAnnotationsToString cp ps =
     bindO (mapO (parameterAnnotationToString cp) ps) (\<lambda>parts. Some (Inr (''('' @ join parts '', '' @ '')'')))"

definition u2Text :: "u2 \<Rightarrow> string" where "u2Text x = natToString (unat x)"

definition u1Text :: "u1 \<Rightarrow> string" where "u1Text x = natToString (unat x)"

definition localVarAnnotationToString :: "(u2 \<times> u2 \<times> u2) list \<Rightarrow> string" where
  "localVarAnnotationToString items = ''local var locations: '' @
     join (map (\<lambda>(startPC, len, index).
       ''(start_pc:'' @ u2Text startPC @ '',length:'' @ u2Text len @ '',index:'' @ u2Text index @ '')'') items) '',''"

text \<open>
  Reading a member of the union that is not the one stored is \<open>Undefined\<close>: the other bytes of
  the union were never written.
\<close>

fun supertype_target :: "target_info \<Rightarrow> u2 result" where
  "supertype_target (SupertypeTarget i) = Inr i"
| "supertype_target _ = Inl Undefined"

fun type_parameter_bound_target :: "target_info \<Rightarrow> (u1 \<times> u1) result" where
  "type_parameter_bound_target (TypeParameterBoundTarget i b) = Inr (i, b)"
| "type_parameter_bound_target _ = Inl Undefined"

fun formal_parameter_index :: "target_info \<Rightarrow> u1 result" where
  "formal_parameter_index (FormalParameterTarget i) = Inr i"
| "formal_parameter_index _ = Inl Undefined"

fun throws_type_index :: "target_info \<Rightarrow> u2 result" where
  "throws_type_index (ThrowsTarget i) = Inr i"
| "throws_type_index _ = Inl Undefined"

fun local_var_items :: "target_info \<Rightarrow> (u2 \<times> u2 \<times> u2) list" where
  "local_var_items (LocalVarTarget es) = es"
| "local_var_items _ = []"

fun exception_table_index :: "target_info \<Rightarrow> u2 result" where
  "exception_table_index (CatchTarget i) = Inr i"
| "exception_table_index _ = Inl Undefined"

fun offset_target :: "target_info \<Rightarrow> u2 result" where
  "offset_target (OffsetTarget i) = Inr i"
| "offset_target _ = Inl Undefined"

fun type_argument_target :: "target_info \<Rightarrow> (u2 \<times> u2) result" where
  "type_argument_target (TypeArgumentTarget off i) = Inr (off, i)"
| "type_argument_target _ = Inl Undefined"

definition offsetIndexText :: "string \<Rightarrow> target_info \<Rightarrow> string result" where
  "offsetIndexText label info = bindR (type_argument_target info) (\<lambda>(off, i).
     Inr (label @ '' bytecode offset: '' @ u2Text off @ '', index: '' @ u2Text i))"

definition targetDescription :: "u1 \<Rightarrow> target_info \<Rightarrow> string result" where
  "targetDescription t info =
     (if t = 0x00 then bindR (type_argument_target info) (\<lambda>(off, i). Inr (''index: '' @ u2Text i @ '' class/interface''))
      else if t = 0x01 then bindR (type_argument_target info) (\<lambda>(off, i). Inr (''index: '' @ u2Text i @ '' member/constructor''))
      else if t = 0x10 then bindR (supertype_target info) (\<lambda>i. Inr (''index: '' @ u2Text i @ '' super-type''))
      else if t = 0x11 then bindR (type_parameter_bound_target info) (\<lambda>(i, b).
        Inr (''index, bound: '' @ u1Text i @ '','' @ u1Text b @ '' class/interface''))
      else if t = 0x12 then bindR (type_parameter_bound_target info) (\<lambda>(i, b).
        Inr (''index, bound: '' @ u1Text i @ '','' @ u1Text b @ '' member/constructor''))
      else if t \<in> {0x13, 0x14, 0x15} then Inr ''field''
      else if t = 0x16 then bindR (formal_parameter_index info) (\<lambda>i. Inr (''param index: '' @ u1Text i))
      else if t = 0x17 then bindR (throws_type_index info) (\<lambda>i. Inr (''exception index: '' @ u2Text i))
      else if t = 0x40 then Inr (''local var: '' @ localVarAnnotationToString (local_var_items info))
      else if t = 0x41 then Inr (''local res var: '' @ localVarAnnotationToString (local_var_items info))
      else if t = 0x42 then bindR (exception_table_index info) (\<lambda>i. Inr (''type exception param index: '' @ u2Text i))
      else if t = 0x43 then bindR (offset_target info) (\<lambda>i. Inr (''instanceof bytecode offset: '' @ u2Text i))
      else if t = 0x44 then bindR (offset_target info) (\<lambda>i. Inr (''new bytecode offset: '' @ u2Text i))
      else if t = 0x45 then bindR (offset_target info) (\<lambda>i. Inr (''methodref ::new bytecode offset: '' @ u2Text i))
      else if t = 0x46 then bindR (offset_target info) (\<lambda>i. Inr (''methodref ::Identifier bytecode offset: '' @ u2Text i))
      else if t = 0x47 then offsetIndexText ''type-cast'' info
      else if t = 0x48 then offsetIndexText ''arg. gen constructor'' info
      else if t = 0x49 then offsetIndexText ''arg. gen member call'' info
      else if t = 0x4A then offsetIndexText ''arg. gen constructor methodref ::new'' info
      else if t = 0x4B then offsetIndexText ''arg. gen constructor methodref ::Identifier'' info
      else Inr ''Invalid Runtime type annotation type'')"

definition typeAnnotationToString :: "constant_pool \<Rightarrow> type_annotation \<Rightarrow> string result option" where
  "typeAnnotationToString cp a =
     bindO (Some (targetDescription (targetType a) (targetInfo a))) (\<lambda>target_description.
     bindO (mapO (valuePairToString cp) (typeValues a)) (\<lambda>valuePairs.
       let valueSuffix = (if valuePairs = [] then [] else '' ['' @ join valuePairs '', '' @ '']'') in
     bindO (getTypeString cp (typeIndex a)) (\<lambda>typeString.
       Some (Inr (typeString @ '': '' @ target_description @ valueSuffix)))))"

definition typeAnnotationsToString :: "constant_pool \<Rightarrow> type_annotation list \<Rightarrow> string result option" where
  "typeAnnotationsToString cp as = bindO (mapO (typeAnnotationToString cp) as) (\<lambda>parts. Some (Inr (join parts ''|'')))"

section \<open>Attributes\<close>

definition toStringRuntimeAnnotations :: "constant_pool \<Rightarrow> string run" where
  "toStringRuntimeAnnotations cp = thenRun (runProg (andThen vrReadU2 readAnnotations)) (\<lambda>as. runText (annotationsToString cp as))"

definition toStringRuntimeParameterAnnotations :: "constant_pool \<Rightarrow> string run" where
  "toStringRuntimeParameterAnnotations cp =
     thenRun (runProg (andThen vrReadU1 readParameterAnnotations)) (\<lambda>ps. runText (parameterAnnotationsToString cp ps))"

definition toStringRuntimeTypeAnnotations :: "constant_pool \<Rightarrow> string run" where
  "toStringRuntimeTypeAnnotations cp =
     thenRun (runProg (andThen vrReadU2 readTypeAnnotations)) (\<lambda>as. runText (typeAnnotationsToString cp as))"

definition toStringAnnotationDefault :: "constant_pool \<Rightarrow> attribute_info \<Rightarrow> string run" where
  "toStringAnnotationDefault cp attribute = thenRun (runProg elementReader) (\<lambda>v.
     runText (bindO (Some (getString cp (attrNameIndex attribute) False)) (\<lambda>name.
       bindO (elementValueToString cp v) (\<lambda>val. Some (Inr (name @ ''='' @ val))))))"

section \<open>What a call on the reader consumes\<close>

text \<open>The bytes still to be read; a position below zero or behind the end never yields one.\<close>

definition remaining :: "vector_reader \<Rightarrow> nat" where
  "remaining v = nat (int (length (bytesVector v)) - position v)"

definition vrAt :: "vector_reader \<Rightarrow> bytes \<Rightarrow> bool" where
  "vrAt v bs \<longleftrightarrow> 0 \<le> position v \<and> position v \<le> int (length (bytesVector v)) \<and>
     drop (nat (position v)) (bytesVector v) = bs \<and> length (bytesVector v) < 2 ^ 31 \<and> vrBigEndian v = vrHost v"

definition vreads :: "(vector_reader, 'a) prog \<Rightarrow> bytes \<Rightarrow> 'a \<Rightarrow> bool" where
  "vreads m bs x \<longleftrightarrow> (\<forall>v rest. vrAt v (bs @ rest) \<longrightarrow>
     (\<exists>v'. m v = (Inr x, v') \<and> vrAt v' rest \<and> bytesVector v' = bytesVector v))"

lemma vreadsE:
  assumes "vreads m bs x" "vrAt v (bs @ rest)"
  obtains v' where "m v = (Inr x, v')" "vrAt v' rest" "bytesVector v' = bytesVector v"
  using assms unfolding vreads_def by blast

lemma vreads_ret: "vreads (ret x) [] x"
  by (simp add: vreads_def)

lemma vreads_andThen:
  assumes "vreads m bs x" "vreads (f x) cs y" shows "vreads (andThen m f) (bs @ cs) y"
  unfolding vreads_def
proof (intro allI impI)
  fix v rest assume "vrAt v ((bs @ cs) @ rest)"
  then obtain u where u: "m v = (Inr x, u)" "vrAt u (cs @ rest)" "bytesVector u = bytesVector v"
    using vreadsE [OF assms(1), of v "cs @ rest"] by auto
  then show "\<exists>v'. andThen m f v = (Inr y, v') \<and> vrAt v' rest \<and> bytesVector v' = bytesVector v"
    using vreadsE [OF assms(2) u(2)] by auto
qed

lemma vreads_andThen_ret: "vreads m bs x \<Longrightarrow> vreads (andThen m (\<lambda>x. ret (g x))) bs (g x)"
  using vreads_andThen [of m bs x "\<lambda>x. ret (g x)" "[]"] vreads_ret by fastforce

lemma vreads_replicateP:
  assumes "\<And>x. x \<in> set xs \<Longrightarrow> vreads m (enc x) x"
  shows "vreads (replicateP (length xs) m) (concat (map enc xs)) xs"
  using assms
proof (induction xs)
  case Nil show ?case by (simp add: vreads_def)
next
  case (Cons x xs)
  have "vreads (andThen (replicateP (length xs) m) (\<lambda>xs. ret (x # xs))) (concat (map enc xs)) (x # xs)"
    by (rule vreads_andThen_ret [where g = "(#) x"]) (use Cons in simp)
  with Cons.prems [of x] show ?case
    using vreads_andThen [where f = "\<lambda>x. andThen (replicateP (length xs) m) (\<lambda>xs. ret (x # xs))"] by simp
qed

lemma readRaw_at:
  assumes "vrAt v (bs @ rest)" "length bs = n"
  shows "vrReadRaw n v = (Inr bs, v\<lparr>position := position v + int n\<rparr>) \<and> vrAt (v\<lparr>position := position v + int n\<rparr>) rest"
proof -
  let ?p = "nat (position v)"
  have p: "0 \<le> position v" "drop ?p (bytesVector v) = bs @ rest" "length (bytesVector v) < 2 ^ 31"
    using assms by (simp_all add: vrAt_def)
  from arg_cong [OF p(2), of length] p(1) assms have len: "position v + int n + int (length rest) = int (length (bytesVector v))"
    by (auto simp: vrAt_def)
  have "uint (word_of_int (position v + int n) :: u4) = position v + int n"
    using p len unfolding uint_word_of_int by (intro mod_pos_pos_trivial) auto
  then have "uint (word_of_int (position v) + of_nat n :: u4) = position v + int n" by simp
  moreover have "drop (nat (position v + int n)) (bytesVector v) = rest"
    using p(1,2) assms(2) by (simp add: nat_add_distrib add.commute drop_drop [symmetric])
  ultimately show ?thesis using p len assms by (simp add: vrReadRaw_def vrAt_def)
qed

lemma vreads_U1 [simp]: "vreads vrReadU1 [x] x"
  unfolding vreads_def vrReadU1_def using readRaw_at [of _ "[x]"] by fastforce

lemma vreads_U2 [simp]: "vreads vrReadU2 (encU2 x) x"
  unfolding vreads_def
proof (intro allI impI)
  fix v rest assume v: "vrAt v (encU2 x @ rest)"
  then have "vrBigEndian v = vrHost v" by (simp add: vrAt_def)
  with readRaw_at [OF v, of 2] show "\<exists>v'. vrReadU2 v = (Inr x, v') \<and> vrAt v' rest \<and> bytesVector v' = bytesVector v"
    by (cases "vrHost v") (auto simp: vrReadU2_def encU2_def)
qed

section \<open>Round trip\<close>

fun encElementValue :: "element_value \<Rightarrow> bytes"
  and encValuePair :: "annotation_value_pair \<Rightarrow> bytes"
  and encAnnotation :: "annotation \<Rightarrow> bytes" where
  "encElementValue (ArrayValue vs) = [charByte CHR ''[''] @ encU2 (of_nat (length vs)) @ concat (map encElementValue vs)"
| "encElementValue (ConstValue tag i) = [tag] @ encU2 i"
| "encElementValue (ClassValue i) = [charByte CHR ''c''] @ encU2 i"
| "encElementValue (AnnotationValue a) = [charByte CHR ''@''] @ encAnnotation a"
| "encElementValue (EnumConstValue t c) = [charByte CHR ''e''] @ encU2 t @ encU2 c"
| "encElementValue (NoValue tag) = [tag]"
| "encValuePair (AnnotationValuePair n v) = encU2 n @ encElementValue v"
| "encAnnotation (Annotation ty vs) = encU2 ty @ encU2 (of_nat (length vs)) @ concat (map encValuePair vs)"

fun wfElementValue :: "element_value \<Rightarrow> bool"
  and wfValuePair :: "annotation_value_pair \<Rightarrow> bool"
  and wfAnnotation :: "annotation \<Rightarrow> bool" where
  "wfElementValue (ArrayValue vs) \<longleftrightarrow> length vs < 65536 \<and> (\<forall>v\<in>set vs. wfElementValue v)"
| "wfElementValue (ConstValue tag i) \<longleftrightarrow> constantTag (byteChar tag)"
| "wfElementValue (ClassValue i) \<longleftrightarrow> True"
| "wfElementValue (AnnotationValue a) \<longleftrightarrow> wfAnnotation a"
| "wfElementValue (EnumConstValue t c) \<longleftrightarrow> True"
| "wfElementValue (NoValue tag) \<longleftrightarrow> False"
| "wfValuePair (AnnotationValuePair n v) \<longleftrightarrow> wfElementValue v"
| "wfAnnotation (Annotation ty vs) \<longleftrightarrow> length vs < 65536 \<and> (\<forall>v\<in>set vs. wfValuePair v)"

lemma unat_count: "n < 65536 \<Longrightarrow> unat (of_nat n :: u2) = n"
  by (simp add: unat_of_nat take_bit_eq_mod)

lemma length_part: "x \<in> set xs \<Longrightarrow> length (f x) \<le> length (concat (map f xs))"
  by (induction xs) auto

lemma vreads_count:
  assumes "length xs < 65536" "\<And>x. x \<in> set xs \<Longrightarrow> vreads m (enc x) x" "vreads (f xs) [] y"
  shows "vreads (andThen vrReadU2 (\<lambda>count. andThen (replicateP (unat count) m) f)) (encU2 (of_nat (length xs)) @ concat (map enc xs)) y"
proof (rule vreads_andThen [OF vreads_U2])
  have "vreads (andThen (replicateP (length xs) m) f) (concat (map enc xs) @ []) y"
    by (rule vreads_andThen [where f = f, OF vreads_replicateP [OF assms(2)] assms(3)])
  then show "vreads (andThen (replicateP (unat (of_nat (length xs) :: u2)) m) f) (concat (map enc xs)) y"
    by (simp add: unat_count [OF assms(1)])
qed

lemma readAnnotationWith_enc:
  assumes "length vs < 65536" "\<And>p. p \<in> set vs \<Longrightarrow> vreads (readAnnotationValuePair element) (encValuePair p) p"
  shows "vreads (readAnnotationWith element) (encAnnotation (Annotation ty vs)) (Annotation ty vs)"
  unfolding readAnnotationWith_def readAnnotationValues_def encAnnotation.simps
  by (rule vreads_andThen [OF vreads_U2 vreads_count [OF assms]]) (assumption, rule vreads_ret)

lemma readElementValue_step:
  assumes "vreads (case byteChar tag of c \<Rightarrow>
     if c = CHR ''['' then andThen vrReadU2 (\<lambda>count.
       andThen (replicateP (unat count) (readElementValue n)) (\<lambda>vs. ret (ArrayValue vs)))
     else if constantTag c then andThen vrReadU2 (\<lambda>i. ret (ConstValue tag i))
     else if c = CHR ''c'' then andThen vrReadU2 (\<lambda>i. ret (ClassValue i))
     else if c = CHR ''@'' then andThen (readAnnotationWith (readElementValue n)) (\<lambda>a. ret (AnnotationValue a))
     else if c = CHR ''e'' then andThen vrReadU2 (\<lambda>t. andThen vrReadU2 (\<lambda>i. ret (EnumConstValue t i)))
     else if rejectedTag c then throw AssertFail
     else ret (NoValue tag)) bs x"
  shows "vreads (readElementValue (Suc n)) ([tag] @ bs) x"
  unfolding readElementValue.simps Let_def by (rule vreads_andThen [OF vreads_U1]) (use assms in simp)

lemma readElementValue_enc:
  "wfElementValue v \<Longrightarrow> length (encElementValue v) \<le> n \<Longrightarrow> vreads (readElementValue n) (encElementValue v) v"
  "wfValuePair p \<Longrightarrow> length (encValuePair p) \<le> n \<Longrightarrow> vreads (readAnnotationValuePair (readElementValue n)) (encValuePair p) p"
  "wfAnnotation a \<Longrightarrow> length (encAnnotation a) \<le> n \<Longrightarrow> vreads (readAnnotationWith (readElementValue n)) (encAnnotation a) a"
proof (induction v and p and a arbitrary: n and n and n)
  case (ArrayValue vs)
  then obtain k where n: "n = Suc k" by (cases n) auto
  have each: "vreads (readElementValue k) (encElementValue v) v" if "v \<in> set vs" for v
    using ArrayValue that length_part [OF that, of encElementValue] n by force
  have "vreads (andThen vrReadU2 (\<lambda>count. andThen (replicateP (unat count) (readElementValue k)) (\<lambda>vs. ret (ArrayValue vs))))
      (encU2 (of_nat (length vs)) @ concat (map encElementValue vs)) (ArrayValue vs)"
    by (rule vreads_count [OF _ each vreads_ret]) (use ArrayValue.prems in auto)
  then show ?case using readElementValue_step [of "charByte CHR ''[''" k] n by simp
next
  case (ConstValue tag i)
  then obtain k where n: "n = Suc k" by (cases n) auto
  have "byteChar tag \<noteq> CHR ''[''" using ConstValue by (auto simp: constantTag_def)
  then show ?case using readElementValue_step [of tag k] n ConstValue vreads_andThen_ret [OF vreads_U2, of "ConstValue tag"] by simp
next
  case (ClassValue i)
  then obtain k where n: "n = Suc k" by (cases n) auto
  then show ?case using readElementValue_step [of "charByte CHR ''c''" k] vreads_andThen_ret [OF vreads_U2, of ClassValue]
    by (simp add: constantTag_def)
next
  case (AnnotationValue a)
  then obtain k where n: "n = Suc k" by (cases n) auto
  have "vreads (andThen (readAnnotationWith (readElementValue k)) (\<lambda>a. ret (AnnotationValue a))) (encAnnotation a) (AnnotationValue a)"
    using AnnotationValue n by (intro vreads_andThen_ret) simp
  then show ?case using readElementValue_step [of "charByte CHR ''@''" k] n by (simp add: constantTag_def)
next
  case (EnumConstValue t c)
  then obtain k where n: "n = Suc k" by (cases n) auto
  have "vreads (andThen vrReadU2 (\<lambda>t. andThen vrReadU2 (\<lambda>i. ret (EnumConstValue t i)))) (encU2 t @ encU2 c) (EnumConstValue t c)"
    by (rule vreads_andThen [OF vreads_U2 vreads_andThen_ret [OF vreads_U2]])
  then show ?case using readElementValue_step [of "charByte CHR ''e''" k] n by (simp add: constantTag_def)
next
  case (AnnotationValuePair name v)
  then have "vreads (readElementValue n) (encElementValue v) v" by simp
  then show ?case unfolding readAnnotationValuePair_def encValuePair.simps
    by (intro vreads_andThen [OF vreads_U2] vreads_andThen_ret)
next
  case (Annotation ty vs)
  have "vreads (readAnnotationValuePair (readElementValue n)) (encValuePair p) p" if "p \<in> set vs" for p
    using Annotation that length_part [OF that, of encValuePair] by force
  then show ?case using Annotation.prems by (intro readAnnotationWith_enc) auto
qed simp

section \<open>Enough fuel\<close>

definition readable :: "bytes \<Rightarrow> nat \<Rightarrow> vector_reader \<Rightarrow> bool" where
  "readable bs n v \<longleftrightarrow> bytesVector v = bs \<and> 0 \<le> position v \<and> remaining v < n"

lemma readRaw_cases:
  "(\<exists>e. vrReadRaw n v = (Inl e, v) \<and> e \<noteq> OutOfFuel) \<or>
   (vrReadRaw n v = (Inr (take n (drop (nat (position v)) (bytesVector v))), v\<lparr>position := position v + int n\<rparr>) \<and>
    0 \<le> position v \<and> position v + int n \<le> int (length (bytesVector v)))"
  by (auto simp: vrReadRaw_def)

text \<open>A read in front of \<open>f\<close>: a byte less remains for it.\<close>

lemma U1_avoids:
  assumes "\<And>x. avoids {OutOfFuel} (readable bs n) (f x)"
  shows "avoids {OutOfFuel} (readable bs (Suc n)) (andThen vrReadU1 f)"
  unfolding avoids_def
proof (intro allI impI)
  fix v assume v: "readable bs (Suc n) v"
  let ?w = "v\<lparr>position := position v + 1\<rparr>"
  consider (fault) e where "vrReadU1 v = (Inl e, v)" "e \<noteq> OutOfFuel" | (byte) x where "vrReadU1 v = (Inr x, ?w)" "readable bs n ?w"
  proof -
    from readRaw_cases [of 1 v] show ?thesis
    proof (elim disjE exE conjE)
      fix e assume "vrReadRaw 1 v = (Inl e, v)" "e \<noteq> OutOfFuel"
      then show ?thesis using that(1) by (simp add: vrReadU1_def)
    next
      assume r: "vrReadRaw 1 v = (Inr (take 1 (drop (nat (position v)) (bytesVector v))), v\<lparr>position := position v + int 1\<rparr>)"
        "0 \<le> position v" "position v + int 1 \<le> int (length (bytesVector v))"
      then have "take 1 (drop (nat (position v)) (bytesVector v)) = [bytesVector v ! nat (position v)]"
        by (simp add: take_Suc_conv_app_nth)
      moreover have "readable bs n ?w" using v r by (auto simp: readable_def remaining_def)
      ultimately show ?thesis using that(2) r by (simp add: vrReadU1_def)
    qed
  qed
  then show "readable bs (Suc n) (snd (andThen vrReadU1 f v)) \<and> (\<forall>e. fst (andThen vrReadU1 f v) = Inl e \<longrightarrow> e \<notin> {OutOfFuel})"
  proof cases
    case fault then show ?thesis using v by simp
  next
    case byte
    with assms [of x] have "readable bs n (snd (f x ?w))" "\<forall>e. fst (f x ?w) = Inl e \<longrightarrow> e \<notin> {OutOfFuel}"
      unfolding avoids_def by blast+
    then show ?thesis using byte by (auto simp: readable_def)
  qed
qed

text \<open>Reads keep what is readable, and they fail with other faults only.\<close>

lemma readRaw_avoids: "avoids {OutOfFuel} (readable bs n) (vrReadRaw k)"
  unfolding avoids_def
proof (intro allI impI)
  fix v assume "readable bs n v"
  with readRaw_cases [of k v] show "readable bs n (snd (vrReadRaw k v)) \<and> (\<forall>e. fst (vrReadRaw k v) = Inl e \<longrightarrow> e \<notin> {OutOfFuel})"
    by (auto simp: readable_def remaining_def)
qed

lemma load_avoids: "avoids {OutOfFuel} I (liftR (loadU1 bs))" "avoids {OutOfFuel} I (liftR (loadU2 h bs))"
  by (induction bs rule: loadU1.induct; simp add: avoids_def) (induction h bs rule: loadU2.induct; simp add: avoids_def)

lemma avoids_getState: "(\<And>s. avoids F I (f s)) \<Longrightarrow> avoids F I (andThen getState f)"
  by (simp add: avoids_def andThen_def)

lemma U_avoids: "avoids {OutOfFuel} (readable bs n) vrReadU1" "avoids {OutOfFuel} (readable bs n) vrReadU2"
  unfolding vrReadU1_def vrReadU2_def by (intro avoids_andThen avoids_getState avoids_ret readRaw_avoids load_avoids)+

lemma annotation_avoids:
  assumes "avoids {OutOfFuel} (readable bs n) element"
  shows "avoids {OutOfFuel} (readable bs n) (readAnnotationWith element)"
    "avoids {OutOfFuel} (readable bs n) (readAnnotationValues element count)"
  unfolding readAnnotationWith_def readAnnotationValues_def readAnnotationValuePair_def
  by (intro avoids_andThen avoids_replicateP avoids_ret U_avoids assms)+

lemma element_avoids: "avoids {OutOfFuel} (readable bs n) (readElementValue n)"
proof (induction n)
  case 0 show ?case by (simp add: avoids_def readable_def)
next
  case (Suc n)
  then show ?case unfolding readElementValue.simps Let_def
    by (intro U1_avoids) (auto intro!: avoids_andThen U_avoids annotation_avoids)
qed

lemma elementReader_apply: "elementReader v = readElementValue (Suc (length (bytesVector v))) v"
  by (simp add: elementReader_def andThen_def del: readElementValue.simps)

lemma elementReader_avoids: "avoids {OutOfFuel} (readable bs (Suc (length bs))) elementReader"
  unfolding avoids_def
proof (intro allI impI)
  fix v assume v: "readable bs (Suc (length bs)) v"
  then have "elementReader v = readElementValue (Suc (length bs)) v" by (simp add: elementReader_apply readable_def del: readElementValue.simps)
  with v element_avoids [of bs "Suc (length bs)"]
  show "readable bs (Suc (length bs)) (snd (elementReader v)) \<and> (\<forall>e. fst (elementReader v) = Inl e \<longrightarrow> e \<notin> {OutOfFuel})"
    unfolding avoids_def by presburger
qed

lemma targetInfo_avoids: "avoids {OutOfFuel} (readable bs n) (readTargetInfo t)"
  unfolding readTargetInfo_def readLocalVarTargetEntry_def by (auto intro!: avoids_andThen U_avoids)

lemma attribute_avoids:
  "avoids {OutOfFuel} (readable bs (Suc (length bs))) (andThen vrReadU2 readAnnotations)"
  "avoids {OutOfFuel} (readable bs (Suc (length bs))) (andThen vrReadU1 readParameterAnnotations)"
  "avoids {OutOfFuel} (readable bs (Suc (length bs))) (andThen vrReadU2 readTypeAnnotations)"
  unfolding readAnnotations_def readAnnotation_def readParameterAnnotations_def readParameterAnnotation_def
    readTypeAnnotations_def readTypeAnnotation_def
  by (intro avoids_andThen avoids_replicateP avoids_ret U_avoids annotation_avoids elementReader_avoids targetInfo_avoids)+

text \<open>(C35) Reading an annotation attribute ends on every body, well-formed or not: the recursion over
  nested element values never uses up its fuel, which is the number of bytes of the body and one.
\<close>

theorem annotations_read_terminates:
  assumes "0 \<le> position v"
  shows "fst (elementReader v) \<noteq> Inl OutOfFuel \<and> fst (andThen vrReadU2 readAnnotations v) \<noteq> Inl OutOfFuel \<and>
    fst (andThen vrReadU1 readParameterAnnotations v) \<noteq> Inl OutOfFuel \<and> fst (andThen vrReadU2 readTypeAnnotations v) \<noteq> Inl OutOfFuel"
proof -
  let ?bs = "bytesVector v"
  have v: "readable ?bs (Suc (length ?bs)) v" using assms by (simp add: readable_def remaining_def)
  then show ?thesis using elementReader_avoids attribute_avoids
    by (metis (no_types, lifting) avoids_def singletonI)
qed

theorem annotations_read_terminates_witness:
  "fst (elementReader \<lparr>bytesVector = replicate 5 (charByte CHR ''[''), position = 0, vrBigEndian = True, vrHost = True\<rparr>) \<noteq> Inl OutOfFuel"
  using annotations_read_terminates [of "\<lparr>bytesVector = replicate 5 (charByte CHR ''[''), position = 0, vrBigEndian = True, vrHost = True\<rparr>"]
  by simp

lemma elementReader_enc:
  assumes "wfElementValue x" shows "vreads elementReader (encElementValue x) x"
  unfolding vreads_def
proof (intro allI impI)
  fix v rest assume v: "vrAt v (encElementValue x @ rest)"
  then have "length (encElementValue x) \<le> Suc (length (bytesVector v))"
    unfolding vrAt_def by (metis diff_le_self le_SucI length_append length_drop le_add1 order_trans)
  from vreadsE [OF readElementValue_enc(1) [OF assms this] v]
  show "\<exists>v'. elementReader v = (Inr x, v') \<and> vrAt v' rest \<and> bytesVector v' = bytesVector v"
    by (auto simp: elementReader_apply simp del: readElementValue.simps)
qed

lemma valuePair_enc: "wfValuePair p \<Longrightarrow> vreads (readAnnotationValuePair elementReader) (encValuePair p) p"
  by (cases p) (simp add: readAnnotationValuePair_def, intro vreads_andThen [OF vreads_U2] vreads_andThen_ret elementReader_enc)

lemma readAnnotation_enc: "wfAnnotation a \<Longrightarrow> vreads readAnnotation (encAnnotation a) a"
  unfolding readAnnotation_def by (cases a) (auto intro!: readAnnotationWith_enc valuePair_enc simp del: encAnnotation.simps)

definition encAnnotations :: "annotation list \<Rightarrow> bytes" where
  "encAnnotations as = encU2 (of_nat (length as)) @ concat (map encAnnotation as)"

lemma annotations_text:
  assumes "\<forall>a\<in>set as. wfAnnotation a" "length as < 65536" "vrAt v (encAnnotations as)"
  shows "\<exists>v'. andThen vrReadU2 readAnnotations v = (Inr as, v') \<and> position v' = int (length (bytesVector v)) \<and>
    toStringRuntimeAnnotations cp v = map_option (\<lambda>r. (r, v')) (annotationsToString cp as)"
proof -
  have "vreads (andThen vrReadU2 (\<lambda>count. andThen (replicateP (unat count) readAnnotation) ret)) (encAnnotations as) as"
    unfolding encAnnotations_def using assms readAnnotation_enc by (intro vreads_count) (auto intro: vreads_ret)
  then have "vreads (andThen vrReadU2 readAnnotations) (encAnnotations as @ []) as" by (simp add: readAnnotations_def [abs_def])
  from vreadsE [OF this [simplified], of v "[]"] assms(3) obtain v' where
    v': "andThen vrReadU2 readAnnotations v = (Inr as, v')" "vrAt v' []" "bytesVector v' = bytesVector v" by auto
  then have "position v' = int (length (bytesVector v))" by (auto simp: vrAt_def)
  with v' show ?thesis by (simp add: toStringRuntimeAnnotations_def thenRun_def runProg_def runText_def)
qed

text \<open>(C33)
  A \<^verbatim>\<open>RuntimeVisibleAnnotations\<close> or \<^verbatim>\<open>RuntimeInvisibleAnnotations\<close> body that encodes well-formed
  annotations, nested to any depth, is read back as these annotations, so that its text is the
  text of these annotations, and the reader stops at the end of the body.
\<close>

theorem annotations_roundtrip:
  assumes "\<forall>a\<in>set as. wfAnnotation a" "length as < 65536" "vrAt v (encAnnotations as)"
  shows "\<exists>v'. andThen vrReadU2 readAnnotations v = (Inr as, v') \<and> position v' = int (length (bytesVector v)) \<and>
    toStringRuntimeAnnotations cp v = map_option (\<lambda>r. (r, v')) (annotationsToString cp as)"
  by (rule annotations_text [OF assms])

definition sampleAnnotation :: annotation where
  "sampleAnnotation = Annotation 1 [AnnotationValuePair 2 (ArrayValue [ConstValue (charByte CHR ''I'') 3, ClassValue 4])]"

definition bodyReader :: "bytes \<Rightarrow> vector_reader" where
  "bodyReader bs = \<lparr>bytesVector = bs, position = 0, vrBigEndian = False, vrHost = False\<rparr>"

lemma bodyReader_at: "length bs < 2 ^ 31 \<Longrightarrow> vrAt (bodyReader bs) bs"
  by (simp add: bodyReader_def vrAt_def)

theorem annotations_roundtrip_witness:
  "encAnnotations [sampleAnnotation] = [0, 1, 0, 1, 0, 1, 0, 2, 0x5B, 0, 2, 0x49, 0, 3, 0x63, 0, 4] \<and>
   (\<exists>v'. andThen vrReadU2 readAnnotations (bodyReader (encAnnotations [sampleAnnotation])) = (Inr [sampleAnnotation], v') \<and> position v' = 17)"
proof -
  have enc: "encAnnotations [sampleAnnotation] = [0, 1, 0, 1, 0, 1, 0, 2, 0x5B, 0, 2, 0x49, 0, 3, 0x63, 0, 4]"
    by (simp add: encAnnotations_def sampleAnnotation_def encU2_def charByte_def)
  moreover have "\<forall>a\<in>set [sampleAnnotation]. wfAnnotation a" by (simp add: sampleAnnotation_def constantTag_def)
  ultimately show ?thesis
    using annotations_roundtrip [of "[sampleAnnotation]" "bodyReader (encAnnotations [sampleAnnotation])" "[]"] bodyReader_at
    by (auto simp: bodyReader_def)
qed

text \<open>A type annotation on a type parameter of a class or a method (target types 0 and 1) has no
  defined text: the reader stores \<^verbatim>\<open>type_parameter_target\<close>, and the text takes
  \<^verbatim>\<open>type_argument_index\<close>, two bytes of the union that were never written.
\<close>

lemma type_parameter_annotation_undefined:
  assumes "readTypeAnnotation v = (Inr a, v')" "targetType a \<in> {0, 1}"
  shows "typeAnnotationToString cp a = Some (Inl Undefined)"
proof -
  obtain i where "targetInfo a = TypeParameterTarget i"
    using assms by (auto simp: readTypeAnnotation_def readTargetInfo_def andThen_Inr_iff)
  with assms(2) show ?thesis by (auto simp: typeAnnotationToString_def targetDescription_def)
qed

lemma type_parameter_annotation_undefined_witness:
  "\<exists>a v'. readTypeAnnotation (bodyReader [0, 5, 0, 0, 1, 0, 0]) = (Inr a, v') \<and> typeAnnotationToString [] a = Some (Inl Undefined)"
proof -
  let ?a = "\<lparr>targetType = 0, targetInfo = TypeParameterTarget 5, targetPath = [], typeIndex = 1, typeValues = []\<rparr>"
  have "readTypeAnnotation (bodyReader [0, 5, 0, 0, 1, 0, 0]) = (Inr ?a, bodyReader [0, 5, 0, 0, 1, 0, 0] \<lparr>position := 7\<rparr>)"
    by code_simp
  with type_parameter_annotation_undefined [OF this, of "[]"] show ?thesis by simp
qed

end
