(* ===== verification/Attributes.thy ===== *)
theory Attributes
  imports Annotations
begin

text \<open>
  The text of attributes (\<^verbatim>\<open>domain/classfile/AttributesManager.h\<close>): the kinds of
  \<^verbatim>\<open>AttributeTags.h\<close>, the text of constants an attribute refers to, and one handler per kind,
  which decodes the body with a \<open>vector_reader\<close>.  The intermediate structures the handlers fill
  and drop are left out where nothing reads them.
\<close>

section \<open>Kinds of attributes\<close>

datatype attribute_tag =
    InvalidTag | SourceFileTag | InnerClassesTag | NestMembersTag | NestHostTag | ConstantValueTag | CodeTag | ExceptionsTag
  | LineNumberTableTag | LocalVariableTableTag | LocalVariableTypeTableTag | MethodParametersTag | StackMapTableTag
  | SyntheticTag | DeprecatedTag | SourceDebugExtensionTag | SignatureTag | RecordTag | RuntimeVisibleAnnotationsTag
  | RuntimeInvisibleAnnotationsTag | RuntimeVisibleParameterAnnotationsTag | RuntimeInvisibleParameterAnnotationsTag
  | AnnotationDefaultTag | RuntimeVisibleTypeAnnotationsTag | RuntimeInvisibleTypeAnnotationsTag | EnclosingMethodTag
  | BootstrapMethodsTag | PermittedSubclassesTag

definition tagsMap :: "(string \<times> attribute_tag) list" where
  "tagsMap =
     [(''SourceFile'', SourceFileTag), (''InnerClasses'', InnerClassesTag), (''NestMembers'', NestMembersTag),
      (''NestHost'', NestHostTag), (''ConstantValue'', ConstantValueTag), (''Code'', CodeTag), (''Exceptions'', ExceptionsTag),
      (''LineNumberTable'', LineNumberTableTag), (''LocalVariableTable'', LocalVariableTableTag),
      (''LocalVariableTypeTable'', LocalVariableTypeTableTag), (''MethodParameters'', MethodParametersTag),
      (''StackMapTable'', StackMapTableTag), (''Synthetic'', SyntheticTag), (''Deprecated'', DeprecatedTag),
      (''SourceDebugExtension'', SourceDebugExtensionTag), (''Signature'', SignatureTag), (''Record'', RecordTag),
      (''RuntimeVisibleAnnotations'', RuntimeVisibleAnnotationsTag),
      (''RuntimeInvisibleAnnotations'', RuntimeInvisibleAnnotationsTag),
      (''RuntimeVisibleParameterAnnotations'', RuntimeVisibleParameterAnnotationsTag),
      (''RuntimeInvisibleParameterAnnotations'', RuntimeInvisibleParameterAnnotationsTag),
      (''AnnotationDefault'', AnnotationDefaultTag),
      (''RuntimeVisibleTypeAnnotations'', RuntimeVisibleTypeAnnotationsTag),
      (''RuntimeInvisibleTypeAnnotations'', RuntimeInvisibleTypeAnnotationsTag), (''EnclosingMethod'', EnclosingMethodTag),
      (''BootstrapMethods'', BootstrapMethodsTag), (''PermittedSubclasses'', PermittedSubclassesTag)]"

definition getTag :: "string \<Rightarrow> attribute_tag" where
  "getTag stringTag = (case map_of tagsMap stringTag of None \<Rightarrow> InvalidTag | Some t \<Rightarrow> t)"

definition getType :: "constant_pool \<Rightarrow> attribute_info \<Rightarrow> attribute_tag result" where
  "getType cp attribute = bindR (getString cp (attrNameIndex attribute) False) (\<lambda>name. Inr (getTag name))"

section \<open>Text of constants\<close>

definition formatClassName :: "constant_pool \<Rightarrow> u2 \<Rightarrow> string result" where
  "formatClassName cp classIndex = (if classIndex = 0 then Inr ''<invalid>''
     else bindR (getClassInfoName cp classIndex) (\<lambda>name.
       Inr (if name = [] then ''<class:'' @ u2Text classIndex @ ''>'' else name)))"

definition methodDescriptorText :: "method_descriptor \<Rightarrow> string" where
  "methodDescriptorText d = argumentsToString d @ '' -> '' @ descriptorToString (returnType d)"

definition methodDescriptorToString :: "constant_pool \<Rightarrow> u2 \<Rightarrow> string result option" where
  "methodDescriptorToString cp i =
     bindO (Some (getString cp i False)) (\<lambda>descriptorString.
     bindO (MethodDescriptorParser descriptorString) (\<lambda>d. Some (Inr (methodDescriptorText d))))"

fun nameAndTypeInfo :: "constant_pool_record \<Rightarrow> (u2 \<times> u2) result" where
  "nameAndTypeInfo (NameAndTypeInfo n d) = Inr (n, d)"
| "nameAndTypeInfo _ = Inl Undefined"

definition formatNameAndType :: "constant_pool \<Rightarrow> u2 \<Rightarrow> string result option" where
  "formatNameAndType cp nameAndTypeIndex = (if nameAndTypeIndex = 0 then Some (Inr ''<none>'')
     else bindO (Some (bindR (getEntry cp nameAndTypeIndex) nameAndTypeInfo)) (\<lambda>(n, d).
       bindO (Some (getString cp n False)) (\<lambda>name.
       bindO (Some (getString cp d False)) (\<lambda>descriptorString.
         if descriptorString \<noteq> [] \<and> hd descriptorString = CHR ''(''
         then bindO (MethodDescriptorParser descriptorString) (\<lambda>m. Some (Inr (name @ methodDescriptorText m)))
         else bindO (getTypeString cp d) (\<lambda>ty. Some (Inr (name @ '':'' @ ty)))))))"

definition unknownConstant :: "u2 \<Rightarrow> constant_pool_record \<Rightarrow> string" where
  "unknownConstant index r = ''#'' @ u2Text index @ ''(tag='' @ u1Text (recordTag r) @ '')''"

text \<open>The three kinds of member references share the layout of their base \<^verbatim>\<open>MemberInfo\<close>.\<close>

fun memberInfo :: "constant_pool_record \<Rightarrow> (u2 \<times> u2) option" where
  "memberInfo (FieldrefInfo c n) = Some (c, n)"
| "memberInfo (MethodrefInfo c n) = Some (c, n)"
| "memberInfo (InterfaceMethodrefInfo c n) = Some (c, n)"
| "memberInfo _ = None"

definition formatMemberReference :: "constant_pool \<Rightarrow> u2 \<Rightarrow> string result option" where
  "formatMemberReference cp memberIndex = (if memberIndex = 0 then Some (Inr ''<none>'')
     else bindO (Some (getEntry cp memberIndex)) (\<lambda>r. case memberInfo r of
         Some (c, n) \<Rightarrow> bindO (Some (formatClassName cp c)) (\<lambda>owner. bindO (formatNameAndType cp n) (\<lambda>member.
           Some (Inr (owner @ ''::'' @ member))))
       | None \<Rightarrow> Some (Inr (unknownConstant memberIndex r))))"

definition methodHandleKinds :: "string list" where
  "methodHandleKinds = [''unknown'', ''getField'', ''getStatic'', ''putField'', ''putStatic'', ''invokeVirtual'',
     ''invokeStatic'', ''invokeSpecial'', ''newInvokeSpecial'', ''invokeInterface'']"

definition methodHandleKindToString :: "u1 \<Rightarrow> string" where
  "methodHandleKindToString kind = (if unat kind < length methodHandleKinds then methodHandleKinds ! unat kind else ''unknown'')"

definition methodHandleToString :: "constant_pool \<Rightarrow> u2 \<Rightarrow> string result option" where
  "methodHandleToString cp methodHandleIndex = (if methodHandleIndex = 0 then Some (Inr ''<none>'')
     else bindO (Some (getEntry cp methodHandleIndex)) (\<lambda>r. case r of
         MethodHandleInfo kind ref \<Rightarrow> bindO (formatMemberReference cp ref) (\<lambda>target.
           Some (Inr (methodHandleKindToString kind @ '' '' @ target)))
       | _ \<Rightarrow> Some (Inr (unknownConstant methodHandleIndex r))))"

definition constantPoolIndexToString :: "constant_pool \<Rightarrow> u2 \<Rightarrow> string result option" where
  "constantPoolIndexToString cp index = (if index = 0 then Some (Inr ''<invalid>'')
     else bindO (Some (getEntry cp index)) (\<lambda>r. case r of
         IntegerInfo _ \<Rightarrow> Some (getConstantValueString cp index)
       | FloatInfo _ \<Rightarrow> Some (getConstantValueString cp index)
       | LongInfo _ _ \<Rightarrow> Some (getConstantValueString cp index)
       | DoubleInfo _ _ \<Rightarrow> Some (getConstantValueString cp index)
       | StringInfo i \<Rightarrow> Some (bindR (getString cp i True) (\<lambda>s. Inr ([CHR 0x22] @ s @ [CHR 0x22])))
       | ClassInfo n \<Rightarrow> Some (formatClassName cp n)
       | Utf8Info bs \<Rightarrow> Some (Inr (getAsUtf8 bs True))
       | NameAndTypeInfo _ _ \<Rightarrow> formatNameAndType cp index
       | FieldrefInfo _ _ \<Rightarrow> formatMemberReference cp index
       | MethodrefInfo _ _ \<Rightarrow> formatMemberReference cp index
       | InterfaceMethodrefInfo _ _ \<Rightarrow> formatMemberReference cp index
       | MethodHandleInfo _ _ \<Rightarrow> methodHandleToString cp index
       | MethodTypeInfo d \<Rightarrow> methodDescriptorToString cp d
       | _ \<Rightarrow> Some (Inr (unknownConstant index r))))"

section \<open>Handlers\<close>

text \<open>What a handler adds to the heading \<^verbatim>\<open>Attr - <kind>\<close>.\<close>

fun constantValueText :: "constant_pool \<Rightarrow> constant_pool_record \<Rightarrow> string result" where
  "constantValueText cp (IntegerInfo v) = Inr (intToString (sint v))"
| "constantValueText cp (FloatInfo v) = Inr (floatToString v)"
| "constantValueText cp (LongInfo h l) = Inr (intToString (sint (getLongLong h l)))"
| "constantValueText cp (DoubleInfo h l) = Inr (doubleToString (getDouble h l))"
| "constantValueText cp (StringInfo i) = getString cp i False"
| "constantValueText cp _ = Inl AssertFail"

definition toStringConstantValue :: "constant_pool \<Rightarrow> (vector_reader, string) prog" where
  "toStringConstantValue cp = andThen vrReadU2 (\<lambda>i. andThen (liftR (bindR (getEntry cp i) (constantValueText cp))) (\<lambda>s. ret ('': '' @ s)))"

definition toStringSourceFile :: "constant_pool \<Rightarrow> (vector_reader, string) prog" where
  "toStringSourceFile cp = andThen vrReadU2 (\<lambda>i. andThen (liftR (getString cp i False)) (\<lambda>s. ret ('': '' @ s)))"

definition innerClassToString :: "constant_pool \<Rightarrow> (vector_reader, string) prog" where
  "innerClassToString cp = andThen vrReadU2 (\<lambda>inner. andThen vrReadU2 (\<lambda>outer. andThen vrReadU2 (\<lambda>nameIndex. andThen vrReadU2 (\<lambda>flags.
     andThen (liftR (getClassInfoName cp inner)) (\<lambda>innerClassname.
     andThen (liftR (getClassInfoName cp outer)) (\<lambda>outerClassname.
     andThen (liftR (getClassname cp nameIndex)) (\<lambda>name.
       ret (accessToString flags @ '' class: '' @ name @ '', outer class: '' @ outerClassname @ '', inner class: '' @ innerClassname))))))))"

definition newline :: string where
  "newline = [CHR 0x0A]"

definition toStringInnerClasses :: "constant_pool \<Rightarrow> (vector_reader, string) prog" where
  "toStringInnerClasses cp = andThen vrReadU2 (\<lambda>numberOfClasses.
     andThen (replicateP (unat numberOfClasses) (innerClassToString cp)) (\<lambda>parts. ret (newline @ join parts newline)))"

definition toStringNestMembers :: "constant_pool \<Rightarrow> (vector_reader, string) prog" where
  "toStringNestMembers cp = andThen vrReadU2 (\<lambda>numberOfClasses.
     andThen (replicateP (unat numberOfClasses) (andThen vrReadU2 (\<lambda>i. liftR (getClassInfoName cp i)))) (\<lambda>parts.
       ret (if parts = [] then '' (empty)'' else '' count='' @ u2Text numberOfClasses @ '', '' @ join parts '', '')))"

definition toStringNestHost :: "constant_pool \<Rightarrow> (vector_reader, string) prog" where
  "toStringNestHost cp = andThen vrReadU2 (\<lambda>i. andThen (liftR (getClassInfoName cp i)) (\<lambda>hostName. ret ('' host='' @ hostName)))"

definition readExceptionTable :: "(vector_reader, u2 \<times> u2 \<times> u2 \<times> u2) prog" where
  "readExceptionTable = andThen vrReadU2 (\<lambda>startPC. andThen vrReadU2 (\<lambda>endPC. andThen vrReadU2 (\<lambda>handlerPC.
     andThen vrReadU2 (\<lambda>catchType. ret (startPC, endPC, handlerPC, catchType)))))"

text \<open>\<^verbatim>\<open>jump\<close> takes an \<^verbatim>\<open>int\<close>: the unsigned length is converted.\<close>

definition toStringCode :: "(vector_reader, string) prog" where
  "toStringCode = andThen vrReadU2 (\<lambda>maxStack. andThen vrReadU2 (\<lambda>maxLocals. andThen vrReadU4 (\<lambda>codeLength.
     andThen (vrJump (sint codeLength)) (\<lambda>_. andThen vrReadU2 (\<lambda>exceptionTableLength.
     andThen (replicateP (unat exceptionTableLength) readExceptionTable) (\<lambda>exceptionTable.
       ret ('' maxStack='' @ u2Text maxStack @ '', maxLocals='' @ u2Text maxLocals @ '', codeLength='' @
         natToString (unat codeLength) @ '', exceptionTableLength='' @ u2Text exceptionTableLength)))))))"

text \<open>The loop of \<^verbatim>\<open>Exceptions\<close> and \<^verbatim>\<open>PermittedSubclasses\<close>.\<close>

definition classNames :: "constant_pool \<Rightarrow> (vector_reader, string) prog" where
  "classNames cp = andThen vrReadU2 (\<lambda>count.
     andThen (replicateP (unat count) (andThen vrReadU2 (\<lambda>i. liftR (formatClassName cp i)))) (\<lambda>names.
       ret (if names = [] then '' (none)'' else '' count='' @ natToString (length names) @ '', '' @ join names '', '')))"

definition toStringExceptions :: "constant_pool \<Rightarrow> (vector_reader, string) prog" where
  "toStringExceptions cp = classNames cp"

definition toStringPermittedSubclasses :: "constant_pool \<Rightarrow> (vector_reader, string) prog" where
  "toStringPermittedSubclasses cp = classNames cp"

definition toStringLineNumberTable :: "(vector_reader, string) prog" where
  "toStringLineNumberTable = andThen vrReadU2 (\<lambda>n.
     andThen (replicateP (unat n) (andThen vrReadU2 (\<lambda>start_pc. andThen vrReadU2 (\<lambda>line_number.
       ret (''{pc:'' @ u2Text start_pc @ '', line:'' @ u2Text line_number @ ''}''))))) (\<lambda>parts.
       ret (if parts = [] then '' (empty)'' else '' count='' @ u2Text n @ '', '' @ join parts '', '')))"

definition rangeText :: "u2 \<Rightarrow> u2 \<Rightarrow> string" where
  "rangeText start_pc len = u2Text start_pc @ ''-'' @ natToString (unat start_pc + unat len)"

definition localVariableText :: "constant_pool \<Rightarrow> string run" where
  "localVariableText cp =
     thenRun (runProg vrReadU2) (\<lambda>start_pc. thenRun (runProg vrReadU2) (\<lambda>len. thenRun (runProg vrReadU2) (\<lambda>name_index.
     thenRun (runProg vrReadU2) (\<lambda>descriptor_index. thenRun (runProg vrReadU2) (\<lambda>index.
     thenRun (runText (Some (getString cp name_index False))) (\<lambda>name.
     thenRun (runText (getTypeString cp descriptor_index)) (\<lambda>ty.
       retRun (''{slot:'' @ u2Text index @ '', range:'' @ rangeText start_pc len @ '', name:'' @ name @ '', type:'' @ ty @ ''}''))))))))"

definition toStringLocalVariableTable :: "constant_pool \<Rightarrow> string run" where
  "toStringLocalVariableTable cp = thenRun (runProg vrReadU2) (\<lambda>n.
     thenRun (replicateRun (unat n) (localVariableText cp)) (\<lambda>parts.
       retRun (if parts = [] then '' (empty)'' else '' count='' @ u2Text n @ '', '' @ join parts '', '')))"

definition localVariableTypeText :: "constant_pool \<Rightarrow> (vector_reader, string) prog" where
  "localVariableTypeText cp = andThen vrReadU2 (\<lambda>start_pc. andThen vrReadU2 (\<lambda>len. andThen vrReadU2 (\<lambda>name_index.
     andThen vrReadU2 (\<lambda>signature_index. andThen vrReadU2 (\<lambda>index.
     andThen (liftR (getString cp name_index False)) (\<lambda>name. andThen (liftR (getString cp signature_index False)) (\<lambda>signature.
       ret (''{slot:'' @ u2Text index @ '', name:'' @ name @ '', signature:'' @ signature @ '', range:'' @ rangeText start_pc len @ ''}''))))))))"

definition toStringLocalVariableTypeTable :: "constant_pool \<Rightarrow> (vector_reader, string) prog" where
  "toStringLocalVariableTypeTable cp = andThen vrReadU2 (\<lambda>count.
     andThen (replicateP (unat count) (localVariableTypeText cp)) (\<lambda>parts.
       ret (if parts = [] then '' (empty)'' else '' count='' @ u2Text count @ '', '' @ join parts '', '')))"

definition formatAccessFlags :: "u2 \<Rightarrow> string" where
  "formatAccessFlags access =
     (let flags = (if access AND JVM_ACC_FINAL \<noteq> 0 then [''final''] else []) @
                  (if access AND JVM_ACC_SYNTHETIC \<noteq> 0 then [''synthetic''] else [])
      in join (if flags = [] then [''default''] else flags) '' '')"

definition methodParameterText :: "constant_pool \<Rightarrow> nat \<Rightarrow> (vector_reader, string) prog" where
  "methodParameterText cp parameterIndex = andThen vrReadU2 (\<lambda>nameIndex. andThen vrReadU2 (\<lambda>accessFlags.
     andThen (if nameIndex = 0 then ret ''<unnamed>'' else liftR (getString cp nameIndex False)) (\<lambda>name.
       ret (''{index:'' @ natToString parameterIndex @ '', name:'' @ name @ '', access:'' @ formatAccessFlags accessFlags @ ''}''))))"

definition toStringMethodParameters :: "constant_pool \<Rightarrow> (vector_reader, string) prog" where
  "toStringMethodParameters cp = andThen vrReadU1 (\<lambda>parameterCount.
     andThen (mapProg (methodParameterText cp) [0..<unat parameterCount]) (\<lambda>parts.
       ret (if parts = [] then '' (no parameters)'' else '' count='' @ u1Text parameterCount @ '', '' @ join parts '', '')))"

text \<open>\<^verbatim>\<open>StackMapTable\<close>: the frames are skipped and counted by kind.\<close>

record stack_map_counters =
  cSame :: u4
  cSameLocals :: u4
  cSameLocalsExtended :: u4
  cChop :: u4
  cSameExtended :: u4
  cAppend :: u4
  cFull :: u4
  cUnknown :: u4

definition noFrames :: stack_map_counters where
  "noFrames = \<lparr>cSame = 0, cSameLocals = 0, cSameLocalsExtended = 0, cChop = 0, cSameExtended = 0, cAppend = 0, cFull = 0, cUnknown = 0\<rparr>"

definition skipVerificationType :: "(vector_reader, unit) prog" where
  "skipVerificationType = andThen vrReadU1 (\<lambda>tag. if tag = 7 \<or> tag = 8 then andThen vrReadU2 (\<lambda>_. ret ()) else ret ())"

definition skipVerificationTypes :: "nat \<Rightarrow> (vector_reader, unit) prog" where
  "skipVerificationTypes count = andThen (replicateP count skipVerificationType) (\<lambda>_. ret ())"

definition readFrame :: "stack_map_counters \<Rightarrow> (vector_reader, stack_map_counters) prog" where
  "readFrame c = andThen vrReadU1 (\<lambda>frameType.
     if frameType \<le> 63 then ret (c\<lparr>cSame := cSame c + 1\<rparr>)
     else if frameType \<le> 127 then andThen skipVerificationType (\<lambda>_. ret (c\<lparr>cSameLocals := cSameLocals c + 1\<rparr>))
     else if frameType = 247 then andThen vrReadU2 (\<lambda>_. andThen skipVerificationType (\<lambda>_.
       ret (c\<lparr>cSameLocalsExtended := cSameLocalsExtended c + 1\<rparr>)))
     else if frameType \<ge> 248 \<and> frameType \<le> 250 then andThen vrReadU2 (\<lambda>_. ret (c\<lparr>cChop := cChop c + 1\<rparr>))
     else if frameType = 251 then andThen vrReadU2 (\<lambda>_. ret (c\<lparr>cSameExtended := cSameExtended c + 1\<rparr>))
     else if frameType \<ge> 252 \<and> frameType \<le> 254 then andThen vrReadU2 (\<lambda>_.
       andThen (skipVerificationTypes (unat (frameType - 251))) (\<lambda>_. ret (c\<lparr>cAppend := cAppend c + 1\<rparr>)))
     else if frameType = 255 then andThen vrReadU2 (\<lambda>_. andThen vrReadU2 (\<lambda>locals.
       andThen (skipVerificationTypes (unat locals)) (\<lambda>_. andThen vrReadU2 (\<lambda>stackItems.
       andThen (skipVerificationTypes (unat stackItems)) (\<lambda>_. ret (c\<lparr>cFull := cFull c + 1\<rparr>))))))
     else ret (c\<lparr>cUnknown := cUnknown c + 1\<rparr>))"

primrec framesLoop :: "nat \<Rightarrow> stack_map_counters \<Rightarrow> (vector_reader, stack_map_counters) prog" where
  "framesLoop 0 c = ret c"
| "framesLoop (Suc n) c = andThen (readFrame c) (framesLoop n)"

definition framesSummary :: "stack_map_counters \<Rightarrow> string list" where
  "framesSummary c = map (\<lambda>(label, count). label @ ''='' @ natToString (unat count)) (filter (\<lambda>(label, count). count > 0)
     [(''same'', cSame c), (''same_locals'', cSameLocals c), (''same_locals_ext'', cSameLocalsExtended c), (''chop'', cChop c),
      (''same_ext'', cSameExtended c), (''append'', cAppend c), (''full'', cFull c), (''unknown'', cUnknown c)])"

definition toStringStackMapTable :: "(vector_reader, string) prog" where
  "toStringStackMapTable = andThen vrReadU2 (\<lambda>entryCount. andThen (framesLoop (unat entryCount) noFrames) (\<lambda>c.
     ret (if entryCount = 0 then '' (no frames)''
       else let summaryParts = framesSummary c in
         if summaryParts = [] then '' frames='' @ u2Text entryCount
         else '' frames='' @ u2Text entryCount @ '', ['' @ join summaryParts '', '' @ '']'')))"

definition toStringSynthetic :: "(vector_reader, string) prog" where
  "toStringSynthetic = ret '' (synthetic)''"

definition toStringDeprecated :: "(vector_reader, string) prog" where
  "toStringDeprecated = ret '' (deprecated)''"

definition toStringSourceDebugExtension :: "attribute_info \<Rightarrow> (vector_reader, string) prog" where
  "toStringSourceDebugExtension attribute = andThen (replicateP (unat (attrLength attribute)) vrReadU1) (\<lambda>cs.
     ret ('' '' @ map byteChar cs))"

definition toStringSignature :: "constant_pool \<Rightarrow> attribute_info \<Rightarrow> (vector_reader, string) prog" where
  "toStringSignature cp attribute = andThen (signatureToString cp attribute) (\<lambda>s. ret ('' '' @ s))"

definition skipAttribute :: "(vector_reader, unit) prog" where
  "skipAttribute = andThen vrReadU2 (\<lambda>_. andThen vrReadU4 (\<lambda>attributeLength. vrJump (sint attributeLength)))"

definition recordComponentText :: "constant_pool \<Rightarrow> string run" where
  "recordComponentText cp = thenRun (runProg vrReadU2) (\<lambda>nameIndex. thenRun (runProg vrReadU2) (\<lambda>descriptorIndex.
     thenRun (runProg vrReadU2) (\<lambda>attributesCount. thenRun (runProg (replicateP (unat attributesCount) skipAttribute)) (\<lambda>_.
     thenRun (runText (Some (getString cp nameIndex False))) (\<lambda>name. thenRun (runText (getTypeString cp descriptorIndex)) (\<lambda>descriptor.
       retRun (name @ '':'' @ descriptor)))))))"

definition toStringRecord :: "constant_pool \<Rightarrow> string run" where
  "toStringRecord cp = thenRun (runProg vrReadU2) (\<lambda>componentCount.
     thenRun (replicateRun (unat componentCount) (recordComponentText cp)) (\<lambda>parts.
       retRun (if parts = [] then '' (no components)'' else '' components='' @ u2Text componentCount @ '', '' @ join parts '', '')))"

definition toStringEnclosingMethod :: "constant_pool \<Rightarrow> string run" where
  "toStringEnclosingMethod cp = thenRun (runProg vrReadU2) (\<lambda>classIndex. thenRun (runProg vrReadU2) (\<lambda>methodIndex.
     thenRun (runText (Some (formatClassName cp classIndex))) (\<lambda>hostName.
     if methodIndex \<noteq> 0
     then thenRun (runText (formatNameAndType cp methodIndex)) (\<lambda>methodSummary. retRun ('' host='' @ hostName @ '', method='' @ methodSummary))
     else retRun ('' host='' @ hostName))))"

definition bootstrapMethodText :: "constant_pool \<Rightarrow> string run" where
  "bootstrapMethodText cp = thenRun (runProg vrReadU2) (\<lambda>bootstrapMethodRef. thenRun (runProg vrReadU2) (\<lambda>argumentCount.
     thenRun (replicateRun (unat argumentCount) (thenRun (runProg vrReadU2) (\<lambda>i. runText (constantPoolIndexToString cp i)))) (\<lambda>args.
     thenRun (runText (methodHandleToString cp bootstrapMethodRef)) (\<lambda>handleSummary.
       retRun (handleSummary @ (if args = [] then [] else '' args=['' @ join args '', '' @ '']''))))))"

definition toStringBootstrapMethods :: "constant_pool \<Rightarrow> string run" where
  "toStringBootstrapMethods cp = thenRun (runProg vrReadU2) (\<lambda>count.
     thenRun (replicateRun (unat count) (bootstrapMethodText cp)) (\<lambda>entries.
       retRun (if entries = [] then '' (none)'' else '' count='' @ natToString (length entries) @ '', '' @ join entries ''; '')))"

section \<open>Dispatch\<close>

definition spaced :: "string run \<Rightarrow> string run" where
  "spaced m = thenRun m (\<lambda>s. retRun ('' '' @ s))"

text \<open>The handler table \<^verbatim>\<open>_tags2ToStringFunc\<close>.\<close>

definition toStringFunc :: "constant_pool \<Rightarrow> attribute_info \<Rightarrow> attribute_tag \<Rightarrow> (string \<times> string run) option" where
  "toStringFunc cp attribute t = (case t of
       InvalidTag \<Rightarrow> None
     | SourceFileTag \<Rightarrow> Some (''SourceFile'', runProg (toStringSourceFile cp))
     | InnerClassesTag \<Rightarrow> Some (''InnerClasses'', runProg (toStringInnerClasses cp))
     | NestMembersTag \<Rightarrow> Some (''NestMembers'', runProg (toStringNestMembers cp))
     | NestHostTag \<Rightarrow> Some (''NestHost'', runProg (toStringNestHost cp))
     | ConstantValueTag \<Rightarrow> Some (''ConstantValue'', runProg (toStringConstantValue cp))
     | CodeTag \<Rightarrow> Some (''Code'', runProg toStringCode)
     | ExceptionsTag \<Rightarrow> Some (''Exceptions'', runProg (toStringExceptions cp))
     | LineNumberTableTag \<Rightarrow> Some (''LineNumberTable'', runProg toStringLineNumberTable)
     | LocalVariableTableTag \<Rightarrow> Some (''LocalVariableTable'', toStringLocalVariableTable cp)
     | LocalVariableTypeTableTag \<Rightarrow> Some (''LocalVariableTypeTable'', runProg (toStringLocalVariableTypeTable cp))
     | MethodParametersTag \<Rightarrow> Some (''MethodParameters'', runProg (toStringMethodParameters cp))
     | StackMapTableTag \<Rightarrow> Some (''StackMapTable'', runProg toStringStackMapTable)
     | SyntheticTag \<Rightarrow> Some (''Synthetic'', runProg toStringSynthetic)
     | DeprecatedTag \<Rightarrow> Some (''Deprecated'', runProg toStringDeprecated)
     | SourceDebugExtensionTag \<Rightarrow> Some (''SourceDebugExtension'', runProg (toStringSourceDebugExtension attribute))
     | SignatureTag \<Rightarrow> Some (''Signature'', runProg (toStringSignature cp attribute))
     | RecordTag \<Rightarrow> Some (''Record'', toStringRecord cp)
     | RuntimeVisibleAnnotationsTag \<Rightarrow> Some (''RuntimeVisibleAnnotations'', spaced (toStringRuntimeAnnotations cp))
     | RuntimeInvisibleAnnotationsTag \<Rightarrow> Some (''RuntimeInvisibleAnnotations'', spaced (toStringRuntimeAnnotations cp))
     | RuntimeVisibleParameterAnnotationsTag \<Rightarrow>
         Some (''RuntimeVisibleParameterAnnotations'', spaced (toStringRuntimeParameterAnnotations cp))
     | RuntimeInvisibleParameterAnnotationsTag \<Rightarrow>
         Some (''RuntimeInvisibleParameterAnnotations'', spaced (toStringRuntimeParameterAnnotations cp))
     | AnnotationDefaultTag \<Rightarrow> Some (''AnnotationDefault'', spaced (toStringAnnotationDefault cp attribute))
     | RuntimeVisibleTypeAnnotationsTag \<Rightarrow> Some (''RuntimeVisibleTypeAnnotations'', spaced (toStringRuntimeTypeAnnotations cp))
     | RuntimeInvisibleTypeAnnotationsTag \<Rightarrow> Some (''RuntimeInvisibleTypeAnnotations'', spaced (toStringRuntimeTypeAnnotations cp))
     | EnclosingMethodTag \<Rightarrow> Some (''EnclosingMethod'', toStringEnclosingMethod cp)
     | BootstrapMethodsTag \<Rightarrow> Some (''BootstrapMethods'', toStringBootstrapMethods cp)
     | PermittedSubclassesTag \<Rightarrow> Some (''PermittedSubclasses'', runProg (toStringPermittedSubclasses cp)))"

definition newVectorReader :: "bool \<Rightarrow> bool \<Rightarrow> bytes \<Rightarrow> vector_reader" where
  "newVectorReader host bigEndian bs = \<lparr>bytesVector = bs, position = 0, vrBigEndian = bigEndian, vrHost = host\<rparr>"

definition attributeToString :: "bool \<Rightarrow> bool \<Rightarrow> constant_pool \<Rightarrow> attribute_info \<Rightarrow> string result option" where
  "attributeToString host bigEndian cp attribute =
     bindO (Some (getType cp attribute)) (\<lambda>t. case toStringFunc cp attribute t of
         Some (name, handler) \<Rightarrow> bindO (map_option fst (handler (newVectorReader host bigEndian (attrInfo attribute)))) (\<lambda>s.
           Some (Inr (''Attr - '' @ name @ s)))
       | None \<Rightarrow> bindO (Some (getString cp (attrNameIndex attribute) False)) (\<lambda>name.
           Some (Inr (''Invalid Attribute:'' @ name @ '' ''))))"

section \<open>Stack map frames\<close>

text \<open>The frames of \<^verbatim>\<open>types/StackFrame.h\<close>, their encoding and their kinds.\<close>

datatype verification_type_info =
    TopVariableInfo | IntegerVariableInfo | FloatVariableInfo | LongVariableInfo | DoubleVariableInfo | NullVariableInfo
  | UninitializedThisVariableInfo | ObjectVariableInfo u2 | UninitializedVariableInfo u2

datatype stack_map_frame =
    SameFrame u1
  | SameLocals1StackItemFrame u1 verification_type_info
  | SameLocals1StackItemFrameExtended u2 verification_type_info
  | ChopFrame u1 u2
  | SameFrameExtended u2
  | AppendFrame u1 u2 "verification_type_info list"
  | FullFrame u2 "verification_type_info list" "verification_type_info list"

fun encVerificationType :: "verification_type_info \<Rightarrow> bytes" where
  "encVerificationType TopVariableInfo = [0]"
| "encVerificationType IntegerVariableInfo = [1]"
| "encVerificationType FloatVariableInfo = [2]"
| "encVerificationType DoubleVariableInfo = [3]"
| "encVerificationType LongVariableInfo = [4]"
| "encVerificationType NullVariableInfo = [5]"
| "encVerificationType UninitializedThisVariableInfo = [6]"
| "encVerificationType (ObjectVariableInfo i) = 7 # encU2 i"
| "encVerificationType (UninitializedVariableInfo offset) = 8 # encU2 offset"

definition encVerificationTypes :: "verification_type_info list \<Rightarrow> bytes" where
  "encVerificationTypes ts = concat (map encVerificationType ts)"

fun encFrame :: "stack_map_frame \<Rightarrow> bytes" where
  "encFrame (SameFrame t) = [t]"
| "encFrame (SameLocals1StackItemFrame t s) = [t] @ encVerificationType s"
| "encFrame (SameLocals1StackItemFrameExtended d s) = [247] @ encU2 d @ encVerificationType s"
| "encFrame (ChopFrame t d) = [t] @ encU2 d"
| "encFrame (SameFrameExtended d) = [251] @ encU2 d"
| "encFrame (AppendFrame t d ls) = [t] @ encU2 d @ encVerificationTypes ls"
| "encFrame (FullFrame d ls ss) =
     [255] @ encU2 d @ encU2 (of_nat (length ls)) @ encVerificationTypes ls @ encU2 (of_nat (length ss)) @ encVerificationTypes ss"

fun wfFrame :: "stack_map_frame \<Rightarrow> bool" where
  "wfFrame (SameFrame t) \<longleftrightarrow> t \<le> 63"
| "wfFrame (SameLocals1StackItemFrame t s) \<longleftrightarrow> 64 \<le> t \<and> t \<le> 127"
| "wfFrame (SameLocals1StackItemFrameExtended d s) \<longleftrightarrow> True"
| "wfFrame (ChopFrame t d) \<longleftrightarrow> 248 \<le> t \<and> t \<le> 250"
| "wfFrame (SameFrameExtended d) \<longleftrightarrow> True"
| "wfFrame (AppendFrame t d ls) \<longleftrightarrow> 252 \<le> t \<and> t \<le> 254 \<and> length ls = unat t - 251"
| "wfFrame (FullFrame d ls ss) \<longleftrightarrow> length ls < 65536 \<and> length ss < 65536"

fun countFrame :: "stack_map_frame \<Rightarrow> stack_map_counters \<Rightarrow> stack_map_counters" where
  "countFrame (SameFrame _) c = c\<lparr>cSame := cSame c + 1\<rparr>"
| "countFrame (SameLocals1StackItemFrame _ _) c = c\<lparr>cSameLocals := cSameLocals c + 1\<rparr>"
| "countFrame (SameLocals1StackItemFrameExtended _ _) c = c\<lparr>cSameLocalsExtended := cSameLocalsExtended c + 1\<rparr>"
| "countFrame (ChopFrame _ _) c = c\<lparr>cChop := cChop c + 1\<rparr>"
| "countFrame (SameFrameExtended _) c = c\<lparr>cSameExtended := cSameExtended c + 1\<rparr>"
| "countFrame (AppendFrame _ _ _) c = c\<lparr>cAppend := cAppend c + 1\<rparr>"
| "countFrame (FullFrame _ _ _) c = c\<lparr>cFull := cFull c + 1\<rparr>"

lemma vreads_U1_then: "vreads (f x) bs y \<Longrightarrow> vreads (andThen vrReadU1 f) (x # bs) y"
  using vreads_andThen [OF vreads_U1, where f = f] by simp

lemma vreads_U2_then: "vreads (f x) bs y \<Longrightarrow> vreads (andThen vrReadU2 f) (encU2 x @ bs) y"
  using vreads_andThen [OF vreads_U2, where f = f] by simp

lemma vreads_U2_ret: "vreads (andThen vrReadU2 (\<lambda>x. ret (g x))) (encU2 x) (g x)"
  by (rule vreads_andThen_ret) simp

lemma skip_enc: "vreads skipVerificationType (encVerificationType t) ()"
  unfolding skipVerificationType_def
  by (cases t) (auto intro!: vreads_U1_then vreads_ret vreads_U2_ret [of "\<lambda>_. ()"])

lemma replicate_skips: "vreads (replicateP (length ts) skipVerificationType) (encVerificationTypes ts) (map (\<lambda>_. ()) ts)"
  unfolding encVerificationTypes_def
proof (induction ts)
  case Nil then show ?case by (simp add: vreads_def)
next
  case (Cons t ts)
  have "vreads (andThen (replicateP (length ts) skipVerificationType) (\<lambda>xs. ret (() # xs))) (concat (map encVerificationType ts))
      (() # map (\<lambda>_. ()) ts)"
    by (rule vreads_andThen_ret [OF Cons])
  with vreads_andThen [OF skip_enc, where f = "\<lambda>x. andThen (replicateP (length ts) skipVerificationType) (\<lambda>xs. ret (x # xs))"]
  show ?case by simp
qed

lemma skips_enc: "length ts = n \<Longrightarrow> vreads (skipVerificationTypes n) (encVerificationTypes ts) ()"
  unfolding skipVerificationTypes_def using vreads_andThen_ret [OF replicate_skips [of ts], of "\<lambda>_. ()"] by simp

lemma skips_then: "length ts = n \<Longrightarrow> vreads (f ()) bs y \<Longrightarrow> vreads (andThen (skipVerificationTypes n) f) (encVerificationTypes ts @ bs) y"
  by (rule vreads_andThen [OF skips_enc])

lemma readFrame_enc: "wfFrame f \<Longrightarrow> vreads (readFrame c) (encFrame f) (countFrame f c)"
  unfolding readFrame_def
  apply (cases f)
  subgoal by (auto intro!: vreads_U1_then vreads_ret)
  subgoal by (auto simp: word_le_nat_alt intro!: vreads_U1_then vreads_andThen_ret skip_enc)
  subgoal by (auto simp: word_le_nat_alt intro!: vreads_U1_then vreads_U2_then vreads_andThen_ret skip_enc)
  subgoal by (auto simp: word_le_nat_alt intro!: vreads_U1_then vreads_U2_ret)
  subgoal by (auto simp: word_le_nat_alt intro!: vreads_U1_then vreads_U2_ret)
  subgoal by (auto simp: word_le_nat_alt unat_sub_if' intro!: vreads_U1_then vreads_U2_then vreads_andThen_ret skips_enc)
  subgoal by (auto simp: word_le_nat_alt unat_count intro!: vreads_U1_then vreads_U2_then skips_then vreads_andThen_ret skips_enc)
  done

lemma framesLoop_enc:
  "\<forall>f\<in>set fs. wfFrame f \<Longrightarrow> vreads (framesLoop (length fs) c) (concat (map encFrame fs)) (fold countFrame fs c)"
proof (induction fs arbitrary: c)
  case Nil then show ?case by (simp add: vreads_def)
next
  case (Cons f fs)
  then show ?case using vreads_andThen [OF readFrame_enc [of f c], where f = "framesLoop (length fs)"] by simp
qed

fun frameKind :: "stack_map_frame \<Rightarrow> string" where
  "frameKind (SameFrame _) = ''same''"
| "frameKind (SameLocals1StackItemFrame _ _) = ''same_locals''"
| "frameKind (SameLocals1StackItemFrameExtended _ _) = ''same_locals_ext''"
| "frameKind (ChopFrame _ _) = ''chop''"
| "frameKind (SameFrameExtended _) = ''same_ext''"
| "frameKind (AppendFrame _ _ _) = ''append''"
| "frameKind (FullFrame _ _ _) = ''full''"

definition frameKinds :: "string list" where
  "frameKinds = [''same'', ''same_locals'', ''same_locals_ext'', ''chop'', ''same_ext'', ''append'', ''full'', ''unknown'']"

definition kindCount :: "stack_map_frame list \<Rightarrow> string \<Rightarrow> nat" where
  "kindCount fs l = length (filter (\<lambda>f. frameKind f = l) fs)"

definition kindCounts :: "stack_map_frame list \<Rightarrow> string list" where
  "kindCounts fs = map (\<lambda>l. l @ ''='' @ natToString (kindCount fs l)) (filter (\<lambda>l. kindCount fs l > 0) frameKinds)"

definition counters :: "stack_map_counters \<Rightarrow> (string \<times> u4) list" where
  "counters c =
     [(''same'', cSame c), (''same_locals'', cSameLocals c), (''same_locals_ext'', cSameLocalsExtended c), (''chop'', cChop c),
      (''same_ext'', cSameExtended c), (''append'', cAppend c), (''full'', cFull c), (''unknown'', cUnknown c)]"

lemma counters_step: "counters (countFrame f c) = map (\<lambda>(l, n). (l, n + (if frameKind f = l then 1 else 0))) (counters c)"
  by (cases f) (simp_all add: counters_def)

lemma counters_fold: "counters (fold countFrame fs c) = map (\<lambda>(l, n). (l, n + of_nat (kindCount fs l))) (counters c)"
proof (induction fs arbitrary: c)
  case Nil then show ?case by (simp add: kindCount_def)
next
  case (Cons f fs)
  show ?case by (simp add: Cons counters_step kindCount_def) (auto simp: algebra_simps)
qed

lemma framesSummary_fold:
  assumes "length fs < 65536" shows "framesSummary (fold countFrame fs noFrames) = kindCounts fs"
proof -
  have le: "kindCount fs l < 65536" for l
    unfolding kindCount_def by (rule le_less_trans [OF length_filter_le assms])
  have u: "unat (of_nat (kindCount fs l) :: u4) = kindCount fs l" for l
    using le [of l] by (simp add: unat_of_nat take_bit_eq_mod)
  have z: "counters noFrames = map (\<lambda>l. (l, 0)) frameKinds" by (simp add: counters_def noFrames_def frameKinds_def)
  have "framesSummary c = map (\<lambda>(l, n). l @ ''='' @ natToString (unat n)) (filter (\<lambda>(l, n). n > 0) (counters c))" for c
    by (simp add: framesSummary_def counters_def)
  moreover have "(of_nat (kindCount fs l) > (0 :: u4)) = (kindCount fs l > 0)" for l using u [of l] by (simp add: word_less_nat_alt)
  ultimately show ?thesis by (simp add: counters_fold z filter_map o_def kindCounts_def u)
qed

lemma kindCounts_empty: "fs \<noteq> [] \<Longrightarrow> kindCounts fs \<noteq> []"
proof -
  assume "fs \<noteq> []"
  then obtain f where f: "f \<in> set fs" by fastforce
  have "frameKind f \<in> set frameKinds" by (cases f) (simp_all add: frameKinds_def)
  moreover have "kindCount fs (frameKind f) > 0" using f by (auto simp: kindCount_def filter_empty_conv)
  ultimately show ?thesis unfolding kindCounts_def by (metis filter_empty_conv map_is_Nil_conv)
qed

lemma newVectorReader_at: "length bs < 2 ^ 31 \<Longrightarrow> vrAt (newVectorReader host host bs) bs"
  by (simp add: newVectorReader_def vrAt_def)

lemma vreads_attribute:
  assumes "vreads m (attrInfo a) s" "length (attrInfo a) < 2 ^ 31" "getString cp (attrNameIndex a) False = Inr name"
    and "toStringFunc cp a (getTag name) = Some (heading, runProg m)"
  shows "attributeToString host host cp a = Some (Inr (''Attr - '' @ heading @ s))"
proof -
  from vreadsE [OF assms(1), of "newVectorReader host host (attrInfo a)" "[]"] newVectorReader_at [OF assms(2)]
  obtain v where "m (newVectorReader host host (attrInfo a)) = (Inr s, v)" by auto
  with assms(3,4) show ?thesis by (simp add: attributeToString_def getType_def runProg_def)
qed

text \<open>(C34)
  The text of a \<^verbatim>\<open>StackMapTable\<close> attribute whose body encodes well-formed frames of all seven
  kinds: the number of frames, and for each kind that occurs the number of its frames, in the
  order of the kinds.  No frame is taken for another and none is left over.
\<close>

theorem stackMapTable_counts:
  assumes "getString cp (attrNameIndex a) False = Inr ''StackMapTable''" "\<forall>f\<in>set fs. wfFrame f" "fs \<noteq> []" "length fs < 65536"
    and "attrInfo a = encU2 (of_nat (length fs)) @ concat (map encFrame fs)" "length (attrInfo a) < 2 ^ 31"
  shows "attributeToString host host cp a =
    Some (Inr (''Attr - StackMapTable frames='' @ natToString (length fs) @ '', ['' @ join (kindCounts fs) '', '' @ '']''))"
proof -
  let ?text = "'' frames='' @ natToString (length fs) @ '', ['' @ join (kindCounts fs) '', '' @ '']''"
  let ?c = "fold countFrame fs noFrames" and ?n = "of_nat (length fs) :: u2"
  have n: "unat ?n = length fs" by (rule unat_count [OF assms(4)])
  have "?n \<noteq> 0" using n assms(3) by (metis length_0_conv unat_0)
  let ?out = "\<lambda>c. if ?n = 0 then '' (no frames)'' else let summaryParts = framesSummary c in
         if summaryParts = [] then '' frames='' @ u2Text ?n else '' frames='' @ u2Text ?n @ '', ['' @ join summaryParts '', '' @ '']''"
  have "?out ?c = ?text" using \<open>?n \<noteq> 0\<close> n kindCounts_empty [OF assms(3)] by (simp add: framesSummary_fold [OF assms(4)] u2Text_def)
  moreover have "vreads (andThen (framesLoop (unat ?n) noFrames) (\<lambda>c. ret (?out c))) (concat (map encFrame fs)) (?out ?c)"
    unfolding n by (rule vreads_andThen_ret [OF framesLoop_enc [OF assms(2)]])
  ultimately have "vreads toStringStackMapTable (attrInfo a) ?text"
    unfolding toStringStackMapTable_def assms(5) by (intro vreads_U2_then) simp
  moreover have "toStringFunc cp a (getTag ''StackMapTable'') = Some (''StackMapTable'', runProg toStringStackMapTable)"
    by (simp add: getTag_def tagsMap_def toStringFunc_def)
  ultimately show ?thesis using vreads_attribute [OF _ assms(6,1), of toStringStackMapTable] by simp
qed

definition sampleFrames :: "stack_map_frame list" where
  "sampleFrames = [SameFrame 5, AppendFrame 253 7 [IntegerVariableInfo, ObjectVariableInfo 9], SameFrame 1, FullFrame 2 [] [TopVariableInfo]]"

theorem stackMapTable_counts_witness:
  "\<exists>cp a. attrInfo a = encU2 4 @ concat (map encFrame sampleFrames) \<and>
     attributeToString False False cp a = Some (Inr ''Attr - StackMapTable frames=4, [same=2, append=1, full=1]'')"
proof -
  let ?cp = "[None, Some (Utf8Info (map charByte ''StackMapTable''))]"
  let ?a = "\<lparr>attrNameIndex = 1, attrLength = 20, attrInfo = encU2 4 @ concat (map encFrame sampleFrames), attrOwner = CodeOwner\<rparr>"
  have "getString ?cp (attrNameIndex ?a) False = Inr ''StackMapTable''"
    by (simp add: getString_def getEntry_def getAsUtf8_def)
  moreover have "\<forall>f\<in>set sampleFrames. wfFrame f" "sampleFrames \<noteq> []" "length sampleFrames < 65536"
    "attrInfo ?a = encU2 (of_nat (length sampleFrames)) @ concat (map encFrame sampleFrames)" "length (attrInfo ?a) < 2 ^ 31"
    by (simp_all add: sampleFrames_def encVerificationTypes_def)
  moreover have "join (kindCounts sampleFrames) '', '' = ''same=2, append=1, full=1''" "natToString (length sampleFrames) = ''4''"
    by code_simp+
  ultimately show ?thesis using stackMapTable_counts [of ?cp ?a sampleFrames False] by (intro exI [of _ ?cp] exI [of _ ?a]) simp
qed

section \<open>Class constants among bootstrap arguments\<close>

text \<open>
  \<open>constantPoolIndexToString\<close> hands the name index of a class record to \<open>formatClassName\<close>, which
  expects the index of the record: in a well-formed pool the text is never defined.
\<close>

lemma class_argument_undefined:
  assumes "wfPool cp" "getEntry cp i = Inr (ClassInfo n)"
  shows "constantPoolIndexToString cp i = Some (Inl Undefined)"
proof -
  have "entryIs isUtf8 cp n" using wfPool_entry [OF assms] by simp
  moreover have "n \<noteq> 0" using wfPool_zero [OF assms(1)] calculation by blast
  moreover have "i \<noteq> 0" using wfPool_zero [OF assms(1), of "\<lambda>_. True"] assms(2) by (auto simp: entryIs_iff)
  ultimately show ?thesis using assms(2)
    by (auto simp: constantPoolIndexToString_def formatClassName_def getClassInfoName_def entry_iffs)
qed

end
