(* ===== verification/Digest.thy ===== *)
theory Digest
  imports Class_File_Parser "HOL-Library.List_Lexorder"
begin

text \<open>
  \<^verbatim>\<open>domain/digest/DigestUtils.h\<close> and \<^verbatim>\<open>ClassFileDigest.cpp\<close>: the digest of the
  public interface of a class.  The hash \<^verbatim>\<open>crypto_hash_sha256\<close> of libsodium is the argument
  \<open>hash\<close>; what is relied on is that it writes 32 bytes.  A \<^verbatim>\<open>std::set\<close> of byte vectors is
  the list of its elements in lexicographic order.
\<close>

section \<open>Digest vectors\<close>

definition DIGEST_LENGTH :: nat where
  "DIGEST_LENGTH = 40"

type_synonym digest_vector = bytes

definition emptyDigestVector :: digest_vector where
  "emptyDigestVector = replicate DIGEST_LENGTH 0"

text \<open>A zeroed vector of \<open>DIGEST_LENGTH\<close> bytes whose front is overwritten by the hash.\<close>

definition digestBytes :: "(bytes \<Rightarrow> bytes) \<Rightarrow> bytes \<Rightarrow> digest_vector" where
  "digestBytes hash bs = hash bs @ drop (length (hash bs)) emptyDigestVector"

definition digestVector :: "(bytes \<Rightarrow> bytes) \<Rightarrow> bytes \<Rightarrow> digest_vector" where
  "digestVector hash buffer = (if buffer = [] then emptyDigestVector else digestBytes hash buffer)"

definition appendU2 :: "u2 \<Rightarrow> bytes" where
  "appendU2 value = [ucast (value AND 0xff), ucast (drop_bit 8 value)]"

definition stdSet :: "digest_vector list \<Rightarrow> digest_vector list" where
  "stdSet ds = sort (remdups ds)"

definition digestSet :: "(bytes \<Rightarrow> bytes) \<Rightarrow> digest_vector list \<Rightarrow> digest_vector" where
  "digestSet hash ds = (let s = stdSet ds; copied = concat s in
     if s = [] then emptyDigestVector
     else digestVector hash (copied @ drop (length copied) (replicate (DIGEST_LENGTH * length s) 0)))"

section \<open>ClassFileDigest\<close>

definition digestUtf8Entry :: "(bytes \<Rightarrow> bytes) \<Rightarrow> constant_pool \<Rightarrow> u2 \<Rightarrow> digest_vector result" where
  "digestUtf8Entry hash cp index = bindR (getEntry cp index) (\<lambda>r. bindR (utf8Info r) (\<lambda>bs. Inr (digestBytes hash bs)))"

definition digestClassInfo :: "(bytes \<Rightarrow> bytes) \<Rightarrow> constant_pool \<Rightarrow> u2 \<Rightarrow> digest_vector result" where
  "digestClassInfo hash cp classInfoIndex = (if classInfoIndex = 0 then Inr emptyDigestVector
     else bindR (getEntry cp classInfoIndex) (\<lambda>r. bindR (classInfo r) (digestUtf8Entry hash cp)))"

definition digestAttribute :: "(bytes \<Rightarrow> bytes) \<Rightarrow> attribute_info \<Rightarrow> digest_vector" where
  "digestAttribute hash a = digestVector hash (attrInfo a)"

fun attributeDigests :: "(bytes \<Rightarrow> bytes) \<Rightarrow> constant_pool \<Rightarrow> attribute_info list \<Rightarrow> digest_vector list result" where
  "attributeDigests hash cp [] = Inr []"
| "attributeDigests hash cp (a # as) = bindR (getString cp (attrNameIndex a) False) (\<lambda>name.
     bindR (attributeDigests hash cp as) (\<lambda>ds.
       Inr (if name = ''Code'' then ds else if attrInfo a \<noteq> [] then digestAttribute hash a # ds else ds)))"

definition digestAttributes :: "(bytes \<Rightarrow> bytes) \<Rightarrow> constant_pool \<Rightarrow> attribute_info list \<Rightarrow> digest_vector result" where
  "digestAttributes hash cp as = bindR (attributeDigests hash cp as) (\<lambda>ds. Inr (digestSet hash ds))"

text \<open>
  \<^verbatim>\<open>append(utf8Info.bytes)\<close>: the member is declared \<^verbatim>\<open>u1 bytes[1]\<close>, so the copied range has
  one element: the first byte of the text, or the terminating zero of an empty text.
\<close>

definition declaredBytes :: "constant_pool \<Rightarrow> u2 \<Rightarrow> bytes result" where
  "declaredBytes cp index = bindR (getEntry cp index) (\<lambda>r. bindR (utf8Info r) (\<lambda>bs. Inr (take 1 (bs @ [0]))))"

definition digestMethod :: "(bytes \<Rightarrow> bytes) \<Rightarrow> constant_pool \<Rightarrow> member_info \<Rightarrow> digest_vector result" where
  "digestMethod hash cp m =
     bindR (digestUtf8Entry hash cp (nameIndex m)) (\<lambda>name.
     bindR (digestAttributes hash cp (memberAttributes m)) (\<lambda>attrs.
     bindR (declaredBytes cp (descriptorIndex m)) (\<lambda>desc.
     Inr (digestVector hash (name @ attrs @ desc @ appendU2 (accessFlags m))))))"

definition digestField :: "(bytes \<Rightarrow> bytes) \<Rightarrow> constant_pool \<Rightarrow> member_info \<Rightarrow> digest_vector result" where
  "digestField hash cp f =
     bindR (digestUtf8Entry hash cp (nameIndex f)) (\<lambda>name.
     bindR (digestAttributes hash cp (memberAttributes f)) (\<lambda>attrs.
     bindR (digestAttributes hash cp (memberAttributes f)) (\<lambda>attrs2.
     bindR (declaredBytes cp (descriptorIndex f)) (\<lambda>desc.
     Inr (digestVector hash (name @ attrs @ attrs2 @ desc @ appendU2 (accessFlags f)))))))"

definition digestInterface :: "(bytes \<Rightarrow> bytes) \<Rightarrow> constant_pool \<Rightarrow> u2 \<Rightarrow> digest_vector result" where
  "digestInterface hash cp interfaceIndex =
     bindR (getEntry cp interfaceIndex) (\<lambda>r. bindR (classInfo r) (\<lambda>n.
     bindR (declaredBytes cp n) (\<lambda>bs. Inr (digestVector hash bs))))"

definition digestPublicMethods :: "(bytes \<Rightarrow> bytes) \<Rightarrow> class_file_parser \<Rightarrow> digest_vector result" where
  "digestPublicMethods hash p =
     bindR (mapR (digestMethod hash (constantPool p)) (filter (\<lambda>m. isPublic (accessFlags m)) (methods p)))
       (\<lambda>ds. Inr (digestSet hash ds))"

definition digestPublicFields :: "(bytes \<Rightarrow> bytes) \<Rightarrow> class_file_parser \<Rightarrow> digest_vector result" where
  "digestPublicFields hash p =
     bindR (mapR (digestField hash (constantPool p)) (filter (\<lambda>f. isPublic (accessFlags f)) (classFields p)))
       (\<lambda>ds. Inr (digestSet hash ds))"

definition digestInterfaces :: "(bytes \<Rightarrow> bytes) \<Rightarrow> class_file_parser \<Rightarrow> digest_vector result" where
  "digestInterfaces hash p =
     bindR (mapR (digestInterface hash (constantPool p)) (interfaces p)) (\<lambda>ds. Inr (digestSet hash ds))"

definition classBuffer :: "(bytes \<Rightarrow> bytes) \<Rightarrow> class_file_parser \<Rightarrow> bytes result" where
  "classBuffer hash p =
     bindR (digestClassInfo hash (constantPool p) (thisClass (mainClassInfo p))) (\<lambda>this.
     bindR (digestClassInfo hash (constantPool p) (superClass (mainClassInfo p))) (\<lambda>super.
     bindR (digestAttributes hash (constantPool p) (attributes p)) (\<lambda>attrs.
     bindR (digestPublicMethods hash p) (\<lambda>ms.
     bindR (digestPublicFields hash p) (\<lambda>fs.
     bindR (digestInterfaces hash p) (\<lambda>ifs.
     Inr (this @ super @ attrs @ ms @ fs @ ifs @ appendU2 (classAccessFlags (mainClassInfo p)))))))))"

definition digest :: "(bytes \<Rightarrow> bytes) \<Rightarrow> class_file_parser \<Rightarrow> digest_vector result" where
  "digest hash p = bindR (classBuffer hash p) (\<lambda>buffer. Inr (take DIGEST_LENGTH (digestBytes hash buffer)))"

section \<open>What the hash promises\<close>

definition hash32 :: "(bytes \<Rightarrow> bytes) \<Rightarrow> bool" where
  "hash32 hash \<longleftrightarrow> (\<forall>m. length (hash m) = 32)"

lemma digestBytes_split: "hash32 hash \<Longrightarrow> digestBytes hash m = hash m @ replicate 8 0"
  by (simp add: digestBytes_def emptyDigestVector_def DIGEST_LENGTH_def hash32_def)

lemma length_digestVector: "hash32 hash \<Longrightarrow> length (digestVector hash m) = 40"
  by (simp add: digestVector_def digestBytes_split emptyDigestVector_def DIGEST_LENGTH_def)
    (simp add: hash32_def)

lemma length_digestSet: "hash32 hash \<Longrightarrow> length (digestSet hash ds) = 40"
  by (simp add: digestSet_def Let_def length_digestVector emptyDigestVector_def DIGEST_LENGTH_def)

lemma digest_value:
  "hash32 hash \<Longrightarrow> digest hash p = Inr d \<longleftrightarrow> (\<exists>b. classBuffer hash p = Inr b \<and> d = hash b @ replicate 8 0)"
  by (auto simp: digest_def bindR_Inr_iff digestBytes_split DIGEST_LENGTH_def hash32_def)

lemma length_digestClassInfo: "hash32 hash \<Longrightarrow> digestClassInfo hash cp i = Inr d \<Longrightarrow> length d = 40"
  by (auto simp: digestClassInfo_def digestUtf8Entry_def bindR_Inr_iff digestBytes_split emptyDigestVector_def
      DIGEST_LENGTH_def hash32_def split: if_splits)

definition interfaceDigests :: "(bytes \<Rightarrow> bytes) \<Rightarrow> class_file_parser \<Rightarrow> digest_vector result list" where
  "interfaceDigests hash p =
     [digestClassInfo hash (constantPool p) (thisClass (mainClassInfo p)),
      digestClassInfo hash (constantPool p) (superClass (mainClassInfo p)),
      digestAttributes hash (constantPool p) (attributes p),
      digestPublicMethods hash p, digestPublicFields hash p, digestInterfaces hash p]"

lemma mapR_id: "mapR id rs = Inr ds \<longleftrightarrow> rs = map Inr ds"
  by (induction rs arbitrary: ds) (auto simp: bindR_Inr_iff)

lemma bindR_assoc [simp]: "bindR (bindR r f) g = bindR r (\<lambda>x. bindR (f x) g)"
  by (cases r) auto

lemma classBuffer_parts:
  "classBuffer hash p = Inr b \<longleftrightarrow> (\<exists>ds. interfaceDigests hash p = map Inr ds \<and>
     b = concat ds @ appendU2 (classAccessFlags (mainClassInfo p)))"
proof -
  have "classBuffer hash p = bindR (mapR id (interfaceDigests hash p)) (\<lambda>ds.
      Inr (concat ds @ appendU2 (classAccessFlags (mainClassInfo p))))"
    by (simp add: classBuffer_def interfaceDigests_def)
  then show ?thesis by (simp add: bindR_Inr_iff mapR_id) blast
qed

lemma length_parts:
  assumes "hash32 hash" "interfaceDigests hash p = map Inr ds"
  shows "length ds = 6 \<and> (\<forall>d\<in>set ds. length d = 40)"
  using assms length_digestClassInfo [OF assms(1)]
  by (auto simp: interfaceDigests_def digestAttributes_def digestPublicMethods_def digestPublicFields_def
      digestInterfaces_def bindR_Inr_iff length_digestSet map_eq_Cons_conv)

lemma concat_inject:
  assumes "length xs = length ys" "\<forall>x\<in>set xs. length x = k" "\<forall>y\<in>set ys. length y = k" "concat xs @ a = concat ys @ b"
  shows "xs = ys \<and> a = b"
  using assms by (induction xs ys rule: list_induct2) auto

lemma appendU2_inject [simp]: "appendU2 a = appendU2 b \<longleftrightarrow> a = b"
proof
  assume "appendU2 a = appendU2 b"
  then have lo: "(ucast (a AND 0xff) :: u1) = ucast (b AND 0xff)" and hi: "(ucast (drop_bit 8 a) :: u1) = ucast (drop_bit 8 b)"
    by (simp_all add: appendU2_def)
  have m: "(0xff :: u2) = mask 8" by (simp add: mask_eq_exp_minus_1)
  show "a = b"
  proof (rule bit_word_eqI)
    fix n assume "n < LENGTH(16)"
    then show "bit a n = bit b n"
      using arg_cong [OF lo, of "\<lambda>w. bit w n"] arg_cong [OF hi, of "\<lambda>w. bit w (n - 8)"]
      by (cases "n < 8") (auto simp: m bit_simps)
  qed
qed simp

text \<open>(C7) The digest of a class tells its parts apart, up to collisions of the hash.  The parts are the access
  flags and the six digests the code takes: of the names of the class and its superclass, of the class
  attributes, the public methods, the public fields and the interfaces.  Two classes that differ in a part
  have different digests, provided the hash does not collide on the two strings that are hashed last.
  What of a method or field enters its part is not stated here; a descriptor enters with its first byte
  only.\<close>

theorem digest_detects_change:
  assumes "hash32 hash" "classBuffer hash p = Inr b" "classBuffer hash q = Inr c" "hash b = hash c \<Longrightarrow> b = c"
    "interfaceDigests hash p \<noteq> interfaceDigests hash q \<or> classAccessFlags (mainClassInfo p) \<noteq> classAccessFlags (mainClassInfo q)"
  shows "digest hash p \<noteq> digest hash q"
proof
  assume same: "digest hash p = digest hash q"
  obtain ds where ds: "interfaceDigests hash p = map Inr ds" "b = concat ds @ appendU2 (classAccessFlags (mainClassInfo p))"
    using assms(2) unfolding classBuffer_parts by blast
  obtain es where es: "interfaceDigests hash q = map Inr es" "c = concat es @ appendU2 (classAccessFlags (mainClassInfo q))"
    using assms(3) unfolding classBuffer_parts by blast
  have lens: "length ds = length es" "\<forall>d\<in>set ds. length d = 40" "\<forall>d\<in>set es. length d = 40"
    using length_parts [OF assms(1) ds(1)] length_parts [OF assms(1) es(1)] by simp_all
  have "digest hash p = Inr (hash b @ replicate 8 0)" "digest hash q = Inr (hash c @ replicate 8 0)"
    using assms(2,3) unfolding digest_value [OF assms(1)] by auto
  then have "hash b = hash c" using same by simp
  then have "b = c" by (rule assms(4))
  then have "ds = es \<and> appendU2 (classAccessFlags (mainClassInfo p)) = appendU2 (classAccessFlags (mainClassInfo q))"
    using ds(2) es(2) lens by (intro concat_inject [where k = 40]) simp_all
  then show False using assms(5) ds es by simp
qed

definition paddedHash :: "bytes \<Rightarrow> bytes" where
  "paddedHash m = take 32 (m @ replicate 32 0)"

definition tinyClass :: "class_file_parser" where
  "tinyClass = (newParser (initialReader True (Memory [] 0) 0) [] [])
     \<lparr>constantPool := [None, Some (Utf8Info [65]), Some (ClassInfo 1), Some (Utf8Info [40, 73]), Some (Utf8Info [40, 74])],
       mainClassInfo := \<lparr>classAccessFlags = 1, thisClass = 2, superClass = 0\<rparr>,
       methods := [\<lparr>accessFlags = 1, nameIndex = 1, descriptorIndex = 3, memberAttributes = []\<rparr>]\<rparr>"

lemma paddedHash_32: "hash32 paddedHash"
  by (simp add: hash32_def paddedHash_def min_def)

lemma tinyClass_buffer: "\<exists>b. classBuffer hash tinyClass = Inr b"
  by (simp add: classBuffer_def tinyClass_def newParser_def digestClassInfo_def digestUtf8Entry_def getEntry_def
      digestAttributes_def digestPublicMethods_def digestPublicFields_def digestInterfaces_def digestMethod_def
      declaredBytes_def)

text \<open>A class and the same class made final, under a hash that looks at the end of its argument.\<close>

definition finalClass :: class_file_parser where
  "finalClass = tinyClass\<lparr>mainClassInfo := \<lparr>classAccessFlags = 0x11, thisClass = 2, superClass = 0\<rparr>\<rparr>"

definition endHash :: "bytes \<Rightarrow> bytes" where
  "endHash m = take 32 (rev m @ replicate 32 0)"

theorem digest_detects_change_witness: "digest endHash tinyClass \<noteq> digest endHash finalClass"
proof -
  obtain ds where ds: "interfaceDigests endHash tinyClass = map Inr ds"
    using tinyClass_buffer [of endHash] unfolding classBuffer_parts by blast
  have "interfaceDigests endHash finalClass = interfaceDigests endHash tinyClass"
    by (simp add: interfaceDigests_def finalClass_def tinyClass_def digestClassInfo_def digestAttributes_def digestPublicMethods_def
        digestPublicFields_def digestInterfaces_def)
  then have bufs: "classBuffer endHash tinyClass = Inr (concat ds @ appendU2 1)" "classBuffer endHash finalClass = Inr (concat ds @ appendU2 0x11)"
    using ds by (auto simp: classBuffer_parts tinyClass_def finalClass_def)
  have "hash32 endHash" by (simp add: hash32_def endHash_def min_def)
  moreover have "endHash (concat ds @ appendU2 1) \<noteq> endHash (concat ds @ appendU2 0x11)"
    by (simp add: endHash_def appendU2_def take_Cons')
  moreover have "classAccessFlags (mainClassInfo tinyClass) \<noteq> classAccessFlags (mainClassInfo finalClass)" by (simp add: tinyClass_def finalClass_def)
  ultimately show ?thesis by (intro digest_detects_change [OF _ bufs]) simp_all
qed

section \<open>What the digest depends on\<close>

lemma stdSet_eq: "set xs = set ys \<Longrightarrow> stdSet xs = stdSet ys"
  unfolding stdSet_def by (metis sorted_list_of_set_sort_remdups)

lemma digestSet_eq: "set xs = set ys \<Longrightarrow> digestSet hash xs = digestSet hash ys"
  using stdSet_eq [of xs ys] by (simp only: digestSet_def)

lemma map_injective_Inr: "map Inr ds = map Inr es \<Longrightarrow> ds = es"
  by (auto simp: inj_map_eq_map)

lemma mapR_image: "mapR f xs = Inr ys \<Longrightarrow> (\<forall>x\<in>set xs. isOk (f x)) \<and> set ys = {y. \<exists>x\<in>set xs. f x = Inr y}"
proof (induction xs arbitrary: ys)
  case (Cons x xs)
  then obtain y zs where yz: "f x = Inr y" "mapR f xs = Inr zs" "ys = y # zs" by (auto simp: bindR_Inr_iff)
  with Cons.IH [OF yz(2)] show ?case by auto
qed simp

lemma mapR_Inr: "\<forall>x\<in>set xs. isOk (f x) \<Longrightarrow> \<exists>ys. mapR f xs = Inr ys"
  by (induction xs) (auto simp: isOk_iff)

lemma mapR_set:
  assumes "mapR f xs = Inr ys" "set xs' = set xs"
  shows "\<exists>ys'. mapR f xs' = Inr ys' \<and> set ys' = set ys"
proof -
  obtain ys' where "mapR f xs' = Inr ys'" using mapR_image [OF assms(1)] mapR_Inr [of xs' f] assms(2) by auto
  with mapR_image [OF this] mapR_image [OF assms(1)] assms(2) show ?thesis by auto
qed

lemma set_digest:
  assumes "bindR (mapR f xs) (\<lambda>ds. Inr (digestSet hash ds)) = Inr e" "set ys = set xs"
  shows "bindR (mapR f ys) (\<lambda>ds. Inr (digestSet hash ds)) = Inr e"
proof -
  obtain zs where zs: "mapR f xs = Inr zs" "e = digestSet hash zs" using assms(1) by (auto simp: bindR_Inr_iff)
  obtain zs' where "mapR f ys = Inr zs'" "set zs' = set zs" using mapR_set [OF zs(1) assms(2)] by blast
  then show ?thesis using zs digestSet_eq [of zs' zs] by simp
qed

definition digested :: "constant_pool \<Rightarrow> attribute_info \<Rightarrow> bool" where
  "digested cp a \<longleftrightarrow> getString cp (attrNameIndex a) False \<noteq> Inr ''Code'' \<and> attrInfo a \<noteq> []"

lemma attributeDigests_image:
  "attributeDigests hash cp as = Inr ds \<longleftrightarrow> (\<forall>a\<in>set as. isOk (getString cp (attrNameIndex a) False)) \<and>
     ds = map (digestAttribute hash) (filter (digested cp) as)"
proof (induction as arbitrary: ds)
  case Nil then show ?case by auto
next
  case (Cons a as)
  show ?case
  proof (cases "getString cp (attrNameIndex a) False")
    case (Inl e) then show ?thesis by simp
  next
    case (Inr name)
    have "attributeDigests hash cp (a # as) = Inr ds \<longleftrightarrow> (\<exists>es. attributeDigests hash cp as = Inr es \<and>
        ds = (if digested cp a then digestAttribute hash a # es else es))"
      using Inr by (cases "attributeDigests hash cp as") (auto simp: digested_def)
    also have "\<dots> \<longleftrightarrow> (\<forall>b\<in>set as. isOk (getString cp (attrNameIndex b) False)) \<and>
        ds = map (digestAttribute hash) (filter (digested cp) (a # as))"
      unfolding Cons.IH by simp
    finally show ?thesis using Inr by simp
  qed
qed

text \<open>Two members that differ only in attributes that are not digested.\<close>

lemma digestAttributes_eq:
  assumes "digestAttributes hash cp as = Inr d" "\<forall>a\<in>set bs. isOk (getString cp (attrNameIndex a) False)"
    "set (filter (digested cp) bs) = set (filter (digested cp) as)"
  shows "digestAttributes hash cp bs = Inr d"
proof -
  obtain ds where ds: "attributeDigests hash cp as = Inr ds" "d = digestSet hash ds"
    using assms(1) by (auto simp: digestAttributes_def bindR_Inr_iff)
  have "attributeDigests hash cp bs = Inr (map (digestAttribute hash) (filter (digested cp) bs))"
    using assms(2) by (simp add: attributeDigests_image)
  moreover have "digestSet hash (map (digestAttribute hash) (filter (digested cp) bs)) = d"
    using ds assms(3) unfolding attributeDigests_image by (auto intro!: digestSet_eq)
  ultimately show ?thesis by (simp add: digestAttributes_def)
qed

text \<open>(C8) Only the public interface counts: reordering or repeating interfaces, attributes, methods
  or fields, and adding or removing members that are not public, leaves the digest as it is.\<close>

theorem digest_public_interface_only:
  assumes "digest hash p = Inr d"
    "constantPool q = constantPool p" "mainClassInfo q = mainClassInfo p" "set (interfaces q) = set (interfaces p)"
    "set (attributes q) = set (attributes p)"
    "set (filter (\<lambda>m. isPublic (accessFlags m)) (methods q)) = set (filter (\<lambda>m. isPublic (accessFlags m)) (methods p))"
    "set (filter (\<lambda>f. isPublic (accessFlags f)) (classFields q)) = set (filter (\<lambda>f. isPublic (accessFlags f)) (classFields p))"
  shows "digest hash q = Inr d"
proof -
  obtain b where b: "classBuffer hash p = Inr b" "digest hash p = Inr (take DIGEST_LENGTH (digestBytes hash b))"
    using assms(1) by (auto simp: digest_def bindR_Inr_iff)
  obtain ds where ds: "interfaceDigests hash p = map Inr ds" using b(1) unfolding classBuffer_parts by blast
  obtain ms fs ifs at where parts: "digestPublicMethods hash p = Inr ms" "digestPublicFields hash p = Inr fs"
      "digestInterfaces hash p = Inr ifs" "digestAttributes hash (constantPool p) (attributes p) = Inr at"
    using ds by (auto simp: interfaceDigests_def map_eq_Cons_conv)
  have "digestPublicMethods hash q = Inr ms"
    using set_digest [OF parts(1) [unfolded digestPublicMethods_def] assms(6)] by (simp add: digestPublicMethods_def assms(2))
  moreover have "digestPublicFields hash q = Inr fs"
    using set_digest [OF parts(2) [unfolded digestPublicFields_def] assms(7)] by (simp add: digestPublicFields_def assms(2))
  moreover have "digestInterfaces hash q = Inr ifs"
    using set_digest [OF parts(3) [unfolded digestInterfaces_def] assms(4)] by (simp add: digestInterfaces_def assms(2))
  moreover have "digestAttributes hash (constantPool p) (attributes q) = Inr at"
  proof (rule digestAttributes_eq [OF parts(4)])
    obtain es where "attributeDigests hash (constantPool p) (attributes p) = Inr es"
      using parts(4) by (auto simp: digestAttributes_def bindR_Inr_iff)
    then show "\<forall>a\<in>set (attributes q). isOk (getString (constantPool p) (attrNameIndex a) False)"
      using assms(5) unfolding attributeDigests_image by simp
    show "set (filter (digested (constantPool p)) (attributes q)) = set (filter (digested (constantPool p)) (attributes p))"
      using assms(5) by auto
  qed
  ultimately have "interfaceDigests hash q = map Inr ds"
    using ds parts assms(2,3) by (simp add: interfaceDigests_def)
  then have "classBuffer hash q = Inr b" using b(1) ds assms(3) unfolding classBuffer_parts by (metis map_injective_Inr)
  then show ?thesis using b assms(1) by (simp add: digest_def)
qed

lemma tinyClass_digest: "\<exists>d. digest hash tinyClass = Inr d"
  using tinyClass_buffer [of hash] by (auto simp: digest_def)

theorem digest_public_interface_only_witness:
  "\<exists>d. digest paddedHash tinyClass = Inr d \<and> digest paddedHash (tinyClass\<lparr>methods := methods tinyClass @
      \<lparr>accessFlags = 2, nameIndex = 1, descriptorIndex = 3, memberAttributes = []\<rparr> # methods tinyClass\<rparr>) = Inr d"
proof -
  obtain d where d: "digest paddedHash tinyClass = Inr d" using tinyClass_digest by blast
  let ?q = "tinyClass\<lparr>methods := methods tinyClass @
      \<lparr>accessFlags = 2, nameIndex = 1, descriptorIndex = 3, memberAttributes = []\<rparr> # methods tinyClass\<rparr>"
  have "digest paddedHash ?q = Inr d"
    by (rule digest_public_interface_only [OF d]) (simp_all add: bit_0)
  with d show ?thesis by blast
qed

lemma digestMember_attributes:
  assumes "\<forall>a\<in>set (memberAttributes m). isOk (getString cp (attrNameIndex a) False)"
  shows "digestAttributes hash cp (filter (digested cp) (memberAttributes m)) = digestAttributes hash cp (memberAttributes m)"
proof -
  obtain ds where "attributeDigests hash cp (memberAttributes m) = Inr ds"
    using assms by (simp add: attributeDigests_image)
  then obtain d where d: "digestAttributes hash cp (memberAttributes m) = Inr d" by (simp add: digestAttributes_def)
  have "digestAttributes hash cp (filter (digested cp) (memberAttributes m)) = Inr d"
    using assms by (intro digestAttributes_eq [OF d]) auto
  with d show ?thesis by simp
qed

text \<open>The body of a method does not count: removing its \<open>Code\<close> attribute, and every empty
  attribute, leaves the digest of the method as it is.\<close>

lemma digestMethod_ignores_code:
  assumes "\<forall>a\<in>set (memberAttributes m). isOk (getString cp (attrNameIndex a) False)"
  shows "digestMethod hash cp (m\<lparr>memberAttributes := filter (\<lambda>a. getString cp (attrNameIndex a) False \<noteq> Inr ''Code'' \<and>
     attrInfo a \<noteq> []) (memberAttributes m)\<rparr>) = digestMethod hash cp m"
proof -
  have "digested cp = (\<lambda>a. getString cp (attrNameIndex a) False \<noteq> Inr ''Code'' \<and> attrInfo a \<noteq> [])"
    by (rule ext) (simp add: digested_def)
  then show ?thesis using digestMember_attributes [OF assms, of hash] by (simp add: digestMethod_def)
qed

lemma digestMethod_ignores_code_witness:
  "digestMethod paddedHash [None, Some (Utf8Info (map charByte ''Code'')), Some (Utf8Info [40])]
     \<lparr>accessFlags = 1, nameIndex = 2, descriptorIndex = 2, memberAttributes = []\<rparr> =
   digestMethod paddedHash [None, Some (Utf8Info (map charByte ''Code'')), Some (Utf8Info [40])]
     \<lparr>accessFlags = 1, nameIndex = 2, descriptorIndex = 2,
       memberAttributes = [\<lparr>attrNameIndex = 1, attrLength = 1, attrInfo = [7], attrOwner = MethodOwner\<rparr>]\<rparr>"
proof -
  let ?cp = "[None, Some (Utf8Info (map charByte ''Code'')), Some (Utf8Info [40])]"
  let ?m = "\<lparr>accessFlags = 1, nameIndex = 2, descriptorIndex = 2,
       memberAttributes = [\<lparr>attrNameIndex = 1, attrLength = 1, attrInfo = [7], attrOwner = MethodOwner\<rparr>]\<rparr>"
  have name: "getString ?cp 1 False = Inr ''Code''" by (simp add: getString_def getEntry_def getAsUtf8_def)
  then have "\<forall>a\<in>set (memberAttributes ?m). isOk (getString ?cp (attrNameIndex a) False)" by simp
  from digestMethod_ignores_code [OF this, of paddedHash] name show ?thesis by simp
qed

text \<open>The descriptor of a method does not count either: every method descriptor starts with an
  opening parenthesis, and only that first byte enters the digest, so changing the parameter
  or return types of a public method leaves its digest as it is.\<close>

lemma digestMethod_ignores_descriptor:
  assumes "getEntry cp i = Inr (Utf8Info (b # bs))" "getEntry cp j = Inr (Utf8Info (b # cs))"
  shows "digestMethod hash cp (m\<lparr>descriptorIndex := i\<rparr>) = digestMethod hash cp (m\<lparr>descriptorIndex := j\<rparr>)"
  using assms by (simp add: digestMethod_def declaredBytes_def)

lemma digestMethod_ignores_descriptor_witness:
  "digestMethod paddedHash (constantPool tinyClass) ((hd (methods tinyClass))\<lparr>descriptorIndex := 3\<rparr>) =
   digestMethod paddedHash (constantPool tinyClass) ((hd (methods tinyClass))\<lparr>descriptorIndex := 4\<rparr>)"
  by (rule digestMethod_ignores_descriptor [where b = 40 and bs = "[73]" and cs = "[74]"])
    (simp_all add: tinyClass_def getEntry_def)

text \<open>The digest column has 40 bytes although the hash has 32: the last eight are always zero.\<close>

lemma digest_length:
  assumes "hash32 hash" "digest hash p = Inr d"
  shows "length d = 40 \<and> drop 32 d = replicate 8 0"
  using assms unfolding digest_value [OF assms(1)] by (auto simp: hash32_def)

lemma digest_length_witness: "\<exists>d. digest paddedHash tinyClass = Inr d \<and> length d = 40 \<and> drop 32 d = replicate 8 0"
  using digest_length [OF paddedHash_32] tinyClass_digest by blast

end
