(* ===== verification/Db_Columns.thy ===== *)
theory Db_Columns
  imports Prelude
begin

text \<open>
  Column descriptions of the embedded database (\<^verbatim>\<open>infrastructure/db/columns/Columns.{h,cpp}\<close>) and
  the byte layout of the packed structures that are written to table files: integers in little
  endian order, names in zero-padded arrays of \<^verbatim>\<open>MAX_COLUMN_NAME\<close> and \<^verbatim>\<open>MAX_TABLE_NAME\<close>
  characters, enumerations as four bytes.
\<close>

type_synonym u8 = "64 word"

definition MAX_TABLE_NAME :: nat where "MAX_TABLE_NAME = 128"
definition MAX_COLUMN_NAME :: nat where "MAX_COLUMN_NAME = 128"

definition KAPA_TABLE_SIGNATURE :: u8 where "KAPA_TABLE_SIGNATURE = 0xca5ab1a9ca"

section \<open>Column properties\<close>

datatype storage_type = Int32 | UInt32 | UInt64 | Ref | StringType | DigestType

fun StorageTypeToString :: "storage_type \<Rightarrow> string" where
  "StorageTypeToString Int32 = ''signed 32 bits''"
| "StorageTypeToString UInt32 = ''unsigned 32 bits''"
| "StorageTypeToString UInt64 = ''unsigned 64 bits''"
| "StorageTypeToString Ref = ''Ref''"
| "StorageTypeToString StringType = ''String''"
| "StorageTypeToString DigestType = ''Digest''"

datatype display_as =
    AsInt32 | AsUInt32 | AsUInt64 | AsRef | AsString | AsDigest | AsDatetime | AsSize | AsEntryType | AsBool | AsAccessFlags

fun displayAsToString :: "display_as \<Rightarrow> string" where
  "displayAsToString AsInt32 = ''signed 32 bits''"
| "displayAsToString AsUInt32 = ''unsigned 32 bits''"
| "displayAsToString AsUInt64 = ''unsigned 64 bits''"
| "displayAsToString AsRef = ''reference into another table''"
| "displayAsToString AsString = ''String''"
| "displayAsToString AsDigest = ''Digest''"
| "displayAsToString AsDatetime = ''Datetime''"
| "displayAsToString AsSize = ''Size''"
| "displayAsToString AsEntryType = ''EntryType(Classfile, Jar, Directory)''"
| "displayAsToString AsAccessFlags = ''Access Flags/Modifiers''"
| "displayAsToString AsBool = ''bool true/false''"

definition InvalidRef :: u8 where
  "InvalidRef = - 1"

record ref_col_properties =
  refTable :: string
  refDisplayColumn :: string

record properties =
  columnName :: string
  columnType :: storage_type
  displayAs :: display_as
  offsetInRow :: u8
  refColProperties :: ref_col_properties

definition emptyProperties :: properties where
  "emptyProperties =
     \<lparr>columnName = [], columnType = UInt64, displayAs = AsUInt64, offsetInRow = 0,
      refColProperties = \<lparr>refTable = [], refDisplayColumn = []\<rparr>\<rparr>"

text \<open>\<^verbatim>\<open>strcpy\<close> into an array of \<open>n\<close> characters: the terminator has to fit too.\<close>

definition strcpy :: "nat \<Rightarrow> string \<Rightarrow> string result" where
  "strcpy n s = (if length s < n then Inr s else Inl Undefined)"

definition newProperties :: "string \<Rightarrow> storage_type \<Rightarrow> display_as \<Rightarrow> u8 \<Rightarrow> properties result" where
  "newProperties name type display offset =
     bindR (strcpy MAX_COLUMN_NAME name) (\<lambda>n. Inr (emptyProperties
       \<lparr>columnName := n, columnType := type, displayAs := display, offsetInRow := offset\<rparr>))"

definition newRefProperties ::
  "string \<Rightarrow> storage_type \<Rightarrow> display_as \<Rightarrow> u8 \<Rightarrow> string \<Rightarrow> string \<Rightarrow> properties result" where
  "newRefProperties name type display offset table displayColumn =
     bindR (strcpy MAX_COLUMN_NAME name) (\<lambda>n.
     bindR (strcpy MAX_TABLE_NAME table) (\<lambda>t.
     bindR (strcpy MAX_COLUMN_NAME displayColumn) (\<lambda>d.
       Inr \<lparr>columnName = n, columnType = type, displayAs = display, offsetInRow = offset,
            refColProperties = \<lparr>refTable = t, refDisplayColumn = d\<rparr>\<rparr>)))"

section \<open>Byte layout\<close>

primrec leBytes :: "nat \<Rightarrow> nat \<Rightarrow> bytes" where
  "leBytes 0 x = []"
| "leBytes (Suc n) x = of_nat (x mod 256) # leBytes n (x div 256)"

primrec leValue :: "bytes \<Rightarrow> nat" where
  "leValue [] = 0"
| "leValue (b # bs) = unat b + 256 * leValue bs"

definition putU8 :: "u8 \<Rightarrow> bytes" where
  "putU8 w = leBytes 8 (unat w)"

definition getU8 :: "bytes \<Rightarrow> u8" where
  "getU8 bs = of_nat (leValue (take 8 bs))"

definition fixedText :: "nat \<Rightarrow> string \<Rightarrow> bytes" where
  "fixedText n s = map charByte s @ replicate (n - length s) 0"

text \<open>A character array read as a C string; without a terminator the read runs out of the array.\<close>

definition arrayText :: "bytes \<Rightarrow> string result" where
  "arrayText bs = (if 0 \<in> set bs then Inr (map byteChar (takeWhile (\<lambda>b. b \<noteq> 0) bs)) else Inl Undefined)"

definition storageTypes :: "storage_type list" where
  "storageTypes = [Int32, UInt32, UInt64, Ref, StringType, DigestType]"

definition displays :: "display_as list" where
  "displays = [AsInt32, AsUInt32, AsUInt64, AsRef, AsString, AsDigest, AsDatetime, AsSize, AsEntryType, AsBool, AsAccessFlags]"

primrec position :: "'a \<Rightarrow> 'a list \<Rightarrow> nat" where
  "position x [] = 0"
| "position x (y # ys) = (if x = y then 0 else Suc (position x ys))"

text \<open>An enumerator is stored as its position; a number outside the enumeration is no value of it.\<close>

definition enumValue :: "'a list \<Rightarrow> bytes \<Rightarrow> 'a result" where
  "enumValue vs bs = (let n = leValue bs in if n < length vs then Inr (vs ! n) else Inl Undefined)"

definition putProperties :: "properties \<Rightarrow> bytes" where
  "putProperties p =
     fixedText MAX_COLUMN_NAME (columnName p) @ leBytes 4 (position (columnType p) storageTypes) @
     leBytes 4 (position (displayAs p) displays) @ putU8 (offsetInRow p) @
     fixedText MAX_TABLE_NAME (refTable (refColProperties p)) @
     fixedText MAX_COLUMN_NAME (refDisplayColumn (refColProperties p))"

definition propertiesSize :: nat where
  "propertiesSize = 400"

definition getProperties :: "bytes \<Rightarrow> properties result" where
  "getProperties bs =
     bindR (arrayText (take 128 bs)) (\<lambda>name.
     bindR (enumValue storageTypes (take 4 (drop 128 bs))) (\<lambda>type.
     bindR (enumValue displays (take 4 (drop 132 bs))) (\<lambda>display.
     bindR (arrayText (take 128 (drop 144 bs))) (\<lambda>table.
     bindR (arrayText (take 128 (drop 272 bs))) (\<lambda>column.
       Inr \<lparr>columnName = name, columnType = type, displayAs = display, offsetInRow = getU8 (drop 136 bs),
            refColProperties = \<lparr>refTable = table, refDisplayColumn = column\<rparr>\<rparr>)))))"

section \<open>The layout is read back\<close>

lemma length_leBytes [simp]: "length (leBytes n x) = n"
  by (induction n arbitrary: x) auto

lemma leValue_leBytes: "leValue (leBytes n x) = x mod 256 ^ n"
proof (induction n arbitrary: x)
  case (Suc n)
  have "unat (of_nat (x mod 256) :: u1) = x mod 256"
    by (simp add: unat_of_nat take_bit_eq_mod)
  then show ?case using Suc by (simp add: mod_mult2_eq)
qed simp

lemma length_putU8 [simp]: "length (putU8 w) = 8"
  by (simp add: putU8_def)

lemma getU8_putU8 [simp]: "getU8 (putU8 w @ bs) = w"
proof -
  have "unat w < 256 ^ 8" using unsigned_less [of w] by simp
  then show ?thesis by (simp add: getU8_def putU8_def leValue_leBytes)
qed

lemma length_fixedText [simp]: "length s \<le> n \<Longrightarrow> length (fixedText n s) = n"
  by (simp add: fixedText_def)

lemma charByte_0 [simp]: "charByte c = 0 \<longleftrightarrow> c = CHR 0x00"
  using charByte_eq_iff [of c "CHR 0x00"] by (simp add: charByte_def)

lemma arrayText_fixedText:
  assumes "length s < n" "CHR 0x00 \<notin> set s"
  shows "arrayText (fixedText n s) = Inr s"
proof -
  obtain k where k: "n - length s = Suc k" using assms(1) by (metis Suc_diff_Suc)
  have "takeWhile (\<lambda>b. b \<noteq> 0) (map charByte s @ 0 # xs) = map charByte s" for xs
    using assms(2) by (subst takeWhile_append2) auto
  with k show ?thesis by (simp add: arrayText_def fixedText_def comp_def)
qed

lemma position_less: "x \<in> set vs \<Longrightarrow> position x vs < length vs"
  by (induction vs) auto

lemma nth_position: "x \<in> set vs \<Longrightarrow> vs ! position x vs = x"
  by (induction vs) auto

lemma enumValue_position:
  assumes "x \<in> set vs" "length vs \<le> 256"
  shows "enumValue vs (leBytes 4 (position x vs)) = Inr x"
proof -
  have "position x vs < 256 ^ 4" using position_less [OF assms(1)] assms(2) by simp
  with assms show ?thesis by (simp add: enumValue_def leValue_leBytes Let_def position_less nth_position)
qed

lemma storageTypes_all [simp]: "t \<in> set storageTypes" "length storageTypes = 6"
  by (cases t) (simp_all add: storageTypes_def)

lemma displays_all [simp]: "d \<in> set displays" "length displays = 11"
  by (cases d) (simp_all add: displays_def)

definition propertiesOk :: "properties \<Rightarrow> bool" where
  "propertiesOk p \<longleftrightarrow> (\<forall>s\<in>{columnName p, refTable (refColProperties p), refDisplayColumn (refColProperties p)}.
     length s < 128 \<and> CHR 0x00 \<notin> set s)"

lemma length_putProperties [simp]: "propertiesOk p \<Longrightarrow> length (putProperties p) = propertiesSize"
  by (simp add: putProperties_def propertiesOk_def MAX_COLUMN_NAME_def MAX_TABLE_NAME_def propertiesSize_def)

lemma getProperties_putProperties:
  assumes "propertiesOk p" shows "getProperties (putProperties p) = Inr p"
proof -
  let ?n = "fixedText 128 (columnName p)" and ?t = "fixedText 128 (refTable (refColProperties p))"
    and ?d = "fixedText 128 (refDisplayColumn (refColProperties p))"
  have len: "length ?n = 128" "length ?t = 128" "length ?d = 128" using assms by (auto simp: propertiesOk_def)
  have texts: "arrayText ?n = Inr (columnName p)" "arrayText ?t = Inr (refTable (refColProperties p))"
    "arrayText ?d = Inr (refDisplayColumn (refColProperties p))"
    using assms by (auto simp: propertiesOk_def intro!: arrayText_fixedText)
  show ?thesis
    by (simp add: getProperties_def putProperties_def MAX_COLUMN_NAME_def MAX_TABLE_NAME_def len texts
        enumValue_position)
qed

end
