(* ===== verification/String_Pool.thy ===== *)
theory String_Pool
  imports Prelude
begin

text \<open>
  The string pool of the embedded database (\<^verbatim>\<open>infrastructure/db/StringPool.cpp\<close>): every text a
  table row refers to is stored once, followed by a zero byte, and a row holds its offset.
  The buffer \<^verbatim>\<open>_pool\<close> is modelled by the \<^verbatim>\<open>_position\<close> characters written so far together with
  the identity of the block that holds them; the keys of \<^verbatim>\<open>_hash\<close> are views into that block, so
  a key that outlives its block cannot be read.  \<^verbatim>\<open>malloc\<close> and \<^verbatim>\<open>realloc\<close> succeed; the block they
  return is an argument.  The file system maps names to contents.
\<close>

type_synonym file_system = "string \<rightharpoonup> bytes"

abbreviation NUL :: char where
  "NUL \<equiv> CHR 0x00"

record pool_view =
  viewBlock :: nat
  viewOffset :: nat
  viewLength :: nat

record string_pool =
  pool :: string
  poolBlock :: nat
  poolHash :: "(pool_view \<times> nat) list"
  poolSize :: nat
  poolFilename :: string
  poolDirty :: bool

definition StartPoolSize :: nat where
  "StartPoolSize = 1024 * 1024 * 500"

section \<open>Views and the hash\<close>

text \<open>The text from an address up to its zero byte; past the written bytes there is none.\<close>

definition cString :: "string \<Rightarrow> nat \<Rightarrow> string result" where
  "cString xs i =
     (if NUL \<in> set (drop i xs) then Inr (takeWhile (\<lambda>c. c \<noteq> NUL) (drop i xs)) else Inl Undefined)"

text \<open>An empty view is never dereferenced; another one needs its block to be alive.\<close>

definition viewText :: "string_pool \<Rightarrow> pool_view \<Rightarrow> string result" where
  "viewText p v =
     (if viewLength v = 0 then Inr []
      else if viewBlock v = poolBlock p then Inr (take (viewLength v) (drop (viewOffset v) (pool p)))
      else Inl Undefined)"

definition hashTexts :: "string_pool \<Rightarrow> (string \<times> nat) list result" where
  "hashTexts p = mapR (\<lambda>e. bindR (viewText p (fst e)) (\<lambda>t. Inr (t, snd e))) (poolHash p)"

text \<open>\<^verbatim>\<open>_hash.find\<close>: the container may hash and compare any of its keys.\<close>

definition hashFind :: "string_pool \<Rightarrow> string \<Rightarrow> nat option result" where
  "hashFind p s = bindR (hashTexts p) (\<lambda>ts. Inr (map_of ts s))"

text \<open>\<^verbatim>\<open>_hash[key] = value\<close>: an equal key keeps its node and gets the new value.\<close>

definition hashAssign :: "string_pool \<Rightarrow> pool_view \<Rightarrow> nat \<Rightarrow> (pool_view \<times> nat) list result" where
  "hashAssign p v i =
     bindR (viewText p v) (\<lambda>t. bindR (hashTexts p) (\<lambda>ts. Inr (
       if map_of ts t = None then poolHash p @ [(v, i)]
       else map (\<lambda>(e, s, j). if s = t then (fst e, i) else e) (zip (poolHash p) ts))))"

section \<open>Operations\<close>

definition reallocPool :: "nat \<Rightarrow> (string_pool, unit) prog" where
  "reallocPool newBlock = modify (\<lambda>p. p\<lparr>poolSize := poolSize p * 2, poolBlock := newBlock\<rparr>)"

text \<open>
  The part of \<^verbatim>\<open>internalAdd\<close> that stores a new text: the check for zero bytes, the copy (which
  writes outside the block when the text and its terminator do not fit), the new key.
\<close>

definition storeText :: "string \<Rightarrow> (string_pool, nat) prog" where
  "storeText s =
     andThen getState (\<lambda>p. let result = length (pool p) in
       if NUL \<in> set s then throw AssertFail
       else if poolSize p \<le> result + length s then throw Undefined
       else andThen (modify (\<lambda>p. p\<lparr>pool := pool p @ s @ [NUL]\<rparr>)) (\<lambda>_.
         andThen getState (\<lambda>p. andThen (liftR (cString (pool p) result)) (\<lambda>key.
           andThen (liftR (hashAssign p \<lparr>viewBlock = poolBlock p, viewOffset = result, viewLength = length key\<rparr> result))
             (\<lambda>h. andThen (modify (\<lambda>p. p\<lparr>poolHash := h, poolDirty := True\<rparr>)) (\<lambda>_. ret result))))))"

definition internalAddString :: "nat \<Rightarrow> string \<Rightarrow> (string_pool, nat) prog" where
  "internalAddString newBlock s =
     andThen getState (\<lambda>p. andThen (liftR (hashFind p s)) (\<lambda>found.
       case found of
         Some i \<Rightarrow> ret i
       | None \<Rightarrow> andThen (if poolSize p \<le> length s + length (pool p) then reallocPool newBlock else ret ())
           (\<lambda>_. storeText s)))"

definition addString :: "nat \<Rightarrow> string \<Rightarrow> (string_pool, nat) prog" where
  "addString newBlock s = internalAddString newBlock s"

definition emptyPool :: "string \<Rightarrow> nat \<Rightarrow> string_pool" where
  "emptyPool filename block =
     \<lparr>pool = [], poolBlock = block, poolHash = [], poolSize = StartPoolSize,
      poolFilename = filename, poolDirty = False\<rparr>"

definition StringPool :: "string \<Rightarrow> nat \<Rightarrow> string_pool" where
  "StringPool filename block = snd (addString block [] (emptyPool filename block))"

text \<open>\<^verbatim>\<open>getCString\<close> returns an address; the model returns the text found there.\<close>

definition getCString :: "string_pool \<Rightarrow> nat \<Rightarrow> string result" where
  "getCString p i = cString (pool p) i"

function rehash :: "string_pool \<Rightarrow> nat \<Rightarrow> string_pool result" where
  "rehash p current =
     (if current < length (pool p) then
        (case cString (pool p) current of
           Inl e \<Rightarrow> Inl e
         | Inr text \<Rightarrow>
            (case hashAssign p \<lparr>viewBlock = poolBlock p, viewOffset = current, viewLength = length text\<rparr> current of
               Inl e \<Rightarrow> Inl e
             | Inr h \<Rightarrow> rehash (p\<lparr>poolHash := h\<rparr>) (current + length text + 1)))
      else Inr p)"
  by pat_completeness auto
termination by (relation "measure (\<lambda>(p, current). length (pool p) - current)") auto

declare rehash.simps [simp del]

text \<open>
  \<^verbatim>\<open>read\<close>: the file replaces the buffer's contents, then the texts found there are entered into
  the hash.  The old keys stay in the map while the bytes they view are overwritten, which is
  undefined unless each of them still reads the same text.
\<close>

definition readPool :: "file_system \<Rightarrow> nat \<Rightarrow> string_pool \<Rightarrow> string_pool result" where
  "readPool fs newBlock p =
     (case fs (poolFilename p) of
        None \<Rightarrow> Inr p
      | Some content \<Rightarrow>
          let p1 = (if poolSize p < length content then p\<lparr>poolSize := length content, poolBlock := newBlock\<rparr> else p);
              p2 = p1\<lparr>pool := map byteChar content\<rparr>
          in if hashTexts p2 \<noteq> hashTexts p then Inl Undefined
             else bindR (rehash p2 0) (\<lambda>p3. Inr (p3\<lparr>poolDirty := False\<rparr>)))"

definition writePool :: "string_pool \<Rightarrow> file_system \<Rightarrow> file_system" where
  "writePool p fs = (if \<not> poolDirty p then fs else fs(poolFilename p \<mapsto> map charByte (pool p)))"

definition backupPrevFile :: "string \<Rightarrow> file_system \<Rightarrow> file_system" where
  "backupPrevFile filename fs =
     (case fs filename of None \<Rightarrow> fs | Some content \<Rightarrow> (fs(filename @ ''.prev'' \<mapsto> content))(filename := None))"

definition cleanPool :: "string_pool \<Rightarrow> file_system \<Rightarrow> file_system" where
  "cleanPool p fs = fs(poolFilename p := None)"

definition backupPool :: "string_pool \<Rightarrow> file_system \<Rightarrow> file_system" where
  "backupPool p fs = backupPrevFile (poolFilename p) fs"

section \<open>The abstract pool: a list of distinct texts\<close>

definition poolImage :: "string list \<Rightarrow> string" where
  "poolImage ts = concat (map (\<lambda>t. t @ [NUL]) ts)"

primrec entries :: "string list \<Rightarrow> nat \<Rightarrow> (string \<times> nat) list" where
  "entries [] b = []"
| "entries (t # ts) b = (t, b) # entries ts (b + length t + 1)"

definition poolRep :: "string_pool \<Rightarrow> string list \<Rightarrow> bool" where
  "poolRep p ts \<longleftrightarrow>
     pool p = poolImage ts \<and> hashTexts p = Inr (entries ts 0) \<and> distinct ts \<and> (\<forall>t\<in>set ts. NUL \<notin> set t) \<and>
     length (pool p) \<le> poolSize p \<and>
     (\<forall>e\<in>set (poolHash p). viewOffset (fst e) + viewLength (fst e) \<le> length (pool p))"

definition poolIndex :: "string list \<Rightarrow> string \<Rightarrow> nat option" where
  "poolIndex ts s = map_of (entries ts 0) s"

lemma poolImage_simps [simp]:
  "poolImage [] = []" "poolImage (t # ts) = t @ NUL # poolImage ts" "poolImage (ts @ us) = poolImage ts @ poolImage us"
  by (simp_all add: poolImage_def)

lemma entries_append: "entries (ts @ us) b = entries ts b @ entries us (b + length (poolImage ts))"
  by (induction ts arbitrary: b) (simp_all add: algebra_simps)

lemma fst_entries [simp]: "map fst (entries ts b) = ts"
  by (induction ts arbitrary: b) auto

lemma dom_entries: "map_of (entries ts b) s = None \<longleftrightarrow> s \<notin> set ts"
  by (metis fst_entries map_of_eq_None_iff set_map)

lemma entries_ge: "(t, i) \<in> set (entries ts b) \<Longrightarrow> b \<le> i"
proof (induction ts arbitrary: b)
  case (Cons u ts)
  then have "(t, i) = (u, b) \<or> (t, i) \<in> set (entries ts (b + length u + 1))" by simp
  with Cons.IH [of "b + length u + 1"] show ?case by auto
qed simp

lemma cString_skip: "cString (xs @ ys) (length xs + k) = cString ys k"
  by (simp add: cString_def)

lemma cString_entries:
  assumes "(t, i) \<in> set (entries ts b)" "\<forall>u\<in>set ts. NUL \<notin> set u"
  shows "cString (poolImage ts) (i - b) = Inr t"
  using assms
proof (induction ts arbitrary: b)
  case (Cons u ts)
  show ?case
  proof (cases "(t, i) = (u, b)")
    case True with Cons.prems show ?thesis by (auto simp: cString_def takeWhile_append)
  next
    case False
    let ?b = "b + length u + 1"
    from False Cons.prems have mem: "(t, i) \<in> set (entries ts ?b)" by auto
    then have "i - b = length (u @ [NUL]) + (i - ?b)" using entries_ge [OF mem] by simp
    moreover have "cString (poolImage ts) (i - ?b) = Inr t" using Cons.IH [OF mem] Cons.prems by simp
    ultimately show ?thesis using cString_skip [of "u @ [NUL]" "poolImage ts" "i - ?b"] by simp
  qed
qed simp

lemma entries_inj: "(s, i) \<in> set (entries ts b) \<Longrightarrow> (t, i) \<in> set (entries ts b) \<Longrightarrow> s = t"
proof (induction ts arbitrary: b)
  case (Cons u ts)
  have "\<not> (x, b) \<in> set (entries ts (b + length u + 1))" for x using entries_ge by fastforce
  with Cons show ?case by auto
qed simp

lemma getCString_index:
  assumes "poolRep p ts" "poolIndex ts s = Some i" shows "getCString p i = Inr s"
proof -
  have "(s, i) \<in> set (entries ts 0)" using assms(2) unfolding poolIndex_def by (rule map_of_SomeD)
  from cString_entries [OF this] assms(1) show ?thesis by (simp add: poolRep_def getCString_def)
qed

lemma poolIndex_inj: "poolIndex ts s = Some i \<Longrightarrow> poolIndex ts t = Some i \<Longrightarrow> s = t"
  unfolding poolIndex_def by (metis entries_inj map_of_SomeD)

lemma poolIndex_append: "poolIndex ts s = Some i \<Longrightarrow> poolIndex (ts @ us) s = Some i"
  by (simp add: poolIndex_def entries_append map_add_def)

lemma poolIndex_new: "s \<notin> set ts \<Longrightarrow> poolIndex (ts @ [s]) s = Some (length (poolImage ts))"
  by (simp add: poolIndex_def entries_append map_add_def dom_entries [THEN iffD2])

section \<open>Adding a text\<close>

lemma hashFind_rep: "poolRep p ts \<Longrightarrow> hashFind p s = Inr (poolIndex ts s)"
  by (simp add: poolRep_def hashFind_def poolIndex_def)

lemma hashTexts_extend:
  assumes "hashTexts p = Inr es" "\<forall>e\<in>set (poolHash p). viewOffset (fst e) + viewLength (fst e) \<le> length (pool p)"
  shows "hashTexts (p\<lparr>pool := pool p @ xs\<rparr>) = Inr es"
proof -
  have "viewText (p\<lparr>pool := pool p @ xs\<rparr>) (fst e) = viewText p (fst e)" if "e \<in> set (poolHash p)" for e
    using assms(2) that by (auto simp: viewText_def)
  then have "mapR (\<lambda>e. bindR (viewText (p\<lparr>pool := pool p @ xs\<rparr>) (fst e)) (\<lambda>t. Inr (t, snd e))) (poolHash p) =
      mapR (\<lambda>e. bindR (viewText p (fst e)) (\<lambda>t. Inr (t, snd e))) (poolHash p)"
    by (induction "poolHash p") (auto intro!: mapR_cong)
  with assms(1) show ?thesis by (simp add: hashTexts_def)
qed

lemma hashTexts_dangling:
  assumes "e \<in> set (poolHash p)" "viewLength (fst e) \<noteq> 0" "viewBlock (fst e) \<noteq> poolBlock p"
  shows "hashTexts p = Inl Undefined"
  unfolding hashTexts_def by (rule mapR_fault [OF assms(1)]) (use assms in \<open>auto simp: viewText_def\<close>)

lemma viewText_update [simp]:
  "viewText (p\<lparr>poolHash := h\<rparr>) v = viewText p v" "viewText (p\<lparr>poolDirty := d\<rparr>) v = viewText p v"
  by (simp_all add: viewText_def)

lemma hashTexts_hash: "hashTexts (p\<lparr>poolHash := h @ [(v, i)]\<rparr>) =
    bindR (hashTexts (p\<lparr>poolHash := h\<rparr>)) (\<lambda>es. bindR (viewText p v) (\<lambda>t. Inr (es @ [(t, i)])))"
  by (cases "viewText p v") (simp_all add: hashTexts_def mapR_append)

lemma hashTexts_dirty [simp]: "hashTexts (p\<lparr>poolDirty := d\<rparr>) = hashTexts p"
  by (simp add: hashTexts_def)

lemma poolRep_dirty: "poolRep (p\<lparr>poolDirty := d\<rparr>) ts = poolRep p ts"
  by (simp add: poolRep_def)

lemma storeText_new:
  assumes p: "poolRep p ts" and s: "s \<notin> set ts" "NUL \<notin> set s" and room: "length (pool p) + length s < poolSize p"
  shows "\<exists>q. storeText s p = (Inr (length (pool p)), q) \<and> poolRep q (ts @ [s]) \<and> poolSize q = poolSize p \<and>
    length (pool q) = length (pool p) + length s + 1 \<and> poolFilename q = poolFilename p \<and> poolDirty q"
proof -
  let ?n = "length (pool p)" and ?v = "\<lparr>viewBlock = poolBlock p, viewOffset = length (pool p), viewLength = length s\<rparr>"
  let ?p = "p\<lparr>pool := pool p @ s @ [NUL]\<rparr>"
  have key: "cString (pool p @ s @ [NUL]) ?n = Inr s" using s by (simp add: cString_def takeWhile_append)
  have texts: "hashTexts ?p = Inr (entries ts 0)"
    using p by (intro hashTexts_extend) (auto simp: poolRep_def)
  have view: "viewText ?p ?v = Inr s" by (simp add: viewText_def)
  have none: "map_of (entries ts 0) s = None" using s by (simp add: dom_entries)
  let ?q = "?p\<lparr>poolHash := poolHash p @ [(?v, ?n)], poolDirty := True\<rparr>"
  have st: "storeText s p = (Inr ?n, ?q)"
    using s room key view texts none by (simp add: storeText_def Let_def hashAssign_def)
  have "hashTexts ?q = Inr (entries ts 0 @ [(s, ?n)])"
    using hashTexts_hash [where p = ?p and h = "poolHash p" and v = ?v and i = ?n] texts view by simp
  then have "poolRep ?q (ts @ [s])"
    using p s room by (auto simp: poolRep_def entries_append)
  with st show ?thesis by (intro exI [of _ ?q]) simp
qed

lemma addString_new:
  assumes "poolRep p ts" "s \<notin> set ts" "NUL \<notin> set s" "length (pool p) + length s < poolSize p"
  shows "\<exists>q. addString b s p = (Inr (length (pool p)), q) \<and> poolRep q (ts @ [s]) \<and> poolSize q = poolSize p \<and>
    length (pool q) = length (pool p) + length s + 1 \<and> poolFilename q = poolFilename p \<and> poolDirty q"
proof -
  have "poolIndex ts s = None" using assms(2) by (simp add: poolIndex_def dom_entries)
  then have "addString b s p = storeText s p"
    using assms(4) by (simp add: addString_def internalAddString_def hashFind_rep [OF assms(1)])
  with storeText_new [OF assms] show ?thesis by simp
qed

lemma addString_old:
  assumes "poolRep p ts" "s \<in> set ts"
  shows "\<exists>i. poolIndex ts s = Some i \<and> addString b s p = (Inr i, p)"
proof -
  obtain i where i: "poolIndex ts s = Some i"
    using assms(2) dom_entries [of ts 0 s] by (auto simp: poolIndex_def)
  then have "addString b s p = (Inr i, p)"
    by (simp add: addString_def internalAddString_def hashFind_rep [OF assms(1)])
  with i show ?thesis by blast
qed

lemma StringPool_eq:
  "StringPool f b = \<lparr>pool = [NUL], poolBlock = b,
     poolHash = [(\<lparr>viewBlock = b, viewOffset = 0, viewLength = 0\<rparr>, 0)], poolSize = StartPoolSize,
     poolFilename = f, poolDirty = True\<rparr>"
  by (simp add: StringPool_def addString_def internalAddString_def emptyPool_def hashFind_def hashTexts_def
      storeText_def cString_def hashAssign_def viewText_def StartPoolSize_def Let_def)

lemma StringPool_rep: "poolRep (StringPool f b) [[]]"
  by (simp add: StringPool_eq poolRep_def hashTexts_def viewText_def StartPoolSize_def)

section \<open>The interning contract\<close>

text \<open>
  What the tables rely on: a text added is found again under its handle, handles are stable and
  equal exactly for equal texts.  The contract is over an abstract list of texts \<open>rep p ts\<close>.
\<close>

locale string_interning =
  fixes rep :: "'p \<Rightarrow> string list \<Rightarrow> bool"
    and addText :: "string \<Rightarrow> ('p, nat) prog"
    and getText :: "'p \<Rightarrow> nat \<Rightarrow> string result"
    and index :: "string list \<Rightarrow> string \<Rightarrow> nat option"
    and room :: "'p \<Rightarrow> nat"
  assumes add_known: "rep p ts \<Longrightarrow> s \<in> set ts \<Longrightarrow> \<exists>i. index ts s = Some i \<and> addText s p = (Inr i, p)"
    and add_fresh: "rep p ts \<Longrightarrow> s \<notin> set ts \<Longrightarrow> NUL \<notin> set s \<Longrightarrow> length s + 1 \<le> room p \<Longrightarrow>
      \<exists>i q. addText s p = (Inr i, q) \<and> rep q (ts @ [s]) \<and> index (ts @ [s]) s = Some i \<and> room q + length s + 1 = room p"
    and get_index: "rep p ts \<Longrightarrow> index ts s = Some i \<Longrightarrow> getText p i = Inr s"
    and index_stable: "index ts s = Some i \<Longrightarrow> index (ts @ us) s = Some i"
begin

lemma add_any:
  assumes "rep p ts" "NUL \<notin> set s" "length s + 1 \<le> room p"
  shows "\<exists>i q us. addText s p = (Inr i, q) \<and> rep q (ts @ us) \<and> index (ts @ us) s = Some i \<and> room p \<le> room q + length s + 1"
proof (cases "s \<in> set ts")
  case True
  from add_known [OF assms(1) True] obtain i where "index ts s = Some i" "addText s p = (Inr i, p)" by blast
  with assms(1) show ?thesis by (intro exI [of _ i] exI [of _ p] exI [of _ "[]"]) simp
next
  case False
  from add_fresh [OF assms(1) False assms(2,3)] obtain i q where
    "addText s p = (Inr i, q)" "rep q (ts @ [s])" "index (ts @ [s]) s = Some i" "room q + length s + 1 = room p" by blast
  then show ?thesis by (intro exI [of _ i] exI [of _ q] exI [of _ "[s]"]) simp
qed

lemma add_all:
  assumes "rep p ts" "\<forall>s\<in>set ss. NUL \<notin> set s" "(\<Sum>s\<leftarrow>ss. length s + 1) \<le> room p"
  shows "\<exists>hs q us. mapProg addText ss p = (Inr hs, q) \<and> rep q (ts @ us) \<and> map (index (ts @ us)) ss = map Some hs"
  using assms
proof (induction ss arbitrary: p ts)
  case Nil then show ?case by (intro exI [of _ "[]"] exI [of _ p]) simp
next
  case (Cons s ss)
  then have "NUL \<notin> set s" "length s + 1 \<le> room p" by auto
  from add_any [OF Cons.prems(1) this] obtain i q us where 1: "addText s p = (Inr i, q)" "rep q (ts @ us)"
    "index (ts @ us) s = Some i" "room p \<le> room q + length s + 1" by blast
  then obtain hs q' vs where 2: "mapProg addText ss q = (Inr hs, q')" "rep q' (ts @ us @ vs)"
    "map (index (ts @ us @ vs)) ss = map Some hs"
    using Cons.IH [OF 1(2)] Cons.prems by auto
  have "index (ts @ us @ vs) s = Some i" using index_stable [OF 1(3), of vs] by simp
  with 1 2 show ?case by (intro exI [of _ "i # hs"] exI [of _ q'] exI [of _ "us @ vs"]) simp
qed

lemma interned:
  assumes "rep p ts" "\<forall>s\<in>set ss. NUL \<notin> set s" "(\<Sum>s\<leftarrow>ss. length s + 1) \<le> room p"
  shows "\<exists>hs q. mapProg addText ss p = (Inr hs, q) \<and> length hs = length ss \<and>
    (\<forall>k<length ss. getText q (hs ! k) = Inr (ss ! k)) \<and>
    (\<forall>j<length ss. \<forall>k<length ss. hs ! j = hs ! k \<longleftrightarrow> ss ! j = ss ! k) \<and>
    (\<forall>t i. index ts t = Some i \<longrightarrow> getText q i = Inr t)"
proof -
  from add_all [OF assms] obtain hs q us where 1: "mapProg addText ss p = (Inr hs, q)" "rep q (ts @ us)"
    "map (index (ts @ us)) ss = map Some hs" by blast
  then have len: "length hs = length ss" by (metis length_map)
  with 1(3) have idx: "index (ts @ us) (ss ! k) = Some (hs ! k)" if "k < length ss" for k
    using that by (metis nth_map)
  then have get: "getText q (hs ! k) = Inr (ss ! k)" if "k < length ss" for k
    using that get_index [OF 1(2)] by blast
  have "hs ! j = hs ! k \<longleftrightarrow> ss ! j = ss ! k" if "j < length ss" "k < length ss" for j k
    using that idx get by (metis option.inject sum.inject(2))
  with 1 len get get_index [OF 1(2) index_stable] show ?thesis by blast
qed

end

definition poolRoom :: "string_pool \<Rightarrow> nat" where
  "poolRoom p = poolSize p - length (pool p)"

interpretation sp: string_interning poolRep "addString b" getCString poolIndex poolRoom for b
proof
  fix p ts s
  assume p: "poolRep p ts"
  { assume "s \<in> set ts"
    then show "\<exists>i. poolIndex ts s = Some i \<and> addString b s p = (Inr i, p)" by (rule addString_old [OF p]) }
  { assume s: "s \<notin> set ts" "NUL \<notin> set s" and room: "length s + 1 \<le> poolRoom p"
    then have "length (pool p) + length s < poolSize p" by (simp add: poolRoom_def)
    from addString_new [OF p s this, of b] obtain q where q: "addString b s p = (Inr (length (pool p)), q)"
      "poolRep q (ts @ [s])" "poolSize q = poolSize p" "length (pool q) = length (pool p) + length s + 1" by blast
    moreover have "poolIndex (ts @ [s]) s = Some (length (pool p))"
      using p s by (simp add: poolIndex_new poolRep_def)
    ultimately show "\<exists>i q. addString b s p = (Inr i, q) \<and> poolRep q (ts @ [s]) \<and> poolIndex (ts @ [s]) s = Some i \<and>
        poolRoom q + length s + 1 = poolRoom p"
      using room by (intro exI [of _ "length (pool p)"] exI [of _ q]) (simp add: poolRoom_def) }
  { fix i assume "poolIndex ts s = Some i" then show "getCString p i = Inr s" by (rule getCString_index [OF p]) }
next
  fix ts s i us assume "poolIndex ts s = Some i" then show "poolIndex (ts @ us) s = Some i" by (rule poolIndex_append)
qed

text \<open>(C29)
  Texts added to a new string pool, in any order and with repetitions, are all stored as long as
  they and their terminators fit into the initial buffer and contain no zero byte: the handle of each reads back that text at the end, and
  two handles are equal exactly when the texts are.
\<close>
theorem string_pool_interns:
  assumes "\<forall>s\<in>set ss. NUL \<notin> set s" "(\<Sum>s\<leftarrow>ss. length s + 1) < StartPoolSize"
  shows "\<exists>hs q. mapProg (addString b) ss (StringPool f b) = (Inr hs, q) \<and> length hs = length ss \<and>
    (\<forall>k<length ss. getCString q (hs ! k) = Inr (ss ! k)) \<and>
    (\<forall>j<length ss. \<forall>k<length ss. hs ! j = hs ! k \<longleftrightarrow> ss ! j = ss ! k)"
proof -
  have "(\<Sum>s\<leftarrow>ss. length s + 1) \<le> poolRoom (StringPool f b)"
    using assms(2) by (simp add: StringPool_eq poolRoom_def)
  from sp.interned [OF StringPool_rep assms(1) this, of b] show ?thesis by blast
qed

theorem string_pool_interns_witness:
  "\<exists>hs q. mapProg (addString 0) [''ab'', ''c'', ''ab''] (StringPool ''sp'' 0) = (Inr hs, q) \<and>
     getCString q (hs ! 2) = Inr ''ab'' \<and> hs ! 0 = hs ! 2 \<and> hs ! 0 \<noteq> hs ! 1"
proof -
  let ?ss = "[''ab'', ''c'', ''ab'']"
  have "\<forall>s\<in>set ?ss. NUL \<notin> set s" "(\<Sum>s\<leftarrow>?ss. length s + 1) < StartPoolSize" by (simp_all add: StartPoolSize_def)
  from string_pool_interns [OF this, of 0 "''sp''"] obtain hs q where
    r: "mapProg (addString 0) ?ss (StringPool ''sp'' 0) = (Inr hs, q)"
    and g: "\<forall>k<length ?ss. getCString q (hs ! k) = Inr (?ss ! k)"
    and e: "\<forall>j<length ?ss. \<forall>k<length ?ss. hs ! j = hs ! k \<longleftrightarrow> ?ss ! j = ?ss ! k"
    by blast
  have "getCString q (hs ! 2) = Inr ''ab''" using g [rule_format, of 2] by simp
  moreover have "hs ! 0 = hs ! 2" "hs ! 0 \<noteq> hs ! 1" using e [rule_format, of 0 2] e [rule_format, of 0 1] by simp_all
  ultimately show ?thesis using r by blast
qed

section \<open>Writing and reading back\<close>

lemma cString_image:
  "NUL \<notin> set t \<Longrightarrow> cString (poolImage (ts @ t # us)) (length (poolImage ts)) = Inr t"
  using cString_skip [of "poolImage ts" "poolImage (t # us)" 0] by (simp add: cString_def takeWhile_append)

lemma rehash_rep:
  assumes "pool p = poolImage (ts @ us)" "hashTexts p = Inr (entries ts 0)" "distinct (ts @ us)"
    "\<forall>t\<in>set (ts @ us). NUL \<notin> set t" "length (pool p) \<le> poolSize p"
    "\<forall>e\<in>set (poolHash p). viewOffset (fst e) + viewLength (fst e) \<le> length (pool p)"
  shows "\<exists>q. rehash p (length (poolImage ts)) = Inr q \<and> poolRep q (ts @ us)"
  using assms
proof (induction us arbitrary: ts p)
  case Nil then show ?case by (simp add: rehash.simps poolRep_def)
next
  case (Cons t us)
  let ?n = "length (poolImage ts)"
  let ?v = "\<lparr>viewBlock = poolBlock p, viewOffset = ?n, viewLength = length t\<rparr>"
  let ?q = "p\<lparr>poolHash := poolHash p @ [(?v, ?n)]\<rparr>"
  have ctext: "cString (pool p) ?n = Inr t" using Cons.prems cString_image [of t ts us] by simp
  have view: "viewText p ?v = Inr t" using Cons.prems(1) by (simp add: viewText_def)
  have "t \<notin> set ts" using Cons.prems(3) by auto
  then have assign: "hashAssign p ?v ?n = Inr (poolHash p @ [(?v, ?n)])"
    using Cons.prems(2) view by (simp add: hashAssign_def dom_entries [THEN iffD2])
  have "\<exists>q. rehash ?q (length (poolImage (ts @ [t]))) = Inr q \<and> poolRep q ((ts @ [t]) @ us)"
  proof (rule Cons.IH)
    show "hashTexts ?q = Inr (entries (ts @ [t]) 0)"
      using hashTexts_hash [where p = p and h = "poolHash p" and v = ?v and i = ?n] view Cons.prems(2)
      by (simp add: entries_append)
  qed (use Cons.prems in auto)
  moreover have "rehash p ?n = rehash ?q (?n + length t + 1)"
    using ctext assign Cons.prems(1) by (subst rehash.simps) simp
  ultimately show ?case by simp
qed

lemma readPool_rep:
  assumes fs: "fs f = Some (map charByte (poolImage ([] # ts)))" and ts: "distinct ([] # ts)" "\<forall>t\<in>set ts. NUL \<notin> set t"
  shows "\<exists>q. readPool fs nb (StringPool f b) = Inr q \<and> poolRep q ([] # ts)"
proof -
  let ?img = "poolImage ([] # ts)"
  let ?p = "(if StartPoolSize < length ?img then (StringPool f b)\<lparr>poolSize := length ?img, poolBlock := nb\<rparr>
    else StringPool f b)\<lparr>pool := ?img\<rparr>"
  have h: "hashTexts ?p = Inr [([], 0)]" by (simp add: StringPool_eq hashTexts_def viewText_def)
  have "rehash ?p 0 = rehash ?p (length (poolImage [[]]))"
  proof -
    let ?v = "\<lparr>viewBlock = poolBlock ?p, viewOffset = 0, viewLength = 0\<rparr>"
    have "hashAssign ?p ?v 0 = Inr (poolHash ?p)"
      using h by (simp add: hashAssign_def viewText_def) (simp add: StringPool_eq)
    moreover have "cString (pool ?p) 0 = Inr []" by (simp add: cString_def)
    moreover have "?p\<lparr>poolHash := poolHash ?p\<rparr> = ?p" by simp
    ultimately show ?thesis by (subst rehash.simps) simp
  qed
  moreover have "\<exists>q. rehash ?p (length (poolImage [[]])) = Inr q \<and> poolRep q ([[]] @ ts)"
    by (rule rehash_rep) (use ts h in \<open>auto simp: StringPool_eq\<close>)
  ultimately obtain q where q: "rehash ?p 0 = Inr q" "poolRep q ([] # ts)" by auto
  have "readPool fs nb (StringPool f b) = bindR (rehash ?p 0) (\<lambda>p3. Inr (p3\<lparr>poolDirty := False\<rparr>))"
    using fs h by (simp add: readPool_def StringPool_eq Let_def comp_def hashTexts_def viewText_def)
  with q show ?thesis by (intro exI [of _ "q\<lparr>poolDirty := False\<rparr>"]) (simp add: poolRep_dirty)
qed

lemma mapProg_keeps:
  assumes "mapProg (addString b) ss p = (Inr hs, q)" "poolRep p ts" "poolDirty p" "\<forall>s\<in>set ss. NUL \<notin> set s"
    "(\<Sum>s\<leftarrow>ss. length s + 1) \<le> poolRoom p"
  shows "\<exists>us. poolRep q (ts @ us) \<and> poolDirty q \<and> poolFilename q = poolFilename p \<and> map (poolIndex (ts @ us)) ss = map Some hs"
  using assms
proof (induction ss arbitrary: p ts hs)
  case Nil then show ?case by (intro exI [of _ "[]"]) simp
next
  case (Cons s ss)
  obtain i r where 1: "addString b s p = (Inr i, r)" and 2: "\<exists>hs'. mapProg (addString b) ss r = (Inr hs', q) \<and> hs = i # hs'"
    using Cons.prems(1) by (auto simp: andThen_Inr_iff)
  then obtain hs' where hs': "mapProg (addString b) ss r = (Inr hs', q)" "hs = i # hs'" by blast
  have fits: "length (pool p) + length s < poolSize p" "NUL \<notin> set s" using Cons.prems(4,5) by (auto simp: poolRoom_def)
  have "\<exists>us. poolRep r (ts @ us) \<and> poolIndex (ts @ us) s = Some i \<and> poolDirty r \<and> poolFilename r = poolFilename p \<and>
      poolRoom p \<le> poolRoom r + length s + 1"
  proof (cases "s \<in> set ts")
    case True
    with addString_old [OF Cons.prems(2) True, of b] 1 Cons.prems(2,3) show ?thesis by (intro exI [of _ "[]"]) auto
  next
    case False
    with addString_new [OF Cons.prems(2) False fits(2,1), of b] 1 Cons.prems(2)
    show ?thesis by (intro exI [of _ "[s]"]) (auto simp: poolRoom_def poolIndex_new poolRep_def)
  qed
  then obtain us where us: "poolRep r (ts @ us)" "poolIndex (ts @ us) s = Some i" "poolDirty r"
    "poolFilename r = poolFilename p" "poolRoom p \<le> poolRoom r + length s + 1" by blast
  have "(\<Sum>s\<leftarrow>ss. length s + 1) \<le> poolRoom r" using Cons.prems(5) us(5) by simp
  from Cons.IH [OF hs'(1) us(1,3) _ this] Cons.prems(4) us(4) obtain vs where
    "poolRep q (ts @ us @ vs)" "poolDirty q" "poolFilename q = poolFilename p" "map (poolIndex (ts @ us @ vs)) ss = map Some hs'"
    by auto
  with us(2) hs'(2) poolIndex_append [OF us(2), of vs] show ?case by (intro exI [of _ "us @ vs"]) simp
qed

lemma mapProg_known:
  "poolRep q ts \<Longrightarrow> map (poolIndex ts) ss = map Some hs \<Longrightarrow> mapProg (addString b) ss q = (Inr hs, q)"
proof (induction ss arbitrary: hs)
  case (Cons s ss)
  then obtain i hs' where hs: "hs = i # hs'" "poolIndex ts s = Some i" "map (poolIndex ts) ss = map Some hs'"
    by (cases hs) auto
  then have "s \<in> set ts" using dom_entries [of ts 0 s] by (auto simp: poolIndex_def)
  with addString_old [OF Cons.prems(1), of s b] hs(2) have "addString b s q = (Inr i, q)" by auto
  with Cons.IH [OF Cons.prems(1) hs(3)] hs(1) show ?case by simp
qed simp

text \<open>(C30)
  A string pool survives a restart: texts are added to a new pool, the pool is written, and a
  new pool reads that file.  Adding the same texts to the reloaded pool gives the same handles
  and stores nothing new.
\<close>
theorem string_pool_reload:
  assumes "\<forall>s\<in>set ss. NUL \<notin> set s" "(\<Sum>s\<leftarrow>ss. length s + 1) < StartPoolSize"
    and "mapProg (addString b) ss (StringPool f b) = (Inr hs, p)"
  shows "\<exists>q. readPool (writePool p fs) nb (StringPool f b') = Inr q \<and> mapProg (addString b'') ss q = (Inr hs, q)"
proof -
  have room: "(\<Sum>s\<leftarrow>ss. length s + 1) \<le> poolRoom (StringPool f b)" "poolDirty (StringPool f b)"
    using assms(2) by (simp_all add: StringPool_eq poolRoom_def)
  from mapProg_keeps [OF assms(3) StringPool_rep room(2) assms(1) room(1)] obtain us where
    p: "poolRep p ([] # us)" "poolDirty p" "poolFilename p = f" and hs: "map (poolIndex ([] # us)) ss = map Some hs"
    by (auto simp: StringPool_eq)
  then have "writePool p fs f = Some (map charByte (poolImage ([] # us)))" by (simp add: writePool_def poolRep_def)
  from readPool_rep [where fs = "writePool p fs" and f = f and ts = us and nb = nb and b = b'] this p(1) obtain q where
    q: "readPool (writePool p fs) nb (StringPool f b') = Inr q" "poolRep q ([] # us)" by (auto simp: poolRep_def)
  with mapProg_known [OF q(2) hs, of b''] show ?thesis by blast
qed

theorem string_pool_reload_witness:
  "\<exists>p hs q. mapProg (addString 0) [''ab'', ''c''] (StringPool ''sp'' 0) = (Inr hs, p) \<and>
     readPool (writePool p Map.empty) 1 (StringPool ''sp'' 2) = Inr q \<and> mapProg (addString 0) [''ab'', ''c''] q = (Inr hs, q)"
proof -
  let ?ss = "[''ab'', ''c'']"
  have ss: "\<forall>s\<in>set ?ss. NUL \<notin> set s" "(\<Sum>s\<leftarrow>?ss. length s + 1) < StartPoolSize" by (simp_all add: StartPoolSize_def)
  have "(\<Sum>s\<leftarrow>?ss. length s + 1) \<le> poolRoom (StringPool ''sp'' 0)" by (simp add: StringPool_eq poolRoom_def StartPoolSize_def)
  from sp.interned [OF StringPool_rep ss(1) this, of 0] obtain hs p where
    r: "mapProg (addString 0) ?ss (StringPool ''sp'' 0) = (Inr hs, p)" by blast
  with string_pool_reload [OF ss r, of Map.empty 1 2 0] show ?thesis by blast
qed

section \<open>Growing the pool\<close>

text \<open>The keys of the hash view the buffer.  When a text does not fit, the buffer grows, and when
  \<^verbatim>\<open>realloc\<close> moves it the keys view the released block: with some non-empty text in the
  pool, entering the new key compares it with keys in released memory.
\<close>
lemma string_pool_growth_undefined:
  assumes "poolRep p ts" "s \<notin> set ts" "NUL \<notin> set s" "poolSize p \<le> length (pool p) + length s"
    and "length (pool p) + length s < 2 * poolSize p"
    and moved: "b \<noteq> poolBlock p" and keyed: "\<exists>e\<in>set (poolHash p). viewLength (fst e) \<noteq> 0 \<and> viewBlock (fst e) = poolBlock p"
  shows "fst (addString b s p) = Inl Undefined"
proof -
  let ?p = "p\<lparr>poolSize := poolSize p * 2, poolBlock := b\<rparr>"
  let ?q = "?p\<lparr>pool := pool p @ s @ [NUL]\<rparr>"
  have "poolIndex ts s = None" using assms(2) by (simp add: poolIndex_def dom_entries)
  then have 1: "addString b s p = storeText s ?p"
    using assms(4) by (simp add: addString_def internalAddString_def hashFind_rep [OF assms(1)] reallocPool_def add.commute)
  have "hashTexts ?q = Inl Undefined" using keyed moved by (auto intro: hashTexts_dangling)
  then have "hashAssign ?q v i = Inl Undefined" for v i by (auto simp: hashAssign_def viewText_def)
  moreover have "cString (pool p @ s @ [NUL]) (length (pool p)) = Inr s"
    using assms(3) by (simp add: cString_def takeWhile_append)
  ultimately show ?thesis using 1 assms(3,5) by (simp add: storeText_def Let_def)
qed

lemma string_pool_growth_undefined_witness:
  "\<exists>p s. fst (addString 1 s p) = Inl Undefined \<and> poolBlock p = 0 \<and> (\<exists>ts. poolRep p ts)"
proof -
  let ?v = "\<lparr>viewBlock = 0, viewOffset = 1, viewLength = 1\<rparr>"
  let ?p = "\<lparr>pool = [NUL, CHR ''a'', NUL], poolBlock = 0,
    poolHash = [(\<lparr>viewBlock = 0, viewOffset = 0, viewLength = 0\<rparr>, 0), (?v, 1)], poolSize = 4,
    poolFilename = ''sp'', poolDirty = True\<rparr>"
  have rep: "poolRep ?p [[], ''a'']" by (simp add: poolRep_def hashTexts_def viewText_def)
  have "fst (addString 1 ''bc'' ?p) = Inl Undefined"
    by (rule string_pool_growth_undefined [OF rep]) simp_all
  with rep show ?thesis by (intro exI [of _ ?p] exI [of _ "''bc''"]) auto
qed

end
