(* ===== verification/Db_Table.thy ===== *)
theory Db_Table
  imports Db_Columns String_Pool
begin

text \<open>
  Tables of the embedded database (\<^verbatim>\<open>infrastructure/db/table/Table.{h,cpp}\<close>).  A table owns rows
  allocated on the heap; \<^verbatim>\<open>_rows\<close> maps a key to a row address, \<^verbatim>\<open>_autoIncrementIndex\<close> lists the
  addresses in the order of the row identifiers, \<^verbatim>\<open>_dirtyRows\<close> records what the file does not
  hold yet.  The rows are kept in an explicit store of addresses, because \<^verbatim>\<open>internalUpdate\<close> frees the row it
  is given; reading a freed or never initialised row is undefined.  An address is not handed out twice.  The key of a row is a virtual function of the derived
  tables and an argument here.  File operations succeed; the log and the mutexes are left out:
  each operation runs under the table's lock.
\<close>

section \<open>Rows and the table state\<close>

record table_row =
  rowFlags :: u8
  rowId :: u8
  rowBody :: bytes

definition Deleted :: u8 where
  "Deleted = 1"

definition isDeleted :: "table_row \<Rightarrow> bool" where
  "isDeleted r \<longleftrightarrow> rowFlags r AND Deleted \<noteq> 0"

datatype cell = Indeterminate | Holds table_row

datatype dirty_type = IsUpdate | IsNew | IsDeleted

record table =
  heap :: "nat \<rightharpoonup> cell"
  nextAddress :: nat
  tableRows :: "(string \<times> nat) list"
  autoIncrementIndex :: "nat list"
  tableFilename :: string
  isDirty :: bool
  rowSize :: nat
  tableName :: string
  dirtyRows :: "u8 \<rightharpoonup> dirty_type"
  tableColumns :: "properties list"
  columnByName :: "string \<rightharpoonup> nat"
  layoutSignature :: u8
  layoutName :: string
  columnCount :: u8

type_synonym row_key = "table_row \<Rightarrow> string result"

definition deref :: "nat \<Rightarrow> (table, table_row) prog" where
  "deref a = andThen getState (\<lambda>t. case heap t a of Some (Holds r) \<Rightarrow> ret r | _ \<Rightarrow> throw Undefined)"

definition assign :: "nat \<Rightarrow> table_row \<Rightarrow> (table, unit) prog" where
  "assign a r = andThen getState (\<lambda>t. if heap t a = None then throw Undefined
     else modify (\<lambda>t. t\<lparr>heap := (heap t)(a \<mapsto> Holds r)\<rparr>))"

definition allocateRow :: "(table, nat) prog" where
  "allocateRow = andThen getState (\<lambda>t. andThen (modify (\<lambda>t.
     t\<lparr>heap := (heap t)(nextAddress t \<mapsto> Indeterminate), nextAddress := nextAddress t + 1\<rparr>)) (\<lambda>_. ret (nextAddress t)))"

definition freeRow :: "nat \<Rightarrow> (table, unit) prog" where
  "freeRow a = modify (\<lambda>t. t\<lparr>heap := (heap t)(a := None)\<rparr>)"

text \<open>What a caller does to hand a row over: allocate it and fill in its columns.\<close>

definition newRow :: "table_row \<Rightarrow> (table, nat) prog" where
  "newRow r = andThen allocateRow (\<lambda>a. andThen (assign a r) (\<lambda>_. ret a))"

definition newTable :: "string \<Rightarrow> string \<Rightarrow> nat \<Rightarrow> table result" where
  "newTable filename name n =
     bindR (strcpy MAX_TABLE_NAME name) (\<lambda>layout. Inr
       \<lparr>heap = Map.empty, nextAddress = 0, tableRows = [], autoIncrementIndex = [], tableFilename = filename,
        isDirty = False, rowSize = n, tableName = name, dirtyRows = Map.empty, tableColumns = [],
        columnByName = Map.empty, layoutSignature = KAPA_TABLE_SIGNATURE, layoutName = layout, columnCount = 0\<rparr>)"

text \<open>\<^verbatim>\<open>DECLARE_COLUMN_PROP\<close> and \<^verbatim>\<open>DECLARE_FOREIGN_COLUMN_PROP\<close>.\<close>

definition declareColumn :: "properties result \<Rightarrow> (table, unit) prog" where
  "declareColumn pr = andThen (liftR pr) (\<lambda>p. modify (\<lambda>t.
     t\<lparr>columnByName := (columnByName t)(columnName p \<mapsto> length (tableColumns t)),
       tableColumns := tableColumns t @ [p], columnCount := of_nat (length (tableColumns t) + 1)\<rparr>))"

section \<open>Adding, updating and deleting rows\<close>

definition getKey :: "row_key \<Rightarrow> nat \<Rightarrow> (table, string) prog" where
  "getKey key a = andThen (deref a) (\<lambda>r. liftR (key r))"

definition internalAdd :: "nat \<Rightarrow> string \<Rightarrow> (table, unit) prog" where
  "internalAdd a k =
     andThen getState (\<lambda>t. if map_of (tableRows t) k \<noteq> None then throw AssertFail else
       andThen (deref a) (\<lambda>r.
       andThen (assign a (r\<lparr>rowId := of_nat (length (autoIncrementIndex t))\<rparr>)) (\<lambda>_.
       andThen (modify (\<lambda>t. t\<lparr>tableRows := (k, a) # tableRows t, autoIncrementIndex := autoIncrementIndex t @ [a]\<rparr>)) (\<lambda>_.
       andThen getState (\<lambda>t. andThen (deref (autoIncrementIndex t ! 0)) (\<lambda>_. ret ()))))))"

definition internalUpdate :: "nat \<Rightarrow> string \<Rightarrow> (table, unit) prog" where
  "internalUpdate a k =
     andThen getState (\<lambda>t. case map_of (tableRows t) k of
       None \<Rightarrow> throw AssertFail
     | Some dest \<Rightarrow> if dest = a then ret () else
         andThen (deref dest) (\<lambda>d.
         andThen (deref a) (\<lambda>r.
         andThen (assign a (r\<lparr>rowId := rowId d\<rparr>)) (\<lambda>_.
         andThen (deref a) (\<lambda>r.
         andThen (assign dest r) (\<lambda>_. freeRow a))))))"

definition markUpdated :: "nat \<Rightarrow> (table, unit) prog" where
  "markUpdated a = andThen (deref a) (\<lambda>r. andThen getState (\<lambda>t.
     if dirtyRows t (rowId r) \<noteq> None then ret ()
     else modify (\<lambda>t. t\<lparr>dirtyRows := (dirtyRows t)(rowId r \<mapsto> IsUpdate)\<rparr>)))"

definition setDirty :: "(table, unit) prog" where
  "setDirty = modify (\<lambda>t. t\<lparr>isDirty := True\<rparr>)"

definition markNew :: "nat \<Rightarrow> (table, unit) prog" where
  "markNew a = andThen (deref a) (\<lambda>r. modify (\<lambda>t. t\<lparr>dirtyRows := (dirtyRows t)(rowId r \<mapsto> IsNew)\<rparr>))"

definition addRow :: "row_key \<Rightarrow> nat \<Rightarrow> (table, u8) prog" where
  "addRow key a =
     andThen (getKey key a) (\<lambda>k. andThen (internalAdd a k) (\<lambda>_. andThen (deref a) (\<lambda>r.
       andThen setDirty (\<lambda>_. andThen (markNew a) (\<lambda>_. ret (rowId r))))))"

definition updateRow :: "row_key \<Rightarrow> nat \<Rightarrow> (table, unit) prog" where
  "updateRow key a =
     andThen (getKey key a) (\<lambda>k. andThen (internalUpdate a k) (\<lambda>_. andThen setDirty (\<lambda>_. markUpdated a)))"

definition updateInPlace :: "(table, nat) prog \<Rightarrow> (table, unit) prog" where
  "updateInPlace updateFunc = andThen updateFunc (\<lambda>a. andThen setDirty (\<lambda>_. markUpdated a))"

definition addOrUpdate :: "row_key \<Rightarrow> nat \<Rightarrow> (table, u8) prog" where
  "addOrUpdate key a =
     andThen (getKey key a) (\<lambda>k. andThen getState (\<lambda>t.
       andThen (if map_of (tableRows t) k \<noteq> None
                then andThen (internalUpdate a k) (\<lambda>_. markUpdated a)
                else andThen (internalAdd a k) (\<lambda>_. markNew a)) (\<lambda>_.
       andThen (deref a) (\<lambda>r. andThen setDirty (\<lambda>_. ret (rowId r))))))"

definition getRow :: "u8 \<Rightarrow> (table, nat) prog" where
  "getRow i = andThen getState (\<lambda>t.
     if unat i < length (autoIncrementIndex t) then ret (autoIncrementIndex t ! unat i) else throw Undefined)"

definition deleteRow :: "u8 \<Rightarrow> (table, bool) prog" where
  "deleteRow i =
     andThen (getRow i) (\<lambda>a. andThen (deref a) (\<lambda>r.
       andThen (assign a (r\<lparr>rowFlags := rowFlags r OR Deleted\<rparr>)) (\<lambda>_.
       andThen setDirty (\<lambda>_. andThen (markUpdated a) (\<lambda>_. ret True)))))"

definition getByKey :: "table \<Rightarrow> string \<Rightarrow> nat option" where
  "getByKey t k = map_of (tableRows t) k"

definition findByKey :: "table \<Rightarrow> string \<Rightarrow> nat option" where
  "findByKey t k = map_of (tableRows t) k"

definition tableSize :: "table \<Rightarrow> nat" where
  "tableSize t = length (tableRows t)"

definition isValidColumn :: "table \<Rightarrow> string \<Rightarrow> bool" where
  "isValidColumn t c \<longleftrightarrow> columnByName t c \<noteq> None"

section \<open>Iterating and listing\<close>

definition cellRow :: "table \<Rightarrow> nat \<Rightarrow> table_row result" where
  "cellRow t a = (case heap t a of Some (Holds r) \<Rightarrow> Inr r | _ \<Rightarrow> Inl Undefined)"

text \<open>
  The two \<^verbatim>\<open>forEach\<close> loops; the callback keeps a state of its own and leaves the table as it is.
  The first form stops when the callback returns false.
\<close>

fun forEachLoop :: "(table_row \<Rightarrow> 's \<Rightarrow> bool \<times> 's) \<Rightarrow> table \<Rightarrow> nat list \<Rightarrow> 's \<Rightarrow> 's result" where
  "forEachLoop func t [] s = Inr s"
| "forEachLoop func t (a # as) s =
     bindR (cellRow t a) (\<lambda>r.
       if \<not> isDeleted r then
         (case func r s of (continue, s') \<Rightarrow> if \<not> continue then Inr s' else forEachLoop func t as s')
       else forEachLoop func t as s)"

definition forEachWhile :: "(table_row \<Rightarrow> 's \<Rightarrow> bool \<times> 's) \<Rightarrow> table \<Rightarrow> 's \<Rightarrow> 's result" where
  "forEachWhile func t s = forEachLoop func t (autoIncrementIndex t) s"

definition forEachRow :: "(table_row \<Rightarrow> 's \<Rightarrow> 's) \<Rightarrow> table \<Rightarrow> 's \<Rightarrow> 's result" where
  "forEachRow func t s = forEachLoop (\<lambda>r s. (True, func r s)) t (autoIncrementIndex t) s"

text \<open>
  \<^verbatim>\<open>list\<close> splits the rows into one chunk per thread.  Each task writes its own slot of
  \<^verbatim>\<open>outputByChuck\<close>, so the order in which the tasks run does not matter.  The filter is a callback
  that may fail or not return.
\<close>

definition activeThreads :: "u4 \<Rightarrow> nat \<Rightarrow> u4" where
  "activeThreads hardwareThreads rowsScanned =
     (let scaledThreads = (if hardwareThreads = 0 then 1 else max 1 (hardwareThreads * 4 div 5));
          threadCount = max 1 scaledThreads
      in if rowsScanned = 0 then 1 else min threadCount (of_nat rowsScanned))"

definition chunkSize :: "u4 \<Rightarrow> nat \<Rightarrow> nat" where
  "chunkSize active rowsScanned = (if active = 0 then 0 else (rowsScanned + unat active - 1) div unat active)"

fun scanChunk :: "(table_row \<Rightarrow> bool result option) \<Rightarrow> table \<Rightarrow> nat list \<Rightarrow> nat list result option" where
  "scanChunk func t [] = Some (Inr [])"
| "scanChunk func t (a # as) =
     bindO (Some (cellRow t a)) (\<lambda>r. bindO (if isDeleted r then Some (Inr False) else func r) (\<lambda>accepted.
     bindO (scanChunk func t as) (\<lambda>out. Some (Inr (if accepted then a # out else out)))))"

definition chunkTask :: "(table_row \<Rightarrow> bool result option) \<Rightarrow> table \<Rightarrow> nat \<Rightarrow> nat \<Rightarrow> nat list result option" where
  "chunkTask func t chunk chunkIndex =
     (let index = chunkIndex * chunk; stop = min (index + chunk) (length (autoIncrementIndex t))
      in if chunk = 0 \<or> stop \<le> index then Some (Inr []) else scanChunk func t (take (stop - index) (drop index (autoIncrementIndex t))))"

definition listRows :: "u4 \<Rightarrow> (table_row \<Rightarrow> bool result option) \<Rightarrow> table \<Rightarrow> nat list list result option" where
  "listRows hardwareThreads func t =
     (let rowsScanned = length (autoIncrementIndex t); active = activeThreads hardwareThreads rowsScanned
      in mapO (chunkTask func t (chunkSize active rowsScanned)) [0..<unat active])"

section \<open>Writing and reading the table file\<close>

definition putRow :: "table_row \<Rightarrow> bytes" where
  "putRow r = putU8 (rowFlags r) @ putU8 (rowId r) @ rowBody r"

definition rowOf :: "bytes \<Rightarrow> table_row" where
  "rowOf bs = \<lparr>rowFlags = getU8 bs, rowId = getU8 (drop 8 bs), rowBody = drop 16 bs\<rparr>"

text \<open>Writing at a position of a file; a gap behind its end is filled with zero bytes.\<close>

definition overwrite :: "nat \<Rightarrow> bytes \<Rightarrow> bytes \<Rightarrow> bytes" where
  "overwrite pos bs content =
     take pos (content @ replicate (pos - length content) 0) @ bs @ drop (pos + length bs) content"

definition headerSize :: nat where
  "headerSize = 8 + MAX_TABLE_NAME + 8"

definition getHeaderSize :: "table \<Rightarrow> nat" where
  "getHeaderSize t = unat (of_nat (headerSize + propertiesSize) + (columnCount t - 1) * of_nat propertiesSize :: u8)"

definition putHeader :: "table \<Rightarrow> bytes" where
  "putHeader t = putU8 (layoutSignature t) @ fixedText MAX_TABLE_NAME (layoutName t) @ putU8 (columnCount t)"

definition writeHeader :: "table \<Rightarrow> table \<times> bytes" where
  "writeHeader t = (let t' = t\<lparr>columnCount := of_nat (length (tableColumns t))\<rparr> in (t', putHeader t'))"

text \<open>\<^verbatim>\<open>&*_columns.begin()\<close> dereferences the end of an empty vector.\<close>

definition writeSchema :: "table \<Rightarrow> bytes result" where
  "writeSchema t = (if tableColumns t = [] then Inl Undefined else Inr (concat (map putProperties (tableColumns t))))"

fun writeLoop :: "table \<Rightarrow> nat list \<Rightarrow> nat \<Rightarrow> nat \<Rightarrow> nat \<Rightarrow> bytes \<Rightarrow> bytes result" where
  "writeLoop t [] autoincrement pos skippedRows content = Inr content"
| "writeLoop t (a # as) autoincrement pos skippedRows content =
     bindR (cellRow t a) (\<lambda>r.
       if unat (rowId r) \<noteq> autoincrement then Inl AssertFail
       else if dirtyRows t (of_nat autoincrement) \<noteq> None then
         let pos' = (if 0 < skippedRows then getHeaderSize t + autoincrement * rowSize t else pos)
         in writeLoop t as (autoincrement + 1) (pos' + rowSize t) 0 (overwrite pos' (putRow r) content)
       else writeLoop t as (autoincrement + 1) pos (skippedRows + 1) content)"

definition writeRows :: "table \<Rightarrow> bytes \<Rightarrow> (table \<times> bytes) result" where
  "writeRows t content =
     bindR (writeLoop t (autoIncrementIndex t) 0 (getHeaderSize t) 0 content) (\<lambda>content'.
       Inr (t\<lparr>dirtyRows := Map.empty\<rparr>, content'))"

definition writeTable :: "table \<Rightarrow> file_system \<Rightarrow> (table \<times> file_system) result" where
  "writeTable t fs =
     (case fs (tableFilename t) of
        Some content \<Rightarrow>
          if \<not> isDirty t then Inr (t, fs)
          else bindR (writeRows t content) (\<lambda>(t', content').
            Inr (t'\<lparr>isDirty := False\<rparr>, fs(tableFilename t \<mapsto> content')))
      | None \<Rightarrow>
          (case writeHeader t of (t1, header) \<Rightarrow>
             bindR (writeSchema t1) (\<lambda>schema.
             bindR (writeRows t1 (header @ schema)) (\<lambda>(t', content').
               Inr (t'\<lparr>isDirty := False\<rparr>, fs(tableFilename t \<mapsto> content'))))))"

definition cleanTable :: "table \<Rightarrow> string_pool \<Rightarrow> file_system \<Rightarrow> file_system" where
  "cleanTable t p fs = (cleanPool p fs)(tableFilename t := None)"

definition backupTable :: "table \<Rightarrow> file_system \<Rightarrow> file_system" where
  "backupTable t fs = backupPrevFile (tableFilename t) fs"

text \<open>The header is taken over before its signature is checked.\<close>

definition readTableHeader :: "bytes \<Rightarrow> (table, bool) prog" where
  "readTableHeader content =
     (if length content < headerSize then ret False
      else andThen (liftR (arrayText (take MAX_TABLE_NAME (drop 8 content)))) (\<lambda>name.
        andThen (modify (\<lambda>t. t\<lparr>layoutSignature := getU8 content, layoutName := name,
            columnCount := getU8 (drop (8 + MAX_TABLE_NAME) content)\<rparr>)) (\<lambda>_.
        andThen getState (\<lambda>t. ret (layoutSignature t = KAPA_TABLE_SIGNATURE)))))"

fun schemaLoop :: "nat \<Rightarrow> bytes \<Rightarrow> properties list result" where
  "schemaLoop 0 bs = Inr []"
| "schemaLoop (Suc n) bs = bindR (getProperties (take propertiesSize bs)) (\<lambda>p.
     bindR (schemaLoop n (drop propertiesSize bs)) (\<lambda>ps. Inr (p # ps)))"

primrec nameColumns :: "properties list \<Rightarrow> nat \<Rightarrow> (string \<rightharpoonup> nat) \<Rightarrow> (string \<rightharpoonup> nat)" where
  "nameColumns [] i m = m"
| "nameColumns (p # ps) i m = nameColumns ps (i + 1) (m(columnName p \<mapsto> i))"

text \<open>
  \<^verbatim>\<open>readSchema\<close> ignores how much \<^verbatim>\<open>fread\<close> delivered; a description that is cut off has no
  determined value.  The result is the rest of the file.
\<close>

definition readSchema :: "bytes \<Rightarrow> (table, bytes) prog" where
  "readSchema bs = andThen getState (\<lambda>t.
     let n = unat (columnCount t); complete = min n (length bs div propertiesSize);
         resized = take n (tableColumns t @ replicate n emptyProperties)
     in if n = 0 \<or> (complete < n \<and> length bs mod propertiesSize \<noteq> 0) then throw Undefined
     else andThen (liftR (schemaLoop complete bs)) (\<lambda>ps. let columns = ps @ drop complete resized in
       andThen (modify (\<lambda>t. t\<lparr>tableColumns := columns, columnByName := nameColumns columns 0 (columnByName t)\<rparr>)) (\<lambda>_.
       ret (drop (n * propertiesSize) bs))))"

text \<open>A last block that is shorter than a row ends the loop; the row allocated for it is leaked.
  The row size is the size of a row structure and never zero.\<close>

function readRowsLoop :: "row_key \<Rightarrow> nat \<Rightarrow> bytes \<Rightarrow> (table, bool) prog" where
  "readRowsLoop key n bs =
     andThen allocateRow (\<lambda>a.
       if n = 0 \<or> length bs < n then ret True
       else andThen (assign a (rowOf (take n bs))) (\<lambda>_.
         andThen (getKey key a) (\<lambda>k. andThen (internalAdd a k) (\<lambda>_. readRowsLoop key n (drop n bs)))))"
  by pat_completeness auto
termination by (relation "measure (\<lambda>(key, n, bs). length bs)") auto

declare readRowsLoop.simps [simp del]

definition readRows :: "row_key \<Rightarrow> bytes \<Rightarrow> (table, bool) prog" where
  "readRows key bs = andThen getState (\<lambda>t. readRowsLoop key (rowSize t) bs)"

definition readTable :: "row_key \<Rightarrow> file_system \<Rightarrow> (table, bool) prog" where
  "readTable key fs = andThen getState (\<lambda>t.
     case fs (tableFilename t) of
       None \<Rightarrow> ret True
     | Some content \<Rightarrow> andThen (readTableHeader content) (\<lambda>ok.
         if \<not> ok then ret False
         else andThen (readSchema (drop headerSize content)) (\<lambda>rest. readRows key rest)))"

section \<open>The abstract table: a list of rows with distinct keys\<close>

text \<open>The invariant: row \<open>i\<close> of the abstract table has identifier \<open>i\<close> and key \<open>ks ! i\<close>.\<close>

definition tableRep :: "row_key \<Rightarrow> table \<Rightarrow> table_row list \<Rightarrow> string list \<Rightarrow> bool" where
  "tableRep key t rs ks \<longleftrightarrow>
     length (autoIncrementIndex t) = length rs \<and> distinct (autoIncrementIndex t) \<and>
     length ks = length rs \<and> distinct ks \<and> tableRows t = rev (zip ks (autoIncrementIndex t)) \<and>
     (\<forall>i<length rs. heap t (autoIncrementIndex t ! i) = Some (Holds (rs ! i)) \<and> rowId (rs ! i) = of_nat i \<and>
        key (rs ! i) = Inr (ks ! i) \<and> length (rowBody (rs ! i)) + 16 = rowSize t) \<and>
     (\<forall>a\<in>set (autoIncrementIndex t). a < nextAddress t) \<and>
     length rs < 2 ^ 64 \<and> (\<forall>i. dirtyRows t i \<noteq> None \<longrightarrow> unat i < length rs)"

lemma deref_ok [simp]: "heap t a = Some (Holds r) \<Longrightarrow> deref a t = (Inr r, t)"
  by (simp add: deref_def)

lemma assign_ok [simp]: "heap t a = Some c \<Longrightarrow> assign a r t = (Inr (), t\<lparr>heap := (heap t)(a \<mapsto> Holds r)\<rparr>)"
  by (simp add: assign_def)

lemma cellRow_ok [simp]: "heap t a = Some (Holds r) \<Longrightarrow> cellRow t a = Inr r"
  by (simp add: cellRow_def)

lemma setDirty_apply [simp]: "setDirty t = (Inr (), t\<lparr>isDirty := True\<rparr>)"
  by (simp add: setDirty_def)

lemma getKey_ok [simp]: "heap t a = Some (Holds r) \<Longrightarrow> getKey key a t = (key r, t)"
  by (cases "key r") (simp_all add: getKey_def)

lemma newRow_apply [simp]:
  "newRow r t = (Inr (nextAddress t), t\<lparr>heap := (heap t)(nextAddress t \<mapsto> Holds r), nextAddress := nextAddress t + 1\<rparr>)"
  by (simp add: newRow_def allocateRow_def)

lemma unat_of_nat_less: "i < 2 ^ 64 \<Longrightarrow> unat (of_nat i :: u8) = i"
  by (simp add: unat_of_nat take_bit_nat_eq_self)

lemma map_of_rep:
  assumes "tableRep key t rs ks"
  shows "map_of (tableRows t) k = Some a \<longleftrightarrow> (\<exists>i<length rs. ks ! i = k \<and> autoIncrementIndex t ! i = a)"
proof -
  have "distinct (map fst (tableRows t))" using assms by (simp add: tableRep_def rev_map [symmetric])
  from map_of_eq_Some_iff [OF this] show ?thesis using assms by (auto simp: tableRep_def in_set_zip)
qed

lemma map_of_rep_None:
  assumes "tableRep key t rs ks" shows "map_of (tableRows t) k = None \<longleftrightarrow> k \<notin> set ks"
proof -
  have "fst ` set (zip ks (autoIncrementIndex t)) = set ks"
    using assms unfolding tableRep_def by (metis map_fst_zip set_map)
  then show ?thesis using assms by (simp add: tableRep_def map_of_eq_None_iff)
qed

definition allocated :: "table \<Rightarrow> nat \<Rightarrow> table_row \<Rightarrow> bool" where
  "allocated t a r \<longleftrightarrow> heap t a = Some (Holds r) \<and> a \<notin> set (autoIncrementIndex t) \<and> a < nextAddress t"

lemma internalAdd_rep:
  assumes t: "tableRep key t rs ks" and a: "allocated t a r"
    and k: "k \<notin> set ks" "key (r\<lparr>rowId := of_nat (length rs)\<rparr>) = Inr k" "length (rowBody r) + 16 = rowSize t" "length rs + 1 < 2 ^ 64"
  defines "r' \<equiv> r\<lparr>rowId := of_nat (length rs)\<rparr>"
  shows "\<exists>t'. internalAdd a k t = (Inr (), t') \<and> tableRep key t' (rs @ [r']) (ks @ [k]) \<and> heap t' a = Some (Holds r') \<and>
    t' = t\<lparr>heap := (heap t)(a \<mapsto> Holds r'), tableRows := (k, a) # tableRows t, autoIncrementIndex := autoIncrementIndex t @ [a]\<rparr>"
proof -
  let ?t = "t\<lparr>heap := (heap t)(a \<mapsto> Holds r'), tableRows := (k, a) # tableRows t, autoIncrementIndex := autoIncrementIndex t @ [a]\<rparr>"
  have len: "length (autoIncrementIndex t) = length rs" and heap: "heap t a = Some (Holds r)"
    and new: "a \<notin> set (autoIncrementIndex t)" "a < nextAddress t"
    using t a by (auto simp: tableRep_def allocated_def)
  have idx: "autoIncrementIndex t ! i \<noteq> a" if "i < length rs" for i using that len new by (metis nth_mem)
  have rep: "tableRep key ?t (rs @ [r']) (ks @ [k])"
    using t k new idx by (auto simp: tableRep_def nth_append less_Suc_eq r'_def)
  have first: "\<exists>c. heap ?t (autoIncrementIndex ?t ! 0) = Some (Holds c)"
    using rep unfolding tableRep_def by (metis length_append_singleton zero_less_Suc)
  have "map_of (tableRows t) k = None" using map_of_rep_None [OF t] k by simp
  then have "internalAdd a k t = (Inr (), ?t)"
    using heap first by (auto simp: internalAdd_def len r'_def [symmetric])
  with rep show ?thesis by auto
qed

lemma addRow_rep:
  assumes t: "tableRep key t rs ks" and a: "allocated t a r"
    and k: "k \<notin> set ks" "key r = Inr k" "key (r\<lparr>rowId := of_nat (length rs)\<rparr>) = Inr k"
      "length (rowBody r) + 16 = rowSize t" "length rs + 1 < 2 ^ 64"
  shows "\<exists>t'. addRow key a t = (Inr (of_nat (length rs)), t') \<and>
    tableRep key t' (rs @ [r\<lparr>rowId := of_nat (length rs)\<rparr>]) (ks @ [k]) \<and> getByKey t' k = Some a \<and>
    t' = t\<lparr>heap := (heap t)(a \<mapsto> Holds (r\<lparr>rowId := of_nat (length rs)\<rparr>)), tableRows := (k, a) # tableRows t,
      autoIncrementIndex := autoIncrementIndex t @ [a], isDirty := True, dirtyRows := (dirtyRows t)(of_nat (length rs) \<mapsto> IsNew)\<rparr>"
proof -
  let ?r = "r\<lparr>rowId := of_nat (length rs)\<rparr>"
  from internalAdd_rep [OF t a k(1,3,4,5)] obtain t1 where t1: "internalAdd a k t = (Inr (), t1)"
    "tableRep key t1 (rs @ [?r]) (ks @ [k])" "heap t1 a = Some (Holds ?r)"
    "t1 = t\<lparr>heap := (heap t)(a \<mapsto> Holds ?r), tableRows := (k, a) # tableRows t, autoIncrementIndex := autoIncrementIndex t @ [a]\<rparr>"
    by blast
  let ?t = "t1\<lparr>isDirty := True, dirtyRows := (dirtyRows t1)(of_nat (length rs) \<mapsto> IsNew)\<rparr>"
  have "heap t a = Some (Holds r)" using a by (simp add: allocated_def)
  then have run: "addRow key a t = (Inr (of_nat (length rs)), ?t)"
    using t1(1,3) k(2) by (simp add: addRow_def markNew_def)
  have "tableRep key ?t (rs @ [?r]) (ks @ [k])"
    using t1(2) k(5) unfolding tableRep_def by (auto simp: unat_of_nat_less)
  with run t1(4) show ?thesis by (simp add: getByKey_def)
qed

lemma getRow_rep:
  assumes "tableRep key t rs ks" "unat i < length rs"
  shows "getRow i t = (Inr (autoIncrementIndex t ! unat i), t)"
    "heap t (autoIncrementIndex t ! unat i) = Some (Holds (rs ! unat i))" "rowId (rs ! unat i) = i"
  using assms by (simp_all add: tableRep_def getRow_def)

text \<open>Writing a row in place: the identifier, the key and the size of the row stay.\<close>

lemma assign_rep:
  assumes t: "tableRep key t rs ks" and i: "i < length rs"
    and r: "rowId r = rowId (rs ! i)" "key r = key (rs ! i)" "length (rowBody r) = length (rowBody (rs ! i))"
  shows "tableRep key (t\<lparr>heap := (heap t)(autoIncrementIndex t ! i \<mapsto> Holds r)\<rparr>) (rs[i := r]) ks"
proof -
  have "distinct (autoIncrementIndex t)" "length (autoIncrementIndex t) = length rs" using t by (auto simp: tableRep_def)
  then have "j < length rs \<Longrightarrow> autoIncrementIndex t ! j = autoIncrementIndex t ! i \<longleftrightarrow> j = i" for j
    using i by (simp add: nth_eq_iff_index_eq)
  with t i r show ?thesis by (auto simp: tableRep_def nth_list_update)
qed

definition markedUpdated :: "u8 \<Rightarrow> table \<Rightarrow> table" where
  "markedUpdated i t = (if dirtyRows t i \<noteq> None then t else t\<lparr>dirtyRows := (dirtyRows t)(i \<mapsto> IsUpdate)\<rparr>)"

lemma markUpdated_ok:
  "heap t a = Some (Holds r) \<Longrightarrow> markUpdated a t = (Inr (), markedUpdated (rowId r) t)"
  by (simp add: markUpdated_def markedUpdated_def)

lemma markedUpdated_rep:
  "tableRep key t rs ks \<Longrightarrow> unat i < length rs \<Longrightarrow> tableRep key (markedUpdated i (t\<lparr>isDirty := d\<rparr>)) rs ks"
  by (auto simp: markedUpdated_def tableRep_def)

lemma markedUpdated_simps [simp]:
  "heap (markedUpdated i t) = heap t" "autoIncrementIndex (markedUpdated i t) = autoIncrementIndex t"
  "isDirty (markedUpdated i t) = isDirty t" "rowSize (markedUpdated i t) = rowSize t"
  "tableFilename (markedUpdated i t) = tableFilename t" "tableColumns (markedUpdated i t) = tableColumns t"
  "columnCount (markedUpdated i t) = columnCount t" "layoutName (markedUpdated i t) = layoutName t"
  "layoutSignature (markedUpdated i t) = layoutSignature t"
  "dirtyRows (markedUpdated i t) j = None \<longleftrightarrow> dirtyRows t j = None \<and> i \<noteq> j"
  by (auto simp: markedUpdated_def)

lemma deleteRow_rep:
  assumes t: "tableRep key t rs ks" and i: "unat i < length rs"
    and key: "key ((rs ! unat i)\<lparr>rowFlags := rowFlags (rs ! unat i) OR Deleted\<rparr>) = key (rs ! unat i)"
  defines "r \<equiv> (rs ! unat i)\<lparr>rowFlags := rowFlags (rs ! unat i) OR Deleted\<rparr>"
  defines "t' \<equiv> markedUpdated i (t\<lparr>heap := (heap t)(autoIncrementIndex t ! unat i \<mapsto> Holds r), isDirty := True\<rparr>)"
  shows "deleteRow i t = (Inr True, t')" "tableRep key t' (rs[unat i := r]) ks"
proof -
  note g = getRow_rep [OF t i]
  have id: "rowId r = i" using g(3) by (simp add: r_def)
  show "deleteRow i t = (Inr True, t')"
    using g by (simp add: deleteRow_def markUpdated_ok id t'_def r_def [symmetric])
  have "tableRep key (t\<lparr>heap := (heap t)(autoIncrementIndex t ! unat i \<mapsto> Holds r)\<rparr>) (rs[unat i := r]) ks"
    by (rule assign_rep [OF t i]) (simp_all add: r_def key)
  from markedUpdated_rep [OF this, of i True] i show "tableRep key t' (rs[unat i := r]) ks" by (simp add: t'_def)
qed

lemma updateInPlace_rep:
  assumes t: "tableRep key t rs ks" and i: "i < length rs"
    and r: "rowId r = rowId (rs ! i)" "key r = key (rs ! i)" "length (rowBody r) = length (rowBody (rs ! i))"
  defines "a \<equiv> autoIncrementIndex t ! i"
  defines "t' \<equiv> markedUpdated (of_nat i) (t\<lparr>heap := (heap t)(a \<mapsto> Holds r), isDirty := True\<rparr>)"
  shows "updateInPlace (andThen (assign a r) (\<lambda>_. ret a)) t = (Inr (), t')" "tableRep key t' (rs[i := r]) ks"
proof -
  have a: "heap t a = Some (Holds (rs ! i))" and id: "rowId r = of_nat i" and lt: "i < 2 ^ 64"
    using t i r by (auto simp: tableRep_def a_def)
  show "updateInPlace (andThen (assign a r) (\<lambda>_. ret a)) t = (Inr (), t')"
    using a by (simp add: updateInPlace_def markUpdated_ok id t'_def)
  have "tableRep key (t\<lparr>heap := (heap t)(a \<mapsto> Holds r)\<rparr>) (rs[i := r]) ks"
    unfolding a_def by (rule assign_rep [OF t i r])
  from markedUpdated_rep [OF this, of "of_nat i" True] i lt show "tableRep key t' (rs[i := r]) ks"
    by (simp add: t'_def unat_of_nat_less)
qed

lemma addOrUpdate_fresh:
  assumes "tableRep key t rs ks" "allocated t a r" "k \<notin> set ks" "key r = Inr k"
    "key (r\<lparr>rowId := of_nat (length rs)\<rparr>) = Inr k" "length (rowBody r) + 16 = rowSize t" "length rs + 1 < 2 ^ 64"
  shows "\<exists>t'. addOrUpdate key a t = (Inr (of_nat (length rs)), t') \<and>
    tableRep key t' (rs @ [r\<lparr>rowId := of_nat (length rs)\<rparr>]) (ks @ [k])"
proof -
  let ?r = "r\<lparr>rowId := of_nat (length rs)\<rparr>"
  from internalAdd_rep [OF assms(1,2,3,5,6,7)] obtain t1 where t1: "internalAdd a k t = (Inr (), t1)"
    "tableRep key t1 (rs @ [?r]) (ks @ [k])" "heap t1 a = Some (Holds ?r)" by blast
  let ?t = "t1\<lparr>dirtyRows := (dirtyRows t1)(of_nat (length rs) \<mapsto> IsNew), isDirty := True\<rparr>"
  have "heap t a = Some (Holds r)" "map_of (tableRows t) k = None"
    using assms(2,3) map_of_rep_None [OF assms(1)] by (auto simp: allocated_def)
  then have "addOrUpdate key a t = (Inr (of_nat (length rs)), ?t)"
    using t1(1,3) assms(4) by (simp add: addOrUpdate_def markNew_def)
  moreover have "tableRep key ?t (rs @ [?r]) (ks @ [k])"
    using t1(2) assms(7) unfolding tableRep_def by (auto simp: unat_of_nat_less)
  ultimately show ?thesis by blast
qed

lemma addOrUpdate_stale:
  assumes "tableRep key t rs ks" "allocated t a r" "key r = Inr k" "k \<in> set ks"
  shows "fst (addOrUpdate key a t) = Inl Undefined \<and> fst (updateRow key a t) = Inl Undefined"
proof -
  have heap: "heap t a = Some (Holds r)" and new: "a \<notin> set (autoIncrementIndex t)" using assms(2) by (auto simp: allocated_def)
  obtain d where d: "map_of (tableRows t) k = Some d" using map_of_rep_None [OF assms(1), of k] assms(4) by auto
  then obtain i where i: "i < length rs" "autoIncrementIndex t ! i = d" using map_of_rep [OF assms(1)] by blast
  then have stored: "heap t d = Some (Holds (rs ! i))" "d \<noteq> a"
    using assms(1) new by (auto simp: tableRep_def)
  have upd: "\<exists>t'. internalUpdate a k t = (Inr (), t') \<and> heap t' a = None"
    using heap stored d by (simp add: internalUpdate_def freeRow_def)
  then obtain t' where t': "internalUpdate a k t = (Inr (), t')" "heap t' a = None" by blast
  have freed: "markUpdated a t'' = (Inl Undefined, t'')" if "heap t'' a = None" for t''
    using that by (simp add: markUpdated_def deref_def)
  have "fst (addOrUpdate key a t) = Inl Undefined"
    using heap assms(3) d t' freed by (simp add: addOrUpdate_def)
  moreover have "fst (updateRow key a t) = Inl Undefined"
    using heap assms(3) t' freed by (simp add: updateRow_def)
  ultimately show ?thesis ..
qed

text \<open>\<^verbatim>\<open>addOrUpdate\<close> of a row whose key the table already holds: \<^verbatim>\<open>internalUpdate\<close> copies the row
  over the stored one and frees it, and the caller then reads \<^verbatim>\<open>row->id\<close> of the freed row.  The
  stored row has been replaced by then, but the call has no defined result.  \<^verbatim>\<open>update\<close> does the same.
\<close>
lemma addOrUpdate_use_after_free:
  assumes "tableRep key t rs ks" "allocated t a r" "key r = Inr k" "k \<in> set ks"
  shows "fst (addOrUpdate key a t) = Inl Undefined \<and> fst (updateRow key a t) = Inl Undefined"
  using assms by (rule addOrUpdate_stale)

lemma addOrUpdate_use_after_free_witness:
  "\<exists>t a. fst (addOrUpdate (\<lambda>r. Inr (map byteChar (rowBody r))) a t) = Inl Undefined \<and> tableSize t = 1"
proof -
  let ?key = "\<lambda>r. Inr (map byteChar (rowBody r))" and ?r = "\<lparr>rowFlags = 0, rowId = 0, rowBody = [97]\<rparr>"
  let ?t = "\<lparr>heap = [0 \<mapsto> Holds ?r, 1 \<mapsto> Holds ?r], nextAddress = 2, tableRows = [(map byteChar [97], 0)], autoIncrementIndex = [0],
    tableFilename = [], isDirty = False, rowSize = 17, tableName = [], dirtyRows = Map.empty, tableColumns = [],
    columnByName = Map.empty, layoutSignature = 0, layoutName = [], columnCount = 0\<rparr>"
  have "tableRep ?key ?t [?r] [map byteChar [97]]" by (simp add: tableRep_def)
  moreover have "allocated ?t 1 ?r" by (simp add: allocated_def)
  ultimately have "fst (addOrUpdate ?key 1 ?t) = Inl Undefined \<and> fst (updateRow ?key 1 ?t) = Inl Undefined"
    by (rule addOrUpdate_use_after_free) simp_all
  then show ?thesis by (intro exI [of _ ?t] exI [of _ 1]) (simp add: tableSize_def)
qed

section \<open>Listing in parallel chunks\<close>

definition hits :: "(table_row \<Rightarrow> bool) \<Rightarrow> table \<Rightarrow> nat \<Rightarrow> bool" where
  "hits accepts t a \<longleftrightarrow> (case heap t a of Some (Holds r) \<Rightarrow> \<not> isDeleted r \<and> accepts r | _ \<Rightarrow> False)"

lemma rep_holds: "tableRep key t rs ks \<Longrightarrow> a \<in> set (autoIncrementIndex t) \<Longrightarrow> \<exists>r. heap t a = Some (Holds r)"
  unfolding tableRep_def by (metis in_set_conv_nth)

lemma scanChunk_hits:
  "\<forall>a\<in>set as. \<exists>r. heap t a = Some (Holds r) \<and> (\<not> isDeleted r \<longrightarrow> func r = Some (Inr (accepts r))) \<Longrightarrow>
     scanChunk func t as = Some (Inr (filter (hits accepts t) as))"
  by (induction as) (auto simp: hits_def cellRow_def)

lemma rep_accepts:
  assumes "tableRep key t rs ks" "\<forall>r\<in>set rs. \<not> isDeleted r \<longrightarrow> func r = Some (Inr (accepts r))" "a \<in> set (autoIncrementIndex t)"
  shows "\<exists>r. heap t a = Some (Holds r) \<and> (\<not> isDeleted r \<longrightarrow> func r = Some (Inr (accepts r)))"
proof -
  obtain i where "i < length (autoIncrementIndex t)" "a = autoIncrementIndex t ! i" using assms(3) by (auto simp: in_set_conv_nth)
  moreover then have "i < length rs" "heap t a = Some (Holds (rs ! i))" using assms(1) by (auto simp: tableRep_def)
  ultimately show ?thesis using assms(2) nth_mem by blast
qed

lemma chunkTask_hits:
  assumes "tableRep key t rs ks" "\<forall>r\<in>set rs. \<not> isDeleted r \<longrightarrow> func r = Some (Inr (accepts r))"
  shows "chunkTask func t m c = Some (Inr (filter (hits accepts t) (take m (drop (c * m) (autoIncrementIndex t)))))"
proof -
  let ?xs = "autoIncrementIndex t"
  have "take (min (c * m + m) (length ?xs) - c * m) (drop (c * m) ?xs) = take m (drop (c * m) ?xs)" by (simp add: min_def)
  moreover have "take m (drop (c * m) ?xs) = []" if "m = 0 \<or> min (c * m + m) (length ?xs) \<le> c * m" using that by auto
  moreover have "scanChunk func t (take m (drop (c * m) ?xs)) = Some (Inr (filter (hits accepts t) (take m (drop (c * m) ?xs))))"
    using rep_accepts [OF assms] by (intro scanChunk_hits) (meson in_set_dropD in_set_takeD)
  ultimately show ?thesis by (auto simp: chunkTask_def Let_def)
qed

lemma concat_chunks: "concat (map (\<lambda>c. take m (drop (c * m) xs)) [0..<k]) = take (k * m) xs"
  by (induction k) (simp_all add: take_add [symmetric] add.commute)

lemma activeThreads_pos: "n < 2 ^ 32 \<Longrightarrow> 0 < unat (activeThreads hw n)"
proof -
  assume n: "n < 2 ^ 32"
  have "unat (of_nat n :: u4) = n" using n by (simp add: unat_of_nat take_bit_nat_eq_self)
  then have "(of_nat n :: u4) \<noteq> 0" if "n \<noteq> 0" using that by (metis unsigned_0)
  then have "activeThreads hw n \<noteq> 0" by (auto simp: activeThreads_def Let_def min_def max_def)
  then show ?thesis by (simp add: unat_gt_0)
qed

lemma chunks_cover: "0 < unat a \<Longrightarrow> n \<le> unat a * chunkSize a n"
proof -
  assume a: "0 < unat a"
  let ?q = "n + unat a - 1"
  have "?q = ?q div unat a * unat a + ?q mod unat a" by simp
  moreover have "?q mod unat a \<le> unat a - 1" using a by (simp add: less_Suc_eq_le [symmetric])
  ultimately have "n \<le> ?q div unat a * unat a" using a by linarith
  moreover have "a \<noteq> 0" using a by auto
  ultimately show ?thesis by (simp add: chunkSize_def mult.commute)
qed

lemma mapR_cellRow_hits:
  assumes "tableRep key t rs ks"
  shows "mapR (cellRow t) (filter (hits accepts t) (autoIncrementIndex t)) = Inr (filter (\<lambda>r. \<not> isDeleted r \<and> accepts r) rs)"
proof -
  have "mapR (cellRow t) (filter (hits accepts t) as) = Inr (filter (\<lambda>r. \<not> isDeleted r \<and> accepts r) us)"
    if "list_all2 (\<lambda>a r. heap t a = Some (Holds r)) as us" for as us
    using that by (induction rule: list_all2_induct) (auto simp: hits_def)
  moreover have "list_all2 (\<lambda>a r. heap t a = Some (Holds r)) (autoIncrementIndex t) rs"
    using assms by (auto simp: tableRep_def list_all2_conv_all_nth)
  ultimately show ?thesis by blast
qed

text \<open>The chunks of the threads cover the rows without overlap.\<close>

lemma listRows_ok:
  assumes "tableRep key t rs ks" "length rs < 2 ^ 32" "\<forall>r\<in>set rs. \<not> isDeleted r \<longrightarrow> func r = Some (Inr (accepts r))"
  shows "\<exists>out. listRows hardwareThreads func t = Some (Inr out) \<and>
    mapR (cellRow t) (concat out) = Inr (filter (\<lambda>r. \<not> isDeleted r \<and> accepts r) rs)"
proof -
  let ?xs = "autoIncrementIndex t" and ?a = "activeThreads hardwareThreads (length rs)"
  let ?m = "chunkSize ?a (length rs)"
  have len: "length ?xs = length rs" using assms(1) by (simp add: tableRep_def)
  let ?out = "map (\<lambda>c. filter (hits accepts t) (take ?m (drop (c * ?m) ?xs))) [0..<unat ?a]"
  have run: "listRows hardwareThreads func t = Some (Inr ?out)"
    by (simp add: listRows_def Let_def len chunkTask_hits [OF assms(1,3)] mapO_ok)
  have "concat ?out = filter (hits accepts t) (concat (map (\<lambda>c. take ?m (drop (c * ?m) ?xs)) [0..<unat ?a]))"
    by (simp add: filter_concat comp_def)
  also have "\<dots> = filter (hits accepts t) ?xs"
    using chunks_cover [OF activeThreads_pos [OF assms(2), of hardwareThreads], of "length rs"]
    by (simp add: concat_chunks len)
  finally show ?thesis using run mapR_cellRow_hits [OF assms(1)] by auto
qed

definition twoRows :: table where
  "twoRows = \<lparr>heap = [0 \<mapsto> Holds \<lparr>rowFlags = 0, rowId = 0, rowBody = [97]\<rparr>, 1 \<mapsto> Holds \<lparr>rowFlags = 1, rowId = 1, rowBody = [98]\<rparr>],
    nextAddress = 2, tableRows = [([byteChar 98], 1), ([byteChar 97], 0)], autoIncrementIndex = [0, 1],
    tableFilename = [], isDirty = False, rowSize = 17, tableName = [], dirtyRows = Map.empty, tableColumns = [],
    columnByName = Map.empty, layoutSignature = 0, layoutName = [], columnCount = 0\<rparr>"

lemma twoBytes: "byteChar a = byteChar b \<longleftrightarrow> a = b"
  by (metis charByte_byteChar)

lemma twoRows_rep: "tableRep (\<lambda>r. Inr (map byteChar (rowBody r))) twoRows
    [\<lparr>rowFlags = 0, rowId = 0, rowBody = [97]\<rparr>, \<lparr>rowFlags = 1, rowId = 1, rowBody = [98]\<rparr>] [[byteChar 97], [byteChar 98]]"
  by (simp add: tableRep_def twoRows_def less_Suc_eq twoBytes)

text \<open>(C37)
  Listing a table with any number of hardware threads shows every row that is not deleted and
  satisfies the filter, once and in the order of the identifiers: the chunks the threads work on
  cover the rows without overlap.  The table has fewer than \<open>2 ^ 32\<close> rows and the filter returns
  on each of them.
\<close>

theorem listRows_correct:
  assumes "tableRep key t rs ks" "length rs < 2 ^ 32" "\<forall>r\<in>set rs. \<not> isDeleted r \<longrightarrow> func r = Some (Inr (accepts r))"
  shows "\<exists>out. listRows hardwareThreads func t = Some (Inr out) \<and>
    mapR (cellRow t) (concat out) = Inr (filter (\<lambda>r. \<not> isDeleted r \<and> accepts r) rs)"
  by (rule listRows_ok [OF assms])

theorem listRows_correct_witness:
  "\<exists>out. listRows 8 (\<lambda>r. Some (Inr True)) twoRows = Some (Inr out) \<and>
     mapR (cellRow twoRows) (concat out) = Inr [\<lparr>rowFlags = 0, rowId = 0, rowBody = [97]\<rparr>]"
  using listRows_correct [OF twoRows_rep, of "\<lambda>r. Some (Inr True)" "\<lambda>r. True" 8] by (simp add: isDeleted_def Deleted_def)

section \<open>The file holds the rows\<close>

definition rowsImage :: "table_row list \<Rightarrow> bytes" where
  "rowsImage rs = concat (map putRow rs)"

definition schemaImage :: "table \<Rightarrow> bytes" where
  "schemaImage t = putHeader t @ concat (map putProperties (tableColumns t))"

definition schemaOk :: "table \<Rightarrow> bool" where
  "schemaOk t \<longleftrightarrow>
     columnCount t = of_nat (length (tableColumns t)) \<and> tableColumns t \<noteq> [] \<and> (\<forall>p\<in>set (tableColumns t). propertiesOk p) \<and>
     144 + 400 * length (tableColumns t) < 2 ^ 64 \<and> length (layoutName t) < 128 \<and> NUL \<notin> set (layoutName t) \<and>
     layoutSignature t = KAPA_TABLE_SIGNATURE"

text \<open>
  What the file must hold between two writes: the header and the schema, then a prefix of rows
  of which those not marked as dirty are current.
\<close>

definition synced :: "table \<Rightarrow> table_row list \<Rightarrow> file_system \<Rightarrow> bool" where
  "synced t rs fs \<longleftrightarrow>
     (\<exists>slots. length slots \<le> length rs \<and> (\<forall>r\<in>set slots. length (rowBody r) + 16 = rowSize t) \<and>
        (\<forall>i<length rs. dirtyRows t (of_nat i) = None \<longrightarrow> i < length slots \<and> slots ! i = rs ! i) \<and>
        (case fs (tableFilename t) of
           None \<Rightarrow> slots = []
         | Some content \<Rightarrow> content = schemaImage t @ rowsImage slots \<and> (\<not> isDirty t \<longrightarrow> slots = rs)))"

lemma length_putRow [simp]: "length (putRow r) = length (rowBody r) + 16"
  by (simp add: putRow_def)

lemma rowOf_putRow [simp]: "rowOf (putRow r) = r"
  by (simp add: rowOf_def putRow_def)

lemma length_concat_equal: "\<forall>b\<in>set bs. length b = n \<Longrightarrow> length (concat bs) = length bs * n"
  by (induction bs) auto

lemma length_putHeader: "length (layoutName t) < 128 \<Longrightarrow> length (putHeader t) = headerSize"
  by (simp add: putHeader_def headerSize_def MAX_TABLE_NAME_def)

lemma getHeaderSize_eq: "schemaOk t \<Longrightarrow> getHeaderSize t = length (schemaImage t)"
proof -
  assume t: "schemaOk t"
  let ?n = "length (tableColumns t)"
  have "(of_nat (headerSize + propertiesSize) + (columnCount t - 1) * of_nat propertiesSize :: u8) = of_nat (144 + 400 * ?n)"
    using t by (simp add: schemaOk_def headerSize_def propertiesSize_def MAX_TABLE_NAME_def algebra_simps)
  then have "getHeaderSize t = 144 + 400 * ?n"
    using t unat_of_nat_less [of "144 + 400 * ?n"] unfolding getHeaderSize_def schemaOk_def by metis
  moreover have "length (concat (map putProperties (tableColumns t))) = ?n * 400"
    using t length_concat_equal [of "map putProperties (tableColumns t)" 400] by (simp add: schemaOk_def propertiesSize_def)
  ultimately show ?thesis
    using t length_putHeader [of t] by (simp add: schemaImage_def schemaOk_def headerSize_def MAX_TABLE_NAME_def)
qed

lemma length_rowsImage: "\<forall>r\<in>set rs. length (rowBody r) + 16 = n \<Longrightarrow> length (rowsImage rs) = length rs * n"
  using length_concat_equal [of "map putRow rs" n] by (simp add: rowsImage_def)

lemma rowsImage_append [simp]: "rowsImage (rs @ us) = rowsImage rs @ rowsImage us" "rowsImage [] = []" "rowsImage (r # rs) = putRow r @ rowsImage rs"
  by (simp_all add: rowsImage_def)

lemma overwrite_slot:
  assumes slots: "\<forall>r\<in>set slots. length (rowBody r) + 16 = n" and r: "length (rowBody r) + 16 = n" and i: "i \<le> length slots"
  shows "overwrite (length h + i * n) (putRow r) (h @ rowsImage slots) = h @ rowsImage (take i slots @ [r] @ drop (i + 1) slots)"
proof -
  have split: "slots = take i slots @ drop i slots" by simp
  have len: "length (rowsImage (take i slots)) = i * n"
    using slots i length_rowsImage [of "take i slots" n] by (auto dest: in_set_takeD)
  have img: "h @ rowsImage slots = (h @ rowsImage (take i slots)) @ rowsImage (drop i slots)"
    using split rowsImage_append(1) [of "take i slots" "drop i slots"] by simp
  have pre: "length h + i * n = length (h @ rowsImage (take i slots))" using len by simp
  have tl: "drop n (rowsImage (drop i slots)) = rowsImage (drop (i + 1) slots)"
  proof (cases "i < length slots")
    case True
    then have "drop i slots = slots ! i # drop (i + 1) slots" by (simp add: Cons_nth_drop_Suc)
    moreover have "length (putRow (slots ! i)) = n" using True slots by simp
    ultimately show ?thesis using rowsImage_append(1) [of "[slots ! i]" "drop (i + 1) slots"] by simp
  next
    case False then show ?thesis by simp
  qed
  show ?thesis unfolding img pre overwrite_def using r tl by simp
qed

lemma writeLoop_image:
  assumes t: "tableRep key t rs ks" and h: "length h = getHeaderSize t"
    and "\<forall>r\<in>set slots. length (rowBody r) + 16 = rowSize t" "length slots \<le> length rs" "i \<le> length slots \<or> i = length rs"
    and "\<forall>j<length rs. dirtyRows t (of_nat j) = None \<longrightarrow> j < length slots \<and> slots ! j = rs ! j"
    and "take i slots = take i rs" "i \<le> length rs" "skipped = 0 \<longrightarrow> pos = getHeaderSize t + i * rowSize t"
  shows "writeLoop t (drop i (autoIncrementIndex t)) i pos skipped (h @ rowsImage slots) = Inr (h @ rowsImage rs)"
  using assms(3-)
proof (induction "length rs - i" arbitrary: i slots pos skipped)
  case 0
  then have "i = length rs" by simp
  moreover have "length (autoIncrementIndex t) = length rs" using t by (simp add: tableRep_def)
  moreover have "slots = rs" using 0 \<open>i = length rs\<close> by (metis take_all take_all_iff)
  ultimately show ?case by simp
next
  case (Suc d)
  then have i: "i < length rs" "i \<le> length slots" by auto
  have len: "length (autoIncrementIndex t) = length rs" and id: "unat (rowId (rs ! i)) = i"
    and cell: "heap t (autoIncrementIndex t ! i) = Some (Holds (rs ! i))" and sz: "length (rowBody (rs ! i)) + 16 = rowSize t"
    using t i by (auto simp: tableRep_def unat_of_nat_less)
  have head: "drop i (autoIncrementIndex t) = autoIncrementIndex t ! i # drop (i + 1) (autoIncrementIndex t)"
    using i len by (simp add: Cons_nth_drop_Suc)
  show ?case
  proof (cases "dirtyRows t (of_nat i) = None")
    case True
    with Suc.prems i have s: "i < length slots" "slots ! i = rs ! i" by auto
    have "writeLoop t (drop (i + 1) (autoIncrementIndex t)) (i + 1) pos (skipped + 1) (h @ rowsImage slots) = Inr (h @ rowsImage rs)"
      by (rule Suc.hyps(1)) (use Suc s i in \<open>auto simp: take_Suc_conv_app_nth\<close>)
    with True cell id show ?thesis by (simp add: head)
  next
    case False
    let ?p = "if 0 < skipped then getHeaderSize t + i * rowSize t else pos"
    let ?s = "take i slots @ [rs ! i] @ drop (i + 1) slots"
    have p: "?p = length h + i * rowSize t" using Suc.prems h by auto
    have ow: "overwrite ?p (putRow (rs ! i)) (h @ rowsImage slots) = h @ rowsImage ?s"
      unfolding p by (rule overwrite_slot) (use Suc.prems i sz in auto)
    have "writeLoop t (drop (i + 1) (autoIncrementIndex t)) (i + 1) (?p + rowSize t) 0 (h @ rowsImage ?s) = Inr (h @ rowsImage rs)"
    proof (rule Suc.hyps(1))
      show "\<forall>r\<in>set ?s. length (rowBody r) + 16 = rowSize t"
        using Suc.prems(1) sz by (auto dest: in_set_takeD in_set_dropD)
      show "\<forall>j<length rs. dirtyRows t (of_nat j) = None \<longrightarrow> j < length ?s \<and> ?s ! j = rs ! j"
        using Suc.prems(4) False i by (auto simp: nth_append nth_Cons' not_less_eq less_Suc_eq)
      show "take (i + 1) ?s = take (i + 1) rs" using Suc.prems(5) i by (simp add: take_Suc_conv_app_nth)
    qed (use Suc i p h in auto)
    with False cell id ow show ?thesis by (simp add: head Let_def)
  qed
qed

definition fileImage :: "table \<Rightarrow> table_row list \<Rightarrow> bytes" where
  "fileImage t rs = schemaImage t @ rowsImage rs"

lemma writeRows_image:
  assumes t: "tableRep key t rs ks" "schemaOk t" and slots: "length slots \<le> length rs" "\<forall>r\<in>set slots. length (rowBody r) + 16 = rowSize t"
    and "\<forall>i<length rs. dirtyRows t (of_nat i) = None \<longrightarrow> i < length slots \<and> slots ! i = rs ! i"
  shows "writeRows t (schemaImage t @ rowsImage slots) = Inr (t\<lparr>dirtyRows := Map.empty\<rparr>, fileImage t rs)"
  using writeLoop_image [OF t(1), of "schemaImage t" slots 0 0 "getHeaderSize t"] getHeaderSize_eq [OF t(2)] slots assms(5)
  by (simp add: writeRows_def fileImage_def)

lemma image_clean [simp]:
  "schemaImage (t\<lparr>dirtyRows := d, isDirty := b\<rparr>) = schemaImage t" "fileImage (t\<lparr>dirtyRows := d, isDirty := b\<rparr>) rs = fileImage t rs"
  by (simp_all add: schemaImage_def putHeader_def fileImage_def)

lemma writeTable_image:
  assumes t: "tableRep key t rs ks" "schemaOk t" and s: "synced t rs fs"
  shows "\<exists>t'. writeTable t fs = Inr (t', fs(tableFilename t \<mapsto> fileImage t rs)) \<and> tableRep key t' rs ks \<and> schemaOk t' \<and>
    synced t' rs (fs(tableFilename t \<mapsto> fileImage t rs)) \<and> tableFilename t' = tableFilename t \<and> rowSize t' = rowSize t"
proof -
  let ?t = "t\<lparr>dirtyRows := Map.empty, isDirty := False\<rparr>" and ?fs = "fs(tableFilename t \<mapsto> fileImage t rs)"
  obtain slots where slots: "length slots \<le> length rs" "\<forall>r\<in>set slots. length (rowBody r) + 16 = rowSize t"
    "\<forall>i<length rs. dirtyRows t (of_nat i) = None \<longrightarrow> i < length slots \<and> slots ! i = rs ! i"
    "case fs (tableFilename t) of None \<Rightarrow> slots = []
     | Some content \<Rightarrow> content = schemaImage t @ rowsImage slots \<and> (\<not> isDirty t \<longrightarrow> slots = rs)"
    using s unfolding synced_def by blast
  note w = writeRows_image [OF t slots(1-3)]
  have body: "\<forall>r\<in>set rs. length (rowBody r) + 16 = rowSize t" using t(1) unfolding tableRep_def by (metis in_set_conv_nth)
  have clean: "tableRep key ?t rs ks" "schemaOk ?t" "synced ?t rs ?fs"
    using t body by (auto simp: tableRep_def schemaOk_def synced_def fileImage_def)
  have kept: "tableFilename ?t = tableFilename t" "rowSize ?t = rowSize t" by simp_all
  show ?thesis
  proof (cases "fs (tableFilename t)")
    case None
    have "of_nat (length (tableColumns t)) = columnCount t" using t(2) by (simp add: schemaOk_def)
    then have hdr: "writeHeader t = (t, putHeader t)" by (simp add: writeHeader_def Let_def)
    have "writeSchema t = Inr (concat (map putProperties (tableColumns t)))"
      using t(2) by (simp add: writeSchema_def schemaOk_def)
    then have "writeTable t fs = Inr (?t, ?fs)"
      using None slots(4) w by (simp add: writeTable_def hdr schemaImage_def)
    with clean kept show ?thesis by blast
  next
    case (Some content)
    show ?thesis
    proof (cases "isDirty t")
      case True
      then have "writeTable t fs = Inr (?t, ?fs)" using Some slots(4) w by (simp add: writeTable_def)
      with clean kept show ?thesis by blast
    next
      case False
      then have "?fs = fs" using Some slots(4) by (auto simp: fileImage_def)
      moreover have "writeTable t fs = Inr (t, fs)" using False Some by (simp add: writeTable_def)
      ultimately show ?thesis using t s by metis
    qed
  qed
qed

section \<open>Reading the file back\<close>

lemma schemaLoop_image:
  "\<forall>p\<in>set ps. propertiesOk p \<Longrightarrow> schemaLoop (length ps) (concat (map putProperties ps) @ rest) = Inr ps"
  by (induction ps) (simp_all add: getProperties_putProperties)

lemma readTableHeader_image:
  assumes "schemaOk t"
  shows "readTableHeader (schemaImage t @ rest) u =
    (Inr True, u\<lparr>layoutSignature := layoutSignature t, layoutName := layoutName t, columnCount := columnCount t\<rparr>)"
proof -
  have n: "length (layoutName t) < 128" "NUL \<notin> set (layoutName t)" using assms by (auto simp: schemaOk_def)
  have "length (fixedText 128 (layoutName t)) = 128" using n by simp
  with n assms arrayText_fixedText [OF n] show ?thesis
    by (simp add: readTableHeader_def schemaImage_def putHeader_def headerSize_def MAX_TABLE_NAME_def schemaOk_def)
qed

lemma readSchema_image:
  assumes "schemaOk t" "columnCount u = columnCount t"
  shows "readSchema (concat (map putProperties (tableColumns t)) @ rest) u =
    (Inr rest, u\<lparr>tableColumns := tableColumns t, columnByName := nameColumns (tableColumns t) 0 (columnByName u)\<rparr>)"
proof -
  let ?ps = "tableColumns t"
  have n: "unat (columnCount u) = length ?ps" using assms by (simp add: schemaOk_def unat_of_nat_less)
  have len: "length (concat (map putProperties ?ps)) = length ?ps * propertiesSize"
    using assms(1) length_concat_equal [of "map putProperties ?ps" propertiesSize] by (simp add: schemaOk_def)
  have "propertiesSize \<noteq> 0" by (simp add: propertiesSize_def)
  then have "min (length ?ps) (length (concat (map putProperties ?ps) @ rest) div propertiesSize) = length ?ps"
    using len by simp
  moreover have "schemaLoop (length ?ps) (concat (map putProperties ?ps) @ rest) = Inr ?ps"
    by (rule schemaLoop_image) (use assms in \<open>simp add: schemaOk_def\<close>)
  ultimately show ?thesis using assms n len by (simp add: readSchema_def Let_def schemaOk_def)
qed

lemma readRowsLoop_image:
  assumes "tableRep key t rs ks" "length (rs @ us) < 2 ^ 64" "distinct (ks @ ls)" "length ls = length us" "0 < n" "rowSize t = n"
    "\<forall>j<length us. rowId (us ! j) = of_nat (length rs + j) \<and> key (us ! j) = Inr (ls ! j) \<and> length (rowBody (us ! j)) + 16 = n"
  shows "\<exists>t'. readRowsLoop key n (rowsImage us) t = (Inr True, t') \<and> tableRep key t' (rs @ us) (ks @ ls) \<and>
    dirtyRows t' = dirtyRows t \<and> isDirty t' = isDirty t"
  using assms
proof (induction us arbitrary: t rs ks ls)
  case Nil
  let ?t = "t\<lparr>heap := (heap t)(nextAddress t \<mapsto> Indeterminate), nextAddress := nextAddress t + 1\<rparr>"
  have idx: "autoIncrementIndex t ! i \<noteq> nextAddress t" if "i < length rs" for i
    using Nil.prems(1) that unfolding tableRep_def by (metis nth_mem less_irrefl)
  have "tableRep key ?t rs ks" using Nil.prems(1) idx by (auto simp: tableRep_def less_Suc_eq)
  moreover have "readRowsLoop key n (rowsImage []) t = (Inr True, ?t)"
    using Nil.prems(5) by (subst readRowsLoop.simps) (simp add: allocateRow_def)
  ultimately show ?case using Nil.prems(4) by auto
next
  case (Cons u us)
  obtain k ls' where ls: "ls = k # ls'" using Cons.prems(4) by (cases ls) auto
  let ?a = "nextAddress t"
  let ?t = "t\<lparr>nextAddress := ?a + 1, heap := (heap t)(?a \<mapsto> Holds u)\<rparr>"
  have u: "rowId u = of_nat (length rs)" "key u = Inr k" "length (rowBody u) + 16 = n"
    using Cons.prems(7) [rule_format, of 0] ls by auto
  have idx: "autoIncrementIndex t ! i \<noteq> ?a" if "i < length rs" for i
    using Cons.prems(1) that unfolding tableRep_def by (metis nth_mem less_irrefl)
  have rep: "tableRep key ?t rs ks" using Cons.prems(1) idx by (auto simp: tableRep_def less_Suc_eq)
  have alloc: "allocated ?t ?a u" using Cons.prems(1) by (auto simp: allocated_def tableRep_def)
  have same: "u\<lparr>rowId := of_nat (length rs)\<rparr> = u" using u(1) by (metis table_row.surjective table_row.update_convs(2))
  from internalAdd_rep [OF rep alloc, of k] u same Cons.prems ls obtain t1 where t1: "internalAdd ?a k ?t = (Inr (), t1)"
    "tableRep key t1 (rs @ [u]) (ks @ [k])"
    "t1 = ?t\<lparr>heap := (heap ?t)(?a \<mapsto> Holds u), tableRows := (k, ?a) # tableRows ?t, autoIncrementIndex := autoIncrementIndex ?t @ [?a]\<rparr>"
    by auto
  have "\<exists>t'. readRowsLoop key n (rowsImage us) t1 = (Inr True, t') \<and> tableRep key t' ((rs @ [u]) @ us) ((ks @ [k]) @ ls') \<and>
    dirtyRows t' = dirtyRows t1 \<and> isDirty t' = isDirty t1"
  proof (rule Cons.IH [OF t1(2)])
    show "\<forall>j<length us. rowId (us ! j) = of_nat (length (rs @ [u]) + j) \<and> key (us ! j) = Inr (ls' ! j) \<and> length (rowBody (us ! j)) + 16 = n"
      using Cons.prems(7) ls by (auto dest: spec [of _ "Suc j" for j])
  qed (use Cons.prems ls t1(3) in auto)
  moreover have "readRowsLoop key n (rowsImage (u # us)) t = readRowsLoop key n (rowsImage us) t1"
    using u t1(1) by (subst readRowsLoop.simps) (simp add: allocateRow_def)
  ultimately show ?case using t1(3) ls by auto
qed

definition emptyTable :: "table \<Rightarrow> bool" where
  "emptyTable t \<longleftrightarrow> tableRows t = [] \<and> autoIncrementIndex t = [] \<and> dirtyRows t = Map.empty \<and> \<not> isDirty t"

lemma readTable_image:
  assumes t: "tableRep key t rs ks" "schemaOk t" and u: "emptyTable u" "rowSize u = rowSize t" "16 \<le> rowSize u"
    and fs: "fs (tableFilename u) = Some (fileImage t rs)"
  shows "\<exists>u'. readTable key fs u = (Inr True, u') \<and> tableRep key u' rs ks \<and> dirtyRows u' = Map.empty \<and> \<not> isDirty u'"
proof -
  let ?u1 = "u\<lparr>layoutSignature := layoutSignature t, layoutName := layoutName t, columnCount := columnCount t\<rparr>"
  let ?u2 = "?u1\<lparr>tableColumns := tableColumns t, columnByName := nameColumns (tableColumns t) 0 (columnByName ?u1)\<rparr>"
  have hdr: "readTableHeader (fileImage t rs) u = (Inr True, ?u1)"
    using readTableHeader_image [OF t(2), of "rowsImage rs" u] by (simp add: fileImage_def)
  have "drop headerSize (fileImage t rs) = concat (map putProperties (tableColumns t)) @ rowsImage rs"
    using length_putHeader [of t] t(2) by (simp add: fileImage_def schemaImage_def schemaOk_def)
  then have schema: "readSchema (drop headerSize (fileImage t rs)) ?u1 = (Inr (rowsImage rs), ?u2)"
    using readSchema_image [OF t(2), of ?u1 "rowsImage rs"] by simp
  have "tableRep key ?u2 [] []" using u(1) by (simp add: tableRep_def emptyTable_def)
  from readRowsLoop_image [OF this, of rs ks "rowSize t"] t(1) u obtain u' where
    "readRowsLoop key (rowSize t) (rowsImage rs) ?u2 = (Inr True, u')" "tableRep key u' rs ks" "dirtyRows u' = dirtyRows ?u2" "isDirty u' = isDirty ?u2"
    by (auto simp: tableRep_def)
  moreover have "readTable key fs u = readRowsLoop key (rowSize t) (rowsImage rs) ?u2"
    using fs hdr schema u(2) by (simp add: readTable_def readRows_def)
  ultimately show ?thesis using u(1) by (simp add: emptyTable_def)
qed

lemma mapR_cells: "list_all2 (\<lambda>a r. heap t a = Some (Holds r)) as rs \<Longrightarrow> mapR (cellRow t) as = Inr rs"
  by (induction rule: list_all2_induct) auto

text \<open>What a key finds in a table, independently of where the rows live.\<close>

lemma getByKey_rep:
  assumes "tableRep key t rs ks"
  shows "(case getByKey t k of None \<Rightarrow> None | Some a \<Rightarrow> Some (cellRow t a)) = map_of (zip ks (map Inr rs)) k"
proof (cases "k \<in> set ks")
  case True
  then obtain i where i: "i < length rs" "ks ! i = k" using assms unfolding tableRep_def by (metis in_set_conv_nth)
  then have "getByKey t k = Some (autoIncrementIndex t ! i)" using map_of_rep [OF assms] by (auto simp: getByKey_def)
  moreover have "cellRow t (autoIncrementIndex t ! i) = Inr (rs ! i)" using assms i by (simp add: tableRep_def)
  moreover have "map_of (zip ks (map Inr rs :: table_row result list)) k = Some (map Inr rs ! i)"
    using assms i map_of_zip_nth [of ks "map Inr rs :: table_row result list" i] by (simp add: tableRep_def)
  ultimately show ?thesis using i(1) by simp
next
  case False
  then have "map_of (zip ks (map Inr rs :: table_row result list)) k = None" using assms by (simp add: tableRep_def map_of_zip_is_None)
  moreover have "getByKey t k = None" using map_of_rep_None [OF assms] False by (simp add: getByKey_def)
  ultimately show ?thesis by simp
qed

section \<open>Runs of a table and its file\<close>

text \<open>
  The states of a table and of the file system a program reaches from a new table without a
  file: rows are added, deleted, changed in place, the table is written.
\<close>

inductive table_run :: "row_key \<Rightarrow> table \<Rightarrow> file_system \<Rightarrow> table \<Rightarrow> file_system \<Rightarrow> bool" for key t0 fs0 where
  run_start: "table_run key t0 fs0 t0 fs0"
| run_add: "table_run key t0 fs0 t fs \<Longrightarrow> newRow r t = (Inr a, t1) \<Longrightarrow> addRow key a t1 = (Inr i, t2) \<Longrightarrow>
    length (rowBody r) + 16 = rowSize t \<Longrightarrow> length (autoIncrementIndex t) + 1 < 2 ^ 64 \<Longrightarrow> table_run key t0 fs0 t2 fs"
| run_delete: "table_run key t0 fs0 t fs \<Longrightarrow> deleteRow i t = (Inr b, t') \<Longrightarrow> table_run key t0 fs0 t' fs"
| run_update: "table_run key t0 fs0 t fs \<Longrightarrow> a \<in> set (autoIncrementIndex t) \<Longrightarrow> cellRow t a = Inr r \<Longrightarrow>
    rowId r' = rowId r \<Longrightarrow> key r' = key r \<Longrightarrow> length (rowBody r') = length (rowBody r) \<Longrightarrow>
    updateInPlace (andThen (assign a r') (\<lambda>_. ret a)) t = (Inr u, t') \<Longrightarrow> table_run key t0 fs0 t' fs"
| run_write: "table_run key t0 fs0 t fs \<Longrightarrow> writeTable t fs = Inr (t', fs') \<Longrightarrow> table_run key t0 fs0 t' fs'"

text \<open>The invariant of a run.\<close>

definition runOk :: "row_key \<Rightarrow> table \<Rightarrow> file_system \<Rightarrow> table \<Rightarrow> file_system \<Rightarrow> bool" where
  "runOk key t0 fs0 t fs \<longleftrightarrow> (\<exists>rs ks. tableRep key t rs ks \<and> synced t rs fs) \<and> schemaOk t \<and>
     tableFilename t = tableFilename t0 \<and> rowSize t = rowSize t0 \<and> (\<forall>f. f \<noteq> tableFilename t0 \<longrightarrow> fs f = fs0 f)"

lemma synced_add:
  assumes "synced t rs fs" "length rs < 2 ^ 64" "tableFilename t' = tableFilename t" "schemaImage t' = schemaImage t"
    "rowSize t' = rowSize t" "isDirty t'" "dirtyRows t' = (dirtyRows t)(of_nat (length rs) \<mapsto> d)"
  shows "synced t' (rs @ [r]) fs"
proof -
  obtain slots where s: "length slots \<le> length rs" "\<forall>r\<in>set slots. length (rowBody r) + 16 = rowSize t"
    "\<forall>i<length rs. dirtyRows t (of_nat i) = None \<longrightarrow> i < length slots \<and> slots ! i = rs ! i"
    "case fs (tableFilename t) of None \<Rightarrow> slots = []
     | Some content \<Rightarrow> content = schemaImage t @ rowsImage slots \<and> (\<not> isDirty t \<longrightarrow> slots = rs)"
    using assms(1) unfolding synced_def by blast
  have "\<forall>i<length (rs @ [r]). dirtyRows t' (of_nat i) = None \<longrightarrow> i < length slots \<and> slots ! i = (rs @ [r]) ! i"
    using s(3) assms(7) by (auto simp: nth_append less_Suc_eq split: if_splits)
  then show ?thesis unfolding synced_def using s(1,2,4) assms
    by (intro exI [of _ slots]) (auto split: option.splits)
qed

lemma synced_update:
  assumes "synced t rs fs" "tableFilename t' = tableFilename t" "schemaImage t' = schemaImage t"
    "rowSize t' = rowSize t" "isDirty t'" "i < length rs"
    "\<And>j. dirtyRows t' j = None \<Longrightarrow> dirtyRows t j = None \<and> j \<noteq> of_nat i"
  shows "synced t' (rs[i := r]) fs"
proof -
  obtain slots where s: "length slots \<le> length rs" "\<forall>r\<in>set slots. length (rowBody r) + 16 = rowSize t"
    "\<forall>i<length rs. dirtyRows t (of_nat i) = None \<longrightarrow> i < length slots \<and> slots ! i = rs ! i"
    "case fs (tableFilename t) of None \<Rightarrow> slots = []
     | Some content \<Rightarrow> content = schemaImage t @ rowsImage slots \<and> (\<not> isDirty t \<longrightarrow> slots = rs)"
    using assms(1) unfolding synced_def by blast
  have "\<forall>j<length (rs[i := r]). dirtyRows t' (of_nat j) = None \<longrightarrow> j < length slots \<and> slots ! j = rs[i := r] ! j"
    using s(3) assms(7) by (metis length_list_update nth_list_update_neq)
  then show ?thesis unfolding synced_def using s(1,2,4) assms
    by (intro exI [of _ slots]) (auto split: option.splits)
qed

text \<open>What the derived tables promise of their keys: they do not depend on the bookkeeping columns.\<close>

locale row_keys =
  fixes key :: row_key
  assumes key_rowId: "key (r\<lparr>rowId := i\<rparr>) = key r"
    and key_rowFlags: "key (r\<lparr>rowFlags := f\<rparr>) = key r"
begin

lemma addRow_cases:
  assumes t: "tableRep key t rs ks" and a: "allocated t a r" and r: "length (rowBody r) + 16 = rowSize t" "length rs + 1 < 2 ^ 64"
    and run: "addRow key a t = (Inr i, t')"
  shows "\<exists>k. k \<notin> set ks \<and> tableRep key t' (rs @ [r\<lparr>rowId := of_nat (length rs)\<rparr>]) (ks @ [k]) \<and> i = of_nat (length rs) \<and>
    t' = t\<lparr>heap := (heap t)(a \<mapsto> Holds (r\<lparr>rowId := of_nat (length rs)\<rparr>)), tableRows := (k, a) # tableRows t,
      autoIncrementIndex := autoIncrementIndex t @ [a], isDirty := True, dirtyRows := (dirtyRows t)(of_nat (length rs) \<mapsto> IsNew)\<rparr>"
proof -
  have heap: "heap t a = Some (Holds r)" using a by (simp add: allocated_def)
  with run obtain k where k: "key r = Inr k" by (cases "key r") (simp_all add: addRow_def)
  have "k \<notin> set ks"
  proof
    assume "k \<in> set ks"
    then have "map_of (tableRows t) k \<noteq> None" using map_of_rep_None [OF t] by blast
    then show False using run heap k by (auto simp: addRow_def internalAdd_def)
  qed
  with addRow_rep [OF t a _ k _ r] k key_rowId run show ?thesis by auto
qed

lemma add_step:
  assumes rep: "tableRep key t rs ks" "synced t rs fs" "schemaOk t" and new: "newRow r t = (Inr a, t1)" and add: "addRow key a t1 = (Inr i, t2)"
    and r: "length (rowBody r) + 16 = rowSize t" "length (autoIncrementIndex t) + 1 < 2 ^ 64"
  shows "\<exists>k. tableRep key t2 (rs @ [r\<lparr>rowId := of_nat (length rs)\<rparr>]) (ks @ [k]) \<and> synced t2 (rs @ [r\<lparr>rowId := of_nat (length rs)\<rparr>]) fs \<and>
    schemaOk t2 \<and> tableFilename t2 = tableFilename t \<and> rowSize t2 = rowSize t"
proof -
  let ?r = "r\<lparr>rowId := of_nat (length rs)\<rparr>"
  have len: "length (autoIncrementIndex t) = length rs" using rep(1) by (simp add: tableRep_def)
  have t1: "t1 = t\<lparr>heap := (heap t)(nextAddress t \<mapsto> Holds r), nextAddress := nextAddress t + 1\<rparr>" "a = nextAddress t"
    using new by auto
  have idx: "autoIncrementIndex t ! j \<noteq> a" if "j < length rs" for j
    using rep(1) that t1(2) unfolding tableRep_def by (metis nth_mem less_irrefl)
  have rep1: "tableRep key t1 rs ks" using rep(1) idx t1 by (auto simp: tableRep_def less_Suc_eq)
  have alloc: "allocated t1 a r" using rep(1) t1 by (auto simp: allocated_def tableRep_def)
  have sz: "length (rowBody r) + 16 = rowSize t1" "length rs + 1 < 2 ^ 64" using r t1(1) len by auto
  from addRow_cases [OF rep1 alloc sz add] obtain k where t2: "tableRep key t2 (rs @ [?r]) (ks @ [k])"
    "t2 = t1\<lparr>heap := (heap t1)(a \<mapsto> Holds ?r), tableRows := (k, a) # tableRows t1, autoIncrementIndex := autoIncrementIndex t1 @ [a],
      isDirty := True, dirtyRows := (dirtyRows t1)(of_nat (length rs) \<mapsto> IsNew)\<rparr>"
    by blast
  have "synced t2 (rs @ [?r]) fs"
    by (rule synced_add [OF rep(2), where d = IsNew]) (use t2(2) t1(1) sz(2) in \<open>simp_all add: schemaImage_def putHeader_def\<close>)
  moreover have "schemaOk t2" "tableFilename t2 = tableFilename t" "rowSize t2 = rowSize t"
    using rep(3) t2(2) t1(1) by (simp_all add: schemaOk_def)
  ultimately show ?thesis using t2(1) by blast
qed

lemma runOk_add:
  assumes ok: "runOk key t0 fs0 t fs" and step: "newRow r t = (Inr a, t1)" "addRow key a t1 = (Inr i, t2)"
    "length (rowBody r) + 16 = rowSize t" "length (autoIncrementIndex t) + 1 < 2 ^ 64"
  shows "runOk key t0 fs0 t2 fs"
proof -
  obtain rs ks where rep: "tableRep key t rs ks" "synced t rs fs" "schemaOk t" using ok by (auto simp: runOk_def)
  from add_step [OF rep step] ok show ?thesis by (auto simp: runOk_def)
qed

lemma synced_marked:
  assumes "synced t rs fs" "schemaOk t" "i < length rs" "t' = markedUpdated (of_nat i) (t\<lparr>heap := h, isDirty := True\<rparr>)"
  shows "synced t' (rs[i := r]) fs \<and> schemaOk t' \<and> tableFilename t' = tableFilename t \<and> rowSize t' = rowSize t"
proof -
  have "synced t' (rs[i := r]) fs"
    by (rule synced_update [OF assms(1)]) (use assms(3) in \<open>auto simp: assms(4) schemaImage_def putHeader_def\<close>)
  then show ?thesis using assms(2,4) by (simp add: schemaOk_def)
qed

lemma delete_step:
  assumes rep: "tableRep key t rs ks" "synced t rs fs" "schemaOk t" and del: "deleteRow i t = (Inr b, t')"
  shows "unat i < length rs \<and> (\<exists>r. rowBody r = rowBody (rs ! unat i) \<and> tableRep key t' (rs[unat i := r]) ks \<and> synced t' (rs[unat i := r]) fs \<and>
    schemaOk t' \<and> tableFilename t' = tableFilename t \<and> rowSize t' = rowSize t)"
proof -
  have i: "unat i < length rs"
  proof (rule ccontr)
    assume "\<not> unat i < length rs"
    with rep(1) del show False by (simp add: deleteRow_def getRow_def tableRep_def andThen_def)
  qed
  let ?r = "(rs ! unat i)\<lparr>rowFlags := rowFlags (rs ! unat i) OR Deleted\<rparr>"
  have k: "key ?r = key (rs ! unat i)" by (rule key_rowFlags)
  from deleteRow_rep [OF rep(1) i k] del synced_marked [OF rep(2,3) i, where r = ?r] i show ?thesis
    by (intro conjI exI [of _ ?r]) auto
qed

lemma runOk_delete:
  assumes ok: "runOk key t0 fs0 t fs" and del: "deleteRow i t = (Inr b, t')"
  shows "runOk key t0 fs0 t' fs"
proof -
  obtain rs ks where rep: "tableRep key t rs ks" "synced t rs fs" "schemaOk t" using ok by (auto simp: runOk_def)
  from delete_step [OF rep del] ok show ?thesis by (auto simp: runOk_def)
qed

lemma runOk_update:
  assumes ok: "runOk key t0 fs0 t fs" and a: "a \<in> set (autoIncrementIndex t)" "cellRow t a = Inr r"
    and r: "rowId r' = rowId r" "key r' = key r" "length (rowBody r') = length (rowBody r)"
    and upd: "updateInPlace (andThen (assign a r') (\<lambda>_. ret a)) t = (Inr u, t')"
  shows "runOk key t0 fs0 t' fs"
proof -
  obtain rs ks where rep: "tableRep key t rs ks" "synced t rs fs" "schemaOk t" using ok by (auto simp: runOk_def)
  obtain i where i: "i < length rs" "a = autoIncrementIndex t ! i"
    using a(1) rep(1) unfolding tableRep_def by (metis in_set_conv_nth)
  then have ri: "r = rs ! i" using a(2) rep(1) by (simp add: tableRep_def)
  note d = updateInPlace_rep [OF rep(1) i(1) r [unfolded ri]]
  have t': "t' = markedUpdated (of_nat i) (t\<lparr>heap := (heap t)(a \<mapsto> Holds r'), isDirty := True\<rparr>)" using d(1) upd i(2) by simp
  from synced_marked [OF rep(2,3) i(1) t', of r'] d upd i(2) ok show ?thesis by (auto simp: runOk_def)
qed

lemma runOk_write:
  assumes ok: "runOk key t0 fs0 t fs" and "writeTable t fs = Inr (t', fs')"
  shows "runOk key t0 fs0 t' fs'"
proof -
  obtain rs ks where rep: "tableRep key t rs ks" "synced t rs fs" "schemaOk t" using ok by (auto simp: runOk_def)
  from writeTable_image [OF rep(1,3,2)] assms show ?thesis by (auto simp: runOk_def)
qed

lemma run_keeps:
  assumes "table_run key t0 fs0 t fs" "runOk key t0 fs0 t0 fs0"
  shows "runOk key t0 fs0 t fs"
  using assms
  by (induction rule: table_run.induct) (blast intro: runOk_add runOk_delete runOk_update runOk_write)+

lemma run_durable:
  assumes run: "table_run key t0 fs0 t fs" and start: "runOk key t0 fs0 t0 fs0"
    and u: "emptyTable u" "tableFilename u = tableFilename t0" "rowSize u = rowSize t0" "16 \<le> rowSize u"
  shows "\<exists>t' fs' u' rs. writeTable t fs = Inr (t', fs') \<and> readTable key fs' u = (Inr True, u') \<and>
    mapR (cellRow t) (autoIncrementIndex t) = Inr rs \<and> mapR (cellRow u') (autoIncrementIndex u') = Inr rs \<and>
    (\<forall>k. (case getByKey u' k of None \<Rightarrow> None | Some a \<Rightarrow> Some (cellRow u' a)) =
         (case getByKey t k of None \<Rightarrow> None | Some a \<Rightarrow> Some (cellRow t a)))"
proof -
  obtain rs ks where rep: "tableRep key t rs ks" "synced t rs fs" "schemaOk t" and f: "tableFilename t = tableFilename t0" "rowSize t = rowSize t0"
    using run_keeps [OF run start] by (auto simp: runOk_def)
  from writeTable_image [OF rep(1,3,2)] obtain t' where w: "writeTable t fs = Inr (t', fs(tableFilename t \<mapsto> fileImage t rs))" by blast
  from readTable_image [OF rep(1,3) u(1), of "fs(tableFilename t \<mapsto> fileImage t rs)"] u f obtain u' where
    r: "readTable key (fs(tableFilename t \<mapsto> fileImage t rs)) u = (Inr True, u')" "tableRep key u' rs ks" by auto
  have rows: "mapR (cellRow x) (autoIncrementIndex x) = Inr rs" if "tableRep key x rs ks" for x
    using mapR_cells [of x "autoIncrementIndex x" rs] that by (auto simp: tableRep_def list_all2_conv_all_nth)
  have "(case getByKey x k of None \<Rightarrow> None | Some a \<Rightarrow> Some (cellRow x a)) = map_of (zip ks (map Inr rs)) k" if "tableRep key x rs ks" for x k
    by (rule getByKey_rep [OF that])
  with w r rep(1) rows show ?thesis by metis
qed

end

lemma runOk_start:
  "emptyTable t0 \<Longrightarrow> schemaOk t0 \<Longrightarrow> fs0 (tableFilename t0) = None \<Longrightarrow> runOk key t0 fs0 t0 fs0"
  by (auto simp: runOk_def emptyTable_def tableRep_def synced_def)

text \<open>(C9)
  Whatever sequence of additions, deletions, changes in place and writes a new table without a file has been
  through, for a key that depends neither on the identifier nor on the flags of a row, writing it and
  reading the file into a new table of the same layout gives back the rows, in the order of their
  identifiers, and every key finds the same row.
\<close>

theorem table_durable:
  assumes key: "\<forall>r i. key (r\<lparr>rowId := i\<rparr>) = key r" "\<forall>r f. key (r\<lparr>rowFlags := f\<rparr>) = key r"
    and start: "emptyTable t0" "schemaOk t0" "fs0 (tableFilename t0) = None"
    and run: "table_run key t0 fs0 t fs"
    and u: "emptyTable u" "tableFilename u = tableFilename t0" "rowSize u = rowSize t0" "16 \<le> rowSize u"
  shows "\<exists>t' fs' u' rs. writeTable t fs = Inr (t', fs') \<and> readTable key fs' u = (Inr True, u') \<and>
    mapR (cellRow t) (autoIncrementIndex t) = Inr rs \<and> mapR (cellRow u') (autoIncrementIndex u') = Inr rs \<and>
    (\<forall>k. (case getByKey u' k of None \<Rightarrow> None | Some a \<Rightarrow> Some (cellRow u' a)) =
         (case getByKey t k of None \<Rightarrow> None | Some a \<Rightarrow> Some (cellRow t a)))"
proof -
  have ok: "runOk key t0 fs0 t0 fs0" using start by (rule runOk_start)
  have "row_keys key" using key by unfold_locales auto
  from row_keys.run_durable [OF this run ok u] show ?thesis .
qed

definition demoKey :: row_key where
  "demoKey r = Inr (map byteChar (rowBody r))"

definition demoTable :: table where
  "demoTable = \<lparr>heap = Map.empty, nextAddress = 0, tableRows = [], autoIncrementIndex = [], tableFilename = ''t'', isDirty = False,
    rowSize = 17, tableName = ''t'', dirtyRows = Map.empty, tableColumns = [emptyProperties\<lparr>columnName := ''id''\<rparr>],
    columnByName = [''id'' \<mapsto> 0], layoutSignature = KAPA_TABLE_SIGNATURE, layoutName = ''t'', columnCount = 1\<rparr>"

lemma demoTable_ok: "emptyTable demoTable" "schemaOk demoTable" "tableRep demoKey demoTable [] []"
  "tableFilename demoTable = ''t''" "rowSize demoTable = 17"
  by (simp_all add: emptyTable_def schemaOk_def tableRep_def demoTable_def propertiesOk_def emptyProperties_def)

lemma demo_run: "\<exists>t. table_run demoKey demoTable Map.empty t Map.empty \<and> length (autoIncrementIndex t) = 1"
proof -
  let ?r = "\<lparr>rowFlags = 0, rowId = 0, rowBody = [97]\<rparr> :: table_row"
  let ?t = "demoTable\<lparr>heap := (heap demoTable)(0 \<mapsto> Holds ?r), nextAddress := 1\<rparr>"
  have new: "newRow ?r demoTable = (Inr 0, ?t)" by (simp add: demoTable_def)
  have rep: "tableRep demoKey ?t [] []" using demoTable_ok(3) by (simp add: tableRep_def)
  have "allocated ?t 0 ?r" by (simp add: allocated_def demoTable_def)
  from addRow_rep [OF rep this, of "map byteChar [97]"] obtain t' where
    t': "addRow demoKey 0 ?t = (Inr 0, t')" "tableRep demoKey t' [?r] [map byteChar [97]]"
    by (auto simp: demoKey_def demoTable_def)
  have "table_run demoKey demoTable Map.empty t' Map.empty"
    by (rule run_add [OF run_start new t'(1)]) (simp_all add: demoTable_def)
  with t'(2) show ?thesis by (auto simp: tableRep_def)
qed

theorem table_durable_witness:
  "\<exists>t t' fs' u'. table_run demoKey demoTable Map.empty t Map.empty \<and> length (autoIncrementIndex t) = 1 \<and>
     writeTable t Map.empty = Inr (t', fs') \<and> readTable demoKey fs' demoTable = (Inr True, u')"
proof -
  obtain t where t: "table_run demoKey demoTable Map.empty t Map.empty" "length (autoIncrementIndex t) = 1" using demo_run by blast
  have "\<exists>t' fs' u' rs. writeTable t Map.empty = Inr (t', fs') \<and> readTable demoKey fs' demoTable = (Inr True, u') \<and>
    mapR (cellRow t) (autoIncrementIndex t) = Inr rs \<and> mapR (cellRow u') (autoIncrementIndex u') = Inr rs \<and>
    (\<forall>k. (case getByKey u' k of None \<Rightarrow> None | Some a \<Rightarrow> Some (cellRow u' a)) =
         (case getByKey t k of None \<Rightarrow> None | Some a \<Rightarrow> Some (cellRow t a)))"
    by (rule table_durable [OF _ _ demoTable_ok(1,2) _ t(1) demoTable_ok(1)]) (simp_all add: demoKey_def demoTable_ok)
  with t show ?thesis by blast
qed

text \<open>(C13)
  In every state a table reaches, row number \<open>i\<close> of the index has identifier \<open>i\<close>, its key finds
  that very row, and the index and the key map have the same number of entries.
\<close>
theorem table_invariant:
  assumes key: "\<forall>r i. key (r\<lparr>rowId := i\<rparr>) = key r" "\<forall>r f. key (r\<lparr>rowFlags := f\<rparr>) = key r"
    and start: "emptyTable t0" "schemaOk t0" "fs0 (tableFilename t0) = None"
    and run: "table_run key t0 fs0 t fs"
  shows "tableSize t = length (autoIncrementIndex t) \<and> (\<forall>i<length (autoIncrementIndex t). \<exists>r k.
    cellRow t (autoIncrementIndex t ! i) = Inr r \<and> rowId r = of_nat i \<and> key r = Inr k \<and> getByKey t k = Some (autoIncrementIndex t ! i))"
proof -
  have ok: "runOk key t0 fs0 t0 fs0" using start by (rule runOk_start)
  have "row_keys key" using key by unfold_locales auto
  from row_keys.run_keeps [OF this run ok] obtain rs ks where rep: "tableRep key t rs ks" by (auto simp: runOk_def)
  have "getByKey t (ks ! i) = Some (autoIncrementIndex t ! i)" if "i < length rs" for i
    using map_of_rep [OF rep] that by (auto simp: getByKey_def)
  with rep show ?thesis by (auto simp: tableRep_def tableSize_def)
qed

theorem table_invariant_witness:
  "\<exists>t r. table_run demoKey demoTable Map.empty t Map.empty \<and> tableSize t = 1 \<and> cellRow t (autoIncrementIndex t ! 0) = Inr r \<and> rowId r = 0"
proof -
  obtain t where t: "table_run demoKey demoTable Map.empty t Map.empty" "length (autoIncrementIndex t) = 1" using demo_run by blast
  have "tableSize t = length (autoIncrementIndex t) \<and> (\<forall>i<length (autoIncrementIndex t). \<exists>r k.
    cellRow t (autoIncrementIndex t ! i) = Inr r \<and> rowId r = of_nat i \<and> demoKey r = Inr k \<and> getByKey t k = Some (autoIncrementIndex t ! i))"
    by (rule table_invariant [OF _ _ demoTable_ok(1,2) _ t(1)]) (simp_all add: demoKey_def)
  with t show ?thesis by auto
qed

text \<open>
  A deleted row keeps its key: the row stays in the key map with its flag set, so adding a row
  with the same key afterwards fails the assertion of \<^verbatim>\<open>internalAdd\<close>.
\<close>
lemma deleted_key_blocks_add:
  assumes "tableRep key t rs ks" "unat i < length rs" "\<forall>r f. key (r\<lparr>rowFlags := f\<rparr>) = key r"
    and "deleteRow i t = (Inr b, t1)" "newRow r t1 = (Inr a, t2)" "key r = Inr (ks ! unat i)"
  shows "fst (addRow key a t2) = Inl AssertFail"
proof -
  let ?r = "(rs ! unat i)\<lparr>rowFlags := rowFlags (rs ! unat i) OR Deleted\<rparr>"
  have "key ?r = key (rs ! unat i)" using assms(3) by blast
  from deleteRow_rep [OF assms(1,2) this] assms(4) have rep: "tableRep key t1 (rs[unat i := ?r]) ks" by simp
  have "ks ! unat i \<in> set ks" using assms(1,2) by (simp add: tableRep_def)
  then have "map_of (tableRows t1) (ks ! unat i) \<noteq> None" using map_of_rep_None [OF rep] by blast
  with assms(5,6) show ?thesis by (auto simp: addRow_def internalAdd_def)
qed

lemma deleted_key_blocks_add_witness:
  "\<exists>t1. deleteRow 0 twoRows = (Inr True, t1) \<and>
     fst (andThen (newRow \<lparr>rowFlags = 0, rowId = 0, rowBody = [97]\<rparr>) (addRow (\<lambda>r. Inr (map byteChar (rowBody r)))) t1) = Inl AssertFail"
proof -
  let ?key = "\<lambda>r. Inr (map byteChar (rowBody r))" and ?r = "\<lparr>rowFlags = 0, rowId = 0, rowBody = [97]\<rparr> :: table_row"
  obtain t1 where d: "deleteRow 0 twoRows = (Inr True, t1)"
    using deleteRow_rep(1) [OF twoRows_rep, of 0] by simp
  have "fst (addRow ?key (nextAddress t1) (t1\<lparr>heap := (heap t1)(nextAddress t1 \<mapsto> Holds ?r), nextAddress := nextAddress t1 + 1\<rparr>)) = Inl AssertFail"
    by (rule deleted_key_blocks_add [OF twoRows_rep _ _ d, of ?r]) simp_all
  with d show ?thesis by simp
qed
end
