(* ===== verification/Db_Database.thy ===== *)
theory Db_Database
  imports Db_Table "HOL-Library.AList"
begin

text \<open>
  The database (\<^verbatim>\<open>infrastructure/db/Database.cpp\<close>, \<^verbatim>\<open>table/DatabaseBridge.cpp\<close>): a string pool and
  a list of tables that refer to it and to each other.  A table pointer is a position in
  \<open>dbTables\<close>.  The key of a row may read the pool and rows of other tables, so it is a function
  of both.  The thread that writes the database every ten seconds runs \<open>dbWrite\<close> between two
  operations and needs no definition of its own.
\<close>

type_synonym row_lookup = "nat \<Rightarrow> u8 \<Rightarrow> table_row result"
type_synonym table_key = "string_pool \<Rightarrow> row_lookup \<Rightarrow> row_key"

record db_table =
  tbl :: table
  keyOf :: table_key

record database =
  dbPool :: string_pool
  dbTables :: "db_table list"
  tablesByName :: "(string \<times> nat) list"
  tablesReadOrder :: "nat list"
  wasRead :: bool
  dataDir :: string

section \<open>Operations\<close>

text \<open>\<^verbatim>\<open>std::filesystem::path(dir) / name\<close> for a relative name.\<close>

definition pathJoin :: "string \<Rightarrow> string \<Rightarrow> string" where
  "pathJoin dir name = (if dir = [] \<or> last dir = CHR ''/'' then dir @ name else dir @ ''/'' @ name)"

definition generateTableFilename :: "string \<Rightarrow> string \<Rightarrow> string" where
  "generateTableFilename dir name = pathJoin dir (name @ ''.kapamd'')"

definition generateStringPoolFilename :: "string \<Rightarrow> string \<Rightarrow> string" where
  "generateStringPoolFilename dir name = pathJoin dir (name @ ''.string-pool'')"

definition newDatabase :: "string \<Rightarrow> nat \<Rightarrow> database" where
  "newDatabase dir block =
     \<lparr>dbPool = StringPool (generateStringPoolFilename dir ''sp'') block, dbTables = [], tablesByName = [],
      tablesReadOrder = [], wasRead = False, dataDir = dir\<rparr>"

definition addTable :: "db_table \<Rightarrow> database \<Rightarrow> database" where
  "addTable dt db =
     db\<lparr>dbTables := dbTables db @ [dt],
        tablesByName := AList.update (tableName (tbl dt)) (length (dbTables db)) (tablesByName db),
        tablesReadOrder := tablesReadOrder db @ [length (dbTables db)]\<rparr>"

definition getTable :: "database \<Rightarrow> string \<Rightarrow> nat option" where
  "getTable db name = map_of (tablesByName db) name"

definition getPoolString :: "nat \<Rightarrow> string \<Rightarrow> database \<Rightarrow> nat result \<times> database" where
  "getPoolString block s db = (case addString block s (dbPool db) of (r, p) \<Rightarrow> (r, db\<lparr>dbPool := p\<rparr>))"

definition dbLookup :: "database \<Rightarrow> row_lookup" where
  "dbLookup db j i =
     (if j < length (dbTables db)
      then bindR (fst (getRow i (tbl (dbTables db ! j)))) (cellRow (tbl (dbTables db ! j))) else Inl Undefined)"

definition setTable :: "nat \<Rightarrow> table \<Rightarrow> database \<Rightarrow> database" where
  "setTable j t db = db\<lparr>dbTables := (dbTables db)[j := (dbTables db ! j)\<lparr>tbl := t\<rparr>]\<rparr>"

fun dbReadLoop :: "file_system \<Rightarrow> nat list \<Rightarrow> (database, bool) prog" where
  "dbReadLoop fs [] = ret True"
| "dbReadLoop fs (j # js) = andThen getState (\<lambda>db.
     let dt = dbTables db ! j in
     case readTable (keyOf dt (dbPool db) (dbLookup db)) fs (tbl dt) of
       (r, t) \<Rightarrow> andThen (modify (setTable j t)) (\<lambda>_. andThen (liftR r) (\<lambda>ok.
         if \<not> ok then ret False else dbReadLoop fs js)))"

definition dbRead :: "file_system \<Rightarrow> nat \<Rightarrow> (database, bool) prog" where
  "dbRead fs block = andThen getState (\<lambda>db.
     if wasRead db then ret False
     else andThen (liftR (readPool fs block (dbPool db))) (\<lambda>p.
       andThen (modify (\<lambda>db. db\<lparr>dbPool := p\<rparr>)) (\<lambda>_.
       andThen (dbReadLoop fs (tablesReadOrder db)) (\<lambda>ok.
         if \<not> ok then ret False else andThen (modify (\<lambda>db. db\<lparr>wasRead := True\<rparr>)) (\<lambda>_. ret True)))))"

fun dbWriteLoop :: "nat list \<Rightarrow> database \<Rightarrow> file_system \<Rightarrow> (database \<times> file_system) result" where
  "dbWriteLoop [] db fs = Inr (db, fs)"
| "dbWriteLoop (j # js) db fs =
     bindR (writeTable (tbl (dbTables db ! j)) fs) (\<lambda>(t, fs'). dbWriteLoop js (setTable j t db) fs')"

text \<open>The tables are written in the order in which the hash map \<^verbatim>\<open>_tablesByName\<close> yields them.\<close>

definition dbWrite :: "database \<Rightarrow> file_system \<Rightarrow> (database \<times> file_system) result" where
  "dbWrite db fs = dbWriteLoop (map snd (tablesByName db)) db (writePool (dbPool db) fs)"

definition dbStop :: "database \<Rightarrow> file_system \<Rightarrow> (database \<times> file_system) result" where
  "dbStop db fs = dbWrite db fs"

definition dbClean :: "database \<Rightarrow> file_system \<Rightarrow> file_system" where
  "dbClean db fs = fold (\<lambda>j. cleanTable (tbl (dbTables db ! j)) (dbPool db)) (map snd (tablesByName db)) (cleanPool (dbPool db) fs)"

definition dbBackup :: "database \<Rightarrow> file_system \<Rightarrow> file_system" where
  "dbBackup db fs = fold (\<lambda>j. backupTable (tbl (dbTables db ! j))) (map snd (tablesByName db)) (backupPool (dbPool db) fs)"

text \<open>\<^verbatim>\<open>Database::init(db, doClean)\<close>, after the virtual \<^verbatim>\<open>init\<close> has created the tables.\<close>

definition initDatabase :: "bool \<Rightarrow> file_system \<Rightarrow> nat \<Rightarrow> database \<Rightarrow> bool result \<times> database \<times> file_system" where
  "initDatabase doClean fs block db =
     (if doClean then (Inr True, db, dbClean db (dbBackup db fs))
      else (case dbRead fs block db of (r, db') \<Rightarrow> (r, db', fs)))"

section \<open>What is kept between runs\<close>

text \<open>The row lookup of a table that represents \<open>rs\<close>.\<close>

definition lookupRows :: "table_row list \<Rightarrow> u8 \<Rightarrow> table_row result" where
  "lookupRows rs i = (if unat i < length rs then Inr (rs ! unat i) else Inl Undefined)"

lemma lookup_rep:
  assumes "tableRep key t rs ks"
  shows "bindR (fst (getRow i t)) (cellRow t) = lookupRows rs i"
proof (cases "unat i < length rs")
  case True
  with getRow_rep [OF assms True] show ?thesis by (simp add: lookupRows_def)
next
  case False
  with assms show ?thesis by (simp add: lookupRows_def getRow_def tableRep_def)
qed

text \<open>The rows in the order of their identifiers, and what a key finds, wherever the rows live.\<close>

definition rowsOf :: "table \<Rightarrow> table_row list result" where
  "rowsOf t = mapR (cellRow t) (autoIncrementIndex t)"

definition findRow :: "table \<Rightarrow> string \<Rightarrow> table_row result option" where
  "findRow t k = map_option (cellRow t) (findByKey t k)"

lemma view_rep:
  assumes "tableRep key t rs ks"
  shows "rowsOf t = Inr rs" "findRow t k = map_of (zip ks (map Inr rs)) k"
proof -
  show "rowsOf t = Inr rs"
    using mapR_cells [of t "autoIncrementIndex t" rs] assms by (auto simp: rowsOf_def tableRep_def list_all2_conv_all_nth)
  have "findRow t k = (case getByKey t k of None \<Rightarrow> None | Some a \<Rightarrow> Some (cellRow t a))"
    by (simp add: findRow_def findByKey_def getByKey_def split: option.split)
  with getByKey_rep [OF assms] show "findRow t k = map_of (zip ks (map Inr rs)) k" by simp
qed

definition databaseOk :: "database \<Rightarrow> file_system \<Rightarrow> table_row list list \<Rightarrow> string list list \<Rightarrow> bool" where
  "databaseOk db fs rss kss \<longleftrightarrow>
     (\<exists>ts. poolRep (dbPool db) ([] # ts)) \<and>
     (poolDirty (dbPool db) \<or> fs (poolFilename (dbPool db)) = Some (map charByte (pool (dbPool db)))) \<and>
     length rss = length (dbTables db) \<and> length kss = length (dbTables db) \<and>
     tablesReadOrder db = [0..<length (dbTables db)] \<and> distinct (map snd (tablesByName db)) \<and>
     set (map snd (tablesByName db)) = {0..<length (dbTables db)} \<and>
     distinct (poolFilename (dbPool db) # map (\<lambda>dt. tableFilename (tbl dt)) (dbTables db)) \<and>
     (\<forall>j<length (dbTables db). let dt = dbTables db ! j in
        tableRep (keyOf dt (dbPool db) (dbLookup db)) (tbl dt) (rss ! j) (kss ! j) \<and> schemaOk (tbl dt) \<and>
        synced (tbl dt) (rss ! j) fs \<and> 16 \<le> rowSize (tbl dt))"

text \<open>A database just created with the tables of \<open>db\<close>.\<close>

definition freshCopy :: "database \<Rightarrow> database \<Rightarrow> bool" where
  "freshCopy db0 db \<longleftrightarrow>
     (\<exists>block. dbPool db0 = StringPool (poolFilename (dbPool db)) block) \<and> \<not> wasRead db0 \<and>
     tablesReadOrder db0 = tablesReadOrder db \<and> length (dbTables db0) = length (dbTables db) \<and>
     (\<forall>j<length (dbTables db). let d0 = dbTables db0 ! j; d = dbTables db ! j in
        keyOf d0 = keyOf d \<and> emptyTable (tbl d0) \<and> tableFilename (tbl d0) = tableFilename (tbl d) \<and> rowSize (tbl d0) = rowSize (tbl d))"

lemma synced_other: "synced t rs fs \<Longrightarrow> f \<noteq> tableFilename t \<Longrightarrow> synced t rs (fs(f := c))"
  by (simp add: synced_def)

lemma dbLookup_set: "j < length (dbTables db) \<Longrightarrow> k \<noteq> j \<Longrightarrow> dbLookup (setTable j t db) k = dbLookup db k"
  by (rule ext) (simp add: dbLookup_def setTable_def)

lemma dbLookup_rep:
  "j < length (dbTables db) \<Longrightarrow> tableRep key (tbl (dbTables db ! j)) rs ks \<Longrightarrow> dbLookup db j = lookupRows rs"
  by (rule ext) (simp add: dbLookup_def lookup_rep)

section \<open>Writing all tables\<close>

definition storedOk :: "table_row list list \<Rightarrow> string list list \<Rightarrow> (nat \<Rightarrow> row_key) \<Rightarrow> file_system \<Rightarrow> database \<Rightarrow> bool" where
  "storedOk rss kss key fs db \<longleftrightarrow> (\<forall>j<length (dbTables db).
     tableRep (key j) (tbl (dbTables db ! j)) (rss ! j) (kss ! j) \<and> schemaOk (tbl (dbTables db ! j)) \<and>
     synced (tbl (dbTables db ! j)) (rss ! j) fs)"

text \<open>Everything but the contents of the tables is the same.\<close>

definition sameShape :: "database \<Rightarrow> database \<Rightarrow> bool" where
  "sameShape db db' \<longleftrightarrow> dbPool db' = dbPool db \<and> tablesByName db' = tablesByName db \<and> tablesReadOrder db' = tablesReadOrder db \<and>
     map (\<lambda>dt. (keyOf dt, tableFilename (tbl dt), rowSize (tbl dt))) (dbTables db') =
     map (\<lambda>dt. (keyOf dt, tableFilename (tbl dt), rowSize (tbl dt))) (dbTables db)"

lemma sameShape_set:
  "tableFilename t = tableFilename (tbl (dbTables db ! j)) \<Longrightarrow> rowSize t = rowSize (tbl (dbTables db ! j)) \<Longrightarrow> sameShape db (setTable j t db)"
  by (cases "j < length (dbTables db)") (simp_all add: sameShape_def setTable_def map_update list_update_same_conv list_update_beyond)

lemma sameShapeD:
  assumes "sameShape db db'"
  shows "length (dbTables db') = length (dbTables db)" "map keyOf (dbTables db') = map keyOf (dbTables db)"
    "map (\<lambda>dt. tableFilename (tbl dt)) (dbTables db') = map (\<lambda>dt. tableFilename (tbl dt)) (dbTables db)"
    "map (\<lambda>dt. rowSize (tbl dt)) (dbTables db') = map (\<lambda>dt. rowSize (tbl dt)) (dbTables db)"
proof -
  let ?f = "\<lambda>dt. (keyOf dt, tableFilename (tbl dt), rowSize (tbl dt))"
  have m: "map ?f (dbTables db') = map ?f (dbTables db)" using assms by (simp add: sameShape_def)
  then show "length (dbTables db') = length (dbTables db)" by (rule map_eq_imp_length_eq)
  show "map keyOf (dbTables db') = map keyOf (dbTables db)" using arg_cong [OF m, of "map fst"] by (simp add: comp_def)
  show "map (\<lambda>dt. tableFilename (tbl dt)) (dbTables db') = map (\<lambda>dt. tableFilename (tbl dt)) (dbTables db)"
    using arg_cong [OF m, of "map (fst \<circ> snd)"] by (simp add: comp_def)
  show "map (\<lambda>dt. rowSize (tbl dt)) (dbTables db') = map (\<lambda>dt. rowSize (tbl dt)) (dbTables db)"
    using arg_cong [OF m, of "map (snd \<circ> snd)"] by (simp add: comp_def)
qed

lemma sameShape_trans: "sameShape a b \<Longrightarrow> sameShape b c \<Longrightarrow> sameShape a c"
  by (simp add: sameShape_def)

text \<open>The parts of a database that no operation changes.\<close>

definition shapeOf :: "database \<Rightarrow> string \<times> nat list \<times> (table_key \<times> string \<times> nat) list" where
  "shapeOf db = (poolFilename (dbPool db), tablesReadOrder db, map (\<lambda>dt. (keyOf dt, tableFilename (tbl dt), rowSize (tbl dt))) (dbTables db))"

lemma shapeOf_same: "sameShape db db' \<Longrightarrow> shapeOf db' = shapeOf db"
  by (simp add: sameShape_def shapeOf_def)

lemma shapeOf_keys: "shapeOf db' = shapeOf db \<Longrightarrow> map keyOf (dbTables db') = map keyOf (dbTables db)"
proof -
  assume "shapeOf db' = shapeOf db"
  then have "map (\<lambda>dt. (keyOf dt, tableFilename (tbl dt), rowSize (tbl dt))) (dbTables db') =
    map (\<lambda>dt. (keyOf dt, tableFilename (tbl dt), rowSize (tbl dt))) (dbTables db)" by (simp add: shapeOf_def)
  from arg_cong [OF this, of "map fst"] show ?thesis by (simp add: comp_def)
qed

lemma shapeOf_fresh:
  assumes "shapeOf db = shapeOf db0" "dbPool db0 = StringPool f b" "\<not> wasRead db0" "\<forall>dt\<in>set (dbTables db0). emptyTable (tbl dt)"
  shows "freshCopy db0 db"
proof -
  let ?f = "\<lambda>dt. (keyOf dt, tableFilename (tbl dt), rowSize (tbl dt))"
  have m: "map ?f (dbTables db) = map ?f (dbTables db0)" using assms(1) by (simp add: shapeOf_def)
  then have len: "length (dbTables db) = length (dbTables db0)" by (rule map_eq_imp_length_eq)
  have "?f (dbTables db ! j) = ?f (dbTables db0 ! j)" if "j < length (dbTables db)" for j
    using arg_cong [OF m, of "\<lambda>xs. xs ! j"] that len by simp
  then show ?thesis using assms len by (auto simp: freshCopy_def shapeOf_def Let_def StringPool_eq)
qed

text \<open>Writing one table of a database in which all tables are in order.\<close>

lemma write_one:
  assumes ok: "storedOk rss kss key fs db" and j: "j < length (dbTables db)"
    and names: "distinct (map (\<lambda>dt. tableFilename (tbl dt)) (dbTables db))"
  shows "\<exists>t. writeTable (tbl (dbTables db ! j)) fs =
      Inr (t, fs(tableFilename (tbl (dbTables db ! j)) \<mapsto> fileImage (tbl (dbTables db ! j)) (rss ! j))) \<and>
    storedOk rss kss key (fs(tableFilename (tbl (dbTables db ! j)) \<mapsto> fileImage (tbl (dbTables db ! j)) (rss ! j))) (setTable j t db) \<and>
    sameShape db (setTable j t db)"
proof -
  let ?t = "tbl (dbTables db ! j)"
  let ?fs = "fs(tableFilename ?t \<mapsto> fileImage ?t (rss ! j))"
  from ok j have t: "tableRep (key j) ?t (rss ! j) (kss ! j)" "schemaOk ?t" "synced ?t (rss ! j) fs" by (auto simp: storedOk_def)
  from writeTable_image [OF t] obtain t' where w: "writeTable ?t fs = Inr (t', ?fs)" "tableRep (key j) t' (rss ! j) (kss ! j)"
    "schemaOk t'" "synced t' (rss ! j) ?fs" "tableFilename t' = tableFilename ?t" "rowSize t' = rowSize ?t" by blast
  have "tableRep (key k) (tbl (dbTables (setTable j t' db) ! k)) (rss ! k) (kss ! k) \<and> schemaOk (tbl (dbTables (setTable j t' db) ! k)) \<and>
      synced (tbl (dbTables (setTable j t' db) ! k)) (rss ! k) ?fs" if k: "k < length (dbTables db)" for k
  proof (cases "k = j")
    case True with w j show ?thesis by (simp add: setTable_def)
  next
    case False
    then have "tableFilename ?t \<noteq> tableFilename (tbl (dbTables db ! k))" using names j k by (simp add: distinct_conv_nth)
    then have "synced (tbl (dbTables db ! k)) (rss ! k) ?fs" using ok k by (intro synced_other) (simp_all add: storedOk_def)
    with ok k False show ?thesis by (simp add: storedOk_def setTable_def)
  qed
  then have "storedOk rss kss key ?fs (setTable j t' db)" by (simp add: storedOk_def setTable_def)
  with w(1) sameShape_set [OF w(5,6)] show ?thesis by blast
qed

lemma dbWriteLoop_image:
  assumes "distinct js" "\<forall>j\<in>set js. j < length (dbTables db)" "distinct (map (\<lambda>dt. tableFilename (tbl dt)) (dbTables db))"
    and "storedOk rss kss key fs db"
  shows "\<exists>db' fs'. dbWriteLoop js db fs = Inr (db', fs') \<and> storedOk rss kss key fs' db' \<and> sameShape db db' \<and>
    (\<forall>j\<in>set js. fs' (tableFilename (tbl (dbTables db ! j))) = Some (fileImage (tbl (dbTables db ! j)) (rss ! j))) \<and>
    (\<forall>f. f \<notin> (\<lambda>j. tableFilename (tbl (dbTables db ! j))) ` set js \<longrightarrow> fs' f = fs f)"
  using assms
proof (induction js arbitrary: db fs)
  case (Cons j js)
  let ?t = "tbl (dbTables db ! j)"
  let ?fs = "fs(tableFilename ?t \<mapsto> fileImage ?t (rss ! j))"
  have j: "j < length (dbTables db)" using Cons.prems(2) by simp
  from write_one [OF Cons.prems(4) j Cons.prems(3)] obtain t' where
    w: "writeTable ?t fs = Inr (t', ?fs)" "storedOk rss kss key ?fs (setTable j t' db)" "sameShape db (setTable j t' db)" by blast
  let ?db = "setTable j t' db"
  have others: "dbTables ?db ! k = dbTables db ! k" "tableFilename ?t \<noteq> tableFilename (tbl (dbTables db ! k))" if "k \<in> set js" for k
  proof -
    have "j \<noteq> k" "k < length (dbTables db)" using that Cons.prems(1,2) by auto
    then show "dbTables ?db ! k = dbTables db ! k" "tableFilename ?t \<noteq> tableFilename (tbl (dbTables db ! k))"
      using Cons.prems(3) j by (auto simp: setTable_def distinct_conv_nth)
  qed
  have "\<exists>db' fs'. dbWriteLoop js ?db ?fs = Inr (db', fs') \<and> storedOk rss kss key fs' db' \<and> sameShape ?db db' \<and>
    (\<forall>k\<in>set js. fs' (tableFilename (tbl (dbTables ?db ! k))) = Some (fileImage (tbl (dbTables ?db ! k)) (rss ! k))) \<and>
    (\<forall>f. f \<notin> (\<lambda>k. tableFilename (tbl (dbTables ?db ! k))) ` set js \<longrightarrow> fs' f = ?fs f)"
    by (rule Cons.IH [OF _ _ _ w(2)]) (use Cons.prems sameShapeD [OF w(3)] in simp_all)
  then obtain db' fs' where r: "dbWriteLoop js ?db ?fs = Inr (db', fs')" "storedOk rss kss key fs' db'" "sameShape ?db db'"
    "\<forall>k\<in>set js. fs' (tableFilename (tbl (dbTables db ! k))) = Some (fileImage (tbl (dbTables db ! k)) (rss ! k))"
    "\<forall>f. f \<notin> (\<lambda>k. tableFilename (tbl (dbTables db ! k))) ` set js \<longrightarrow> fs' f = ?fs f"
    using others(1) by auto
  have "tableFilename ?t \<notin> (\<lambda>k. tableFilename (tbl (dbTables db ! k))) ` set js" using others(2) by fastforce
  with r(5) have "fs' (tableFilename ?t) = Some (fileImage ?t (rss ! j))" by simp
  with w(1) r sameShape_trans [OF w(3) r(3)] show ?case by (intro exI [of _ db'] exI [of _ fs']) auto
qed (simp add: sameShape_def)

lemma databaseOk_stored: "databaseOk db fs rss kss \<Longrightarrow> storedOk rss kss (\<lambda>j. keyOf (dbTables db ! j) (dbPool db) (dbLookup db)) fs db"
  by (simp add: databaseOk_def storedOk_def Let_def)

lemma dbWrite_image:
  assumes ok: "databaseOk db fs rss kss"
  shows "\<exists>db1 fs1 ts. dbWrite db fs = Inr (db1, fs1) \<and> poolRep (dbPool db) ([] # ts) \<and>
    fs1 (poolFilename (dbPool db)) = Some (map charByte (poolImage ([] # ts))) \<and>
    (\<forall>j<length (dbTables db). fs1 (tableFilename (tbl (dbTables db ! j))) = Some (fileImage (tbl (dbTables db ! j)) (rss ! j))) \<and>
    storedOk rss kss (\<lambda>j. keyOf (dbTables db ! j) (dbPool db) (dbLookup db)) fs1 db1 \<and> sameShape db db1"
proof -
  let ?p = "dbPool db" and ?js = "map snd (tablesByName db)" and ?n = "length (dbTables db)"
  let ?fs = "writePool ?p fs" and ?key = "\<lambda>j. keyOf (dbTables db ! j) (dbPool db) (dbLookup db)"
  obtain ts where ts: "poolRep ?p ([] # ts)" using ok by (auto simp: databaseOk_def)
  have js: "distinct ?js" "set ?js = {0..<?n}" "distinct (map (\<lambda>dt. tableFilename (tbl dt)) (dbTables db))"
    and names: "\<forall>j<?n. poolFilename ?p \<noteq> tableFilename (tbl (dbTables db ! j))"
    using ok by (auto simp: databaseOk_def)
  have "storedOk rss kss ?key ?fs db"
    using databaseOk_stored [OF ok] names by (auto simp: storedOk_def writePool_def intro!: synced_other)
  moreover have "\<forall>j\<in>set ?js. j < ?n" using js(2) by auto
  ultimately obtain db1 fs1 where w: "dbWriteLoop ?js db ?fs = Inr (db1, fs1)" "storedOk rss kss ?key fs1 db1" "sameShape db db1"
    "\<forall>j\<in>set ?js. fs1 (tableFilename (tbl (dbTables db ! j))) = Some (fileImage (tbl (dbTables db ! j)) (rss ! j))"
    "\<forall>f. f \<notin> (\<lambda>j. tableFilename (tbl (dbTables db ! j))) ` set ?js \<longrightarrow> fs1 f = ?fs f"
    using dbWriteLoop_image [OF js(1) _ js(3), of rss kss ?key ?fs] by blast
  have "fs1 (poolFilename ?p) = ?fs (poolFilename ?p)"
    by (rule w(5) [rule_format]) (use names js(2) in auto)
  also have "\<dots> = Some (map charByte (poolImage ([] # ts)))" using ok ts by (auto simp: writePool_def databaseOk_def poolRep_def)
  finally have image: "fs1 (poolFilename ?p) = Some (map charByte (poolImage ([] # ts)))" .
  have "\<forall>j<?n. fs1 (tableFilename (tbl (dbTables db ! j))) = Some (fileImage (tbl (dbTables db ! j)) (rss ! j))"
    using w(4) unfolding js(2) by simp
  moreover have "dbWrite db fs = Inr (db1, fs1)" using w(1) by (simp add: dbWrite_def)
  ultimately show ?thesis using image ts w(2,3) by blast
qed

section \<open>Reading all tables\<close>

text \<open>
  What the tables of a database promise of their keys: only the text of the pool matters, and
  only rows of tables that are read before.
\<close>

locale database_keys =
  fixes keys :: "table_key list"
  assumes key_texts: "i < length keys \<Longrightarrow> pool p = pool q \<Longrightarrow> (keys ! i) p lk = (keys ! i) q lk"
    and key_earlier: "i < length keys \<Longrightarrow> (\<And>k. k < i \<Longrightarrow> lk k = lk' k) \<Longrightarrow> (keys ! i) p lk = (keys ! i) p lk'"
begin

text \<open>The tables before position \<open>n\<close> have been read, the others are still empty.\<close>

lemma dbReadLoop_image:
  assumes db: "map keyOf (dbTables db) = keys" "length rss = length keys"
    "\<forall>j<length keys. tableRep ((keys ! j) (dbPool db) (dbLookup db)) (tbl (dbTables db ! j)) (rss ! j) (kss ! j) \<and>
      schemaOk (tbl (dbTables db ! j)) \<and> 16 \<le> rowSize (tbl (dbTables db ! j)) \<and>
      fs (tableFilename (tbl (dbTables db ! j))) = Some (fileImage (tbl (dbTables db ! j)) (rss ! j))"
    and "length (dbTables d) = length keys" "map keyOf (dbTables d) = keys" "pool (dbPool d) = pool (dbPool db)" "n \<le> length keys"
    "\<forall>j<n. tableRep ((keys ! j) (dbPool db) (dbLookup db)) (tbl (dbTables d ! j)) (rss ! j) (kss ! j)"
    "\<forall>j. n \<le> j \<and> j < length keys \<longrightarrow> emptyTable (tbl (dbTables d ! j)) \<and>
      tableFilename (tbl (dbTables d ! j)) = tableFilename (tbl (dbTables db ! j)) \<and> rowSize (tbl (dbTables d ! j)) = rowSize (tbl (dbTables db ! j))"
  shows "\<exists>d'. dbReadLoop fs [n..<length keys] d = (Inr True, d') \<and> length (dbTables d') = length keys \<and> dbPool d' = dbPool d \<and>
    (\<forall>j<length keys. tableRep ((keys ! j) (dbPool db) (dbLookup db)) (tbl (dbTables d' ! j)) (rss ! j) (kss ! j))"
  using assms(4-)
proof (induction "length keys - n" arbitrary: n d)
  case 0 then show ?case by auto
next
  case (Suc m)
  then have n: "n < length keys" by simp
  let ?u = "tbl (dbTables d ! n)" and ?t = "tbl (dbTables db ! n)"
  have len: "length (dbTables db) = length keys" using db(1) by (metis length_map)
  have keyn: "keyOf (dbTables d ! n) = keys ! n" using Suc.prems(2) n Suc.prems(1) by (metis nth_map)
  have "dbLookup d k = dbLookup db k" if "k < n" for k
  proof -
    have "tableRep ((keys ! k) (dbPool db) (dbLookup db)) (tbl (dbTables d ! k)) (rss ! k) (kss ! k)"
      "tableRep ((keys ! k) (dbPool db) (dbLookup db)) (tbl (dbTables db ! k)) (rss ! k) (kss ! k)"
      using Suc.prems(5) db(3) that n by auto
    then show ?thesis using dbLookup_rep that n Suc.prems(1) len by (metis order.strict_trans)
  qed
  then have key: "(keys ! n) (dbPool d) (dbLookup d) = (keys ! n) (dbPool db) (dbLookup db)"
    using key_texts [OF n Suc.prems(3)] key_earlier [OF n] by metis
  have t: "tableRep ((keys ! n) (dbPool db) (dbLookup db)) ?t (rss ! n) (kss ! n)" "schemaOk ?t" "16 \<le> rowSize ?t"
    "fs (tableFilename ?t) = Some (fileImage ?t (rss ! n))" using db(3) n by auto
  have u: "emptyTable ?u" "tableFilename ?u = tableFilename ?t" "rowSize ?u = rowSize ?t" using Suc.prems(6) n by auto
  from readTable_image [OF t(1,2) u(1,3)] t(3,4) u obtain u' where
    r: "readTable ((keys ! n) (dbPool db) (dbLookup db)) fs ?u = (Inr True, u')"
    "tableRep ((keys ! n) (dbPool db) (dbLookup db)) u' (rss ! n) (kss ! n)" by auto
  let ?d = "setTable n u' d"
  have "\<exists>d'. dbReadLoop fs [Suc n..<length keys] ?d = (Inr True, d') \<and> length (dbTables d') = length keys \<and> dbPool d' = dbPool ?d \<and>
    (\<forall>j<length keys. tableRep ((keys ! j) (dbPool db) (dbLookup db)) (tbl (dbTables d' ! j)) (rss ! j) (kss ! j))"
  proof (rule Suc.hyps(1))
    show "map keyOf (dbTables ?d) = keys"
      using Suc.prems(2) n keyn by (simp add: setTable_def map_update list_update_same_conv)
    show "\<forall>j<Suc n. tableRep ((keys ! j) (dbPool db) (dbLookup db)) (tbl (dbTables ?d ! j)) (rss ! j) (kss ! j)"
      using Suc.prems(1,5) r(2) n by (auto simp: setTable_def less_Suc_eq)
  qed (use Suc.prems Suc.hyps(2) n in \<open>auto simp: setTable_def\<close>)
  moreover have "dbReadLoop fs [n..<length keys] d = dbReadLoop fs [Suc n..<length keys] ?d"
    using r(1) key keyn n by (simp add: upt_conv_Cons Let_def)
  ultimately show ?case by (simp add: setTable_def)
qed

text \<open>Databases whose tables hold the same rows and whose pools hold the same texts have the same keys.\<close>

lemma keys_same:
  assumes "map keyOf (dbTables db) = keys" "map keyOf (dbTables db') = keys" "pool (dbPool db') = pool (dbPool db)"
    and "\<forall>j<length keys. tableRep (key j) (tbl (dbTables db ! j)) (rss ! j) (kss ! j)"
    and "\<forall>j<length keys. tableRep (key' j) (tbl (dbTables db' ! j)) (rss ! j) (kss ! j)" and j: "j < length keys"
  shows "keyOf (dbTables db' ! j) (dbPool db') (dbLookup db') = keyOf (dbTables db ! j) (dbPool db) (dbLookup db)"
proof -
  have len: "length (dbTables db) = length keys" "length (dbTables db') = length keys" using assms(1,2) by (metis length_map)+
  have nth: "keyOf (dbTables db ! j) = keys ! j" "keyOf (dbTables db' ! j) = keys ! j" using assms(1,2) j len by (metis nth_map)+
  have "dbLookup db' k = dbLookup db k" if "k < j" for k
    using assms(4,5) j that len dbLookup_rep by (metis order.strict_trans)
  then have "(keys ! j) (dbPool db') (dbLookup db') = (keys ! j) (dbPool db') (dbLookup db)" by (rule key_earlier [OF j])
  also have "\<dots> = (keys ! j) (dbPool db) (dbLookup db)" by (rule key_texts [OF j assms(3)])
  finally show ?thesis by (simp add: nth)
qed

lemma databaseOk_write:
  assumes ok: "databaseOk db fs rss kss" and keys: "map keyOf (dbTables db) = keys" and w: "dbWrite db fs = Inr (db1, fs1)"
  shows "databaseOk db1 fs1 rss kss \<and> shapeOf db1 = shapeOf db"
proof -
  let ?key = "\<lambda>j. keyOf (dbTables db ! j) (dbPool db) (dbLookup db)"
  from dbWrite_image [OF ok] w obtain ts where s: "poolRep (dbPool db) ([] # ts)"
    "fs1 (poolFilename (dbPool db)) = Some (map charByte (poolImage ([] # ts)))" "storedOk rss kss ?key fs1 db1" "sameShape db db1" by auto
  note d = sameShapeD [OF s(4)]
  have len: "length (dbTables db) = length keys" "length (dbTables db1) = length keys" and keys1: "map keyOf (dbTables db1) = keys"
    and p: "dbPool db1 = dbPool db" using keys d s(4) by (auto simp: sameShape_def)
  have same: "keyOf (dbTables db1 ! j) (dbPool db1) (dbLookup db1) = ?key j" if "j < length keys" for j
    by (rule keys_same [OF keys keys1 _ _ _ that, of ?key rss kss ?key])
      (use p databaseOk_stored [OF ok] s(3) len in \<open>simp_all add: storedOk_def\<close>)
  have sz: "rowSize (tbl (dbTables db1 ! j)) = rowSize (tbl (dbTables db ! j))" if "j < length keys" for j
    using arg_cong [OF d(4), of "\<lambda>xs. xs ! j"] that len by simp
  have "databaseOk db1 fs1 rss kss"
    using ok s same sz len d(3) by (auto simp: databaseOk_def storedOk_def sameShape_def poolRep_def Let_def)
  then show ?thesis using shapeOf_same [OF s(4)] by simp
qed

lemma restart:
  assumes ok: "databaseOk db fs rss kss" and keys: "map keyOf (dbTables db) = keys" and fresh: "freshCopy db0 db"
  shows "\<exists>db1 fs1 db2. dbWrite db fs = Inr (db1, fs1) \<and> dbRead fs1 block db0 = (Inr True, db2) \<and>
    pool (dbPool db2) = pool (dbPool db) \<and> length (dbTables db2) = length (dbTables db) \<and>
    (\<forall>j<length (dbTables db). tableRep (keyOf (dbTables db ! j) (dbPool db) (dbLookup db)) (tbl (dbTables db2 ! j)) (rss ! j) (kss ! j))"
proof -
  let ?p = "dbPool db"
  have len: "length (dbTables db) = length keys" "length rss = length keys" using keys ok by (auto simp: databaseOk_def)
  have nth: "keyOf (dbTables db ! j) = keys ! j" if "j < length keys" for j using that keys len(1) by (metis nth_map)
  from dbWrite_image [OF ok] obtain db1 fs1 ts where w: "dbWrite db fs = Inr (db1, fs1)" "poolRep ?p ([] # ts)"
    "fs1 (poolFilename ?p) = Some (map charByte (poolImage ([] # ts)))"
    "\<forall>j<length keys. fs1 (tableFilename (tbl (dbTables db ! j))) = Some (fileImage (tbl (dbTables db ! j)) (rss ! j))"
    unfolding len by auto
  have each: "\<forall>j<length keys. tableRep ((keys ! j) ?p (dbLookup db)) (tbl (dbTables db ! j)) (rss ! j) (kss ! j) \<and>
      schemaOk (tbl (dbTables db ! j)) \<and> 16 \<le> rowSize (tbl (dbTables db ! j))"
    using ok len nth by (auto simp: databaseOk_def Let_def)
  obtain b0 where b0: "dbPool db0 = StringPool (poolFilename ?p) b0" "\<not> wasRead db0" using fresh by (auto simp: freshCopy_def)
  from readPool_rep [of fs1 "poolFilename ?p" ts block b0] w(2,3) obtain q where
    q: "readPool fs1 block (StringPool (poolFilename ?p) b0) = Inr q" "poolRep q ([] # ts)" by (auto simp: poolRep_def)
  have same: "pool q = pool ?p" using q(2) w(2) by (simp add: poolRep_def)
  let ?d = "db0\<lparr>dbPool := q\<rparr>"
  have "\<exists>d'. dbReadLoop fs1 [0..<length keys] ?d = (Inr True, d') \<and> length (dbTables d') = length keys \<and> dbPool d' = dbPool ?d \<and>
    (\<forall>j<length keys. tableRep ((keys ! j) ?p (dbLookup db)) (tbl (dbTables d' ! j)) (rss ! j) (kss ! j))"
  proof (rule dbReadLoop_image [OF keys len(2)])
    show "map keyOf (dbTables ?d) = keys"
      using fresh nth len by (intro nth_equalityI) (auto simp: freshCopy_def Let_def)
    show "\<forall>j. 0 \<le> j \<and> j < length keys \<longrightarrow> emptyTable (tbl (dbTables ?d ! j)) \<and>
      tableFilename (tbl (dbTables ?d ! j)) = tableFilename (tbl (dbTables db ! j)) \<and> rowSize (tbl (dbTables ?d ! j)) = rowSize (tbl (dbTables db ! j))"
      using fresh len by (simp add: freshCopy_def Let_def)
  qed (use each w(4) fresh len same in \<open>auto simp: freshCopy_def\<close>)
  then obtain d' where d': "dbReadLoop fs1 [0..<length keys] ?d = (Inr True, d')" "length (dbTables d') = length keys" "dbPool d' = q"
    "\<forall>j<length keys. tableRep ((keys ! j) ?p (dbLookup db)) (tbl (dbTables d' ! j)) (rss ! j) (kss ! j)" by auto
  have "tablesReadOrder db0 = [0..<length keys]" using fresh ok len by (simp add: freshCopy_def databaseOk_def)
  then have "dbRead fs1 block db0 = (Inr True, d'\<lparr>wasRead := True\<rparr>)" using b0 q(1) d'(1) by (simp add: dbRead_def)
  with w(1) d' len nth same show ?thesis
    by (intro exI [of _ db1] exI [of _ fs1] exI [of _ "d'\<lparr>wasRead := True\<rparr>"]) auto
qed

end

section \<open>Runs of a database\<close>

text \<open>
  What a program does with a database between reading and writing it: texts are interned, rows
  are added to a table and deleted, everything is written.
\<close>

definition keyAt :: "database \<Rightarrow> nat \<Rightarrow> row_key" where
  "keyAt db j = keyOf (dbTables db ! j) (dbPool db) (dbLookup db)"

inductive db_run :: "database \<Rightarrow> file_system \<Rightarrow> database \<Rightarrow> file_system \<Rightarrow> bool" for db0 fs0 where
  db_start: "db_run db0 fs0 db0 fs0"
| db_intern: "db_run db0 fs0 db fs \<Longrightarrow> getPoolString block s db = (Inr h, db') \<Longrightarrow> NUL \<notin> set s \<Longrightarrow> length s + 1 \<le> poolRoom (dbPool db) \<Longrightarrow>
    db_run db0 fs0 db' fs"
| db_add: "db_run db0 fs0 db fs \<Longrightarrow> j < length (dbTables db) \<Longrightarrow> newRow r (tbl (dbTables db ! j)) = (Inr a, t1) \<Longrightarrow>
    addRow (keyAt db j) a t1 = (Inr i, t2) \<Longrightarrow> length (rowBody r) + 16 = rowSize (tbl (dbTables db ! j)) \<Longrightarrow>
    length (autoIncrementIndex (tbl (dbTables db ! j))) + 1 < 2 ^ 64 \<Longrightarrow> db_run db0 fs0 (setTable j t2 db) fs"
| db_delete: "db_run db0 fs0 db fs \<Longrightarrow> j < length (dbTables db) \<Longrightarrow> deleteRow i (tbl (dbTables db ! j)) = (Inr b, t') \<Longrightarrow>
    db_run db0 fs0 (setTable j t' db) fs"
| db_write: "db_run db0 fs0 db fs \<Longrightarrow> dbWrite db fs = Inr (db', fs') \<Longrightarrow> db_run db0 fs0 db' fs'"

definition poolExtends :: "string_pool \<Rightarrow> string_pool \<Rightarrow> bool" where
  "poolExtends p q \<longleftrightarrow> (\<exists>xs. pool q = pool p @ xs)"

definition lookupExtends :: "row_lookup \<Rightarrow> row_lookup \<Rightarrow> bool" where
  "lookupExtends lk lk' \<longleftrightarrow> (\<forall>j i r. lk j i = Inr r \<longrightarrow> (\<exists>r'. lk' j i = Inr r' \<and> rowBody r' = rowBody r))"

lemma lookupExtends_refl [simp]: "lookupExtends lk lk"
  by (auto simp: lookupExtends_def)

lemma poolExtends_refl [simp]: "poolExtends p p"
  by (simp add: poolExtends_def)

lemma tableRep_mono:
  "tableRep key t rs ks \<Longrightarrow> (\<And>r s. key r = Inr s \<Longrightarrow> key' r = Inr s) \<Longrightarrow> tableRep key' t rs ks"
  by (simp add: tableRep_def)

lemma lookupExtends_set:
  assumes "j < length (dbTables db)" "tableRep key (tbl (dbTables db ! j)) rs ks" "tableRep key' t rs' ks'" "length rs \<le> length rs'"
    "\<forall>i<length rs. rowBody (rs' ! i) = rowBody (rs ! i)"
  shows "lookupExtends (dbLookup db) (dbLookup (setTable j t db))"
proof -
  have old: "dbLookup db j = lookupRows rs" using assms(1,2) by (rule dbLookup_rep)
  have new: "dbLookup (setTable j t db) j = lookupRows rs'"
    using assms(1,3) by (intro dbLookup_rep) (simp_all add: setTable_def)
  have "\<exists>r'. dbLookup (setTable j t db) k i = Inr r' \<and> rowBody r' = rowBody r" if "dbLookup db k i = Inr r" for k i r
  proof (cases "k = j")
    case True
    with that old new assms(4,5) show ?thesis by (auto simp: lookupRows_def split: if_splits)
  next
    case False
    with that dbLookup_set [OF assms(1) False] show ?thesis by simp
  qed
  then show ?thesis by (simp add: lookupExtends_def)
qed

lemma addString_extends:
  assumes p: "poolRep p ([] # ts)" and add: "addString b s p = (Inr h, q)" and s: "NUL \<notin> set s" "length s + 1 \<le> poolRoom p"
  shows "q = p \<or> (\<exists>us. poolRep q ([] # us) \<and> poolExtends p q \<and> poolFilename q = poolFilename p \<and> poolDirty q)"
proof (cases "s \<in> set ([] # ts)")
  case True
  with addString_old [OF p True, of b] add show ?thesis by auto
next
  case False
  have "length (pool p) + length s < poolSize p" using s(2) by (simp add: poolRoom_def)
  from addString_new [OF p False s(1) this, of b] add have q: "poolRep q ([] # ts @ [s])" "poolFilename q = poolFilename p" "poolDirty q"
    by auto
  then have "poolExtends p q" using p by (simp add: poolRep_def poolExtends_def)
  with q show ?thesis by blast
qed

text \<open>Keys that are stable while the database grows.\<close>

locale growing_keys = database_keys +
  assumes key_body: "i < length keys \<Longrightarrow> rowBody r' = rowBody r \<Longrightarrow> (keys ! i) p lk r' = (keys ! i) p lk r"
    and key_grows: "i < length keys \<Longrightarrow> poolExtends p q \<Longrightarrow> lookupExtends lk lk' \<Longrightarrow> (keys ! i) p lk r = Inr s \<Longrightarrow> (keys ! i) q lk' r = Inr s"
begin

lemma row_keys_at: "i < length keys \<Longrightarrow> row_keys ((keys ! i) p lk)"
  by unfold_locales (rule key_body, assumption, simp)+

lemma databaseOk_table:
  assumes ok: "databaseOk db fs rss kss" and keys: "map keyOf (dbTables db) = keys" and j: "j < length (dbTables db)"
    and t: "tableRep (keyAt db j) t rs ks" "synced t rs fs" "schemaOk t" "tableFilename t = tableFilename (tbl (dbTables db ! j))"
      "rowSize t = rowSize (tbl (dbTables db ! j))"
    and rs: "length (rss ! j) \<le> length rs" "\<forall>i<length (rss ! j). rowBody (rs ! i) = rowBody (rss ! j ! i)"
  shows "databaseOk (setTable j t db) fs (rss[j := rs]) (kss[j := ks])"
proof -
  let ?db = "setTable j t db"
  have len: "length (dbTables db) = length keys" using keys by (metis length_map)
  have nth: "keyOf (dbTables db ! k) = keys ! k" if "k < length keys" for k using that keys len by (metis nth_map)
  have keyset: "keyOf (dbTables ?db ! k) = keys ! k" if "k < length keys" for k
    using that nth len by (cases "k = j") (simp_all add: setTable_def)
  have old: "tableRep (keyAt db k) (tbl (dbTables db ! k)) (rss ! k) (kss ! k)" if "k < length keys" for k
    using ok that len by (auto simp: databaseOk_def Let_def keyAt_def)
  have lk: "lookupExtends (dbLookup db) (dbLookup ?db)"
    using lookupExtends_set [OF j old t(1) rs] j len by simp
  have rep: "tableRep (keyAt ?db k) (tbl (dbTables ?db ! k)) (rss[j := rs] ! k) (kss[j := ks] ! k)" if k: "k < length keys" for k
  proof -
    have pool: "dbPool ?db = dbPool db" by (simp add: setTable_def)
    have mono: "keyAt ?db k r = Inr s" if "keyAt db k r = Inr s" for r s
      using key_grows [OF k poolExtends_refl lk] that unfolding keyAt_def keyset [OF k] nth [OF k] pool .
    have lens: "length rss = length keys" "length kss = length keys" using ok len by (simp_all add: databaseOk_def)
    show ?thesis
    proof (cases "k = j")
      case True
      with tableRep_mono [OF t(1) mono] j len lens show ?thesis by (simp add: setTable_def)
    next
      case False
      with tableRep_mono [OF old [OF k] mono] show ?thesis by (simp add: setTable_def)
    qed
  qed
  have names: "map (\<lambda>dt. tableFilename (tbl dt)) (dbTables ?db) = map (\<lambda>dt. tableFilename (tbl dt)) (dbTables db)"
    using t(4) j by (simp add: setTable_def map_update list_update_same_conv)
  have "schemaOk (tbl (dbTables ?db ! k)) \<and> synced (tbl (dbTables ?db ! k)) (rss[j := rs] ! k) fs \<and> 16 \<le> rowSize (tbl (dbTables ?db ! k))"
    if "k < length keys" for k
    using ok t(2,3,5) that j len by (cases "k = j") (auto simp: databaseOk_def setTable_def Let_def)
  with rep names ok len show ?thesis by (auto simp: databaseOk_def Let_def keyAt_def setTable_def)
qed

lemma databaseOk_intern:
  assumes ok: "databaseOk db fs rss kss" and keys: "map keyOf (dbTables db) = keys" and g: "getPoolString b s db = (Inr h, db')"
    and s: "NUL \<notin> set s" "length s + 1 \<le> poolRoom (dbPool db)"
  shows "databaseOk db' fs rss kss \<and> shapeOf db' = shapeOf db"
proof -
  obtain ts where ts: "poolRep (dbPool db) ([] # ts)" using ok by (auto simp: databaseOk_def)
  obtain q where db': "db' = db\<lparr>dbPool := q\<rparr>" and add: "addString b s (dbPool db) = (Inr h, q)"
    using g by (auto simp: getPoolString_def split: prod.splits)
  from addString_extends [OF ts add s] show ?thesis
  proof
    assume "q = dbPool db"
    with ok keys db' show ?thesis by simp
  next
    assume "\<exists>us. poolRep q ([] # us) \<and> poolExtends (dbPool db) q \<and> poolFilename q = poolFilename (dbPool db) \<and> poolDirty q"
    then obtain us where p: "poolRep q ([] # us)" "poolExtends (dbPool db) q" "poolFilename q = poolFilename (dbPool db)" "poolDirty q" by blast
    have lk: "dbLookup db' = dbLookup db" by (intro ext) (simp add: dbLookup_def db')
    have len: "length (dbTables db) = length keys" using keys by (metis length_map)
    have "tableRep (keyOf (dbTables db ! j) q (dbLookup db)) (tbl (dbTables db ! j)) (rss ! j) (kss ! j)" if j: "j < length keys" for j
    proof (rule tableRep_mono)
      show "tableRep (keyOf (dbTables db ! j) (dbPool db) (dbLookup db)) (tbl (dbTables db ! j)) (rss ! j) (kss ! j)"
        using ok j len by (simp add: databaseOk_def Let_def)
      have "keyOf (dbTables db ! j) = keys ! j" using keys j len by (metis nth_map)
      then show "keyOf (dbTables db ! j) q (dbLookup db) r = Inr s'" if "keyOf (dbTables db ! j) (dbPool db) (dbLookup db) r = Inr s'" for r s'
        using that key_grows [OF j p(2) lookupExtends_refl] by simp
    qed
    then have "databaseOk db' fs rss kss" using ok p len lk by (auto simp: databaseOk_def Let_def db')
    then show ?thesis using p db' by (simp add: shapeOf_def)
  qed
qed

lemma database_add:
  assumes ok: "databaseOk db fs rss kss" "map keyOf (dbTables db) = keys" and j: "j < length (dbTables db)"
    and add: "newRow r (tbl (dbTables db ! j)) = (Inr a, t1)" "addRow (keyAt db j) a t1 = (Inr i, t2)"
      "length (rowBody r) + 16 = rowSize (tbl (dbTables db ! j))" "length (autoIncrementIndex (tbl (dbTables db ! j))) + 1 < 2 ^ 64"
  shows "\<exists>k. databaseOk (setTable j t2 db) fs (rss[j := rss ! j @ [r\<lparr>rowId := of_nat (length (rss ! j))\<rparr>]]) (kss[j := kss ! j @ [k]]) \<and>
    shapeOf (setTable j t2 db) = shapeOf db"
proof -
  have jk: "j < length keys" using ok(2) j by auto
  then have key: "row_keys (keyAt db j)" using ok(2) row_keys_at [OF jk] by (auto simp: keyAt_def)
  have t: "tableRep (keyAt db j) (tbl (dbTables db ! j)) (rss ! j) (kss ! j)" "synced (tbl (dbTables db ! j)) (rss ! j) fs"
    "schemaOk (tbl (dbTables db ! j))" using ok(1) j by (auto simp: databaseOk_def Let_def keyAt_def)
  from row_keys.add_step [OF key t add] obtain k where
    s: "tableRep (keyAt db j) t2 (rss ! j @ [r\<lparr>rowId := of_nat (length (rss ! j))\<rparr>]) (kss ! j @ [k])"
    "synced t2 (rss ! j @ [r\<lparr>rowId := of_nat (length (rss ! j))\<rparr>]) fs" "schemaOk t2"
    "tableFilename t2 = tableFilename (tbl (dbTables db ! j))" "rowSize t2 = rowSize (tbl (dbTables db ! j))" by blast
  have "databaseOk (setTable j t2 db) fs (rss[j := rss ! j @ [r\<lparr>rowId := of_nat (length (rss ! j))\<rparr>]]) (kss[j := kss ! j @ [k]])"
    by (rule databaseOk_table [OF ok j s]) (simp_all add: nth_append)
  with shapeOf_same [OF sameShape_set [OF s(4,5)]] show ?thesis by blast
qed

lemma database_delete:
  assumes ok: "databaseOk db fs rss kss" "map keyOf (dbTables db) = keys" and j: "j < length (dbTables db)"
    and del: "deleteRow i (tbl (dbTables db ! j)) = (Inr b, t')"
  shows "\<exists>r. databaseOk (setTable j t' db) fs (rss[j := (rss ! j)[unat i := r]]) (kss[j := kss ! j]) \<and>
    shapeOf (setTable j t' db) = shapeOf db"
proof -
  have jk: "j < length keys" using ok(2) j by auto
  then have key: "row_keys (keyAt db j)" using ok(2) row_keys_at [OF jk] by (auto simp: keyAt_def)
  have t: "tableRep (keyAt db j) (tbl (dbTables db ! j)) (rss ! j) (kss ! j)" "synced (tbl (dbTables db ! j)) (rss ! j) fs"
    "schemaOk (tbl (dbTables db ! j))" using ok(1) j by (auto simp: databaseOk_def Let_def keyAt_def)
  from row_keys.delete_step [OF key t del] obtain r where
    s: "tableRep (keyAt db j) t' ((rss ! j)[unat i := r]) (kss ! j)" "synced t' ((rss ! j)[unat i := r]) fs" "schemaOk t'"
    "tableFilename t' = tableFilename (tbl (dbTables db ! j))" "rowSize t' = rowSize (tbl (dbTables db ! j))"
    and r: "unat i < length (rss ! j)" "rowBody r = rowBody (rss ! j ! unat i)" by blast
  have "databaseOk (setTable j t' db) fs (rss[j := (rss ! j)[unat i := r]]) (kss[j := kss ! j])"
    by (rule databaseOk_table [OF ok j s]) (use r in \<open>auto simp: nth_list_update\<close>)
  with shapeOf_same [OF sameShape_set [OF s(4,5)]] show ?thesis by blast
qed

lemma run_ok:
  assumes "db_run db0 fs0 db fs" "\<exists>rss kss. databaseOk db0 fs0 rss kss" "map keyOf (dbTables db0) = keys"
  shows "(\<exists>rss kss. databaseOk db fs rss kss) \<and> shapeOf db = shapeOf db0"
  using assms
proof (induction rule: db_run.induct)
  case (db_intern db fs b s h db')
  then obtain rss kss where ok: "databaseOk db fs rss kss" and sh: "shapeOf db = shapeOf db0" by blast
  have k: "map keyOf (dbTables db) = keys" using shapeOf_keys [OF sh] db_intern.prems(2) by simp
  from databaseOk_intern [OF ok k db_intern.hyps(2-4)] sh show ?case by auto
next
  case (db_add db fs j r a t1 i t2)
  then obtain rss kss where ok: "databaseOk db fs rss kss" and sh: "shapeOf db = shapeOf db0" by blast
  have k: "map keyOf (dbTables db) = keys" using shapeOf_keys [OF sh] db_add.prems(2) by simp
  from database_add [OF ok k db_add.hyps(2-6)] sh show ?case by auto
next
  case (db_delete db fs j i b t')
  then obtain rss kss where ok: "databaseOk db fs rss kss" and sh: "shapeOf db = shapeOf db0" by blast
  have k: "map keyOf (dbTables db) = keys" using shapeOf_keys [OF sh] db_delete.prems(2) by simp
  from database_delete [OF ok k db_delete.hyps(2-3)] sh show ?case by auto
next
  case (db_write db fs db' fs')
  then obtain rss kss where ok: "databaseOk db fs rss kss" and sh: "shapeOf db = shapeOf db0" by blast
  have k: "map keyOf (dbTables db) = keys" using shapeOf_keys [OF sh] db_write.prems(2) by simp
  from databaseOk_write [OF ok k db_write.hyps(2)] sh show ?case by auto
qed simp

lemma run_restart:
  assumes run: "db_run db0 fs0 db fs" and start: "\<exists>rss kss. databaseOk db0 fs0 rss kss" "map keyOf (dbTables db0) = keys"
    and fresh: "freshCopy dbNew db"
  shows "\<exists>db1 fs1 db2. dbWrite db fs = Inr (db1, fs1) \<and> dbRead fs1 block dbNew = (Inr True, db2) \<and>
    pool (dbPool db2) = pool (dbPool db) \<and> length (dbTables db2) = length (dbTables db) \<and>
    (\<forall>j<length (dbTables db). isOk (rowsOf (tbl (dbTables db ! j))) \<and>
       rowsOf (tbl (dbTables db2 ! j)) = rowsOf (tbl (dbTables db ! j)) \<and>
       (\<forall>k. findRow (tbl (dbTables db2 ! j)) k = findRow (tbl (dbTables db ! j)) k))"
proof -
  from run_ok [OF run start] start(2) obtain rss kss where ok: "databaseOk db fs rss kss" "map keyOf (dbTables db) = keys"
    using shapeOf_keys [of db db0] by blast
  from restart [OF ok fresh, of block] obtain db1 fs1 db2 where r: "dbWrite db fs = Inr (db1, fs1)" "dbRead fs1 block dbNew = (Inr True, db2)"
    "pool (dbPool db2) = pool (dbPool db)" "length (dbTables db2) = length (dbTables db)"
    and reps: "\<forall>j<length (dbTables db). tableRep (keyOf (dbTables db ! j) (dbPool db) (dbLookup db)) (tbl (dbTables db2 ! j)) (rss ! j) (kss ! j)"
    by blast
  have "isOk (rowsOf (tbl (dbTables db ! j))) \<and> rowsOf (tbl (dbTables db2 ! j)) = rowsOf (tbl (dbTables db ! j)) \<and>
       (\<forall>k. findRow (tbl (dbTables db2 ! j)) k = findRow (tbl (dbTables db ! j)) k)" if "j < length (dbTables db)" for j
  proof -
    have "tableRep (keyOf (dbTables db ! j) (dbPool db) (dbLookup db)) (tbl (dbTables db ! j)) (rss ! j) (kss ! j)"
      using ok(1) that by (simp add: databaseOk_def Let_def)
    from view_rep [OF this] view_rep [OF reps [rule_format, OF that]] show ?thesis by simp
  qed
  with r show ?thesis by blast
qed

end

end
