(* ===== verification/Domain_Tables.thy ===== *)
theory Domain_Tables
  imports Db_Database String_Utils
begin

text \<open>
  The tables of the two databases of the program (\<^verbatim>\<open>domain/db/\<close>): the digest database with files
  and class files, and the call-graph database with ten tables.  A row structure is packed, so
  it is given by the names and sizes of its members in order; a column is read at its offset.
\<close>

section \<open>Row structures\<close>

type_synonym layout = "(string \<times> nat) list"

definition AutoIncrementedRow :: layout where
  "AutoIncrementedRow = [(''flags'', 8), (''id'', 8)]"

definition FileRow :: layout where
  "FileRow = AutoIncrementedRow @ [(''type'', 4), (''filename'', 8), (''lastWriteTime'', 8), (''fileSize'', 8), (''classfileCount'', 4), (''digest'', 40)]"

definition ClassFileRow :: layout where
  "ClassFileRow = AutoIncrementedRow @ [(''file'', 8), (''classname'', 8), (''lastWriteTime'', 8), (''size'', 8), (''crc'', 4), (''digest'', 40), (''refCount'', 8)]"

definition ClassRefRow :: layout where
  "ClassRefRow = AutoIncrementedRow @ [(''ownerClass'', 8), (''name'', 8), (''edgeCount'', 8)]"

definition MethodRow :: layout where
  "MethodRow = AutoIncrementedRow @ [(''ownerClass'', 8), (''accessFlags'', 8), (''name'', 8), (''descriptor'', 8), (''refCount'', 8)]"

definition MethodRefRow :: layout where
  "MethodRefRow = AutoIncrementedRow @ [(''ownerClass'', 8), (''classname'', 8), (''name'', 8), (''descriptor'', 8), (''edgeCount'', 8)]"

definition FieldRow :: layout where
  "FieldRow = AutoIncrementedRow @ [(''ownerClass'', 8), (''accessFlags'', 8), (''name'', 8), (''descriptor'', 8), (''signature'', 8), (''refCount'', 8)]"

definition FieldRefRow :: layout where
  "FieldRefRow = AutoIncrementedRow @ [(''ownerClass'', 8), (''classname'', 8), (''name'', 8), (''descriptor'', 8), (''edgeCount'', 8)]"

definition ClassRefEdgeRow :: layout where
  "ClassRefEdgeRow = AutoIncrementedRow @ [(''ownerClass'', 8), (''from'', 8), (''to'', 8)]"

definition MethodRefEdgeRow :: layout where
  "MethodRefEdgeRow = AutoIncrementedRow @ [(''ownerClass'', 8), (''from'', 8), (''to'', 8)]"

definition FieldRefEdgeRow :: layout where
  "FieldRefEdgeRow = AutoIncrementedRow @ [(''ownerClass'', 8), (''from'', 8), (''to'', 8)]"

fun offsetOf :: "layout \<Rightarrow> string \<Rightarrow> nat" where
  "offsetOf [] c = 0"
| "offsetOf ((d, n) # ds) c = (if c = d then 0 else n + offsetOf ds c)"

definition sizeOf :: "layout \<Rightarrow> nat" where
  "sizeOf l = sum_list (map snd l)"

definition column8 :: "layout \<Rightarrow> string \<Rightarrow> table_row \<Rightarrow> u8" where
  "column8 l c r = getU8 (drop (offsetOf l c) (putRow r))"

section \<open>Keys\<close>

definition textColumn :: "layout \<Rightarrow> string \<Rightarrow> string_pool \<Rightarrow> table_row \<Rightarrow> string result" where
  "textColumn l c p r = getCString p (unat (column8 l c r))"

definition getFilename :: "string_pool \<Rightarrow> table_row \<Rightarrow> string result" where
  "getFilename p fileRow = textColumn FileRow ''filename'' p fileRow"

definition filesKey :: table_key where
  "filesKey p lk r = textColumn FileRow ''filename'' p r"

text \<open>\<^verbatim>\<open>utils::getStrongClassname\<close>.\<close>

definition strongClassname :: "string \<Rightarrow> string \<Rightarrow> string" where
  "strongClassname filename jvmClassname = (if jvmClassname \<noteq> [] then filename @ ''@'' @ jvmClassname else filename)"

definition splitStrongClassname :: "string \<Rightarrow> string list option" where
  "splitStrongClassname s = split s ''@''"

text \<open>\<open>files\<close> and \<open>classfiles\<close> are the pointers the table objects hold.\<close>

definition getStrongClassname :: "nat \<Rightarrow> string_pool \<Rightarrow> row_lookup \<Rightarrow> table_row \<Rightarrow> string result" where
  "getStrongClassname files p lk r =
     bindR (lk files (column8 ClassFileRow ''file'' r)) (\<lambda>fileRow.
     bindR (textColumn ClassFileRow ''classname'' p r) (\<lambda>classname.
     bindR (getFilename p fileRow) (\<lambda>filename. Inr (strongClassname filename classname))))"

definition getClassname_row :: "string_pool \<Rightarrow> table_row \<Rightarrow> string result" where
  "getClassname_row p r = textColumn ClassFileRow ''classname'' p r"

definition classFilesKey :: "nat \<Rightarrow> table_key" where
  "classFilesKey files p lk r = getStrongClassname files p lk r"

definition getStrongClassnameById :: "nat \<Rightarrow> nat \<Rightarrow> string_pool \<Rightarrow> row_lookup \<Rightarrow> u8 \<Rightarrow> string result" where
  "getStrongClassnameById files classfiles p lk i = bindR (lk classfiles i) (getStrongClassname files p lk)"

text \<open>\<^verbatim>\<open>getStrongMemberName\<close> and \<^verbatim>\<open>getStrongRefName\<close>: owner and name, without the descriptor.\<close>

definition ownedKey :: "layout \<Rightarrow> nat \<Rightarrow> nat \<Rightarrow> table_key" where
  "ownedKey l files classfiles p lk r =
     bindR (getStrongClassnameById files classfiles p lk (column8 l ''ownerClass'' r)) (\<lambda>owner.
     bindR (textColumn l ''name'' p r) (\<lambda>name. Inr (owner @ ''#'' @ name)))"

definition edgeKey :: "layout \<Rightarrow> table_key" where
  "edgeKey l p lk r = Inr (natToString (unat (column8 l ''from'' r)) @ ''-'' @ natToString (unat (column8 l ''to'' r)))"

section \<open>Columns\<close>

definition col :: "layout \<Rightarrow> string \<Rightarrow> storage_type \<Rightarrow> display_as \<Rightarrow> properties result" where
  "col l c t d = newProperties c t d (of_nat (offsetOf l c))"

definition refCol :: "layout \<Rightarrow> string \<Rightarrow> string \<Rightarrow> string \<Rightarrow> properties result" where
  "refCol l c table column = newRefProperties c Ref AsRef (of_nat (offsetOf l c)) table column"

definition filesColumns :: "properties result list" where
  "filesColumns =
     [col FileRow ''id'' UInt64 AsUInt64, col FileRow ''type'' Int32 AsEntryType, col FileRow ''filename'' StringType AsString,
      col FileRow ''lastWriteTime'' UInt64 AsDatetime, col FileRow ''fileSize'' UInt64 AsSize,
      col FileRow ''classfileCount'' UInt32 AsUInt32, col FileRow ''digest'' DigestType AsDigest]"

definition classFilesColumns :: "properties result list" where
  "classFilesColumns =
     [col ClassFileRow ''id'' UInt64 AsUInt64, refCol ClassFileRow ''file'' ''files'' ''filename'',
      col ClassFileRow ''classname'' StringType AsString, col ClassFileRow ''lastWriteTime'' UInt64 AsDatetime,
      col ClassFileRow ''size'' UInt64 AsSize, col ClassFileRow ''crc'' Int32 AsInt32,
      col ClassFileRow ''digest'' DigestType AsDigest, col ClassFileRow ''refCount'' UInt64 AsUInt64]"

definition classRefsColumns :: "properties result list" where
  "classRefsColumns =
     [col ClassRefRow ''id'' UInt64 AsUInt64, col ClassRefRow ''edgeCount'' UInt64 AsUInt64,
      refCol ClassRefRow ''ownerClass'' ''classfiles'' ''classname'', col ClassRefRow ''name'' StringType AsString]"

definition methodsColumns :: "properties result list" where
  "methodsColumns =
     [col MethodRow ''id'' UInt64 AsUInt64, refCol MethodRow ''ownerClass'' ''classfiles'' ''classname'',
      col MethodRow ''name'' StringType AsString, col MethodRow ''descriptor'' StringType AsString,
      col MethodRow ''accessFlags'' UInt64 AsUInt64, col MethodRow ''refCount'' UInt64 AsUInt64]"

definition methodRefsColumns :: "properties result list" where
  "methodRefsColumns =
     [col MethodRefRow ''id'' UInt64 AsUInt64, refCol MethodRefRow ''ownerClass'' ''classfiles'' ''classname'',
      col MethodRefRow ''classname'' StringType AsString, col MethodRefRow ''name'' StringType AsString,
      col MethodRefRow ''descriptor'' StringType AsString, col MethodRefRow ''edgeCount'' UInt64 AsUInt64]"

definition fieldsColumns :: "properties result list" where
  "fieldsColumns =
     [col FieldRow ''id'' UInt64 AsUInt64, refCol FieldRow ''ownerClass'' ''classfiles'' ''classname'',
      col FieldRow ''name'' StringType AsString, col FieldRow ''descriptor'' StringType AsString,
      col FieldRow ''signature'' StringType AsString, col FieldRow ''accessFlags'' UInt64 AsUInt64,
      col FieldRow ''refCount'' UInt64 AsUInt64]"

definition fieldRefsColumns :: "properties result list" where
  "fieldRefsColumns =
     [col FieldRefRow ''id'' UInt64 AsUInt64, refCol FieldRefRow ''ownerClass'' ''classfiles'' ''ownerClass'',
      col FieldRefRow ''classname'' StringType AsString, col FieldRefRow ''name'' StringType AsString,
      col FieldRefRow ''descriptor'' StringType AsString, col FieldRefRow ''edgeCount'' UInt64 AsUInt64]"

definition classRefEdgesColumns :: "properties result list" where
  "classRefEdgesColumns =
     [col ClassRefEdgeRow ''id'' UInt64 AsUInt64, refCol ClassRefEdgeRow ''from'' ''classRefs'' ''classRef'',
      refCol ClassRefEdgeRow ''to'' ''classfiles'' ''classname'', refCol ClassRefEdgeRow ''ownerClass'' ''classfiles'' ''ownerClass'']"

definition methodRefEdgesColumns :: "properties result list" where
  "methodRefEdgesColumns =
     [col MethodRefEdgeRow ''id'' UInt64 AsUInt64, refCol MethodRefEdgeRow ''from'' ''methodRefs'' ''methodRef'',
      refCol MethodRefEdgeRow ''to'' ''methodRefs'' ''member'', refCol MethodRefEdgeRow ''ownerClass'' ''classfiles'' ''ownerClass'']"

definition fieldRefEdgesColumns :: "properties result list" where
  "fieldRefEdgesColumns =
     [col FieldRefEdgeRow ''id'' UInt64 AsUInt64, refCol FieldRefEdgeRow ''from'' ''fieldRefs'' ''fieldRef'',
      refCol FieldRefEdgeRow ''to'' ''fieldRefs'' ''field'', refCol FieldRefEdgeRow ''ownerClass'' ''classfiles'' ''ownerClass'']"

section \<open>The two databases\<close>

text \<open>
  The constructor of a table and its \<^verbatim>\<open>init\<close>, which declares the columns.  The program calls
  \<^verbatim>\<open>init\<close> after all tables have been added; declaring columns touches nothing but the table.
\<close>

definition makeTable :: "string \<Rightarrow> string \<Rightarrow> layout \<Rightarrow> properties result list \<Rightarrow> table_key \<Rightarrow> db_table result" where
  "makeTable dir name l columns key =
     bindR (newTable (generateTableFilename dir name) name (sizeOf l)) (\<lambda>t.
       case mapProg declareColumn columns t of (Inl e, t') \<Rightarrow> Inl e | (Inr us, t') \<Rightarrow> Inr \<lparr>tbl = t', keyOf = key\<rparr>)"

definition initTables :: "string \<Rightarrow> nat \<Rightarrow> db_table result list \<Rightarrow> database result" where
  "initTables dir block tables = bindR (mapR (\<lambda>t. t) tables) (\<lambda>ts. Inr (fold addTable ts (newDatabase dir block)))"

definition digestDbInit :: "string \<Rightarrow> nat \<Rightarrow> database result" where
  "digestDbInit dir block = initTables dir block
     [makeTable dir ''files'' FileRow filesColumns filesKey,
      makeTable dir ''classfiles'' ClassFileRow classFilesColumns (classFilesKey 0)]"

definition callGraphDbInit :: "string \<Rightarrow> nat \<Rightarrow> database result" where
  "callGraphDbInit dir block = initTables dir block
     [makeTable dir ''files'' FileRow filesColumns filesKey,
      makeTable dir ''classfiles'' ClassFileRow classFilesColumns (classFilesKey 0),
      makeTable dir ''classRefs'' ClassRefRow classRefsColumns (ownedKey ClassRefRow 0 1),
      makeTable dir ''methods'' MethodRow methodsColumns (ownedKey MethodRow 0 1),
      makeTable dir ''methodRefs'' MethodRefRow methodRefsColumns (ownedKey MethodRefRow 0 1),
      makeTable dir ''fields'' FieldRow fieldsColumns (ownedKey FieldRow 0 1),
      makeTable dir ''fieldRefs'' FieldRefRow fieldRefsColumns (ownedKey FieldRefRow 0 1),
      makeTable dir ''classRefEdges'' ClassRefEdgeRow classRefEdgesColumns (edgeKey ClassRefEdgeRow),
      makeTable dir ''methodRefEdges'' MethodRefEdgeRow methodRefEdgesColumns (edgeKey MethodRefEdgeRow),
      makeTable dir ''fieldRefEdges'' FieldRefEdgeRow fieldRefEdgesColumns (edgeKey FieldRefEdgeRow)]"

text \<open>
  \<^verbatim>\<open>ClassFiles::archiveRow\<close>: the row is entered under an archive key and its class name is
  released.
\<close>

definition archiveRow :: "nat \<Rightarrow> string \<Rightarrow> (table, unit) prog" where
  "archiveRow a strong = andThen (deref a) (\<lambda>r.
     let archivedKey = strong @ ''#'' @ natToString (unat (rowId r)) in
     modify (\<lambda>t. let rows = AList.update archivedKey a (tableRows t)
       in t\<lparr>tableRows := if map_of rows strong = Some a then AList.delete strong rows else rows\<rparr>))"

text \<open>
  \<^verbatim>\<open>ClassOwnedTable\<close>: a table with an index from a class to the rows it owns.  \<^verbatim>\<open>deleteClass\<close>
  looks the rows up there; no operation of the program adds to the index.
\<close>

record class_owned_table =
  ownedTable :: table
  ownerClassIndex :: "u8 \<rightharpoonup> u8 list"

fun deleteOwned :: "u8 list \<Rightarrow> (table, nat) prog" where
  "deleteOwned [] = ret 0"
| "deleteOwned (i # is) = andThen (deleteRow i) (\<lambda>ok. andThen (deleteOwned is) (\<lambda>n. ret (if ok then n + 1 else n)))"

definition deleteClass :: "u8 \<Rightarrow> (class_owned_table, nat) prog" where
  "deleteClass classId = (\<lambda>ct.
     let ids = (case ownerClassIndex ct classId of None \<Rightarrow> [] | Some ids \<Rightarrow> ids)
     in case deleteOwned ids (ownedTable ct) of
          (r, t) \<Rightarrow> (r, ct\<lparr>ownedTable := t, ownerClassIndex := (ownerClassIndex ct)(classId := None)\<rparr>))"

text \<open>\<^verbatim>\<open>CallGraphDb::deleteClass\<close> over the five owned tables.\<close>

fun deleteClassAll :: "u8 \<Rightarrow> (class_owned_table list, nat) prog" where
  "deleteClassAll classId [] = (Inr 0, [])"
| "deleteClassAll classId (ct # cts) =
     (case deleteClass classId ct of
        (Inl e, ct') \<Rightarrow> (Inl e, ct' # cts)
      | (Inr n, ct') \<Rightarrow> (case deleteClassAll classId cts of
            (Inl e, cts') \<Rightarrow> (Inl e, ct' # cts') | (Inr m, cts') \<Rightarrow> (Inr (n + m), ct' # cts')))"

section \<open>Keys depend on the columns of a row only\<close>

lemma column8_body: "16 \<le> offsetOf l c \<Longrightarrow> column8 l c r = getU8 (drop (offsetOf l c - 16) (rowBody r))"
  by (simp add: column8_def putRow_def drop_append)

lemma textColumn_body:
  "16 \<le> offsetOf l c \<Longrightarrow> textColumn l c p r = cString (pool p) (unat (getU8 (drop (offsetOf l c - 16) (rowBody r))))"
  by (simp add: textColumn_def getCString_def column8_body)

lemmas layout_defs = AutoIncrementedRow_def FileRow_def ClassFileRow_def ClassRefRow_def MethodRow_def MethodRefRow_def
  FieldRow_def FieldRefRow_def ClassRefEdgeRow_def MethodRefEdgeRow_def FieldRefEdgeRow_def

lemma getCString_extends:
  assumes "getCString p h = Inr s" "poolExtends p q" shows "getCString q h = Inr s"
proof -
  obtain xs where q: "pool q = pool p @ xs" using assms(2) by (auto simp: poolExtends_def)
  have nul: "NUL \<in> set (drop h (pool p))" and s: "s = takeWhile (\<lambda>c. c \<noteq> NUL) (drop h (pool p))"
    using assms(1) by (auto simp: getCString_def cString_def split: if_splits)
  have "h < length (pool p)" using nul by (metis drop_all empty_iff linorder_not_less list.set(1))
  then have "drop h (pool q) = drop h (pool p) @ xs" using q by simp
  moreover have "takeWhile (\<lambda>c. c \<noteq> NUL) (drop h (pool p) @ xs) = takeWhile (\<lambda>c. c \<noteq> NUL) (drop h (pool p))"
    by (rule takeWhile_append1 [OF nul]) simp
  ultimately show ?thesis using nul s by (simp add: getCString_def cString_def)
qed

text \<open>The laws of a key that may look at the tables before position \<open>n\<close>.\<close>

definition goodKey :: "nat \<Rightarrow> table_key \<Rightarrow> bool" where
  "goodKey n key \<longleftrightarrow>
     (\<forall>p q lk. pool p = pool q \<longrightarrow> key p lk = key q lk) \<and>
     (\<forall>p lk lk'. (\<forall>k<n. lk k = lk' k) \<longrightarrow> key p lk = key p lk') \<and>
     (\<forall>p lk r r'. rowBody r' = rowBody r \<longrightarrow> key p lk r' = key p lk r) \<and>
     (\<forall>p q lk lk' r s. poolExtends p q \<longrightarrow> lookupExtends lk lk' \<longrightarrow> key p lk r = Inr s \<longrightarrow> key q lk' r = Inr s)"

lemma growing_keysI:
  assumes "\<forall>i<length keys. goodKey i (keys ! i)" shows "growing_keys keys"
proof unfold_locales
  fix i p q lk lk' r r' s assume i: "i < length keys"
  then have good: "goodKey i (keys ! i)" using assms by simp
  show "(keys ! i) p lk = (keys ! i) q lk" if "pool p = pool q" using good that unfolding goodKey_def by blast
  show "(keys ! i) p lk = (keys ! i) p lk'" if "\<And>k. k < i \<Longrightarrow> lk k = lk' k" using good that unfolding goodKey_def by blast
  show "(keys ! i) p lk r' = (keys ! i) p lk r" if "rowBody r' = rowBody r" using good that unfolding goodKey_def by blast
  show "(keys ! i) q lk' r = Inr s" if "poolExtends p q" "lookupExtends lk lk'" "(keys ! i) p lk r = Inr s"
    using good that unfolding goodKey_def by blast
qed

lemma cString_extends: "cString (pool p) h = Inr s \<Longrightarrow> poolExtends p q \<Longrightarrow> cString (pool q) h = Inr s"
  using getCString_extends [of p h s q] by (simp add: getCString_def)

lemma offsets [simp]:
  "offsetOf FileRow ''filename'' = 20" "offsetOf ClassFileRow ''file'' = 16" "offsetOf ClassFileRow ''classname'' = 24"
  by (simp_all add: layout_defs)

lemma goodKey_files: "goodKey n filesKey"
  unfolding goodKey_def filesKey_def
  by (intro conjI allI impI ext) (simp_all add: textColumn_body, blast intro: cString_extends)

text \<open>What the strong class name reads: the pool's text, the row's columns, one other table.\<close>

lemma getStrongClassname_body:
  "getStrongClassname f p lk r =
     bindR (lk f (getU8 (rowBody r))) (\<lambda>fileRow.
     bindR (cString (pool p) (unat (getU8 (drop 8 (rowBody r))))) (\<lambda>classname.
     bindR (cString (pool p) (unat (getU8 (drop 4 (rowBody fileRow))))) (\<lambda>filename. Inr (strongClassname filename classname))))"
  by (simp add: getStrongClassname_def getFilename_def column8_body textColumn_body)

lemma lookupExtendsD: "lookupExtends lk lk' \<Longrightarrow> lk j i = Inr r \<Longrightarrow> \<exists>r'. lk' j i = Inr r' \<and> rowBody r' = rowBody r"
  unfolding lookupExtends_def by blast

lemma getStrongClassname_extends:
  assumes ext: "poolExtends p q" "lookupExtends lk lk'" and "getStrongClassname f p lk r = Inr s" "rowBody r' = rowBody r"
  shows "getStrongClassname f q lk' r' = Inr s"
proof -
  from assms(3) obtain fr cn fn where p: "lk f (getU8 (rowBody r)) = Inr fr" "cString (pool p) (unat (getU8 (drop 8 (rowBody r)))) = Inr cn"
    "cString (pool p) (unat (getU8 (drop 4 (rowBody fr)))) = Inr fn" "s = strongClassname fn cn"
    by (auto simp: getStrongClassname_body bindR_Inr_iff)
  from lookupExtendsD [OF ext(2) p(1)] obtain fr' where "lk' f (getU8 (rowBody r)) = Inr fr'" "rowBody fr' = rowBody fr" by blast
  with p assms(4) cString_extends [OF _ ext(1)] show ?thesis by (simp add: getStrongClassname_body)
qed

lemma goodKey_classFiles:
  assumes "f < n" shows "goodKey n (classFilesKey f)"
  unfolding goodKey_def classFilesKey_def
proof (intro conjI allI impI ext)
  show "getStrongClassname f p lk r = getStrongClassname f q lk r" if "pool p = pool q" for p q lk r
    by (simp add: getStrongClassname_body that)
  show "getStrongClassname f p lk r = getStrongClassname f p lk' r" if "\<forall>k<n. lk k = lk' k" for p lk lk' r
    using that assms by (simp add: getStrongClassname_body)
  show "getStrongClassname f p lk r' = getStrongClassname f p lk r" if "rowBody r' = rowBody r" for p lk r r'
    by (simp add: getStrongClassname_body that)
qed (rule getStrongClassname_extends, simp_all)

lemma ownedKey_body:
  assumes "16 \<le> offsetOf l ''ownerClass''" "16 \<le> offsetOf l ''name''"
  shows "ownedKey l f c p lk r =
     bindR (bindR (lk c (getU8 (drop (offsetOf l ''ownerClass'' - 16) (rowBody r)))) (getStrongClassname f p lk)) (\<lambda>owner.
     bindR (cString (pool p) (unat (getU8 (drop (offsetOf l ''name'' - 16) (rowBody r))))) (\<lambda>name. Inr (owner @ ''#'' @ name)))"
  using assms by (simp add: ownedKey_def getStrongClassnameById_def column8_body textColumn_body)

lemma goodKey_owned:
  assumes "f < n" "c < n" and off: "16 \<le> offsetOf l ''ownerClass''" "16 \<le> offsetOf l ''name''"
  shows "goodKey n (ownedKey l f c)"
  unfolding goodKey_def
proof (intro conjI allI impI ext)
  note body = ownedKey_body [OF off]
  show "ownedKey l f c p lk r = ownedKey l f c q lk r" if "pool p = pool q" for p q lk r
  proof -
    have "getStrongClassname f p lk = getStrongClassname f q lk" by (rule ext) (simp add: getStrongClassname_body that)
    then show ?thesis by (simp add: body that)
  qed
  show "ownedKey l f c p lk r = ownedKey l f c p lk' r" if "\<forall>k<n. lk k = lk' k" for p lk lk' r
  proof -
    have lk: "lk f = lk' f" "lk c = lk' c" using that assms(1,2) by auto
    then have "getStrongClassname f p lk = getStrongClassname f p lk'" by (intro ext) (simp add: getStrongClassname_body)
    then show ?thesis by (simp add: body lk)
  qed
  show "ownedKey l f c p lk r' = ownedKey l f c p lk r" if "rowBody r' = rowBody r" for p lk r r'
    by (simp add: body that)
  fix p q lk lk' r s
  assume ext: "poolExtends p q" "lookupExtends lk lk'" and r: "ownedKey l f c p lk r = Inr s"
  let ?i = "getU8 (drop (offsetOf l ''ownerClass'' - 16) (rowBody r))" and ?h = "unat (getU8 (drop (offsetOf l ''name'' - 16) (rowBody r)))"
  from r obtain cr o' nm where p: "lk c ?i = Inr cr" "getStrongClassname f p lk cr = Inr o'" "cString (pool p) ?h = Inr nm" "s = o' @ ''#'' @ nm"
    by (auto simp: body bindR_Inr_iff)
  from lookupExtendsD [OF ext(2) p(1)] obtain cr' where "lk' c ?i = Inr cr'" "rowBody cr' = rowBody cr" by blast
  with p getStrongClassname_extends [OF ext p(2)] cString_extends [OF p(3) ext(1)]
  show "ownedKey l f c q lk' r = Inr s" by (simp add: body)
qed

lemma goodKey_edge: "16 \<le> offsetOf l ''from'' \<Longrightarrow> 16 \<le> offsetOf l ''to'' \<Longrightarrow> goodKey n (edgeKey l)"
  unfolding goodKey_def by (intro conjI allI impI ext) (simp_all add: edgeKey_def column8_body)

definition digestKeys :: "table_key list" where
  "digestKeys = [filesKey, classFilesKey 0]"

definition callGraphKeys :: "table_key list" where
  "callGraphKeys = [filesKey, classFilesKey 0, ownedKey ClassRefRow 0 1, ownedKey MethodRow 0 1, ownedKey MethodRefRow 0 1,
     ownedKey FieldRow 0 1, ownedKey FieldRefRow 0 1, edgeKey ClassRefEdgeRow, edgeKey MethodRefEdgeRow, edgeKey FieldRefEdgeRow]"

lemma goodKeys: "\<forall>i<length digestKeys. goodKey i (digestKeys ! i)" "\<forall>i<length callGraphKeys. goodKey i (callGraphKeys ! i)"
  by (auto simp: digestKeys_def callGraphKeys_def less_Suc_eq layout_defs
      intro!: goodKey_files goodKey_classFiles goodKey_owned goodKey_edge)

interpretation digestDb: growing_keys digestKeys
  by (rule growing_keysI [OF goodKeys(1)])

interpretation callGraphDb: growing_keys callGraphKeys
  by (rule growing_keysI [OF goodKeys(2)])

interpretation files: row_keys "filesKey p lk" for p lk
  by unfold_locales (simp_all add: filesKey_def textColumn_body)

interpretation classfiles: row_keys "classFilesKey 0 p lk" for p lk
  by unfold_locales (simp_all add: classFilesKey_def getStrongClassname_body)

interpretation methods: row_keys "ownedKey MethodRow 0 1 p lk" for p lk
proof -
  have "16 \<le> offsetOf MethodRow ''ownerClass''" "16 \<le> offsetOf MethodRow ''name''" by (simp_all add: layout_defs)
  from ownedKey_body [OF this] show "row_keys (ownedKey MethodRow 0 1 p lk)" by unfold_locales simp_all
qed

section \<open>New databases\<close>

definition columnsOk :: "properties result list \<Rightarrow> bool" where
  "columnsOk columns \<longleftrightarrow> columns \<noteq> [] \<and> length columns \<le> 100 \<and> (\<forall>c\<in>set columns. \<exists>p. c = Inr p \<and> propertiesOk p)"

lemma col_ok: "length c < 128 \<Longrightarrow> NUL \<notin> set c \<Longrightarrow> \<exists>p. col l c t d = Inr p \<and> propertiesOk p"
  by (simp add: col_def newProperties_def strcpy_def MAX_COLUMN_NAME_def propertiesOk_def emptyProperties_def)

lemma refCol_ok:
  "length c < 128 \<Longrightarrow> NUL \<notin> set c \<Longrightarrow> length t < 128 \<Longrightarrow> NUL \<notin> set t \<Longrightarrow> length d < 128 \<Longrightarrow> NUL \<notin> set d \<Longrightarrow>
   \<exists>p. refCol l c t d = Inr p \<and> propertiesOk p"
  by (simp add: refCol_def newRefProperties_def strcpy_def MAX_COLUMN_NAME_def MAX_TABLE_NAME_def propertiesOk_def)

lemma columns_ok:
  "columnsOk filesColumns" "columnsOk classFilesColumns" "columnsOk classRefsColumns" "columnsOk methodsColumns" "columnsOk methodRefsColumns"
  "columnsOk fieldsColumns" "columnsOk fieldRefsColumns" "columnsOk classRefEdgesColumns" "columnsOk methodRefEdgesColumns" "columnsOk fieldRefEdgesColumns"
  by (simp_all add: columnsOk_def col_ok refCol_ok filesColumns_def classFilesColumns_def classRefsColumns_def methodsColumns_def
      methodRefsColumns_def fieldsColumns_def fieldRefsColumns_def classRefEdgesColumns_def methodRefEdgesColumns_def fieldRefEdgesColumns_def)

lemma declare_all:
  "\<exists>us m. mapProg declareColumn (map Inr ps) t = (Inr us, t\<lparr>columnByName := m, tableColumns := tableColumns t @ ps,
     columnCount := if ps = [] then columnCount t else of_nat (length (tableColumns t) + length ps)\<rparr>)"
proof (induction ps arbitrary: t)
  case Nil show ?case by (intro exI [of _ "[]"] exI [of _ "columnByName t"]) simp
next
  case (Cons p ps)
  let ?t = "t\<lparr>columnByName := (columnByName t)(columnName p \<mapsto> length (tableColumns t)), tableColumns := tableColumns t @ [p],
    columnCount := of_nat (length (tableColumns t) + 1)\<rparr>"
  obtain us m where "mapProg declareColumn (map Inr ps) ?t = (Inr us, ?t\<lparr>columnByName := m, tableColumns := tableColumns ?t @ ps,
     columnCount := if ps = [] then columnCount ?t else of_nat (length (tableColumns ?t) + length ps)\<rparr>)" using Cons.IH by blast
  moreover have "declareColumn (Inr p) t = (Inr (), ?t)" by (simp add: declareColumn_def)
  ultimately show ?case by (intro exI [of _ "() # us"] exI [of _ m]) simp
qed

definition freshTable :: "string \<Rightarrow> string \<Rightarrow> layout \<Rightarrow> table_key \<Rightarrow> db_table \<Rightarrow> bool" where
  "freshTable dir name l key dt \<longleftrightarrow> keyOf dt = key \<and> emptyTable (tbl dt) \<and> schemaOk (tbl dt) \<and>
     tableFilename (tbl dt) = generateTableFilename dir name \<and> rowSize (tbl dt) = sizeOf l \<and> tableName (tbl dt) = name"

lemma makeTable_ok:
  assumes "length name < 128" "NUL \<notin> set name" "columnsOk columns"
  shows "\<exists>dt. makeTable dir name l columns key = Inr dt \<and> freshTable dir name l key dt"
proof -
  obtain ps where ps: "columns = map Inr ps" "ps \<noteq> []" "length ps \<le> 100" "\<forall>p\<in>set ps. propertiesOk p"
  proof
    let ?ps = "map (\<lambda>c. SOME p. c = Inr p \<and> propertiesOk p) columns"
    have s: "c = Inr (SOME p. c = Inr p \<and> propertiesOk p) \<and> propertiesOk (SOME p. c = Inr p \<and> propertiesOk p)" if "c \<in> set columns" for c
      using assms(3) that someI_ex [of "\<lambda>p. c = Inr p \<and> propertiesOk p"] by (auto simp: columnsOk_def)
    then show "columns = map Inr ?ps" by (simp add: map_idI comp_def)
    show "?ps \<noteq> []" "length ?ps \<le> 100" using assms(3) by (auto simp: columnsOk_def)
    show "\<forall>p\<in>set ?ps. propertiesOk p" using s by auto
  qed
  let ?t = "\<lparr>heap = Map.empty, nextAddress = 0, tableRows = [], autoIncrementIndex = [], tableFilename = generateTableFilename dir name,
        isDirty = False, rowSize = sizeOf l, tableName = name, dirtyRows = Map.empty, tableColumns = [],
        columnByName = Map.empty, layoutSignature = KAPA_TABLE_SIGNATURE, layoutName = name, columnCount = 0\<rparr>"
  have "newTable (generateTableFilename dir name) name (sizeOf l) = Inr ?t"
    using assms(1) by (simp add: newTable_def strcpy_def MAX_TABLE_NAME_def)
  with declare_all [of ps ?t] ps assms(1,2) show ?thesis
    by (auto simp: makeTable_def freshTable_def emptyTable_def schemaOk_def)
qed

lemma AList_update_fresh: "k \<notin> fst ` set al \<Longrightarrow> AList.update k v al = al @ [(k, v)]"
  by (induction al) auto

lemma fold_addTable:
  assumes "distinct (map (\<lambda>dt. tableName (tbl dt)) (dbTables db @ ts))" "tablesReadOrder db = [0..<length (dbTables db)]"
    "tablesByName db = zip (map (\<lambda>dt. tableName (tbl dt)) (dbTables db)) [0..<length (dbTables db)]"
  shows "dbTables (fold addTable ts db) = dbTables db @ ts \<and> dbPool (fold addTable ts db) = dbPool db \<and> wasRead (fold addTable ts db) = wasRead db \<and>
    tablesReadOrder (fold addTable ts db) = [0..<length (dbTables db @ ts)] \<and>
    tablesByName (fold addTable ts db) = zip (map (\<lambda>dt. tableName (tbl dt)) (dbTables db @ ts)) [0..<length (dbTables db @ ts)]"
  using assms
proof (induction ts arbitrary: db)
  case (Cons t ts)
  have "fst ` set (tablesByName db) = set (map (\<lambda>dt. tableName (tbl dt)) (dbTables db))"
    using Cons.prems(3) by (metis length_map length_upt diff_zero map_fst_zip set_map)
  then have "tablesByName (addTable t db) = tablesByName db @ [(tableName (tbl t), length (dbTables db))]"
    using Cons.prems(1) by (subst AList_update_fresh [symmetric]) (auto simp: addTable_def)
  then have "tablesByName (addTable t db) = zip (map (\<lambda>dt. tableName (tbl dt)) (dbTables (addTable t db))) [0..<length (dbTables (addTable t db))]"
    using Cons.prems(3) by (simp add: addTable_def)
  with Cons.IH [of "addTable t db"] Cons.prems show ?case by (simp add: addTable_def)
qed simp

lemma pathJoin_inj: "pathJoin dir x = pathJoin dir y \<longleftrightarrow> x = y"
  by (simp add: pathJoin_def)

lemma filename_ne: "generateTableFilename dir x \<noteq> generateStringPoolFilename dir y"
proof
  assume "generateTableFilename dir x = generateStringPoolFilename dir y"
  then have "x @ ''.kapamd'' = y @ ''.string-pool''" by (simp only: generateTableFilename_def generateStringPoolFilename_def pathJoin_inj)
  from arg_cong [OF this, of last] show False by simp
qed

type_synonym table_spec = "string \<times> layout \<times> properties result list \<times> table_key"

definition specOk :: "table_spec \<Rightarrow> bool" where
  "specOk s \<longleftrightarrow> (case s of (name, l, columns, key) \<Rightarrow> length name < 128 \<and> NUL \<notin> set name \<and> columnsOk columns \<and> 16 \<le> sizeOf l)"

definition makeAll :: "string \<Rightarrow> table_spec list \<Rightarrow> db_table result list" where
  "makeAll dir specs = map (\<lambda>(name, l, columns, key). makeTable dir name l columns key) specs"

lemma makeAll_ok:
  "\<forall>s\<in>set specs. specOk s \<Longrightarrow>
   \<exists>dts. mapR (\<lambda>t. t) (makeAll dir specs) = Inr dts \<and> list_all2 (\<lambda>(name, l, columns, key) dt. freshTable dir name l key dt) specs dts"
proof (induction specs)
  case (Cons s specs)
  obtain name l columns key where s: "s = (name, l, columns, key)" by (cases s) auto
  with Cons.prems makeTable_ok [of name columns dir l key] obtain dt where
    "makeTable dir name l columns key = Inr dt" "freshTable dir name l key dt" by (auto simp: specOk_def)
  moreover obtain dts where "mapR (\<lambda>t. t) (makeAll dir specs) = Inr dts" "list_all2 (\<lambda>(name, l, columns, key) dt. freshTable dir name l key dt) specs dts"
    using Cons by auto
  ultimately show ?case by (intro exI [of _ "dt # dts"]) (simp add: makeAll_def s)
qed (simp add: makeAll_def)

lemma fresh_lists:
  assumes "list_all2 (\<lambda>(name, l, columns, key) dt. freshTable dir name l key dt) specs dts"
  shows "map keyOf dts = map (\<lambda>(name, l, columns, key). key) specs" "map (\<lambda>dt. tableName (tbl dt)) dts = map fst specs"
    "map (\<lambda>dt. tableFilename (tbl dt)) dts = map (generateTableFilename dir) (map fst specs)"
    "\<forall>dt\<in>set dts. emptyTable (tbl dt) \<and> schemaOk (tbl dt)"
    "map (\<lambda>dt. rowSize (tbl dt)) dts = map (\<lambda>(name, l, columns, key). sizeOf l) specs"
  using assms by (induction rule: list_all2_induct) (auto simp: freshTable_def)

lemma emptyTable_rep: "emptyTable t \<Longrightarrow> tableRep key t [] []"
  by (simp add: emptyTable_def tableRep_def)

definition newTables :: "database \<Rightarrow> string \<Rightarrow> table_spec list \<Rightarrow> bool" where
  "newTables db dir specs \<longleftrightarrow> (\<exists>block. dbPool db = StringPool (generateStringPoolFilename dir ''sp'') block) \<and> \<not> wasRead db \<and>
     tablesReadOrder db = [0..<length specs] \<and> tablesByName db = zip (map fst specs) [0..<length specs] \<and>
     list_all2 (\<lambda>(name, l, columns, key) dt. freshTable dir name l key dt) specs (dbTables db)"

lemma initTables_ok:
  assumes "\<forall>s\<in>set specs. specOk s" "distinct (map fst specs)"
  shows "\<exists>db. initTables dir block (makeAll dir specs) = Inr db \<and> newTables db dir specs"
proof -
  from makeAll_ok [OF assms(1), of dir] obtain dts where d: "mapR (\<lambda>t. t) (makeAll dir specs) = Inr dts"
    "list_all2 (\<lambda>(name, l, columns, key) dt. freshTable dir name l key dt) specs dts" by blast
  note f = fresh_lists [OF d(2)]
  have len: "length dts = length specs" using d(2) by (simp add: list_all2_lengthD)
  from fold_addTable [of "newDatabase dir block" dts] assms(2) f(2) d(2) len show ?thesis
    by (auto simp: initTables_def d(1) newTables_def newDatabase_def)
qed

lemma newTables_ok:
  assumes "newTables db dir specs" "\<forall>s\<in>set specs. specOk s" "distinct (map fst specs)" "\<forall>f. fs f = None"
  shows "databaseOk db fs (replicate (length specs) []) (replicate (length specs) [])"
proof -
  have all: "list_all2 (\<lambda>(name, l, columns, key) dt. freshTable dir name l key dt) specs (dbTables db)"
    using assms(1) by (simp add: newTables_def)
  note f = fresh_lists [OF all]
  have len: "length (dbTables db) = length specs" using all by (simp add: list_all2_lengthD)
  obtain b where pool: "dbPool db = StringPool (generateStringPoolFilename dir ''sp'') b" using assms(1) by (auto simp: newTables_def)
  have inj: "inj (generateTableFilename dir)" by (rule injI) (simp add: generateTableFilename_def pathJoin_inj)
  have "distinct (map (generateTableFilename dir) (map fst specs))"
    unfolding distinct_map [of "generateTableFilename dir"] using assms(3) inj by (metis inj_on_subset subset_UNIV)
  moreover have "generateStringPoolFilename dir ''sp'' \<notin> set (map (generateTableFilename dir) (map fst specs))"
    unfolding set_map [of "generateTableFilename dir"] using filename_ne by (metis imageE)
  ultimately have names: "distinct (generateStringPoolFilename dir ''sp'' # map (generateTableFilename dir) (map fst specs))" by simp
  have tabs: "tableRep k (tbl (dbTables db ! j)) [] [] \<and> schemaOk (tbl (dbTables db ! j)) \<and> synced (tbl (dbTables db ! j)) [] fs \<and>
      16 \<le> rowSize (tbl (dbTables db ! j))" if "j < length specs" for j k
  proof -
    have "rowSize (tbl (dbTables db ! j)) = (\<lambda>(name, l, columns, key). sizeOf l) (specs ! j)"
      using arg_cong [OF f(5), of "\<lambda>xs. xs ! j"] that len by simp
    moreover have "specOk (specs ! j)" using assms(2) that by simp
    ultimately have "16 \<le> rowSize (tbl (dbTables db ! j))" by (auto simp: specOk_def split: prod.splits)
    with f(4) that len assms(4) show ?thesis by (auto simp: synced_def emptyTable_rep)
  qed
  have "poolRep (dbPool db) ([] # [])" by (simp add: pool StringPool_rep)
  moreover have "poolDirty (dbPool db)" "poolFilename (dbPool db) = generateStringPoolFilename dir ''sp''" by (simp_all add: pool StringPool_eq)
  moreover have "map snd (tablesByName db) = [0..<length specs]" using assms(1) by (simp add: newTables_def)
  ultimately show ?thesis using assms(1) len tabs names f(3) unfolding databaseOk_def
    by (auto simp: newTables_def Let_def simp del: map_map simp flip: set_map)
qed

definition callGraphSpecs :: "table_spec list" where
  "callGraphSpecs =
     [(''files'', FileRow, filesColumns, filesKey), (''classfiles'', ClassFileRow, classFilesColumns, classFilesKey 0),
      (''classRefs'', ClassRefRow, classRefsColumns, ownedKey ClassRefRow 0 1), (''methods'', MethodRow, methodsColumns, ownedKey MethodRow 0 1),
      (''methodRefs'', MethodRefRow, methodRefsColumns, ownedKey MethodRefRow 0 1), (''fields'', FieldRow, fieldsColumns, ownedKey FieldRow 0 1),
      (''fieldRefs'', FieldRefRow, fieldRefsColumns, ownedKey FieldRefRow 0 1),
      (''classRefEdges'', ClassRefEdgeRow, classRefEdgesColumns, edgeKey ClassRefEdgeRow),
      (''methodRefEdges'', MethodRefEdgeRow, methodRefEdgesColumns, edgeKey MethodRefEdgeRow),
      (''fieldRefEdges'', FieldRefEdgeRow, fieldRefEdgesColumns, edgeKey FieldRefEdgeRow)]"

lemma callGraphSpecs_ok: "\<forall>s\<in>set callGraphSpecs. specOk s" "distinct (map fst callGraphSpecs)"
  "map (\<lambda>(name, l, columns, key). key) callGraphSpecs = callGraphKeys"
  by (simp_all add: callGraphSpecs_def specOk_def columns_ok callGraphKeys_def) (simp_all add: sizeOf_def layout_defs)

lemma callGraphDbInit_ok: "\<exists>db. callGraphDbInit dir block = Inr db \<and> newTables db dir callGraphSpecs"
proof -
  have "callGraphDbInit dir block = initTables dir block (makeAll dir callGraphSpecs)"
    by (simp add: callGraphDbInit_def makeAll_def callGraphSpecs_def)
  with initTables_ok [OF callGraphSpecs_ok(1,2), of dir block] show ?thesis by simp
qed

lemma shapeOf_newTables:
  assumes "newTables db dir specs" "newTables db' dir specs" shows "shapeOf db = shapeOf db'"
proof -
  let ?f = "\<lambda>dt. (keyOf dt, tableFilename (tbl dt), rowSize (tbl dt))"
  have "map ?f (dbTables d) = map (\<lambda>(name, l, columns, key). (key, generateTableFilename dir name, sizeOf l)) specs"
    if "newTables d dir specs" for d
  proof -
    have "list_all2 (\<lambda>(name, l, columns, key) dt. freshTable dir name l key dt) specs (dbTables d)" using that by (simp add: newTables_def)
    then show ?thesis by (induction rule: list_all2_induct) (auto simp: freshTable_def)
  qed
  with assms show ?thesis by (auto simp: shapeOf_def newTables_def StringPool_eq)
qed

text \<open>(C14)
  The call-graph database survives a restart: from a new database in an empty directory, texts
  are interned, rows are added to any of the ten tables and deleted, the database is written at
  any time, and finally written once more.  A new database reads these files and every table
  holds the same rows under the same identifiers and keys, whose text comes from the reloaded string pool and
  from rows of tables read before.
\<close>
theorem callgraph_restart:
  assumes "callGraphDbInit dir block = Inr db0" "callGraphDbInit dir block1 = Inr dbNew" "\<forall>f. fs0 f = None"
    and "db_run db0 fs0 db fs"
  shows "\<exists>db1 fs1 db2. dbWrite db fs = Inr (db1, fs1) \<and> dbRead fs1 block2 dbNew = (Inr True, db2) \<and>
    pool (dbPool db2) = pool (dbPool db) \<and> length (dbTables db2) = 10 \<and>
    (\<forall>j<10. isOk (rowsOf (tbl (dbTables db ! j))) \<and> rowsOf (tbl (dbTables db2 ! j)) = rowsOf (tbl (dbTables db ! j)) \<and>
       (\<forall>k. findRow (tbl (dbTables db2 ! j)) k = findRow (tbl (dbTables db ! j)) k))"
proof -
  have n0: "newTables db0 dir callGraphSpecs" and n1: "newTables dbNew dir callGraphSpecs"
    using callGraphDbInit_ok [of dir block] callGraphDbInit_ok [of dir block1] assms(1,2) by auto
  have ok: "\<exists>rss kss. databaseOk db0 fs0 rss kss" using newTables_ok [OF n0 callGraphSpecs_ok(1,2) assms(3)] by blast
  have all: "list_all2 (\<lambda>(name, l, columns, key) dt. freshTable dir name l key dt) callGraphSpecs (dbTables d)"
    if "newTables d dir callGraphSpecs" for d using that by (simp add: newTables_def)
  have keys: "map keyOf (dbTables db0) = callGraphKeys" using fresh_lists(1) [OF all [OF n0]] callGraphSpecs_ok(3) by simp
  have sh: "shapeOf db = shapeOf dbNew" using callGraphDb.run_ok [OF assms(4) ok keys] shapeOf_newTables [OF n0 n1] by simp
  then have "map keyOf (dbTables db) = callGraphKeys"
    using shapeOf_keys [of db dbNew] fresh_lists(1) [OF all [OF n1]] callGraphSpecs_ok(3) by simp
  from arg_cong [OF this, of length] have len: "length (dbTables db) = 10" by (simp add: callGraphKeys_def)
  obtain f b where "dbPool dbNew = StringPool f b" "\<not> wasRead dbNew" using n1 by (auto simp: newTables_def)
  then have "freshCopy dbNew db" using fresh_lists(4) [OF all [OF n1]] by (intro shapeOf_fresh [OF sh]) auto
  from callGraphDb.run_restart [OF assms(4) ok keys this, of block2] len show ?thesis by simp
qed

theorem callgraph_restart_witness:
  "\<exists>db0 db fs db1 fs1 db2. callGraphDbInit ''d'' 0 = Inr db0 \<and> db_run db0 Map.empty db fs \<and> pool (dbPool db) = [NUL, CHR ''a'', NUL] \<and>
     dbWrite db fs = Inr (db1, fs1) \<and> dbRead fs1 2 db0 = (Inr True, db2) \<and> pool (dbPool db2) = [NUL, CHR ''a'', NUL]"
proof -
  from callGraphDbInit_ok [of "''d''" 0] obtain db0 where d: "callGraphDbInit ''d'' 0 = Inr db0" "newTables db0 ''d'' callGraphSpecs" by blast
  from d(2) obtain f b where p: "dbPool db0 = StringPool f b" by (auto simp: newTables_def)
  have "length (pool (StringPool f b)) + length ''a'' < poolSize (StringPool f b)" by (simp add: StringPool_eq StartPoolSize_def)
  from addString_new [OF StringPool_rep _ _ this, of 0] obtain q where
    q: "addString 0 ''a'' (StringPool f b) = (Inr 1, q)" "poolRep q [[], ''a'']" by (auto simp: StringPool_eq)
  have g: "getPoolString 0 ''a'' db0 = (Inr 1, db0\<lparr>dbPool := q\<rparr>)" using q(1) p by (simp add: getPoolString_def)
  have room: "length ''a'' + 1 \<le> poolRoom (dbPool db0)" by (simp add: p poolRoom_def StringPool_eq StartPoolSize_def)
  have run: "db_run db0 Map.empty (db0\<lparr>dbPool := q\<rparr>) Map.empty"
    by (rule db_intern [OF db_start g _ room]) simp
  have "pool q = [NUL, CHR ''a'', NUL]" using q(2) by (simp add: poolRep_def)
  with callgraph_restart [OF d(1) d(1) _ run, of 2] d(1) run show ?thesis by force
qed

section \<open>Rows of one class\<close>

text \<open>The key of a method leaves its descriptor out.  When a class has a method and a second one with the same
  name is entered, \<^verbatim>\<open>addOrUpdate\<close> takes the overload for an update of the first, overwrites
  it and frees the new row, whose identifier it then reads.
\<close>
lemma overloaded_method_undefined:
  assumes "tableRep (ownedKey MethodRow 0 1 p lk) t rs ks" "i < length rs" "allocated t a r"
    and "column8 MethodRow ''ownerClass'' r = column8 MethodRow ''ownerClass'' (rs ! i)"
    and "column8 MethodRow ''name'' r = column8 MethodRow ''name'' (rs ! i)"
  shows "fst (addOrUpdate (ownedKey MethodRow 0 1 p lk) a t) = Inl Undefined"
proof -
  let ?key = "ownedKey MethodRow 0 1 p lk"
  have "?key r = ?key (rs ! i)" using assms(4,5) by (simp add: ownedKey_def textColumn_def)
  then have k: "?key r = Inr (ks ! i)" using assms(1,2) by (simp add: tableRep_def)
  from addOrUpdate_stale [OF assms(1,3) k] assms(1,2) show ?thesis by (simp add: tableRep_def)
qed

text \<open>A pool with the texts \<open>f\<close>, \<open>C\<close> and \<open>m\<close> at 1, 3 and 5, one file, one class, one method.\<close>

definition samplePool :: string_pool where
  "samplePool = \<lparr>pool = [NUL, CHR ''f'', NUL, CHR ''C'', NUL, CHR ''m'', NUL], poolBlock = 0, poolHash = [], poolSize = 100,
     poolFilename = ''sp'', poolDirty = False\<rparr>"

definition sampleLookup :: row_lookup where
  "sampleLookup j i =
     (if j = 0 then Inr \<lparr>rowFlags = 0, rowId = 0, rowBody = replicate 4 0 @ putU8 1\<rparr>
      else Inr \<lparr>rowFlags = 0, rowId = 0, rowBody = putU8 0 @ putU8 3\<rparr>)"

definition sampleMethod :: "u8 \<Rightarrow> table_row" where
  "sampleMethod descriptor = \<lparr>rowFlags = 0, rowId = 0, rowBody = putU8 0 @ putU8 1 @ putU8 5 @ putU8 descriptor @ putU8 0\<rparr>"

lemma sampleTexts:
  "cString (pool samplePool) (Suc 0) = Inr ''f''" "cString (pool samplePool) 3 = Inr ''C''" "cString (pool samplePool) 5 = Inr ''m''"
  by (simp_all add: cString_def samplePool_def)

lemma sampleKey: "ownedKey MethodRow 0 1 samplePool sampleLookup (sampleMethod d) = Inr ''f@C#m''"
proof -
  have off: "offsetOf MethodRow ''ownerClass'' = 16" "offsetOf MethodRow ''name'' = 32" by (simp_all add: layout_defs)
  have "getStrongClassname 0 samplePool sampleLookup \<lparr>rowFlags = 0, rowId = 0, rowBody = putU8 0 @ putU8 3\<rparr> = Inr ''f@C''"
    using getU8_putU8 [of 3 "[]"] getU8_putU8 [of 1 "[]"]
    by (simp add: getStrongClassname_body sampleLookup_def sampleTexts strongClassname_def)
  then show ?thesis
    by (simp add: ownedKey_body off sampleMethod_def sampleLookup_def sampleTexts)
qed

lemma sampleMethod_simps [simp]: "length (rowBody (sampleMethod d)) = 40" "rowId (sampleMethod d) = 0"
  by (simp_all add: sampleMethod_def)

lemma overloaded_method_undefined_witness:
  "\<exists>t. fst (addOrUpdate (ownedKey MethodRow 0 1 samplePool sampleLookup) 1 t) = Inl Undefined \<and>
     heap t 0 = Some (Holds (sampleMethod 0)) \<and> heap t 1 = Some (Holds (sampleMethod 1))"
proof -
  let ?key = "ownedKey MethodRow 0 1 samplePool sampleLookup"
  let ?t = "\<lparr>heap = [0 \<mapsto> Holds (sampleMethod 0), 1 \<mapsto> Holds (sampleMethod 1)], nextAddress = 2, tableRows = [(''f@C#m'', 0)],
    autoIncrementIndex = [0], tableFilename = [], isDirty = False, rowSize = 56, tableName = [], dirtyRows = Map.empty, tableColumns = [],
    columnByName = Map.empty, layoutSignature = 0, layoutName = [], columnCount = 0\<rparr>"
  have rep: "tableRep ?key ?t [sampleMethod 0] [''f@C#m'']" using sampleKey [of 0] by (simp add: tableRep_def)
  have al: "allocated ?t 1 (sampleMethod 1)" by (simp add: allocated_def)
  have "column8 MethodRow ''ownerClass'' (sampleMethod 1) = column8 MethodRow ''ownerClass'' ([sampleMethod 0] ! 0)"
    "column8 MethodRow ''name'' (sampleMethod 1) = column8 MethodRow ''name'' ([sampleMethod 0] ! 0)"
    by (simp_all add: column8_body layout_defs sampleMethod_def)
  from overloaded_method_undefined [OF rep _ al this] show ?thesis by (intro exI [of _ ?t]) simp
qed

text \<open>
  \<^verbatim>\<open>CallGraphDb::deleteClass\<close> finds the rows of a class through \<^verbatim>\<open>_ownerClassIndex\<close>.  No operation
  ever enters a row there, so with the index of a new table it deletes no row, reports none
  and leaves every table as it is.
\<close>
lemma deleteClass_deletes_nothing:
  assumes "\<forall>ct\<in>set cts. ownerClassIndex ct = Map.empty"
  shows "deleteClassAll classId cts = (Inr 0, cts)"
  using assms
proof (induction cts)
  case (Cons ct cts)
  then have "deleteClass classId ct = (Inr 0, ct)" by (simp add: deleteClass_def)
  with Cons show ?case by simp
qed simp

end
