(* ===== verification/Db_Display.thy ===== *)
theory Db_Display
  imports Domain_Tables Constant_Pool
begin

text \<open>
  How rows are shown (\<^verbatim>\<open>Properties::valueToString\<close> with the functions registered in \<^verbatim>\<open>Columns.cpp\<close>,
  \<^verbatim>\<open>ColumnRefFormatter.cpp\<close> and \<^verbatim>\<open>Files.cpp\<close>, \<^verbatim>\<open>Table::getColumnValue\<close>, \<^verbatim>\<open>Table::generateStdOutRow\<close>).
  A reference is shown as a column of the row it refers to, which may be a reference again, so
  the functions are partial.  The calendar text of a time stamp depends on the clock, the time
  zone and the formatting library and is the parameter \<open>datetime\<close>.
\<close>

section \<open>Sizes\<close>

text \<open>
  A 64-bit number as a \<^verbatim>\<open>double\<close>: rounded to 53 significant bits, ties to even.  Dividing it by
  1024 is exact.
\<close>

function excessBits :: "nat \<Rightarrow> nat" where
  "excessBits n = (if n < 2 ^ 53 then 0 else Suc (excessBits (n div 2)))"
  by auto

termination
  by (relation "measure id") auto

declare excessBits.simps [simp del]

definition toDouble :: "nat \<Rightarrow> nat" where
  "toDouble n = roundDiv n (2 ^ excessBits n) * 2 ^ excessBits n"

definition fixed2 :: "nat \<Rightarrow> string" where
  "fixed2 hundredths = natToString (hundredths div 100) @ ''.'' @ (if hundredths mod 100 < 10 then ''0'' else []) @
     natToString (hundredths mod 100)"

definition suffixes :: "string list" where
  "suffixes = [''B'', ''KB'', ''MB'', ''GB'', ''TB'']"

text \<open>The loop keeps the position of the unit and the shown value as a multiple of 1/1024.\<close>

function sizeLoop :: "nat \<Rightarrow> nat \<Rightarrow> nat \<Rightarrow> nat \<times> nat" where
  "sizeLoop i b shown =
     (if b div 1024 > 0 \<and> i < length suffixes - 1 then sizeLoop (i + 1) (b div 1024) (toDouble b) else (i, shown))"
  by auto

termination
  by (relation "measure (\<lambda>(i, b, shown). length suffixes - i)") auto

declare sizeLoop.simps [simp del]

definition sizeToHumanReadable :: "u8 \<Rightarrow> string" where
  "sizeToHumanReadable b =
     (case (if unat b > 1024 then sizeLoop 0 (unat b) (toDouble (unat b) * 1024) else (0, toDouble (unat b) * 1024)) of
        (i, shown) \<Rightarrow> fixed2 (roundDiv (shown * 100) 1024) @ '' '' @ suffixes ! i)"

section \<open>Values\<close>

definition columnBytes :: "properties \<Rightarrow> table_row \<Rightarrow> bytes" where
  "columnBytes p r = drop (unat (offsetInRow p)) (putRow r)"

definition getU4 :: "bytes \<Rightarrow> u4" where
  "getU4 bs = of_nat (leValue (take 4 bs))"

text \<open>How many bytes of the row a function reads; reading behind the row is undefined.\<close>

fun displayWidth :: "display_as \<Rightarrow> nat" where
  "displayWidth AsInt32 = 4"
| "displayWidth AsUInt32 = 4"
| "displayWidth AsEntryType = 4"
| "displayWidth AsUInt64 = 8"
| "displayWidth AsDatetime = 8"
| "displayWidth AsSize = 8"
| "displayWidth AsString = 8"
| "displayWidth AsRef = 8"
| "displayWidth AsDigest = 40"
| "displayWidth AsBool = 1"
| "displayWidth AsAccessFlags = 0"

definition insideRow :: "properties \<Rightarrow> table_row \<Rightarrow> bool" where
  "insideRow p r \<longleftrightarrow> displayWidth (displayAs p) \<le> length (columnBytes p r)"

text \<open>\<^verbatim>\<open>AsEntryType\<close>, registered by \<^verbatim>\<open>Files::defineColumns\<close>.  The values of the enumeration are 0 to 3.\<close>

definition entryTypeText :: "bool \<Rightarrow> int \<Rightarrow> string result" where
  "entryTypeText displayRaw v =
     (if v < 0 \<or> 3 < v then Inl Undefined
      else if displayRaw then Inr (intToString v)
      else if v = 0 then Inr ''classfile'' else if v = 1 then Inr ''jar'' else if v = 2 then Inr ''directory'' else Inr ''unknown'')"

text \<open>Every way to show a value but the reference; for access flags no function is registered.\<close>

definition plainValue :: "(u8 \<Rightarrow> string) \<Rightarrow> string_pool \<Rightarrow> bool \<Rightarrow> properties \<Rightarrow> table_row \<Rightarrow> string result" where
  "plainValue datetime pl displayRaw p r = (let bs = columnBytes p r in
     if \<not> insideRow p r then Inl Undefined else case displayAs p of
       AsDatetime \<Rightarrow> Inr (datetime (getU8 bs))
     | AsSize \<Rightarrow> Inr (sizeToHumanReadable (getU8 bs))
     | AsInt32 \<Rightarrow> Inr (intToString (sint (getU4 bs)))
     | AsUInt32 \<Rightarrow> Inr (natToString (unat (getU4 bs)))
     | AsUInt64 \<Rightarrow> Inr (natToString (unat (getU8 bs)))
     | AsRef \<Rightarrow> Inr (natToString (unat (getU8 bs)))
     | AsString \<Rightarrow> if displayRaw then Inr (natToString (unat (getU8 bs))) else getCString pl (unat (getU8 bs))
     | AsDigest \<Rightarrow> Inr (concat (map (\<lambda>b. '' '' @ hex2 (unat b)) (take 40 bs)))
     | AsBool \<Rightarrow> Inr (if hd bs AND 1 = 1 then ''true'' else ''false'')
     | AsEntryType \<Rightarrow> entryTypeText displayRaw (sint (getU4 bs))
     | AsAccessFlags \<Rightarrow> Inl (RuntimeError ''bad_function_call''))"

text \<open>The row and the column \<^verbatim>\<open>getColumnValue\<close> shows.\<close>

definition columnAt :: "database \<Rightarrow> nat \<Rightarrow> u8 \<Rightarrow> string \<Rightarrow> (properties \<times> table_row) result" where
  "columnAt db j i column =
     bindR (dbLookup db j i) (\<lambda>r. case columnByName (tbl (dbTables db ! j)) column of
         None \<Rightarrow> Inl AssertFail
       | Some k \<Rightarrow> Inr (tableColumns (tbl (dbTables db ! j)) ! k, r))"

partial_function (option) valueToString ::
  "(u8 \<Rightarrow> string) \<Rightarrow> database \<Rightarrow> bool \<Rightarrow> properties \<Rightarrow> table_row \<Rightarrow> string result option" where
  "valueToString datetime db displayRaw p r =
     (if displayAs p = AsRef \<and> insideRow p r then
        (let ref = getU8 (columnBytes p r) in
         if displayRaw \<or> ref = InvalidRef then Some (Inr (natToString (unat ref)))
         else (case getTable db (refTable (refColProperties p)) of
             None \<Rightarrow> Some (Inr (natToString (unat ref)))
           | Some j \<Rightarrow> (case columnAt db j ref (refDisplayColumn (refColProperties p)) of
                 Inl e \<Rightarrow> Some (Inl e)
               | Inr (q, s) \<Rightarrow> valueToString datetime db False q s)))
      else Some (plainValue datetime (dbPool db) displayRaw p r))"

declare valueToString.simps [code]

definition getColumnValue :: "(u8 \<Rightarrow> string) \<Rightarrow> database \<Rightarrow> nat \<Rightarrow> u8 \<Rightarrow> string \<Rightarrow> string result option" where
  "getColumnValue datetime db j i column = (case columnAt db j i column of
       Inl e \<Rightarrow> Some (Inl e) | Inr (p, r) \<Rightarrow> valueToString datetime db False p r)"

section \<open>Rows\<close>

definition addColumn :: "string \<Rightarrow> string \<Rightarrow> string" where
  "addColumn result s = (if result \<noteq> [] then result @ '','' else result) @ s"

definition generateStdOutHeader :: "table \<Rightarrow> string" where
  "generateStdOutHeader t = foldl (\<lambda>result p. addColumn result (columnName p)) [] (tableColumns t)"

fun rowText :: "(u8 \<Rightarrow> string) \<Rightarrow> database \<Rightarrow> bool \<Rightarrow> table_row \<Rightarrow> properties list \<Rightarrow> string \<Rightarrow> string result option" where
  "rowText datetime db displayRaw r [] result = Some (Inr result)"
| "rowText datetime db displayRaw r (p # ps) result = (case valueToString datetime db displayRaw p r of
       None \<Rightarrow> None
     | Some (Inl e) \<Rightarrow> Some (Inl e)
     | Some (Inr s) \<Rightarrow> rowText datetime db displayRaw r ps (addColumn result s))"

definition generateStdOutRow :: "(u8 \<Rightarrow> string) \<Rightarrow> database \<Rightarrow> nat \<Rightarrow> bool \<Rightarrow> table_row \<Rightarrow> string result option" where
  "generateStdOutRow datetime db j displayRaw r = rowText datetime db displayRaw r (tableColumns (tbl (dbTables db ! j))) []"

section \<open>The declared columns\<close>

primrec columnIndex :: "nat \<Rightarrow> properties list \<Rightarrow> (string \<rightharpoonup> nat) \<Rightarrow> (string \<rightharpoonup> nat)" where
  "columnIndex n [] m = m"
| "columnIndex n (p # ps) m = columnIndex (Suc n) ps (m(columnName p \<mapsto> n))"

lemma columnIndex_None: "columnIndex n ps m c = None \<longleftrightarrow> m c = None \<and> c \<notin> columnName ` set ps"
  by (induction ps arbitrary: n m) auto


lemma declare_columns:
  "mapProg declareColumn (map Inr ps) t = (r, t') \<Longrightarrow>
   tableColumns t' = tableColumns t @ ps \<and> columnByName t' = columnIndex (length (tableColumns t)) ps (columnByName t) \<and>
   rowSize t' = rowSize t \<and> autoIncrementIndex t' = autoIncrementIndex t"
proof (induction ps arbitrary: t r)
  case (Cons p ps)
  let ?t = "t\<lparr>columnByName := (columnByName t)(columnName p \<mapsto> length (tableColumns t)), tableColumns := tableColumns t @ [p],
    columnCount := of_nat (length (tableColumns t) + 1)\<rparr>"
  obtain r' t2 where m: "mapProg declareColumn (map Inr ps) ?t = (r', t2)" by fastforce
  have "declareColumn (Inr p) t = (Inr (), ?t)" by (simp add: declareColumn_def)
  with Cons.prems m have "t2 = t'" by (cases r') simp_all
  with m have "mapProg declareColumn (map Inr ps) ?t = (r', t')" by simp
  from Cons.IH [OF this] show ?case by (simp add: fun_upd_def)
qed simp

lemma all_Inr: "\<forall>c\<in>set cs. \<exists>p. c = Inr p \<Longrightarrow> \<exists>ps. cs = map Inr ps"
proof (induction cs)
  case (Cons c cs)
  then obtain p ps where "c = Inr p" "cs = map Inr ps" by auto
  then show ?case by (intro exI [of _ "p # ps"]) simp
qed simp

text \<open>A database with the columns of the call-graph database, whatever its rows.\<close>

definition tableSchema :: "table_spec \<Rightarrow> db_table \<Rightarrow> bool" where
  "tableSchema s dt \<longleftrightarrow> (case s of (name, l, columns, key) \<Rightarrow> columns = map Inr (tableColumns (tbl dt)) \<and>
     columnByName (tbl dt) = columnIndex 0 (tableColumns (tbl dt)) Map.empty \<and> rowSize (tbl dt) = sizeOf l)"

definition callGraphSchema :: "database \<Rightarrow> bool" where
  "callGraphSchema db \<longleftrightarrow> list_all2 tableSchema callGraphSpecs (dbTables db) \<and>
     tablesByName db = zip (map fst callGraphSpecs) [0..<length callGraphSpecs]"

lemma makeTable_schema:
  assumes "columnsOk columns" "makeTable dir name l columns key = Inr dt" shows "tableSchema (name, l, columns, key) dt"
proof -
  have "\<forall>c\<in>set columns. \<exists>p. c = Inr p" using assms(1) by (auto simp: columnsOk_def)
  from all_Inr [OF this] obtain ps where ps: "columns = map Inr ps" by blast
  obtain t0 where t0: "newTable (generateTableFilename dir name) name (sizeOf l) = Inr t0"
    using assms(2) by (cases "newTable (generateTableFilename dir name) name (sizeOf l)") (simp_all add: makeTable_def)
  obtain r t' where m: "mapProg declareColumn (map Inr ps) t0 = (r, t')" by fastforce
  with assms(2) t0 ps have dt: "dt = \<lparr>tbl = t', keyOf = key\<rparr>" by (cases r) (simp_all add: makeTable_def)
  have "tableColumns t0 = []" "columnByName t0 = Map.empty" "rowSize t0 = sizeOf l"
    using t0 by (auto simp: newTable_def bindR_Inr_iff)
  with declare_columns [OF m] dt ps show ?thesis by (simp add: tableSchema_def)
qed

lemma callGraphDbInit_schema: "callGraphDbInit dir block = Inr db \<Longrightarrow> callGraphSchema db"
proof -
  assume init: "callGraphDbInit dir block = Inr db"
  have all: "callGraphDbInit dir block = initTables dir block (makeAll dir callGraphSpecs)"
    by (simp add: callGraphDbInit_def makeAll_def callGraphSpecs_def)
  with init obtain dts where d: "mapR (\<lambda>t. t) (makeAll dir callGraphSpecs) = Inr dts" "db = fold addTable dts (newDatabase dir block)"
    by (auto simp: initTables_def bindR_Inr_iff)
  from makeAll_ok [OF callGraphSpecs_ok(1), of dir] d(1)
  have fresh: "list_all2 (\<lambda>(name, l, columns, key) dt. freshTable dir name l key dt) callGraphSpecs dts" by simp
  from fold_addTable [of "newDatabase dir block" dts] fresh_lists(2) [OF fresh] callGraphSpecs_ok(2)
  have db: "dbTables db = dts" "tablesByName db = zip (map fst callGraphSpecs) [0..<length dts]" by (simp_all add: newDatabase_def d(2))
  have "list_all2 tableSchema specs dts" if "mapR (\<lambda>t. t) (makeAll dir specs) = Inr dts" "\<forall>s\<in>set specs. specOk s" for specs dts
    using that
  proof (induction specs arbitrary: dts)
    case (Cons s specs)
    then show ?case using makeTable_schema by (cases s) (fastforce simp: makeAll_def bindR_Inr_iff specOk_def)
  qed (simp add: makeAll_def)
  with d(1) callGraphSpecs_ok(1) db fresh show ?thesis by (simp add: callGraphSchema_def list_all2_lengthD)
qed

section \<open>Types of columns\<close>

text \<open>The sizes of the column types of \<^verbatim>\<open>Columns.h\<close>.\<close>

fun storageWidth :: "storage_type \<Rightarrow> nat" where
  "storageWidth Int32 = 4"
| "storageWidth UInt32 = 4"
| "storageWidth UInt64 = 8"
| "storageWidth Ref = 8"
| "storageWidth StringType = 8"
| "storageWidth DigestType = 40"

definition columnTyped :: "layout \<Rightarrow> properties \<Rightarrow> bool" where
  "columnTyped l p \<longleftrightarrow> (columnName p, storageWidth (columnType p)) \<in> set l \<and> storageWidth (columnType p) = displayWidth (displayAs p) \<and>
     unat (offsetInRow p) = offsetOf l (columnName p) \<and> unat (offsetInRow p) + storageWidth (columnType p) \<le> sizeOf l"

definition columnsTyped :: "layout \<Rightarrow> properties result list \<Rightarrow> bool" where
  "columnsTyped l columns \<longleftrightarrow> list_all (\<lambda>c. case c of Inl e \<Rightarrow> False | Inr p \<Rightarrow> columnTyped l p) columns"

lemmas column_defs = filesColumns_def classFilesColumns_def classRefsColumns_def methodsColumns_def
  methodRefsColumns_def fieldsColumns_def fieldRefsColumns_def classRefEdgesColumns_def methodRefEdgesColumns_def fieldRefEdgesColumns_def

lemmas column_constructors = col_def refCol_def newProperties_def newRefProperties_def strcpy_def MAX_COLUMN_NAME_def MAX_TABLE_NAME_def

lemma all_typed: "list_all (\<lambda>(name, l, columns, key). columnsTyped l columns) callGraphSpecs"
  by (simp add: callGraphSpecs_def columnsTyped_def column_defs column_constructors columnTyped_def sizeOf_def layout_defs)

lemma schema_at:
  assumes "callGraphSchema db" "j < 10"
  shows "tableSchema (callGraphSpecs ! j) (dbTables db ! j)" "length (dbTables db) = 10"
  using assms by (auto simp: callGraphSchema_def list_all2_conv_all_nth callGraphSpecs_def)

lemma schema_typed:
  assumes "callGraphSchema db" "j < 10" "p \<in> set (tableColumns (tbl (dbTables db ! j)))"
  shows "columnTyped (fst (snd (callGraphSpecs ! j))) p" "rowSize (tbl (dbTables db ! j)) = sizeOf (fst (snd (callGraphSpecs ! j)))"
proof -
  obtain name l columns key where s: "callGraphSpecs ! j = (name, l, columns, key)" by (cases "callGraphSpecs ! j") auto
  have "(name, l, columns, key) \<in> set callGraphSpecs" using s assms(2) nth_mem [of j callGraphSpecs] by (simp add: callGraphSpecs_def)
  then have "columnsTyped l columns" using all_typed by (auto simp: list_all_iff)
  moreover have "columns = map Inr (tableColumns (tbl (dbTables db ! j)))" "rowSize (tbl (dbTables db ! j)) = sizeOf l"
    using schema_at(1) [OF assms(1,2)] s by (simp_all add: tableSchema_def)
  ultimately show "columnTyped (fst (snd (callGraphSpecs ! j))) p" "rowSize (tbl (dbTables db ! j)) = sizeOf (fst (snd (callGraphSpecs ! j)))"
    using assms(3) s by (auto simp: columnsTyped_def list_all_iff)
qed

text \<open>The columns of all ten tables of the call-graph database are well typed: a column is declared
  at the offset of the member of the row structure that has its name, its storage type and the
  function that shows it have the size of that member, and they stay inside the row.
\<close>

lemma columns_well_typed:
  assumes "callGraphDbInit dir block = Inr db" "j < length (dbTables db)" "p \<in> set (tableColumns (tbl (dbTables db ! j)))"
  shows "(columnName p, storageWidth (columnType p)) \<in> set (fst (snd (callGraphSpecs ! j))) \<and>
    unat (offsetInRow p) = offsetOf (fst (snd (callGraphSpecs ! j))) (columnName p) \<and>
    storageWidth (columnType p) = displayWidth (displayAs p) \<and>
    (\<forall>r. length (putRow r) = rowSize (tbl (dbTables db ! j)) \<longrightarrow> insideRow p r)"
proof -
  note schema = callGraphDbInit_schema [OF assms(1)]
  have j: "j < 10" using assms(2) schema_at(2) [OF schema, of 0] by simp
  from schema_typed [OF schema j assms(3)] show ?thesis by (auto simp: columnTyped_def insideRow_def columnBytes_def)
qed

section \<open>References\<close>



lemma valueToString_plain: "displayAs p \<noteq> AsRef \<Longrightarrow> valueToString datetime db raw p r = Some (plainValue datetime (dbPool db) raw p r)"
  by (subst valueToString.simps) simp









lemma columns_well_typed_witness:
  "\<exists>db p. callGraphDbInit ''d'' 0 = Inr db \<and> p \<in> set (tableColumns (tbl (dbTables db ! 0))) \<and> columnName p = ''digest'' \<and>
     (''digest'', 40) \<in> set FileRow \<and> storageWidth (columnType p) = 40"
proof -
  from callGraphDbInit_ok [of "''d''" 0] obtain db where db: "callGraphDbInit ''d'' 0 = Inr db" by blast
  note schema = callGraphDbInit_schema [OF db]
  have "filesColumns = map Inr (tableColumns (tbl (dbTables db ! 0)))"
    using schema_at(1) [OF schema, of 0] by (simp add: tableSchema_def callGraphSpecs_def)
  from arg_cong [OF this, of set] have "set filesColumns = Inr ` set (tableColumns (tbl (dbTables db ! 0)))" by simp
  moreover have "col FileRow ''digest'' DigestType AsDigest \<in> set filesColumns" by (simp add: filesColumns_def)
  ultimately obtain p where p: "col FileRow ''digest'' DigestType AsDigest = Inr p" "p \<in> set (tableColumns (tbl (dbTables db ! 0)))" by auto
  have n: "columnName p = ''digest''" using p(1) by (auto simp: column_constructors)
  have len: "0 < length (dbTables db)" using schema_at(2) [OF schema, of 0] by simp
  from columns_well_typed [OF db len p(2)] have "(columnName p, storageWidth (columnType p)) \<in> set FileRow"
    by (auto simp: callGraphSpecs_def)
  moreover have "columnType p = DigestType" using p(1) by (auto simp: column_constructors)
  ultimately show ?thesis using db p(2) n by auto
qed

section \<open>Edges cannot be listed\<close>

text \<open>The table at \<open>j\<close> starts with its identifier and a reference to table \<open>k\<close> shown as a missing column.\<close>

definition specColumns :: "nat \<Rightarrow> properties list" where
  "specColumns j = map projr (fst (snd (snd (callGraphSpecs ! j))))"

definition dangling :: "nat \<Rightarrow> nat \<Rightarrow> bool" where
  "dangling j k \<longleftrightarrow> (case specColumns j of
       pid # pfrom # ps \<Rightarrow> displayAs pid = AsUInt64 \<and> displayAs pfrom = AsRef \<and> offsetInRow pid = 8 \<and> offsetInRow pfrom = 24 \<and>
         refTable (refColProperties pfrom) = fst (callGraphSpecs ! k) \<and>
         refDisplayColumn (refColProperties pfrom) \<notin> set (map columnName (specColumns k))
     | _ \<Rightarrow> False) \<and> sizeOf (fst (snd (callGraphSpecs ! j))) = 40"

lemma edges_dangle: "dangling 7 2" "dangling 8 4" "dangling 9 6"
  by code_simp+

lemma schema_columns:
  assumes "callGraphSchema db" "j < 10"
  shows "tableColumns (tbl (dbTables db ! j)) = specColumns j" "getTable db (fst (callGraphSpecs ! j)) = Some j"
proof -
  show "tableColumns (tbl (dbTables db ! j)) = specColumns j"
    using schema_at(1) [OF assms] by (auto simp: tableSchema_def specColumns_def o_def split: prod.splits)
  have ten: "length callGraphSpecs = 10" by (simp add: callGraphSpecs_def)
  have "map_of (zip (map fst callGraphSpecs) [0..<length callGraphSpecs]) (map fst callGraphSpecs ! j) = Some ([0..<length callGraphSpecs] ! j)"
    by (rule map_of_zip_nth) (use callGraphSpecs_ok(2) assms(2) ten in auto)
  then show "getTable db (fst (callGraphSpecs ! j)) = Some j" using assms ten by (simp add: getTable_def callGraphSchema_def)
qed

lemma edge_columns:
  assumes "callGraphSchema db" "(j, k) \<in> {(7, 2), (8, 4), (9, 6)}"
  shows "\<exists>pid pfrom ps. tableColumns (tbl (dbTables db ! j)) = pid # pfrom # ps \<and> displayAs pid = AsUInt64 \<and> displayAs pfrom = AsRef \<and>
    offsetInRow pid = 8 \<and> offsetInRow pfrom = 24 \<and> rowSize (tbl (dbTables db ! j)) = 40 \<and>
    getTable db (refTable (refColProperties pfrom)) = Some k \<and>
    refDisplayColumn (refColProperties pfrom) \<notin> columnName ` set (tableColumns (tbl (dbTables db ! k)))"
proof -
  have j: "j < 10" "k < 10" "dangling j k" using assms(2) edges_dangle by auto
  have "rowSize (tbl (dbTables db ! j)) = sizeOf (fst (snd (callGraphSpecs ! j)))"
    using schema_at(1) [OF assms(1) j(1)] by (simp add: tableSchema_def split: prod.splits)
  with j(3) schema_columns [OF assms(1) j(1)] schema_columns [OF assms(1) j(2)] show ?thesis
    by (auto simp: dangling_def split: list.splits)
qed

lemma setTable_schema:
  assumes "callGraphSchema db" "tableColumns t = tableColumns (tbl (dbTables db ! j))" "columnByName t = columnByName (tbl (dbTables db ! j))"
    "rowSize t = rowSize (tbl (dbTables db ! j))"
  shows "callGraphSchema (setTable j t db)"
proof -
  let ?d = "(dbTables db ! j)\<lparr>tbl := t\<rparr>"
  have "tableSchema (callGraphSpecs ! i) ((dbTables db)[j := ?d] ! i)" if "i < length (dbTables db)" "tableSchema (callGraphSpecs ! i) (dbTables db ! i)" for i
  proof (cases "i = j")
    case True
    with that assms(2-4) show ?thesis by (simp add: tableSchema_def split: prod.splits)
  qed (use that in simp)
  with assms(1) show ?thesis by (simp add: callGraphSchema_def setTable_def list_all2_conv_all_nth)
qed

text \<open>The edge tables cannot be listed in readable form: their column \<^verbatim>\<open>from\<close> is to be shown as a
  column (\<^verbatim>\<open>classRef\<close>, \<^verbatim>\<open>methodRef\<close>, \<^verbatim>\<open>fieldRef\<close>) that the referenced table does not have, so for an
  edge that refers to an existing row the assertion of \<^verbatim>\<open>getColumnValue\<close> fails.
\<close>

lemma edge_listing_fails:
  assumes "callGraphSchema db" "(j, k) \<in> {(7, 2), (8, 4), (9, 6)}" "length (putRow r) = rowSize (tbl (dbTables db ! j))"
    and "column8 ClassRefEdgeRow ''from'' r \<noteq> InvalidRef" "dbLookup db k (column8 ClassRefEdgeRow ''from'' r) = Inr s"
  shows "generateStdOutRow datetime db j False r = Some (Inl AssertFail)"
proof -
  from edge_columns [OF assms(1,2)] obtain pid pfrom ps where
    ps: "tableColumns (tbl (dbTables db ! j)) = pid # pfrom # ps" "displayAs pid = AsUInt64" "displayAs pfrom = AsRef"
    and off: "offsetInRow pid = 8" "offsetInRow pfrom = 24" "rowSize (tbl (dbTables db ! j)) = 40"
    and t: "getTable db (refTable (refColProperties pfrom)) = Some k"
    and c: "refDisplayColumn (refColProperties pfrom) \<notin> columnName ` set (tableColumns (tbl (dbTables db ! k)))" by blast
  have inside: "insideRow pid r" "insideRow pfrom r" using ps off assms(3) by (simp_all add: insideRow_def columnBytes_def)
  have ref: "getU8 (columnBytes pfrom r) = column8 ClassRefEdgeRow ''from'' r"
    by (simp add: columnBytes_def column8_def off layout_defs)
  have "columnByName (tbl (dbTables db ! k)) = columnIndex 0 (tableColumns (tbl (dbTables db ! k))) Map.empty"
    using schema_at(1) [OF assms(1), of k] assms(2) by (auto simp: tableSchema_def split: prod.splits)
  moreover have "columnIndex 0 (tableColumns (tbl (dbTables db ! k))) Map.empty (refDisplayColumn (refColProperties pfrom)) = None"
    using c unfolding columnIndex_None by simp
  ultimately have "columnAt db k (column8 ClassRefEdgeRow ''from'' r) (refDisplayColumn (refColProperties pfrom)) = Inl AssertFail"
    using assms(5) by (simp add: columnAt_def)
  then have "valueToString datetime db False pfrom r = Some (Inl AssertFail)"
    using ps inside ref t assms(4) by (subst valueToString.simps) simp
  moreover have "valueToString datetime db False pid r = Some (Inr (natToString (unat (getU8 (columnBytes pid r)))))"
    using ps inside by (simp add: valueToString_plain plainValue_def)
  ultimately show ?thesis by (simp add: generateStdOutRow_def ps(1))
qed

lemma edge_listing_fails_witness:
  "\<exists>db. callGraphSchema db \<and>
     generateStdOutRow (\<lambda>_. []) db 7 False \<lparr>rowFlags = 0, rowId = 0, rowBody = replicate 24 0\<rparr> = Some (Inl AssertFail)"
proof -
  from callGraphDbInit_ok [of "''d''" 0] obtain db0 where db0: "callGraphDbInit ''d'' 0 = Inr db0" by blast
  note schema0 = callGraphDbInit_schema [OF db0]
  have len: "length (dbTables db0) = 10" using schema_at(2) [OF schema0, of 0] by simp
  let ?s = "\<lparr>rowFlags = 0, rowId = 0, rowBody = replicate 24 0\<rparr>"
  let ?t = "tbl (dbTables db0 ! 2)"
  define db where "db = setTable 2 (?t\<lparr>heap := [0 \<mapsto> Holds ?s], autoIncrementIndex := [0]\<rparr>) db0"
  have schema: "callGraphSchema db" unfolding db_def by (rule setTable_schema [OF schema0]) simp_all
  have ref: "column8 ClassRefEdgeRow ''from'' ?s = 0" by (simp add: column8_body layout_defs getU8_def numeral_eq_Suc)
  have "dbLookup db 2 0 = Inr ?s" using len by (simp add: dbLookup_def db_def setTable_def getRow_def cellRow_def)
  moreover have "length (putRow ?s) = rowSize (tbl (dbTables db ! 7))"
    using edge_columns [OF schema, of 7 2] by auto
  ultimately show ?thesis using edge_listing_fails [OF schema, of 7 2 ?s ?s "\<lambda>_. []"] ref schema by (auto simp: InvalidRef_def)
qed

end
