(* ===== verification/Table_Refinement.thy ===== *)
theory Table_Refinement
  imports Db_Table
begin

text \<open>
  The contract of a table: an append-only store of rows under distinct keys, in which a row can
  be flagged as deleted or replaced in place.  The contract is a function on operations.  The table of
  \<open>Db_Table\<close>, with its heap of rows, its key map, its index and its file, performs each operation as the
  store does.
\<close>

type_synonym store = "(string \<times> table_row) list"

text \<open>An operation with its answer: an added row and its identifier, the identifier of a row to delete and the verdict,
  the identifier of a row and its new content, a write.\<close>

datatype table_op = Add table_row u8 | Delete u8 bool | Change u8 table_row | Write

definition storeAdd :: "row_key \<Rightarrow> table_row \<Rightarrow> store \<Rightarrow> (u8 \<times> store) option" where
  "storeAdd key r xs = (case key r of Inl e \<Rightarrow> None | Inr k \<Rightarrow>
     if k \<in> fst ` set xs then None else Some (of_nat (length xs), xs @ [(k, r\<lparr>rowId := of_nat (length xs)\<rparr>)]))"

definition storeFlag :: "u8 \<Rightarrow> store \<Rightarrow> store option" where
  "storeFlag i xs = (if unat i < length xs
     then Some (xs[unat i := (fst (xs ! unat i), (snd (xs ! unat i))\<lparr>rowFlags := rowFlags (snd (xs ! unat i)) OR Deleted\<rparr>)]) else None)"

definition storeChange :: "row_key \<Rightarrow> u8 \<Rightarrow> table_row \<Rightarrow> store \<Rightarrow> store option" where
  "storeChange key i r xs = (if unat i < length xs \<and> rowId r = i \<and> key r = Inr (fst (xs ! unat i))
     then Some (xs[unat i := (fst (xs ! unat i), r)]) else None)"

fun storeOp :: "row_key \<Rightarrow> table_op \<Rightarrow> store \<Rightarrow> store option" where
  "storeOp key (Add r i) xs = (case storeAdd key r xs of Some (j, ys) \<Rightarrow> if i = j then Some ys else None | None \<Rightarrow> None)"
| "storeOp key (Delete i b) xs = (if b then storeFlag i xs else None)"
| "storeOp key (Change i r) xs = storeChange key i r xs"
| "storeOp key Write xs = Some xs"

definition storeOps :: "row_key \<Rightarrow> table_op list \<Rightarrow> store \<Rightarrow> store option" where
  "storeOps key ops xs = foldl (\<lambda>s e. Option.bind s (storeOp key e)) (Some xs) ops"

text \<open>The operations of a table, with the file system, in the order in which they succeed.\<close>

inductive table_trace :: "row_key \<Rightarrow> table \<Rightarrow> file_system \<Rightarrow> table_op list \<Rightarrow> table \<Rightarrow> file_system \<Rightarrow> bool" for key t0 fs0 where
  trace_start: "table_trace key t0 fs0 [] t0 fs0"
| trace_add: "table_trace key t0 fs0 ops t fs \<Longrightarrow> newRow r t = (Inr a, t1) \<Longrightarrow> addRow key a t1 = (Inr i, t2) \<Longrightarrow>
    length (rowBody r) + 16 = rowSize t \<Longrightarrow> length (autoIncrementIndex t) + 1 < 2 ^ 64 \<Longrightarrow> table_trace key t0 fs0 (ops @ [Add r i]) t2 fs"
| trace_delete: "table_trace key t0 fs0 ops t fs \<Longrightarrow> deleteRow i t = (Inr b, t') \<Longrightarrow> table_trace key t0 fs0 (ops @ [Delete i b]) t' fs"
| trace_update: "table_trace key t0 fs0 ops t fs \<Longrightarrow> a \<in> set (autoIncrementIndex t) \<Longrightarrow> cellRow t a = Inr r \<Longrightarrow>
    rowId r' = rowId r \<Longrightarrow> key r' = key r \<Longrightarrow> length (rowBody r') = length (rowBody r) \<Longrightarrow>
    updateInPlace (andThen (assign a r') (\<lambda>_. ret a)) t = (Inr u, t') \<Longrightarrow> table_trace key t0 fs0 (ops @ [Change (rowId r) r']) t' fs"
| trace_write: "table_trace key t0 fs0 ops t fs \<Longrightarrow> writeTable t fs = Inr (t', fs') \<Longrightarrow> table_trace key t0 fs0 (ops @ [Write]) t' fs'"

lemma trace_run: "table_trace key t0 fs0 ops t fs \<Longrightarrow> table_run key t0 fs0 t fs"
  by (induction rule: table_trace.induct) (blast intro: table_run.intros)+

lemma storeOps_snoc: "storeOps key (ops @ [e]) xs = Option.bind (storeOps key ops xs) (storeOp key e)"
  by (simp add: storeOps_def)

definition storeOf :: "row_key \<Rightarrow> table \<Rightarrow> store \<Rightarrow> bool" where
  "storeOf key t xs \<longleftrightarrow> tableRep key t (map snd xs) (map fst xs)"

lemma tableRep_unique:
  assumes "tableRep key t rs ks" "tableRep key t rs' ks'" shows "rs = rs'" "ks = ks'"
proof -
  have len: "length rs = length rs'" "length ks = length rs" "length ks' = length rs'" using assms by (auto simp: tableRep_def)
  have row: "rs ! i = rs' ! i" if "i < length rs" for i using assms that len by (auto simp: tableRep_def)
  then show "rs = rs'" using len by (auto intro: nth_equalityI)
  moreover have "ks ! i = ks' ! i" if "i < length rs" for i
  proof -
    have "Inr (ks ! i) = key (rs ! i)" "Inr (ks' ! i) = key (rs' ! i)" using assms that len by (auto simp: tableRep_def)
    then show ?thesis using row [OF that] by (metis sum.inject(2))
  qed
  ultimately show "ks = ks'" using len by (auto intro: nth_equalityI)
qed

lemma storeOf_rep: "tableRep key t rs ks \<Longrightarrow> storeOf key t (zip ks rs)"
  by (simp add: storeOf_def tableRep_def)

lemma storeOf_update:
  assumes "storeOf key t xs" "i < length xs" "xs ! i = (k, r)" "tableRep key t' ((map snd xs)[i := r']) (map fst xs)"
  shows "storeOf key t' (xs[i := (k, r')])"
proof -
  have "(map fst xs)[i := k] = map fst xs" using assms(2,3) by (metis fst_conv list_update_id nth_map)
  with assms(4) show ?thesis by (simp add: storeOf_def map_update)
qed

context row_keys
begin

text \<open>Each operation of the table is the operation of the store with the same answer.\<close>

lemma sim_add:
  assumes xs: "storeOf key t xs" and new: "newRow r t = (Inr a, t1)" and add: "addRow key a t1 = (Inr i, t2)"
    and r: "length (rowBody r) + 16 = rowSize t" "length (autoIncrementIndex t) + 1 < 2 ^ 64"
  shows "\<exists>ys. storeOp key (Add r i) xs = Some ys \<and> storeOf key t2 ys"
proof -
  have rep: "tableRep key t (map snd xs) (map fst xs)" using xs by (simp add: storeOf_def)
  have t1: "t1 = t\<lparr>heap := (heap t)(nextAddress t \<mapsto> Holds r), nextAddress := nextAddress t + 1\<rparr>" "a = nextAddress t" using new by auto
  have idx: "autoIncrementIndex t ! j \<noteq> a" if "j < length xs" for j
    using rep that t1(2) unfolding tableRep_def by (metis nth_mem less_irrefl length_map)
  have rep1: "tableRep key t1 (map snd xs) (map fst xs)" using rep idx t1 by (auto simp: tableRep_def less_Suc_eq)
  have alloc: "allocated t1 a r" using rep t1 by (auto simp: allocated_def tableRep_def)
  have sz: "length (rowBody r) + 16 = rowSize t1" "length (map snd xs) + 1 < 2 ^ 64" using r t1(1) rep by (auto simp: tableRep_def)
  from addRow_cases [OF rep1 alloc sz add] obtain k where k: "k \<notin> set (map fst xs)"
    "tableRep key t2 (map snd xs @ [r\<lparr>rowId := of_nat (length (map snd xs))\<rparr>]) (map fst xs @ [k])" "i = of_nat (length xs)" by auto
  let ?ys = "xs @ [(k, r\<lparr>rowId := of_nat (length xs)\<rparr>)]"
  have ys: "storeOf key t2 ?ys" using k(2) by (simp add: storeOf_def)
  have "key (map snd ?ys ! length xs) = Inr (map fst ?ys ! length xs)"
    using ys unfolding storeOf_def tableRep_def by (metis length_append_singleton length_map lessI)
  then have "key r = Inr k" by (simp add: nth_append key_rowId)
  with k(1,3) have "storeOp key (Add r i) xs = Some ?ys" by (auto simp: storeAdd_def)
  with ys show ?thesis by blast
qed

lemma sim_delete:
  assumes xs: "storeOf key t xs" and del: "deleteRow i t = (Inr b, t')"
  shows "\<exists>ys. storeOp key (Delete i b) xs = Some ys \<and> storeOf key t' ys"
proof -
  have rep: "tableRep key t (map snd xs) (map fst xs)" using xs by (simp add: storeOf_def)
  have i: "unat i < length xs"
  proof (rule ccontr)
    assume "\<not> unat i < length xs"
    with rep del show False by (simp add: deleteRow_def getRow_def tableRep_def andThen_def)
  qed
  obtain k r where kr: "xs ! unat i = (k, r)" by fastforce
  let ?r = "r\<lparr>rowFlags := rowFlags r OR Deleted\<rparr>"
  have "key ((map snd xs ! unat i)\<lparr>rowFlags := rowFlags (map snd xs ! unat i) OR Deleted\<rparr>) = key (map snd xs ! unat i)" by (rule key_rowFlags)
  from deleteRow_rep [OF rep _ this] del i kr have t': "tableRep key t' ((map snd xs)[unat i := ?r]) (map fst xs)" "b" by auto
  from storeOf_update [OF xs i kr t'(1)] t'(2) i kr show ?thesis by (simp add: storeFlag_def)
qed

lemma sim_update:
  assumes xs: "storeOf key t xs" and a: "a \<in> set (autoIncrementIndex t)" "cellRow t a = Inr r"
    and r: "rowId r' = rowId r" "key r' = key r" "length (rowBody r') = length (rowBody r)"
    and upd: "updateInPlace (andThen (assign a r') (\<lambda>_. ret a)) t = (Inr u, t')"
  shows "\<exists>ys. storeOp key (Change (rowId r) r') xs = Some ys \<and> storeOf key t' ys"
proof -
  have rep: "tableRep key t (map snd xs) (map fst xs)" using xs by (simp add: storeOf_def)
  obtain i where i: "i < length xs" "a = autoIncrementIndex t ! i"
    using a(1) rep unfolding tableRep_def by (metis in_set_conv_nth length_map)
  obtain k s where ks: "xs ! i = (k, s)" by fastforce
  have "heap t a = Some (Holds (map snd xs ! i))" "key (map snd xs ! i) = Inr (map fst xs ! i)"
    using rep i unfolding tableRep_def by auto
  then have s: "r = s" "key s = Inr k" using a(2) ks i(1) by (simp_all add: cellRow_def)
  have ri: "rowId r' = rowId (map snd xs ! i)" "key r' = key (map snd xs ! i)" "length (rowBody r') = length (rowBody (map snd xs ! i))"
    using r s ks i(1) by simp_all
  from updateInPlace_rep [OF rep _ ri] i upd have "tableRep key t' ((map snd xs)[i := r']) (map fst xs)" by auto
  from storeOf_update [OF xs i(1) ks this] have "storeOf key t' (xs[i := (k, r')])" .
  moreover have "rowId s = of_nat i" "i < 2 ^ 64" using rep i(1) ks unfolding tableRep_def by auto
  ultimately show ?thesis using r s ks i(1) by (simp add: storeChange_def unat_of_nat_less)
qed

lemma sim_write:
  assumes "storeOf key t xs" "runOk key t0 fs0 t fs" "writeTable t fs = Inr (t', fs')" shows "storeOf key t' xs"
proof -
  obtain rs ks where rep: "tableRep key t rs ks" "synced t rs fs" "schemaOk t" using assms(2) by (auto simp: runOk_def)
  from writeTable_image [OF rep(1,3,2)] assms(3) have "tableRep key t' rs ks" by auto
  with tableRep_unique [OF rep(1), of "map snd xs" "map fst xs"] assms(1) show ?thesis by (simp add: storeOf_def)
qed

lemma simulation:
  assumes "table_trace key t0 fs0 ops t fs" "runOk key t0 fs0 t0 fs0" "storeOf key t0 xs0"
  shows "\<exists>xs. storeOps key ops xs0 = Some xs \<and> storeOf key t xs"
  using assms
proof (induction rule: table_trace.induct)
  case trace_start then show ?case by (auto simp: storeOps_def)
next
  case (trace_add ops t fs r a t1 i t2)
  then obtain xs where "storeOps key ops xs0 = Some xs" "storeOf key t xs" by blast
  with sim_add [OF _ trace_add.hyps(2-5)] show ?case by (auto simp: storeOps_snoc)
next
  case (trace_delete ops t fs i b t')
  then obtain xs where "storeOps key ops xs0 = Some xs" "storeOf key t xs" by blast
  with sim_delete [OF _ trace_delete.hyps(2)] show ?case by (auto simp: storeOps_snoc)
next
  case (trace_update ops t fs a r r' u t')
  then obtain xs where "storeOps key ops xs0 = Some xs" "storeOf key t xs" by blast
  with sim_update [OF _ trace_update.hyps(2-7)] show ?case by (auto simp: storeOps_snoc)
next
  case (trace_write ops t fs t' fs')
  then obtain xs where xs: "storeOps key ops xs0 = Some xs" "storeOf key t xs" by blast
  with sim_write [OF xs(2) run_keeps [OF trace_run [OF trace_write.hyps(1)] trace_write.prems(1)] trace_write.hyps(2)]
  show ?case by (auto simp: storeOps_snoc)
qed

end

lemma map_of_entries: "map_of (zip (map fst xs) (map Inr (map snd xs))) k = map_option Inr (map_of xs k)"
  by (induction xs) auto

lemma storeOf_view:
  assumes "storeOf key t xs"
  shows "mapR (cellRow t) (autoIncrementIndex t) = Inr (map snd xs)"
    "map_option (cellRow t) (getByKey t k) = map_option Inr (map_of xs k)" "tableSize t = length xs"
proof -
  have rep: "tableRep key t (map snd xs) (map fst xs)" using assms by (simp add: storeOf_def)
  show "mapR (cellRow t) (autoIncrementIndex t) = Inr (map snd xs)"
    using mapR_cells [of t "autoIncrementIndex t" "map snd xs"] rep by (auto simp: tableRep_def list_all2_conv_all_nth)
  have "map_option (cellRow t) (getByKey t k) = (case getByKey t k of None \<Rightarrow> None | Some a \<Rightarrow> Some (cellRow t a))"
    by (cases "getByKey t k") simp_all
  then show "map_option (cellRow t) (getByKey t k) = map_option Inr (map_of xs k)"
    using getByKey_rep [OF rep] map_of_entries [of xs k] by simp
  show "tableSize t = length xs" using rep by (simp add: tableSize_def tableRep_def)
qed

text \<open>(C12)
  A table refines an append-only store of rows under distinct keys.  Take any sequence of successful
  additions, deletions, changes in place and writes on a new table without a file, with the answers of the
  table, for a key that depends neither on the identifier nor on the flags of a row.  The store performs the
  same sequence with the same answers: an addition appends the row under a new key and answers its position,
  a deletion sets the deleted flag of that row and nothing else, a change replaces that row, a write changes
  nothing.  It ends with exactly the rows of the table, in the order of their identifiers, and every key finds
  the same row.
\<close>

theorem table_refines_store:
  assumes key: "\<forall>r i. key (r\<lparr>rowId := i\<rparr>) = key r" "\<forall>r f. key (r\<lparr>rowFlags := f\<rparr>) = key r"
    and start: "emptyTable t0" "schemaOk t0" "fs0 (tableFilename t0) = None" and run: "table_trace key t0 fs0 ops t fs"
  shows "\<exists>xs. storeOps key ops [] = Some xs \<and> mapR (cellRow t) (autoIncrementIndex t) = Inr (map snd xs) \<and> tableSize t = length xs \<and>
    (\<forall>k. map_option (cellRow t) (getByKey t k) = map_option Inr (map_of xs k))"
proof -
  have rk: "row_keys key" using key by unfold_locales auto
  have empty: "storeOf key t0 []" using start(1) by (simp add: storeOf_def emptyTable_def tableRep_def)
  have ok: "runOk key t0 fs0 t0 fs0" using start by (rule runOk_start)
  from row_keys.simulation [OF rk run ok empty] obtain xs where
    xs: "storeOps key ops [] = Some xs" "storeOf key t xs" by blast
  with storeOf_view [OF xs(2)] show ?thesis by blast
qed

text \<open>A row is added and deleted: it stays, with the flag.\<close>

lemma demo_trace:
  defines "r \<equiv> \<lparr>rowFlags = 0, rowId = 0, rowBody = [97]\<rparr> :: table_row"
  shows "\<exists>t. table_trace demoKey demoTable Map.empty [Add r 0, Delete 0 True] t Map.empty"
proof -
  let ?t = "demoTable\<lparr>heap := (heap demoTable)(0 \<mapsto> Holds r), nextAddress := 1\<rparr>"
  have new: "newRow r demoTable = (Inr 0, ?t)" by (simp add: demoTable_def)
  have rep: "tableRep demoKey ?t [] []" using demoTable_ok(3) by (simp add: tableRep_def)
  have "allocated ?t 0 r" by (simp add: allocated_def demoTable_def)
  from addRow_rep [OF rep this, of "map byteChar [97]"] obtain t' where
    t': "addRow demoKey 0 ?t = (Inr 0, t')" "tableRep demoKey t' [r] [map byteChar [97]]"
    by (auto simp: demoKey_def demoTable_def r_def)
  have add: "table_trace demoKey demoTable Map.empty [Add r 0] t' Map.empty"
    using trace_add [OF trace_start new t'(1)] by (simp add: demoTable_def r_def)
  obtain t2 where "deleteRow 0 t' = (Inr True, t2)" using deleteRow_rep(1) [OF t'(2), of 0] by (simp add: demoKey_def)
  from trace_delete [OF add this] show ?thesis by auto
qed

theorem table_refines_store_witness:
  "\<exists>t k. table_trace demoKey demoTable Map.empty [Add \<lparr>rowFlags = 0, rowId = 0, rowBody = [97]\<rparr> 0, Delete 0 True] t Map.empty \<and>
     mapR (cellRow t) (autoIncrementIndex t) = Inr [\<lparr>rowFlags = Deleted, rowId = 0, rowBody = [97]\<rparr>] \<and>
     map_option (cellRow t) (getByKey t k) = Some (Inr \<lparr>rowFlags = Deleted, rowId = 0, rowBody = [97]\<rparr>)"
proof -
  let ?ops = "[Add \<lparr>rowFlags = 0, rowId = 0, rowBody = [97]\<rparr> 0, Delete 0 True]"
  obtain t where t: "table_trace demoKey demoTable Map.empty ?ops t Map.empty" using demo_trace by blast
  have "storeOps demoKey ?ops [] = Some [(map byteChar [97], \<lparr>rowFlags = Deleted, rowId = 0, rowBody = [97]\<rparr>)]"
    by (simp add: storeOps_def storeAdd_def storeFlag_def demoKey_def)
  moreover have "\<exists>xs. storeOps demoKey ?ops [] = Some xs \<and> mapR (cellRow t) (autoIncrementIndex t) = Inr (map snd xs) \<and> tableSize t = length xs \<and>
      (\<forall>k. map_option (cellRow t) (getByKey t k) = map_option Inr (map_of xs k))"
    by (rule table_refines_store [OF _ _ demoTable_ok(1,2) _ t]) (simp_all add: demoKey_def)
  ultimately show ?thesis using t by (intro exI [of _ t] exI [of _ "map byteChar [97]"]) auto
qed

end
