(* ===== verification/Query.thy ===== *)
theory Query
  imports Db_Display
begin

text \<open>
  Queries (\<^verbatim>\<open>infrastructure/db/query/Engine.cpp\<close>, \<^verbatim>\<open>grammar/ListenerImpl.cpp\<close>).  The text of a query is
  parsed by code that ANTLR generates from \<^verbatim>\<open>KapaQuery.g4\<close>; here that parser is a parameter that
  returns a parse tree, or nothing when there are syntax errors.  The listener walks over the tree,
  builds one predicate per rule context and lists the rows that satisfy the predicate of the
  \<^verbatim>\<open>where\<close> clause.  Regular expressions are the parameter \<open>regex\<close>.
\<close>

section \<open>Parse trees\<close>

datatype oper = REGEX | EQUAL | NOT_EQUAL | STARTS_WITH bool | ENDS_WITH bool

datatype logical_oper = LogicalAnd | LogicalOr

record filter_context =
  filterColumn :: string
  filterOper :: oper
  escapedString :: string

datatype expr_context = FilterExpr filter_context | LogicalExpr expr_context logical_oper expr_context

datatype statement_context = ListStatement string "expr_context option" | SchemaStatement

fun operNOT :: "oper \<Rightarrow> bool" where
  "operNOT (STARTS_WITH b) = b"
| "operNOT (ENDS_WITH b) = b"
| "operNOT _ = False"

section \<open>The listener\<close>

text \<open>
  A rule context is identified by its position in the tree.  A predicate is a closure over the
  contexts or values it captures.  A compiled regular expression is its pattern with the flag for
  upper and lower case.
\<close>

type_synonym context_id = "nat list"
type_synonym compiled_regex = "string \<times> bool"

datatype row_predicate =
    FilterPredicate string oper "compiled_regex option" string
  | ExprFilter context_id
  | ExprLogical context_id logical_oper context_id

record regex_engine =
  regexValid :: "compiled_regex \<Rightarrow> bool"
  regexSearch :: "compiled_regex \<Rightarrow> string \<Rightarrow> bool"

record listener =
  listenerDb :: database
  semanticErrors :: "string list"
  regexCache :: "string \<rightharpoonup> compiled_regex"
  sanitizedStringCache :: "string \<rightharpoonup> string"
  mainTable :: "nat option"
  whereContext :: "context_id option"
  rulePredicates :: "context_id \<rightharpoonup> row_predicate"

definition newListener :: "database \<Rightarrow> listener" where
  "newListener db = \<lparr>listenerDb = db, semanticErrors = [], regexCache = Map.empty, sanitizedStringCache = Map.empty,
     mainTable = None, whereContext = None, rulePredicates = Map.empty\<rparr>"

definition semanticError :: "string \<Rightarrow> (listener, unit) prog" where
  "semanticError msg = modify (\<lambda>l. l\<lparr>semanticErrors := semanticErrors l @ [msg]\<rparr>)"

text \<open>\<^verbatim>\<open>onDb\<close> runs an operation of the database.\<close>

definition onDb :: "(database, 'a) prog \<Rightarrow> (listener, 'a) prog" where
  "onDb m = (\<lambda>l. case m (listenerDb l) of (r, db) \<Rightarrow> (r, l\<lparr>listenerDb := db\<rparr>))"

definition enterList :: "file_system \<Rightarrow> nat \<Rightarrow> string \<Rightarrow> (listener, unit) prog" where
  "enterList fs block tablename = andThen (onDb (dbRead fs block)) (\<lambda>_. andThen getState (\<lambda>l.
     let table = getTable (listenerDb l) tablename in
     andThen (modify (\<lambda>l. l\<lparr>mainTable := table\<rparr>)) (\<lambda>_.
     if table = None then semanticError (''Invalid table name: '' @ tablename) else ret ())))"

definition enterWhere :: "context_id \<Rightarrow> (listener, unit) prog" where
  "enterWhere expr = modify (\<lambda>l. l\<lparr>whereContext := Some expr\<rparr>)"

definition enterExpr :: "context_id \<Rightarrow> expr_context \<Rightarrow> (listener, unit) prog" where
  "enterExpr ctx e = modify (\<lambda>l. l\<lparr>rulePredicates := (rulePredicates l)(ctx \<mapsto> (case e of
       FilterExpr f \<Rightarrow> ExprFilter (ctx @ [0])
     | LogicalExpr left oper right \<Rightarrow> ExprLogical (ctx @ [0]) oper (ctx @ [1])))\<rparr>)"

definition enterColumn :: "string \<Rightarrow> (listener, unit) prog" where
  "enterColumn c = andThen getState (\<lambda>l. case mainTable l of
       None \<Rightarrow> ret ()
     | Some j \<Rightarrow> if \<not> isValidColumn (tbl (dbTables (listenerDb l) ! j)) c
         then semanticError (''Invalid column name: '' @ c) else ret ())"

definition getRegex :: "regex_engine \<Rightarrow> string \<Rightarrow> bool \<Rightarrow> (listener, compiled_regex) prog" where
  "getRegex regex right isCaseInsensitive = andThen getState (\<lambda>l. case regexCache l right of
       Some r \<Rightarrow> ret r
     | None \<Rightarrow> if \<not> regexValid regex (right, isCaseInsensitive) then throw (RuntimeError ''regex_error'')
         else andThen (modify (\<lambda>l. l\<lparr>regexCache := (regexCache l)(right \<mapsto> (right, isCaseInsensitive))\<rparr>))
           (\<lambda>_. ret (right, isCaseInsensitive)))"

definition backslash :: char where
  "backslash = CHR 0x5C"

definition sanitize :: "string \<Rightarrow> string option" where
  "sanitize v = replaceAll (trim v [CHR 0x27]) [backslash, backslash] [backslash]"

definition getSanitizedString :: "string \<Rightarrow> listener \<Rightarrow> (string \<times> listener) option" where
  "getSanitizedString v l = (case sanitizedStringCache l v of
       Some s \<Rightarrow> Some (s, l)
     | None \<Rightarrow> map_option (\<lambda>s. (s, l\<lparr>sanitizedStringCache := (sanitizedStringCache l)(v \<mapsto> s)\<rparr>)) (sanitize v))"

definition caseInsensitiveSuffix :: string where
  "caseInsensitiveSuffix = ''/i''"

definition exitFilter :: "regex_engine \<Rightarrow> context_id \<Rightarrow> filter_context \<Rightarrow> (listener, unit) prog" where
  "exitFilter regex ctx f = (\<lambda>l. case getSanitizedString (escapedString f) l of
       None \<Rightarrow> (Inl OutOfFuel, l)
     | Some (sanitizedRight, l) \<Rightarrow>
         andThen (if filterOper f = REGEX then
             let isCaseInsensitive = suffix caseInsensitiveSuffix sanitizedRight;
                 pattern = (if isCaseInsensitive then take (length sanitizedRight - 2) sanitizedRight else sanitizedRight)
             in andThen (getRegex regex pattern isCaseInsensitive) (\<lambda>r. ret (Some r, pattern))
           else ret (None, sanitizedRight))
         (\<lambda>(filterRegex, right). modify (\<lambda>l. l\<lparr>rulePredicates :=
             (rulePredicates l)(ctx \<mapsto> FilterPredicate (filterColumn f) (filterOper f) filterRegex right)\<rparr>)) l)"

text \<open>The walk: a rule is entered, its children are walked, and it is left.\<close>

definition walkFilter :: "regex_engine \<Rightarrow> context_id \<Rightarrow> filter_context \<Rightarrow> (listener, unit) prog" where
  "walkFilter regex ctx f = andThen (enterColumn (filterColumn f)) (\<lambda>_. exitFilter regex ctx f)"

primrec walkExpr :: "regex_engine \<Rightarrow> expr_context \<Rightarrow> context_id \<Rightarrow> (listener, unit) prog" where
  "walkExpr regex (FilterExpr f) ctx = andThen (enterExpr ctx (FilterExpr f)) (\<lambda>_. walkFilter regex (ctx @ [0]) f)"
| "walkExpr regex (LogicalExpr left oper right) ctx =
     andThen (enterExpr ctx (LogicalExpr left oper right)) (\<lambda>_.
     andThen (walkExpr regex left (ctx @ [0])) (\<lambda>_. walkExpr regex right (ctx @ [1])))"

section \<open>Predicates at work\<close>

definition applyFilter :: "regex_engine \<Rightarrow> oper \<Rightarrow> compiled_regex option \<Rightarrow> string \<Rightarrow> string \<Rightarrow> bool" where
  "applyFilter regex oper filterRegex right left =
     (let result = (case filterRegex of
            Some r \<Rightarrow> regexSearch regex r left
          | None \<Rightarrow> (case oper of NOT_EQUAL \<Rightarrow> left \<noteq> right | STARTS_WITH b \<Rightarrow> prefix right left
              | ENDS_WITH b \<Rightarrow> suffix right left | _ \<Rightarrow> left = right))
      in if operNOT oper then \<not> result else result)"

text \<open>A context without a predicate counts as false.\<close>

partial_function (option) invokePredicate ::
  "(string \<Rightarrow> string result option) \<Rightarrow> regex_engine \<Rightarrow> (context_id \<rightharpoonup> row_predicate) \<Rightarrow> context_id \<Rightarrow> bool result option" where
  "invokePredicate columnValue regex preds ctx = (case preds ctx of
       None \<Rightarrow> Some (Inr False)
     | Some (FilterPredicate column oper filterRegex right) \<Rightarrow>
         Option.bind (columnValue column) (\<lambda>v. case v of
             Inl e \<Rightarrow> Some (Inl e) | Inr left \<Rightarrow> Some (Inr (applyFilter regex oper filterRegex right left)))
     | Some (ExprFilter f) \<Rightarrow> invokePredicate columnValue regex preds f
     | Some (ExprLogical l oper r) \<Rightarrow>
         Option.bind (invokePredicate columnValue regex preds l) (\<lambda>v. case v of
             Inl e \<Rightarrow> Some (Inl e)
           | Inr left \<Rightarrow> if oper = LogicalAnd then (if \<not> left then Some (Inr False) else invokePredicate columnValue regex preds r)
               else (if left then Some (Inr True) else invokePredicate columnValue regex preds r)))"

declare invokePredicate.simps [code]

definition whereHolds :: "(u8 \<Rightarrow> string) \<Rightarrow> regex_engine \<Rightarrow> listener \<Rightarrow> nat \<Rightarrow> table_row \<Rightarrow> bool result option" where
  "whereHolds datetime regex l j r = (case whereContext l of
       None \<Rightarrow> Some (Inr True)
     | Some ctx \<Rightarrow> invokePredicate (getColumnValue datetime (listenerDb l) j (rowId r)) regex (rulePredicates l) ctx)"

section \<open>Statements\<close>

text \<open>
  \<^verbatim>\<open>Table::list\<close> prints the name of the table, the column names and the accepted rows.  The line with
  the numbers of rows and the times is left out.
\<close>

definition tableList ::
  "(u8 \<Rightarrow> string) \<Rightarrow> u4 \<Rightarrow> database \<Rightarrow> nat \<Rightarrow> (table_row \<Rightarrow> bool result option) \<Rightarrow> bool \<Rightarrow> string list result option" where
  "tableList datetime hardwareThreads db j func displayRaw =
     (let t = tbl (dbTables db ! j) in
      bindO (listRows hardwareThreads func t) (\<lambda>chunks.
      bindO (mapO (\<lambda>a. bindO (Some (cellRow t a)) (generateStdOutRow datetime db j displayRaw)) (concat chunks)) (\<lambda>lines.
      Some (Inr ([''table: '' @ layoutName t, generateStdOutHeader t] @ lines)))))"

definition exitList :: "(u8 \<Rightarrow> string) \<Rightarrow> regex_engine \<Rightarrow> u4 \<Rightarrow> bool \<Rightarrow> listener \<Rightarrow> string list result option" where
  "exitList datetime regex hardwareThreads displayRaw l =
     (if semanticErrors l = [] then (case mainTable l of
          None \<Rightarrow> Some (Inl Undefined)
        | Some j \<Rightarrow> tableList datetime hardwareThreads (listenerDb l) j (whereHolds datetime regex l j) displayRaw)
      else Some (Inr (semanticErrors l)))"

text \<open>\<^verbatim>\<open>Table::printLayout\<close>; the number of rows is computed from the size of the table file.\<close>

definition setw :: "nat \<Rightarrow> string \<Rightarrow> string" where
  "setw n s = replicate (n - length s) CHR '' '' @ s"

definition getFileSize :: "file_system \<Rightarrow> table \<Rightarrow> nat result" where
  "getFileSize fs t = (case fs (tableFilename t) of
       None \<Rightarrow> Inl (FilesystemError ''file_size'') | Some content \<Rightarrow> Inr (length content))"

definition calculateRowCount :: "file_system \<Rightarrow> table \<Rightarrow> nat result" where
  "calculateRowCount fs t =
     bindR (getFileSize fs t) (\<lambda>n. if rowSize t = 0 then Inl Undefined
       else Inr (unat (of_nat n - of_nat (getHeaderSize t) :: u8) div rowSize t))"

definition columnLine :: "nat \<Rightarrow> properties \<Rightarrow> string" where
  "columnLine index p = setw 7 (''no: '' @ natToString index @ '', '') @ setw 25 (''name: '' @ columnName p @ '', '') @
     setw 25 (''type: '' @ StorageTypeToString (columnType p) @ '', '') @ setw 25 (''display as: '' @ displayAsToString (displayAs p))"

definition printLayout :: "file_system \<Rightarrow> table \<Rightarrow> string list result" where
  "printLayout fs t = bindR (calculateRowCount fs t) (\<lambda>rows. Inr (
     [[], ''table name: '' @ layoutName t, ''column count: '' @ natToString (unat (columnCount t)),
      ''row count: '' @ natToString rows, [], ''columns:''] @
     map (\<lambda>(i, p). columnLine i p) (zip [0..<length (tableColumns t)] (tableColumns t))))"

definition printSchema :: "file_system \<Rightarrow> database \<Rightarrow> string list result" where
  "printSchema fs db = bindR (mapR (\<lambda>j. printLayout fs (tbl (dbTables db ! j))) (map snd (tablesByName db))) (\<lambda>ls. Inr (concat ls))"

definition walkList ::
  "(u8 \<Rightarrow> string) \<Rightarrow> regex_engine \<Rightarrow> u4 \<Rightarrow> file_system \<Rightarrow> nat \<Rightarrow> bool \<Rightarrow> string \<Rightarrow> expr_context option \<Rightarrow> database \<Rightarrow> string list result option" where
  "walkList datetime regex hardwareThreads fs block displayRaw tablename whereExpr db =
     (case andThen (enterList fs block tablename) (\<lambda>_. case whereExpr of
           None \<Rightarrow> ret () | Some e \<Rightarrow> andThen (enterWhere [0]) (\<lambda>_. walkExpr regex e [0])) (newListener db) of
        (Inl e, l) \<Rightarrow> Some (Inl e)
      | (Inr _, l) \<Rightarrow> exitList datetime regex hardwareThreads displayRaw l)"

text \<open>\<^verbatim>\<open>Engine::execute\<close>: the printed lines and whether the query was executed.\<close>

definition execute ::
  "(string \<Rightarrow> statement_context option) \<Rightarrow> (u8 \<Rightarrow> string) \<Rightarrow> regex_engine \<Rightarrow> u4 \<Rightarrow> file_system \<Rightarrow> nat \<Rightarrow> bool \<Rightarrow> database \<Rightarrow> string \<Rightarrow>
   (string list \<times> bool) result option" where
  "execute parser datetime regex hardwareThreads fs block displayRaw db query = (case parser query of
       None \<Rightarrow> Some (Inr ([''Query error''], False))
     | Some SchemaStatement \<Rightarrow> bindO (Some (printSchema fs db)) (\<lambda>ls. Some (Inr (ls, True)))
     | Some (ListStatement tablename whereExpr) \<Rightarrow>
         bindO (walkList datetime regex hardwareThreads fs block displayRaw tablename whereExpr db) (\<lambda>ls. Some (Inr (ls, True))))"

section \<open>What an expression means\<close>

definition literal :: "filter_context \<Rightarrow> string" where
  "literal f = (case sanitize (escapedString f) of Some s \<Rightarrow> s | None \<Rightarrow> [])"

definition regexOf :: "filter_context \<Rightarrow> compiled_regex" where
  "regexOf f = (let s = literal f in if suffix caseInsensitiveSuffix s then (take (length s - 2) s, True) else (s, False))"

definition filterMatches :: "regex_engine \<Rightarrow> filter_context \<Rightarrow> string \<Rightarrow> bool" where
  "filterMatches regex f left = (case filterOper f of
       REGEX \<Rightarrow> regexSearch regex (regexOf f) left
     | EQUAL \<Rightarrow> left = literal f
     | NOT_EQUAL \<Rightarrow> left \<noteq> literal f
     | STARTS_WITH negated \<Rightarrow> prefix (literal f) left \<noteq> negated
     | ENDS_WITH negated \<Rightarrow> suffix (literal f) left \<noteq> negated)"

primrec satisfies :: "regex_engine \<Rightarrow> (string \<Rightarrow> string) \<Rightarrow> expr_context \<Rightarrow> bool" where
  "satisfies regex val (FilterExpr f) = filterMatches regex f (val (filterColumn f))"
| "satisfies regex val (LogicalExpr l oper r) =
     (if oper = LogicalAnd then satisfies regex val l \<and> satisfies regex val r else satisfies regex val l \<or> satisfies regex val r)"

primrec filtersOf :: "expr_context \<Rightarrow> filter_context list" where
  "filtersOf (FilterExpr f) = [f]"
| "filtersOf (LogicalExpr l oper r) = filtersOf l @ filtersOf r"

definition regexesOf :: "expr_context \<Rightarrow> compiled_regex set" where
  "regexesOf e = regexOf ` {f \<in> set (filtersOf e). filterOper f = REGEX}"

text \<open>One pattern is not used with both settings of its case flag.\<close>

definition oneFlag :: "compiled_regex set \<Rightarrow> bool" where
  "oneFlag R \<longleftrightarrow> (\<forall>r\<in>R. \<forall>s\<in>R. fst r = fst s \<longrightarrow> r = s)"

definition columnErrors :: "table \<Rightarrow> expr_context \<Rightarrow> string list" where
  "columnErrors t e = map (\<lambda>f. ''Invalid column name: '' @ filterColumn f) (filter (\<lambda>f. \<not> isValidColumn t (filterColumn f)) (filtersOf e))"

lemma sanitize_total: "\<exists>s. sanitize v = Some s"
  unfolding sanitize_def using replaceAll_correct by simp

lemma sanitize_literal: "sanitize (escapedString f) = Some (literal f)"
  using sanitize_total [of "escapedString f"] by (auto simp: literal_def)

section \<open>The walk\<close>

definition filterPredicate :: "filter_context \<Rightarrow> row_predicate" where
  "filterPredicate f = FilterPredicate (filterColumn f) (filterOper f)
     (if filterOper f = REGEX then Some (regexOf f) else None) (if filterOper f = REGEX then fst (regexOf f) else literal f)"

fun represents :: "(context_id \<rightharpoonup> row_predicate) \<Rightarrow> expr_context \<Rightarrow> context_id \<Rightarrow> bool" where
  "represents preds (FilterExpr f) ctx \<longleftrightarrow> preds ctx = Some (ExprFilter (ctx @ [0])) \<and> preds (ctx @ [0]) = Some (filterPredicate f)"
| "represents preds (LogicalExpr l oper r) ctx \<longleftrightarrow> preds ctx = Some (ExprLogical (ctx @ [0]) oper (ctx @ [1])) \<and>
     represents preds l (ctx @ [0]) \<and> represents preds r (ctx @ [1])"

lemma represents_cong: "(\<And>c. prefix ctx c \<Longrightarrow> preds' c = preds c) \<Longrightarrow> represents preds' e ctx = represents preds e ctx"
proof (induction e arbitrary: ctx)
  case (LogicalExpr l oper r)
  have "prefix ctx c" if "prefix (ctx @ [i]) c" for c i using that by (meson append_prefixD)
  then show ?case using LogicalExpr by simp
qed simp

text \<open>The caches only repeat what would be computed.\<close>

definition cachesOk :: "compiled_regex set \<Rightarrow> listener \<Rightarrow> bool" where
  "cachesOk R l \<longleftrightarrow> (\<forall>v s. sanitizedStringCache l v = Some s \<longrightarrow> sanitize v = Some s) \<and>
     (\<forall>p r. regexCache l p = Some r \<longrightarrow> r \<in> R \<and> fst r = p)"

definition walked :: "compiled_regex set \<Rightarrow> table \<Rightarrow> listener \<Rightarrow> expr_context \<Rightarrow> context_id \<Rightarrow> listener \<Rightarrow> bool" where
  "walked R t l e ctx l' \<longleftrightarrow> listenerDb l' = listenerDb l \<and> mainTable l' = mainTable l \<and> whereContext l' = whereContext l \<and>
     semanticErrors l' = semanticErrors l @ columnErrors t e \<and> cachesOk R l' \<and>
     represents (rulePredicates l') e ctx \<and> (\<forall>c. \<not> prefix ctx c \<longrightarrow> rulePredicates l' c = rulePredicates l c)"

lemma getRegex_cached:
  assumes "cachesOk R l" "oneFlag R" "(p, b) \<in> R" "\<forall>r\<in>R. regexValid regex r"
  shows "\<exists>c. getRegex regex p b l = (Inr (p, b), l\<lparr>regexCache := c\<rparr>) \<and> cachesOk R (l\<lparr>regexCache := c\<rparr>)"
proof (cases "regexCache l p")
  case None
  then show ?thesis using assms
    by (intro exI [of _ "(regexCache l)(p \<mapsto> (p, b))"]) (simp add: getRegex_def cachesOk_def)
next
  case (Some r)
  have "r \<in> R" "fst r = p" using assms(1) Some unfolding cachesOk_def by blast+
  then have "r = (p, b)" using assms(2,3) unfolding oneFlag_def by fastforce
  then show ?thesis using Some assms(1) by (intro exI [of _ "regexCache l"]) (simp add: getRegex_def)
qed

lemma getSanitized_cached:
  assumes "cachesOk R l"
  shows "\<exists>c. getSanitizedString (escapedString f) l = Some (literal f, l\<lparr>sanitizedStringCache := c\<rparr>) \<and>
    cachesOk R (l\<lparr>sanitizedStringCache := c\<rparr>)"
proof (cases "sanitizedStringCache l (escapedString f)")
  case None
  then show ?thesis using assms
    by (intro exI [of _ "(sanitizedStringCache l)(escapedString f \<mapsto> literal f)"])
      (simp add: getSanitizedString_def sanitize_literal cachesOk_def)
next
  case (Some s)
  then have "s = literal f" using assms sanitize_literal [of f] by (auto simp: cachesOk_def)
  then show ?thesis using Some assms by (intro exI [of _ "sanitizedStringCache l"]) (simp add: getSanitizedString_def)
qed

lemma walkFilter_ok:
  assumes "cachesOk R l" "mainTable l = Some j" "t = tbl (dbTables (listenerDb l) ! j)" "oneFlag R" "\<forall>r\<in>R. regexValid regex r"
    and "filterOper f = REGEX \<longrightarrow> regexOf f \<in> R"
  shows "\<exists>c d. let l' = l\<lparr>regexCache := c, sanitizedStringCache := d, semanticErrors := semanticErrors l @ columnErrors t (FilterExpr f),
      rulePredicates := (rulePredicates l)(ctx \<mapsto> filterPredicate f)\<rparr>
    in walkFilter regex ctx f l = (Inr (), l') \<and> cachesOk R l'"
proof -
  let ?l1 = "l\<lparr>semanticErrors := semanticErrors l @ columnErrors t (FilterExpr f)\<rparr>"
  have col: "enterColumn (filterColumn f) l = (Inr (), ?l1)"
    using assms(2,3) by (simp add: enterColumn_def semanticError_def columnErrors_def)
  have "cachesOk R ?l1" using assms(1) by (simp add: cachesOk_def)
  from getSanitized_cached [OF this, of f] obtain d where d:
    "getSanitizedString (escapedString f) ?l1 = Some (literal f, ?l1\<lparr>sanitizedStringCache := d\<rparr>)"
    "cachesOk R (?l1\<lparr>sanitizedStringCache := d\<rparr>)" by blast
  show ?thesis
  proof (cases "filterOper f = REGEX")
    case False
    with col d show ?thesis
      by (intro exI [of _ "regexCache l"] exI [of _ d]) (simp add: walkFilter_def exitFilter_def cachesOk_def filterPredicate_def)
  next
    case True
    let ?r = "regexOf f"
    have "(fst ?r, snd ?r) \<in> R" using assms(6) True by simp
    from getRegex_cached [OF d(2) assms(4) this assms(5)] obtain c where c:
      "getRegex regex (fst ?r) (snd ?r) (?l1\<lparr>sanitizedStringCache := d\<rparr>) = (Inr ?r, ?l1\<lparr>sanitizedStringCache := d, regexCache := c\<rparr>)"
      "cachesOk R (?l1\<lparr>sanitizedStringCache := d, regexCache := c\<rparr>)" by auto
    have "exitFilter regex ctx f ?l1 =
        (Inr (), l\<lparr>regexCache := c, sanitizedStringCache := d, semanticErrors := semanticErrors l @ columnErrors t (FilterExpr f),
          rulePredicates := (rulePredicates l)(ctx \<mapsto> filterPredicate f)\<rparr>)"
      using d(1) c(1) True by (simp add: exitFilter_def regexOf_def filterPredicate_def Let_def split: if_splits)
    then show ?thesis using col c(2)
      by (intro exI [of _ c] exI [of _ d]) (simp add: walkFilter_def cachesOk_def)
  qed
qed

lemma walkExpr_ok:
  assumes "cachesOk R l" "mainTable l = Some j" "t = tbl (dbTables (listenerDb l) ! j)" "oneFlag R" "\<forall>r\<in>R. regexValid regex r"
    and "regexesOf e \<subseteq> R"
  shows "\<exists>l'. walkExpr regex e ctx l = (Inr (), l') \<and> walked R t l e ctx l'"
  using assms
proof (induction e arbitrary: l ctx)
  case (FilterExpr f)
  let ?l = "l\<lparr>rulePredicates := (rulePredicates l)(ctx \<mapsto> ExprFilter (ctx @ [0]))\<rparr>"
  have "filterOper f = REGEX \<longrightarrow> regexOf f \<in> R" using FilterExpr.prems(6) by (auto simp: regexesOf_def)
  moreover have "cachesOk R ?l" using FilterExpr.prems(1) by (simp add: cachesOk_def)
  ultimately obtain c d where "let l' = ?l\<lparr>regexCache := c, sanitizedStringCache := d,
        semanticErrors := semanticErrors ?l @ columnErrors t (FilterExpr f), rulePredicates := (rulePredicates ?l)(ctx @ [0] \<mapsto> filterPredicate f)\<rparr>
      in walkFilter regex (ctx @ [0]) f ?l = (Inr (), l') \<and> cachesOk R l'"
    using walkFilter_ok [of R ?l j t regex f "ctx @ [0]"] FilterExpr.prems by auto
  then show ?case by (auto simp: enterExpr_def walked_def Let_def)
next
  case (LogicalExpr el oper er)
  let ?l = "l\<lparr>rulePredicates := (rulePredicates l)(ctx \<mapsto> ExprLogical (ctx @ [0]) oper (ctx @ [1]))\<rparr>"
  have R: "regexesOf el \<subseteq> R" "regexesOf er \<subseteq> R" using LogicalExpr.prems(6) by (auto simp: regexesOf_def)
  have "cachesOk R ?l" using LogicalExpr.prems(1) by (simp add: cachesOk_def)
  from LogicalExpr.IH(1) [OF this _ _ LogicalExpr.prems(4,5) R(1), of "ctx @ [0]"] LogicalExpr.prems
  obtain l1 where l1: "walkExpr regex el (ctx @ [0]) ?l = (Inr (), l1)" "walked R t ?l el (ctx @ [0]) l1" by auto
  from LogicalExpr.IH(2) [OF _ _ _ LogicalExpr.prems(4,5) R(2), of l1 "ctx @ [1]"] LogicalExpr.prems l1(2)
  obtain l2 where l2: "walkExpr regex er (ctx @ [1]) l1 = (Inr (), l2)" "walked R t l1 er (ctx @ [1]) l2" by (auto simp: walked_def)
  have "\<not> prefix (ctx @ [1]) c" if "prefix (ctx @ [0]) c" for c :: "nat list"
    using that by (auto simp: prefix_def)
  then have "represents (rulePredicates l2) el (ctx @ [0])"
    using l1(2) l2(2) represents_cong [of "ctx @ [0]" "rulePredicates l2" "rulePredicates l1"] by (simp add: walked_def)
  moreover have "rulePredicates l2 c = rulePredicates l c" if "\<not> prefix ctx c" for c
  proof -
    have "\<not> prefix (ctx @ [i]) c" "c \<noteq> ctx" for i using that append_prefixD by auto
    then show ?thesis using l1(2) l2(2) by (simp add: walked_def)
  qed
  moreover have "rulePredicates l2 ctx = Some (ExprLogical (ctx @ [0]) oper (ctx @ [1]))"
  proof -
    have "\<not> prefix (ctx @ [i]) ctx" for i by (simp add: prefix_def)
    then show ?thesis using l1(2) l2(2) by (simp add: walked_def)
  qed
  ultimately show ?case using l1 l2 by (simp add: enterExpr_def walked_def columnErrors_def)
qed

section \<open>Predicates compute the meaning\<close>

lemma applyFilter_matches:
  "applyFilter regex (filterOper f) (if filterOper f = REGEX then Some (regexOf f) else None)
     (if filterOper f = REGEX then fst (regexOf f) else literal f) left = filterMatches regex f left"
  by (cases "filterOper f") (auto simp: applyFilter_def filterMatches_def)

lemma invoke_satisfies:
  assumes "represents preds e ctx" "\<forall>f\<in>set (filtersOf e). columnValue (filterColumn f) = Some (Inr (val (filterColumn f)))"
  shows "invokePredicate columnValue regex preds ctx = Some (Inr (satisfies regex val e))"
  using assms
proof (induction e arbitrary: ctx)
  case (FilterExpr f)
  then show ?case using applyFilter_matches [of regex f]
    by (subst invokePredicate.simps, simp, subst invokePredicate.simps) (simp add: filterPredicate_def)
next
  case (LogicalExpr el oper er)
  then show ?case by (subst invokePredicate.simps) (cases oper, auto)
qed

lemma mapO_lines:
  assumes "mapR (cellRow t) as = Inr rs" "\<forall>r\<in>set rs. show r = Some (Inr (line r))"
  shows "mapO (\<lambda>a. bindO (Some (cellRow t a)) show) as = Some (Inr (map line rs))"
  using assms by (induction as arbitrary: rs) (auto simp: bindR_Inr_iff)

text \<open>
  A parsed query lists exactly the rows it asks for: the rows of the table that are not deleted and
  satisfy the \<^verbatim>\<open>where\<close> expression, in the order of their identifiers, on any number of threads,
  whatever the nesting of the expression and however often a literal or a pattern occurs in it.
  A pattern is not used both with and without its case flag.
\<close>

lemma query_lists_rows:
  assumes "parser query = Some (ListStatement tablename (Some e))"
    and "dbRead fs block db = (Inr ok, db')" "getTable db' tablename = Some j"
    and "t = tbl (dbTables db' ! j)" "tableRep key t rs ks" "length rs < 2 ^ 32"
    and "\<forall>f\<in>set (filtersOf e). isValidColumn t (filterColumn f)"
    and "oneFlag (regexesOf e)" "\<forall>r\<in>regexesOf e. regexValid regex r"
    and "\<forall>r\<in>set rs. \<not> isDeleted r \<longrightarrow>
      (\<forall>f\<in>set (filtersOf e). getColumnValue datetime db' j (rowId r) (filterColumn f) = Some (Inr (val r (filterColumn f)))) \<and>
      generateStdOutRow datetime db' j displayRaw r = Some (Inr (line r))"
  shows "execute parser datetime regex hardwareThreads fs block displayRaw db query =
    Some (Inr ([''table: '' @ layoutName t, generateStdOutHeader t] @
      map line (filter (\<lambda>r. \<not> isDeleted r \<and> satisfies regex (val r) e) rs), True))"
proof -
  let ?l = "(newListener db)\<lparr>listenerDb := db', mainTable := Some j, whereContext := Some [0]\<rparr>"
  have list: "andThen (enterList fs block tablename) (\<lambda>_. enterWhere [0]) (newListener db) = (Inr (), ?l)"
    using assms(2,3) by (simp add: enterList_def enterWhere_def onDb_def newListener_def)
  have "cachesOk (regexesOf e) ?l" by (simp add: cachesOk_def newListener_def)
  from walkExpr_ok [OF this _ _ assms(8,9) order_refl, of j t] assms(4)
  obtain l' where l': "walkExpr regex e [0] ?l = (Inr (), l')" "walked (regexesOf e) t ?l e [0] l'" by auto
  have none: "columnErrors t e = []" using assms(7) by (simp add: columnErrors_def)
  have db: "listenerDb l' = db'" "mainTable l' = Some j" "whereContext l' = Some [0]" "semanticErrors l' = []"
    "represents (rulePredicates l') e [0]"
    using l'(2) none by (simp_all add: walked_def newListener_def)
  have "whereHolds datetime regex l' j r = Some (Inr (satisfies regex (val r) e))" if "r \<in> set rs" "\<not> isDeleted r" for r
    using assms(10) that db invoke_satisfies [OF db(5), of "getColumnValue datetime db' j (rowId r)" "val r"] by (simp add: whereHolds_def)
  then have "\<forall>r\<in>set rs. \<not> isDeleted r \<longrightarrow> whereHolds datetime regex l' j r = Some (Inr (satisfies regex (val r) e))" by blast
  from listRows_ok [OF assms(5,6) this, of hardwareThreads] obtain out where out:
    "listRows hardwareThreads (whereHolds datetime regex l' j) t = Some (Inr out)"
    "mapR (cellRow t) (concat out) = Inr (filter (\<lambda>r. \<not> isDeleted r \<and> satisfies regex (val r) e) rs)" by blast
  have "mapO (\<lambda>a. bindO (Some (cellRow t a)) (generateStdOutRow datetime db' j displayRaw)) (concat out) =
      Some (Inr (map line (filter (\<lambda>r. \<not> isDeleted r \<and> satisfies regex (val r) e) rs)))"
    by (rule mapO_lines [OF out(2)]) (use assms(10) in auto)
  then have "exitList datetime regex hardwareThreads displayRaw l' =
      Some (Inr ([''table: '' @ layoutName t, generateStdOutHeader t] @
        map line (filter (\<lambda>r. \<not> isDeleted r \<and> satisfies regex (val r) e) rs)))"
    using out(1) assms(4) db by (simp add: exitList_def tableList_def Let_def)
  moreover have "walkList datetime regex hardwareThreads fs block displayRaw tablename (Some e) db =
      exitList datetime regex hardwareThreads displayRaw l'"
    using list l'(1) by (simp add: walkList_def andThen_assoc [symmetric])
  ultimately show ?thesis using assms(1) by (simp add: execute_def)
qed

text \<open>(C38)
  A query of a table that exists with columns that do not lists nothing: it prints one line for every
  filter on a column the table does not have, in the order of the expression, and no header or row.
  The patterns of the expression are valid, and none is used both with and without its case flag.
\<close>

theorem query_semantic_errors:
  assumes "parser query = Some (ListStatement tablename (Some e))" "dbRead fs block db = (Inr ok, db')"
    and "oneFlag (regexesOf e)" "\<forall>r\<in>regexesOf e. regexValid regex r"
    and "getTable db' tablename = Some j" "t = tbl (dbTables db' ! j)"
    and "\<exists>f\<in>set (filtersOf e). \<not> isValidColumn t (filterColumn f)"
  shows "execute parser datetime regex hardwareThreads fs block displayRaw db query =
    Some (Inr (map (\<lambda>f. ''Invalid column name: '' @ filterColumn f) (filter (\<lambda>f. \<not> isValidColumn t (filterColumn f)) (filtersOf e)), True))"
proof -
  let ?l = "(newListener db)\<lparr>listenerDb := db', mainTable := Some j, whereContext := Some [0]\<rparr>"
  have list: "andThen (enterList fs block tablename) (\<lambda>_. enterWhere [0]) (newListener db) = (Inr (), ?l)"
    using assms(2,5) by (simp add: enterList_def enterWhere_def onDb_def newListener_def)
  have "cachesOk (regexesOf e) ?l" by (simp add: cachesOk_def newListener_def)
  from walkExpr_ok [OF this _ _ assms(3,4) order_refl, of j t] assms(6)
  obtain l' where l': "walkExpr regex e [0] ?l = (Inr (), l')" "walked (regexesOf e) t ?l e [0] l'" by auto
  then have errs: "semanticErrors l' = columnErrors t e" by (simp add: walked_def newListener_def)
  moreover have "columnErrors t e \<noteq> []" using assms(7) by (auto simp: columnErrors_def filter_empty_conv)
  ultimately have "exitList datetime regex hardwareThreads displayRaw l' = Some (Inr (columnErrors t e))" by (simp add: exitList_def)
  moreover have "walkList datetime regex hardwareThreads fs block displayRaw tablename (Some e) db =
      exitList datetime regex hardwareThreads displayRaw l'"
    using list l'(1) by (simp add: walkList_def andThen_assoc [symmetric])
  ultimately show ?thesis using assms(1) by (simp add: execute_def columnErrors_def)
qed

section \<open>Quotation marks\<close>

lemma replaceSpec_head: "old \<noteq> [] \<Longrightarrow> hd old \<noteq> c \<Longrightarrow> replaceSpec old new (c # s) = c # replaceSpec old new s"
  by (subst replaceSpec.simps) (cases old, auto)

text \<open>A literal in double quotation marks, which the grammar and the manual allow, keeps them: only
  single quotation marks are removed.  So a filter that compares a column with such a literal
  accepts no value but one that itself begins with a quotation mark.
\<close>

lemma double_quoted_literal:
  assumes "escapedString f = dq # s @ [dq]" "dq = CHR 0x22" "length s < 2 ^ 62"
  shows "(\<exists>u. literal f = dq # u) \<and>
    (filterOper f = EQUAL \<or> filterOper f = STARTS_WITH False \<longrightarrow> filterMatches regex f value \<longrightarrow> (\<exists>u. value = dq # u))"
proof -
  have "length (escapedString f) < 2 ^ 63" using assms by simp
  from trim_correct [OF this] have "trim (escapedString f) [CHR 0x27] = escapedString f" using assms by simp
  then have "literal f = replaceSpec [backslash, backslash] [backslash] (dq # s @ [dq])"
    using sanitize_literal [of f] assms(1) by (simp add: sanitize_def replaceAll_correct)
  moreover have "backslash \<noteq> dq" using assms(2) by (simp add: backslash_def)
  ultimately obtain u where "literal f = dq # u" using replaceSpec_head [of "[backslash, backslash]" dq] by simp
  then show ?thesis by (auto simp: filterMatches_def prefix_def)
qed

text \<open>A pattern that has been compiled for one filter is used for every later one, whatever its flag.\<close>

lemma regex_flag_lost:
  assumes "regexCache l p = Some r" shows "getRegex regex p isCaseInsensitive l = (Inr r, l)"
  using assms by (simp add: getRegex_def)

section \<open>The schema\<close>

text \<open>\<^verbatim>\<open>schema\<close> fails with an exception when the file of a table does not exist, which is so before
  anything has been written.
\<close>

lemma schema_needs_files:
  assumes "parser query = Some SchemaStatement" "(name, j) \<in> set (tablesByName db)" "fs (tableFilename (tbl (dbTables db ! j))) = None"
    and "\<forall>(n, k)\<in>set (tablesByName db). rowSize (tbl (dbTables db ! k)) \<noteq> 0"
  shows "execute parser datetime regex hardwareThreads fs block displayRaw db query = Some (Inl (FilesystemError ''file_size''))"
proof -
  let ?f = "\<lambda>j. printLayout fs (tbl (dbTables db ! j))"
  have "?f k = Inl (FilesystemError ''file_size'') \<or> (\<exists>z. ?f k = Inr z)" if "k \<in> set (map snd (tablesByName db))" for k
    using that assms(4) by (auto simp: printLayout_def calculateRowCount_def getFileSize_def split: option.split)
  moreover have "?f j = Inl (FilesystemError ''file_size'')"
    using assms(3) by (simp add: printLayout_def calculateRowCount_def getFileSize_def)
  ultimately have "mapR ?f (map snd (tablesByName db)) = Inl (FilesystemError ''file_size'')"
    using mapR_fault [of j "map snd (tablesByName db)" ?f] assms(2) by force
  then show ?thesis using assms(1) by (simp add: execute_def printSchema_def)
qed

section \<open>A query\<close>

definition idColumn :: properties where
  "idColumn = (case newProperties ''id'' UInt64 AsUInt64 8 of Inr p \<Rightarrow> p)"

definition sampleDb :: database where
  "sampleDb = (newDatabase [] 0)\<lparr>dbTables := [\<lparr>tbl = twoRows\<lparr>tableColumns := [idColumn], columnByName := [''id'' \<mapsto> 0], layoutName := ''t''\<rparr>,
       keyOf = (\<lambda>p lk r. Inr (map byteChar (rowBody r)))\<rparr>], tablesByName := [(''t'', 0)], wasRead := True\<rparr>"

definition sampleExpr :: expr_context where
  "sampleExpr = LogicalExpr (FilterExpr \<lparr>filterColumn = ''id'', filterOper = EQUAL, escapedString = [CHR 0x27, CHR ''0'', CHR 0x27]\<rparr>) LogicalOr
     (FilterExpr \<lparr>filterColumn = ''id'', filterOper = REGEX, escapedString = [CHR 0x27, CHR ''x'', CHR 0x27]\<rparr>)"

definition noRegex :: regex_engine where
  "noRegex = \<lparr>regexValid = (\<lambda>r. True), regexSearch = (\<lambda>r s. False)\<rparr>"

lemma sampleDb_facts:
  "dbRead fs block sampleDb = (Inr False, sampleDb)" "getTable sampleDb ''t'' = Some 0"
  "tbl (dbTables sampleDb ! 0) = twoRows\<lparr>tableColumns := [idColumn], columnByName := [''id'' \<mapsto> 0], layoutName := ''t''\<rparr>"
  by (simp_all add: dbRead_def sampleDb_def getTable_def)

lemma sampleDb_rep: "tableRep (\<lambda>r. Inr (map byteChar (rowBody r))) (tbl (dbTables sampleDb ! 0))
    [\<lparr>rowFlags = 0, rowId = 0, rowBody = [97]\<rparr>, \<lparr>rowFlags = 1, rowId = 1, rowBody = [98]\<rparr>] [[byteChar 97], [byteChar 98]]"
  using twoRows_rep by (simp add: sampleDb_facts tableRep_def)

lemma idColumn_eq: "offsetInRow idColumn = 8" "displayAs idColumn = AsUInt64" "columnName idColumn = ''id''"
  by (simp_all add: idColumn_def column_constructors)

lemma sample_bytes:
  "insideRow idColumn \<lparr>rowFlags = 0, rowId = 0, rowBody = [97]\<rparr>"
  "getU8 (columnBytes idColumn \<lparr>rowFlags = 0, rowId = 0, rowBody = [97]\<rparr>) = 0"
  by (simp_all add: idColumn_eq insideRow_def columnBytes_def putRow_def getU8_putU8)

lemma sample_plain: "valueToString datetime db raw idColumn \<lparr>rowFlags = 0, rowId = 0, rowBody = [97]\<rparr> = Some (Inr ''0'')"
proof -
  have "natToString 0 = ''0''" by code_simp
  then show ?thesis using sample_bytes by (simp add: valueToString_plain idColumn_eq plainValue_def)
qed

lemma sample_value: "getColumnValue datetime sampleDb 0 0 ''id'' = Some (Inr ''0'')"
  "generateStdOutRow datetime sampleDb 0 False \<lparr>rowFlags = 0, rowId = 0, rowBody = [97]\<rparr> = Some (Inr ''0'')"
proof -
  have "dbLookup sampleDb 0 0 = Inr \<lparr>rowFlags = 0, rowId = 0, rowBody = [97]\<rparr>"
    using lookup_rep [OF sampleDb_rep, of 0] by (simp add: dbLookup_def lookupRows_def sampleDb_def)
  then show "getColumnValue datetime sampleDb 0 0 ''id'' = Some (Inr ''0'')"
    using sample_plain by (simp add: getColumnValue_def columnAt_def sampleDb_facts)
  show "generateStdOutRow datetime sampleDb 0 False \<lparr>rowFlags = 0, rowId = 0, rowBody = [97]\<rparr> = Some (Inr ''0'')"
    using sample_plain by (simp add: generateStdOutRow_def sampleDb_facts addColumn_def)
qed

definition sampleParser :: "string \<Rightarrow> statement_context option" where
  "sampleParser q = (if q = ''schema'' then Some SchemaStatement else Some (ListStatement ''t'' (Some sampleExpr)))"

lemma sample_filters:
  "filtersOf sampleExpr = [\<lparr>filterColumn = ''id'', filterOper = EQUAL, escapedString = [CHR 0x27, CHR ''0'', CHR 0x27]\<rparr>,
     \<lparr>filterColumn = ''id'', filterOper = REGEX, escapedString = [CHR 0x27, CHR ''x'', CHR 0x27]\<rparr>]"
  by (simp add: sampleExpr_def)

lemma sample_literal: "literal \<lparr>filterColumn = ''id'', filterOper = EQUAL, escapedString = [CHR 0x27, CHR ''0'', CHR 0x27]\<rparr> = ''0''"
  by (simp add: literal_def sanitize_def trim_correct replaceAll_correct replaceSpec.simps backslash_def)

theorem query_semantic_errors_witness:
  "execute (\<lambda>_. Some (ListStatement ''t'' (Some (FilterExpr \<lparr>filterColumn = ''x'', filterOper = EQUAL, escapedString = []\<rparr>))))
     (\<lambda>_. []) noRegex 8 Map.empty 0 False sampleDb [] = Some (Inr ([''Invalid column name: x''], True))"
proof -
  let ?e = "FilterExpr \<lparr>filterColumn = ''x'', filterOper = EQUAL, escapedString = []\<rparr>"
  show ?thesis
    using query_semantic_errors [of "\<lambda>_. Some (ListStatement ''t'' (Some ?e))" "[]" "''t''" ?e Map.empty 0 sampleDb False sampleDb
        noRegex 0 "tbl (dbTables sampleDb ! 0)" "\<lambda>_. []" 8 False]
    by (simp add: sampleDb_facts oneFlag_def regexesOf_def isValidColumn_def)
qed

lemma double_quoted_literal_witness:
  "\<not> filterMatches noRegex \<lparr>filterColumn = ''id'', filterOper = EQUAL, escapedString = [CHR 0x22, CHR ''0'', CHR 0x22]\<rparr> ''0''"
  using double_quoted_literal [of "\<lparr>filterColumn = ''id'', filterOper = EQUAL, escapedString = [CHR 0x22, CHR ''0'', CHR 0x22]\<rparr>"
      "CHR 0x22" "''0''" noRegex "''0''"] by auto

lemma schema_needs_files_witness:
  "execute sampleParser (\<lambda>_. []) noRegex 8 Map.empty 0 False sampleDb ''schema'' = Some (Inl (FilesystemError ''file_size''))"
  using schema_needs_files [of sampleParser "''schema''" "''t''" 0 sampleDb Map.empty]
  by (simp add: sampleParser_def sampleDb_def twoRows_def)

end
