(* ===== verification/Query_Parser.thy ===== *)
theory Query_Parser
  imports Query
begin

text \<open>
  The parser of the query language
  (\<^verbatim>\<open>infrastructure/db/query/grammar/KapaQueryParser.cpp\<close>, generated from \<^verbatim>\<open>KapaQuery.g4\<close>): one
  definition per rule, over the token stream of the lexer.  None stands for a parse in which an
  error was reported, after which \<^verbatim>\<open>Engine::execute\<close> does not look at the tree.  The prediction
  of the ANTLR run-time library, \<^verbatim>\<open>adaptivePredict\<close>, and the lexer are parameters.
\<close>

section \<open>Tokens\<close>

datatype token =
    T__0 | T__1 | T__2 | T__3 | T__4 | T__5
  | TokNOT | TokNOT_EQUAL | TokEQUAL | TokREGEX | TokSTARTS_WITH | TokENDS_WITH | TokAND | TokOR
  | TokIdentifier string | TokEscapedString string

type_synonym 'a rule = "token list \<Rightarrow> ('a \<times> token list) option"
type_synonym predictor = "token list \<Rightarrow> nat option"

text \<open>\<^verbatim>\<open>_input->LA(1)\<close>; None is EOF.  \<^verbatim>\<open>match(t)\<close>: another token is reported as an error.\<close>

definition LA :: "token list \<Rightarrow> token option" where
  "LA ts = (case ts of [] \<Rightarrow> None | x # xs \<Rightarrow> Some x)"

definition matchToken :: "token \<Rightarrow> token list \<Rightarrow> token list option" where
  "matchToken t ts = (case ts of x # xs \<Rightarrow> if x = t then Some xs else None | [] \<Rightarrow> None)"

definition matchIdentifier :: "string rule" where
  "matchIdentifier ts = (case ts of TokIdentifier s # xs \<Rightarrow> Some (s, xs) | _ \<Rightarrow> None)"

definition matchEscapedString :: "string rule" where
  "matchEscapedString ts = (case ts of TokEscapedString s # xs \<Rightarrow> Some (s, xs) | _ \<Rightarrow> None)"

section \<open>Rules\<close>

definition tablenameRule :: "string rule" where
  "tablenameRule = matchIdentifier"

definition columnRule :: "string rule" where
  "columnRule = matchIdentifier"

text \<open>The optional \<^verbatim>\<open>not\<close> of alternatives 4 and 5.\<close>

definition optionalNot :: "token \<Rightarrow> (bool \<Rightarrow> oper) \<Rightarrow> oper rule" where
  "optionalNot t op ts = (case ts of
       TokNOT # xs \<Rightarrow> map_option (Pair (op True)) (matchToken t xs)
     | _ \<Rightarrow> map_option (Pair (op False)) (matchToken t ts))"

text \<open>
  \<^verbatim>\<open>default: break;\<close> leaves a context without a token, which the listener treats as equality.
\<close>

definition operRule :: "predictor \<Rightarrow> oper rule" where
  "operRule adaptivePredict ts = (case adaptivePredict ts of
       None \<Rightarrow> None
     | Some alt \<Rightarrow>
         if alt = 1 then map_option (Pair REGEX) (matchToken TokREGEX ts)
         else if alt = 2 then map_option (Pair EQUAL) (matchToken TokEQUAL ts)
         else if alt = 3 then map_option (Pair NOT_EQUAL) (matchToken TokNOT_EQUAL ts)
         else if alt = 4 then optionalNot TokSTARTS_WITH STARTS_WITH ts
         else if alt = 5 then optionalNot TokENDS_WITH ENDS_WITH ts
         else Some (EQUAL, ts))"

definition logicalOperRule :: "logical_oper rule" where
  "logicalOperRule ts = (case ts of TokAND # xs \<Rightarrow> Some (LogicalAnd, xs) | TokOR # xs \<Rightarrow> Some (LogicalOr, xs) | _ \<Rightarrow> None)"

definition filterRule :: "predictor \<Rightarrow> filter_context rule" where
  "filterRule adaptivePredict ts =
     Option.bind (columnRule ts) (\<lambda>(c, ts). Option.bind (operRule adaptivePredict ts) (\<lambda>(op, ts).
     Option.bind (matchEscapedString ts) (\<lambda>(s, ts). Some (\<lparr>filterColumn = c, filterOper = op, escapedString = s\<rparr>, ts))))"

text \<open>
  Every nested expression consumes at least its parenthesis, so a fuel of the number of tokens is
  enough: \<open>expr_complete\<close> below.
\<close>

fun exprRule :: "predictor \<Rightarrow> nat \<Rightarrow> expr_context rule" where
  "exprRule adaptivePredict 0 ts = None"
| "exprRule adaptivePredict (Suc n) ts = (case ts of
       TokIdentifier c # xs \<Rightarrow> map_option (\<lambda>(f, ts). (FilterExpr f, ts)) (filterRule adaptivePredict ts)
     | T__4 # xs \<Rightarrow>
         Option.bind (exprRule adaptivePredict n xs) (\<lambda>(a, ts). Option.bind (logicalOperRule ts) (\<lambda>(op, ts).
         Option.bind (exprRule adaptivePredict n ts) (\<lambda>(b, ts). Option.bind (matchToken T__5 ts) (\<lambda>ts.
         Some (LogicalExpr a op b, ts)))))
     | _ \<Rightarrow> None)"

definition whereRule :: "predictor \<Rightarrow> expr_context rule" where
  "whereRule adaptivePredict ts = Option.bind (matchToken T__3 ts) (\<lambda>ts. exprRule adaptivePredict (length ts) ts)"

definition listRule :: "predictor \<Rightarrow> statement_context rule" where
  "listRule adaptivePredict ts =
     (if LA ts \<noteq> Some T__1 \<and> LA ts \<noteq> Some T__2 then None
      else Option.bind (tablenameRule (tl ts)) (\<lambda>(t, ts).
        if LA ts = Some T__3 then map_option (\<lambda>(e, ts). (ListStatement t (Some e), ts)) (whereRule adaptivePredict ts)
        else if LA ts = None then Some (ListStatement t None, ts)
        else None))"

definition schemaRule :: "statement_context rule" where
  "schemaRule ts = map_option (Pair SchemaStatement) (matchToken T__0 ts)"

definition statementRule :: "predictor \<Rightarrow> statement_context rule" where
  "statementRule adaptivePredict ts =
     (if LA ts = Some T__1 \<or> LA ts = Some T__2 then listRule adaptivePredict ts
      else if LA ts = Some T__0 then schemaRule ts
      else None)"

text \<open>\<^verbatim>\<open>query: statement;\<close> does not ask for the end of the input.\<close>

definition queryRule :: "predictor \<Rightarrow> token list \<Rightarrow> statement_context option" where
  "queryRule adaptivePredict ts = map_option fst (statementRule adaptivePredict ts)"

text \<open>
  The behaviour the rule for operators relies on: the alternative that matches the next tokens is
  predicted, and an alternative of the rule whenever one is.
\<close>

definition predictsOper :: "predictor \<Rightarrow> bool" where
  "predictsOper adaptivePredict \<longleftrightarrow>
     (\<forall>ts. adaptivePredict (TokREGEX # ts) = Some 1 \<and> adaptivePredict (TokEQUAL # ts) = Some 2 \<and>
       adaptivePredict (TokNOT_EQUAL # ts) = Some 3 \<and> adaptivePredict (TokSTARTS_WITH # ts) = Some 4 \<and>
       adaptivePredict (TokENDS_WITH # ts) = Some 5 \<and> adaptivePredict (TokNOT # TokSTARTS_WITH # ts) = Some 4 \<and>
       adaptivePredict (TokNOT # TokENDS_WITH # ts) = Some 5) \<and>
     (\<forall>ts alt. adaptivePredict ts = Some alt \<longrightarrow> 1 \<le> alt \<and> alt \<le> 5)"

section \<open>The language\<close>

fun operTokens :: "oper \<Rightarrow> token list" where
  "operTokens REGEX = [TokREGEX]"
| "operTokens EQUAL = [TokEQUAL]"
| "operTokens NOT_EQUAL = [TokNOT_EQUAL]"
| "operTokens (STARTS_WITH b) = (if b then [TokNOT] else []) @ [TokSTARTS_WITH]"
| "operTokens (ENDS_WITH b) = (if b then [TokNOT] else []) @ [TokENDS_WITH]"

fun logicalToken :: "logical_oper \<Rightarrow> token" where
  "logicalToken LogicalAnd = TokAND"
| "logicalToken LogicalOr = TokOR"

definition filterTokens :: "filter_context \<Rightarrow> token list" where
  "filterTokens f = TokIdentifier (filterColumn f) # operTokens (filterOper f) @ [TokEscapedString (escapedString f)]"

primrec exprTokens :: "expr_context \<Rightarrow> token list" where
  "exprTokens (FilterExpr f) = filterTokens f"
| "exprTokens (LogicalExpr a op b) = T__4 # exprTokens a @ [logicalToken op] @ exprTokens b @ [T__5]"

text \<open>\<open>select\<close>: the statement is written with the keyword \<^verbatim>\<open>select\<close>, which means \<^verbatim>\<open>list\<close>.\<close>

fun statementTokens :: "bool \<Rightarrow> statement_context \<Rightarrow> token list" where
  "statementTokens select SchemaStatement = [T__0]"
| "statementTokens select (ListStatement t whereExpr) = (if select then T__2 else T__1) # TokIdentifier t #
     (case whereExpr of None \<Rightarrow> [] | Some e \<Rightarrow> T__3 # exprTokens e)"

lemma LA_iff [simp]: "LA ts = None \<longleftrightarrow> ts = []" "LA ts = Some x \<longleftrightarrow> (\<exists>xs. ts = x # xs)" "LA (y # ys) = Some y"
  by (auto simp: LA_def split: list.splits)

lemma matchToken_iff [simp]: "matchToken t ts = Some rest \<longleftrightarrow> ts = t # rest"
  by (auto simp: matchToken_def split: list.splits if_splits)

lemma matchIdentifier_iff [simp]: "matchIdentifier ts = Some (s, rest) \<longleftrightarrow> ts = TokIdentifier s # rest"
  by (auto simp: matchIdentifier_def split: list.splits token.splits)

lemma matchEscapedString_iff [simp]: "matchEscapedString ts = Some (s, rest) \<longleftrightarrow> ts = TokEscapedString s # rest"
  by (auto simp: matchEscapedString_def split: list.splits token.splits)

lemma logicalOperRule_iff [simp]: "logicalOperRule ts = Some (op, rest) \<longleftrightarrow> ts = logicalToken op # rest"
  by (cases op) (auto simp: logicalOperRule_def split: list.splits token.splits)

lemma optionalNot_iff: "t \<noteq> TokNOT \<Longrightarrow> optionalNot t op ts = Some (x, rest) \<longleftrightarrow> (\<exists>b. x = op b \<and> ts = (if b then [TokNOT] else []) @ t # rest)"
  by (auto simp: optionalNot_def split: list.splits token.splits if_splits)

lemma operRule_iff:
  assumes "predictsOper p" shows "operRule p ts = Some (op, rest) \<longleftrightarrow> ts = operTokens op @ rest"
proof
  assume r: "operRule p ts = Some (op, rest)"
  then obtain alt where alt: "p ts = Some alt" by (auto simp: operRule_def split: option.splits)
  then have "1 \<le> alt" "alt \<le> 5" using assms by (auto simp: predictsOper_def)
  then have "alt \<in> {1, 2, 3, 4, 5}" by auto
  then show "ts = operTokens op @ rest" using r alt by (auto simp: operRule_def optionalNot_iff)
next
  assume "ts = operTokens op @ rest"
  then show "operRule p ts = Some (op, rest)" using assms
    by (cases op) (auto simp: operRule_def predictsOper_def optionalNot_def matchToken_def)
qed

lemma filterRule_iff:
  assumes "predictsOper p" shows "filterRule p ts = Some (f, rest) \<longleftrightarrow> ts = filterTokens f @ rest"
  by (cases f) (auto simp: filterRule_def filterTokens_def columnRule_def bind_eq_Some_conv operRule_iff [OF assms])

lemma exprRule_par:
  "exprRule p (Suc n) (T__4 # xs) = Some (e, rest) \<longleftrightarrow>
     (\<exists>a ts1 op ts2 b. exprRule p n xs = Some (a, ts1) \<and> ts1 = logicalToken op # ts2 \<and> exprRule p n ts2 = Some (b, T__5 # rest) \<and> e = LogicalExpr a op b)"
  by (auto simp: bind_eq_Some_conv)

lemma exprRule_starts:
  "exprRule p (Suc n) ts = Some r \<Longrightarrow> (\<exists>c xs. ts = TokIdentifier c # xs) \<or> (\<exists>xs. ts = T__4 # xs)"
proof (cases ts)
  case (Cons x xs)
  assume "exprRule p (Suc n) ts = Some r"
  with Cons show ?thesis by (cases x) simp_all
qed simp

lemma expr_sound: "predictsOper p \<Longrightarrow> exprRule p n ts = Some (e, rest) \<Longrightarrow> ts = exprTokens e @ rest"
proof (induction n arbitrary: ts e rest)
  case (Suc n)
  from exprRule_starts [OF Suc.prems(2)] show ?case
  proof (elim disjE exE)
    fix c xs assume "ts = TokIdentifier c # xs"
    then show ?thesis using Suc.prems(2) filterRule_iff [OF Suc.prems(1), of ts] by auto
  next
    fix xs assume ts: "ts = T__4 # xs"
    then obtain a ts1 op ts2 b where "exprRule p n xs = Some (a, ts1)" "ts1 = logicalToken op # ts2"
      "exprRule p n ts2 = Some (b, T__5 # rest)" "e = LogicalExpr a op b" using Suc.prems(2) exprRule_par by blast
    then show ?thesis using Suc.IH [OF Suc.prems(1)] ts by simp
  qed
qed simp

lemma expr_complete:
  assumes "predictsOper p" shows "length (exprTokens e) \<le> n \<Longrightarrow> exprRule p n (exprTokens e @ rest) = Some (e, rest)"
proof (induction e arbitrary: n rest)
  case (FilterExpr f)
  then obtain m where n: "n = Suc m" by (cases n) (auto simp: filterTokens_def)
  have "filterRule p (filterTokens f @ rest) = Some (f, rest)" by (simp add: filterRule_iff [OF assms])
  then show ?case using n by (simp add: filterTokens_def)
next
  case (LogicalExpr a op b)
  then obtain m where n: "n = Suc m" by (cases n) auto
  have "logicalOperRule (logicalToken op # exprTokens b @ T__5 # rest) = Some (op, exprTokens b @ T__5 # rest)" by simp
  moreover have "matchToken T__5 (T__5 # rest) = Some rest" by simp
  ultimately show ?case using LogicalExpr n by (simp del: logicalOperRule_iff matchToken_iff)
qed

lemma exprRule_iff:
  assumes "predictsOper p" shows "exprRule p (length ts) ts = Some (e, rest) \<longleftrightarrow> ts = exprTokens e @ rest"
proof
  assume "exprRule p (length ts) ts = Some (e, rest)"
  then show "ts = exprTokens e @ rest" by (rule expr_sound [OF assms])
next
  assume "ts = exprTokens e @ rest"
  then show "exprRule p (length ts) ts = Some (e, rest)" by (simp add: expr_complete [OF assms])
qed

lemma whereRule_iff:
  assumes "predictsOper p" shows "whereRule p ts = Some (e, rest) \<longleftrightarrow> ts = T__3 # exprTokens e @ rest"
  by (auto simp: whereRule_def bind_eq_Some_conv exprRule_iff [OF assms])

definition closed :: "statement_context \<Rightarrow> bool" where
  "closed st \<longleftrightarrow> (\<exists>t. st = ListStatement t None)"

lemma listRule_eq:
  assumes "predictsOper p"
  shows "listRule p ts = Some (st, rest) \<longleftrightarrow> (\<exists>x t. (x = T__1 \<or> x = T__2) \<and>
    (ts = [x, TokIdentifier t] \<and> st = ListStatement t None \<and> rest = [] \<or>
     (\<exists>e. ts = x # TokIdentifier t # T__3 # exprTokens e @ rest \<and> st = ListStatement t (Some e))))"
proof (cases ts)
  case Nil
  then show ?thesis by (auto simp: listRule_def)
next
  case (Cons x xs)
  show ?thesis
  proof (cases "(x = T__1 \<or> x = T__2) \<and> (\<exists>t ys. xs = TokIdentifier t # ys)")
    case True
    then obtain t ys where xs: "x = T__1 \<or> x = T__2" "xs = TokIdentifier t # ys" by blast
    then have "listRule p ts = (if LA ys = Some T__3 then map_option (\<lambda>(e, ts). (ListStatement t (Some e), ts)) (whereRule p ys)
        else if LA ys = None then Some (ListStatement t None, ys) else None)"
      using Cons by (auto simp: listRule_def tablenameRule_def matchIdentifier_def)
    then show ?thesis using Cons xs by (cases ys) (auto simp: whereRule_iff [OF assms])
  next
    case False
    then have "listRule p ts = None" using Cons by (auto simp: listRule_def tablenameRule_def matchIdentifier_def split: list.splits token.splits)
    then show ?thesis using Cons False by auto
  qed
qed

text \<open>(C22)
  The rules accept exactly the language of the grammar: a sequence of tokens gives the statement
  \<open>st\<close> if and only if it begins with the tokens of \<open>st\<close>, with either keyword for lists.  What
  follows is not looked at, so trailing text is silently accepted, except after a list without
  \<^verbatim>\<open>where\<close>, where it is an error.
\<close>

theorem query_parser_correct:
  assumes "predictsOper adaptivePredict"
  shows "queryRule adaptivePredict ts = Some st \<longleftrightarrow>
    (\<exists>select rest. ts = statementTokens select st @ rest \<and> (closed st \<longrightarrow> rest = []))"
proof -
  have "statementRule adaptivePredict ts = Some (st, rest) \<longleftrightarrow> (\<exists>select. ts = statementTokens select st @ rest) \<and> (closed st \<longrightarrow> rest = [])" for rest
  proof (cases st)
    case SchemaStatement
    then show ?thesis using listRule_eq [OF assms, of ts st rest] by (auto simp: statementRule_def schemaRule_def closed_def)
  next
    case (ListStatement t w)
    have "statementRule adaptivePredict ts = Some (st, rest) \<longleftrightarrow> listRule adaptivePredict ts = Some (st, rest)"
      using ListStatement listRule_eq [OF assms, of ts st rest] by (auto simp: statementRule_def schemaRule_def)
    then show ?thesis using ListStatement listRule_eq [OF assms, of ts st rest] by (cases w) (auto simp: closed_def ex_bool_eq)
  qed
  then show ?thesis unfolding queryRule_def by auto
qed

text \<open>A predictor and a lexer for the examples.\<close>

definition samplePredict :: predictor where
  "samplePredict ts = (case ts of
       TokREGEX # _ \<Rightarrow> Some 1 | TokEQUAL # _ \<Rightarrow> Some 2 | TokNOT_EQUAL # _ \<Rightarrow> Some 3
     | TokSTARTS_WITH # _ \<Rightarrow> Some 4 | TokENDS_WITH # _ \<Rightarrow> Some 5
     | TokNOT # TokSTARTS_WITH # _ \<Rightarrow> Some 4 | TokNOT # TokENDS_WITH # _ \<Rightarrow> Some 5 | _ \<Rightarrow> None)"

lemma samplePredict_ok: "predictsOper samplePredict"
proof -
  have "1 \<le> alt \<and> alt \<le> 5" if "samplePredict ts = Some alt" for ts alt
    using that by (auto simp: samplePredict_def split: list.splits token.splits)
  then show ?thesis by (simp add: predictsOper_def samplePredict_def)
qed

theorem query_parser_correct_witness:
  "queryRule samplePredict [T__0, TokAND] = Some SchemaStatement \<and>
   queryRule samplePredict [T__1, TokIdentifier ''files'', TokAND] \<noteq> Some (ListStatement ''files'' None)"
  using query_parser_correct [OF samplePredict_ok, of "[T__0, TokAND]" SchemaStatement]
    query_parser_correct [OF samplePredict_ok, of "[T__1, TokIdentifier ''files'', TokAND]" "ListStatement ''files'' None"]
  by (simp add: closed_def)

section \<open>From text to rows\<close>

lemma parsed_list:
  assumes "predictsOper adaptivePredict" "ts = statementTokens select (ListStatement tablename (Some e)) @ rest"
  shows "queryRule adaptivePredict ts = Some (ListStatement tablename (Some e))"
proof -
  have "whereRule adaptivePredict (T__3 # exprTokens e @ rest) = Some (e, rest)" by (simp add: whereRule_iff [OF assms(1)])
  then show ?thesis using assms(2)
    by (auto simp: queryRule_def statementRule_def listRule_def tablenameRule_def matchIdentifier_def)
qed

text \<open>
  A literal between single quotation marks, with none of them and no backslash inside.  Doubled
  quotation marks, double quotation marks and the quotation marks of rich text are left out.
\<close>

definition plainLiteral :: "filter_context \<Rightarrow> bool" where
  "plainLiteral f \<longleftrightarrow> (let v = escapedString f; s = butlast (List.tl v) in
     v = [CHR 0x27] @ s @ [CHR 0x27] \<and> CHR 0x27 \<notin> set s \<and> backslash \<notin> set s \<and> length s < 2 ^ 62)"

lemma replaceSpec_absent: "old \<noteq> [] \<Longrightarrow> hd old \<notin> set s \<Longrightarrow> replaceSpec old new s = s"
proof (induction s)
  case Nil
  then show ?case by (subst replaceSpec.simps) simp
next
  case (Cons c s)
  then show ?case by (simp add: replaceSpec_head)
qed

lemma plain_literal:
  assumes "plainLiteral f" shows "escapedString f = [CHR 0x27] @ literal f @ [CHR 0x27]"
proof -
  obtain s where s: "escapedString f = [CHR 0x27] @ s @ [CHR 0x27]" "CHR 0x27 \<notin> set s" "backslash \<notin> set s" "length s < 2 ^ 62"
    using assms by (auto simp: plainLiteral_def Let_def)
  have "dropWhile (\<lambda>c. c = CHR 0x27) t = t" if "CHR 0x27 \<notin> set t" for t using that by (cases t) auto
  then have "rev (dropWhile (\<lambda>c. c = CHR 0x27) (rev s)) = s" "s \<noteq> [] \<longrightarrow> dropWhile (\<lambda>c. c = CHR 0x27) (s @ [CHR 0x27]) = s @ [CHR 0x27]"
    using s(2) by (auto simp: dropWhile_append1 neq_Nil_conv)
  then have "trim (escapedString f) [CHR 0x27] = s" using s(4) by (cases "s = []") (simp_all add: s(1) trim_correct)
  then show ?thesis using sanitize_literal [of f] s(1,3) by (simp add: sanitize_def replaceAll_correct replaceSpec_absent)
qed

text \<open>(C21)
  From the tokens to the rows: a query whose literals are plain (between single quotation marks, with
  no quotation mark and no backslash inside) lists exactly the rows it asks for, the rows of the table
  that are not deleted and satisfy the \<^verbatim>\<open>where\<close> expression, in the order of their identifiers, on any
  number of threads, whatever the nesting of the expression and however often a literal or a pattern
  occurs in it.  The text a literal stands for is the one between its quotation marks.  The columns of
  the expression exist, the rows can be shown, and a pattern is not used both with and without its case
  flag.
\<close>

theorem query_lists_matching_rows:
  assumes "predictsOper adaptivePredict" "lexer query = statementTokens select (ListStatement tablename (Some e)) @ rest"
    and "dbRead fs block db = (Inr ok, db')" "getTable db' tablename = Some j"
    and "t = tbl (dbTables db' ! j)" "tableRep key t rs ks" "length rs < 2 ^ 32"
    and "\<forall>f\<in>set (filtersOf e). isValidColumn t (filterColumn f)"
    and "oneFlag (regexesOf e)" "\<forall>r\<in>regexesOf e. regexValid regex r"
    and "\<forall>r\<in>set rs. \<not> isDeleted r \<longrightarrow>
      (\<forall>f\<in>set (filtersOf e). getColumnValue datetime db' j (rowId r) (filterColumn f) = Some (Inr (val r (filterColumn f)))) \<and>
      generateStdOutRow datetime db' j displayRaw r = Some (Inr (line r))"
    and "\<forall>f\<in>set (filtersOf e). plainLiteral f"
  shows "execute (\<lambda>q. queryRule adaptivePredict (lexer q)) datetime regex hardwareThreads fs block displayRaw db query =
    Some (Inr ([''table: '' @ layoutName t, generateStdOutHeader t] @
      map line (filter (\<lambda>r. \<not> isDeleted r \<and> satisfies regex (val r) e) rs), True)) \<and>
    (\<forall>f\<in>set (filtersOf e). escapedString f = [CHR 0x27] @ literal f @ [CHR 0x27])"
  using plain_literal assms(12)
    query_lists_rows [where parser = "\<lambda>q. queryRule adaptivePredict (lexer q)" and val = val and line = line, OF parsed_list [OF assms(1,2)] assms(3-11)]
  by blast

definition sampleLexer :: "string \<Rightarrow> token list" where
  "sampleLexer q = [T__1, TokIdentifier ''t'', T__3, T__4, TokIdentifier ''id'', TokEQUAL, TokEscapedString [CHR 0x27, CHR ''0'', CHR 0x27], TokOR,
     TokIdentifier ''id'', TokREGEX, TokEscapedString [CHR 0x27, CHR ''x'', CHR 0x27], T__5]"

lemma sampleLexer_tokens: "sampleLexer q = statementTokens False (ListStatement ''t'' (Some sampleExpr)) @ []"
  by (simp add: sampleLexer_def sampleExpr_def filterTokens_def)

theorem query_lists_matching_rows_witness:
  "execute (\<lambda>q. queryRule samplePredict (sampleLexer q)) (\<lambda>_. []) noRegex 8 Map.empty 0 False sampleDb ''list t where ...'' =
     Some (Inr ([''table: t'', ''id'', ''0''], True))"
proof -
  let ?rs = "[\<lparr>rowFlags = 0, rowId = 0, rowBody = [97]\<rparr>, \<lparr>rowFlags = 1, rowId = 1, rowBody = [98]\<rparr>] :: table_row list"
  have rows: "\<forall>r\<in>set ?rs. \<not> isDeleted r \<longrightarrow> r = \<lparr>rowFlags = 0, rowId = 0, rowBody = [97]\<rparr>" by (simp add: isDeleted_def Deleted_def)
  have "execute (\<lambda>q. queryRule samplePredict (sampleLexer q)) (\<lambda>_. []) noRegex 8 Map.empty 0 False sampleDb ''list t where ...'' =
     Some (Inr ([''table: '' @ layoutName (tbl (dbTables sampleDb ! 0)), generateStdOutHeader (tbl (dbTables sampleDb ! 0))] @
      map (\<lambda>r. ''0'') (filter (\<lambda>r. \<not> isDeleted r \<and> satisfies noRegex (\<lambda>c. ''0'') sampleExpr) ?rs), True)) \<and>
     (\<forall>f\<in>set (filtersOf sampleExpr). escapedString f = [CHR 0x27] @ literal f @ [CHR 0x27])"
  proof (rule query_lists_matching_rows [OF samplePredict_ok sampleLexer_tokens sampleDb_facts(1,2) refl sampleDb_rep])
    show "oneFlag (regexesOf sampleExpr)" by (auto simp: oneFlag_def regexesOf_def sample_filters)
    show "\<forall>r\<in>set ?rs. \<not> isDeleted r \<longrightarrow>
        (\<forall>f\<in>set (filtersOf sampleExpr). getColumnValue (\<lambda>_. []) sampleDb 0 (rowId r) (filterColumn f) = Some (Inr ''0'')) \<and>
        generateStdOutRow (\<lambda>_. []) sampleDb 0 False r = Some (Inr ''0'')"
      using rows sample_value by (auto simp: sample_filters)
  qed (simp_all add: sample_filters noRegex_def isValidColumn_def sampleDb_facts plainLiteral_def backslash_def)
  moreover have "satisfies noRegex (\<lambda>c. ''0'') sampleExpr" by (simp add: sampleExpr_def filterMatches_def sample_literal)
  ultimately show ?thesis
    by (simp add: sampleDb_facts generateStdOutHeader_def addColumn_def idColumn_eq isDeleted_def Deleted_def)
qed

end
