(* ===== verification/Stats.thy ===== *)
theory Stats
  imports Domain_Tables "HOL-Library.Multiset"
begin

text \<open>
  The options of a run (\<^verbatim>\<open>domain/Options.h\<close>, \<^verbatim>\<open>Options.cpp\<close>), its counters (\<^verbatim>\<open>domain/stats/Results.h\<close>,
  \<^verbatim>\<open>Results.cpp\<close>) and the report of new, changed and failed files and classes
  (\<^verbatim>\<open>domain/stats/Report.cpp\<close>).  The counters are atomic 32-bit integers and the two lists are
  guarded by a mutex, so a report made by many threads is a sequence of report calls; it is shown
  what a sequence leaves behind and that its order does not matter.
\<close>

section \<open>Options\<close>

record server_options =
  isServerMode :: bool
  serverPort :: int
  stopServer :: bool
  listenAddress :: string

record client_options =
  isClientMode :: bool
  clientPort :: int
  clientHost :: string

record sub_command_options =
  input :: string
  isDir :: bool
  isJar :: bool
  isClassFile :: bool
  dryRun :: bool
  rebuild :: bool
  isDiff :: bool
  queryValue :: string
  server :: server_options
  client :: client_options
  displayRaw :: bool

record call_graph_options = sub_command_options +
  exportDot :: bool
  exportGml :: bool

record parse_options = sub_command_options +
  print :: bool
  printConstantPool :: bool
  printCPoolHtmlNav :: bool
  descriptiveCPoolEntries :: bool
  cpoolFilter :: "string list"

record options =
  outputDir :: string
  isParse :: bool
  isPublicDigest :: bool
  isCallGraph :: bool
  digestOptions :: sub_command_options
  callGraphOptions :: call_graph_options
  parseOptions :: parse_options
  logFile :: string
  workers :: int
  useFileTimestamp :: bool
  pause :: bool
  printProfiler :: bool
  verbose :: bool

definition defaultServer :: server_options where
  "defaultServer = \<lparr>isServerMode = False, serverPort = 0xCA9A, stopServer = False, listenAddress = ''0.0.0.0''\<rparr>"

definition defaultClient :: client_options where
  "defaultClient = \<lparr>isClientMode = False, clientPort = 0xCA9A, clientHost = ''localhost''\<rparr>"

definition defaultSubCommand :: sub_command_options where
  "defaultSubCommand = \<lparr>input = [], isDir = False, isJar = False, isClassFile = False, dryRun = False, rebuild = False, isDiff = False,
     queryValue = [], server = defaultServer, client = defaultClient, displayRaw = False\<rparr>"

definition defaultCallGraph :: call_graph_options where
  "defaultCallGraph = sub_command_options.extend defaultSubCommand (call_graph_options.fields False False)"

definition defaultParse :: parse_options where
  "defaultParse = sub_command_options.extend defaultSubCommand (parse_options.fields False False False True [])"

definition defaultOptions :: options where
  "defaultOptions = \<lparr>outputDir = [], isParse = False, isPublicDigest = False, isCallGraph = False, digestOptions = defaultSubCommand,
     callGraphOptions = defaultCallGraph, parseOptions = defaultParse, logFile = [], workers = 4, useFileTimestamp = True,
     pause = False, printProfiler = False, verbose = False\<rparr>"

definition canPrintProgress :: "options \<Rightarrow> bool" where
  "canPrintProgress opts \<longleftrightarrow> \<not> print (parseOptions opts) \<and> \<not> printConstantPool (parseOptions opts) \<and>
     \<not> isDiff (digestOptions opts) \<and> \<not> isServerMode (server (digestOptions opts))"

definition getSubCommandOptions :: "options \<Rightarrow> sub_command_options" where
  "getSubCommandOptions opts = (if isPublicDigest opts then digestOptions opts
     else if isCallGraph opts then sub_command_options.truncate (callGraphOptions opts)
     else sub_command_options.truncate (parseOptions opts))"

definition getListenServerAddress :: "server_options \<Rightarrow> string" where
  "getListenServerAddress so = listenAddress so @ '':'' @ intToString (serverPort so)"

definition getServerAddress :: "client_options \<Rightarrow> string" where
  "getServerAddress co = clientHost co @ '':'' @ intToString (clientPort co)"

text \<open>
  \<^verbatim>\<open>std::filesystem::path::extension\<close>: from the last dot of the file name on; a leading dot does not
  start an extension, and the names of one or two dots have none.
\<close>

definition pathFilename :: "string \<Rightarrow> string" where
  "pathFilename p = rev (takeWhile (\<lambda>c. c \<noteq> CHR ''/'') (rev p))"

definition pathExtension :: "string \<Rightarrow> string" where
  "pathExtension p = (let n = pathFilename p; tail = rev (takeWhile (\<lambda>c. c \<noteq> CHR ''.'') (rev n))
     in if n = ''.'' \<or> n = ''..'' \<or> CHR ''.'' \<notin> set n \<or> length n = Suc (length tail) then [] else CHR ''.'' # tail)"

definition isClassfilePath :: "string \<Rightarrow> bool" where
  "isClassfilePath p \<longleftrightarrow> pathExtension p = ''.class''"

definition isJarPath :: "string \<Rightarrow> bool" where
  "isJarPath p \<longleftrightarrow> pathExtension p = ''.jar''"

text \<open>\<open>isDirectory\<close> and \<open>fileExists\<close> answer for the file system.\<close>

definition processInput :: "(string \<Rightarrow> bool) \<Rightarrow> (string \<Rightarrow> bool) \<Rightarrow> sub_command_options \<Rightarrow> bool \<times> sub_command_options" where
  "processInput isDirectory fileExists opts =
     (let opts = opts\<lparr>isDir := isDirectory (input opts)\<rparr>
      in if isDir opts then (True, opts)
         else if fileExists (input opts) then
           let opts = opts\<lparr>isJar := isJarPath (input opts)\<rparr>
           in if isJar opts then (True, opts)
              else let opts = opts\<lparr>isClassFile := isClassfilePath (input opts)\<rparr>
                in (isClassFile opts, opts)
         else (False, opts))"

section \<open>Counters and results\<close>

type_synonym counter = u4

record task_result =
  unchangedCount :: counter
  taskCount :: counter
  same :: counter
  newFile :: counter
  differentDigest :: counter

record classfile_stats =
  count_cf :: counter
  parsedCount :: counter
  errors :: counter
  taskResult :: task_result

record jarfile_stats =
  jarCount :: counter
  jarParsedCount :: counter
  jarErrors :: counter
  classfileCount :: counter
  jarTaskResult :: task_result
  classfiles :: classfile_stats

record file_result =
  fileResultName :: string
  fileIsNew :: bool
  fileIsModified :: bool
  fileIsSamePublicDigest :: bool
  fileFailed :: bool

record class_result =
  classResultName :: string
  classIsNew :: bool
  classIsModified :: bool
  classIsSamePublicDigest :: bool
  classFailed :: bool

record results =
  standaloneClassfiles :: classfile_stats
  jarfiles :: jarfile_stats
  fileResults :: "file_result list"
  classResults :: "class_result list"

definition noTaskResult :: task_result where
  "noTaskResult = \<lparr>unchangedCount = 0, taskCount = 0, same = 0, newFile = 0, differentDigest = 0\<rparr>"

definition noClassfiles :: classfile_stats where
  "noClassfiles = \<lparr>count_cf = 0, parsedCount = 0, errors = 0, taskResult = noTaskResult\<rparr>"

definition newResults :: results where
  "newResults = \<lparr>standaloneClassfiles = noClassfiles,
     jarfiles = \<lparr>jarCount = 0, jarParsedCount = 0, jarErrors = 0, classfileCount = 0, jarTaskResult = noTaskResult, classfiles = noClassfiles\<rparr>,
     fileResults = [], classResults = []\<rparr>"

text \<open>Access to one group of counters.\<close>

definition onJarTask :: "(task_result \<Rightarrow> task_result) \<Rightarrow> results \<Rightarrow> results" where
  "onJarTask f r = r\<lparr>jarfiles := (jarfiles r)\<lparr>jarTaskResult := f (jarTaskResult (jarfiles r))\<rparr>\<rparr>"

definition onClassTask :: "(task_result \<Rightarrow> task_result) \<Rightarrow> results \<Rightarrow> results" where
  "onClassTask f r = r\<lparr>standaloneClassfiles := (standaloneClassfiles r)\<lparr>taskResult := f (taskResult (standaloneClassfiles r))\<rparr>\<rparr>"

definition onJarClasses :: "(classfile_stats \<Rightarrow> classfile_stats) \<Rightarrow> results \<Rightarrow> results" where
  "onJarClasses f r = r\<lparr>jarfiles := (jarfiles r)\<lparr>classfiles := f (classfiles (jarfiles r))\<rparr>\<rparr>"

definition onJarClassTask :: "(task_result \<Rightarrow> task_result) \<Rightarrow> results \<Rightarrow> results" where
  "onJarClassTask f = onJarClasses (\<lambda>c. c\<lparr>taskResult := f (taskResult c)\<rparr>)"

definition incNew :: "task_result \<Rightarrow> task_result" where
  "incNew t = t\<lparr>newFile := newFile t + 1\<rparr>"

definition incSame :: "bool \<Rightarrow> task_result \<Rightarrow> task_result" where
  "incSame isSame t = (if isSame then t\<lparr>same := same t + 1\<rparr> else t\<lparr>differentDigest := differentDigest t + 1\<rparr>)"

definition incUnchanged :: "task_result \<Rightarrow> task_result" where
  "incUnchanged t = t\<lparr>unchangedCount := unchangedCount t + 1\<rparr>"

section \<open>The report\<close>

definition getBaseOptions :: "options \<Rightarrow> sub_command_options" where
  "getBaseOptions opts = (if isCallGraph opts then sub_command_options.truncate (callGraphOptions opts)
     else if isPublicDigest opts then digestOptions opts else sub_command_options.truncate (parseOptions opts))"

definition addFile :: "file_result \<Rightarrow> results \<Rightarrow> results" where
  "addFile f r = r\<lparr>fileResults := fileResults r @ [f]\<rparr>"

definition addClass :: "class_result \<Rightarrow> results \<Rightarrow> results" where
  "addClass c r = r\<lparr>classResults := classResults r @ [c]\<rparr>"

definition addNewFile :: "string \<Rightarrow> results \<Rightarrow> results" where
  "addNewFile n = addFile \<lparr>fileResultName = n, fileIsNew = True, fileIsModified = False, fileIsSamePublicDigest = False, fileFailed = False\<rparr>"

definition addModifiedFile :: "string \<Rightarrow> bool \<Rightarrow> results \<Rightarrow> results" where
  "addModifiedFile n isSame =
     addFile \<lparr>fileResultName = n, fileIsNew = False, fileIsModified = True, fileIsSamePublicDigest = isSame, fileFailed = False\<rparr>"

definition addUnchangedFile :: "string \<Rightarrow> results \<Rightarrow> results" where
  "addUnchangedFile n = addFile \<lparr>fileResultName = n, fileIsNew = False, fileIsModified = False, fileIsSamePublicDigest = True, fileFailed = False\<rparr>"

definition addFailedFile :: "string \<Rightarrow> results \<Rightarrow> results" where
  "addFailedFile n = addFile \<lparr>fileResultName = n, fileIsNew = False, fileIsModified = False, fileIsSamePublicDigest = False, fileFailed = True\<rparr>"

definition addNewClass :: "string \<Rightarrow> results \<Rightarrow> results" where
  "addNewClass n = addClass \<lparr>classResultName = n, classIsNew = True, classIsModified = False, classIsSamePublicDigest = False, classFailed = False\<rparr>"

definition addUnchangedClass :: "string \<Rightarrow> results \<Rightarrow> results" where
  "addUnchangedClass n =
     addClass \<lparr>classResultName = n, classIsNew = False, classIsModified = False, classIsSamePublicDigest = True, classFailed = False\<rparr>"

definition addModifiedClass :: "string \<Rightarrow> bool \<Rightarrow> results \<Rightarrow> results" where
  "addModifiedClass n isSame =
     addClass \<lparr>classResultName = n, classIsNew = False, classIsModified = True, classIsSamePublicDigest = isSame, classFailed = False\<rparr>"

definition inDiff :: "options \<Rightarrow> (results \<Rightarrow> results) \<Rightarrow> results \<Rightarrow> results" where
  "inDiff opts f r = (if isDiff (getBaseOptions opts) then f r else r)"

definition asNewJar :: "options \<Rightarrow> string \<Rightarrow> results \<Rightarrow> results" where
  "asNewJar opts n r = inDiff opts (addNewFile n) (onJarTask incNew r)"

definition asModifiedJar :: "options \<Rightarrow> string \<Rightarrow> bool \<Rightarrow> results \<Rightarrow> results" where
  "asModifiedJar opts n isSame r = inDiff opts (addModifiedFile n isSame) (onJarTask (incSame isSame) r)"

definition asUnchangedJar :: "options \<Rightarrow> string \<Rightarrow> results \<Rightarrow> results" where
  "asUnchangedJar opts n r = inDiff opts (addUnchangedFile n) (onJarTask incUnchanged r)"

definition asFailedJar :: "options \<Rightarrow> string \<Rightarrow> results \<Rightarrow> results" where
  "asFailedJar opts n r = inDiff opts (addFailedFile n) (r\<lparr>jarfiles := (jarfiles r)\<lparr>jarErrors := jarErrors (jarfiles r) + 1\<rparr>\<rparr>)"

text \<open>The file of a strong class name is what stands before its first \<^verbatim>\<open>@\<close>.\<close>

definition strongFile :: "string \<Rightarrow> string result" where
  "strongFile strong = (case splitStrongClassname strong of Some (p # ps) \<Rightarrow> Inr p | _ \<Rightarrow> Inl Undefined)"

definition inDiffFile :: "options \<Rightarrow> string \<Rightarrow> (string \<Rightarrow> results \<Rightarrow> results) \<Rightarrow> results \<Rightarrow> results result" where
  "inDiffFile opts strong f r =
     (if isDiff (getBaseOptions opts) then bindR (strongFile strong) (\<lambda>n. Inr (f n r)) else Inr r)"

definition asNewClassFile :: "options \<Rightarrow> string \<Rightarrow> results \<Rightarrow> results result" where
  "asNewClassFile opts strong r =
     bindR (inDiffFile opts strong addNewFile (onClassTask incNew r)) (\<lambda>r. Inr (addNewClass strong r))"

definition asModifiedClassFile :: "options \<Rightarrow> bool \<Rightarrow> string \<Rightarrow> results \<Rightarrow> results result" where
  "asModifiedClassFile opts isSame strong r =
     bindR (inDiffFile opts strong (\<lambda>n. addModifiedFile n isSame) (onClassTask (incSame isSame) r))
       (\<lambda>r. Inr (addModifiedClass strong isSame r))"

definition asUnchangedClassFile :: "options \<Rightarrow> string \<Rightarrow> results \<Rightarrow> results" where
  "asUnchangedClassFile opts n r = inDiff opts (addUnchangedFile n) (onClassTask incUnchanged r)"

definition asFailedClassFile :: "options \<Rightarrow> string \<Rightarrow> results \<Rightarrow> results" where
  "asFailedClassFile opts n r = inDiff opts (addFailedFile n)
     (r\<lparr>standaloneClassfiles := (standaloneClassfiles r)\<lparr>errors := errors (standaloneClassfiles r) + 1\<rparr>\<rparr>)"

definition asNewJarClass :: "options \<Rightarrow> string \<Rightarrow> results \<Rightarrow> results" where
  "asNewJarClass opts strong r = inDiff opts (addNewClass strong) (onJarClassTask incNew r)"

definition asModifiedJarClass :: "options \<Rightarrow> string \<Rightarrow> bool \<Rightarrow> results \<Rightarrow> results" where
  "asModifiedJarClass opts strong isSame r = inDiff opts (addModifiedClass strong isSame) (onJarClassTask (incSame isSame) r)"

definition asUnchangedJarClass :: "options \<Rightarrow> string \<Rightarrow> results \<Rightarrow> results" where
  "asUnchangedJarClass opts strong r = inDiff opts (addUnchangedClass strong) (onJarClassTask incUnchanged r)"

definition incErrors :: "classfile_stats \<Rightarrow> classfile_stats" where
  "incErrors c = c\<lparr>errors := errors c + 1\<rparr>"

definition asFailedJarClass :: "options \<Rightarrow> string \<Rightarrow> results \<Rightarrow> results" where
  "asFailedJarClass opts strong r = inDiff opts (addUnchangedClass strong) (onJarClasses incErrors r)"

section \<open>What is printed\<close>

definition resultFlags :: "bool \<Rightarrow> bool \<Rightarrow> bool \<Rightarrow> string" where
  "resultFlags isNew isModified isSame =
     (if isNew then ''N'' else (if isModified then ''C'' else ''U'') @ (if isSame then ''S'' else ''D''))"

definition fileLine :: "file_result \<Rightarrow> string" where
  "fileLine f = fileResultName f @ '' '' @ resultFlags (fileIsNew f) (fileIsModified f) (fileIsSamePublicDigest f)"

definition classLine :: "class_result \<Rightarrow> string" where
  "classLine c = classResultName c @ '' '' @ resultFlags (classIsNew c) (classIsModified c) (classIsSamePublicDigest c)"

definition reportLegend :: "string list" where
  "reportLegend = [''Legend:'', ''    N - New file'', ''    C - Changed'', ''    U - Unchanged,'', ''    S - Same Public Digest'',
     ''    D - Different Public Digest'', ''    E - File Error'', '''']"

definition printReport :: "options \<Rightarrow> results \<Rightarrow> string list" where
  "printReport opts r = [''''] @ (if verbose opts then reportLegend else []) @ [''Files:''] @
     map fileLine (filter (\<lambda>f. fileIsNew f \<or> fileIsModified f) (fileResults r)) @ ['''', ''Classes:''] @
     map classLine (filter (\<lambda>c. classIsNew c \<or> classIsModified c) (classResults r)) @ ['''']"

text \<open>\<^verbatim>\<open>Results::printProgress\<close> and the tables of \<^verbatim>\<open>Results::printAll\<close>.\<close>

definition setw10 :: "string \<Rightarrow> string" where
  "setw10 s = replicate (10 - length s) CHR '' '' @ s"

definition counterText :: "counter \<Rightarrow> string" where
  "counterText c = natToString (unat c)"

definition printProgress :: "results \<Rightarrow> string" where
  "printProgress r = ''classfiles: '' @ counterText (count_cf (standaloneClassfiles r) + count_cf (classfiles (jarfiles r))) @
     '', jars: '' @ counterText (jarCount (jarfiles r))"

definition printRow :: "string list \<Rightarrow> string" where
  "printRow cells = concat (map setw10 cells)"

definition taskLines :: "string \<Rightarrow> task_result \<Rightarrow> string list" where
  "taskLines title t = [title, printRow [''No'', ''New'', ''Same'', ''Diff'', ''Unchanged''],
     printRow (map counterText [taskCount t, newFile t, same t, differentDigest t, unchangedCount t])]"

definition printAllTables :: "options \<Rightarrow> results \<Rightarrow> string list" where
  "printAllTables opts r = [[], [], ''classfiles:'', printRow [''No'', ''Ok'', ''Error''],
     printRow (map counterText [count_cf (standaloneClassfiles r), parsedCount (standaloneClassfiles r), errors (standaloneClassfiles r)]),
     ''jars:'', printRow [''No'', ''Ok'', ''Error''],
     printRow (map counterText [jarCount (jarfiles r), jarParsedCount (jarfiles r), jarErrors (jarfiles r)])] @
     (if isPublicDigest opts then
        taskLines ''standalone classfile.taskResult.'' (taskResult (standaloneClassfiles r)) @
        taskLines ''jar.taskResult.'' (jarTaskResult (jarfiles r)) @
        taskLines ''classfile inside jars.taskResult.'' (taskResult (classfiles (jarfiles r)))
      else []) @ [[]]"

definition totalsLine :: "results \<Rightarrow> string" where
  "totalsLine r = ''.class files: '' @ counterText (count_cf (standaloneClassfiles r)) @ '', in jars: '' @
     counterText (classfileCount (jarfiles r)) @ '', total: '' @
     counterText (count_cf (standaloneClassfiles r) + classfileCount (jarfiles r))"

section \<open>Sequences of report calls\<close>

datatype report_event =
    NewJar string | ModifiedJar string bool | UnchangedJar string | FailedJar string
  | NewClassFile string | ModifiedClassFile bool string | UnchangedClassFile string | FailedClassFile string
  | NewJarClass string | ModifiedJarClass string bool | UnchangedJarClass string | FailedJarClass string

fun report :: "options \<Rightarrow> report_event \<Rightarrow> results \<Rightarrow> results result" where
  "report opts (NewJar n) r = Inr (asNewJar opts n r)"
| "report opts (ModifiedJar n b) r = Inr (asModifiedJar opts n b r)"
| "report opts (UnchangedJar n) r = Inr (asUnchangedJar opts n r)"
| "report opts (FailedJar n) r = Inr (asFailedJar opts n r)"
| "report opts (NewClassFile n) r = asNewClassFile opts n r"
| "report opts (ModifiedClassFile b n) r = asModifiedClassFile opts b n r"
| "report opts (UnchangedClassFile n) r = Inr (asUnchangedClassFile opts n r)"
| "report opts (FailedClassFile n) r = Inr (asFailedClassFile opts n r)"
| "report opts (NewJarClass n) r = Inr (asNewJarClass opts n r)"
| "report opts (ModifiedJarClass n b) r = Inr (asModifiedJarClass opts n b r)"
| "report opts (UnchangedJarClass n) r = Inr (asUnchangedJarClass opts n r)"
| "report opts (FailedJarClass n) r = Inr (asFailedJarClass opts n r)"

primrec reports :: "options \<Rightarrow> report_event list \<Rightarrow> results \<Rightarrow> results result" where
  "reports opts [] r = Inr r"
| "reports opts (e # es) r = bindR (report opts e r) (reports opts es)"

fun eventName :: "report_event \<Rightarrow> string" where
  "eventName (NewJar n) = n"
| "eventName (ModifiedJar n b) = n"
| "eventName (UnchangedJar n) = n"
| "eventName (FailedJar n) = n"
| "eventName (NewClassFile n) = n"
| "eventName (ModifiedClassFile b n) = n"
| "eventName (UnchangedClassFile n) = n"
| "eventName (FailedClassFile n) = n"
| "eventName (NewJarClass n) = n"
| "eventName (ModifiedJarClass n b) = n"
| "eventName (UnchangedJarClass n) = n"
| "eventName (FailedJarClass n) = n"

text \<open>What one call contributes to the two lists.\<close>

definition fileOfStrong :: "string \<Rightarrow> string" where
  "fileOfStrong strong = takeWhile (\<lambda>c. c \<noteq> CHR ''@'') strong"

definition fileResult :: "string \<Rightarrow> bool \<Rightarrow> bool \<Rightarrow> bool \<Rightarrow> bool \<Rightarrow> file_result" where
  "fileResult n isNew isModified isSame failed =
     \<lparr>fileResultName = n, fileIsNew = isNew, fileIsModified = isModified, fileIsSamePublicDigest = isSame, fileFailed = failed\<rparr>"

definition classResult :: "string \<Rightarrow> bool \<Rightarrow> bool \<Rightarrow> bool \<Rightarrow> class_result" where
  "classResult n isNew isModified isSame =
     \<lparr>classResultName = n, classIsNew = isNew, classIsModified = isModified, classIsSamePublicDigest = isSame, classFailed = False\<rparr>"

fun filesOf :: "report_event \<Rightarrow> file_result list" where
  "filesOf (NewJar n) = [fileResult n True False False False]"
| "filesOf (ModifiedJar n b) = [fileResult n False True b False]"
| "filesOf (UnchangedJar n) = [fileResult n False False True False]"
| "filesOf (FailedJar n) = [fileResult n False False False True]"
| "filesOf (NewClassFile n) = [fileResult (fileOfStrong n) True False False False]"
| "filesOf (ModifiedClassFile b n) = [fileResult (fileOfStrong n) False True b False]"
| "filesOf (UnchangedClassFile n) = [fileResult n False False True False]"
| "filesOf (FailedClassFile n) = [fileResult n False False False True]"
| "filesOf _ = []"

fun classesOf :: "bool \<Rightarrow> report_event \<Rightarrow> class_result list" where
  "classesOf d (NewClassFile n) = [classResult n True False False]"
| "classesOf d (ModifiedClassFile b n) = [classResult n False True b]"
| "classesOf d (NewJarClass n) = (if d then [classResult n True False False] else [])"
| "classesOf d (ModifiedJarClass n b) = (if d then [classResult n False True b] else [])"
| "classesOf d (UnchangedJarClass n) = (if d then [classResult n False False True] else [])"
| "classesOf d (FailedJarClass n) = (if d then [classResult n False False True] else [])"
| "classesOf d _ = []"

text \<open>The counter that stands for the calls of one kind.\<close>

definition tally :: "(report_event \<Rightarrow> bool) \<Rightarrow> report_event list \<Rightarrow> counter" where
  "tally P es = of_nat (length (filter P es))"

definition tallies :: "(string \<Rightarrow> report_event) \<Rightarrow> (bool \<Rightarrow> string \<Rightarrow> report_event) \<Rightarrow> (string \<Rightarrow> report_event) \<Rightarrow> report_event list \<Rightarrow> task_result" where
  "tallies new modified unchanged es =
     \<lparr>unchangedCount = tally (\<lambda>e. e = unchanged (eventName e)) es, taskCount = 0,
      same = tally (\<lambda>e. e = modified True (eventName e)) es, newFile = tally (\<lambda>e. e = new (eventName e)) es,
      differentDigest = tally (\<lambda>e. e = modified False (eventName e)) es\<rparr>"

definition reportOf :: "options \<Rightarrow> report_event list \<Rightarrow> results" where
  "reportOf opts es = (let d = isDiff (getBaseOptions opts) in
     \<lparr>standaloneClassfiles = \<lparr>count_cf = 0, parsedCount = 0, errors = tally (\<lambda>e. e = FailedClassFile (eventName e)) es,
        taskResult = tallies NewClassFile ModifiedClassFile UnchangedClassFile es\<rparr>,
      jarfiles = \<lparr>jarCount = 0, jarParsedCount = 0, jarErrors = tally (\<lambda>e. e = FailedJar (eventName e)) es, classfileCount = 0,
        jarTaskResult = tallies NewJar (\<lambda>b n. ModifiedJar n b) UnchangedJar es,
        classfiles = \<lparr>count_cf = 0, parsedCount = 0, errors = tally (\<lambda>e. e = FailedJarClass (eventName e)) es,
          taskResult = tallies NewJarClass (\<lambda>b n. ModifiedJarClass n b) UnchangedJarClass es\<rparr>\<rparr>,
      fileResults = (if d then concat (map filesOf es) else []),
      classResults = concat (map (classesOf d) es)\<rparr>)"

lemma findAt_char: "findAt [c] s = (if c \<in> set s then Some (length (takeWhile (\<lambda>x. x \<noteq> c) s)) else None)"
  by (induction s) auto

lemma strongFile_ok:
  assumes "strong \<noteq> []" shows "strongFile strong = Inr (fileOfStrong strong)"
proof -
  have split: "splitStrongClassname strong = Some (splitSpec ''@'' strong)"
    using splitLoop_spec [of "''@''" "[]" strong "[]"] by (simp add: splitStrongClassname_def split_def)
  show ?thesis
  proof (cases "CHR ''@'' \<in> set strong")
    case True
    then show ?thesis using assms split
      by (simp add: strongFile_def splitSpec.simps [of _ strong] findAt_char fileOfStrong_def takeWhile_eq_take [symmetric])
  next
    case False
    then have "fileOfStrong strong = strong" unfolding fileOfStrong_def by (auto simp: takeWhile_eq_all_conv)
    then show ?thesis using False assms split
      by (simp add: strongFile_def splitSpec.simps [of _ strong] findAt_char)
  qed
qed

lemma reports_append: "reports opts (es @ fs) r = bindR (reports opts es r) (reports opts fs)"
proof (induction es arbitrary: r)
  case (Cons e es)
  then show ?case by (cases "report opts e r") auto
qed simp

lemmas report_defs = asNewJar_def asModifiedJar_def asUnchangedJar_def asFailedJar_def asNewClassFile_def asModifiedClassFile_def
  asUnchangedClassFile_def asFailedClassFile_def asNewJarClass_def asModifiedJarClass_def asUnchangedJarClass_def asFailedJarClass_def
  addNewFile_def addModifiedFile_def addUnchangedFile_def addFailedFile_def addNewClass_def addUnchangedClass_def addModifiedClass_def
  addFile_def addClass_def inDiff_def inDiffFile_def onJarTask_def onClassTask_def onJarClassTask_def onJarClasses_def
  incNew_def incSame_def incUnchanged_def incErrors_def

lemma report_step:
  "eventName e \<noteq> [] \<Longrightarrow> report opts e (reportOf opts es) = Inr (reportOf opts (es @ [e]))"
  by (cases e) (simp_all add: report_defs reportOf_def tally_def tallies_def strongFile_ok fileResult_def classResult_def Let_def)

lemma reports_exact:
  "\<forall>e\<in>set es. eventName e \<noteq> [] \<Longrightarrow> reports opts es newResults = Inr (reportOf opts es)"
proof (induction es rule: rev_induct)
  case Nil
  then show ?case by (simp add: reportOf_def newResults_def noClassfiles_def noTaskResult_def tally_def tallies_def)
next
  case (snoc e es)
  then show ?case by (simp add: reports_append report_step)
qed

section \<open>The order of the calls does not matter\<close>

lemma tally_mset: "mset es = mset fs \<Longrightarrow> tally P es = tally P fs"
  by (metis tally_def mset_filter size_mset)

lemma tallies_mset: "mset es = mset fs \<Longrightarrow> tallies a b c es = tallies a b c fs"
  unfolding tallies_def by (auto intro: tally_mset)

lemma mset_concat_map: "mset (concat (map f es)) = (\<Sum>e\<in>#mset es. mset (f e))"
  by (induction es) auto

text \<open>(C26)
  The report of a run is what its calls say, in any order.  After any sequence of report calls with
  names, every counter (new, unchanged, modified with the same and with another public digest, failed;
  for jars, for standalone class files and for the classes of jars) is the number of the calls of
  its kind, modulo the width of the counter.  The two lists hold, call by call, the file and the
  class with the name and the flags of the call: files only in a comparison, classes of jars only in a
  comparison, standalone classes that are new or modified always.  A permutation of the calls, as another interleaving of
  the threads gives, leaves the same counters and the same files and classes.
\<close>

theorem report_order_irrelevant:
  assumes "mset es = mset fs" "\<forall>e\<in>set es. eventName e \<noteq> []"
  shows "\<exists>r r'. reports opts es newResults = Inr r \<and> reports opts fs newResults = Inr r' \<and>
    standaloneClassfiles r = \<lparr>count_cf = 0, parsedCount = 0, errors = tally (\<lambda>e. e = FailedClassFile (eventName e)) es,
      taskResult = tallies NewClassFile ModifiedClassFile UnchangedClassFile es\<rparr> \<and>
    jarfiles r = \<lparr>jarCount = 0, jarParsedCount = 0, jarErrors = tally (\<lambda>e. e = FailedJar (eventName e)) es, classfileCount = 0,
      jarTaskResult = tallies NewJar (\<lambda>b n. ModifiedJar n b) UnchangedJar es,
      classfiles = \<lparr>count_cf = 0, parsedCount = 0, errors = tally (\<lambda>e. e = FailedJarClass (eventName e)) es,
        taskResult = tallies NewJarClass (\<lambda>b n. ModifiedJarClass n b) UnchangedJarClass es\<rparr>\<rparr> \<and>
    fileResults r = (if isDiff (getBaseOptions opts) then concat (map filesOf es) else []) \<and>
    classResults r = concat (map (classesOf (isDiff (getBaseOptions opts))) es) \<and>
    standaloneClassfiles r' = standaloneClassfiles r \<and> jarfiles r' = jarfiles r \<and>
    mset (fileResults r') = mset (fileResults r) \<and> mset (classResults r') = mset (classResults r)"
proof -
  have "set es = set fs" using assms(1) by (rule mset_eq_setD)
  then have "reports opts es newResults = Inr (reportOf opts es)" "reports opts fs newResults = Inr (reportOf opts fs)"
    using assms(2) by (auto intro: reports_exact)
  then show ?thesis using tally_mset [OF assms(1)] tallies_mset [OF assms(1)] assms(1)
    by (intro exI [of _ "reportOf opts es"] exI [of _ "reportOf opts fs"]) (simp add: reportOf_def Let_def mset_concat_map)
qed

definition diffOptions :: options where
  "diffOptions = defaultOptions\<lparr>isPublicDigest := True, digestOptions := defaultSubCommand\<lparr>isDiff := True\<rparr>\<rparr>"

lemma diffOptions_diff: "isDiff (getBaseOptions diffOptions)"
  by (simp add: getBaseOptions_def diffOptions_def defaultOptions_def)

theorem report_order_irrelevant_witness:
  "\<exists>r r'. reports diffOptions [ModifiedJar ''a.jar'' True, ModifiedJar ''b.jar'' False, NewJarClass ''a.jar@A''] newResults = Inr r \<and>
    reports diffOptions [NewJarClass ''a.jar@A'', ModifiedJar ''b.jar'' False, ModifiedJar ''a.jar'' True] newResults = Inr r' \<and>
    jarfiles r' = jarfiles r \<and> same (jarTaskResult (jarfiles r)) = 1 \<and> differentDigest (jarTaskResult (jarfiles r)) = 1 \<and>
    newFile (taskResult (classfiles (jarfiles r))) = 1 \<and> map fileResultName (fileResults r) = [''a.jar'', ''b.jar'']"
proof -
  let ?es = "[ModifiedJar ''a.jar'' True, ModifiedJar ''b.jar'' False, NewJarClass ''a.jar@A'']"
  obtain r r' where r: "reports diffOptions ?es newResults = Inr r" "reports diffOptions (rev ?es) newResults = Inr r'" "jarfiles r' = jarfiles r"
    "fileResults r = (if isDiff (getBaseOptions diffOptions) then concat (map filesOf ?es) else [])"
    "jarTaskResult (jarfiles r) = tallies NewJar (\<lambda>b n. ModifiedJar n b) UnchangedJar ?es"
    "taskResult (classfiles (jarfiles r)) = tallies NewJarClass (\<lambda>b n. ModifiedJarClass n b) UnchangedJarClass ?es"
    using report_order_irrelevant [of ?es "rev ?es" diffOptions] by auto
  then show ?thesis by (intro exI [of _ r] exI [of _ r'] conjI) (simp_all add: tallies_def tally_def diffOptions_diff fileResult_def)
qed

text \<open>The printed report is silent about failures: whatever else was reported, a file that could not
  be parsed adds no line, although the legend explains a letter for it, and a class that could
  not be parsed is entered as unchanged.
\<close>

lemma failures_not_printed:
  assumes "\<forall>e\<in>set es. eventName e \<noteq> []" "n \<noteq> []"
  shows "\<exists>r r1 r2. reports opts es newResults = Inr r \<and>
    report opts (FailedClassFile n) r = Inr r1 \<and> printReport opts r1 = printReport opts r \<and>
    report opts (FailedJarClass n) r = Inr r2 \<and> printReport opts r2 = printReport opts r \<and>
    classResults r2 = (if isDiff (getBaseOptions opts) then classResults r @ [classResult n False False True] else classResults r)"
  using reports_exact [OF assms(1), of opts] by (simp add: printReport_def report_defs classResult_def)

lemma failures_not_printed_witness:
  "\<exists>r r1. reports diffOptions [NewJar ''a.jar''] newResults = Inr r \<and> report diffOptions (FailedClassFile ''B.class'') r = Inr r1 \<and>
    printReport diffOptions r1 = printReport diffOptions r"
  using failures_not_printed [of "[NewJar ''a.jar'']" "''B.class''" diffOptions] by auto

end
