(* ===== verification/Jar_Processor.thy ===== *)
theory Jar_Processor
  imports Prelude "HOL-Library.Multiset"
begin

text \<open>
  Reading a jar (\<^verbatim>\<open>domain/jar/Processor.cpp\<close>, \<^verbatim>\<open>domain/jar/JarEntry.h\<close>): one thread reads the entries
  of the archive into buffers and hands them to a thread pool; a limit on the buffers in use
  makes it wait on a condition variable until the pool has finished with one.  The two threads
  are a step relation; it is shown that no run blocks, that every run ends, and that its outcome
  is the one of processing the class entries one after the other.
\<close>

section \<open>Entries\<close>

text \<open>
  An entry as the zip library presents it.  Its date is a \<^verbatim>\<open>time_t\<close> in seconds; the constructor of
  \<^verbatim>\<open>JarEntry\<close> keeps it in microseconds, in 64 bits.
\<close>

record zip_entry =
  zipName :: string
  zipIsFile :: bool
  zipDate :: int
  zipSize :: "64 word"
  zipCRC :: "32 word"
  zipContent :: bytes

record jar_entry =
  zipEntry :: zip_entry
  isClassfile :: bool
  jvmClassname :: string
  entryLastWriteTime :: "64 word"
  isMultiReleaseEntry :: bool

definition ClassFileExt :: string where
  "ClassFileExt = ''.class''"

definition ExtensionLength :: nat where
  "ExtensionLength = 6"

definition newJarEntry :: "zip_entry \<Rightarrow> jar_entry" where
  "newJarEntry e =
     (let name = zipName e; isClass = zipIsFile e \<and> suffix ClassFileExt name
      in \<lparr>zipEntry = e, isClassfile = isClass,
          jvmClassname = (if isClass then take (length name - ExtensionLength) name else []),
          entryLastWriteTime = of_int (zipDate e * 1000000),
          isMultiReleaseEntry = prefix ''META-INF/versions/'' name\<rparr>)"

lemma newJarEntry_classname:
  "zipIsFile e \<Longrightarrow> zipName e = n @ ClassFileExt \<Longrightarrow> isClassfile (newJarEntry e) \<and> jvmClassname (newJarEntry e) = n"
  by (simp add: newJarEntry_def Let_def ExtensionLength_def ClassFileExt_def suffix_def)

section \<open>The two threads\<close>

text \<open>
  The reading thread is about to evaluate the predicate of \<^verbatim>\<open>_jarCv.wait\<close>, is blocked in it, is about
  to read an entry, waits for the pool, or has returned.  An exception that leaves a task ends the
  process.
\<close>

datatype reader_pc = Checking | Blocked | Reading | Joining | Returned | Terminated fault

definition MaxConcurrentBuffers :: int where
  "MaxConcurrentBuffers = 40"

definition threadPoolSize :: nat where
  "threadPoolSize = max 1 1"

text \<open>
  A buffer is an address, or \<open>None\<close> for the null pointer, which \<^verbatim>\<open>readAsBinary\<close> returns for an entry it
  cannot read.  \<open>allocated\<close> are the addresses \<^verbatim>\<open>new[]\<close> has returned and \<^verbatim>\<open>delete[]\<close> has not taken.
\<close>

record 's processor =
  pc :: reader_pc
  pending :: "zip_entry list"
  queued :: "(zip_entry \<times> nat option) list"
  running :: "(zip_entry \<times> nat option) list"
  finishedBuffers :: "nat option set"
  inProgressBufferCount :: int
  allocated :: "nat set"
  task :: 's

definition newProcessor :: "zip_entry list \<Rightarrow> 's \<Rightarrow> 's processor" where
  "newProcessor entries t = \<lparr>pc = (if entries = [] then Joining else Checking), pending = entries, queued = [], running = [],
     finishedBuffers = {}, inProgressBufferCount = 0, allocated = {}, task = t\<rparr>"

text \<open>
  The predicate of the wait: it deletes the finished buffers and tests the count.  It runs with
  the mutex held, so it is one step.
\<close>

definition drain :: "'s processor \<Rightarrow> 's processor" where
  "drain s = s\<lparr>finishedBuffers := {}, inProgressBufferCount := inProgressBufferCount s - int (card (finishedBuffers s)),
     allocated := {a \<in> allocated s. Some a \<notin> finishedBuffers s}\<rparr>"

definition waitForAvailableBuffer :: "'s processor \<Rightarrow> 's processor" where
  "waitForAvailableBuffer s = (let s' = drain s
     in s'\<lparr>pc := if inProgressBufferCount s' < MaxConcurrentBuffers then Reading else Blocked\<rparr>)"

text \<open>
  Handing an entry with its buffer to the pool.  The entry is put at the end of the queue of the
  pool.
\<close>

definition readEntry :: "nat option \<Rightarrow> 's processor \<Rightarrow> 's processor" where
  "readEntry b s = (case pending s of [] \<Rightarrow> s | e # es \<Rightarrow>
     s\<lparr>pending := es, queued := queued s @ [(e, b)], inProgressBufferCount := inProgressBufferCount s + 1,
       allocated := (case b of None \<Rightarrow> allocated s | Some a \<Rightarrow> insert a (allocated s)),
       pc := if es = [] then Joining else Checking\<rparr>)"

text \<open>
  A task: the entry is processed when it is a class file; then the buffer is entered as finished
  and the reader is notified, with the mutex held.
\<close>

definition runTask :: "(jar_entry \<Rightarrow> ('s, unit) prog) \<Rightarrow> zip_entry \<Rightarrow> ('s, unit) prog" where
  "runTask processEntry e = (let je = newJarEntry e in if isClassfile je then processEntry je else ret ())"

definition finishTask :: "(jar_entry \<Rightarrow> ('s, unit) prog) \<Rightarrow> zip_entry \<times> nat option \<Rightarrow> 's processor \<Rightarrow> 's processor" where
  "finishTask processEntry eb s = (case runTask processEntry (fst eb) (task s) of
       (Inl e, t) \<Rightarrow> s\<lparr>task := t, pc := Terminated e\<rparr>
     | (Inr _, t) \<Rightarrow> s\<lparr>task := t, running := remove1 eb (running s), finishedBuffers := insert (snd eb) (finishedBuffers s),
         pc := if pc s = Blocked then Checking else pc s\<rparr>)"

text \<open>
  \<open>buffer\<close> is an admissible result of \<^verbatim>\<open>readAsBinary\<close>: null, or memory that is not in use.
\<close>

definition freshBuffer :: "nat option \<Rightarrow> 's processor \<Rightarrow> bool" where
  "freshBuffer b s \<longleftrightarrow> (case b of None \<Rightarrow> True | Some a \<Rightarrow> a \<notin> allocated s)"

definition alive :: "'s processor \<Rightarrow> bool" where
  "alive s \<longleftrightarrow> (case pc s of Terminated _ \<Rightarrow> False | _ \<Rightarrow> True)"

inductive pstep :: "(jar_entry \<Rightarrow> ('s, unit) prog) \<Rightarrow> 's processor \<Rightarrow> 's processor \<Rightarrow> bool" for processEntry where
  check: "pc s = Checking \<Longrightarrow> pstep processEntry s (waitForAvailableBuffer s)"
| read: "pc s = Reading \<Longrightarrow> pending s \<noteq> [] \<Longrightarrow> freshBuffer b s \<Longrightarrow> pstep processEntry s (readEntry b s)"
| start: "alive s \<Longrightarrow> queued s = eb # ebs \<Longrightarrow> length (running s) < threadPoolSize \<Longrightarrow>
    pstep processEntry s (s\<lparr>queued := ebs, running := running s @ [eb]\<rparr>)"
| finish: "alive s \<Longrightarrow> eb \<in> set (running s) \<Longrightarrow> pstep processEntry s (finishTask processEntry eb s)"
| joined: "pc s = Joining \<Longrightarrow> queued s = [] \<Longrightarrow> running s = [] \<Longrightarrow> pstep processEntry s (s\<lparr>pc := Returned\<rparr>)"

inductive_cases pstepE [elim]: "pstep processEntry s s'"

definition psteps :: "(jar_entry \<Rightarrow> ('s, unit) prog) \<Rightarrow> 's processor \<Rightarrow> 's processor \<Rightarrow> bool" where
  "psteps processEntry = (pstep processEntry)\<^sup>*\<^sup>*"

section \<open>The reference: one entry after the other\<close>

primrec runTasks :: "(jar_entry \<Rightarrow> ('s, unit) prog) \<Rightarrow> zip_entry list \<Rightarrow> ('s, unit) prog" where
  "runTasks processEntry [] = ret ()"
| "runTasks processEntry (e # es) = andThen (runTask processEntry e) (\<lambda>_. runTasks processEntry es)"

lemma runTasks_append: "runTasks pe (xs @ ys) = andThen (runTasks pe xs) (\<lambda>_. runTasks pe ys)"
  by (induction xs) (simp_all add: andThen_assoc)

definition classEntries :: "zip_entry list \<Rightarrow> jar_entry list" where
  "classEntries entries = filter isClassfile (map newJarEntry entries)"

lemma runTasks_classes: "runTasks pe entries = andThen (mapProg pe (classEntries entries)) (\<lambda>_. ret ())"
  by (induction entries) (simp_all add: runTask_def classEntries_def Let_def andThen_assoc)

section \<open>No run goes on for ever\<close>

fun pcWeight :: "reader_pc \<Rightarrow> nat" where
  "pcWeight Checking = 2"
| "pcWeight Joining = 2"
| "pcWeight (Terminated e) = 0"
| "pcWeight _ = 1"

definition work :: "'s processor \<Rightarrow> nat" where
  "work s = 6 * length (pending s) + 4 * length (queued s) + 3 * length (running s) + pcWeight (pc s)"

lemma pcWeight_le: "pcWeight p \<le> 2"
  by (cases p) auto

lemma length_remove1_mem: "x \<in> set xs \<Longrightarrow> length xs = Suc (length (remove1 x xs))"
  using length_pos_if_in_set [of x xs] by (simp add: length_remove1)

lemma finishTask_work: "alive s \<Longrightarrow> eb \<in> set (running s) \<Longrightarrow> work (finishTask pe eb s) < work s"
  by (cases "pc s") (auto simp: finishTask_def work_def alive_def length_remove1_mem split: prod.split sum.split)

lemma pstep_work: "pstep pe s s' \<Longrightarrow> work s' < work s"
proof (erule pstepE)
  show "work s' < work s" if "s' = waitForAvailableBuffer s" "pc s = Checking"
    using that by (simp add: work_def waitForAvailableBuffer_def drain_def Let_def)
  show "work s' < work s" if "s' = readEntry b s" "pc s = Reading" "pending s \<noteq> []" for b
    using that by (cases "pending s") (auto simp: work_def readEntry_def)
  show "work s' < work s" if "s' = finishTask pe eb s" "alive s" "eb \<in> set (running s)" for eb
    using that finishTask_work by blast
qed (simp_all add: work_def)

section \<open>What holds in every reachable state\<close>

definition inFlight :: "'s processor \<Rightarrow> (zip_entry \<times> nat option) list" where
  "inFlight s = running s @ queued s"

definition pcOk :: "'s processor \<Rightarrow> bool" where
  "pcOk s = (case pc s of
       Checking \<Rightarrow> pending s \<noteq> []
     | Blocked \<Rightarrow> pending s \<noteq> [] \<and> finishedBuffers s = {} \<and> inFlight s \<noteq> [] \<and> inProgressBufferCount s = MaxConcurrentBuffers
     | Reading \<Rightarrow> pending s \<noteq> [] \<and> inProgressBufferCount s < MaxConcurrentBuffers
     | Joining \<Rightarrow> pending s = []
     | Returned \<Rightarrow> pending s = [] \<and> inFlight s = []
     | Terminated e \<Rightarrow> True)"

definition buffersOk :: "'s processor \<Rightarrow> bool" where
  "buffersOk s \<longleftrightarrow> finite (finishedBuffers s) \<and> length (running s) \<le> threadPoolSize \<and>
     int (length (inFlight s)) + int (card (finishedBuffers s)) \<le> inProgressBufferCount s \<and>
     inProgressBufferCount s \<le> MaxConcurrentBuffers \<and>
     (inProgressBufferCount s = MaxConcurrentBuffers \<longrightarrow> inFlight s \<noteq> [] \<or> finishedBuffers s \<noteq> {}) \<and>
     Some ` allocated s \<subseteq> snd ` set (inFlight s) \<union> finishedBuffers s"

text \<open>The entries handled so far have left the task state as the sequential run would.\<close>

definition outcomeOk :: "(jar_entry \<Rightarrow> ('s, unit) prog) \<Rightarrow> zip_entry list \<Rightarrow> 's \<Rightarrow> 's processor \<Rightarrow> bool" where
  "outcomeOk pe entries t s \<longleftrightarrow> (case pc s of
       Terminated e \<Rightarrow> runTasks pe entries t = (Inl e, task s)
     | _ \<Rightarrow> \<exists>handled. entries = handled @ map fst (inFlight s) @ pending s \<and> runTasks pe handled t = (Inr (), task s))"

definition processorInv :: "(jar_entry \<Rightarrow> ('s, unit) prog) \<Rightarrow> zip_entry list \<Rightarrow> 's \<Rightarrow> 's processor \<Rightarrow> bool" where
  "processorInv pe entries t s \<longleftrightarrow> pcOk s \<and> buffersOk s \<and> outcomeOk pe entries t s"

lemma processorInv_init: "processorInv pe entries t (newProcessor entries t)"
  by (auto simp: processorInv_def pcOk_def buffersOk_def outcomeOk_def newProcessor_def inFlight_def MaxConcurrentBuffers_def)

lemma processorInv_check:
  assumes "processorInv pe entries t s" "pc s = Checking" shows "processorInv pe entries t (waitForAvailableBuffer s)"
proof -
  let ?n = "inProgressBufferCount s - int (card (finishedBuffers s))"
  have b: "buffersOk s" and p: "pending s \<noteq> []" and o: "outcomeOk pe entries t s" using assms by (auto simp: processorInv_def pcOk_def)
  have fin: "card (finishedBuffers s) = 0 \<longleftrightarrow> finishedBuffers s = {}" using b by (simp add: buffersOk_def)
  have "Some ` {a \<in> allocated s. Some a \<notin> finishedBuffers s} \<subseteq> snd ` set (inFlight s)" using b by (auto simp: buffersOk_def)
  moreover have "?n = MaxConcurrentBuffers \<Longrightarrow> finishedBuffers s = {} \<and> inFlight s \<noteq> []"
  proof -
    assume "?n = MaxConcurrentBuffers"
    then have "card (finishedBuffers s) = 0" using b unfolding buffersOk_def by linarith
    then show ?thesis using b fin \<open>?n = MaxConcurrentBuffers\<close> by (simp add: buffersOk_def)
  qed
  ultimately show ?thesis
    using b p o assms(2)
    by (auto simp: processorInv_def pcOk_def buffersOk_def outcomeOk_def waitForAvailableBuffer_def drain_def Let_def inFlight_def)
qed

lemma processorInv_read:
  assumes "processorInv pe entries t s" "pc s = Reading" shows "processorInv pe entries t (readEntry b s)"
proof -
  obtain e es where p: "pending s = e # es" using assms by (cases "pending s") (auto simp: processorInv_def pcOk_def)
  then show ?thesis using assms
    by (auto simp: processorInv_def pcOk_def buffersOk_def outcomeOk_def readEntry_def inFlight_def split: option.splits)
qed

lemma processorInv_start:
  assumes "processorInv pe entries t s" "queued s = eb # ebs" "length (running s) < threadPoolSize"
  shows "processorInv pe entries t (s\<lparr>queued := ebs, running := running s @ [eb]\<rparr>)"
proof -
  have "inFlight (s\<lparr>queued := ebs, running := running s @ [eb]\<rparr>) = inFlight s" using assms(2) by (simp add: inFlight_def)
  then show ?thesis using assms
    by (cases "pc s") (auto simp: processorInv_def pcOk_def buffersOk_def outcomeOk_def)
qed

lemma finish_outcome:
  assumes "outcomeOk pe entries t s" "alive s" "running s = [eb]" shows "outcomeOk pe entries t (finishTask pe eb s)"
proof -
  from assms obtain handled where h: "entries = handled @ fst eb # map fst (queued s) @ pending s" "runTasks pe handled t = (Inr (), task s)"
    by (cases "pc s") (auto simp: outcomeOk_def alive_def inFlight_def)
  show ?thesis
  proof (cases "runTask pe (fst eb) (task s)")
    case (Pair r t')
    show ?thesis
    proof (cases r)
      case (Inl e)
      then show ?thesis using h Pair by (simp add: outcomeOk_def finishTask_def runTasks_append)
    next
      case (Inr u)
      have "runTasks pe (handled @ [fst eb]) t = (Inr (), t')" using h Pair Inr by (simp add: runTasks_append)
      moreover have "entries = (handled @ [fst eb]) @ map fst (queued s) @ pending s" using h(1) by simp
      ultimately show ?thesis using Pair Inr assms(2,3)
        by (cases "pc s") (auto simp: outcomeOk_def finishTask_def alive_def inFlight_def)
    qed
  qed
qed

lemma finish_buffers:
  assumes "buffersOk s" "running s = [eb]" shows "buffersOk (finishTask pe eb s)"
proof -
  have card: "card (insert (snd eb) (finishedBuffers s)) \<le> Suc (card (finishedBuffers s))" by (rule card_insert_le_m1) auto
  show ?thesis using assms card
    by (auto simp: buffersOk_def finishTask_def inFlight_def threadPoolSize_def split: prod.split sum.split)
qed

lemma finish_pc: "pcOk s \<Longrightarrow> alive s \<Longrightarrow> running s = [eb] \<Longrightarrow> pcOk (finishTask pe eb s)"
  by (cases "pc s") (auto simp: pcOk_def finishTask_def alive_def inFlight_def split: prod.split sum.split)

lemma processorInv_step:
  assumes "pstep pe s s'" "processorInv pe entries t s" shows "processorInv pe entries t s'"
  using assms(1)
proof cases
  case (finish eb)
  have "length (running s) \<le> 1" using assms(2) by (simp add: processorInv_def buffersOk_def threadPoolSize_def)
  then have "running s = [eb]" using finish(3) by (cases "running s") auto
  then show ?thesis using assms(2) finish by (simp add: processorInv_def finish_outcome finish_buffers finish_pc)
next
  case joined
  then show ?thesis using assms(2)
    by (auto simp: processorInv_def pcOk_def buffersOk_def outcomeOk_def inFlight_def)
qed (use assms(2) in \<open>simp_all add: processorInv_check processorInv_read processorInv_start\<close>)

lemma processorInv_reachable:
  assumes "psteps pe (newProcessor entries t) s" shows "processorInv pe entries t s"
  using assms unfolding psteps_def
  by (induction rule: rtranclp_induct) (auto intro: processorInv_init processorInv_step)

text \<open>
  A spurious wake-up of the condition variable is harmless: the predicate is evaluated again and
  the reader blocks in the same state.
\<close>

lemma spurious_wakeup:
  assumes "psteps pe (newProcessor entries t) s" "pc s = Blocked" shows "waitForAvailableBuffer (s\<lparr>pc := Checking\<rparr>) = s"
  using processorInv_reachable [OF assms(1)] assms(2)
  by (cases s) (auto simp: processorInv_def pcOk_def waitForAvailableBuffer_def drain_def)

section \<open>The run of a processor\<close>

lemma processor_progress:
  assumes "processorInv pe entries t s" "alive s" "pc s \<noteq> Returned" shows "\<exists>s'. pstep pe s s'"
proof (cases "inFlight s = []")
  case True
  then have "queued s = []" "running s = []" by (simp_all add: inFlight_def)
  moreover have "freshBuffer None s" by (simp add: freshBuffer_def)
  ultimately show ?thesis
    using assms True pstep.check [of s pe] pstep.read [of s None pe] pstep.joined [of s pe]
    by (cases "pc s") (auto simp: processorInv_def pcOk_def alive_def)
next
  case False
  show ?thesis
  proof (cases "running s")
    case Nil
    with False obtain eb ebs where "queued s = eb # ebs" by (cases "queued s") (auto simp: inFlight_def)
    moreover have "length (running s) < threadPoolSize" using Nil by (simp add: threadPoolSize_def)
    ultimately show ?thesis using pstep.start [OF assms(2)] by blast
  next
    case (Cons eb ebs)
    then show ?thesis using pstep.finish [OF assms(2), of eb pe] by auto
  qed
qed

lemma processor_outcome:
  assumes "processorInv pe entries t s" "pc s = Returned \<or> \<not> alive s"
  shows "case mapProg pe (classEntries entries) t of
      (Inr _, t') \<Rightarrow> pc s = Returned \<and> task s = t' | (Inl e, t') \<Rightarrow> pc s = Terminated e \<and> task s = t'"
proof -
  have run: "runTasks pe entries t = (case mapProg pe (classEntries entries) t of (Inr _, t') \<Rightarrow> (Inr (), t') | (Inl e, t') \<Rightarrow> (Inl e, t'))"
    by (simp add: runTasks_classes andThen_def split: prod.split sum.split)
  have "runTasks pe entries t = (case pc s of Terminated e \<Rightarrow> (Inl e, task s) | _ \<Rightarrow> (Inr (), task s))"
    using assms by (cases "pc s") (auto simp: processorInv_def outcomeOk_def pcOk_def alive_def)
  then show ?thesis using assms(2) run by (cases "pc s") (auto simp: alive_def split: prod.splits sum.splits)
qed

text \<open>(C19)
  Reading a jar always completes: whatever the order in which the reading thread and the pool
  run, and whichever entries turn out unreadable, there is no infinite run and no run that stops
  before its end.  A run that has stopped has processed exactly the class entries of the archive,
  in their order; it has returned, or it was ended by the fault the sequential run meets.
\<close>

theorem processor_completes:
  "(\<nexists>f. f 0 = newProcessor entries t \<and> (\<forall>i. pstep pe (f i) (f (Suc i)))) \<and>
   (\<forall>s. psteps pe (newProcessor entries t) s \<longrightarrow> (\<nexists>s'. pstep pe s s') \<longrightarrow>
      (case mapProg pe (classEntries entries) t of
         (Inr _, t') \<Rightarrow> pc s = Returned \<and> task s = t'
       | (Inl e, t') \<Rightarrow> pc s = Terminated e \<and> task s = t'))"
proof (intro conjI allI impI)
  show "\<nexists>f. f 0 = newProcessor entries t \<and> (\<forall>i. pstep pe (f i) (f (Suc i)))"
  proof
    assume "\<exists>f. f 0 = newProcessor entries t \<and> (\<forall>i. pstep pe (f i) (f (Suc i)))"
    then obtain f where "\<forall>i. pstep pe (f i) (f (Suc i))" by blast
    then have "\<forall>i. (f (Suc i), f i) \<in> measure work" by (auto intro: pstep_work)
    then show False using wf_measure [of work] unfolding wf_iff_no_infinite_down_chain by blast
  qed
next
  fix s assume "psteps pe (newProcessor entries t) s" and stuck: "\<nexists>s'. pstep pe s s'"
  then have inv: "processorInv pe entries t s" by (simp add: processorInv_reachable)
  have "pc s = Returned \<or> \<not> alive s" using processor_progress [OF inv] stuck by auto
  with inv show "case mapProg pe (classEntries entries) t of
      (Inr _, t') \<Rightarrow> pc s = Returned \<and> task s = t' | (Inl e, t') \<Rightarrow> pc s = Terminated e \<and> task s = t'"
    by (rule processor_outcome)
qed

text \<open>(C20)
  Memory stays bounded: at every moment of every run at most 40 buffers are allocated, and the
  counter the reading thread waits on is between 0 and 40.
\<close>

theorem processor_memory_bounded:
  assumes "psteps pe (newProcessor entries t) s"
  shows "card (allocated s) \<le> 40 \<and> 0 \<le> inProgressBufferCount s \<and> inProgressBufferCount s \<le> 40"
proof -
  let ?used = "snd ` set (inFlight s) \<union> finishedBuffers s"
  have inv: "buffersOk s" using processorInv_reachable [OF assms] by (simp add: processorInv_def)
  have "card (allocated s) = card (Some ` allocated s)" by (simp add: card_image)
  also have "\<dots> \<le> card ?used" using inv by (intro card_mono) (auto simp: buffersOk_def)
  also have "\<dots> \<le> card (snd ` set (inFlight s)) + card (finishedBuffers s)" by (rule card_Un_le)
  also have "\<dots> \<le> length (inFlight s) + card (finishedBuffers s)"
    using card_image_le [of "set (inFlight s)" snd] card_length [of "inFlight s"] by simp
  finally show ?thesis using inv by (simp add: buffersOk_def MaxConcurrentBuffers_def)
qed

section \<open>The last buffers are never deleted\<close>

lemma joining_keeps_allocated:
  "psteps pe s s' \<Longrightarrow> (\<exists>e. pc s = Terminated e) \<or> pc s = Joining \<or> pc s = Returned \<Longrightarrow> allocated s' = allocated s"
  unfolding psteps_def
proof (induction rule: converse_rtranclp_induct)
  case (step y z)
  from step.hyps(1) step.prems have "((\<exists>e. pc z = Terminated e) \<or> pc z = Joining \<or> pc z = Returned) \<and> allocated z = allocated y"
    by (cases rule: pstep.cases) (auto simp: finishTask_def split: prod.split sum.split)
  with step.IH show ?case by simp
qed simp

text \<open>The buffers of a jar are deleted only while the reading thread waits for room, so the buffer of
  the last entry stays allocated in every state after it has been read, the end of the run
  included.
\<close>

lemma processor_leaks_last_buffer:
  assumes "pending s = [e]" "psteps pe (readEntry (Some a) s) s'" shows "a \<in> allocated s'"
proof -
  have "pc (readEntry (Some a) s) = Joining" "a \<in> allocated (readEntry (Some a) s)" using assms(1) by (simp_all add: readEntry_def)
  then show ?thesis using joining_keeps_allocated [OF assms(2)] by simp
qed

section \<open>A run\<close>

definition oneClass :: zip_entry where
  "oneClass = \<lparr>zipName = ''p/A.class'', zipIsFile = True, zipDate = 1, zipSize = 3, zipCRC = 7, zipContent = [1, 2, 3]\<rparr>"

definition countEntry :: "jar_entry \<Rightarrow> (nat, unit) prog" where
  "countEntry je = modify Suc"

definition sampleReading :: "nat processor" where
  "sampleReading = waitForAvailableBuffer (newProcessor [oneClass] 0)"

definition sampleEnd :: "nat processor" where
  "sampleEnd = \<lparr>pc = Returned, pending = [], queued = [], running = [], finishedBuffers = {Some 8}, inProgressBufferCount = 1,
     allocated = {8}, task = 1\<rparr>"

lemma sampleReading_eq:
  "sampleReading = \<lparr>pc = Reading, pending = [oneClass], queued = [], running = [], finishedBuffers = {}, inProgressBufferCount = 0,
     allocated = {}, task = 0\<rparr>"
  by (simp add: sampleReading_def newProcessor_def waitForAvailableBuffer_def drain_def MaxConcurrentBuffers_def)

lemma sample_reads: "pstep countEntry (newProcessor [oneClass] 0) sampleReading"
  unfolding sampleReading_def by (rule pstep.check) (simp add: newProcessor_def)

lemma sample_ends: "psteps countEntry (readEntry (Some 8) sampleReading) sampleEnd"
proof -
  let ?s = "readEntry (Some 8) sampleReading"
  let ?s1 = "?s\<lparr>queued := [], running := running ?s @ [(oneClass, Some 8)]\<rparr>"
  let ?s2 = "finishTask countEntry (oneClass, Some 8) ?s1"
  have "pstep countEntry ?s ?s1"
    by (rule pstep.start) (simp_all add: sampleReading_eq readEntry_def alive_def threadPoolSize_def)
  moreover have "pstep countEntry ?s1 ?s2"
    by (rule pstep.finish) (simp_all add: sampleReading_eq readEntry_def alive_def)
  moreover have "pstep countEntry ?s2 (?s2\<lparr>pc := Returned\<rparr>)"
    by (rule pstep.joined)
      (simp_all add: sampleReading_eq readEntry_def finishTask_def runTask_def countEntry_def newJarEntry_def oneClass_def Let_def split: prod.split sum.split)
  moreover have "?s2\<lparr>pc := Returned\<rparr> = sampleEnd"
    by (simp add: sampleEnd_def sampleReading_eq readEntry_def finishTask_def runTask_def countEntry_def newJarEntry_def oneClass_def
        Let_def ClassFileExt_def suffix_def)
  ultimately show ?thesis unfolding psteps_def
    by (simp only:)
qed

lemma sample_run: "psteps countEntry (newProcessor [oneClass] 0) sampleEnd"
proof -
  have "pstep countEntry sampleReading (readEntry (Some 8) sampleReading)"
    by (rule pstep.read) (simp_all add: sampleReading_eq freshBuffer_def)
  with sample_reads sample_ends show ?thesis unfolding psteps_def by (meson converse_rtranclp_into_rtranclp)
qed

lemma sample_stuck: "\<nexists>s'. pstep countEntry sampleEnd s'"
  by (auto elim!: pstep.cases simp: sampleEnd_def)

theorem processor_completes_witness:
  "psteps countEntry (newProcessor [oneClass] 0) sampleEnd \<and> (\<nexists>s'. pstep countEntry sampleEnd s') \<and>
   pc sampleEnd = Returned \<and> snd (mapProg countEntry (classEntries [oneClass]) 0) = task sampleEnd"
proof -
  have "mapProg countEntry (classEntries [oneClass]) 0 = (Inr [()], 1)"
    by (simp add: classEntries_def countEntry_def newJarEntry_def oneClass_def ClassFileExt_def suffix_def Let_def)
  then show ?thesis
    using sample_run sample_stuck processor_completes [of "[oneClass]" 0 countEntry, THEN conjunct2, rule_format, OF sample_run sample_stuck]
    by simp
qed

theorem processor_memory_bounded_witness: "card (allocated sampleEnd) \<le> 40 \<and> allocated sampleEnd = {8}"
  using processor_memory_bounded [OF sample_run] by (simp add: sampleEnd_def)

lemma processor_leaks_last_buffer_witness: "pc sampleEnd = Returned \<and> 8 \<in> allocated sampleEnd"
  using processor_leaks_last_buffer [OF _ sample_ends] by (simp add: sampleReading_eq sampleEnd_def)

end
