(* ===== verification/Cf_Diff.thy ===== *)
theory Cf_Diff
  imports Class_File_Parser String_Utils "HOL-Library.AList" "HOL-Library.Multiset"
begin

text \<open>
  The comparison of two class files (\<^verbatim>\<open>interfaces/cfdiff/ClassfileDiffApp.cpp\<close>): class name, super
  class, flags, interfaces, attributes, methods and fields of the left class are compared with the
  right one; differences are logged and counted in 32 bits.  Names are collected in hash maps,
  whose order of iteration is not specified; it is the parameter \<open>order\<close>, a rearrangement of the
  keys.  The log is the log file: \<^verbatim>\<open>writelnRed\<close> and \<^verbatim>\<open>writelnGreen\<close> pass their colour codes to \<^verbatim>\<open>Log::write\<close> as
  prefix and postfix, which go to the console only, while the codes inside the messages about fields go
  to both.
\<close>

section \<open>Hash maps\<close>

type_synonym 'v hmap = "(string \<times> 'v) list"
type_synonym hash_order = "string list \<Rightarrow> string list"

definition rearranges :: "hash_order \<Rightarrow> bool" where
  "rearranges order \<longleftrightarrow> (\<forall>ks. mset (order ks) = mset ks)"

definition hmKeys :: "hash_order \<Rightarrow> 'v hmap \<Rightarrow> string list" where
  "hmKeys order m = order (map fst m)"

definition hmEntries :: "hash_order \<Rightarrow> 'v hmap \<Rightarrow> (string \<times> 'v) list" where
  "hmEntries order m = map (\<lambda>k. (k, the (map_of m k))) (hmKeys order m)"

text \<open>\<^verbatim>\<open>map[name(x)] = x\<close> for the elements of a vector.\<close>

primrec namedMap :: "('a \<Rightarrow> string result) \<Rightarrow> 'a list \<Rightarrow> 'a hmap \<Rightarrow> 'a hmap result" where
  "namedMap name [] m = Inr m"
| "namedMap name (x # xs) m = bindR (name x) (\<lambda>k. namedMap name xs (AList.update k x m))"

section \<open>State and messages\<close>

record diff_options =
  ignoreClassname :: bool
  publicOnly :: bool
  ignoredAttributes :: "string set"

record diff_state =
  differenceCount :: u4
  diffLog :: "string list"

type_synonym 'a diff = "(diff_state, 'a) prog"

definition logLine :: "string \<Rightarrow> unit diff" where
  "logLine s = modify (\<lambda>d. d\<lparr>diffLog := diffLog d @ [s]\<rparr>)"

definition countDifferences :: "u4 \<Rightarrow> unit diff" where
  "countDifferences n = modify (\<lambda>d. d\<lparr>differenceCount := differenceCount d + n\<rparr>)"

definition red :: "string \<Rightarrow> string" where
  "red s = CHR 0x1B # ''[31m'' @ s @ CHR 0x1B # ''[0m''"

definition green :: "string \<Rightarrow> string" where
  "green s = CHR 0x1B # ''[32m'' @ s @ CHR 0x1B # ''[0m''"

definition newline :: string where
  "newline = [CHR 0x0A]"

text \<open>\<^verbatim>\<open>{:x}\<close>: hexadecimal without leading zeros.\<close>

fun hexText :: "nat \<Rightarrow> string" where
  "hexText n = (if n < 16 then [digitChar n] else hexText (n div 16) @ [digitChar (n mod 16)])"

declare hexText.simps [simp del]

section \<open>Comparisons\<close>

definition stringOf :: "class_file_parser \<Rightarrow> u2 \<Rightarrow> string result" where
  "stringOf parser constantPoolIndex = getString (constantPool parser) constantPoolIndex False"

definition classInfoNameOf :: "class_file_parser \<Rightarrow> u2 \<Rightarrow> string result" where
  "classInfoNameOf parser classInfoIndex = getClassInfoName (constantPool parser) classInfoIndex"

definition compareSuperClass :: "class_file_parser \<Rightarrow> class_file_parser \<Rightarrow> unit diff" where
  "compareSuperClass left right =
     andThen (liftR (classInfoNameOf left (superClass (mainClassInfo left)))) (\<lambda>l.
     andThen (liftR (classInfoNameOf right (superClass (mainClassInfo right)))) (\<lambda>r.
     if l = r then logLine (''Superclass is equal: '' @ l)
     else andThen (countDifferences 1) (\<lambda>_. logLine (''Superclass differs: '' @ l @ '', '' @ r))))"

definition compareAccessFlags :: "u2 \<Rightarrow> u2 \<Rightarrow> (bool \<times> string) diff" where
  "compareAccessFlags l r =
     (if l \<noteq> r then andThen (countDifferences 1) (\<lambda>_. ret (False,
        red (''Access flags differ:'' @ newline @ ''left('' @ hexText (unat l) @ ''):'' @ accessToString l @ newline @
          ''right('' @ hexText (unat r) @ ''):'' @ accessToString r)))
      else ret (True, green (''Access flags are equal: '' @ accessToString r)))"

definition compareMainClassAccessFlags :: "class_file_parser \<Rightarrow> class_file_parser \<Rightarrow> unit diff" where
  "compareMainClassAccessFlags left right =
     andThen (compareAccessFlags (classAccessFlags (mainClassInfo left)) (classAccessFlags (mainClassInfo right))) (\<lambda>(ok, message).
       logLine message)"

definition compareMainClassname :: "diff_options \<Rightarrow> class_file_parser \<Rightarrow> class_file_parser \<Rightarrow> unit diff" where
  "compareMainClassname opts left right =
     andThen (liftR (getMainClassname left)) (\<lambda>l. andThen (liftR (getMainClassname right)) (\<lambda>r.
     if ignoreClassname opts then logLine (''Main class name ignored: '' @ l @ '', '' @ r)
     else if l \<noteq> r then andThen (countDifferences 1) (\<lambda>_. logLine (''Main class name differs: '' @ l @ '', '' @ r))
     else logLine ''Main class name is equal''))"

fun interfacesLoop :: "string list \<Rightarrow> u2 hmap \<Rightarrow> u2 hmap diff" where
  "interfacesLoop [] rightMap = ret rightMap"
| "interfacesLoop (name # names) rightMap =
     (if map_of rightMap name \<noteq> None
      then andThen (logLine (''Interface '' @ name @ '' is equal'')) (\<lambda>_. interfacesLoop names (AList.delete name rightMap))
      else andThen (countDifferences 1) (\<lambda>_. andThen (logLine (''Interface '' @ name @ '' is only in left'')) (\<lambda>_.
        interfacesLoop names rightMap)))"

text \<open>The closing loop over what is left of the right map.\<close>

fun onlyRightLoop :: "(string \<Rightarrow> string) \<Rightarrow> string list \<Rightarrow> unit diff" where
  "onlyRightLoop message [] = ret ()"
| "onlyRightLoop message (name # names) =
     andThen (countDifferences 1) (\<lambda>_. andThen (logLine (message name)) (\<lambda>_. onlyRightLoop message names))"

definition compareMainClassInterfaces :: "hash_order \<Rightarrow> class_file_parser \<Rightarrow> class_file_parser \<Rightarrow> unit diff" where
  "compareMainClassInterfaces order left right =
     andThen (liftR (namedMap (classInfoNameOf left) (interfaces left) [])) (\<lambda>leftMap.
     andThen (liftR (namedMap (classInfoNameOf right) (interfaces right) [])) (\<lambda>rightMap.
     andThen (interfacesLoop (hmKeys order leftMap) rightMap) (\<lambda>rightMap.
     onlyRightLoop (\<lambda>name. ''Interface '' @ name @ '' is only in right'') (hmKeys order rightMap))))"

definition sameAttribute :: "attribute_info \<Rightarrow> attribute_info \<Rightarrow> bool" where
  "sameAttribute a b \<longleftrightarrow> attrLength a = attrLength b \<and> attrInfo a = attrInfo b"

fun attributesLoop :: "string set \<Rightarrow> (string \<times> attribute_info) list \<Rightarrow> attribute_info hmap \<Rightarrow> u4 \<Rightarrow> string list \<Rightarrow>
    attribute_info hmap \<times> u4 \<times> string list" where
  "attributesLoop ignored [] rightMap differences messages = (rightMap, differences, messages)"
| "attributesLoop ignored ((name, leftInfo) # as) rightMap differences messages =
     (if name \<in> ignored then attributesLoop ignored as rightMap differences messages
      else (case map_of rightMap name of
          Some rightInfo \<Rightarrow>
            if sameAttribute leftInfo rightInfo
            then attributesLoop ignored as (AList.delete name rightMap) differences (messages @ [green (''Attribute '' @ name @ '' is equal'')])
            else attributesLoop ignored as (AList.delete name rightMap) (differences + 1) (messages @ [red (''Attribute '' @ name @ '' differs'')])
        | None \<Rightarrow> attributesLoop ignored as rightMap differences (messages @ [red (''Attribute '' @ name @ '' is missing in right'')])))"

fun missingInLeft :: "string set \<Rightarrow> string list \<Rightarrow> u4 \<Rightarrow> string list \<Rightarrow> u4 \<times> string list" where
  "missingInLeft ignored [] differences messages = (differences, messages)"
| "missingInLeft ignored (name # names) differences messages =
     (if name \<in> ignored then missingInLeft ignored names differences messages
      else missingInLeft ignored names (differences + 1) (messages @ [red (''Attribute '' @ name @ '' is missing in left'')]))"

definition compareAttributes :: "hash_order \<Rightarrow> diff_options \<Rightarrow> class_file_parser \<Rightarrow> class_file_parser \<Rightarrow>
    attribute_info list \<Rightarrow> attribute_info list \<Rightarrow> (bool \<times> string) diff" where
  "compareAttributes order opts left right ls rs =
     andThen (liftR (namedMap (\<lambda>a. stringOf left (attrNameIndex a)) ls [])) (\<lambda>leftMap.
     andThen (liftR (namedMap (\<lambda>a. stringOf right (attrNameIndex a)) rs [])) (\<lambda>rightMap.
     let (rightMap, differences, messages) = attributesLoop (ignoredAttributes opts) (hmEntries order leftMap) rightMap 0 [];
         (differences, messages) = missingInLeft (ignoredAttributes opts) (hmKeys order rightMap) differences messages;
         result = (differences = 0);
         messages = (if result then messages @ [green ''Attributes are equal''] else messages)
     in andThen (countDifferences differences) (\<lambda>_. ret (result, join messages newline))))"

definition compareMainClassAttributes :: "hash_order \<Rightarrow> diff_options \<Rightarrow> class_file_parser \<Rightarrow> class_file_parser \<Rightarrow> unit diff" where
  "compareMainClassAttributes order opts left right =
     andThen (compareAttributes order opts left right (attributes left) (attributes right)) (\<lambda>(ok, message). logLine message)"

definition compareMainClass :: "hash_order \<Rightarrow> diff_options \<Rightarrow> class_file_parser \<Rightarrow> class_file_parser \<Rightarrow> unit diff" where
  "compareMainClass order opts left right =
     andThen (logLine ''Comparing main class:'') (\<lambda>_. andThen (compareMainClassname opts left right) (\<lambda>_.
     andThen (compareSuperClass left right) (\<lambda>_. andThen (compareMainClassAccessFlags left right) (\<lambda>_.
     andThen (compareMainClassInterfaces order left right) (\<lambda>_. compareMainClassAttributes order opts left right)))))"

definition compareDescriptors :: "class_file_parser \<Rightarrow> class_file_parser \<Rightarrow> u2 \<Rightarrow> u2 \<Rightarrow> (bool \<times> string) diff" where
  "compareDescriptors left right leftIndex rightIndex =
     andThen (liftR (stringOf left leftIndex)) (\<lambda>l. andThen (liftR (stringOf right rightIndex)) (\<lambda>r.
     if l = r then ret (True, green (''Descriptors are equal: '' @ l))
     else andThen (countDifferences 1) (\<lambda>_. ret (False, red (''Descriptors differ: '' @ l @ '', '' @ r)))))"

section \<open>Methods\<close>

definition areMethodsEqual :: "hash_order \<Rightarrow> diff_options \<Rightarrow> class_file_parser \<Rightarrow> class_file_parser \<Rightarrow> member_info \<Rightarrow> member_info \<Rightarrow> (bool \<times> string) diff" where
  "areMethodsEqual order opts left right l r =
     andThen (compareAccessFlags (accessFlags l) (accessFlags r)) (\<lambda>(flagsOk, flagsMessage).
     andThen (compareDescriptors left right (descriptorIndex l) (descriptorIndex r)) (\<lambda>(descriptorOk, descriptorMessage).
     andThen (compareAttributes order opts left right (memberAttributes l) (memberAttributes r)) (\<lambda>(attributesOk, attributeMessage).
     ret (attributesOk \<and> descriptorOk \<and> flagsOk, flagsMessage @ newline @ descriptorMessage @ newline @ attributeMessage))))"

fun rightMethodsLoop :: "hash_order \<Rightarrow> diff_options \<Rightarrow> class_file_parser \<Rightarrow> class_file_parser \<Rightarrow> string \<Rightarrow> string \<Rightarrow> member_info \<Rightarrow>
    member_info list \<Rightarrow> nat \<Rightarrow> string \<Rightarrow> (nat option \<times> string) diff" where
  "rightMethodsLoop order opts left right name descriptor l [] rightIndex allMessages = ret (None, allMessages)"
| "rightMethodsLoop order opts left right name descriptor l (r # rs) rightIndex allMessages =
     andThen (areMethodsEqual order opts left right l r) (\<lambda>(ok, message).
     if ok then andThen (logLine message) (\<lambda>_. andThen (logLine (''Method is equal '' @ name @ '' '' @ descriptor)) (\<lambda>_.
       ret (Some rightIndex, allMessages)))
     else rightMethodsLoop order opts left right name descriptor l rs (rightIndex + 1)
       (allMessages @ message @ newline @ CHR 0x1B # ''[31mMethod '' @ name @ '' differs'' @ newline @ CHR 0x1B # ''[0m''))"

text \<open>
  \<open>rightMethods\<close> is a reference to the vector the map holds under the name.  A match is erased from
  it, and the map entry too when nothing is left.
\<close>

definition compareToRightMethods :: "hash_order \<Rightarrow> diff_options \<Rightarrow> class_file_parser \<Rightarrow> class_file_parser \<Rightarrow> member_info \<Rightarrow>
    member_info list hmap \<Rightarrow> member_info list \<Rightarrow> member_info list hmap diff" where
  "compareToRightMethods order opts left right l rightMap rightMethods =
     andThen (liftR (stringOf left (nameIndex l))) (\<lambda>name.
     andThen (liftR (stringOf left (descriptorIndex l))) (\<lambda>descriptor.
     andThen (logLine (''Comparing '' @ name @ '' '' @ descriptor)) (\<lambda>_.
     andThen getState (\<lambda>d. let prevDifferenceCount = differenceCount d in
     andThen (rightMethodsLoop order opts left right name descriptor l rightMethods 0 []) (\<lambda>(match, allMessages). case match of
         Some rightIndex \<Rightarrow> andThen (modify (\<lambda>d. d\<lparr>differenceCount := prevDifferenceCount\<rparr>)) (\<lambda>_.
           let remaining = take rightIndex rightMethods @ drop (Suc rightIndex) rightMethods
           in ret (if remaining = [] then AList.delete name rightMap else AList.update name remaining rightMap))
       | None \<Rightarrow> andThen (logLine allMessages) (\<lambda>_. ret rightMap))))))"

text \<open>
  The loop over the left methods of one name.  After each of them the code reads
  \<^verbatim>\<open>rightMethods.empty()\<close>; when the entry has been erased, the vector no longer exists.
\<close>

fun leftMethodsLoop :: "hash_order \<Rightarrow> diff_options \<Rightarrow> class_file_parser \<Rightarrow> class_file_parser \<Rightarrow> string \<Rightarrow> member_info list \<Rightarrow>
    member_info list hmap \<Rightarrow> member_info list hmap diff" where
  "leftMethodsLoop order opts left right name [] rightMap = ret rightMap"
| "leftMethodsLoop order opts left right name (l # ls) rightMap = (case map_of rightMap name of
       None \<Rightarrow> throw Undefined
     | Some rightMethods \<Rightarrow> andThen (compareToRightMethods order opts left right l rightMap rightMethods) (\<lambda>rightMap.
         case map_of rightMap name of
           None \<Rightarrow> throw Undefined
         | Some rightMethods \<Rightarrow> if rightMethods = [] then ret rightMap else leftMethodsLoop order opts left right name ls rightMap))"

primrec extractMethods :: "diff_options \<Rightarrow> class_file_parser \<Rightarrow> member_info list \<Rightarrow> member_info list hmap \<Rightarrow> member_info list hmap result" where
  "extractMethods opts parser [] m = Inr m"
| "extractMethods opts parser (x # xs) m =
     (if publicOnly opts \<and> \<not> isPublic (accessFlags x) then extractMethods opts parser xs m
      else bindR (stringOf parser (nameIndex x)) (\<lambda>k.
        extractMethods opts parser xs (AList.update k ((case map_of m k of None \<Rightarrow> [] | Some ms \<Rightarrow> ms) @ [x]) m)))"

definition checkOverload :: "string \<Rightarrow> string \<Rightarrow> member_info list \<Rightarrow> unit diff" where
  "checkOverload side name infos =
     (if length infos > 1 then logLine (side @ '' method '' @ name @ '' has '' @ natToString (length infos) @ '' overloads'') else ret ())"

text \<open>Methods of one side only: \<open>side\<close> is \<^verbatim>\<open>left\<close> or \<^verbatim>\<open>right\<close>.\<close>

fun onlyMethodsLoop :: "class_file_parser \<Rightarrow> string \<Rightarrow> string \<Rightarrow> member_info list \<Rightarrow> unit diff" where
  "onlyMethodsLoop parser side name [] = ret ()"
| "onlyMethodsLoop parser side name (x # xs) = andThen (countDifferences 1) (\<lambda>_.
     andThen (liftR (stringOf parser (descriptorIndex x))) (\<lambda>descriptor.
     andThen (logLine (''Method '' @ name @ '' '' @ descriptor @ '' is only in '' @ side)) (\<lambda>_. onlyMethodsLoop parser side name xs)))"

fun methodsLoop :: "hash_order \<Rightarrow> diff_options \<Rightarrow> class_file_parser \<Rightarrow> class_file_parser \<Rightarrow> (string \<times> member_info list) list \<Rightarrow>
    member_info list hmap \<Rightarrow> member_info list hmap diff" where
  "methodsLoop order opts left right [] rightMap = ret rightMap"
| "methodsLoop order opts left right ((name, ls) # es) rightMap =
     andThen (checkOverload ''Left'' name ls) (\<lambda>_. andThen (case map_of rightMap name of
         Some rightMethods \<Rightarrow>
           andThen (logLine []) (\<lambda>_. andThen (logLine (''Method: '' @ name)) (\<lambda>_.
           andThen (checkOverload ''Right'' name rightMethods) (\<lambda>_.
           andThen (leftMethodsLoop order opts left right name ls rightMap) (\<lambda>rightMap.
           andThen (logLine []) (\<lambda>_. ret rightMap)))))
       | None \<Rightarrow> andThen (onlyMethodsLoop left ''left'' name ls) (\<lambda>_. ret rightMap))
     (methodsLoop order opts left right es))"

fun onlyRightMethods :: "class_file_parser \<Rightarrow> (string \<times> member_info list) list \<Rightarrow> unit diff" where
  "onlyRightMethods right [] = ret ()"
| "onlyRightMethods right ((name, rs) # es) = andThen (onlyMethodsLoop right ''right'' name rs) (\<lambda>_. onlyRightMethods right es)"

definition compareMethods :: "hash_order \<Rightarrow> diff_options \<Rightarrow> class_file_parser \<Rightarrow> class_file_parser \<Rightarrow> unit diff" where
  "compareMethods order opts left right =
     andThen (logLine []) (\<lambda>_. andThen (logLine ''Comparing methods:'') (\<lambda>_.
     andThen (liftR (extractMethods opts left (methods left) [])) (\<lambda>leftMap.
     andThen (liftR (extractMethods opts right (methods right) [])) (\<lambda>rightMap.
     andThen (methodsLoop order opts left right (hmEntries order leftMap) rightMap) (\<lambda>rightMap.
     onlyRightMethods right (hmEntries order rightMap))))))"

section \<open>Fields\<close>

definition comparedFields :: "diff_options \<Rightarrow> class_file_parser \<Rightarrow> member_info list" where
  "comparedFields opts parser = filter (\<lambda>f. \<not> (publicOnly opts \<and> \<not> isPublic (accessFlags f))) (classFields parser)"

definition compareField :: "hash_order \<Rightarrow> diff_options \<Rightarrow> class_file_parser \<Rightarrow> class_file_parser \<Rightarrow> string \<Rightarrow> member_info \<Rightarrow> member_info \<Rightarrow> unit diff" where
  "compareField order opts left right name l r =
     andThen getState (\<lambda>d. let prevDifferenceCount = differenceCount d in
     andThen (logLine []) (\<lambda>_. andThen (logLine (''Field: '' @ name)) (\<lambda>_.
     andThen (compareAccessFlags (accessFlags l) (accessFlags r)) (\<lambda>(ok1, m1). andThen (logLine m1) (\<lambda>_.
     andThen (compareDescriptors left right (descriptorIndex l) (descriptorIndex r)) (\<lambda>(ok2, m2). andThen (logLine m2) (\<lambda>_.
     andThen (compareAttributes order opts left right (memberAttributes l) (memberAttributes r)) (\<lambda>(ok3, m3). andThen (logLine m3) (\<lambda>_.
     andThen getState (\<lambda>d. if differenceCount d = prevDifferenceCount
       then logLine (green (''Field '' @ name @ '' is equal'')) else ret ()))))))))))"

fun fieldsLoop :: "hash_order \<Rightarrow> diff_options \<Rightarrow> class_file_parser \<Rightarrow> class_file_parser \<Rightarrow> (string \<times> member_info) list \<Rightarrow>
    member_info hmap \<Rightarrow> member_info hmap diff" where
  "fieldsLoop order opts left right [] rightMap = ret rightMap"
| "fieldsLoop order opts left right ((name, l) # es) rightMap = (case map_of rightMap name of
       Some r \<Rightarrow> andThen (compareField order opts left right name l r) (\<lambda>_.
         fieldsLoop order opts left right es (AList.delete name rightMap))
     | None \<Rightarrow> andThen (countDifferences 1) (\<lambda>_. andThen (logLine (red (''Field '' @ name @ '' is missing in right''))) (\<lambda>_.
         fieldsLoop order opts left right es rightMap)))"

definition compareFields :: "hash_order \<Rightarrow> diff_options \<Rightarrow> class_file_parser \<Rightarrow> class_file_parser \<Rightarrow> unit diff" where
  "compareFields order opts left right =
     andThen (logLine []) (\<lambda>_. andThen (logLine ''Comparing fields:'') (\<lambda>_.
     andThen (liftR (namedMap (\<lambda>f. stringOf left (nameIndex f)) (comparedFields opts left) [])) (\<lambda>leftMap.
     andThen (liftR (namedMap (\<lambda>f. stringOf right (nameIndex f)) (comparedFields opts right) [])) (\<lambda>rightMap.
     andThen (fieldsLoop order opts left right (hmEntries order leftMap) rightMap) (\<lambda>rightMap.
     andThen (logLine []) (\<lambda>_.
     onlyRightLoop (\<lambda>name. red (''Field '' @ name @ '' is missing in left'')) (hmKeys order rightMap)))))))"

definition compareMembers :: "hash_order \<Rightarrow> diff_options \<Rightarrow> class_file_parser \<Rightarrow> class_file_parser \<Rightarrow> unit diff" where
  "compareMembers order opts left right =
     andThen (compareMethods order opts left right) (\<lambda>_. compareFields order opts left right)"

definition compare :: "hash_order \<Rightarrow> diff_options \<Rightarrow> class_file_parser \<Rightarrow> class_file_parser \<Rightarrow> unit diff" where
  "compare order opts left right =
     andThen (compareMainClass order opts left right) (\<lambda>_. compareMembers order opts left right)"

section \<open>The program\<close>

definition outputResult :: "unit diff" where
  "outputResult = andThen (logLine []) (\<lambda>_. andThen (logLine []) (\<lambda>_. andThen getState (\<lambda>d.
     if differenceCount d = 0 then logLine ''No differences found''
     else logLine (natToString (unat (differenceCount d)) @ '' differences found''))))"

text \<open>
  \<^verbatim>\<open>start\<close> after the command line: both files are opened, then parsed; the right one is not parsed
  when the left one fails.  The log of the parsers goes to the same file.
\<close>

definition parseLogged :: "class_file_parser \<Rightarrow> (bool \<times> class_file_parser) diff" where
  "parseLogged p = (case parse p of (ok, p') \<Rightarrow>
     andThen (mapProg logLine (log p')) (\<lambda>_. andThen (liftR ok) (\<lambda>ok. ret (ok, p'))))"

definition reportFailure :: "class_file_parser \<Rightarrow> string \<Rightarrow> unit diff" where
  "reportFailure p file = (if \<not> parseSucceed p then logLine (''Failed to parse '' @ file) else ret ())"

definition start :: "hash_order \<Rightarrow> diff_options \<Rightarrow> bool \<Rightarrow> (string \<Rightarrow> bytes option) \<Rightarrow> string \<Rightarrow> string \<Rightarrow> nat diff" where
  "start order opts host fs leftFile rightFile =
     andThen (liftR (FileReader host fs leftFile)) (\<lambda>leftReader.
     andThen (liftR (FileReader host fs rightFile)) (\<lambda>rightReader.
     andThen (parseLogged (newParser leftReader leftFile [])) (\<lambda>(leftOk, left).
     andThen (if leftOk then parseLogged (newParser rightReader rightFile []) else ret (False, newParser rightReader rightFile []))
       (\<lambda>(rightOk, right).
     if leftOk \<and> rightOk then andThen (compare order opts left right) (\<lambda>_. andThen outputResult (\<lambda>_. ret 0))
     else andThen (reportFailure left leftFile) (\<lambda>_. andThen (reportFailure right rightFile) (\<lambda>_. ret 1))))))"

section \<open>Counting\<close>

text \<open>\<open>costs m x n\<close>: the comparison \<open>m\<close> returns \<open>x\<close> and adds \<open>n\<close> to the count, whatever it logs.\<close>

definition costs :: "'a diff \<Rightarrow> 'a \<Rightarrow> u4 \<Rightarrow> bool" where
  "costs m x n \<longleftrightarrow> (\<forall>d. \<exists>d'. m d = (Inr x, d') \<and> differenceCount d' = differenceCount d + n)"

lemma costs_ret [simp]: "costs (ret x) x 0"
  by (simp add: costs_def)

lemma costs_Pair [simp]: "costs (Pair (Inr x)) x 0"
  by (simp add: costs_def)

lemma costs_log: "costs (logLine s) () 0"
  by (simp add: costs_def logLine_def)

lemma costs_count: "costs (countDifferences n) () n"
  by (simp add: costs_def countDifferences_def)

lemma costs_lift: "r = Inr x \<Longrightarrow> costs (liftR r) x 0"
  by (simp add: costs_def)

lemma costs_andThen: "costs m x n \<Longrightarrow> costs (f x) y k \<Longrightarrow> costs (andThen m f) y (n + k)"
  unfolding costs_def by (metis add.assoc andThen_ok)

lemma costs_step: "costs m x n \<Longrightarrow> costs (f x) y k \<Longrightarrow> t = n + k \<Longrightarrow> costs (andThen m f) y t"
  by (simp add: costs_andThen)

lemma costs_pair: "costs m (a, b) n \<Longrightarrow> costs (g a b) y k \<Longrightarrow> costs (andThen m (\<lambda>(a, b). g a b)) y (n + k)"
  using costs_andThen [of m "(a, b)" n "\<lambda>(a, b). g a b"] by simp

lemma costs_logThen: "costs m y k \<Longrightarrow> costs (andThen (logLine s) (\<lambda>_. m)) y k"
  using costs_step [OF costs_log, of "\<lambda>_. m" y k k s] by simp

lemma costs_countThen: "costs m y k \<Longrightarrow> t = n + k \<Longrightarrow> costs (andThen (countDifferences n) (\<lambda>_. m)) y t"
  by (rule costs_step [OF costs_count])

lemma costs_liftThen: "r = Inr x \<Longrightarrow> costs (f x) y k \<Longrightarrow> costs (andThen (liftR r) f) y k"
  using costs_step [OF costs_lift, of r x f y k k] by simp

lemma costs_getState: "(\<And>d. costs (f d) y k) \<Longrightarrow> costs (andThen getState f) y k"
  by (simp add: costs_def)

lemma costs_countLog [simp]: "costs (andThen (countDifferences n) (\<lambda>_. logLine s)) () n"
  by (rule costs_countThen [OF costs_log]) simp

text \<open>Maps and their keys.\<close>

lemma namedMap_keys: "namedMap g xs m = Inr m' \<Longrightarrow> distinct (map fst m) \<Longrightarrow> distinct (map fst m')"
  by (induction xs arbitrary: m) (auto simp: bindR_Inr_iff distinct_update)

lemma set_hmKeys: "rearranges order \<Longrightarrow> set (hmKeys order m) = fst ` set m"
  unfolding rearranges_def hmKeys_def by (metis image_set mset_eq_setD)

lemma distinct_hmKeys: "rearranges order \<Longrightarrow> distinct (map fst m) \<Longrightarrow> distinct (hmKeys order m)"
  unfolding rearranges_def hmKeys_def by (metis mset_eq_imp_distinct_iff)

lemma length_filter_hmKeys: "rearranges order \<Longrightarrow> length (filter P (hmKeys order m)) = length (filter P (map fst m))"
  unfolding rearranges_def hmKeys_def by (metis mset_filter size_mset)

lemma map_fst_hmEntries [simp]: "map fst (hmEntries order m) = hmKeys order m"
  by (simp add: hmEntries_def comp_def)

lemma hmEntries_value: "rearranges order \<Longrightarrow> (k, v) \<in> set (hmEntries order m) \<Longrightarrow> map_of m k = Some v"
proof -
  assume "rearranges order" "(k, v) \<in> set (hmEntries order m)"
  then have "k \<in> fst ` set m" "v = the (map_of m k)" using set_hmKeys [of order m] by (auto simp: hmEntries_def)
  moreover then have "map_of m k \<noteq> None" by (simp add: map_of_eq_None_iff)
  ultimately show ?thesis by auto
qed

section \<open>The specification of the count\<close>

text \<open>
  Attributes: one for every compared attribute of the right side that the left side does not have
  with the same contents.
\<close>

definition attributeDifferences :: "string set \<Rightarrow> attribute_info hmap \<Rightarrow> attribute_info hmap \<Rightarrow> nat" where
  "attributeDifferences ignored lm rm =
     length (filter (\<lambda>(k, b). k \<notin> ignored \<and> \<not> (\<exists>a. map_of lm k = Some a \<and> sameAttribute a b)) rm)"

lemma attributesLoop_result:
  "distinct (map fst es) \<Longrightarrow> \<exists>ms'. attributesLoop ignored es rm n ms =
     (filter (\<lambda>(k, b). k \<in> ignored \<or> k \<notin> fst ` set es) rm,
      n + of_nat (length (filter (\<lambda>(k, a). k \<notin> ignored \<and> (\<exists>b. map_of rm k = Some b \<and> \<not> sameAttribute a b)) es)), ms')"
proof (induction es arbitrary: rm n ms)
  case Nil
  then show ?case by simp
next
  case (Cons e es)
  obtain k a where e: "e = (k, a)" by fastforce
  have k: "k \<notin> fst ` set es" and d: "distinct (map fst es)" using Cons.prems e by (auto simp: rev_image_eqI)
  have del: "filter (\<lambda>(k', a). k' \<notin> ignored \<and> (\<exists>b. map_of (AList.delete k rm) k' = Some b \<and> \<not> sameAttribute a b)) es =
      filter (\<lambda>(k', a). k' \<notin> ignored \<and> (\<exists>b. map_of rm k' = Some b \<and> \<not> sameAttribute a b)) es"
    using k by (intro filter_cong) (auto simp: delete_conv rev_image_eqI split: if_splits)
  have rest: "filter (\<lambda>(k', b). k' \<in> ignored \<or> k' \<notin> fst ` set es) (AList.delete k rm) =
      filter (\<lambda>(k', b). k' \<in> ignored \<or> k' \<notin> fst ` set (e # es)) rm" if "k \<notin> ignored"
    using that e by (auto simp: AList.delete_eq filter_filter intro!: filter_cong)
  show ?case
  proof (cases "k \<in> ignored")
    case True
    have "filter (\<lambda>(k', b). k' \<in> ignored \<or> k' \<notin> fst ` set es) rm = filter (\<lambda>(k', b). k' \<in> ignored \<or> k' \<notin> fst ` set (e # es)) rm"
      using True e by (intro filter_cong) auto
    then show ?thesis using Cons.IH [OF d, of rm n ms] True e by simp
  next
    case False
    show ?thesis
    proof (cases "map_of rm k")
      case None
      then have "AList.delete k rm = rm" by (simp add: delete_idem map_of_eq_None_iff)
      then show ?thesis using Cons.IH [OF d, of rm n] False None e rest by (simp add: del)
    next
      case (Some b)
      note IH = Cons.IH [OF d, of "AList.delete k rm"]
      show ?thesis
      proof (cases "sameAttribute a b")
        case True
        then show ?thesis using IH False Some e rest by (simp add: del)
      next
        case differs: False
        from IH [of "n + 1" "ms @ [red (''Attribute '' @ k @ '' differs'')]"] show ?thesis
          using differs False Some e rest by (auto simp: del add.assoc)
      qed
    qed
  qed
qed

lemma missingInLeft_result:
  "\<exists>ms'. missingInLeft ignored ks n ms = (n + of_nat (length (filter (\<lambda>k. k \<notin> ignored) ks)), ms')"
proof (induction ks arbitrary: n ms)
  case (Cons k ks)
  show ?case
  proof (cases "k \<in> ignored")
    case False
    with Cons.IH [of "n + 1" "ms @ [red (''Attribute '' @ k @ '' is missing in left'')]"] show ?thesis by (auto simp: add.assoc)
  qed (simp add: Cons.IH)
qed simp

lemma common_attributes:
  assumes "rearranges order" "distinct (map fst lm)" "distinct (map fst rm)"
  shows "length (filter (\<lambda>(k, a). k \<notin> ignored \<and> (\<exists>b. map_of rm k = Some b \<and> \<not> sameAttribute a b)) (hmEntries order lm)) =
    length (filter (\<lambda>(k, b). k \<notin> ignored \<and> (\<exists>a. map_of lm k = Some a \<and> \<not> sameAttribute a b)) rm)" (is "length ?l = length ?r")
proof -
  let ?both = "{k. k \<notin> ignored \<and> (\<exists>a b. map_of lm k = Some a \<and> map_of rm k = Some b \<and> \<not> sameAttribute a b)}"
  have "distinct (map fst ?l)" "distinct (map fst ?r)"
    using distinct_hmKeys [OF assms(1,2)] assms(3) by (simp_all add: distinct_map_filter)
  moreover have "set (map fst ?l) = ?both"
    by (auto simp: hmEntries_def filter_map comp_def set_hmKeys [OF assms(1)] dom_map_of_conv_image_fst [symmetric])
  moreover have "set (map fst ?r) = ?both"
  proof (intro set_eqI iffI)
    fix k assume "k \<in> set (map fst ?r)"
    then obtain b a where "(k, b) \<in> set rm" "k \<notin> ignored" "map_of lm k = Some a" "\<not> sameAttribute a b" by auto
    moreover then have "map_of rm k = Some b" using assms(3) by simp
    ultimately show "k \<in> ?both" by simp
  next
    fix k assume "k \<in> ?both"
    then obtain a b where k: "k \<notin> ignored" "map_of lm k = Some a" "map_of rm k = Some b" "\<not> sameAttribute a b" by auto
    then have "(k, b) \<in> set ?r" using map_of_SomeD [OF k(3)] by auto
    from imageI [OF this, of fst] show "k \<in> set (map fst ?r)" by simp
  qed
  ultimately have "length (map fst ?l) = length (map fst ?r)" by (simp only: distinct_card [symmetric])
  then show ?thesis by simp
qed

lemma attributeDifferences_split:
  "attributeDifferences ignored lm rm =
     length (filter (\<lambda>(k, b). k \<notin> ignored \<and> (\<exists>a. map_of lm k = Some a \<and> \<not> sameAttribute a b)) rm) +
     length (filter (\<lambda>(k, b). k \<notin> ignored \<and> k \<notin> fst ` set lm) rm)"
  unfolding attributeDifferences_def by (induction rm) (auto simp: map_of_eq_None_iff [symmetric])

lemma compareAttributes_costs:
  assumes "rearranges order" "namedMap (\<lambda>a. stringOf left (attrNameIndex a)) ls [] = Inr lm"
    and "namedMap (\<lambda>a. stringOf right (attrNameIndex a)) rs [] = Inr rm"
  shows "\<exists>message. costs (compareAttributes order opts left right ls rs)
    ((of_nat (attributeDifferences (ignoredAttributes opts) lm rm) :: u4) = 0, message)
    (of_nat (attributeDifferences (ignoredAttributes opts) lm rm))"
proof -
  let ?ig = "ignoredAttributes opts" and ?es = "hmEntries order lm"
  have d: "distinct (map fst lm)" "distinct (map fst rm)" using namedMap_keys assms(2,3) by fastforce+
  have es: "distinct (map fst ?es)" "fst ` set ?es = fst ` set lm"
    using distinct_hmKeys [OF assms(1) d(1)] set_hmKeys [OF assms(1), of lm] map_fst_hmEntries [of order lm] by (simp, metis list.set_map)
  let ?rm = "filter (\<lambda>(k, b). k \<in> ?ig \<or> k \<notin> fst ` set lm) rm"
  from attributesLoop_result [OF es(1), of ?ig rm 0 "[]"] obtain ms where ms: "attributesLoop ?ig ?es rm 0 [] =
      (?rm, of_nat (length (filter (\<lambda>(k, b). k \<notin> ?ig \<and> (\<exists>a. map_of lm k = Some a \<and> \<not> sameAttribute a b)) rm)), ms)"
    by (auto simp: es(2) common_attributes [OF assms(1) d])
  have "length (filter (\<lambda>k. k \<notin> ?ig) (hmKeys order ?rm)) = length (filter (\<lambda>k. k \<notin> ?ig) (map fst ?rm))"
    by (rule length_filter_hmKeys [OF assms(1)])
  also have "\<dots> = length (filter (\<lambda>(k, b). k \<notin> ?ig \<and> k \<notin> fst ` set lm) rm)"
    by (simp add: filter_map comp_def) (rule arg_cong [of _ _ length], rule filter_cong, auto)
  finally have rest: "length (filter (\<lambda>k. k \<notin> ?ig) (hmKeys order ?rm)) = length (filter (\<lambda>(k, b). k \<notin> ?ig \<and> k \<notin> fst ` set lm) rm)" .
  obtain ms' where ms': "missingInLeft ?ig (hmKeys order ?rm) (of_nat (length (filter (\<lambda>(k, b). k \<notin> ?ig \<and> (\<exists>a. map_of lm k = Some a \<and> \<not> sameAttribute a b)) rm))) ms =
      (of_nat (attributeDifferences ?ig lm rm), ms')"
    using missingInLeft_result [of ?ig "hmKeys order ?rm"] by (fastforce simp: attributeDifferences_split rest)
  let ?n = "of_nat (attributeDifferences ?ig lm rm) :: u4"
  have "costs (compareAttributes order opts left right ls rs)
      (?n = 0, join (if ?n = 0 then ms' @ [green ''Attributes are equal''] else ms') newline) ?n"
    unfolding compareAttributes_def
    by (intro costs_liftThen [OF assms(2)] costs_liftThen [OF assms(3)])
      (auto simp: ms ms' Let_def intro!: costs_countThen costs_ret)
  then show ?thesis by blast
qed

section \<open>Members\<close>

definition differs :: "'a \<Rightarrow> 'a \<Rightarrow> nat" where
  "differs a b = (if a = b then 0 else 1)"

definition memberDifferences :: "diff_options \<Rightarrow> class_file_parser \<Rightarrow> class_file_parser \<Rightarrow> member_info \<Rightarrow> member_info \<Rightarrow> nat result" where
  "memberDifferences opts left right l r =
     bindR (stringOf left (descriptorIndex l)) (\<lambda>dl. bindR (stringOf right (descriptorIndex r)) (\<lambda>dr.
     bindR (namedMap (\<lambda>a. stringOf left (attrNameIndex a)) (memberAttributes l) []) (\<lambda>lm.
     bindR (namedMap (\<lambda>a. stringOf right (attrNameIndex a)) (memberAttributes r) []) (\<lambda>rm.
     Inr (differs (accessFlags l) (accessFlags r) + differs dl dr + attributeDifferences (ignoredAttributes opts) lm rm)))))"

lemma compareAccessFlags_costs: "\<exists>message. costs (compareAccessFlags l r) (l = r, message) (of_nat (differs l r))"
  unfolding compareAccessFlags_def differs_def
  by (auto intro!: exI costs_countThen costs_ret)

lemma compareDescriptors_costs:
  assumes "stringOf left i = Inr dl" "stringOf right j = Inr dr"
  shows "\<exists>message. costs (compareDescriptors left right i j) (dl = dr, message) (of_nat (differs dl dr))"
proof (cases "dl = dr")
  case True
  then show ?thesis unfolding compareDescriptors_def differs_def
    by (intro exI costs_liftThen [OF assms(1)] costs_liftThen [OF assms(2)]) (simp, rule costs_ret)
next
  case False
  then show ?thesis unfolding compareDescriptors_def differs_def
    by (intro exI costs_liftThen [OF assms(1)] costs_liftThen [OF assms(2)]) (simp, rule costs_countThen [OF costs_ret], simp)
qed

lemma member_costs:
  assumes "rearranges order" "memberDifferences opts left right l r = Inr n"
  obtains dl dr a m1 m2 m3 where "n = differs (accessFlags l) (accessFlags r) + differs dl dr + a"
    "costs (compareAccessFlags (accessFlags l) (accessFlags r)) (accessFlags l = accessFlags r, m1) (of_nat (differs (accessFlags l) (accessFlags r)))"
    "costs (compareDescriptors left right (descriptorIndex l) (descriptorIndex r)) (dl = dr, m2) (of_nat (differs (dl :: string) dr))"
    "costs (compareAttributes order opts left right (memberAttributes l) (memberAttributes r)) ((of_nat a :: u4) = 0, m3) (of_nat a)"
proof -
  from assms(2) obtain dl dr lm rm where
    m: "stringOf left (descriptorIndex l) = Inr dl" "stringOf right (descriptorIndex r) = Inr dr"
      "namedMap (\<lambda>a. stringOf left (attrNameIndex a)) (memberAttributes l) [] = Inr lm"
      "namedMap (\<lambda>a. stringOf right (attrNameIndex a)) (memberAttributes r) [] = Inr rm"
    and n: "n = differs (accessFlags l) (accessFlags r) + differs dl dr + attributeDifferences (ignoredAttributes opts) lm rm"
    by (auto simp: memberDifferences_def bindR_Inr_iff)
  let ?a = "attributeDifferences (ignoredAttributes opts) lm rm"
  obtain m1 m2 m3 where
    c: "costs (compareAccessFlags (accessFlags l) (accessFlags r)) (accessFlags l = accessFlags r, m1) (of_nat (differs (accessFlags l) (accessFlags r)))"
      "costs (compareDescriptors left right (descriptorIndex l) (descriptorIndex r)) (dl = dr, m2) (of_nat (differs dl dr))"
      "costs (compareAttributes order opts left right (memberAttributes l) (memberAttributes r)) ((of_nat ?a :: u4) = 0, m3) (of_nat ?a)"
    using compareAccessFlags_costs compareDescriptors_costs [OF m(1,2)] compareAttributes_costs [OF assms(1) m(3,4)] by metis
  show thesis by (rule that [OF n c])
qed

lemma areMethodsEqual_costs:
  assumes "rearranges order" "memberDifferences opts left right l r = Inr n" "n < 2 ^ 32"
  shows "\<exists>message. costs (areMethodsEqual order opts left right l r) (n = 0, message) (of_nat n)"
proof -
  from member_costs [OF assms(1,2)] obtain dl dr a m1 m2 m3 where n: "n = differs (accessFlags l) (accessFlags r) + differs dl dr + a"
    and c: "costs (compareAccessFlags (accessFlags l) (accessFlags r)) (accessFlags l = accessFlags r, m1) (of_nat (differs (accessFlags l) (accessFlags r)))"
      "costs (compareDescriptors left right (descriptorIndex l) (descriptorIndex r)) (dl = dr, m2) (of_nat (differs (dl :: string) dr))"
      "costs (compareAttributes order opts left right (memberAttributes l) (memberAttributes r)) ((of_nat a :: u4) = 0, m3) (of_nat a)" .
  have "a < 2 ^ 32" using n assms(3) by linarith
  then have a: "(of_nat a :: u4) = 0 \<longleftrightarrow> a = 0" 
    by (auto simp: word_of_nat_eq_0_iff elim!: dvdE)
  have "costs (areMethodsEqual order opts left right l r)
      ((of_nat a :: u4) = 0 \<and> dl = dr \<and> accessFlags l = accessFlags r, m1 @ newline @ m2 @ newline @ m3)
      (of_nat (differs (accessFlags l) (accessFlags r)) + (of_nat (differs dl dr) + (of_nat a + 0)))"
    unfolding areMethodsEqual_def
    by (intro costs_pair [OF c(1)] costs_pair [OF c(2)] costs_pair [OF c(3)] costs_ret)
  moreover have "((of_nat a :: u4) = 0 \<and> dl = dr \<and> accessFlags l = accessFlags r) = (n = 0)"
    using a n by (auto simp: differs_def)
  ultimately show ?thesis using n by (auto simp: add.assoc)
qed

section \<open>Sums over a map\<close>

lemma mset_hmEntries:
  assumes "rearranges order" "distinct (map fst m)" shows "mset (hmEntries order m) = mset m"
proof -
  have "mset (hmEntries order m) = image_mset (\<lambda>k. (k, the (map_of m k))) (mset (map fst m))"
    using assms(1) by (simp add: hmEntries_def hmKeys_def rearranges_def)
  also have "\<dots> = mset (map (\<lambda>(k, v). (k, the (map_of m k))) m)" by (simp add: multiset.map_comp comp_def case_prod_unfold)
  also have "map (\<lambda>(k, v). (k, the (map_of m k))) m = m" using assms(2) by (intro map_idI) auto
  finally show ?thesis .
qed

lemma sum_hmEntries:
  fixes f :: "string \<times> 'v \<Rightarrow> nat"
  assumes "rearranges order" "distinct (map fst m)" shows "sum_list (map f (hmEntries order m)) = sum_list (map f m)"
proof -
  have "mset (map f (hmEntries order m)) = mset (map f m)" using mset_hmEntries [OF assms] by simp
  from arg_cong [OF this, of sum_mset] show ?thesis by (simp only: sum_mset_sum_list)
qed

lemma set_hmEntries: "rearranges order \<Longrightarrow> distinct (map fst m) \<Longrightarrow> set (hmEntries order m) = set m"
  by (metis mset_hmEntries mset_eq_setD)

lemma onlyRightLoop_costs: "costs (onlyRightLoop message ks) () (of_nat (length ks))"
proof (induction ks)
  case Nil
  show ?case by (simp add: costs_def)
next
  case (Cons k ks)
  show ?case unfolding onlyRightLoop.simps by (rule costs_countThen [OF costs_logThen [OF Cons.IH]]) simp
qed

section \<open>Interfaces and fields\<close>

text \<open>
  A pass over the entries of the left map that strikes out of the right map what it finds there:
  \<open>both\<close> is what a common name costs; a name of one side only costs one.
\<close>

definition matchCost :: "(string \<Rightarrow> 'a \<Rightarrow> 'b \<Rightarrow> nat) \<Rightarrow> (string \<times> 'a) list \<Rightarrow> 'b hmap \<Rightarrow> nat" where
  "matchCost both es rm = sum_list (map (\<lambda>(k, l). case map_of rm k of None \<Rightarrow> 1 | Some r \<Rightarrow> both k l r) es)"

lemma matchCost_delete:
  "k \<notin> fst ` set es \<Longrightarrow> matchCost both es (AList.delete k rm) = matchCost both es rm"
  unfolding matchCost_def
  by (rule arg_cong [of _ _ sum_list], rule map_cong) (auto simp: delete_conv rev_image_eqI)

definition onlyCount :: "string set \<Rightarrow> 'b hmap \<Rightarrow> nat" where
  "onlyCount ks rm = length (filter (\<lambda>(k, r). k \<notin> ks) rm)"

definition pairCost :: "(string \<Rightarrow> 'a \<Rightarrow> 'b \<Rightarrow> nat) \<Rightarrow> 'a hmap \<Rightarrow> 'b hmap \<Rightarrow> nat" where
  "pairCost both lm rm = matchCost both lm rm + onlyCount (fst ` set lm) rm"

lemma pass_costs:
  fixes loop :: "(string \<times> 'a) list \<Rightarrow> 'b hmap \<Rightarrow> 'b hmap diff" and both :: "string \<Rightarrow> 'a \<Rightarrow> 'b \<Rightarrow> nat"
  assumes nil: "\<And>rm. costs (loop [] rm) rm 0"
    and found: "\<And>k l es rm r rm' n. (k, l) \<in> E \<Longrightarrow> map_of rm k = Some r \<Longrightarrow> map_of rm0 k = Some r \<Longrightarrow>
      costs (loop es (AList.delete k rm)) rm' n \<Longrightarrow> costs (loop ((k, l) # es) rm) rm' (of_nat (both k l r) + n)"
    and missing: "\<And>k l es rm rm' n. map_of rm k = None \<Longrightarrow> costs (loop es rm) rm' n \<Longrightarrow> costs (loop ((k, l) # es) rm) rm' (1 + n)"
  shows "set es \<subseteq> E \<Longrightarrow> distinct (map fst es) \<Longrightarrow> (\<And>k r. k \<in> fst ` set es \<Longrightarrow> map_of rm k = map_of rm0 k) \<Longrightarrow>
    costs (loop es rm) (filter (\<lambda>(k, r). k \<notin> fst ` set es) rm) (of_nat (matchCost both es rm))"
proof (induction es arbitrary: rm)
  case Nil
  then show ?case using nil by (simp add: matchCost_def)
next
  case (Cons e es)
  obtain k l where e: "e = (k, l)" by fastforce
  have k: "k \<notin> fst ` set es" and d: "distinct (map fst es)" "set es \<subseteq> E" "(k, l) \<in> E" using Cons.prems e by (auto simp: rev_image_eqI)
  have rest: "filter (\<lambda>(k', r). k' \<notin> fst ` set es) (AList.delete k rm) = filter (\<lambda>(k', r). k' \<notin> fst ` set (e # es)) rm"
    using e by (auto simp: AList.delete_eq filter_filter intro!: filter_cong)
  have IH: "costs (loop es (AList.delete k rm)) (filter (\<lambda>(k', r). k' \<notin> fst ` set (e # es)) rm) (of_nat (matchCost both es rm))"
  proof -
    have "map_of (AList.delete k rm) k' = map_of rm0 k'" if "k' \<in> fst ` set es" for k'
      using that k Cons.prems(3) [of k'] by (auto simp: delete_conv)
    from Cons.IH [OF d(2,1) this] show ?thesis by (simp add: rest matchCost_delete [OF k])
  qed
  show ?case
  proof (cases "map_of rm k")
    case None
    then have "AList.delete k rm = rm" by (simp add: delete_idem map_of_eq_None_iff)
    with IH have "costs (loop es rm) (filter (\<lambda>(k', r). k' \<notin> fst ` set (e # es)) rm) (of_nat (matchCost both es rm))" by simp
    from missing [OF None this] show ?thesis using None e by (simp add: matchCost_def)
  next
    case (Some r)
    moreover have "map_of rm0 k = Some r" using Some Cons.prems(3) [of k] e by simp
    ultimately show ?thesis using found [OF d(3) _ _ IH] e by (simp add: matchCost_def)
  qed
qed

lemma onlyCount_keys:
  "rearranges order \<Longrightarrow> length (hmKeys order (filter (\<lambda>(k, r). k \<notin> ks) rm)) = onlyCount ks rm"
  unfolding rearranges_def hmKeys_def onlyCount_def by (metis length_map size_mset)

lemma matchCost_hmEntries:
  "rearranges order \<Longrightarrow> distinct (map fst lm) \<Longrightarrow> matchCost both (hmEntries order lm) rm = matchCost both lm rm"
  unfolding matchCost_def by (rule sum_hmEntries)

lemma keys_hmEntries: "rearranges order \<Longrightarrow> fst ` set (hmEntries order lm) = fst ` set lm"
  by (metis list.set_map map_fst_hmEntries set_hmKeys)

lemma compareMainClassInterfaces_costs:
  assumes "rearranges order" "namedMap (classInfoNameOf left) (interfaces left) [] = Inr lm"
    and "namedMap (classInfoNameOf right) (interfaces right) [] = Inr rm"
  shows "costs (compareMainClassInterfaces order left right) () (of_nat (pairCost (\<lambda>_ _ _. 0) lm rm))"
proof -
  let ?es = "hmEntries order lm"
  have d: "distinct (map fst lm)" using namedMap_keys assms(2) by fastforce
  have "costs (interfacesLoop (map fst ?es) rm) (filter (\<lambda>(k, r). k \<notin> fst ` set ?es) rm)
      (of_nat (matchCost (\<lambda>_ _ _. 0) ?es rm))"
    by (rule pass_costs [where E = UNIV and loop = "\<lambda>es. interfacesLoop (map fst es)" and ?rm0.0 = rm])
      (auto simp: distinct_hmKeys [OF assms(1) d] intro!: costs_ret costs_logThen costs_countThen)
  then have loop: "costs (interfacesLoop (hmKeys order lm) rm) (filter (\<lambda>(k, r). k \<notin> fst ` set lm) rm) (of_nat (matchCost (\<lambda>_ _ _. 0) lm rm))"
    by (simp add: keys_hmEntries [OF assms(1)] matchCost_hmEntries [OF assms(1) d])
  show ?thesis unfolding compareMainClassInterfaces_def pairCost_def
    by (intro costs_liftThen [OF assms(2)] costs_liftThen [OF assms(3)] costs_step [OF loop onlyRightLoop_costs])
      (simp add: onlyCount_keys [OF assms(1)])
qed

definition fieldCost :: "diff_options \<Rightarrow> class_file_parser \<Rightarrow> class_file_parser \<Rightarrow> string \<Rightarrow> member_info \<Rightarrow> member_info \<Rightarrow> nat" where
  "fieldCost opts left right k l r = projr (memberDifferences opts left right l r)"

lemma compareField_costs:
  assumes "rearranges order" "memberDifferences opts left right l r = Inr n"
  shows "costs (compareField order opts left right name l r) () (of_nat n)"
proof -
  from member_costs [OF assms(1,2)] obtain dl dr a m1 m2 m3 where n: "n = differs (accessFlags l) (accessFlags r) + differs dl dr + a"
    and c: "costs (compareAccessFlags (accessFlags l) (accessFlags r)) (accessFlags l = accessFlags r, m1) (of_nat (differs (accessFlags l) (accessFlags r)))"
      "costs (compareDescriptors left right (descriptorIndex l) (descriptorIndex r)) (dl = dr, m2) (of_nat (differs (dl :: string) dr))"
      "costs (compareAttributes order opts left right (memberAttributes l) (memberAttributes r)) ((of_nat a :: u4) = 0, m3) (of_nat a)" .
  have final: "costs (if differenceCount d = k then logLine s else ret ()) () 0" for d k s
    by (simp add: costs_ret costs_log)
  have "costs (compareField order opts left right name l r) ()
      (of_nat (differs (accessFlags l) (accessFlags r)) + (of_nat (differs dl dr) + (of_nat a + 0)))"
    unfolding compareField_def Let_def
    by (intro costs_getState costs_logThen costs_pair [OF c(1)] costs_pair [OF c(2)] costs_pair [OF c(3)] final)
  then show ?thesis using n by (simp add: add.assoc)
qed

lemma compareFields_costs:
  assumes "rearranges order" "namedMap (\<lambda>f. stringOf left (nameIndex f)) (comparedFields opts left) [] = Inr lm"
    and "namedMap (\<lambda>f. stringOf right (nameIndex f)) (comparedFields opts right) [] = Inr rm"
    and fields: "\<And>k l r. (k, l) \<in> set lm \<Longrightarrow> map_of rm k = Some r \<Longrightarrow> \<exists>n. memberDifferences opts left right l r = Inr n"
  shows "costs (compareFields order opts left right) () (of_nat (pairCost (fieldCost opts left right) lm rm))"
proof -
  let ?es = "hmEntries order lm" and ?c = "fieldCost opts left right"
  have d: "distinct (map fst lm)" using namedMap_keys assms(2) by fastforce
  have field: "costs (compareField order opts left right k l r) () (of_nat (?c k l r))"
    if "(k, l) \<in> set lm" "map_of rm k = Some r" for k l r
    using compareField_costs [OF assms(1)] fields [OF that] by (auto simp: fieldCost_def)
  have "costs (fieldsLoop order opts left right ?es rm) (filter (\<lambda>(k, r). k \<notin> fst ` set ?es) rm) (of_nat (matchCost ?c ?es rm))"
  proof (rule pass_costs [where E = "set lm" and ?rm0.0 = rm])
    fix k l es rm1 r rm' n
    assume a: "(k, l) \<in> set lm" "map_of rm1 k = Some r" "map_of rm k = Some r" "costs (fieldsLoop order opts left right es (AList.delete k rm1)) rm' n"
    show "costs (fieldsLoop order opts left right ((k, l) # es) rm1) rm' (of_nat (?c k l r) + n)"
      using costs_andThen [OF field [OF a(1,3)], of "\<lambda>_. fieldsLoop order opts left right es (AList.delete k rm1)"] a(2,4) by simp
  qed (auto simp: distinct_hmKeys [OF assms(1) d] set_hmEntries [OF assms(1) d] intro!: costs_ret costs_logThen costs_countThen)
  then have loop: "costs (fieldsLoop order opts left right ?es rm) (filter (\<lambda>(k, r). k \<notin> fst ` set lm) rm) (of_nat (matchCost ?c lm rm))"
    by (simp add: keys_hmEntries [OF assms(1)] matchCost_hmEntries [OF assms(1) d])
  show ?thesis unfolding compareFields_def pairCost_def
    by (intro costs_logThen costs_liftThen [OF assms(2)] costs_liftThen [OF assms(3)] costs_step [OF loop costs_logThen [OF onlyRightLoop_costs]])
      (simp add: onlyCount_keys [OF assms(1)])
qed

section \<open>Overloads\<close>

text \<open>
  Reference for the methods of one name: every left method takes the first right method equal to it;
  a left method without one costs its differences to all right methods that are still there.  The
  second component are the right methods without a partner.  None: the last right method has been
  taken, and with it the vector the loop goes on to read.
\<close>

fun pairMethods :: "('m \<Rightarrow> 'm \<Rightarrow> nat) \<Rightarrow> 'm list \<Rightarrow> 'm list \<Rightarrow> (nat \<times> 'm list) option" where
  "pairMethods \<delta> [] rs = Some (0, rs)"
| "pairMethods \<delta> (l # ls) rs = (case List.extract (\<lambda>r. \<delta> l r = 0) rs of
       Some (ys, r, zs) \<Rightarrow> if ys @ zs = [] then None else pairMethods \<delta> ls (ys @ zs)
     | None \<Rightarrow> map_option (\<lambda>(n, rest). (sum_list (map (\<delta> l) rs) + n, rest)) (pairMethods \<delta> ls rs))"

definition fails :: "'a diff \<Rightarrow> bool" where
  "fails m \<longleftrightarrow> (\<forall>d. fst (m d) = Inl Undefined)"

lemma fails_throw [simp]: "fails (throw Undefined)"
  by (simp add: fails_def throw_def)

lemma fails_first: "fails m \<Longrightarrow> fails (andThen m f)"
  unfolding fails_def andThen_def by (auto split: prod.splits sum.splits) (metis fst_conv sum.distinct(1) sum.inject(1))+

lemma fails_then: "costs m x n \<Longrightarrow> fails (f x) \<Longrightarrow> fails (andThen m f)"
  unfolding fails_def costs_def by (metis andThen_ok)

abbreviation methodCost :: "diff_options \<Rightarrow> class_file_parser \<Rightarrow> class_file_parser \<Rightarrow> member_info \<Rightarrow> member_info \<Rightarrow> nat" where
  "methodCost opts left right \<equiv> (\<lambda>l r. projr (memberDifferences opts left right l r))"

definition comparable :: "diff_options \<Rightarrow> class_file_parser \<Rightarrow> class_file_parser \<Rightarrow> member_info \<Rightarrow> member_info list \<Rightarrow> bool" where
  "comparable opts left right l rs \<longleftrightarrow> (\<forall>r\<in>set rs. \<exists>n. memberDifferences opts left right l r = Inr n \<and> n < 2 ^ 32)"

lemma comparable_Cons:
  "comparable opts left right l (r # rs) \<longleftrightarrow> (\<exists>n. memberDifferences opts left right l r = Inr n \<and> n < 2 ^ 32) \<and> comparable opts left right l rs"
  by (simp add: comparable_def)

lemma rightMethodsLoop_found:
  assumes "rearranges order"
  shows "comparable opts left right l rs \<Longrightarrow> List.extract (\<lambda>r. methodCost opts left right l r = 0) rs = Some (ys, r, zs) \<Longrightarrow>
    \<exists>messages n. costs (rightMethodsLoop order opts left right name descriptor l rs i all) (Some (i + length ys), messages) n"
proof (induction rs arbitrary: i all ys r zs)
  case Nil
  then show ?case by (simp add: List.extract_def)
next
  case (Cons r1 rs)
  then obtain n1 where n1: "memberDifferences opts left right l r1 = Inr n1" "n1 < 2 ^ 32" and ok: "comparable opts left right l rs"
    by (auto simp: comparable_Cons)
  obtain message where eq: "costs (areMethodsEqual order opts left right l r1) (n1 = 0, message) (of_nat n1)"
    using areMethodsEqual_costs [OF assms n1] by blast
  show ?case
  proof (cases "n1 = 0")
    case True
    then have "ys = []" using Cons.prems(2) n1 by (simp add: extract_Cons_code)
    then have "costs (rightMethodsLoop order opts left right name descriptor l (r1 # rs) i all) (Some (i + length ys), all) (of_nat n1 + 0)"
      unfolding rightMethodsLoop.simps using True by (intro costs_pair [OF eq]) (auto intro!: costs_logThen costs_ret)
    then show ?thesis by blast
  next
    case False
    then obtain ys' where ys: "ys = r1 # ys'" "List.extract (\<lambda>r. methodCost opts left right l r = 0) rs = Some (ys', r, zs)"
      using Cons.prems(2) n1 by (auto simp: extract_Cons_code split: option.splits)
    from Cons.IH [OF ok ys(2)] obtain messages n where
      "costs (rightMethodsLoop order opts left right name descriptor l rs (i + 1)
        (all @ message @ newline @ CHR 0x1B # ''[31mMethod '' @ name @ '' differs'' @ newline @ CHR 0x1B # ''[0m'')) (Some (i + 1 + length ys'), messages) n"
      by blast
    then have "costs (rightMethodsLoop order opts left right name descriptor l (r1 # rs) i all) (Some (i + length ys), messages) (of_nat n1 + n)"
      unfolding rightMethodsLoop.simps using False ys by (intro costs_pair [OF eq]) simp
    then show ?thesis by blast
  qed
qed

lemma rightMethodsLoop_none:
  assumes "rearranges order"
  shows "comparable opts left right l rs \<Longrightarrow> List.extract (\<lambda>r. methodCost opts left right l r = 0) rs = None \<Longrightarrow>
    \<exists>messages. costs (rightMethodsLoop order opts left right name descriptor l rs i all) (None, messages)
      (of_nat (sum_list (map (methodCost opts left right l) rs)))"
proof (induction rs arbitrary: i all)
  case Nil
  then show ?case using costs_ret by (auto intro!: exI [of _ all])
next
  case (Cons r1 rs)
  then obtain n1 where n1: "memberDifferences opts left right l r1 = Inr n1" "n1 < 2 ^ 32" and ok: "comparable opts left right l rs"
    by (auto simp: comparable_Cons)
  obtain message where eq: "costs (areMethodsEqual order opts left right l r1) (n1 = 0, message) (of_nat n1)"
    using areMethodsEqual_costs [OF assms n1] by blast
  have n: "n1 \<noteq> 0" "List.extract (\<lambda>r. methodCost opts left right l r = 0) rs = None"
    using Cons.prems(2) n1 by (auto simp: extract_Cons_code split: option.splits if_splits)
  from Cons.IH [OF ok n(2)] obtain messages where
    "costs (rightMethodsLoop order opts left right name descriptor l rs (i + 1)
      (all @ message @ newline @ CHR 0x1B # ''[31mMethod '' @ name @ '' differs'' @ newline @ CHR 0x1B # ''[0m'')) (None, messages)
      (of_nat (sum_list (map (methodCost opts left right l) rs)))"
    by blast
  then have "costs (rightMethodsLoop order opts left right name descriptor l (r1 # rs) i all) (None, messages)
      (of_nat n1 + of_nat (sum_list (map (methodCost opts left right l) rs)))"
    unfolding rightMethodsLoop.simps using n(1) by (intro costs_pair [OF eq]) simp
  then show ?case using n1 by auto
qed

text \<open>One left method: the count is put back when an equal method is found.\<close>

lemma compareToRightMethods_costs:
  assumes "rearranges order" "comparable opts left right l rs" "stringOf left (nameIndex l) = Inr name" "stringOf left (descriptorIndex l) = Inr descriptor"
  shows "case List.extract (\<lambda>r. methodCost opts left right l r = 0) rs of
      Some (ys, r, zs) \<Rightarrow> costs (compareToRightMethods order opts left right l rm rs)
        (if ys @ zs = [] then AList.delete name rm else AList.update name (ys @ zs) rm) 0
    | None \<Rightarrow> costs (compareToRightMethods order opts left right l rm rs) rm (of_nat (sum_list (map (methodCost opts left right l) rs)))"
proof (cases "List.extract (\<lambda>r. methodCost opts left right l r = 0) rs")
  case None
  from rightMethodsLoop_none [OF assms(1,2) None] obtain messages where
    m: "costs (rightMethodsLoop order opts left right name descriptor l rs 0 []) (None, messages) (of_nat (sum_list (map (methodCost opts left right l) rs)))"
    by blast
  have "costs (compareToRightMethods order opts left right l rm rs) rm (of_nat (sum_list (map (methodCost opts left right l) rs)) + 0)"
    unfolding compareToRightMethods_def Let_def
    by (intro costs_liftThen [OF assms(3)] costs_liftThen [OF assms(4)] costs_logThen costs_getState costs_pair [OF m])
      (auto intro!: costs_logThen costs_ret)
  then show ?thesis using None by simp
next
  case (Some x)
  obtain ys r zs where x: "x = (ys, r, zs)" by (cases x) auto
  have rs: "rs = ys @ r # zs" using extract_SomeE [OF Some [unfolded x]] by blast
  from rightMethodsLoop_found [OF assms(1,2) Some [unfolded x], of name descriptor 0 "[]"] obtain messages n where
    m: "costs (rightMethodsLoop order opts left right name descriptor l rs 0 []) (Some (length ys), messages) n"
    by auto
  define f where "f = (\<lambda>(match, allMessages) d. case match of
      Some rightIndex \<Rightarrow> andThen (modify (\<lambda>d'. d'\<lparr>differenceCount := d\<rparr>)) (\<lambda>_.
        let remaining = take rightIndex rs @ drop (Suc rightIndex) rs
        in ret (if remaining = [] then AList.delete name rm else AList.update name remaining rm))
    | None \<Rightarrow> andThen (logLine allMessages) (\<lambda>_. ret rm))"
  have f: "f (Some (length ys), messages) d =
      andThen (modify (\<lambda>d'. d'\<lparr>differenceCount := d\<rparr>)) (\<lambda>_. ret (if ys @ zs = [] then AList.delete name rm else AList.update name (ys @ zs) rm))" for d
    unfolding f_def rs by (simp add: Let_def)
  have "costs (andThen getState (\<lambda>d. andThen (rightMethodsLoop order opts left right name descriptor l rs 0 []) (\<lambda>x. f x (differenceCount d))))
      (if ys @ zs = [] then AList.delete name rm else AList.update name (ys @ zs) rm) 0"
    unfolding costs_def
  proof
    fix d
    obtain d' where "rightMethodsLoop order opts left right name descriptor l rs 0 [] d = (Inr (Some (length ys), messages), d')"
      using m by (auto simp: costs_def)
    then show "\<exists>d'. andThen getState (\<lambda>d. andThen (rightMethodsLoop order opts left right name descriptor l rs 0 []) (\<lambda>x. f x (differenceCount d))) d =
        (Inr (if ys @ zs = [] then AList.delete name rm else AList.update name (ys @ zs) rm), d') \<and> differenceCount d' = differenceCount d + 0"
      by (simp add: andThen_ok f)
  qed
  then have "costs (compareToRightMethods order opts left right l rm rs)
      (if ys @ zs = [] then AList.delete name rm else AList.update name (ys @ zs) rm) 0"
    unfolding compareToRightMethods_def Let_def f_def
    by (intro costs_liftThen [OF assms(3)] costs_liftThen [OF assms(4)] costs_logThen) (simp add: case_prod_unfold Let_def)
  then show ?thesis using Some x by simp
qed

definition sideOk :: "class_file_parser \<Rightarrow> string \<Rightarrow> member_info list \<Rightarrow> bool" where
  "sideOk parser k ms \<longleftrightarrow> ms \<noteq> [] \<and> (\<forall>m\<in>set ms. stringOf parser (nameIndex m) = Inr k \<and> (\<exists>descriptor. stringOf parser (descriptorIndex m) = Inr descriptor))"

lemma extract_rest: "List.extract P rs = Some (ys, r, zs) \<Longrightarrow> set (ys @ zs) \<subseteq> set rs"
  using extract_SomeE [of P rs ys r zs] by auto

lemma comparable_mono: "comparable opts left right l rs \<Longrightarrow> set rs' \<subseteq> set rs \<Longrightarrow> comparable opts left right l rs'"
  by (auto simp: comparable_def)

lemma pairMethods_rest: "pairMethods \<delta> ls rs = Some (n, rest) \<Longrightarrow> rs \<noteq> [] \<Longrightarrow> set rest \<subseteq> set rs \<and> rest \<noteq> []"
proof (induction ls arbitrary: rs n)
  case (Cons l ls)
  show ?case
  proof (cases "List.extract (\<lambda>r. \<delta> l r = 0) rs")
    case None
    then show ?thesis using Cons by auto
  next
    case (Some x)
    obtain ys r zs where x: "x = (ys, r, zs)" by (cases x) auto
    then have "ys @ zs \<noteq> []" "pairMethods \<delta> ls (ys @ zs) = Some (n, rest)" using Some Cons.prems(1) by (auto split: if_splits)
    from Cons.IH [OF this(2,1)] show ?thesis using extract_rest [OF Some [unfolded x]] by blast
  qed
qed simp

lemma update_same: "map_of m k = Some v \<Longrightarrow> AList.update k v m = m"
  by (induction m) auto

text \<open>What a comparison does: undefined behaviour, or a result and what is added to the count.\<close>

definition outcome :: "'a diff \<Rightarrow> ('a \<times> nat) option \<Rightarrow> bool" where
  "outcome m expected = (case expected of None \<Rightarrow> fails m | Some (x, n) \<Rightarrow> costs m x (of_nat n))"

lemma outcome_simps [simp]: "outcome m None = fails m" "outcome m (Some (x, n)) = costs m x (of_nat n)"
  by (simp_all add: outcome_def)

lemma outcome_then:
  "costs m x (of_nat n) \<Longrightarrow> outcome (f x) expected \<Longrightarrow> outcome (andThen m f) (map_option (\<lambda>(y, k). (y, n + k)) expected)"
  by (cases expected) (auto intro: fails_then costs_step)

lemma leftMethodsLoop_outcome:
  assumes "rearranges order"
  shows "map_of rm name = Some rs \<Longrightarrow> rs \<noteq> [] \<Longrightarrow> ls = [] \<or> sideOk left name ls \<Longrightarrow> \<forall>l\<in>set ls. comparable opts left right l rs \<Longrightarrow>
    outcome (leftMethodsLoop order opts left right name ls rm)
      (map_option (\<lambda>(n, rest). (AList.update name rest rm, n)) (pairMethods (methodCost opts left right) ls rs))"
proof (induction ls arbitrary: rs rm)
  case Nil
  then show ?case by (simp add: update_same costs_ret)
next
  case (Cons l ls)
  obtain descriptor where l: "stringOf left (nameIndex l) = Inr name" "stringOf left (descriptorIndex l) = Inr descriptor"
    "ls = [] \<or> sideOk left name ls" using Cons.prems(3) by (cases ls) (auto simp: sideOk_def)
  note step = compareToRightMethods_costs [OF assms, of opts left right l rs name descriptor rm, OF _ l(1,2)]
  let ?go = "\<lambda>rm. case map_of rm name of None \<Rightarrow> throw Undefined
      | Some rs \<Rightarrow> if rs = [] then ret rm else leftMethodsLoop order opts left right name ls rm"
  have unfold: "leftMethodsLoop order opts left right name (l # ls) rm = andThen (compareToRightMethods order opts left right l rm rs) ?go"
    using Cons.prems(1) by simp
  show ?case
  proof (cases "List.extract (\<lambda>r. methodCost opts left right l r = 0) rs")
    case None
    then have c: "costs (compareToRightMethods order opts left right l rm rs) rm (of_nat (sum_list (map (methodCost opts left right l) rs)))"
      using step Cons.prems(4) by simp
    have "?go rm = leftMethodsLoop order opts left right name ls rm" using Cons.prems(1,2) by simp
    with Cons.IH [OF Cons.prems(1,2) l(3)] Cons.prems(4) have "outcome (?go rm)
        (map_option (\<lambda>(n, rest). (AList.update name rest rm, n)) (pairMethods (methodCost opts left right) ls rs))" by simp
    from outcome_then [where f = ?go, OF c this] show ?thesis unfolding unfold
      by (simp add: None option.map_comp comp_def case_prod_unfold)
  next
    case (Some x)
    obtain ys r zs where x: "x = (ys, r, zs)" by (cases x) auto
    let ?rm = "if ys @ zs = [] then AList.delete name rm else AList.update name (ys @ zs) rm"
    have c: "costs (compareToRightMethods order opts left right l rm rs) ?rm (of_nat 0)" using step Cons.prems(4) Some x by simp
    show ?thesis
    proof (cases "ys @ zs = []")
      case True
      then have "?go ?rm = throw Undefined" by (simp add: delete_conv)
      then show ?thesis using fails_then [where f = ?go, OF c] True Some x unfold by simp
    next
      case False
      let ?up = "AList.update name (ys @ zs) rm"
      have c': "costs (compareToRightMethods order opts left right l rm rs) ?up (of_nat 0)" using c unfolding if_not_P [OF False] .
      have rm: "map_of ?up name = Some (ys @ zs)" by (simp add: update_conv)
      have "\<forall>l\<in>set ls. comparable opts left right l (ys @ zs)"
        using Cons.prems(4) comparable_mono [OF _ extract_rest [OF Some [unfolded x]]] by simp
      from Cons.IH [OF rm False l(3) this] have "outcome (?go ?up)
          (map_option (\<lambda>(n, rest). (AList.update name rest rm, n)) (pairMethods (methodCost opts left right) ls (ys @ zs)))"
        using rm False by auto
      from outcome_then [where f = ?go, OF c' this] show ?thesis unfolding unfold
        using Some x False by (auto simp add: option.map_comp comp_def case_prod_unfold)
    qed
  qed
qed

section \<open>All methods\<close>

definition methodsSize :: "string set \<Rightarrow> member_info list hmap \<Rightarrow> nat" where
  "methodsSize ks rm = sum_list (map (\<lambda>(k, rs). if k \<in> ks then 0 else length rs) rm)"

lemma methodsSize_update:
  "map_of rm k = Some old \<Longrightarrow> distinct (map fst rm) \<Longrightarrow> k \<notin> ks \<Longrightarrow>
     methodsSize ks (AList.update k v rm) = length v + methodsSize (insert k ks) rm"
proof (induction rm)
  case (Cons e rm)
  have "methodsSize (insert k ks) rm = methodsSize ks rm" if "k \<notin> fst ` set rm"
    unfolding methodsSize_def using that by (intro arg_cong [of _ _ sum_list] map_cong) (auto simp: rev_image_eqI)
  with Cons show ?case by (cases e) (auto simp: methodsSize_def split: if_splits)
qed simp

text \<open>What the methods of a left name cost, the right methods without a partner included.\<close>

definition nameCost :: "(member_info \<Rightarrow> member_info \<Rightarrow> nat) \<Rightarrow> member_info list hmap \<Rightarrow> string \<times> member_info list \<Rightarrow> nat option" where
  "nameCost \<delta> rm e = (case map_of rm (fst e) of
       None \<Rightarrow> Some (length (snd e))
     | Some rs \<Rightarrow> map_option (\<lambda>(n, rest). n + length rest) (pairMethods \<delta> (snd e) rs))"

definition methodsCost :: "(member_info \<Rightarrow> member_info \<Rightarrow> nat) \<Rightarrow> member_info list hmap \<Rightarrow> member_info list hmap \<Rightarrow> nat option" where
  "methodsCost \<delta> lm rm =
     (if \<exists>e\<in>set lm. nameCost \<delta> rm e = None then None
      else Some (sum_list (map (\<lambda>e. the (nameCost \<delta> rm e)) lm) + methodsSize (fst ` set lm) rm))"

definition entriesOk :: "diff_options \<Rightarrow> class_file_parser \<Rightarrow> class_file_parser \<Rightarrow> (string \<times> member_info list) list \<Rightarrow> member_info list hmap \<Rightarrow> bool" where
  "entriesOk opts left right es rm \<longleftrightarrow> distinct (map fst es) \<and> distinct (map fst rm) \<and>
     (\<forall>(k, rs)\<in>set rm. rs \<noteq> []) \<and>
     (\<forall>(k, ls)\<in>set es. sideOk left k ls \<and> (\<forall>rs. map_of rm k = Some rs \<longrightarrow> (\<forall>l\<in>set ls. comparable opts left right l rs)))"

lemma onlyMethodsLoop_costs:
  "\<forall>m\<in>set ms. \<exists>descriptor. stringOf parser (descriptorIndex m) = Inr descriptor \<Longrightarrow> costs (onlyMethodsLoop parser side name ms) () (of_nat (length ms))"
proof (induction ms)
  case (Cons m ms)
  then obtain descriptor where "stringOf parser (descriptorIndex m) = Inr descriptor" by auto
  with Cons show ?case unfolding onlyMethodsLoop.simps
    by (intro costs_countThen costs_liftThen) (auto intro: costs_logThen)
qed simp

lemma onlyRightMethods_costs:
  "\<forall>(k, rs)\<in>set es. \<forall>r\<in>set rs. \<exists>descriptor. stringOf right (descriptorIndex r) = Inr descriptor \<Longrightarrow>
   costs (onlyRightMethods right es) () (of_nat (sum_list (map (length \<circ> snd) es)))"
proof (induction es)
  case (Cons e es)
  obtain k rs where e: "e = (k, rs)" by fastforce
  show ?case using costs_andThen [OF onlyMethodsLoop_costs, of rs right "\<lambda>_. onlyRightMethods right es"] Cons e by simp
qed simp

lemma costs_checkOverload: "costs (checkOverload side name infos) () 0"
  by (simp add: checkOverload_def costs_log)

lemma outcome_pre: "costs m x 0 \<Longrightarrow> outcome (f x) expected \<Longrightarrow> outcome (andThen m f) expected"
  using outcome_then [where m = m and x = x and n = 0 and f = f and expected = expected] by (cases expected) auto

lemma outcome_post:
  "outcome m expected \<Longrightarrow> (\<And>x. costs (f x) (g x) 0) \<Longrightarrow> outcome (andThen m f) (map_option (\<lambda>(x, n). (g x, n)) expected)"
proof (cases expected)
  case (Some p)
  assume "outcome m expected" "\<And>x. costs (f x) (g x) 0"
  then show ?thesis using Some costs_andThen [of m "fst p" "of_nat (snd p)" f "g (fst p)" 0] by (cases p) simp
qed (auto intro: fails_first)

text \<open>One turn of the loop over the left names.\<close>

definition oneName :: "hash_order \<Rightarrow> diff_options \<Rightarrow> class_file_parser \<Rightarrow> class_file_parser \<Rightarrow> string \<Rightarrow> member_info list \<Rightarrow> member_info list hmap \<Rightarrow> member_info list hmap diff" where
  "oneName order opts left right name ls rm = (case map_of rm name of
         Some rightMethods \<Rightarrow>
           andThen (logLine []) (\<lambda>_. andThen (logLine (''Method: '' @ name)) (\<lambda>_.
           andThen (checkOverload ''Right'' name rightMethods) (\<lambda>_.
           andThen (leftMethodsLoop order opts left right name ls rm) (\<lambda>rightMap.
           andThen (logLine []) (\<lambda>_. ret rightMap)))))
       | None \<Rightarrow> andThen (onlyMethodsLoop left ''left'' name ls) (\<lambda>_. ret rm))"

lemma methodsLoop_Cons: "methodsLoop order opts left right ((name, ls) # es) rm =
    andThen (checkOverload ''Left'' name ls) (\<lambda>_. andThen (oneName order opts left right name ls rm) (methodsLoop order opts left right es))"
  by (simp add: oneName_def)

lemma oneName_outcome:
  assumes "rearranges order" "entriesOk opts left right ((k, ls) # es) rm"
  shows "outcome (oneName order opts left right k ls rm) (case map_of rm k of
      None \<Rightarrow> Some (rm, length ls)
    | Some rs \<Rightarrow> map_option (\<lambda>(n, rest). (AList.update k rest rm, n)) (pairMethods (methodCost opts left right) ls rs))"
proof (cases "map_of rm k")
  case None
  have "\<forall>m\<in>set ls. \<exists>descriptor. stringOf left (descriptorIndex m) = Inr descriptor" using assms(2) by (auto simp: entriesOk_def sideOk_def)
  from costs_andThen [OF onlyMethodsLoop_costs [OF this, of "''left''" k], of "\<lambda>_. ret rm" rm 0]
  show ?thesis using None by (simp add: oneName_def)
next
  case (Some rs)
  have "rs \<noteq> []" "ls = [] \<or> sideOk left k ls" "\<forall>l\<in>set ls. comparable opts left right l rs"
    using assms(2) Some map_of_SomeD [OF Some] by (auto simp: entriesOk_def)
  note loop = leftMethodsLoop_outcome [OF assms(1) Some this]
  let ?finish = "\<lambda>rightMap. andThen (logLine []) (\<lambda>_. ret rightMap)"
  have "outcome (andThen (leftMethodsLoop order opts left right k ls rm) ?finish)
      (map_option (\<lambda>(n, rest). (AList.update k rest rm, n)) (pairMethods (methodCost opts left right) ls rs))"
    using outcome_post [where f = ?finish and g = "\<lambda>x. x", OF loop costs_logThen [OF costs_ret]] by (simp add: option.map_comp comp_def case_prod_unfold)
  then show ?thesis unfolding oneName_def using Some
    by (simp, intro outcome_pre [OF costs_log] outcome_pre [OF costs_checkOverload])
qed

text \<open>The entries that a turn leaves to the next ones.\<close>

lemma entriesOk_update:
  assumes "entriesOk opts left right ((k, ls) # es) rm" "rest \<noteq> []"
  shows "entriesOk opts left right es (AList.update k rest rm)"
proof -
  have k: "k \<notin> fst ` set es" using assms(1) by (simp add: entriesOk_def)
  have "map_of (AList.update k rest rm) k' = map_of rm k'" if "(k', ls') \<in> set es" for k' ls'
    using k that by (auto simp: update_conv rev_image_eqI)
  moreover have "rs \<noteq> []" if "(k', rs) \<in> set (AList.update k rest rm)" for k' rs
  proof -
    have d: "distinct (map fst rm)" "distinct (map fst (AList.update k rest rm))" using assms(1) by (simp_all add: entriesOk_def distinct_update)
    have "map_of (AList.update k rest rm) k' = Some rs" using that d(2) by simp
    then show ?thesis using assms map_of_SomeD [of rm k' rs] by (auto simp: entriesOk_def update_conv split: if_splits)
  qed
  ultimately show ?thesis using assms(1) by (fastforce simp: entriesOk_def distinct_update)
qed

lemma entriesOk_tail: "entriesOk opts left right (e # es) rm \<Longrightarrow> entriesOk opts left right es rm"
  by (auto simp: entriesOk_def)

lemma nameCost_update: "k \<notin> fst ` set es \<Longrightarrow> e \<in> set es \<Longrightarrow> nameCost \<delta> (AList.update k v rm) e = nameCost \<delta> rm e"
  by (auto simp: nameCost_def update_conv)

lemma methodsLoop_fails:
  assumes "rearranges order"
  shows "entriesOk opts left right es rm \<Longrightarrow> \<exists>e\<in>set es. nameCost (methodCost opts left right) rm e = None \<Longrightarrow>
    fails (methodsLoop order opts left right es rm)"
proof (induction es arbitrary: rm)
  case (Cons e es)
  obtain k ls where e: "e = (k, ls)" by fastforce
  let ?c = "nameCost (methodCost opts left right)" and ?next = "methodsLoop order opts left right es"
  note one = oneName_outcome [OF assms Cons.prems(1) [unfolded e]]
  have k: "k \<notin> fst ` set es" using Cons.prems(1) e by (simp add: entriesOk_def)
  have "fails (andThen (oneName order opts left right k ls rm) ?next)"
  proof (cases "?c rm e")
    case None
    then have "fails (oneName order opts left right k ls rm)" using one e by (auto simp: nameCost_def split: option.splits)
    then show ?thesis by (rule fails_first)
  next
    case (Some x)
    then have later: "\<exists>e\<in>set es. ?c rm e = None" using Cons.prems(2) by auto
    show ?thesis
    proof (cases "map_of rm k")
      case None
      then have "costs (oneName order opts left right k ls rm) rm (of_nat (length ls))" using one by simp
      then show ?thesis by (rule fails_then) (rule Cons.IH [OF entriesOk_tail [OF Cons.prems(1)] later])
    next
      case rs: (Some rs)
      then obtain n rest where p: "pairMethods (methodCost opts left right) ls rs = Some (n, rest)" using Some e by (auto simp: nameCost_def)
      have "rs \<noteq> []" using Cons.prems(1) map_of_SomeD [OF rs] by (auto simp: entriesOk_def)
      then have "rest \<noteq> []" using pairMethods_rest [OF p] by simp
      moreover have "\<exists>e\<in>set es. ?c (AList.update k rest rm) e = None" using later nameCost_update [OF k] by metis
      ultimately have "fails (?next (AList.update k rest rm))" using Cons.IH entriesOk_update [OF Cons.prems(1) [unfolded e]] by blast
      moreover have "costs (oneName order opts left right k ls rm) (AList.update k rest rm) (of_nat n)" using one rs p by simp
      ultimately show ?thesis by (rule fails_then [rotated])
    qed
  qed
  then show ?case unfolding e methodsLoop_Cons by (rule fails_then [where f = "\<lambda>_. andThen (oneName order opts left right k ls rm) ?next", OF costs_checkOverload])
qed simp

definition within :: "member_info list hmap \<Rightarrow> member_info list hmap \<Rightarrow> bool" where
  "within rm' rm \<longleftrightarrow> distinct (map fst rm') \<and> (\<forall>(k, rs')\<in>set rm'. \<exists>rs. map_of rm k = Some rs \<and> set rs' \<subseteq> set rs)"

lemma within_refl: "distinct (map fst rm) \<Longrightarrow> within rm rm"
  by (auto simp: within_def)

lemma within_update:
  assumes "within rm' (AList.update k rest rm)" "map_of rm k = Some rs" "set rest \<subseteq> set rs"
  shows "within rm' rm"
  using assms unfolding within_def by (fastforce simp: update_conv split: if_splits)

lemma methodsLoop_costs:
  assumes "rearranges order"
  shows "entriesOk opts left right es rm \<Longrightarrow> \<forall>e\<in>set es. nameCost (methodCost opts left right) rm e \<noteq> None \<Longrightarrow>
    \<exists>rm' n. costs (methodsLoop order opts left right es rm) rm' (of_nat n) \<and> within rm' rm \<and>
      n + methodsSize {} rm' = sum_list (map (\<lambda>e. the (nameCost (methodCost opts left right) rm e)) es) + methodsSize (fst ` set es) rm"
proof (induction es arbitrary: rm)
  case Nil
  then show ?case by (intro exI [of _ rm] exI [of _ 0]) (simp add: within_refl entriesOk_def)
next
  case (Cons e es)
  obtain k ls where e: "e = (k, ls)" by fastforce
  let ?\<delta> = "methodCost opts left right"
  let ?c = "nameCost ?\<delta>" and ?next = "methodsLoop order opts left right es"
  note one = oneName_outcome [OF assms Cons.prems(1) [unfolded e]]
  have k: "k \<notin> fst ` set es" and d: "distinct (map fst rm)" using Cons.prems(1) e by (simp_all add: entriesOk_def)
  have step: "\<exists>rm1 m. costs (oneName order opts left right k ls rm) rm1 (of_nat m) \<and> entriesOk opts left right es rm1 \<and>
      (\<forall>e\<in>set es. ?c rm1 e = ?c rm e) \<and> (\<forall>rm'. within rm' rm1 \<longrightarrow> within rm' rm) \<and>
      m + methodsSize (fst ` set es) rm1 = the (?c rm e) + methodsSize (fst ` set (e # es)) rm"
  proof (cases "map_of rm k")
    case None
    have "methodsSize (fst ` set es) rm = methodsSize (fst ` set (e # es)) rm"
      unfolding methodsSize_def using None e by (intro arg_cong [of _ _ sum_list] map_cong) (auto simp: map_of_eq_None_iff rev_image_eqI)
    then show ?thesis using one None e entriesOk_tail [OF Cons.prems(1)]
      by (intro exI [of _ rm] exI [of _ "length ls"]) (simp add: nameCost_def)
  next
    case (Some rs)
    then obtain n rest where p: "pairMethods ?\<delta> ls rs = Some (n, rest)" using Cons.prems(2) e by (auto simp: nameCost_def)
    have "rs \<noteq> []" using Cons.prems(1) map_of_SomeD [OF Some] by (auto simp: entriesOk_def)
    from pairMethods_rest [OF p this] have rest: "set rest \<subseteq> set rs" "rest \<noteq> []" by simp_all
    have "methodsSize (fst ` set es) (AList.update k rest rm) = length rest + methodsSize (fst ` set (e # es)) rm"
      using methodsSize_update [OF Some d k] e by simp
    then show ?thesis using one Some p e entriesOk_update [OF Cons.prems(1) [unfolded e] rest(2)] nameCost_update [OF k] within_update [OF _ Some rest(1)]
      by (intro exI [of _ "AList.update k rest rm"] exI [of _ n]) (simp add: nameCost_def)
  qed
  then obtain rm1 m where s: "costs (oneName order opts left right k ls rm) rm1 (of_nat m)" "entriesOk opts left right es rm1"
      "\<forall>e\<in>set es. ?c rm1 e = ?c rm e" "\<And>rm'. within rm' rm1 \<Longrightarrow> within rm' rm"
      "m + methodsSize (fst ` set es) rm1 = the (?c rm e) + methodsSize (fst ` set (e # es)) rm" by blast
  have "\<forall>e\<in>set es. ?c rm1 e \<noteq> None" using s(3) Cons.prems(2) by simp
  from Cons.IH [OF s(2) this] obtain rm' n where n: "costs (?next rm1) rm' (of_nat n)" "within rm' rm1"
    "n + methodsSize {} rm' = sum_list (map (\<lambda>e. the (?c rm1 e)) es) + methodsSize (fst ` set es) rm1" by blast
  have same: "map (\<lambda>e. the (?c rm1 e)) es = map (\<lambda>e. the (?c rm e)) es" using s(3) by simp
  have "costs (methodsLoop order opts left right (e # es) rm) rm' (of_nat (m + n))"
    unfolding e methodsLoop_Cons
    using costs_step [where f = "\<lambda>_. andThen (oneName order opts left right k ls rm) ?next", OF costs_checkOverload costs_andThen [where f = ?next, OF s(1) n(1)]]
    by simp
  moreover have "m + n + methodsSize {} rm' = sum_list (map (\<lambda>e. the (?c rm e)) (e # es)) + methodsSize (fst ` set (e # es)) rm"
    using n(3) s(5) same by simp
  ultimately show ?case using s(4) [OF n(2)] by blast
qed

text \<open>The method maps.\<close>

lemma extractMethods_inv:
  "extractMethods opts parser xs m = Inr m' \<Longrightarrow> distinct (map fst m) \<Longrightarrow>
   \<forall>(k, ms)\<in>set m. ms \<noteq> [] \<and> (\<forall>x\<in>set ms. x \<in> A \<and> stringOf parser (nameIndex x) = Inr k) \<Longrightarrow> set xs \<subseteq> A \<Longrightarrow>
   distinct (map fst m') \<and> (\<forall>(k, ms)\<in>set m'. ms \<noteq> [] \<and> (\<forall>x\<in>set ms. x \<in> A \<and> stringOf parser (nameIndex x) = Inr k))"
proof (induction xs arbitrary: m)
  case Nil
  then show ?case by simp
next
  case (Cons x xs)
  show ?case
  proof (cases "publicOnly opts \<and> \<not> isPublic (accessFlags x)")
    case True
    then show ?thesis using Cons by simp
  next
    case False
    let ?old = "\<lambda>k. case map_of m k of None \<Rightarrow> [] | Some ms \<Rightarrow> ms"
    from False Cons.prems(1) obtain k where k: "stringOf parser (nameIndex x) = Inr k"
        "extractMethods opts parser xs (AList.update k (?old k @ [x]) m) = Inr m'" by (auto simp: bindR_Inr_iff)
    have old: "\<forall>x\<in>set (?old k). x \<in> A \<and> stringOf parser (nameIndex x) = Inr k"
      using Cons.prems(3) map_of_SomeD [of m k] by (cases "map_of m k") auto
    have "\<forall>(k', ms)\<in>set (AList.update k (?old k @ [x]) m). ms \<noteq> [] \<and> (\<forall>x\<in>set ms. x \<in> A \<and> stringOf parser (nameIndex x) = Inr k')"
    proof (clarify)
      fix k' ms assume "(k', ms) \<in> set (AList.update k (?old k @ [x]) m)"
      moreover have "distinct (map fst (AList.update k (?old k @ [x]) m))" using Cons.prems(2) by (simp add: distinct_update)
      ultimately have "map_of (AList.update k (?old k @ [x]) m) k' = Some ms" by simp
      then have "k' = k \<and> ms = ?old k @ [x] \<or> (k', ms) \<in> set m" using map_of_SomeD [of m k' ms] by (auto simp: update_conv split: if_splits)
      then show "ms \<noteq> [] \<and> (\<forall>x\<in>set ms. x \<in> A \<and> stringOf parser (nameIndex x) = Inr k')"
      proof
        assume "(k', ms) \<in> set m"
        from bspec [OF Cons.prems(3) this] show ?thesis by simp
      qed (use old k(1) Cons.prems(4) in auto)
    qed
    from Cons.IH [OF k(2) _ this] show ?thesis using Cons.prems(2,4) by (simp add: distinct_update)
  qed
qed

definition methodsOk :: "diff_options \<Rightarrow> class_file_parser \<Rightarrow> class_file_parser \<Rightarrow> bool" where
  "methodsOk opts left right \<longleftrightarrow>
     (\<forall>m\<in>set (methods left). \<exists>descriptor. stringOf left (descriptorIndex m) = Inr descriptor) \<and>
     (\<forall>m\<in>set (methods right). \<exists>descriptor. stringOf right (descriptorIndex m) = Inr descriptor) \<and>
     (\<forall>l\<in>set (methods left). \<forall>r\<in>set (methods right). \<exists>n. memberDifferences opts left right l r = Inr n \<and> n < 2 ^ 32)"

lemma methodsSize_hmEntries:
  "rearranges order \<Longrightarrow> distinct (map fst m) \<Longrightarrow> sum_list (map (length \<circ> snd) (hmEntries order m)) = methodsSize {} m"
  by (subst sum_hmEntries) (auto simp: methodsSize_def intro!: arg_cong [of _ _ sum_list])

lemma compareMethods_outcome:
  assumes o: "rearranges order" and lm: "extractMethods opts left (methods left) [] = Inr lm"
    and rm: "extractMethods opts right (methods right) [] = Inr rm" and ok: "methodsOk opts left right"
  shows "outcome (compareMethods order opts left right) (map_option (Pair ()) (methodsCost (methodCost opts left right) lm rm))"
proof -
  let ?es = "hmEntries order lm" and ?c = "nameCost (methodCost opts left right) rm"
  let ?go = "andThen (methodsLoop order opts left right ?es rm) (\<lambda>rm'. onlyRightMethods right (hmEntries order rm'))"
  from extractMethods_inv [OF lm, of "set (methods left)"] extractMethods_inv [OF rm, of "set (methods right)"]
  have l: "distinct (map fst lm)" "\<forall>(k, ms)\<in>set lm. ms \<noteq> [] \<and> (\<forall>x\<in>set ms. x \<in> set (methods left) \<and> stringOf left (nameIndex x) = Inr k)"
    and r: "distinct (map fst rm)" "\<forall>(k, ms)\<in>set rm. ms \<noteq> [] \<and> (\<forall>x\<in>set ms. x \<in> set (methods right) \<and> stringOf right (nameIndex x) = Inr k)"
    by simp_all
  have es: "set ?es = set lm" by (rule set_hmEntries [OF o l(1)])
  have sub: "set rs \<subseteq> set (methods right)" if "map_of rm k = Some rs" for k rs using map_of_SomeD [OF that] r(2) by auto
  have entries: "entriesOk opts left right ?es rm"
    unfolding entriesOk_def es
  proof (intro conjI ballI)
    fix e assume "e \<in> set lm"
    then obtain k ls where e: "e = (k, ls)" and ls: "ls \<noteq> []" "\<forall>x\<in>set ls. x \<in> set (methods left) \<and> stringOf left (nameIndex x) = Inr k"
      using l(2) by (cases e) auto
    have "sideOk left k ls" using ls ok by (auto simp: sideOk_def methodsOk_def)
    moreover have "comparable opts left right x rs" if "map_of rm k = Some rs" "x \<in> set ls" for rs x
      unfolding comparable_def using ls(2) that(2) subsetD [OF sub [OF that(1)]] ok by (auto simp: methodsOk_def)
    ultimately show "case e of (k, ls) \<Rightarrow> sideOk left k ls \<and> (\<forall>rs. map_of rm k = Some rs \<longrightarrow> (\<forall>l\<in>set ls. comparable opts left right l rs))"
      using e by simp
  qed (use r distinct_hmKeys [OF o l(1)] in auto)
  have "outcome ?go (map_option (Pair ()) (methodsCost (methodCost opts left right) lm rm))"
  proof (cases "\<exists>e\<in>set lm. ?c e = None")
    case True
    then have "fails (methodsLoop order opts left right ?es rm)" using methodsLoop_fails [OF o entries] es by simp
    then show ?thesis using True by (simp add: methodsCost_def fails_first)
  next
    case False
    then have "\<forall>e\<in>set ?es. ?c e \<noteq> None" using es by simp
    from methodsLoop_costs [OF o entries this] obtain rm' n where n: "costs (methodsLoop order opts left right ?es rm) rm' (of_nat n)" "within rm' rm"
      "n + methodsSize {} rm' = sum_list (map (\<lambda>e. the (?c e)) ?es) + methodsSize (fst ` set ?es) rm" by blast
    have d: "distinct (map fst rm')" using n(2) by (simp add: within_def)
    have "\<forall>(k, rs)\<in>set (hmEntries order rm'). \<forall>r\<in>set rs. \<exists>descriptor. stringOf right (descriptorIndex r) = Inr descriptor"
    proof (intro ballI)
      fix e assume "e \<in> set (hmEntries order rm')"
      then have "e \<in> set rm'" by (simp add: set_hmEntries [OF o d])
      from bspec [OF conjunct2 [OF n(2) [unfolded within_def]] this]
      obtain k rs' rs where e: "e = (k, rs')" "map_of rm k = Some rs" "set rs' \<subseteq> set rs" by (cases e) auto
      then show "case e of (k, rs) \<Rightarrow> \<forall>r\<in>set rs. \<exists>descriptor. stringOf right (descriptorIndex r) = Inr descriptor"
        using sub [OF e(2)] ok by (auto simp: methodsOk_def)
    qed
    from onlyRightMethods_costs [OF this] have "costs (onlyRightMethods right (hmEntries order rm')) () (of_nat (methodsSize {} rm'))"
      by (simp only: methodsSize_hmEntries [OF o d])
    from costs_andThen [where f = "\<lambda>rm'. onlyRightMethods right (hmEntries order rm')", OF n(1) this]
    have "costs ?go () (of_nat (n + methodsSize {} rm'))" by simp
    then show ?thesis using False unfolding n(3) by (auto simp: methodsCost_def sum_hmEntries [OF o l(1)] es)
  qed
  then show ?thesis unfolding compareMethods_def
    by (intro outcome_pre [OF costs_log] outcome_pre [OF costs_lift [OF lm]] outcome_pre [OF costs_lift [OF rm]])
qed

section \<open>The whole comparison\<close>

lemma namedMap_values: "namedMap f xs m = Inr m' \<Longrightarrow> (k, x) \<in> set m' \<Longrightarrow> x \<in> set xs \<or> x \<in> snd ` set m"
proof (induction xs arbitrary: m)
  case (Cons y ys)
  then obtain k' where "namedMap f ys (AList.update k' y m) = Inr m'" by (auto simp: bindR_Inr_iff)
  moreover have "snd ` set (AList.update k' y m) \<subseteq> insert y (snd ` set m)"
    by (induction m) auto
  ultimately show ?case using Cons.IH Cons.prems(2) by fastforce
qed (auto simp: rev_image_eqI)

definition fieldsOk :: "diff_options \<Rightarrow> class_file_parser \<Rightarrow> class_file_parser \<Rightarrow> bool" where
  "fieldsOk opts left right \<longleftrightarrow> (\<forall>l\<in>set (comparedFields opts left). \<forall>r\<in>set (comparedFields opts right). \<exists>n. memberDifferences opts left right l r = Inr n)"

text \<open>
  The number of differences, with no reference to an order of iteration: the names that differ,
  interfaces and fields of one side only, attributes, methods and fields.
\<close>

definition differenceSpec :: "diff_options \<Rightarrow> class_file_parser \<Rightarrow> class_file_parser \<Rightarrow> nat option result" where
  "differenceSpec opts left right =
     bindR (getMainClassname left) (\<lambda>nl. bindR (getMainClassname right) (\<lambda>nr.
     bindR (classInfoNameOf left (superClass (mainClassInfo left))) (\<lambda>sl. bindR (classInfoNameOf right (superClass (mainClassInfo right))) (\<lambda>sr.
     bindR (namedMap (classInfoNameOf left) (interfaces left) []) (\<lambda>il. bindR (namedMap (classInfoNameOf right) (interfaces right) []) (\<lambda>ir.
     bindR (namedMap (\<lambda>a. stringOf left (attrNameIndex a)) (attributes left) []) (\<lambda>al.
     bindR (namedMap (\<lambda>a. stringOf right (attrNameIndex a)) (attributes right) []) (\<lambda>ar.
     bindR (extractMethods opts left (methods left) []) (\<lambda>ml. bindR (extractMethods opts right (methods right) []) (\<lambda>mr.
     bindR (namedMap (\<lambda>f. stringOf left (nameIndex f)) (comparedFields opts left) []) (\<lambda>fl.
     bindR (namedMap (\<lambda>f. stringOf right (nameIndex f)) (comparedFields opts right) []) (\<lambda>fr.
     Inr (map_option (\<lambda>n.
         (if ignoreClassname opts then 0 else differs nl nr) + differs sl sr +
         differs (classAccessFlags (mainClassInfo left)) (classAccessFlags (mainClassInfo right)) +
         pairCost (\<lambda>_ _ _. 0) il ir + attributeDifferences (ignoredAttributes opts) al ar + n + pairCost (fieldCost opts left right) fl fr)
       (methodsCost (methodCost opts left right) ml mr))))))))))))))"

lemma compareMainClassname_costs:
  assumes "getMainClassname left = Inr nl" "getMainClassname right = Inr nr"
  shows "costs (compareMainClassname opts left right) () (of_nat (if ignoreClassname opts then 0 else differs nl nr))"
  unfolding compareMainClassname_def
  by (intro costs_liftThen [OF assms(1)] costs_liftThen [OF assms(2)]) (auto simp: differs_def costs_log)

lemma compareSuperClass_costs:
  assumes "classInfoNameOf left (superClass (mainClassInfo left)) = Inr sl" "classInfoNameOf right (superClass (mainClassInfo right)) = Inr sr"
  shows "costs (compareSuperClass left right) () (of_nat (differs sl sr))"
  unfolding compareSuperClass_def
  by (intro costs_liftThen [OF assms(1)] costs_liftThen [OF assms(2)]) (auto simp: differs_def costs_log)

lemma compareMainClassAccessFlags_costs:
  "costs (compareMainClassAccessFlags left right) () (of_nat (differs (classAccessFlags (mainClassInfo left)) (classAccessFlags (mainClassInfo right))))"
proof -
  let ?l = "classAccessFlags (mainClassInfo left)" and ?r = "classAccessFlags (mainClassInfo right)"
  obtain message where "costs (compareAccessFlags ?l ?r) (?l = ?r, message) (of_nat (differs ?l ?r))" using compareAccessFlags_costs by blast
  from costs_pair [where g = "\<lambda>_ message. logLine message", OF this costs_log] show ?thesis by (simp add: compareMainClassAccessFlags_def)
qed

lemma compareMainClassAttributes_costs:
  assumes "rearranges order" "namedMap (\<lambda>a. stringOf left (attrNameIndex a)) (attributes left) [] = Inr lm"
    and "namedMap (\<lambda>a. stringOf right (attrNameIndex a)) (attributes right) [] = Inr rm"
  shows "costs (compareMainClassAttributes order opts left right) () (of_nat (attributeDifferences (ignoredAttributes opts) lm rm))"
proof -
  from compareAttributes_costs [OF assms, of opts] obtain b message where
    "costs (compareAttributes order opts left right (attributes left) (attributes right)) (b, message)
      (of_nat (attributeDifferences (ignoredAttributes opts) lm rm))" by blast
  from costs_pair [where g = "\<lambda>_ message. logLine message", OF this costs_log] show ?thesis by (simp add: compareMainClassAttributes_def)
qed

lemma compareMainClass_costs:
  assumes "rearranges order" "getMainClassname left = Inr nl" "getMainClassname right = Inr nr"
    and "classInfoNameOf left (superClass (mainClassInfo left)) = Inr sl" "classInfoNameOf right (superClass (mainClassInfo right)) = Inr sr"
    and "namedMap (classInfoNameOf left) (interfaces left) [] = Inr il" "namedMap (classInfoNameOf right) (interfaces right) [] = Inr ir"
    and "namedMap (\<lambda>a. stringOf left (attrNameIndex a)) (attributes left) [] = Inr al"
    and "namedMap (\<lambda>a. stringOf right (attrNameIndex a)) (attributes right) [] = Inr ar"
  shows "costs (compareMainClass order opts left right) ()
    (of_nat ((if ignoreClassname opts then 0 else differs nl nr) + differs sl sr +
       differs (classAccessFlags (mainClassInfo left)) (classAccessFlags (mainClassInfo right)) +
       pairCost (\<lambda>_ _ _. 0) il ir + attributeDifferences (ignoredAttributes opts) al ar))"
proof -
  note steps = compareMainClassname_costs [OF assms(2,3), of opts] compareSuperClass_costs [OF assms(4,5)] compareMainClassAccessFlags_costs [of left right]
    compareMainClassInterfaces_costs [OF assms(1,6,7)] compareMainClassAttributes_costs [OF assms(1,8,9), of opts]
  show ?thesis unfolding compareMainClass_def
    by (rule costs_logThen, rule costs_step [OF steps(1)], rule costs_step [OF steps(2)], rule costs_step [OF steps(3)], rule costs_step [OF steps(4)],
        rule steps(5), rule refl, rule refl, rule refl) (simp add: add.assoc)
qed

lemma compare_outcome:
  assumes o: "rearranges order" and ok: "methodsOk opts left right" "fieldsOk opts left right"
    and spec: "differenceSpec opts left right = Inr expected"
  shows "outcome (compare order opts left right) (map_option (Pair ()) expected)"
proof -
  from spec obtain nl nr sl sr il ir al ar ml mr fl fr where
    s: "getMainClassname left = Inr nl" "getMainClassname right = Inr nr"
      "classInfoNameOf left (superClass (mainClassInfo left)) = Inr sl" "classInfoNameOf right (superClass (mainClassInfo right)) = Inr sr"
      "namedMap (classInfoNameOf left) (interfaces left) [] = Inr il" "namedMap (classInfoNameOf right) (interfaces right) [] = Inr ir"
      "namedMap (\<lambda>a. stringOf left (attrNameIndex a)) (attributes left) [] = Inr al"
      "namedMap (\<lambda>a. stringOf right (attrNameIndex a)) (attributes right) [] = Inr ar"
    and m: "extractMethods opts left (methods left) [] = Inr ml" "extractMethods opts right (methods right) [] = Inr mr"
    and f: "namedMap (\<lambda>f. stringOf left (nameIndex f)) (comparedFields opts left) [] = Inr fl"
      "namedMap (\<lambda>f. stringOf right (nameIndex f)) (comparedFields opts right) [] = Inr fr"
    and e: "expected = map_option (\<lambda>n.
         (if ignoreClassname opts then 0 else differs nl nr) + differs sl sr +
         differs (classAccessFlags (mainClassInfo left)) (classAccessFlags (mainClassInfo right)) +
         pairCost (\<lambda>_ _ _. 0) il ir + attributeDifferences (ignoredAttributes opts) al ar + n + pairCost (fieldCost opts left right) fl fr)
       (methodsCost (methodCost opts left right) ml mr)"
    unfolding differenceSpec_def bindR_Inr_iff by blast
  note main = compareMainClass_costs [OF o s, of opts]
  have "costs (compareFields order opts left right) () (of_nat (pairCost (fieldCost opts left right) fl fr))"
  proof (rule compareFields_costs [OF o f])
    fix k l r assume "(k, l) \<in> set fl" "map_of fr k = Some r"
    with namedMap_values [OF f(1)] namedMap_values [OF f(2) map_of_SomeD] have "l \<in> set (comparedFields opts left)" "r \<in> set (comparedFields opts right)"
      by fastforce+
    then show "\<exists>n. memberDifferences opts left right l r = Inr n" using ok(2) by (simp add: fieldsOk_def)
  qed
  then have members: "outcome (compareMembers order opts left right)
      (map_option (\<lambda>n. ((), n + pairCost (fieldCost opts left right) fl fr)) (methodsCost (methodCost opts left right) ml mr))"
    using compareMethods_outcome [OF o m ok(1)] unfolding compareMembers_def
    by (cases "methodsCost (methodCost opts left right) ml mr") (auto intro: fails_first costs_andThen)
  show ?thesis unfolding compare_def
    using outcome_then [where f = "\<lambda>_. compareMembers order opts left right", OF main members]
    by (simp add: e option.map_comp comp_def add.assoc)
qed

text \<open>(C27)
  The count of \<^verbatim>\<open>cfdiff\<close> does not depend on the order in which the hash maps are iterated: whatever
  rearrangement the order is, the comparison ends and adds the specified number of differences to
  the 32-bit count (modulo \<open>2 ^ 32\<close>), or it runs into undefined behaviour, the latter exactly when the
  last right method of some name finds an equal left method.
\<close>

theorem cfdiff_counts:
  assumes "rearranges order" "methodsOk opts left right" "fieldsOk opts left right" "differenceSpec opts left right = Inr expected"
  shows "case expected of
      Some n \<Rightarrow> fst (compare order opts left right d) = Inr () \<and>
        differenceCount (snd (compare order opts left right d)) = differenceCount d + of_nat n
    | None \<Rightarrow> fst (compare order opts left right d) = Inl Undefined"
proof -
  note outcome = compare_outcome [OF assms]
  show ?thesis
  proof (cases expected)
    case None
    then show ?thesis using outcome by (simp add: fails_def)
  next
    case (Some n)
    then have "costs (compare order opts left right) () (of_nat n)" using outcome by simp
    then obtain d' where "compare order opts left right d = (Inr (), d')" "differenceCount d' = differenceCount d + of_nat n"
      unfolding costs_def by blast
    then show ?thesis using Some by simp
  qed
qed

definition diffSample :: "member_info list \<Rightarrow> class_file_parser" where
  "diffSample ms = (newParser (initialReader False (Memory [] 0) 0) ''A.class'' [])
     \<lparr>constantPool := poolOf [Utf8Info [65], ClassInfo 1, Utf8Info [40, 41, 86]],
      mainClassInfo := \<lparr>classAccessFlags = 0x21, thisClass = 2, superClass = 0\<rparr>, methods := ms\<rparr>"

definition sampleMethod :: "u2 \<Rightarrow> member_info" where
  "sampleMethod flags = \<lparr>accessFlags = flags, nameIndex = 1, descriptorIndex = 3, memberAttributes = []\<rparr>"

definition sampleDiffOptions :: diff_options where
  "sampleDiffOptions = \<lparr>ignoreClassname = False, publicOnly = False, ignoredAttributes = {}\<rparr>"

lemma rearranges_rev: "rearranges rev"
  by (simp add: rearranges_def)

lemma diffSample_strings:
  "stringOf (diffSample ms) 1 = Inr ''A''" "stringOf (diffSample ms) 3 = Inr ''()V''" "classInfoNameOf (diffSample ms) 2 = Inr ''A''"
  "classInfoNameOf (diffSample ms) 0 = Inr []"
  by (simp_all add: stringOf_def classInfoNameOf_def diffSample_def newParser_def, code_simp+)

lemma sample_memberDifferences:
  "memberDifferences sampleDiffOptions (diffSample ms) (diffSample ns) (sampleMethod a) (sampleMethod b) = Inr (differs a b)"
  by (simp add: memberDifferences_def sampleMethod_def diffSample_strings differs_def attributeDifferences_def)

lemma diffSample_ok:
  "methodsOk sampleDiffOptions (diffSample (map sampleMethod as)) (diffSample (map sampleMethod bs))"
  "fieldsOk sampleDiffOptions (diffSample (map sampleMethod as)) (diffSample (map sampleMethod bs))"
proof -
  have "methods (diffSample ms) = ms" "classFields (diffSample ms) = []" for ms by (simp_all add: diffSample_def newParser_def)
  moreover have "stringOf (diffSample ms) (descriptorIndex (sampleMethod a)) = Inr ''()V''" for ms a
    using diffSample_strings(2) by (simp add: sampleMethod_def)
  ultimately show "methodsOk sampleDiffOptions (diffSample (map sampleMethod as)) (diffSample (map sampleMethod bs))"
    "fieldsOk sampleDiffOptions (diffSample (map sampleMethod as)) (diffSample (map sampleMethod bs))"
    by (auto simp: methodsOk_def fieldsOk_def comparedFields_def sample_memberDifferences differs_def)
qed

lemma diffSample_spec:
  "differenceSpec sampleDiffOptions (diffSample (map sampleMethod [1])) (diffSample (map sampleMethod [1, 2])) = Inr (Some 1)"
  "differenceSpec sampleDiffOptions (diffSample (map sampleMethod [1])) (diffSample (map sampleMethod [1])) = Inr None"
proof -
  have sel: "methods (diffSample ms) = ms" "classFields (diffSample ms) = []" "interfaces (diffSample ms) = []" "attributes (diffSample ms) = []"
      "mainClassInfo (diffSample ms) = \<lparr>classAccessFlags = 0x21, thisClass = 2, superClass = 0\<rparr>" for ms
    by (simp_all add: diffSample_def newParser_def)
  have name: "getMainClassname (diffSample ms) = Inr ''A''" for ms
    using diffSample_strings(3) by (simp add: getMainClassname_def classInfoNameOf_def sel)
  have cost: "sampleMethod a = sampleMethod b \<longleftrightarrow> a = b" for a b by (simp add: sampleMethod_def)
  have member: "nameIndex (sampleMethod a) = 1" "accessFlags (sampleMethod a) = a" for a by (simp_all add: sampleMethod_def)
  note facts = differenceSpec_def sel name member diffSample_strings comparedFields_def sampleDiffOptions_def
    sample_memberDifferences [unfolded sampleDiffOptions_def] methodsCost_def nameCost_def methodsSize_def pairCost_def matchCost_def onlyCount_def
    attributeDifferences_def differs_def extract_Cons_code extract_Nil_code
  show "differenceSpec sampleDiffOptions (diffSample (map sampleMethod [1])) (diffSample (map sampleMethod [1, 2])) = Inr (Some 1)"
    by (simp add: facts)
  show "differenceSpec sampleDiffOptions (diffSample (map sampleMethod [1])) (diffSample (map sampleMethod [1])) = Inr None"
    by (simp add: facts)
qed

theorem cfdiff_counts_witness:
  "fst (compare rev sampleDiffOptions (diffSample (map sampleMethod [1])) (diffSample (map sampleMethod [1, 2])) \<lparr>differenceCount = 0, diffLog = []\<rparr>) = Inr () \<and>
   differenceCount (snd (compare rev sampleDiffOptions (diffSample (map sampleMethod [1])) (diffSample (map sampleMethod [1, 2]))
     \<lparr>differenceCount = 0, diffLog = []\<rparr>)) = 1"
  using cfdiff_counts [OF rearranges_rev diffSample_ok diffSample_spec(1), of "\<lparr>differenceCount = 0, diffLog = []\<rparr>"] by simp

lemma pairMethods_self: "ls \<noteq> [] \<Longrightarrow> \<forall>l\<in>set ls. \<delta> l l = 0 \<Longrightarrow> pairMethods \<delta> ls ls = None"
  by (induction ls) (auto simp: extract_Cons_code)

lemma attributeDifferences_self: "distinct (map fst m) \<Longrightarrow> attributeDifferences ignored m m = 0"
  by (auto simp: attributeDifferences_def filter_empty_conv sameAttribute_def)

lemma memberDifferences_self: "memberDifferences opts p p m m = Inr n \<Longrightarrow> n = 0"
  using namedMap_keys [where m = "[]" and xs = "memberAttributes m" and g = "\<lambda>a. stringOf p (attrNameIndex a)"]
  by (auto simp: memberDifferences_def bindR_Inr_iff differs_def attributeDifferences_self)

lemma extractMethods_nonempty:
  "extractMethods opts parser xs m = Inr m' \<Longrightarrow> m \<noteq> [] \<or> (\<exists>x\<in>set xs. \<not> (publicOnly opts \<and> \<not> isPublic (accessFlags x))) \<Longrightarrow> m' \<noteq> []"
proof (induction xs arbitrary: m)
  case (Cons x xs)
  have "AList.update k v m \<noteq> []" for k v by (cases m) auto
  with Cons show ?case by (fastforce simp: bindR_Inr_iff split: if_splits)
qed auto

lemma methodsCost_self:
  assumes "extractMethods opts p (methods p) [] = Inr m" "methodsOk opts p p"
    and "\<exists>x\<in>set (methods p). \<not> (publicOnly opts \<and> \<not> isPublic (accessFlags x))"
  shows "methodsCost (methodCost opts p p) m m = None"
proof -
  obtain k ls where e: "(k, ls) \<in> set m" using extractMethods_nonempty [OF assms(1)] assms(3) by (cases m) fastforce+
  from extractMethods_inv [OF assms(1), of "set (methods p)"]
  have d: "distinct (map fst m)" and ls: "ls \<noteq> []" "set ls \<subseteq> set (methods p)" using e by auto
  have "methodCost opts p p l l = 0" if "l \<in> set ls" for l
    using that ls(2) assms(2) memberDifferences_self [of opts p l] by (fastforce simp: methodsOk_def)
  then have "pairMethods (methodCost opts p p) ls ls = None" using pairMethods_self [OF ls(1)] by simp
  moreover have "map_of m k = Some ls" using e d by simp
  ultimately have "nameCost (methodCost opts p p) m (k, ls) = None" by (simp add: nameCost_def)
  then show ?thesis using e unfolding methodsCost_def by auto
qed

text \<open>(C28)
  Comparing a class with itself is undefined as soon as one of its methods is compared: the last
  method of a name is matched, its vector is erased with the map entry, and \<^verbatim>\<open>compareMethods\<close> then
  calls \<^verbatim>\<open>rightMethods.empty()\<close> on it.
\<close>

theorem cfdiff_self_undefined:
  assumes "rearranges order" "methodsOk opts p p" "fieldsOk opts p p" "differenceSpec opts p p = Inr expected"
    and "\<exists>x\<in>set (methods p). \<not> (publicOnly opts \<and> \<not> isPublic (accessFlags x))"
  shows "fst (compare order opts p p d) = Inl Undefined"
proof -
  obtain m where "extractMethods opts p (methods p) [] = Inr m" "expected = None"
    using assms(4) methodsCost_self [OF _ assms(2,5)] unfolding differenceSpec_def bindR_Inr_iff by fastforce
  then show ?thesis using compare_outcome [OF assms(1-4)] by (simp add: fails_def)
qed

theorem cfdiff_self_undefined_witness:
  "fst (compare rev sampleDiffOptions (diffSample (map sampleMethod [1])) (diffSample (map sampleMethod [1])) \<lparr>differenceCount = 0, diffLog = []\<rparr>) = Inl Undefined"
proof -
  have "\<exists>x\<in>set (methods (diffSample (map sampleMethod [1]))). \<not> (publicOnly sampleDiffOptions \<and> \<not> isPublic (accessFlags x))"
    by (simp add: diffSample_def newParser_def sampleDiffOptions_def)
  from cfdiff_self_undefined [OF rearranges_rev diffSample_ok diffSample_spec(2) this] show ?thesis .
qed

end
