(* ===== verification/Graph_Link.thy ===== *)
theory Graph_Link
  imports Domain_Tables "HOL-Library.Multiset"
begin

text \<open>
  Linking the call graph (\<^verbatim>\<open>app/commands/callgraph/CallGraphAnalyzer.cpp\<close> and \<^verbatim>\<open>.h\<close>): when all classes have
  been read, every reference to a class, method or field is joined with the rows of that name; an
  edge is added per match and both ends count it.  Names are compared by their offsets in the
  string pool.  The hash sets are iterated in an unspecified order, the parameter \<open>order\<close>.  Log
  lines are left out.
\<close>

section \<open>Columns and tables\<close>

definition setColumn8 :: "layout \<Rightarrow> string \<Rightarrow> u8 \<Rightarrow> table_row \<Rightarrow> table_row" where
  "setColumn8 l c v r = r\<lparr>rowBody := take (offsetOf l c - 16) (rowBody r) @ putU8 v @ drop (offsetOf l c - 8) (rowBody r)\<rparr>"

text \<open>\<^verbatim>\<open>row.c += n\<close> through the address of a row.\<close>

definition addColumn8 :: "layout \<Rightarrow> string \<Rightarrow> u8 \<Rightarrow> table_row \<Rightarrow> table_row" where
  "addColumn8 l c n r = setColumn8 l c (column8 l c r + n) r"

definition increase :: "layout \<Rightarrow> string \<Rightarrow> u8 \<Rightarrow> nat \<Rightarrow> (table, nat) prog" where
  "increase l c n a = andThen (deref a) (\<lambda>r. andThen (assign a (addColumn8 l c n r)) (\<lambda>_. ret a))"

abbreviation tableOf :: "nat \<Rightarrow> database \<Rightarrow> table" where
  "tableOf j db \<equiv> tbl (dbTables db ! j)"

text \<open>A call on table \<open>j\<close> of the database, with the key function of its rows.\<close>

definition onTable :: "nat \<Rightarrow> (row_key \<Rightarrow> (table, 'a) prog) \<Rightarrow> (database, 'a) prog" where
  "onTable j m = (\<lambda>db. case m (keyAt db j) (tableOf j db) of (r, t) \<Rightarrow> (r, setTable j t db))"

text \<open>
  \<^verbatim>\<open>forEach\<close> with a callback that works on the database.  The loop goes on while the index of the
  table lasts; no callback here adds rows to the table it iterates over.
\<close>

fun forEachCell :: "nat \<Rightarrow> (nat \<Rightarrow> table_row \<Rightarrow> (database, unit) prog) \<Rightarrow> nat list \<Rightarrow> (database, unit) prog" where
  "forEachCell j func [] = ret ()"
| "forEachCell j func (a # as) =
     andThen getState (\<lambda>db. andThen (liftR (cellRow (tableOf j db) a)) (\<lambda>r.
     andThen (if isDeleted r then ret () else func a r) (\<lambda>_. forEachCell j func as)))"

definition forEachIn :: "nat \<Rightarrow> (nat \<Rightarrow> table_row \<Rightarrow> (database, unit) prog) \<Rightarrow> (database, unit) prog" where
  "forEachIn j func = andThen getState (\<lambda>db. forEachCell j func (autoIncrementIndex (tableOf j db)))"

fun forAll :: "('a \<Rightarrow> ('s, unit) prog) \<Rightarrow> 'a list \<Rightarrow> ('s, unit) prog" where
  "forAll f [] = ret ()"
| "forAll f (x # xs) = andThen (f x) (\<lambda>_. forAll f xs)"

text \<open>A new edge row; an owner that is not set is the default of \<^verbatim>\<open>RefCol\<close>, zero.\<close>

definition EdgeRow :: "u8 \<Rightarrow> u8 \<Rightarrow> u8 \<Rightarrow> table_row" where
  "EdgeRow owner from to = \<lparr>rowFlags = 0, rowId = - 1, rowBody = putU8 owner @ putU8 from @ putU8 to\<rparr>"

definition addEdge :: "nat \<Rightarrow> u8 \<Rightarrow> u8 \<Rightarrow> u8 \<Rightarrow> (database, unit) prog" where
  "addEdge j owner from to = onTable j (\<lambda>key. andThen (newRow (EdgeRow owner from to)) (\<lambda>a. andThen (addRow key a) (\<lambda>_. ret ())))"

section \<open>Class references\<close>

type_synonym class_index = "u8 \<rightharpoonup> nat list"

text \<open>\<^verbatim>\<open>insert\<close> into a hash set that is kept as a list.\<close>

definition setInsert :: "'a \<Rightarrow> 'a list \<Rightarrow> 'a list" where
  "setInsert x xs = (if x \<in> set xs then xs else xs @ [x])"

definition insertClass :: "nat \<Rightarrow> u8 \<Rightarrow> class_index \<Rightarrow> class_index" where
  "insertClass a name idx = idx(name \<mapsto> setInsert a (case idx name of None \<Rightarrow> [] | Some as \<Rightarrow> as))"

fun classIndexLoop :: "table \<Rightarrow> nat list \<Rightarrow> class_index \<Rightarrow> class_index result" where
  "classIndexLoop t [] idx = Inr idx"
| "classIndexLoop t (a # as) idx = bindR (cellRow t a) (\<lambda>r.
     classIndexLoop t as (if isDeleted r then idx else insertClass a (column8 ClassFileRow ''classname'' r) idx))"

definition createClassnameIndex :: "database \<Rightarrow> class_index result" where
  "createClassnameIndex db = classIndexLoop (tableOf 1 db) (autoIncrementIndex (tableOf 1 db)) Map.empty"

definition linkClassMatch :: "table_row \<Rightarrow> nat \<Rightarrow> (database, unit) prog" where
  "linkClassMatch classRefRow pClassFileRow =
     andThen (onTable 1 (\<lambda>_. deref pClassFileRow)) (\<lambda>classFileRow.
     andThen (addEdge 7 0 (rowId classRefRow) (rowId classFileRow)) (\<lambda>_.
     onTable 1 (\<lambda>_. updateInPlace (increase ClassFileRow ''refCount'' 1 pClassFileRow))))"

definition linkClassRef :: "(nat list \<Rightarrow> nat list) \<Rightarrow> class_index \<Rightarrow> nat \<Rightarrow> table_row \<Rightarrow> (database, unit) prog" where
  "linkClassRef order classesByName a classRefRow = (case classesByName (column8 ClassRefRow ''name'' classRefRow) of
       None \<Rightarrow> ret ()
     | Some as \<Rightarrow>
         andThen (onTable 2 (\<lambda>_. updateInPlace (increase ClassRefRow ''edgeCount'' (of_nat (length as)) a))) (\<lambda>_.
         forAll (linkClassMatch classRefRow) (order as)))"

definition linkClassRefs :: "(nat list \<Rightarrow> nat list) \<Rightarrow> class_index \<Rightarrow> (database, unit) prog" where
  "linkClassRefs order classesByName = forEachIn 2 (linkClassRef order classesByName)"

section \<open>Method and field references\<close>

text \<open>
  The tables and layouts an instance of the templates works on: the referenced members, the
  references and the edges.
\<close>

record ref_types =
  targetTable :: nat
  targetLayout :: layout
  refTable :: nat
  refLayout :: layout
  edgeTable :: nat

definition methodTypes :: ref_types where
  "methodTypes = \<lparr>targetTable = 3, targetLayout = MethodRow, refTable = 4, refLayout = MethodRefRow, edgeTable = 8\<rparr>"

definition fieldTypes :: ref_types where
  "fieldTypes = \<lparr>targetTable = 5, targetLayout = FieldRow, refTable = 6, refLayout = FieldRefRow, edgeTable = 9\<rparr>"

type_synonym members_index = "u8 \<rightharpoonup> (u8 \<rightharpoonup> (u8 \<rightharpoonup> u8 list))"

definition insertMember :: "u8 \<Rightarrow> u8 \<Rightarrow> u8 \<Rightarrow> u8 \<Rightarrow> members_index \<Rightarrow> members_index" where
  "insertMember classname name descriptor i idx =
     (let memberName2Descriptors = (case idx classname of None \<Rightarrow> Map.empty | Some m \<Rightarrow> m);
          descriptor2Member = (case memberName2Descriptors name of None \<Rightarrow> Map.empty | Some m \<Rightarrow> m);
          members = (case descriptor2Member descriptor of None \<Rightarrow> [] | Some is \<Rightarrow> is)
      in idx(classname \<mapsto> memberName2Descriptors(name \<mapsto> descriptor2Member(descriptor \<mapsto> setInsert i members))))"

fun memberIndexLoop :: "layout \<Rightarrow> row_lookup \<Rightarrow> table \<Rightarrow> nat list \<Rightarrow> members_index \<Rightarrow> members_index result" where
  "memberIndexLoop l lk t [] idx = Inr idx"
| "memberIndexLoop l lk t (a # as) idx = bindR (cellRow t a) (\<lambda>memberRow.
     if isDeleted memberRow then memberIndexLoop l lk t as idx
     else bindR (lk 1 (column8 l ''ownerClass'' memberRow)) (\<lambda>ownerClassRow.
       memberIndexLoop l lk t as (insertMember (column8 ClassFileRow ''classname'' ownerClassRow)
         (column8 l ''name'' memberRow) (column8 l ''descriptor'' memberRow) (rowId memberRow) idx)))"

definition createMemberIndex :: "ref_types \<Rightarrow> database \<Rightarrow> members_index result" where
  "createMemberIndex types db = memberIndexLoop (targetLayout types) (dbLookup db) (tableOf (targetTable types) db)
     (autoIncrementIndex (tableOf (targetTable types) db)) Map.empty"

definition getMemberMatches :: "(u8 list \<Rightarrow> u8 list) \<Rightarrow> layout \<Rightarrow> members_index \<Rightarrow> table_row \<Rightarrow> u8 list" where
  "getMemberMatches order l memberIndex memberRefRow = (case memberIndex (column8 l ''classname'' memberRefRow) of
       None \<Rightarrow> []
     | Some memberName2Descriptors \<Rightarrow> (case memberName2Descriptors (column8 l ''name'' memberRefRow) of
         None \<Rightarrow> []
       | Some descriptor2Member \<Rightarrow> (case descriptor2Member (column8 l ''descriptor'' memberRefRow) of
           None \<Rightarrow> []
         | Some is \<Rightarrow> order is)))"

definition linkMemberMatch :: "ref_types \<Rightarrow> table_row \<Rightarrow> u8 \<Rightarrow> (database, unit) prog" where
  "linkMemberMatch types refRow i =
     andThen (addEdge (edgeTable types) (column8 (refLayout types) ''ownerClass'' refRow) (rowId refRow) i) (\<lambda>_.
     onTable (targetTable types) (\<lambda>_. updateInPlace (andThen (getRow i) (increase (targetLayout types) ''refCount'' 1))))"

definition linkMemberRef :: "(u8 list \<Rightarrow> u8 list) \<Rightarrow> ref_types \<Rightarrow> members_index \<Rightarrow> nat \<Rightarrow> table_row \<Rightarrow> (database, unit) prog" where
  "linkMemberRef order types membersIndex a refRow =
     (let matches = getMemberMatches order (refLayout types) membersIndex refRow; matchCount = length matches in
      if 0 < matchCount then
        andThen (forAll (linkMemberMatch types refRow) matches) (\<lambda>_.
        onTable (refTable types) (\<lambda>_. updateInPlace (increase (refLayout types) ''edgeCount'' (of_nat matchCount) a)))
      else ret ())"

definition linkMemberRefs :: "(u8 list \<Rightarrow> u8 list) \<Rightarrow> ref_types \<Rightarrow> members_index \<Rightarrow> (database, unit) prog" where
  "linkMemberRefs order types membersIndex = forEachIn (refTable types) (linkMemberRef order types membersIndex)"

text \<open>\<^verbatim>\<open>linkRefNodes\<close>: the three indexes, then the three kinds of references.\<close>

definition linkRefNodes :: "(nat list \<Rightarrow> nat list) \<Rightarrow> (u8 list \<Rightarrow> u8 list) \<Rightarrow> (database, unit) prog" where
  "linkRefNodes classOrder memberOrder = andThen getState (\<lambda>db.
     andThen (liftR (createClassnameIndex db)) (\<lambda>classesByName.
     andThen (liftR (createMemberIndex methodTypes db)) (\<lambda>methodsIndex.
     andThen (liftR (createMemberIndex fieldTypes db)) (\<lambda>fieldsIndex.
     andThen (linkClassRefs classOrder classesByName) (\<lambda>_.
     andThen (linkMemberRefs memberOrder methodTypes methodsIndex) (\<lambda>_.
     linkMemberRefs memberOrder fieldTypes fieldsIndex))))))"

section \<open>Columns that are counted up\<close>

lemma column8_set [simp]:
  "16 \<le> offsetOf l c \<Longrightarrow> offsetOf l c \<le> length (rowBody r) + 8 \<Longrightarrow> column8 l c (setColumn8 l c v r) = v"
  by (simp add: column8_body setColumn8_def)

lemma setColumn8_set: "16 \<le> offsetOf l c \<Longrightarrow> offsetOf l c \<le> length (rowBody r) + 8 \<Longrightarrow> setColumn8 l c v (setColumn8 l c w r) = setColumn8 l c v r"
  by (simp add: setColumn8_def)

lemma length_setColumn8: "16 \<le> offsetOf l c \<Longrightarrow> offsetOf l c \<le> length (rowBody r) + 8 \<Longrightarrow> length (rowBody (setColumn8 l c v r)) = length (rowBody r)"
  by (simp add: setColumn8_def)

lemma addColumn8_simps [simp]: "rowId (addColumn8 l c n r) = rowId r" "rowFlags (addColumn8 l c n r) = rowFlags r" "isDeleted (addColumn8 l c n r) = isDeleted r"
  by (simp_all add: addColumn8_def setColumn8_def isDeleted_def)

definition holdsColumn :: "layout \<Rightarrow> string \<Rightarrow> table_row \<Rightarrow> bool" where
  "holdsColumn l c r \<longleftrightarrow> 16 \<le> offsetOf l c \<and> offsetOf l c \<le> length (rowBody r) + 8"

lemma addColumn8_add: "holdsColumn l c r \<Longrightarrow> addColumn8 l c m (addColumn8 l c n r) = addColumn8 l c (n + m) r"
  by (simp add: holdsColumn_def addColumn8_def setColumn8_set add.assoc)

lemma holdsColumn_add [simp]: "holdsColumn l c r \<Longrightarrow> holdsColumn l c (addColumn8 l c n r)"
  by (simp add: holdsColumn_def addColumn8_def length_setColumn8)

lemma take_drop_patch:
  assumes "length ys = k" "m + k \<le> length xs" "n + k \<le> m \<or> m + k \<le> n"
  shows "take k (drop n (take m xs @ ys @ drop (m + k) xs)) = take k (drop n xs)"
  using assms(3)
proof
  assume near: "n + k \<le> m"
  have "take k (drop n (take m xs @ ys @ drop (m + k) xs)) = drop n (take (n + k) (take m xs @ ys @ drop (m + k) xs))"
    by (simp only: take_drop add.commute [of n k])
  also have "take (n + k) (take m xs @ ys @ drop (m + k) xs) = take (n + k) xs"
    using near assms(2) by (simp add: min_def)
  finally show ?thesis by (simp only: take_drop add.commute [of n k])
next
  assume far: "m + k \<le> n"
  have "drop n (take m xs @ ys @ drop (m + k) xs) = drop (n - (m + k)) (drop (m + k) xs)"
    using far assms(1,2) by (simp add: min_def)
  also have "\<dots> = drop n xs" using far by simp
  finally show ?thesis by simp
qed

lemma column8_other:
  assumes "holdsColumn l c r" "16 \<le> offsetOf l d" "offsetOf l d + 8 \<le> offsetOf l c \<or> offsetOf l c + 8 \<le> offsetOf l d"
  shows "column8 l d (addColumn8 l c n r) = column8 l d r"
proof -
  have c: "16 \<le> offsetOf l c" "offsetOf l c \<le> length (rowBody r) + 8" using assms(1) by (simp_all add: holdsColumn_def)
  let ?m = "offsetOf l c - 16" and ?n = "offsetOf l d - 16"
  have off: "offsetOf l c - 8 = ?m + 8" "?m + 8 \<le> length (rowBody r)" "?n + 8 \<le> ?m \<or> ?m + 8 \<le> ?n" using c assms(2,3) by auto
  have "take 8 (drop ?n (rowBody (setColumn8 l c v r))) = take 8 (drop ?n (rowBody r))" for v
    using take_drop_patch [OF length_putU8 off(2,3), of v] by (simp add: setColumn8_def off(1))
  then show ?thesis using assms(2) by (simp add: column8_body addColumn8_def getU8_def)
qed

section \<open>The cells of a table\<close>

definition cells :: "table \<Rightarrow> nat list \<Rightarrow> table_row list \<Rightarrow> bool" where
  "cells t as rs \<longleftrightarrow> autoIncrementIndex t = as \<and> length as = length rs \<and> distinct as \<and> length rs < 2 ^ 64 \<and>
     (\<forall>i<length rs. heap t (as ! i) = Some (Holds (rs ! i)) \<and> rowId (rs ! i) = of_nat i)"

lemma cells_rep: "tableRep key t rs ks \<Longrightarrow> cells t (autoIncrementIndex t) rs"
  by (simp add: cells_def tableRep_def)

lemma rowsOf_cells: "cells t as rs \<Longrightarrow> rowsOf t = Inr rs"
  using mapR_cells [of t as rs] by (auto simp: rowsOf_def cells_def list_all2_conv_all_nth)

lemma cells_assign: "cells t as rs \<Longrightarrow> i < length rs \<Longrightarrow> rowId r = rowId (rs ! i) \<Longrightarrow> heap t' = (heap t)(as ! i \<mapsto> Holds r) \<Longrightarrow>
    autoIncrementIndex t' = autoIncrementIndex t \<Longrightarrow> cells t' as (rs[i := r])"
  by (auto simp: cells_def nth_list_update nth_eq_iff_index_eq)

lemma increase_cells:
  assumes "cells t as rs" "i < length rs"
  shows "\<exists>t'. updateInPlace (increase l c n (as ! i)) t = (Inr (), t') \<and> cells t' as (rs[i := addColumn8 l c n (rs ! i)])"
proof -
  have a: "heap t (as ! i) = Some (Holds (rs ! i))" using assms by (simp add: cells_def)
  let ?t = "markedUpdated (rowId (rs ! i)) (t\<lparr>heap := (heap t)(as ! i \<mapsto> Holds (addColumn8 l c n (rs ! i))), isDirty := True\<rparr>)"
  have "updateInPlace (increase l c n (as ! i)) t = (Inr (), ?t)"
    using a by (simp add: updateInPlace_def increase_def markUpdated_ok)
  moreover have "cells ?t as (rs[i := addColumn8 l c n (rs ! i)])" by (rule cells_assign [OF assms]) simp_all
  ultimately show ?thesis by blast
qed

lemma getRow_cells: "cells t as rs \<Longrightarrow> i < length rs \<Longrightarrow> getRow (of_nat i) t = (Inr (as ! i), t)"
  by (simp add: getRow_def cells_def unat_of_nat_less)

section \<open>The edges\<close>

lemma natToString_digits: "CHR ''-'' \<notin> set (natToString n)"
proof (induction n rule: natToString.induct)
  case (1 n)
  have digit: "CHR ''-'' \<noteq> digitChar d" if "d < 10" for d
  proof
    assume "CHR ''-'' = digitChar d"
    then have "(of_char (CHR ''-'') :: nat) = of_char (digitChar d)" by simp
    then show False using that by (simp add: digitChar_def)
  qed
  show ?case using 1 digit by (subst natToString.simps) simp
qed

definition edgeText :: "u8 \<times> u8 \<Rightarrow> string" where
  "edgeText e = natToString (unat (fst e)) @ ''-'' @ natToString (unat (snd e))"

lemma edgeText_inject: "edgeText e = edgeText e' \<Longrightarrow> e = e'"
proof -
  assume "edgeText e = edgeText e'"
  then have "natToString (unat (fst e)) @ CHR ''-'' # natToString (unat (snd e)) = natToString (unat (fst e')) @ CHR ''-'' # natToString (unat (snd e'))"
    by (simp add: edgeText_def)
  from append_Cons_eq_iff [OF natToString_digits natToString_digits, THEN iffD1, OF this] show ?thesis
    by (simp add: prod_eq_iff word_unat_eq_iff)
qed

definition edgeEnds :: "bytes \<Rightarrow> u8 \<times> u8" where
  "edgeEnds b = (getU8 (drop 8 b), getU8 (drop 16 b))"

definition edgeBody :: "u8 \<Rightarrow> u8 \<Rightarrow> u8 \<Rightarrow> bytes" where
  "edgeBody owner from to = putU8 owner @ putU8 from @ putU8 to"

lemma edgeEnds_body [simp]: "edgeEnds (edgeBody owner from to) = (from, to)"
  using getU8_putU8 [of to "[]"] by (simp add: edgeEnds_def edgeBody_def)

text \<open>A table of edges with the given bodies, in this order.\<close>

definition edgesAre :: "table \<Rightarrow> bytes list \<Rightarrow> bool" where
  "edgesAre t bs \<longleftrightarrow> rowSize t = 40 \<and>
     (\<exists>es. tableRep (\<lambda>r. Inr (edgeText (edgeEnds (rowBody r)))) t es (map (edgeText \<circ> edgeEnds) bs) \<and> map rowBody es = bs \<and> (\<forall>e\<in>set es. \<not> isDeleted e))"

lemma edgeKey_ends:
  assumes "l \<in> {ClassRefEdgeRow, MethodRefEdgeRow, FieldRefEdgeRow}"
  shows "edgeKey l p lk = (\<lambda>r. Inr (edgeText (edgeEnds (rowBody r))))"
proof -
  have l: "l = ClassRefEdgeRow" using assms by (auto simp: ClassRefEdgeRow_def MethodRefEdgeRow_def FieldRefEdgeRow_def)
  have "offsetOf ClassRefEdgeRow ''from'' = 24" "offsetOf ClassRefEdgeRow ''to'' = 32" by (simp_all add: layout_defs)
  then show ?thesis by (simp add: l edgeKey_def column8_body edgeText_def edgeEnds_def fun_eq_iff)
qed

lemma addRow_edges:
  assumes "edgesAre t bs" "(from, to) \<notin> edgeEnds ` set bs" "length bs + 1 < 2 ^ 64"
  shows "\<exists>t'. andThen (newRow (EdgeRow owner from to)) (\<lambda>a. andThen (addRow (\<lambda>r. Inr (edgeText (edgeEnds (rowBody r)))) a) (\<lambda>_. ret ())) t = (Inr (), t') \<and>
    edgesAre t' (bs @ [edgeBody owner from to])"
proof -
  let ?key = "\<lambda>r. Inr (edgeText (edgeEnds (rowBody r))) :: string result" and ?r = "EdgeRow owner from to"
  obtain es where es: "tableRep ?key t es (map (edgeText \<circ> edgeEnds) bs)" "map rowBody es = bs" "\<forall>e\<in>set es. \<not> isDeleted e" and sz: "rowSize t = 40"
    using assms(1) by (auto simp: edgesAre_def)
  let ?t = "t\<lparr>heap := (heap t)(nextAddress t \<mapsto> Holds ?r), nextAddress := nextAddress t + 1\<rparr>"
  have len: "length es = length bs" using es(2) by auto
  have fresh: "nextAddress t \<notin> set (autoIncrementIndex t)" using es(1) by (auto simp: tableRep_def)
  have "autoIncrementIndex t ! i \<noteq> nextAddress t" if "i < length es" for i
  proof -
    have "i < length (autoIncrementIndex t)" using es(1) that by (simp add: tableRep_def)
    from nth_mem [OF this] show ?thesis using fresh by metis
  qed
  then have rep: "tableRep ?key ?t es (map (edgeText \<circ> edgeEnds) bs)" using es(1) by (auto simp: tableRep_def)
  have alloc: "allocated ?t (nextAddress t) ?r" using fresh by (simp add: allocated_def)
  have body: "rowBody ?r = edgeBody owner from to" by (simp add: EdgeRow_def edgeBody_def)
  have "edgeText (from, to) \<notin> set (map (edgeText \<circ> edgeEnds) bs)" using assms(2) by (auto dest: edgeText_inject)
  from addRow_rep [OF rep alloc this] obtain t' where t': "addRow ?key (nextAddress t) ?t = (Inr (of_nat (length es)), t')"
    "tableRep ?key t' (es @ [?r\<lparr>rowId := of_nat (length es)\<rparr>]) (map (edgeText \<circ> edgeEnds) bs @ [edgeText (from, to)])"
    "t' = ?t\<lparr>heap := (heap ?t)(nextAddress t \<mapsto> Holds (?r\<lparr>rowId := of_nat (length es)\<rparr>)), tableRows := (edgeText (from, to), nextAddress t) # tableRows ?t,
      autoIncrementIndex := autoIncrementIndex ?t @ [nextAddress t], isDirty := True, dirtyRows := (dirtyRows ?t)(of_nat (length es) \<mapsto> IsNew)\<rparr>"
    using assms(3) len sz by (auto simp: body) (auto simp: edgeBody_def)
  have "edgesAre t' (bs @ [edgeBody owner from to])"
    unfolding edgesAre_def using t'(2,3) es(2,3) sz
    by (auto intro!: exI [of _ "es @ [?r\<lparr>rowId := of_nat (length es)\<rparr>]"] simp: body) (simp add: isDeleted_def EdgeRow_def)
  then show ?thesis using t'(1) by auto
qed

section \<open>Joining\<close>

text \<open>
  The three tables of a join, \<open>R\<close> with the references, \<open>T\<close> with the targets and \<open>E\<close> with the
  edges: the rows of the first two, at fixed addresses, and the bodies of the edges.
\<close>

definition joining :: "nat \<Rightarrow> nat \<Rightarrow> nat \<Rightarrow> nat list \<Rightarrow> nat list \<Rightarrow> database \<Rightarrow> table_row list \<Rightarrow> table_row list \<Rightarrow> bytes list \<Rightarrow> bool" where
  "joining R T E as bs db rs ts es \<longleftrightarrow> distinct [R, T, E] \<and> {R, T, E} \<subseteq> {..<length (dbTables db)} \<and>
     cells (tableOf R db) as rs \<and> cells (tableOf T db) bs ts \<and> edgesAre (tableOf E db) es \<and>
     (\<forall>p lk. keyOf (dbTables db ! E) p lk = (\<lambda>r. Inr (edgeText (edgeEnds (rowBody r)))))"

lemma tableOf_set: "j < length (dbTables db) \<Longrightarrow> tableOf k (setTable j t db) = (if k = j then t else tableOf k db)"
  "j < length (dbTables db) \<Longrightarrow> length (dbTables (setTable j t db)) = length (dbTables db)"
  "keyOf (dbTables (setTable j t db) ! k) = keyOf (dbTables db ! k)"
proof -
  show "j < length (dbTables db) \<Longrightarrow> tableOf k (setTable j t db) = (if k = j then t else tableOf k db)"
    "j < length (dbTables db) \<Longrightarrow> length (dbTables (setTable j t db)) = length (dbTables db)" by (simp_all add: setTable_def)
  show "keyOf (dbTables (setTable j t db) ! k) = keyOf (dbTables db ! k)"
    by (cases "j < length (dbTables db)"; cases "k = j") (simp_all add: setTable_def list_update_beyond)
qed

text \<open>What the program does with the rest of the database.\<close>

definition keepsOthers :: "nat set \<Rightarrow> database \<Rightarrow> database \<Rightarrow> bool" where
  "keepsOthers js db db' \<longleftrightarrow> length (dbTables db') = length (dbTables db) \<and> dbPool db' = dbPool db \<and>
     (\<forall>k. keyOf (dbTables db' ! k) = keyOf (dbTables db ! k)) \<and> (\<forall>k. k \<notin> js \<longrightarrow> tableOf k db' = tableOf k db)"

lemma keepsOthers_refl: "keepsOthers js db db"
  by (simp add: keepsOthers_def)

lemma keepsOthers_trans: "keepsOthers js db db' \<Longrightarrow> keepsOthers js db' db'' \<Longrightarrow> keepsOthers js db db''"
  by (simp add: keepsOthers_def)

lemma keepsOthers_set: "j < length (dbTables db) \<Longrightarrow> j \<in> js \<Longrightarrow> keepsOthers js db (setTable j t db)"
  using tableOf_set by (auto simp: keepsOthers_def setTable_def nth_list_update)

lemma onTable_run: "m (keyAt db j) (tableOf j db) = (r, t) \<Longrightarrow> onTable j m db = (r, setTable j t db)"
  by (simp add: onTable_def)

lemma join_addEdge:
  assumes "joining R T E as bs db rs ts es" "(from, to) \<notin> edgeEnds ` set es" "length es + 1 < 2 ^ 64"
  shows "\<exists>db'. addEdge E owner from to db = (Inr (), db') \<and> joining R T E as bs db' rs ts (es @ [edgeBody owner from to]) \<and> keepsOthers {R, T, E} db db'"
proof -
  have E: "edgesAre (tableOf E db) es" "E < length (dbTables db)" "keyAt db E = (\<lambda>r. Inr (edgeText (edgeEnds (rowBody r))))"
    using assms(1) by (auto simp: joining_def keyAt_def)
  from addRow_edges [OF E(1) assms(2,3), of owner] obtain t' where
    t': "andThen (newRow (EdgeRow owner from to)) (\<lambda>a. andThen (addRow (keyAt db E) a) (\<lambda>_. ret ())) (tableOf E db) = (Inr (), t')"
      "edgesAre t' (es @ [edgeBody owner from to])" unfolding E(3) by blast
  have "addEdge E owner from to db = (Inr (), setTable E t' db)" unfolding addEdge_def by (rule onTable_run) (rule t'(1))
  moreover have "joining R T E as bs (setTable E t' db) rs ts (es @ [edgeBody owner from to])"
    using assms(1) t'(2) E(2) by (auto simp: joining_def tableOf_set)
  ultimately show ?thesis using keepsOthers_set [OF E(2), of "{R, T, E}"] by blast
qed

lemma leBytes_leValue: "leBytes (length bs) (leValue bs) = bs"
proof (induction bs)
  case (Cons b bs)
  have "unat b < 256" using unsigned_less [of b] by simp
  with Cons show ?case by simp
qed simp

lemma putU8_getU8: "8 \<le> length bs \<Longrightarrow> putU8 (getU8 bs) = take 8 bs"
proof -
  assume "8 \<le> length bs"
  then have len: "length (take 8 bs) = 8" by simp
  have "leValue cs < 256 ^ length cs" for cs :: bytes
  proof (induction cs)
    case (Cons b cs)
    have "unat b < 256" using unsigned_less [of b] by simp
    with Cons show ?case by simp
  qed simp
  from this [of "take 8 bs"] len have "leValue (take 8 bs) < 2 ^ 64" by simp
  then show ?thesis using leBytes_leValue [of "take 8 bs"] len by (simp add: putU8_def getU8_def unat_of_nat_less)
qed

lemma addColumn8_zero [simp]: "holdsColumn l c r \<Longrightarrow> addColumn8 l c 0 r = r"
proof -
  assume "holdsColumn l c r"
  then have c: "16 \<le> offsetOf l c" "offsetOf l c \<le> length (rowBody r) + 8" by (simp_all add: holdsColumn_def)
  let ?m = "offsetOf l c - 16"
  have "offsetOf l c - 8 = 8 + ?m" using c by simp
  then have "take ?m (rowBody r) @ take 8 (drop ?m (rowBody r)) @ drop (offsetOf l c - 8) (rowBody r) = rowBody r"
    by (simp only: drop_drop [symmetric] append_take_drop_id)
  then show ?thesis using c by (simp add: addColumn8_def setColumn8_def column8_body putU8_getU8)
qed

text \<open>The targets after the matches \<open>ks\<close>, positions in the table that may repeat.\<close>

definition bumped :: "layout \<Rightarrow> nat list \<Rightarrow> table_row list \<Rightarrow> table_row list" where
  "bumped l ks ts = map (\<lambda>k. addColumn8 l ''refCount'' (of_nat (count_list ks k)) (ts ! k)) [0..<length ts]"

lemma bumped_Nil [simp]: "\<forall>t\<in>set ts. holdsColumn l ''refCount'' t \<Longrightarrow> bumped l [] ts = ts"
  by (rule nth_equalityI) (simp_all add: bumped_def)

lemma bumped_length [simp]: "length (bumped l ks ts) = length ts"
  by (simp add: bumped_def)

lemma bumped_holds: "\<forall>t\<in>set ts. holdsColumn l ''refCount'' t \<Longrightarrow> \<forall>t\<in>set (bumped l ks ts). holdsColumn l ''refCount'' t"
  by (auto simp: bumped_def)

lemma bumped_append:
  assumes "\<forall>t\<in>set ts. holdsColumn l ''refCount'' t"
  shows "bumped l ls (bumped l ks ts) = bumped l (ks @ ls) ts"
  using assms by (intro nth_equalityI) (simp_all add: bumped_def addColumn8_add)

lemma bumped_one: "\<forall>t\<in>set ts. holdsColumn l ''refCount'' t \<Longrightarrow> k < length ts \<Longrightarrow> ts[k := addColumn8 l ''refCount'' 1 (ts ! k)] = bumped l [k] ts"
  by (rule nth_equalityI) (auto simp: bumped_def nth_list_update)

lemma join_increase:
  assumes "joining R T E as bs db rs ts es"
  shows "i < length rs \<Longrightarrow> \<exists>db'. onTable R (\<lambda>_. updateInPlace (increase l c n (as ! i))) db = (Inr (), db') \<and>
      joining R T E as bs db' (rs[i := addColumn8 l c n (rs ! i)]) ts es \<and> keepsOthers {R, T, E} db db'"
    and "k < length ts \<Longrightarrow> \<exists>db'. onTable T (\<lambda>_. updateInPlace (increase l c n (bs ! k))) db = (Inr (), db') \<and>
      joining R T E as bs db' rs (ts[k := addColumn8 l c n (ts ! k)]) es \<and> keepsOthers {R, T, E} db db'"
proof -
  have j: "R < length (dbTables db)" "T < length (dbTables db)" "cells (tableOf R db) as rs" "cells (tableOf T db) bs ts"
    using assms by (auto simp: joining_def)
  { assume "i < length rs"
    from increase_cells [OF j(3) this] obtain t' where t': "updateInPlace (increase l c n (as ! i)) (tableOf R db) = (Inr (), t')"
      "cells t' as (rs[i := addColumn8 l c n (rs ! i)])" by blast
    have "joining R T E as bs (setTable R t' db) (rs[i := addColumn8 l c n (rs ! i)]) ts es"
      using assms t'(2) j(1) by (auto simp: joining_def tableOf_set)
    then show "\<exists>db'. onTable R (\<lambda>_. updateInPlace (increase l c n (as ! i))) db = (Inr (), db') \<and>
      joining R T E as bs db' (rs[i := addColumn8 l c n (rs ! i)]) ts es \<and> keepsOthers {R, T, E} db db'"
      using onTable_run [where m = "\<lambda>_. updateInPlace (increase l c n (as ! i))", OF t'(1)] keepsOthers_set [OF j(1), of "{R, T, E}" t'] by auto }
  { assume "k < length ts"
    from increase_cells [OF j(4) this] obtain t' where t': "updateInPlace (increase l c n (bs ! k)) (tableOf T db) = (Inr (), t')"
      "cells t' bs (ts[k := addColumn8 l c n (ts ! k)])" by blast
    have "joining R T E as bs (setTable T t' db) rs (ts[k := addColumn8 l c n (ts ! k)]) es"
      using assms t'(2) j(2) by (auto simp: joining_def tableOf_set)
    then show "\<exists>db'. onTable T (\<lambda>_. updateInPlace (increase l c n (bs ! k))) db = (Inr (), db') \<and>
      joining R T E as bs db' rs (ts[k := addColumn8 l c n (ts ! k)]) es \<and> keepsOthers {R, T, E} db db'"
      using onTable_run [where m = "\<lambda>_. updateInPlace (increase l c n (bs ! k))", OF t'(1)] keepsOthers_set [OF j(2), of "{R, T, E}" t'] by auto }
qed

text \<open>
  What a kind of reference promises for one match: the edge is added and the target counts it.
  From this, the loop over the matches of a reference and the loop over the references.
\<close>

locale linking =
  fixes R T E :: nat and lt :: layout and owner :: "table_row \<Rightarrow> u8"
    and matchOne :: "nat list \<Rightarrow> table_row \<Rightarrow> nat \<Rightarrow> (database, unit) prog"
  assumes matchOne: "joining R T E as bs db rs ts es \<Longrightarrow> k < length ts \<Longrightarrow> (rowId r, of_nat k) \<notin> edgeEnds ` set es \<Longrightarrow>
    length es + 1 < 2 ^ 64 \<Longrightarrow> \<exists>db'. matchOne bs r k db = (Inr (), db') \<and>
      joining R T E as bs db' rs (ts[k := addColumn8 lt ''refCount'' 1 (ts ! k)]) (es @ [edgeBody (owner r) (rowId r) (of_nat k)]) \<and>
      keepsOthers {R, T, E} db db'"
begin

lemma matchAll:
  assumes "joining R T E as bs db rs ts es" "distinct ks" "set ks \<subseteq> {..<length ts}" "\<forall>t\<in>set ts. holdsColumn lt ''refCount'' t"
    and "\<forall>k\<in>set ks. (rowId r, of_nat k) \<notin> edgeEnds ` set es" "length es + length ks < 2 ^ 64" "length ts < 2 ^ 64"
  shows "\<exists>db'. forAll (matchOne bs r) ks db = (Inr (), db') \<and>
    joining R T E as bs db' rs (bumped lt ks ts) (es @ map (\<lambda>k. edgeBody (owner r) (rowId r) (of_nat k)) ks) \<and> keepsOthers {R, T, E} db db'"
  using assms
proof (induction ks arbitrary: db ts es)
  case Nil
  then show ?case by (auto simp: keepsOthers_refl)
next
  case (Cons k ks)
  let ?e = "edgeBody (owner r) (rowId r) (of_nat k)"
  have "(rowId r, of_nat k) \<notin> edgeEnds ` set es" "k < length ts" "length es + 1 < 2 ^ 64" using Cons.prems by simp_all
  from matchOne [OF Cons.prems(1) this(2,1,3)] obtain db1 where db1: "matchOne bs r k db = (Inr (), db1)"
    "joining R T E as bs db1 rs (bumped lt [k] ts) (es @ [?e])" "keepsOthers {R, T, E} db db1"
    using Cons.prems(3,4) by (auto simp: bumped_one)
  have new: "(rowId r, of_nat k') \<notin> edgeEnds ` set (es @ [?e])" if "k' \<in> set ks" for k'
  proof -
    have "k' < 2 ^ 64" "k < 2 ^ 64" "k' \<noteq> k" using that Cons.prems(2,3,7) by auto
    then have "(of_nat k' :: u8) \<noteq> of_nat k" by (metis unat_of_nat_less)
    then show ?thesis using that Cons.prems(5) by auto
  qed
  have "\<exists>db'. forAll (matchOne bs r) ks db1 = (Inr (), db') \<and> joining R T E as bs db' rs (bumped lt ks (bumped lt [k] ts))
      ((es @ [?e]) @ map (\<lambda>k. edgeBody (owner r) (rowId r) (of_nat k)) ks) \<and> keepsOthers {R, T, E} db1 db'"
    using Cons.prems new by (intro Cons.IH [OF db1(2)] bumped_holds) auto
  then show ?case using db1(1,3) Cons.prems(4) by (auto simp: bumped_append intro: keepsOthers_trans)
qed

end

lemma forEachCell_live: "cellRow (tableOf j db) a = Inr r \<Longrightarrow> (if isDeleted r then ret () else func a r) db = (Inr (), db') \<Longrightarrow>
    forEachCell j func (a # as) db = forEachCell j func as db'"
  by simp

text \<open>The edges of the references \<open>rs\<close>, \<open>M\<close> the positions of the matches of each.\<close>

definition joinEdges :: "(table_row \<Rightarrow> u8) \<Rightarrow> (table_row \<Rightarrow> nat list) \<Rightarrow> table_row list \<Rightarrow> bytes list" where
  "joinEdges owner M rs = concat (map (\<lambda>r. map (\<lambda>k. edgeBody (owner r) (rowId r) (of_nat k)) (M r)) rs)"

lemma joinEdges_simps [simp]: "joinEdges owner M [] = []"
  "joinEdges owner M (r # rs) = map (\<lambda>k. edgeBody (owner r) (rowId r) (of_nat k)) (M r) @ joinEdges owner M rs"
  by (simp_all add: joinEdges_def)

lemma joinEdges_length: "length (joinEdges owner M rs) = sum_list (map (length \<circ> M) rs)"
  by (induction rs) simp_all

text \<open>A body of the loop over the references that links the row at position \<open>i\<close> with its matches.\<close>

definition linksRow :: "nat \<Rightarrow> nat \<Rightarrow> nat \<Rightarrow> layout \<Rightarrow> layout \<Rightarrow> (table_row \<Rightarrow> u8) \<Rightarrow> (nat \<Rightarrow> table_row \<Rightarrow> (database, unit) prog) \<Rightarrow>
    (table_row \<Rightarrow> nat list) \<Rightarrow> nat list \<Rightarrow> nat list \<Rightarrow> bool" where
  "linksRow R T E lr lt owner f M as bs \<longleftrightarrow> (\<forall>db rs ts es i. joining R T E as bs db rs ts es \<longrightarrow> i < length rs \<longrightarrow> length ts = length bs \<longrightarrow>
     (\<forall>t\<in>set ts. holdsColumn lt ''refCount'' t) \<longrightarrow> (\<forall>r\<in>set rs. holdsColumn lr ''edgeCount'' r) \<longrightarrow>
     rowId (rs ! i) \<notin> fst ` edgeEnds ` set es \<longrightarrow> length es + length (M (rs ! i)) < 2 ^ 64 \<longrightarrow>
     (\<exists>db'. (if isDeleted (rs ! i) then ret () else f (as ! i) (rs ! i)) db = (Inr (), db') \<and>
        joining R T E as bs db' (rs[i := addColumn8 lr ''edgeCount'' (of_nat (length (M (rs ! i)))) (rs ! i)]) (bumped lt (M (rs ! i)) ts)
          (es @ map (\<lambda>k. edgeBody (owner (rs ! i)) (rowId (rs ! i)) (of_nat k)) (M (rs ! i))) \<and> keepsOthers {R, T, E} db db'))"

lemma cellRow_joining: "joining R T E as bs db rs ts es \<Longrightarrow> i < length rs \<Longrightarrow> cellRow (tableOf R db) (as ! i) = Inr (rs ! i)"
  by (simp add: joining_def cells_def cellRow_def)

lemma linkRows:
  assumes links: "linksRow R T E lr lt owner f M as bs"
    and "joining R T E as bs db (ds @ rs) ts es" "length ts = length bs"
    and "\<forall>t\<in>set ts. holdsColumn lt ''refCount'' t" "\<forall>r\<in>set (ds @ rs). holdsColumn lr ''edgeCount'' r"
    and "\<forall>r\<in>set rs. rowId r \<notin> fst ` edgeEnds ` set es" "distinct (map rowId rs)" "length es + sum_list (map (length \<circ> M) rs) < 2 ^ 64"
  shows "\<exists>db'. forEachCell R f (drop (length ds) as) db = (Inr (), db') \<and>
    joining R T E as bs db' (ds @ map (\<lambda>r. addColumn8 lr ''edgeCount'' (of_nat (length (M r))) r) rs) (bumped lt (concat (map M rs)) ts)
      (es @ joinEdges owner M rs) \<and> keepsOthers {R, T, E} db db'"
  using assms(2-)
proof (induction rs arbitrary: db ds ts es)
  case Nil
  have "length as = length ds" using Nil.prems(1) by (simp add: joining_def cells_def)
  then show ?case using Nil.prems by (auto simp: keepsOthers_refl)
next
  case (Cons r rs)
  let ?r = "addColumn8 lr ''edgeCount'' (of_nat (length (M r))) r" and ?i = "length ds"
  let ?es = "es @ map (\<lambda>k. edgeBody (owner r) (rowId r) (of_nat k)) (M r)"
  have i: "?i < length (ds @ r # rs)" "(ds @ r # rs) ! ?i = r" by simp_all
  have len: "length as = length ds + Suc (length rs)" using Cons.prems(1) by (simp add: joining_def cells_def)
  then have as: "drop ?i as = as ! ?i # drop (length (ds @ [?r])) as" by (simp add: Cons_nth_drop_Suc)
  have "rowId r \<notin> fst ` edgeEnds ` set es" "length es + length (M r) < 2 ^ 64" using Cons.prems(5,7) by simp_all
  then obtain db1 where db1: "(if isDeleted r then ret () else f (as ! ?i) r) db = (Inr (), db1)"
    "joining R T E as bs db1 ((ds @ r # rs)[?i := ?r]) (bumped lt (M r) ts) ?es" "keepsOthers {R, T, E} db db1"
    using links Cons.prems(1-4) i unfolding linksRow_def by metis
  have ih: "\<exists>db'. forEachCell R f (drop (length (ds @ [?r])) as) db1 = (Inr (), db') \<and>
    joining R T E as bs db' ((ds @ [?r]) @ map (\<lambda>r. addColumn8 lr ''edgeCount'' (of_nat (length (M r))) r) rs)
      (bumped lt (concat (map M rs)) (bumped lt (M r) ts)) (?es @ joinEdges owner M rs) \<and> keepsOthers {R, T, E} db1 db'"
  proof (rule Cons.IH)
    show "joining R T E as bs db1 ((ds @ [?r]) @ rs) (bumped lt (M r) ts) ?es" using db1(2) by simp
    show "\<forall>t\<in>set (bumped lt (M r) ts). holdsColumn lt ''refCount'' t" using Cons.prems(3) by (rule bumped_holds)
    show "\<forall>r\<in>set rs. rowId r \<notin> fst ` edgeEnds ` set ?es" using Cons.prems(5,6) by (auto simp: image_iff)
  qed (use Cons.prems in auto)
  have "forEachCell R f (drop ?i as) db = forEachCell R f (drop (length (ds @ [?r])) as) db1"
    unfolding as by (rule forEachCell_live [where func = f, OF _ db1(1)]) (use cellRow_joining [OF Cons.prems(1) i(1)] i(2) in simp)
  then show ?case using ih db1(3) Cons.prems(3) by (auto simp: bumped_append intro: keepsOthers_trans)
qed

section \<open>The indexes\<close>

text \<open>Collecting items by their key, in the order of the table.\<close>

definition collect :: "('a \<times> 'k) list \<Rightarrow> ('k \<Rightarrow> 'a list) \<Rightarrow> 'k \<Rightarrow> 'a list" where
  "collect items idx = foldl (\<lambda>f (x, k). f(k := setInsert x (f k))) idx items"

lemma collect_simps [simp]: "collect [] idx = idx" "collect ((x, k) # items) idx = collect items (idx(k := setInsert x (idx k)))"
  by (simp_all add: collect_def)

lemma collect_distinct:
  assumes "distinct (map fst items)" "\<forall>k. set (idx k) \<inter> fst ` set items = {}"
  shows "collect items idx k = idx k @ map fst (filter (\<lambda>i. snd i = k) items)"
  using assms
proof (induction items arbitrary: idx)
  case (Cons i items)
  obtain x k' where i: "i = (x, k')" by (cases i)
  have "x \<notin> set (idx k')" using Cons.prems(2) i by auto
  then have "collect (i # items) idx k = (idx(k' := idx k' @ [x])) k @ map fst (filter (\<lambda>i. snd i = k) items)"
    using Cons.prems unfolding i by (simp add: setInsert_def del: fun_upd_apply) (rule Cons.IH, auto)
  then show ?case by (simp add: i)
qed simp

definition classAt :: "class_index \<Rightarrow> u8 \<Rightarrow> nat list" where
  "classAt idx name = (case idx name of None \<Rightarrow> [] | Some as \<Rightarrow> as)"

lemma classAt_insert: "classAt (insertClass a name idx) = (classAt idx)(name := setInsert a (classAt idx name))"
  by (auto simp: classAt_def insertClass_def)

definition filledIndex :: "class_index \<Rightarrow> bool" where
  "filledIndex idx \<longleftrightarrow> (\<forall>name. idx name \<noteq> Some [])"

lemma filledIndex_insert: "filledIndex idx \<Longrightarrow> filledIndex (insertClass a name idx)"
  by (auto simp: filledIndex_def insertClass_def setInsert_def split: option.splits)

lemma classIndexLoop_collect:
  assumes "list_all2 (\<lambda>a r. cellRow t a = Inr r) as rs" "filledIndex idx"
  shows "\<exists>idx'. classIndexLoop t as idx = Inr idx' \<and> filledIndex idx' \<and>
    classAt idx' = collect (map (\<lambda>(a, r). (a, column8 ClassFileRow ''classname'' r)) (filter (\<lambda>(a, r). \<not> isDeleted r) (zip as rs))) (classAt idx)"
  using assms
proof (induction as rs arbitrary: idx rule: list_all2_induct)
  case (Cons a as r rs)
  let ?idx = "insertClass a (column8 ClassFileRow ''classname'' r) idx"
  show ?case using Cons(1) Cons.prems Cons.IH [of idx] Cons.IH [of ?idx] filledIndex_insert [OF Cons.prems]
    by (cases "isDeleted r") (simp_all add: classAt_insert fun_upd_def)
qed simp

definition memberAt :: "members_index \<Rightarrow> u8 \<times> u8 \<times> u8 \<Rightarrow> u8 list" where
  "memberAt idx k = (case idx (fst k) of None \<Rightarrow> [] | Some m \<Rightarrow> (case m (fst (snd k)) of None \<Rightarrow> [] | Some d \<Rightarrow>
     (case d (snd (snd k)) of None \<Rightarrow> [] | Some is \<Rightarrow> is)))"

lemma memberAt_insert: "memberAt (insertMember c n d i idx) = (memberAt idx)((c, n, d) := setInsert i (memberAt idx (c, n, d)))"
proof
  fix k :: "u8 \<times> u8 \<times> u8"
  show "memberAt (insertMember c n d i idx) k = ((memberAt idx)((c, n, d) := setInsert i (memberAt idx (c, n, d)))) k"
    by (cases k) (auto simp: memberAt_def insertMember_def Let_def split: option.split)
qed

text \<open>The key of a member: the name of the class that owns it, its name and its descriptor.\<close>

definition memberKey :: "layout \<Rightarrow> row_lookup \<Rightarrow> table_row \<Rightarrow> u8 \<times> u8 \<times> u8" where
  "memberKey l lk r = (column8 ClassFileRow ''classname'' (projr (lk 1 (column8 l ''ownerClass'' r))), column8 l ''name'' r, column8 l ''descriptor'' r)"

lemma memberIndexLoop_collect:
  assumes "list_all2 (\<lambda>a r. cellRow t a = Inr r) as rs" "\<forall>r\<in>set rs. \<not> isDeleted r \<longrightarrow> (\<exists>c. lk 1 (column8 l ''ownerClass'' r) = Inr c)"
  shows "\<exists>idx'. memberIndexLoop l lk t as idx = Inr idx' \<and>
    memberAt idx' = collect (map (\<lambda>r. (rowId r, memberKey l lk r)) (filter (\<lambda>r. \<not> isDeleted r) rs)) (memberAt idx)"
  using assms
proof (induction as rs arbitrary: idx rule: list_all2_induct)
  case (Cons a as r rs)
  show ?case
  proof (cases "isDeleted r")
    case False
    then obtain c where "lk 1 (column8 l ''ownerClass'' r) = Inr c" using Cons.prems by auto
    moreover from this have "insertMember (column8 ClassFileRow ''classname'' c) (column8 l ''name'' r) (column8 l ''descriptor'' r) =
      insertMember (fst (memberKey l lk r)) (fst (snd (memberKey l lk r))) (snd (snd (memberKey l lk r)))" by (simp add: memberKey_def)
    ultimately show ?thesis
      using Cons(1) Cons.prems Cons.IH [of "insertMember (fst (memberKey l lk r)) (fst (snd (memberKey l lk r))) (snd (snd (memberKey l lk r))) (rowId r) idx"] False
      by (simp add: memberAt_insert fun_upd_def)
  qed (use Cons in auto)
qed simp

lemma getMemberMatches_at: "order [] = [] \<Longrightarrow> getMemberMatches order l idx r = order (memberAt idx (column8 l ''classname'' r, column8 l ''name'' r, column8 l ''descriptor'' r))"
  by (simp add: getMemberMatches_def memberAt_def split: option.split)

section \<open>The two kinds of links\<close>

lemma setTable_same [simp]: "setTable j (tableOf j db) db = db"
  by (simp add: setTable_def)

lemma joining_bounds: "joining R T E as bs db rs ts es \<Longrightarrow> length rs < 2 ^ 64 \<and> length ts < 2 ^ 64 \<and> length as = length rs \<and> length bs = length ts \<and> distinct bs"
  by (auto simp: joining_def cells_def)

lemma joining_ids: "joining R T E as bs db rs ts es \<Longrightarrow> i < length rs \<Longrightarrow> rowId (rs ! i) = of_nat i"
  "joining R T E as bs db rs ts es \<Longrightarrow> k < length ts \<Longrightarrow> rowId (ts ! k) = of_nat k"
  by (simp_all add: joining_def cells_def)

lemma join_deref: "joining R T E as bs db rs ts es \<Longrightarrow> k < length ts \<Longrightarrow> onTable T (\<lambda>_. deref (bs ! k)) db = (Inr (ts ! k), db)"
  by (simp add: joining_def cells_def onTable_def deref_def)

lemma join_getRow:
  assumes "joining R T E as bs db rs ts es" "k < length ts"
  shows "onTable T (\<lambda>_. updateInPlace (andThen (getRow (of_nat k)) m)) db = onTable T (\<lambda>_. updateInPlace (m (bs ! k))) db"
proof -
  have "cells (tableOf T db) bs ts" using assms(1) by (simp add: joining_def)
  from getRow_cells [OF this assms(2)] show ?thesis by (simp add: onTable_def updateInPlace_def andThen_def)
qed

interpretation class_link: linking 2 1 7 ClassFileRow "\<lambda>_. 0" "\<lambda>bs r k. linkClassMatch r (bs ! k)"
proof
  fix as bs db rs ts es k and r :: table_row
  assume j: "joining 2 1 7 as bs db rs ts es" and k: "k < length ts" and new: "(rowId r, of_nat k) \<notin> edgeEnds ` set es" and room: "length es + 1 < 2 ^ 64"
  from join_addEdge [OF j new room, of 0] obtain db1 where db1: "addEdge 7 0 (rowId r) (of_nat k) db = (Inr (), db1)"
    "joining 2 1 7 as bs db1 rs ts (es @ [edgeBody 0 (rowId r) (of_nat k)])" "keepsOthers {2, 1, 7} db db1" by blast
  from join_increase(2) [OF db1(2) k, of ClassFileRow "''refCount''" 1] show "\<exists>db'. linkClassMatch r (bs ! k) db = (Inr (), db') \<and>
      joining 2 1 7 as bs db' rs (ts[k := addColumn8 ClassFileRow ''refCount'' 1 (ts ! k)]) (es @ [edgeBody 0 (rowId r) (of_nat k)]) \<and>
      keepsOthers {2, 1, 7} db db'"
    using db1(1,3) join_deref [OF j k] joining_ids(2) [OF j k] by (auto simp: linkClassMatch_def intro: keepsOthers_trans)
qed

interpretation member_link: linking "ref_types.refTable types" "targetTable types" "edgeTable types" "targetLayout types" "column8 (refLayout types) ''ownerClass''"
  "\<lambda>_ r k. linkMemberMatch types r (of_nat k)" for types
proof
  let ?js = "{ref_types.refTable types, targetTable types, edgeTable types}"
  fix as bs db rs ts es k and r :: table_row
  assume j: "joining (ref_types.refTable types) (targetTable types) (edgeTable types) as bs db rs ts es" and k: "k < length ts"
    and new: "(rowId r, of_nat k) \<notin> edgeEnds ` set es" and room: "length es + 1 < 2 ^ 64"
  let ?owner = "column8 (refLayout types) ''ownerClass'' r"
  from join_addEdge [OF j new room, of ?owner] obtain db1 where db1: "addEdge (edgeTable types) ?owner (rowId r) (of_nat k) db = (Inr (), db1)"
    "joining (ref_types.refTable types) (targetTable types) (edgeTable types) as bs db1 rs ts (es @ [edgeBody ?owner (rowId r) (of_nat k)])" "keepsOthers ?js db db1" by blast
  from join_increase(2) [OF db1(2) k, of "targetLayout types" "''refCount''" 1] show "\<exists>db'. linkMemberMatch types r (of_nat k) db = (Inr (), db') \<and>
      joining (ref_types.refTable types) (targetTable types) (edgeTable types) as bs db' rs (ts[k := addColumn8 (targetLayout types) ''refCount'' 1 (ts ! k)])
        (es @ [edgeBody ?owner (rowId r) (of_nat k)]) \<and> keepsOthers ?js db db'"
    using db1(1,3) join_getRow [OF db1(2) k] by (auto simp: linkMemberMatch_def intro: keepsOthers_trans)
qed

lemma forAll_map: "forAll f (map g xs) = forAll (\<lambda>x. f (g x)) xs"
  by (induction xs) simp_all

lemma join_none: "joining R T E as bs db rs ts es \<Longrightarrow> \<forall>t\<in>set ts. holdsColumn lt ''refCount'' t \<Longrightarrow> i < length rs \<Longrightarrow> \<forall>r\<in>set rs. holdsColumn lr ''edgeCount'' r \<Longrightarrow>
    joining R T E as bs db (rs[i := addColumn8 lr ''edgeCount'' 0 (rs ! i)]) (bumped lt [] ts) es"
  by simp

text \<open>The iteration order of a hash set.\<close>

definition reorders :: "('a list \<Rightarrow> 'a list) \<Rightarrow> bool" where
  "reorders order \<longleftrightarrow> (\<forall>xs. mset (order xs) = mset xs)"

lemma reorders_simps: "reorders order \<Longrightarrow> order [] = []" "reorders order \<Longrightarrow> set (order xs) = set xs" "reorders order \<Longrightarrow> length (order xs) = length xs"
  "reorders order \<Longrightarrow> distinct (order xs) = distinct xs"
proof -
  assume "reorders order"
  then have m: "mset (order xs) = mset xs" for xs by (simp add: reorders_def)
  show "order [] = []" using m [of "[]"] by simp
  show "set (order xs) = set xs" by (rule mset_eq_setD [OF m])
  show "length (order xs) = length xs" by (rule mset_eq_length [OF m])
  show "distinct (order xs) = distinct xs" by (rule mset_eq_imp_distinct_iff [OF m])
qed

lemma not_first: "x \<notin> fst ` S \<Longrightarrow> (x, y) \<notin> S"
  by (auto simp: image_iff)

definition classMatches :: "(nat list \<Rightarrow> nat list) \<Rightarrow> class_index \<Rightarrow> nat list \<Rightarrow> table_row \<Rightarrow> nat list" where
  "classMatches order idx bs r = (if isDeleted r then [] else map (\<lambda>a. position a bs) (order (classAt idx (column8 ClassRefRow ''name'' r))))"

lemma linkClassRef_links:
  assumes "reorders order" "filledIndex idx" and idx: "\<forall>name. distinct (classAt idx name) \<and> set (classAt idx name) \<subseteq> set bs"
  shows "linksRow 2 1 7 ClassRefRow ClassFileRow (\<lambda>_. 0) (linkClassRef order idx) (classMatches order idx bs) as bs"
  unfolding linksRow_def
proof (intro allI impI)
  fix db rs ts es i
  assume j: "joining 2 1 7 as bs db rs ts es" and i: "i < length rs" and len: "length ts = length bs"
    and ht: "\<forall>t\<in>set ts. holdsColumn ClassFileRow ''refCount'' t" and hr: "\<forall>r\<in>set rs. holdsColumn ClassRefRow ''edgeCount'' r"
    and new: "rowId (rs ! i) \<notin> fst ` edgeEnds ` set es" and room: "length es + length (classMatches order idx bs (rs ! i)) < 2 ^ 64"
  let ?r = "rs ! i" let ?ks = "classMatches order idx bs ?r" let ?xs = "classAt idx (column8 ClassRefRow ''name'' ?r)"
  show "\<exists>db'. (if isDeleted ?r then ret () else linkClassRef order idx (as ! i) ?r) db = (Inr (), db') \<and>
      joining 2 1 7 as bs db' (rs[i := addColumn8 ClassRefRow ''edgeCount'' (of_nat (length ?ks)) ?r]) (bumped ClassFileRow ?ks ts)
        (es @ map (\<lambda>k. edgeBody 0 (rowId ?r) (of_nat k)) ?ks) \<and> keepsOthers {2, 1, 7} db db'"
  proof (cases "isDeleted ?r \<or> idx (column8 ClassRefRow ''name'' ?r) = None")
    case True
    then have "?ks = []" using reorders_simps(1) [OF assms(1)] by (auto simp: classMatches_def classAt_def)
    then show ?thesis using True j i ht hr keepsOthers_refl by (auto simp: linkClassRef_def)
  next
    case False
    then obtain xs where xs: "idx (column8 ClassRefRow ''name'' ?r) = Some xs" "?xs = xs" by (auto simp: classAt_def)
    have ks: "?ks = map (\<lambda>a. position a bs) (order xs)" using False xs by (simp add: classMatches_def)
    have sub: "set (order xs) \<subseteq> set bs" "distinct (order xs)" using idx xs reorders_simps [OF assms(1)] by auto
    have there: "map (\<lambda>k. bs ! k) ?ks = order xs" unfolding ks using sub(1) by (auto simp: nth_position intro!: map_idI)
    then have dist: "distinct ?ks" using sub(2) by (metis distinct_map)
    have "set ?ks \<subseteq> {..<length ts}" unfolding ks len using sub(1) position_less by fastforce
    note ks_ok = dist this ht
    have count: "length xs = length ?ks" using reorders_simps(3) [OF assms(1)] by (simp add: ks)
    from join_increase(1) [OF j i, of ClassRefRow "''edgeCount''" "of_nat (length xs)"] obtain db1 where
      db1: "onTable 2 (\<lambda>_. updateInPlace (increase ClassRefRow ''edgeCount'' (of_nat (length xs)) (as ! i))) db = (Inr (), db1)"
        "joining 2 1 7 as bs db1 (rs[i := addColumn8 ClassRefRow ''edgeCount'' (of_nat (length xs)) ?r]) ts es" "keepsOthers {2, 1, 7} db db1" by blast
    from class_link.matchAll [OF db1(2) ks_ok, of ?r] not_first [OF new] room joining_bounds [OF j] obtain db2 where
      "forAll (\<lambda>k. linkClassMatch ?r (bs ! k)) ?ks db1 = (Inr (), db2)"
      "joining 2 1 7 as bs db2 (rs[i := addColumn8 ClassRefRow ''edgeCount'' (of_nat (length xs)) ?r]) (bumped ClassFileRow ?ks ts)
        (es @ map (\<lambda>k. edgeBody 0 (rowId ?r) (of_nat k)) ?ks)" "keepsOthers {2, 1, 7} db1 db2" by blast
    moreover from this(1) have "forAll (linkClassMatch ?r) (order xs) db1 = (Inr (), db2)" by (simp add: forAll_map flip: there)
    ultimately show ?thesis using False xs(1) db1(1,3) count by (auto simp: linkClassRef_def intro: keepsOthers_trans)
  qed
qed

definition memberMatches :: "(u8 list \<Rightarrow> u8 list) \<Rightarrow> layout \<Rightarrow> members_index \<Rightarrow> table_row \<Rightarrow> nat list" where
  "memberMatches order l idx r = (if isDeleted r then [] else
     map unat (order (memberAt idx (column8 l ''classname'' r, column8 l ''name'' r, column8 l ''descriptor'' r))))"

lemma linkMemberRef_links:
  assumes "reorders order" and idx: "\<forall>k. distinct (memberAt idx k) \<and> (\<forall>i\<in>set (memberAt idx k). unat i < length bs)"
  shows "linksRow (ref_types.refTable types) (targetTable types) (edgeTable types) (refLayout types) (targetLayout types)
    (column8 (refLayout types) ''ownerClass'') (linkMemberRef order types idx) (memberMatches order (refLayout types) idx) as bs"
  unfolding linksRow_def
proof (intro allI impI)
  let ?R = "ref_types.refTable types" and ?T = "targetTable types" and ?E = "edgeTable types" and ?lr = "refLayout types" and ?lt = "targetLayout types"
  fix db rs ts es i
  assume j: "joining ?R ?T ?E as bs db rs ts es" and i: "i < length rs" and len: "length ts = length bs"
    and ht: "\<forall>t\<in>set ts. holdsColumn ?lt ''refCount'' t" and hr: "\<forall>r\<in>set rs. holdsColumn ?lr ''edgeCount'' r"
    and new: "rowId (rs ! i) \<notin> fst ` edgeEnds ` set es" and room: "length es + length (memberMatches order ?lr idx (rs ! i)) < 2 ^ 64"
  let ?r = "rs ! i" let ?ks = "memberMatches order ?lr idx ?r" let ?is = "getMemberMatches order ?lr idx ?r"
  let ?owner = "column8 ?lr ''ownerClass'' ?r" let ?es = "es @ map (\<lambda>k. edgeBody ?owner (rowId ?r) (of_nat k)) ?ks"
  show "\<exists>db'. (if isDeleted ?r then ret () else linkMemberRef order types idx (as ! i) ?r) db = (Inr (), db') \<and>
      joining ?R ?T ?E as bs db' (rs[i := addColumn8 ?lr ''edgeCount'' (of_nat (length ?ks)) ?r]) (bumped ?lt ?ks ts) ?es \<and> keepsOthers {?R, ?T, ?E} db db'"
  proof (cases "isDeleted ?r \<or> ?is = []")
    case True
    then have "?ks = []" using getMemberMatches_at [of order] reorders_simps(1) [OF assms(1)] by (auto simp: memberMatches_def)
    then show ?thesis using True j i ht hr keepsOthers_refl by (auto simp: linkMemberRef_def)
  next
    case False
    then have ks: "?ks = map unat ?is" using getMemberMatches_at [of order] reorders_simps(1) [OF assms(1)] by (simp add: memberMatches_def)
    have is_ok: "distinct ?is" "\<forall>i\<in>set ?is. unat i < length bs"
      using idx reorders_simps [OF assms(1)] by (simp_all add: getMemberMatches_at)
    have there: "map of_nat ?ks = ?is" unfolding ks by (simp add: comp_def)
    have "distinct ?ks" "set ?ks \<subseteq> {..<length ts}" using is_ok unfolding ks len by (auto simp: distinct_map inj_on_def word_unat_eq_iff)
    note ks_ok = this ht
    from member_link.matchAll [OF j ks_ok, of ?r] not_first [OF new] room joining_bounds [OF j] obtain db1 where
      db1: "forAll (\<lambda>k. linkMemberMatch types ?r (of_nat k)) ?ks db = (Inr (), db1)"
        "joining ?R ?T ?E as bs db1 rs (bumped ?lt ?ks ts) ?es" "keepsOthers {?R, ?T, ?E} db db1" by blast
    from join_increase(1) [OF db1(2) i, of ?lr "''edgeCount''" "of_nat (length ?ks)"] obtain db2 where
      db2: "onTable ?R (\<lambda>_. updateInPlace (increase ?lr ''edgeCount'' (of_nat (length ?ks)) (as ! i))) db1 = (Inr (), db2)"
        "joining ?R ?T ?E as bs db2 (rs[i := addColumn8 ?lr ''edgeCount'' (of_nat (length ?ks)) ?r]) (bumped ?lt ?ks ts) ?es" "keepsOthers {?R, ?T, ?E} db1 db2" by blast
    from db1(1) have "forAll (linkMemberMatch types ?r) ?is db = (Inr (), db1)" by (simp add: forAll_map flip: there)
    moreover have "length ?is = length ?ks" by (simp add: ks)
    ultimately have "linkMemberRef order types idx (as ! i) ?r db = (Inr (), db2)"
      using False db2(1) by (simp add: linkMemberRef_def Let_def)
    then show ?thesis using False db2(2) keepsOthers_trans [OF db1(3) db2(3)] by auto
  qed
qed

section \<open>The join\<close>

text \<open>
  The tables after linking the references \<open>rs\<close> with the targets \<open>ts\<close>: an edge per pair that
  matches, and every row counts its edges.
\<close>

definition joined :: "nat \<Rightarrow> nat \<Rightarrow> nat \<Rightarrow> layout \<Rightarrow> layout \<Rightarrow> (table_row \<Rightarrow> u8) \<Rightarrow> (table_row \<Rightarrow> table_row \<Rightarrow> bool) \<Rightarrow>
    table_row list \<Rightarrow> table_row list \<Rightarrow> database \<Rightarrow> bool" where
  "joined R T E lr lt owner matching rs ts db \<longleftrightarrow>
     rowsOf (tableOf R db) = Inr (map (\<lambda>r. addColumn8 lr ''edgeCount'' (of_nat (length (filter (matching r) ts))) r) rs) \<and>
     rowsOf (tableOf T db) = Inr (map (\<lambda>t. addColumn8 lt ''refCount'' (of_nat (length (filter (\<lambda>r. matching r t) rs))) t) ts) \<and>
     (\<exists>es. rowsOf (tableOf E db) = Inr es \<and>
        mset (map rowBody es) = mset (concat (map (\<lambda>r. map (\<lambda>t. edgeBody (owner r) (rowId r) (rowId t)) (filter (matching r) ts)) rs)))"

lemma filter_positions: "filter P ts = map ((!) ts) (filter (\<lambda>k. P (ts ! k)) [0..<length ts])"
proof -
  have "filter P (map ((!) ts) [0..<length ts]) = map ((!) ts) (filter (P \<circ> (!) ts) [0..<length ts])" by (rule filter_map)
  then show ?thesis by (simp add: map_nth comp_def)
qed

lemma positions_mset:
  assumes "distinct ks" "set ks = {k. k < length ts \<and> P (ts ! k)}"
  shows "mset (map ((!) ts) ks) = mset (filter P ts)"
proof -
  have "mset ks = mset (filter (\<lambda>k. P (ts ! k)) [0..<length ts])"
    using assms by (subst set_eq_iff_mset_eq_distinct [symmetric]) auto
  then show ?thesis unfolding filter_positions [of P] mset_map by (rule arg_cong)
qed

lemma count_distinct: "distinct ks \<Longrightarrow> count_list ks k = (if k \<in> set ks then 1 else 0)"
  by (induction ks) auto

lemma rowsOf_edges: "edgesAre t bs \<Longrightarrow> \<exists>es. rowsOf t = Inr es \<and> map rowBody es = bs"
  using rowsOf_cells cells_rep by (fastforce simp: edgesAre_def)

lemma joined_positions:
  assumes j: "joining R T E as bs db (map (\<lambda>r. addColumn8 lr ''edgeCount'' (of_nat (length (M r))) r) rs) (bumped lt (concat (map M rs)) ts) (joinEdges owner M rs)"
    and M: "\<forall>r\<in>set rs. distinct (M r) \<and> set (M r) = {k. k < length ts \<and> matching r (ts ! k)}"
    and ids: "\<forall>k<length ts. rowId (ts ! k) = of_nat k"
  shows "joined R T E lr lt owner matching rs ts db"
proof -
  have m: "mset (map ((!) ts) (M r)) = mset (filter (matching r) ts)" if "r \<in> set rs" for r using positions_mset M that by metis
  then have len: "length (M r) = length (filter (matching r) ts)" if "r \<in> set rs" for r using mset_eq_length [OF m [OF that]] by simp
  have count: "count_list (concat (map M rs)) k = length (filter (\<lambda>r. matching r (ts ! k)) rs)" if "k < length ts" for k
    using M that by (induction rs) (auto simp: count_distinct)
  have edges: "mset (map (\<lambda>k. edgeBody (owner r) (rowId r) (of_nat k)) (M r)) = mset (map (\<lambda>t. edgeBody (owner r) (rowId r) (rowId t)) (filter (matching r) ts))"
    if "r \<in> set rs" for r
  proof -
    have "map (\<lambda>k. edgeBody (owner r) (rowId r) (of_nat k)) (M r) = map (\<lambda>t. edgeBody (owner r) (rowId r) (rowId t)) (map ((!) ts) (M r))"
      using M that ids by auto
    then show ?thesis using m [OF that] by (metis mset_map)
  qed
  have "mset (joinEdges owner M rs) = mset (concat (map (\<lambda>r. map (\<lambda>t. edgeBody (owner r) (rowId r) (rowId t)) (filter (matching r) ts)) rs))"
    using edges by (induction rs) auto
  moreover have "bumped lt (concat (map M rs)) ts = map (\<lambda>t. addColumn8 lt ''refCount'' (of_nat (length (filter (\<lambda>r. matching r t) rs))) t) ts"
    by (rule nth_equalityI) (simp_all add: bumped_def count)
  moreover have "map (\<lambda>r. addColumn8 lr ''edgeCount'' (of_nat (length (M r))) r) rs = map (\<lambda>r. addColumn8 lr ''edgeCount'' (of_nat (length (filter (matching r) ts))) r) rs"
    using len by simp
  moreover have "cells (tableOf R db) as (map (\<lambda>r. addColumn8 lr ''edgeCount'' (of_nat (length (M r))) r) rs)"
    "cells (tableOf T db) bs (bumped lt (concat (map M rs)) ts)" "edgesAre (tableOf E db) (joinEdges owner M rs)"
    using j by (simp_all add: joining_def)
  moreover from rowsOf_edges [OF this(3)] obtain es where "rowsOf (tableOf E db) = Inr es" "map rowBody es = joinEdges owner M rs" by blast
  ultimately show ?thesis unfolding joined_def by (intro conjI exI [of _ es]) (simp_all add: rowsOf_cells)
qed

lemma ids_distinct:
  assumes "\<forall>i<length rs. rowId (rs ! i) = of_nat i" "length rs < 2 ^ 64"
  shows "distinct (map rowId rs)"
proof -
  have "map rowId rs = map of_nat [0..<length rs]" using assms(1) by (intro nth_equalityI) simp_all
  moreover have "inj_on (of_nat :: nat \<Rightarrow> u8) {..<2 ^ 64}" by (rule inj_on_inverseI [of _ unat]) (simp add: unat_of_nat_less)
  then have "inj_on (of_nat :: nat \<Rightarrow> u8) (set [0..<length rs])" by (rule inj_on_subset) (use assms(2) in auto)
  ultimately show ?thesis by (simp add: distinct_map)
qed

lemma sum_matches:
  assumes "\<forall>r\<in>set rs. distinct (M r) \<and> set (M r) = {k. k < n \<and> P r k}"
  shows "sum_list (map (length \<circ> M) rs) \<le> length rs * n"
  using assms
proof (induction rs)
  case (Cons r rs)
  have "length (M r) = card (set (M r))" using Cons.prems distinct_card [of "M r"] by simp
  also have "\<dots> \<le> card {..<n}" using Cons.prems by (intro card_mono) auto
  finally show ?case using Cons by simp
qed simp

lemma link_all:
  assumes links: "linksRow R T E lr lt owner f M as bs" and j: "joining R T E as bs db rs ts []"
    and cols: "\<forall>t\<in>set ts. holdsColumn lt ''refCount'' t" "\<forall>r\<in>set rs. holdsColumn lr ''edgeCount'' r"
    and M: "\<forall>r\<in>set rs. distinct (M r) \<and> set (M r) = {k. k < length ts \<and> matching r (ts ! k)}" and room: "length rs * length ts < 2 ^ 64"
  shows "\<exists>db'. forEachIn R f db = (Inr (), db') \<and> joined R T E lr lt owner matching rs ts db' \<and> keepsOthers {R, T, E} db db'"
proof -
  have as: "autoIncrementIndex (tableOf R db) = as" using j by (simp add: joining_def cells_def)
  have ids: "distinct (map rowId rs)" using joining_ids(1) [OF j] joining_bounds [OF j] by (intro ids_distinct) auto
  have "sum_list (map (length \<circ> M) rs) < 2 ^ 64" using sum_matches [OF M] room by (rule le_less_trans)
  with linkRows [OF links, of db "[]" rs ts "[]"] j cols ids joining_bounds [OF j] obtain db' where
    "forEachCell R f as db = (Inr (), db')" "keepsOthers {R, T, E} db db'"
    "joining R T E as bs db' (map (\<lambda>r. addColumn8 lr ''edgeCount'' (of_nat (length (M r))) r) rs) (bumped lt (concat (map M rs)) ts) (joinEdges owner M rs)"
    by auto
  moreover from this(3) have "joined R T E lr lt owner matching rs ts db'" using M joining_ids(2) [OF j] by (intro joined_positions) auto
  ultimately show ?thesis by (auto simp: forEachIn_def as)
qed

text \<open>When a reference and a row belong together.\<close>

definition sameClass :: "table_row \<Rightarrow> table_row \<Rightarrow> bool" where
  "sameClass r t \<longleftrightarrow> \<not> isDeleted r \<and> \<not> isDeleted t \<and> column8 ClassRefRow ''name'' r = column8 ClassFileRow ''classname'' t"

definition sameMember :: "ref_types \<Rightarrow> row_lookup \<Rightarrow> table_row \<Rightarrow> table_row \<Rightarrow> bool" where
  "sameMember types lk r t \<longleftrightarrow> \<not> isDeleted r \<and> \<not> isDeleted t \<and>
     (column8 (refLayout types) ''classname'' r, column8 (refLayout types) ''name'' r, column8 (refLayout types) ''descriptor'' r) =
     memberKey (targetLayout types) lk t"

lemma position_nth: "distinct bs \<Longrightarrow> k < length bs \<Longrightarrow> position (bs ! k) bs = k"
  by (induction bs arbitrary: k) (auto simp: nth_Cons split: nat.split)

lemma joining_cells: "joining R T E as bs db rs ts es \<Longrightarrow> list_all2 (\<lambda>a r. cellRow (tableOf T db) a = Inr r) bs ts \<and> autoIncrementIndex (tableOf T db) = bs"
  by (auto simp: joining_def cells_def cellRow_def list_all2_conv_all_nth)

lemma class_index_of:
  assumes "joining 2 1 7 as bs db rs ts es"
  shows "\<exists>idx. createClassnameIndex db = Inr idx \<and> filledIndex idx \<and>
    (\<forall>name. classAt idx name = map ((!) bs) (filter (\<lambda>k. \<not> isDeleted (ts ! k) \<and> column8 ClassFileRow ''classname'' (ts ! k) = name) [0..<length ts]))"
proof -
  have b: "length bs = length ts" "distinct bs" using joining_bounds [OF assms] by simp_all
  have zip: "zip bs ts = map (\<lambda>k. (bs ! k, ts ! k)) [0..<length ts]" using b by (intro nth_equalityI) simp_all
  let ?items = "map (\<lambda>k. (bs ! k, column8 ClassFileRow ''classname'' (ts ! k))) (filter (\<lambda>k. \<not> isDeleted (ts ! k)) [0..<length ts])"
  have items: "map (\<lambda>(a, r). (a, column8 ClassFileRow ''classname'' r)) (filter (\<lambda>(a, r). \<not> isDeleted r) (zip bs ts)) = ?items"
    by (simp add: zip filter_map comp_def)
  have "filledIndex Map.empty" "classAt Map.empty = (\<lambda>_. [])" by (auto simp: filledIndex_def classAt_def)
  with classIndexLoop_collect [of "tableOf 1 db" bs ts Map.empty] joining_cells [OF assms] obtain idx where
    idx: "createClassnameIndex db = Inr idx" "filledIndex idx" "classAt idx = collect ?items (\<lambda>_. [])"
    by (auto simp: createClassnameIndex_def items)
  have "distinct (map fst ?items)" using b by (auto simp: distinct_map comp_def inj_on_def nth_eq_iff_index_eq)
  from collect_distinct [OF this, of "\<lambda>_. []"] have "classAt idx name =
      map ((!) bs) (filter (\<lambda>k. \<not> isDeleted (ts ! k) \<and> column8 ClassFileRow ''classname'' (ts ! k) = name) [0..<length ts])" for name
    by (simp add: idx(3) filter_map comp_def)
  then show ?thesis using idx(1,2) by blast
qed

lemma classMatches_set:
  assumes "joining 2 1 7 as bs db rs ts es" "reorders order" "createClassnameIndex db = Inr idx"
  shows "filledIndex idx \<and> (\<forall>name. distinct (classAt idx name) \<and> set (classAt idx name) \<subseteq> set bs) \<and>
    (\<forall>r. distinct (classMatches order idx bs r) \<and> set (classMatches order idx bs r) = {k. k < length ts \<and> sameClass r (ts ! k)})"
proof -
  have b: "length bs = length ts" "distinct bs" using joining_bounds [OF assms(1)] by simp_all
  from class_index_of [OF assms(1)] assms(3) have idx: "filledIndex idx"
    "classAt idx name = map ((!) bs) (filter (\<lambda>k. \<not> isDeleted (ts ! k) \<and> column8 ClassFileRow ''classname'' (ts ! k) = name) [0..<length ts])" for name
    by auto
  have ok: "distinct (classAt idx name) \<and> set (classAt idx name) \<subseteq> set bs" for name
    using b by (auto simp: idx(2) distinct_map inj_on_def nth_eq_iff_index_eq)
  have "distinct (classMatches order idx bs r) \<and> set (classMatches order idx bs r) = {k. k < length ts \<and> sameClass r (ts ! k)}" for r
  proof (cases "isDeleted r")
    case False
    have "set (classMatches order idx bs r) = (\<lambda>a. position a bs) ` set (classAt idx (column8 ClassRefRow ''name'' r))"
      using False by (simp add: classMatches_def reorders_simps(2) [OF assms(2)])
    moreover have "inj_on (\<lambda>a. position a bs) (set bs)" by (rule inj_on_inverseI [of _ "(!) bs"]) (rule nth_position)
    then have "inj_on (\<lambda>a. position a bs) (set (classAt idx (column8 ClassRefRow ''name'' r)))" using ok inj_on_subset by blast
    then have "distinct (classMatches order idx bs r)"
      using False ok reorders_simps(2,4) [OF assms(2)] by (simp add: classMatches_def distinct_map)
    moreover have "(\<lambda>a. position a bs) ` (!) bs ` S = S" if "S \<subseteq> {..<length ts}" for S
      using that b by (subst image_image, subst image_cong [OF refl, of _ _ id]) (auto simp: position_nth)
    moreover have "set (filter (\<lambda>k. \<not> isDeleted (ts ! k) \<and> column8 ClassFileRow ''classname'' (ts ! k) = column8 ClassRefRow ''name'' r) [0..<length ts]) =
        {k. k < length ts \<and> sameClass r (ts ! k)}" using False by (auto simp: sameClass_def)
    moreover have "{k. k < length ts \<and> sameClass r (ts ! k)} \<subseteq> {..<length ts}" by auto
    ultimately show ?thesis unfolding idx(2) set_map by metis
  qed (simp add: classMatches_def sameClass_def)
  then show ?thesis using idx(1) ok by blast
qed

lemma class_join:
  assumes "joining 2 1 7 as bs db rs ts es" "joining 2 1 7 as bs db1 rs ts []" "reorders order" "createClassnameIndex db = Inr idx"
    and "\<forall>t\<in>set ts. holdsColumn ClassFileRow ''refCount'' t" "\<forall>r\<in>set rs. holdsColumn ClassRefRow ''edgeCount'' r" "length rs * length ts < 2 ^ 64"
  shows "\<exists>db'. linkClassRefs order idx db1 = (Inr (), db') \<and> joined 2 1 7 ClassRefRow ClassFileRow (\<lambda>_. 0) sameClass rs ts db' \<and> keepsOthers {2, 1, 7} db1 db'"
proof -
  note m = classMatches_set [OF assms(1,3,4)]
  then show ?thesis unfolding linkClassRefs_def using assms(5-7)
    by (intro link_all [OF linkClassRef_links [OF assms(3)] assms(2)]) auto
qed

lemma member_index:
  assumes "joining (ref_types.refTable types) (targetTable types) (edgeTable types) as bs db rs ts es"
    and "\<forall>t\<in>set ts. \<not> isDeleted t \<longrightarrow> (\<exists>c. dbLookup db 1 (column8 (targetLayout types) ''ownerClass'' t) = Inr c)"
  shows "\<exists>idx. createMemberIndex types db = Inr idx \<and>
    (\<forall>k. memberAt idx k = map rowId (filter (\<lambda>t. \<not> isDeleted t \<and> memberKey (targetLayout types) (dbLookup db) t = k) ts))"
proof -
  let ?items = "map (\<lambda>t. (rowId t, memberKey (targetLayout types) (dbLookup db) t)) (filter (\<lambda>t. \<not> isDeleted t) ts)"
  have cells: "list_all2 (\<lambda>a r. cellRow (tableOf (targetTable types) db) a = Inr r) bs ts" "autoIncrementIndex (tableOf (targetTable types) db) = bs"
    using joining_cells [OF assms(1)] by simp_all
  have "memberAt Map.empty = (\<lambda>_. [])" by (auto simp: memberAt_def)
  with memberIndexLoop_collect [where lk = "dbLookup db" and l = "targetLayout types" and idx = Map.empty, OF cells(1) assms(2)] obtain idx where
    idx: "createMemberIndex types db = Inr idx" "memberAt idx = collect ?items (\<lambda>_. [])"
    by (auto simp: createMemberIndex_def cells(2))
  have "distinct (map rowId ts)" using joining_ids(2) [OF assms(1)] joining_bounds [OF assms(1)] by (intro ids_distinct) auto
  then have "distinct (map fst ?items)" by (simp add: comp_def distinct_map_filter)
  from collect_distinct [OF this, of "\<lambda>_. []"] have "memberAt idx k = map rowId (filter (\<lambda>t. \<not> isDeleted t \<and> memberKey (targetLayout types) (dbLookup db) t = k) ts)" for k
    by (simp add: idx(2) filter_map comp_def)
  then show ?thesis using idx(1) by blast
qed

lemma member_join:
  fixes types :: ref_types
  defines "R \<equiv> ref_types.refTable types" and "T \<equiv> targetTable types" and "E \<equiv> edgeTable types"
  assumes j: "joining R T E as bs db rs ts es" "joining R T E as bs db1 rs ts []" and order: "reorders order" and made: "createMemberIndex types db = Inr idx"
    and owners: "\<forall>t\<in>set ts. \<not> isDeleted t \<longrightarrow> (\<exists>c. dbLookup db 1 (column8 (targetLayout types) ''ownerClass'' t) = Inr c)"
    and cols: "\<forall>t\<in>set ts. holdsColumn (targetLayout types) ''refCount'' t" "\<forall>r\<in>set rs. holdsColumn (refLayout types) ''edgeCount'' r"
    and room: "length rs * length ts < 2 ^ 64"
  shows "\<exists>db'. linkMemberRefs order types idx db1 = (Inr (), db') \<and> joined R T E (refLayout types) (targetLayout types)
    (column8 (refLayout types) ''ownerClass'') (sameMember types (dbLookup db)) rs ts db' \<and> keepsOthers {R, T, E} db1 db'"
proof -
  have b: "length bs = length ts" "length ts < 2 ^ 64" using joining_bounds [OF j(2)] by simp_all
  have id: "rowId (ts ! k) = of_nat k" if "k < length ts" for k using joining_ids(2) [OF j(2) that] .
  then have unat: "unat (rowId (ts ! k)) = k" if "k < length ts" for k using that b(2) by (simp add: unat_of_nat_less)
  from member_index [OF j(1) [unfolded R_def T_def E_def] owners] made have
    idx: "memberAt idx k = map rowId (filter (\<lambda>t. \<not> isDeleted t \<and> memberKey (targetLayout types) (dbLookup db) t = k) ts)" for k by (cases k) auto
  have ids: "distinct (map rowId ts)" using id b(2) by (intro ids_distinct) auto
  have ok: "distinct (memberAt idx k) \<and> (\<forall>i\<in>set (memberAt idx k). unat i < length bs)" for k
    using ids unat b by (auto simp: idx distinct_map_filter in_set_conv_nth)
  have "distinct (memberMatches order (refLayout types) idx r) \<and>
      set (memberMatches order (refLayout types) idx r) = {k. k < length ts \<and> sameMember types (dbLookup db) r (ts ! k)}" for r
  proof (cases "isDeleted r")
    case False
    let ?k = "(column8 (refLayout types) ''classname'' r, column8 (refLayout types) ''name'' r, column8 (refLayout types) ''descriptor'' r)"
    have "set (memberMatches order (refLayout types) idx r) = unat ` set (memberAt idx ?k)" "distinct (memberMatches order (refLayout types) idx r)"
      using False ok [of ?k] reorders_simps(2,4) [OF order] by (simp_all add: memberMatches_def distinct_map inj_on_def word_unat_eq_iff)
    then show ?thesis using False unat by (auto simp: idx sameMember_def in_set_conv_nth image_iff) metis
  qed (simp add: memberMatches_def sameMember_def)
  then show ?thesis unfolding linkMemberRefs_def R_def T_def E_def using ok cols room
    by (intro link_all [OF linkMemberRef_links [OF order] j(2) [unfolded R_def T_def E_def]]) auto
qed

section \<open>Linking a call graph\<close>

definition graphLayouts :: "layout list" where
  "graphLayouts = [FileRow, ClassFileRow, ClassRefRow, MethodRow, MethodRefRow, FieldRow, FieldRefRow, ClassRefEdgeRow, MethodRefEdgeRow, FieldRefEdgeRow]"

text \<open>
  A call-graph database with the rows \<open>rss\<close> and no edges yet, in which every live method and
  field belongs to a class.
\<close>

definition graphOk :: "database \<Rightarrow> table_row list list \<Rightarrow> bool" where
  "graphOk db rss \<longleftrightarrow> map keyOf (dbTables db) = callGraphKeys \<and>
     (\<forall>j<10. cells (tableOf j db) (autoIncrementIndex (tableOf j db)) (rss ! j) \<and>
        (\<forall>r\<in>set (rss ! j). length (rowBody r) + 16 = sizeOf (graphLayouts ! j))) \<and>
     (\<forall>j\<in>{7, 8, 9}. edgesAre (tableOf j db) []) \<and>
     (\<forall>j\<in>{3, 5}. \<forall>r\<in>set (rss ! j). \<not> isDeleted r \<longrightarrow> unat (column8 (graphLayouts ! j) ''ownerClass'' r) < length (rss ! 1))"

lemma graphOk_tables: "graphOk db rss \<Longrightarrow> length (dbTables db) = 10"
proof -
  assume "graphOk db rss"
  then have "map keyOf (dbTables db) = callGraphKeys" by (simp add: graphOk_def)
  from arg_cong [OF this, of length] show ?thesis by (simp add: callGraphKeys_def)
qed

lemma graphOk_rows: "graphOk db rss \<Longrightarrow> j < 10 \<Longrightarrow> rowsOf (tableOf j db) = Inr (rss ! j)"
  using rowsOf_cells by (auto simp: graphOk_def)

lemma graphOk_joining:
  assumes "graphOk db rss" "R < 10" "T < 10" "E \<in> {7, 8, 9}" "distinct [R, T, E]"
  shows "joining R T E (autoIncrementIndex (tableOf R db)) (autoIncrementIndex (tableOf T db)) db (rss ! R) (rss ! T) []"
proof -
  have len: "length (dbTables db) = 10" by (rule graphOk_tables [OF assms(1)])
  have E: "E = 7 \<or> E = 8 \<or> E = 9" using assms(4) by simp
  then have "keyOf (dbTables db ! E) = map keyOf (dbTables db) ! E" using len by auto
  also have "\<dots> = callGraphKeys ! E" using assms(1) by (simp add: graphOk_def)
  finally have "\<exists>l\<in>{ClassRefEdgeRow, MethodRefEdgeRow, FieldRefEdgeRow}. keyOf (dbTables db ! E) = edgeKey l"
    using E by (auto simp: callGraphKeys_def)
  then have "\<forall>p lk. keyOf (dbTables db ! E) p lk = (\<lambda>r. Inr (edgeText (edgeEnds (rowBody r))))" using edgeKey_ends by auto
  then show ?thesis using assms len by (auto simp: joining_def graphOk_def)
qed

lemma joining_keeps: "joining R T E as bs db rs ts es \<Longrightarrow> keepsOthers js db db' \<Longrightarrow> {R, T, E} \<inter> js = {} \<Longrightarrow> joining R T E as bs db' rs ts es"
  by (auto simp: joining_def keepsOthers_def)

lemma joined_keeps: "joined R T E lr lt owner matching rs ts db \<Longrightarrow> keepsOthers js db db' \<Longrightarrow> {R, T, E} \<inter> js = {} \<Longrightarrow>
    joined R T E lr lt owner matching rs ts db'"
  by (auto simp: joined_def keepsOthers_def)

lemma graphOk_columns:
  assumes "graphOk db rss"
  shows "r \<in> set (rss ! 1) \<Longrightarrow> holdsColumn ClassFileRow ''refCount'' r" "r \<in> set (rss ! 2) \<Longrightarrow> holdsColumn ClassRefRow ''edgeCount'' r"
    "r \<in> set (rss ! 3) \<Longrightarrow> holdsColumn MethodRow ''refCount'' r" "r \<in> set (rss ! 4) \<Longrightarrow> holdsColumn MethodRefRow ''edgeCount'' r"
    "r \<in> set (rss ! 5) \<Longrightarrow> holdsColumn FieldRow ''refCount'' r" "r \<in> set (rss ! 6) \<Longrightarrow> holdsColumn FieldRefRow ''edgeCount'' r"
proof -
  have size: "length (rowBody r) + 16 = sizeOf (graphLayouts ! j)" if "j < 10" "r \<in> set (rss ! j)" for j using assms that by (simp add: graphOk_def)
  show "r \<in> set (rss ! 1) \<Longrightarrow> holdsColumn ClassFileRow ''refCount'' r" using size [of 1] by (simp add: graphLayouts_def holdsColumn_def sizeOf_def layout_defs)
  show "r \<in> set (rss ! 2) \<Longrightarrow> holdsColumn ClassRefRow ''edgeCount'' r" using size [of 2] by (simp add: graphLayouts_def holdsColumn_def sizeOf_def layout_defs)
  show "r \<in> set (rss ! 3) \<Longrightarrow> holdsColumn MethodRow ''refCount'' r" using size [of 3] by (simp add: graphLayouts_def holdsColumn_def sizeOf_def layout_defs)
  show "r \<in> set (rss ! 4) \<Longrightarrow> holdsColumn MethodRefRow ''edgeCount'' r" using size [of 4] by (simp add: graphLayouts_def holdsColumn_def sizeOf_def layout_defs)
  show "r \<in> set (rss ! 5) \<Longrightarrow> holdsColumn FieldRow ''refCount'' r" using size [of 5] by (simp add: graphLayouts_def holdsColumn_def sizeOf_def layout_defs)
  show "r \<in> set (rss ! 6) \<Longrightarrow> holdsColumn FieldRefRow ''edgeCount'' r" using size [of 6] by (simp add: graphLayouts_def holdsColumn_def sizeOf_def layout_defs)
qed

lemma graphOk_owner:
  assumes "graphOk db rss" "unat i < length (rss ! 1)"
  shows "\<exists>c. dbLookup db 1 i = Inr c"
proof -
  have c: "cells (tableOf 1 db) (autoIncrementIndex (tableOf 1 db)) (rss ! 1)" using assms(1) by (simp add: graphOk_def)
  have "length (dbTables db) = 10" by (rule graphOk_tables [OF assms(1)])
  moreover have "getRow i (tableOf 1 db) = (Inr (autoIncrementIndex (tableOf 1 db) ! unat i), tableOf 1 db)" using getRow_cells [OF c assms(2)] by simp
  moreover have "heap (tableOf 1 db) (autoIncrementIndex (tableOf 1 db) ! unat i) = Some (Holds (rss ! 1 ! unat i))" using c assms(2) by (simp add: cells_def)
  ultimately show ?thesis by (auto simp: dbLookup_def cellRow_def)
qed

lemma graphOk_databaseOk:
  assumes "databaseOk db fs rss kss" "map keyOf (dbTables db) = callGraphKeys" "\<forall>j<10. rowSize (tableOf j db) = sizeOf (graphLayouts ! j)"
    and "\<forall>j\<in>{7, 8, 9}. rss ! j = []"
    and "\<forall>j\<in>{3, 5}. \<forall>r\<in>set (rss ! j). \<not> isDeleted r \<longrightarrow> unat (column8 (graphLayouts ! j) ''ownerClass'' r) < length (rss ! 1)"
  shows "graphOk db rss"
proof -
  from arg_cong [OF assms(2), of length] have len: "length (dbTables db) = 10" by (simp add: callGraphKeys_def)
  have rep: "tableRep (keyOf (dbTables db ! j) (dbPool db) (dbLookup db)) (tableOf j db) (rss ! j) (kss ! j)" if "j < 10" for j
    using assms(1) that len by (simp add: databaseOk_def Let_def)
  have "cells (tableOf j db) (autoIncrementIndex (tableOf j db)) (rss ! j) \<and> (\<forall>r\<in>set (rss ! j). length (rowBody r) + 16 = sizeOf (graphLayouts ! j))" if "j < 10" for j
    using cells_rep [OF rep [OF that]] rep [OF that] assms(3) that by (auto simp: tableRep_def in_set_conv_nth)
  moreover have "edgesAre (tableOf j db) []" if "j \<in> {7, 8, 9}" for j
  proof -
    have j: "j < 10" "sizeOf (graphLayouts ! j) = 40" using that by (auto simp: graphLayouts_def sizeOf_def layout_defs)
    then show ?thesis using rep [OF j(1)] assms(3,4) that by (auto simp: edgesAre_def tableRep_def)
  qed
  ultimately show ?thesis using assms(2,5) by (simp add: graphOk_def)
qed

lemma linkRefNodes_joined:
  assumes ok: "graphOk db rss" and order: "reorders classOrder" "reorders memberOrder"
    and room: "length (rss ! 2) * length (rss ! 1) < 2 ^ 64" "length (rss ! 4) * length (rss ! 3) < 2 ^ 64" "length (rss ! 6) * length (rss ! 5) < 2 ^ 64"
  shows "\<exists>db'. linkRefNodes classOrder memberOrder db = (Inr (), db') \<and>
    joined 2 1 7 ClassRefRow ClassFileRow (\<lambda>_. 0) sameClass (rss ! 2) (rss ! 1) db' \<and>
    joined 4 3 8 MethodRefRow MethodRow (column8 MethodRefRow ''ownerClass'') (sameMember methodTypes (dbLookup db)) (rss ! 4) (rss ! 3) db' \<and>
    joined 6 5 9 FieldRefRow FieldRow (column8 FieldRefRow ''ownerClass'') (sameMember fieldTypes (dbLookup db)) (rss ! 6) (rss ! 5) db' \<and>
    keepsOthers {1..9} db db'"
proof -
  note cols = graphOk_columns [OF ok]
  have types: "ref_types.refTable methodTypes = 4" "targetTable methodTypes = 3" "edgeTable methodTypes = 8" "refLayout methodTypes = MethodRefRow" "targetLayout methodTypes = MethodRow"
    "ref_types.refTable fieldTypes = 6" "targetTable fieldTypes = 5" "edgeTable fieldTypes = 9" "refLayout fieldTypes = FieldRefRow" "targetLayout fieldTypes = FieldRow"
    by (simp_all add: methodTypes_def fieldTypes_def)
  have jc: "joining 2 1 7 (autoIncrementIndex (tableOf 2 db)) (autoIncrementIndex (tableOf 1 db)) db (rss ! 2) (rss ! 1) []"
    and jm: "joining 4 3 8 (autoIncrementIndex (tableOf 4 db)) (autoIncrementIndex (tableOf 3 db)) db (rss ! 4) (rss ! 3) []"
    and jf: "joining 6 5 9 (autoIncrementIndex (tableOf 6 db)) (autoIncrementIndex (tableOf 5 db)) db (rss ! 6) (rss ! 5) []"
    using ok by (auto intro!: graphOk_joining)
  have own: "\<forall>t\<in>set (rss ! 3). \<not> isDeleted t \<longrightarrow> (\<exists>c. dbLookup db 1 (column8 MethodRow ''ownerClass'' t) = Inr c)"
    "\<forall>t\<in>set (rss ! 5). \<not> isDeleted t \<longrightarrow> (\<exists>c. dbLookup db 1 (column8 FieldRow ''ownerClass'' t) = Inr c)"
    using ok graphOk_owner [OF ok] by (simp_all add: graphOk_def graphLayouts_def)
  from class_index_of [OF jc] obtain ci where ci: "createClassnameIndex db = Inr ci" by blast
  from member_index [of methodTypes, unfolded types, OF jm own(1)] obtain mi where mi: "createMemberIndex methodTypes db = Inr mi" by blast
  from member_index [of fieldTypes, unfolded types, OF jf own(2)] obtain fi where fi: "createMemberIndex fieldTypes db = Inr fi" by blast
  from class_join [OF jc jc order(1) ci _ _ room(1)] cols obtain db1 where db1: "linkClassRefs classOrder ci db = (Inr (), db1)"
    "joined 2 1 7 ClassRefRow ClassFileRow (\<lambda>_. 0) sameClass (rss ! 2) (rss ! 1) db1" "keepsOthers {2, 1, 7} db db1" by blast
  have jm1: "joining 4 3 8 (autoIncrementIndex (tableOf 4 db)) (autoIncrementIndex (tableOf 3 db)) db1 (rss ! 4) (rss ! 3) []"
    and jf1: "joining 6 5 9 (autoIncrementIndex (tableOf 6 db)) (autoIncrementIndex (tableOf 5 db)) db1 (rss ! 6) (rss ! 5) []"
    by (rule joining_keeps [OF jm db1(3)] joining_keeps [OF jf db1(3)]; simp)+
  from member_join [of methodTypes, unfolded types, OF jm jm1 order(2) mi own(1) _ _ room(2)] cols obtain db2 where db2: "linkMemberRefs memberOrder methodTypes mi db1 = (Inr (), db2)"
    "joined 4 3 8 MethodRefRow MethodRow (column8 MethodRefRow ''ownerClass'') (sameMember methodTypes (dbLookup db)) (rss ! 4) (rss ! 3) db2" "keepsOthers {4, 3, 8} db1 db2" by blast
  have jf2: "joining 6 5 9 (autoIncrementIndex (tableOf 6 db)) (autoIncrementIndex (tableOf 5 db)) db2 (rss ! 6) (rss ! 5) []"
    by (rule joining_keeps [OF jf1 db2(3)]) simp
  from member_join [of fieldTypes, unfolded types, OF jf jf2 order(2) fi own(2) _ _ room(3)] cols obtain db3 where db3: "linkMemberRefs memberOrder fieldTypes fi db2 = (Inr (), db3)"
    "joined 6 5 9 FieldRefRow FieldRow (column8 FieldRefRow ''ownerClass'') (sameMember fieldTypes (dbLookup db)) (rss ! 6) (rss ! 5) db3" "keepsOthers {6, 5, 9} db2 db3" by blast
  have "joined 2 1 7 ClassRefRow ClassFileRow (\<lambda>_. 0) sameClass (rss ! 2) (rss ! 1) db3"
    using joined_keeps [OF joined_keeps [OF db1(2) db2(3)] db3(3)] by simp
  moreover have "joined 4 3 8 MethodRefRow MethodRow (column8 MethodRefRow ''ownerClass'') (sameMember methodTypes (dbLookup db)) (rss ! 4) (rss ! 3) db3"
    using joined_keeps [OF db2(2) db3(3)] by simp
  moreover have "keepsOthers {1..9} db db3" using db1(3) db2(3) db3(3) by (auto simp: keepsOthers_def)
  ultimately show ?thesis using ci mi fi db1(1) db2(1) db3(1,2) by (simp add: linkRefNodes_def)
qed

text \<open>(C15) Linking is a join: on a call graph without edges, whatever the order of the hash sets, \<^verbatim>\<open>linkRefNodes\<close>
  ends without a fault, adds exactly one edge for every live reference and live class (method,
  field) with the same names and owner class name, adds to \<^verbatim>\<open>edgeCount\<close> and \<^verbatim>\<open>refCount\<close> the number of edges at
  each end, and leaves the other columns, the files and the string pool alone.\<close>

theorem callgraph_links:
  assumes ok: "graphOk db rss" and order: "reorders classOrder" "reorders memberOrder"
    and room: "length (rss ! 2) * length (rss ! 1) < 2 ^ 64" "length (rss ! 4) * length (rss ! 3) < 2 ^ 64" "length (rss ! 6) * length (rss ! 5) < 2 ^ 64"
  shows "\<exists>db'. linkRefNodes classOrder memberOrder db = (Inr (), db') \<and>
    joined 2 1 7 ClassRefRow ClassFileRow (\<lambda>_. 0) sameClass (rss ! 2) (rss ! 1) db' \<and>
    joined 4 3 8 MethodRefRow MethodRow (column8 MethodRefRow ''ownerClass'') (sameMember methodTypes (dbLookup db)) (rss ! 4) (rss ! 3) db' \<and>
    joined 6 5 9 FieldRefRow FieldRow (column8 FieldRefRow ''ownerClass'') (sameMember fieldTypes (dbLookup db)) (rss ! 6) (rss ! 5) db' \<and>
    keepsOthers {1..9} db db'"
  by (rule linkRefNodes_joined [OF assms])

definition sampleClass :: table_row where
  "sampleClass = \<lparr>rowFlags = 0, rowId = 0, rowBody = putU8 0 @ putU8 5 @ replicate 68 0\<rparr>"

definition sampleRef :: table_row where
  "sampleRef = \<lparr>rowFlags = 0, rowId = 0, rowBody = putU8 0 @ putU8 5 @ putU8 0\<rparr>"

lemma newGraph_rowSize:
  assumes all: "list_all2 (\<lambda>(name, l, columns, key) dt. freshTable dir name l key dt) callGraphSpecs (dbTables db)" and j: "j < 10"
  shows "rowSize (tableOf j db) = sizeOf (graphLayouts ! j)"
proof -
  have len: "length (dbTables db) = 10" using list_all2_lengthD [OF all] by (simp add: callGraphSpecs_def)
  have "rowSize (tableOf j db) = map (\<lambda>dt. rowSize (tbl dt)) (dbTables db) ! j" using j len by simp
  also have "\<dots> = map sizeOf graphLayouts ! j" unfolding fresh_lists(5) [OF all] by (simp add: callGraphSpecs_def graphLayouts_def)
  also have "length graphLayouts = 10" by (simp add: graphLayouts_def)
  with j have "map sizeOf graphLayouts ! j = sizeOf (graphLayouts ! j)" by simp
  finally show ?thesis .
qed

lemma graphOk_new:
  assumes "callGraphDbInit dir block = Inr db" shows "graphOk db (replicate 10 [])"
proof -
  have all: "list_all2 (\<lambda>(name, l, columns, key) dt. freshTable dir name l key dt) callGraphSpecs (dbTables db)"
    using callGraphDbInit_ok [of dir block] assms by (auto simp: newTables_def)
  note f = fresh_lists [OF all]
  have len: "length (dbTables db) = 10" using list_all2_lengthD [OF all] by (simp add: callGraphSpecs_def)
  note rows = newGraph_rowSize [OF all]
  have empty: "emptyTable (tableOf j db)" if "j < 10" for j using f(4) that len nth_mem by metis
  have "cells (tableOf j db) (autoIncrementIndex (tableOf j db)) []" if "j < 10" for j
    using empty [OF that] by (simp add: cells_def emptyTable_def)
  moreover have "edgesAre (tableOf j db) []" if "j \<in> {7, 8, 9}" for j
  proof -
    have "j < 10" "sizeOf (graphLayouts ! j) = 40" using that by (auto simp: graphLayouts_def sizeOf_def layout_defs)
    then show ?thesis using rows empty by (auto simp: edgesAre_def emptyTable_def tableRep_def)
  qed
  ultimately show ?thesis using f(1) callGraphSpecs_ok(3) by (auto simp: graphOk_def)
qed

lemma graphOk_put:
  assumes "graphOk db rss" "length rss = 10" "j < 7" "j \<noteq> 3" "j \<noteq> 5" "j = 1 \<longrightarrow> length (rss ! 1) \<le> length rs"
    and "cells t (autoIncrementIndex t) rs" "\<forall>r\<in>set rs. length (rowBody r) + 16 = sizeOf (graphLayouts ! j)"
  shows "graphOk (setTable j t db) (rss[j := rs])"
proof -
  have j: "j < length (dbTables db)" using graphOk_tables [OF assms(1)] assms(3) by simp
  have "map keyOf (dbTables (setTable j t db)) = map keyOf (dbTables db)"
    by (rule nth_equalityI) (use tableOf_set(2) [OF j, of t] tableOf_set(3) [of j t db] in auto)
  moreover have "tableOf k (setTable j t db) = (if k = j then t else tableOf k db)" for k using tableOf_set(1) [OF j] .
  moreover have "length (rss ! 1) \<le> length (rss[j := rs] ! 1)" using assms(2,6) by (cases "j = 1") auto
  ultimately show ?thesis using assms unfolding graphOk_def by (auto simp: nth_list_update)
qed

abbreviation sampleRows :: "table_row list list" where
  "sampleRows \<equiv> (replicate 10 [])[1 := [sampleClass], 2 := [sampleRef]]"

lemma sample_graph: "\<exists>db. graphOk db sampleRows"
proof -
  obtain db0 where "callGraphDbInit ''d'' 0 = Inr db0" using callGraphDbInit_ok by blast
  then have ok0: "graphOk db0 (replicate 10 [])" by (rule graphOk_new)
  let ?t = "\<lambda>j r. (tableOf j db0)\<lparr>heap := [0 \<mapsto> Holds r], autoIncrementIndex := [0]\<rparr>"
  let ?db1 = "setTable 1 (?t 1 sampleClass) db0" let ?db = "setTable 2 (?t 2 sampleRef) ?db1"
  have c: "cells (?t j r) [0] [r]" if "rowId r = 0" for j r using that by (simp add: cells_def)
  have ok1: "graphOk ?db1 ((replicate 10 [])[1 := [sampleClass]])"
    by (rule graphOk_put [OF ok0]) (use c [of sampleClass 1] in \<open>auto simp: sampleClass_def graphLayouts_def sizeOf_def layout_defs\<close>)
  have "graphOk ?db sampleRows"
    by (rule graphOk_put [OF ok1]) (use c [of sampleRef 2] in \<open>auto simp: sampleRef_def graphLayouts_def sizeOf_def layout_defs\<close>)
  then show ?thesis by blast
qed

lemma sample_same: "sameClass sampleRef sampleClass"
  by (simp add: sameClass_def isDeleted_def sampleRef_def sampleClass_def column8_body layout_defs)

theorem callgraph_links_witness:
  "\<exists>db db' es. linkRefNodes (\<lambda>xs. xs) rev db = (Inr (), db') \<and> rowsOf (tableOf 1 db) = Inr [sampleClass] \<and> rowsOf (tableOf 7 db) = Inr [] \<and>
     rowsOf (tableOf 7 db') = Inr es \<and> map rowBody es = [edgeBody 0 0 0]"
proof -
  obtain db where ok: "graphOk db sampleRows" using sample_graph by blast
  have "reorders (\<lambda>xs. xs)" "reorders rev" by (simp_all add: reorders_def)
  from callgraph_links [OF ok this] obtain db' es where db': "linkRefNodes (\<lambda>xs. xs) rev db = (Inr (), db')"
    "rowsOf (tableOf 7 db') = Inr es" "mset (map rowBody es) = {#edgeBody 0 0 0#}"
    using sample_same by (auto simp: joined_def sampleRef_def sampleClass_def)
  from db'(3) have "map rowBody es = [edgeBody 0 0 0]" by (simp only: mset_single_iff)
  moreover have "rowsOf (tableOf 1 db) = Inr [sampleClass]" "rowsOf (tableOf 7 db) = Inr []"
    using graphOk_rows [OF ok, of 1] graphOk_rows [OF ok, of 7] by simp_all
  ultimately show ?thesis using db'(1,2) by (intro exI [of _ db] exI [of _ db'] exI [of _ es] conjI)
qed

section \<open>Linking twice\<close>

lemma andThen_fails: "fst (m s) = Inl e \<Longrightarrow> fst (andThen m f s) = Inl e"
  by (cases "m s") (simp add: andThen_def)

lemma onTable_fails: "fst (m (keyAt db j) (tableOf j db)) = Inl e \<Longrightarrow> fst (onTable j m db) = Inl e"
  by (auto simp: onTable_def split: prod.split)

lemma addEdge_exists:
  assumes "joining R T E as bs db rs ts es" "(from, to) \<in> edgeEnds ` set es"
  shows "fst (addEdge E owner from to db) = Inl AssertFail"
proof -
  let ?key = "\<lambda>r. Inr (edgeText (edgeEnds (rowBody r))) :: string result" and ?t = "tableOf E db" and ?r = "EdgeRow owner from to"
  have key: "keyAt db E = ?key" using assms(1) by (auto simp: joining_def keyAt_def)
  obtain rows where rep: "tableRep ?key ?t rows (map (edgeText \<circ> edgeEnds) es)" using assms(1) by (auto simp: joining_def edgesAre_def)
  have "edgeText (from, to) \<in> set (map (edgeText \<circ> edgeEnds) es)" using assms(2) by force
  then have "map_of (tableRows ?t) (edgeText (from, to)) \<noteq> None" using map_of_rep_None [OF rep] by blast
  moreover have "rowBody ?r = edgeBody owner from to" by (simp add: EdgeRow_def edgeBody_def)
  ultimately show ?thesis unfolding addEdge_def
    by (intro onTable_fails) (auto simp: key newRow_def addRow_def getKey_def internalAdd_def allocateRow_def andThen_def)
qed

lemma linkClassMatch_exists:
  assumes "joining 2 1 7 as bs db rs ts es" "k < length ts" "(rowId r, of_nat k) \<in> edgeEnds ` set es"
  shows "fst (linkClassMatch r (bs ! k) db) = Inl AssertFail"
  using addEdge_exists [OF assms(1,3), of 0] join_deref [OF assms(1,2)] joining_ids(2) [OF assms(1,2)]
  by (simp add: linkClassMatch_def andThen_fails)

lemma linkClassRef_exists:
  assumes j: "joining 2 1 7 as bs db rs ts es" and i: "i < length rs" and order: "reorders order" and idx: "\<forall>name. set (classAt idx name) \<subseteq> set bs"
    and some: "classMatches order idx bs (rs ! i) \<noteq> []" and all: "\<forall>k\<in>set (classMatches order idx bs (rs ! i)). (rowId (rs ! i), of_nat k) \<in> edgeEnds ` set es"
  shows "\<not> isDeleted (rs ! i) \<and> fst (linkClassRef order idx (as ! i) (rs ! i) db) = Inl AssertFail"
proof -
  let ?r = "rs ! i" let ?xs = "classAt idx (column8 ClassRefRow ''name'' ?r)"
  have live: "\<not> isDeleted ?r" using some by (auto simp: classMatches_def)
  then have ks: "classMatches order idx bs ?r = map (\<lambda>a. position a bs) (order ?xs)" by (simp add: classMatches_def)
  have "?xs \<noteq> []" using some reorders_simps(1) [OF order] unfolding ks by (metis map_is_Nil_conv)
  then obtain xs where xs: "idx (column8 ClassRefRow ''name'' ?r) = Some xs" "?xs = xs" by (auto simp: classAt_def split: option.splits)
  obtain a as' where a: "order xs = a # as'" using some unfolding ks xs(2) by (cases "order xs") auto
  have "a \<in> set bs" using idx a xs(2) reorders_simps(2) [OF order, of xs] by (metis list.set_intros(1) subsetD)
  then have k: "position a bs < length ts" "bs ! position a bs = a" using position_less nth_position joining_bounds [OF j] by fastforce+
  from join_increase(1) [OF j i, of ClassRefRow "''edgeCount''" "of_nat (length xs)"] obtain db1 where
    db1: "onTable 2 (\<lambda>_. updateInPlace (increase ClassRefRow ''edgeCount'' (of_nat (length xs)) (as ! i))) db = (Inr (), db1)"
      "joining 2 1 7 as bs db1 (rs[i := addColumn8 ClassRefRow ''edgeCount'' (of_nat (length xs)) ?r]) ts es" by blast
  have "(rowId ?r, of_nat (position a bs)) \<in> edgeEnds ` set es" using all unfolding ks xs(2) a by simp
  from linkClassMatch_exists [OF db1(2) k(1) this] have "fst (forAll (linkClassMatch ?r) (order xs) db1) = Inl AssertFail"
    unfolding a k(2) by (simp add: andThen_fails)
  then show ?thesis using live db1(1) xs(1) by (simp add: linkClassRef_def)
qed

lemma linkClassRef_none: "classMatches order idx bs r = [] \<Longrightarrow> reorders order \<Longrightarrow> filledIndex idx \<Longrightarrow>
    (if isDeleted r then ret () else linkClassRef order idx a r) db = (Inr (), db)"
  using reorders_simps(3) [of order]
  by (auto simp: classMatches_def classAt_def filledIndex_def linkClassRef_def split: option.splits) (metis length_0_conv)

lemma relink_rows:
  assumes "joining 2 1 7 as bs db (ds @ rs) ts es" "reorders order" "filledIndex idx" "\<forall>name. set (classAt idx name) \<subseteq> set bs"
    and "\<forall>r\<in>set rs. \<forall>k\<in>set (classMatches order idx bs r). (rowId r, of_nat k) \<in> edgeEnds ` set es" "\<exists>r\<in>set rs. classMatches order idx bs r \<noteq> []"
  shows "fst (forEachCell 2 (linkClassRef order idx) (drop (length ds) as) db) = Inl AssertFail"
  using assms
proof (induction rs arbitrary: ds)
  case (Cons r rs)
  have i: "length ds < length (ds @ r # rs)" "(ds @ r # rs) ! length ds = r" by simp_all
  have "length as = length ds + Suc (length rs)" using joining_bounds [OF Cons.prems(1)] by simp
  then have as: "drop (length ds) as = as ! length ds # drop (length (ds @ [r])) as" by (simp add: Cons_nth_drop_Suc)
  have cell: "cellRow (tableOf 2 db) (as ! length ds) = Inr r" using cellRow_joining [OF Cons.prems(1) i(1)] i(2) by simp
  show ?case
  proof (cases "classMatches order idx bs r = []")
    case True
    then have "fst (forEachCell 2 (linkClassRef order idx) (drop (length (ds @ [r])) as) db) = Inl AssertFail"
      using Cons.prems by (intro Cons.IH) auto
    with forEachCell_live [where func = "linkClassRef order idx", OF cell linkClassRef_none [OF True Cons.prems(2,3)]] show ?thesis unfolding as by simp
  next
    case False
    with linkClassRef_exists [OF Cons.prems(1) i(1) Cons.prems(2,4)] Cons.prems(5) i(2) have
      "\<not> isDeleted r" "fst (linkClassRef order idx (as ! length ds) r db) = Inl AssertFail" by simp_all
    then show ?thesis unfolding as by (simp add: cell andThen_fails)
  qed
qed simp

text \<open>Linking a call graph that was linked before, as every later run on the same data directory does, fails an
  assertion of the edge table as soon as one reference has a match: the edges are not removed and
  their keys are taken.\<close>

lemma callgraph_relink_fails:
  assumes "joining 2 1 7 as bs db rs ts es" "reorders order" "r \<in> set rs" "t \<in> set ts" "sameClass r t"
    and "\<forall>r\<in>set rs. \<forall>t\<in>set ts. sameClass r t \<longrightarrow> (rowId r, rowId t) \<in> edgeEnds ` set es"
  shows "\<exists>idx. createClassnameIndex db = Inr idx \<and> fst (linkClassRefs order idx db) = Inl AssertFail"
proof -
  from class_index_of [OF assms(1)] obtain idx where idx: "createClassnameIndex db = Inr idx" by blast
  note m = classMatches_set [OF assms(1,2) idx]
  have as: "autoIncrementIndex (tableOf 2 db) = as" using assms(1) by (simp add: joining_def cells_def)
  obtain k where k: "k < length ts" "t = ts ! k" using assms(4) by (auto simp: in_set_conv_nth)
  then have "k \<in> set (classMatches order idx bs r)" using m assms(5) by simp
  then have "classMatches order idx bs r \<noteq> []" by auto
  then have "\<exists>r\<in>set rs. classMatches order idx bs r \<noteq> []" using assms(3) by blast
  moreover have "\<forall>r\<in>set rs. \<forall>k\<in>set (classMatches order idx bs r). (rowId r, of_nat k) \<in> edgeEnds ` set es"
    using m assms(6) joining_ids(2) [OF assms(1)] by (metis (mono_tags, lifting) mem_Collect_eq nth_mem)
  ultimately have "fst (forEachCell 2 (linkClassRef order idx) as db) = Inl AssertFail"
    using m assms(1,2) relink_rows [of as bs db "[]" rs ts es order idx] by simp
  then show ?thesis using idx by (simp add: linkClassRefs_def forEachIn_def as)
qed

lemma callgraph_relink_fails_witness:
  "\<exists>db idx. rowsOf (tableOf 2 db) = Inr [sampleRef] \<and> createClassnameIndex db = Inr idx \<and> fst (linkClassRefs rev idx db) = Inl AssertFail"
proof -
  obtain db where ok: "graphOk db sampleRows" using sample_graph by blast
  have rows: "sampleRows ! 1 = [sampleClass]" "sampleRows ! 2 = [sampleRef]" by simp_all
  obtain as bs where j: "joining 2 1 7 as bs db [sampleRef] [sampleClass] []" using graphOk_joining [OF ok, of 2 1 7] unfolding rows by simp
  from join_addEdge [OF j, of 0 0 0] obtain db' where db': "joining 2 1 7 as bs db' [sampleRef] [sampleClass] [edgeBody 0 0 0]" by auto
  then have "rowsOf (tableOf 2 db') = Inr [sampleRef]" using rowsOf_cells by (auto simp: joining_def)
  moreover have "reorders rev" by (simp add: reorders_def)
  from callgraph_relink_fails [OF db' this _ _ sample_same] have "\<exists>idx. createClassnameIndex db' = Inr idx \<and> fst (linkClassRefs rev idx db') = Inl AssertFail"
    by (simp add: sampleRef_def sampleClass_def)
  ultimately show ?thesis by blast
qed

end
