(* ===== verification/Graph_Nodes.thy ===== *)
theory Graph_Nodes
  imports Graph_Link Attributes
begin

text \<open>
  Filling the call-graph tables from a parsed class (\<^verbatim>\<open>domain/graph/ClassfileProcessor.cpp\<close>): a row per
  method, field and reference of the constant pool, with its texts in the string pool.  The
  constructor of a row sets its owner, the identifier of the class; every other column starts at
  zero.  A row is allocated before its texts are interned and entered afterwards.
\<close>

section \<open>Rows\<close>

definition nodeRow :: "bytes \<Rightarrow> table_row" where
  "nodeRow body = \<lparr>rowFlags = 0, rowId = - 1, rowBody = body\<rparr>"

definition methodBody :: "u8 \<Rightarrow> u8 \<Rightarrow> u8 \<Rightarrow> bytes" where
  "methodBody owner name descriptor = putU8 owner @ putU8 0 @ putU8 name @ putU8 descriptor @ putU8 0"

definition fieldBody :: "u8 \<Rightarrow> u8 \<Rightarrow> u8 \<Rightarrow> bytes" where
  "fieldBody owner name descriptor = putU8 owner @ putU8 0 @ putU8 name @ putU8 descriptor @ putU8 0 @ putU8 0"

definition classRefBody :: "u8 \<Rightarrow> u8 \<Rightarrow> bytes" where
  "classRefBody owner name = putU8 owner @ putU8 name @ putU8 0"

definition memberRefBody :: "u8 \<Rightarrow> u8 \<Rightarrow> u8 \<Rightarrow> u8 \<Rightarrow> bytes" where
  "memberRefBody owner classname name descriptor = putU8 owner @ putU8 classname @ putU8 name @ putU8 descriptor @ putU8 0"

text \<open>\<^verbatim>\<open>getPoolString\<close> of a text of the constant pool.\<close>

definition internText :: "nat \<Rightarrow> string result \<Rightarrow> (database, u8) prog" where
  "internText block s = andThen (liftR s) (\<lambda>s. andThen (getPoolString block s) (\<lambda>h. ret (of_nat h)))"

definition enterNode :: "nat \<Rightarrow> nat \<Rightarrow> bytes \<Rightarrow> (database, unit) prog" where
  "enterNode j a body = onTable j (\<lambda>key. andThen (assign a (nodeRow body)) (\<lambda>_. andThen (addOrUpdate key a) (\<lambda>_. ret ())))"

definition addNode :: "nat \<Rightarrow> bytes \<Rightarrow> (database, bytes) prog \<Rightarrow> (database, unit) prog" where
  "addNode j blank fill = andThen (onTable j (\<lambda>_. newRow (nodeRow blank))) (\<lambda>a. andThen fill (enterNode j a))"

section \<open>Extraction\<close>

definition recordMethod :: "nat \<Rightarrow> u8 \<Rightarrow> constant_pool \<Rightarrow> member_info \<Rightarrow> (database, unit) prog" where
  "recordMethod block owner cp methodInfo = addNode 3 (methodBody owner 0 0)
     (andThen (internText block (getString cp (nameIndex methodInfo) False)) (\<lambda>name.
      andThen (internText block (getString cp (descriptorIndex methodInfo) False)) (\<lambda>descriptor.
      ret (methodBody owner name descriptor))))"

definition recordMethods :: "nat \<Rightarrow> u8 \<Rightarrow> class_file_parser \<Rightarrow> (database, unit) prog" where
  "recordMethods block owner parser = forAll (recordMethod block owner (constantPool parser)) (methods parser)"

definition recordField :: "nat \<Rightarrow> u8 \<Rightarrow> constant_pool \<Rightarrow> member_info \<Rightarrow> (database, unit) prog" where
  "recordField block owner cp fieldInfo = addNode 5 (fieldBody owner 0 0)
     (andThen (internText block (getString cp (nameIndex fieldInfo) False)) (\<lambda>name.
      andThen (internText block (getString cp (descriptorIndex fieldInfo) False)) (\<lambda>descriptor.
      ret (fieldBody owner name descriptor))))"

definition recordFields :: "nat \<Rightarrow> u8 \<Rightarrow> class_file_parser \<Rightarrow> (database, unit) prog" where
  "recordFields block owner parser = forAll (recordField block owner (constantPool parser)) (classFields parser)"

definition recordClassRef :: "nat \<Rightarrow> u8 \<Rightarrow> constant_pool \<Rightarrow> u2 \<Rightarrow> (database, unit) prog" where
  "recordClassRef block owner cp index = addNode 2 (classRefBody owner 0)
     (andThen (internText block (getString cp index False)) (\<lambda>name. ret (classRefBody owner name)))"

definition commonRecordMethodRef :: "nat \<Rightarrow> u8 \<Rightarrow> constant_pool \<Rightarrow> u2 \<Rightarrow> u2 \<Rightarrow> (database, unit) prog" where
  "commonRecordMethodRef block owner cp classIndex nameAndTypeIndex =
     andThen (liftR (bindR (getEntry cp nameAndTypeIndex) nameAndTypeInfo)) (\<lambda>(n, d).
     addNode 4 (memberRefBody owner 0 0 0)
       (andThen (internText block (getClassInfoName cp classIndex)) (\<lambda>classname.
        andThen (internText block (getString cp n False)) (\<lambda>name.
        andThen (internText block (getString cp d False)) (\<lambda>descriptor.
        ret (memberRefBody owner classname name descriptor))))))"

definition recordFieldRef :: "nat \<Rightarrow> u8 \<Rightarrow> constant_pool \<Rightarrow> u2 \<Rightarrow> u2 \<Rightarrow> (database, unit) prog" where
  "recordFieldRef block owner cp classIndex nameAndTypeIndex = addNode 6 (memberRefBody owner 0 0 0)
     (andThen (internText block (getClassInfoName cp classIndex)) (\<lambda>classname.
      andThen (liftR (bindR (getEntry cp nameAndTypeIndex) nameAndTypeInfo)) (\<lambda>(n, d).
      andThen (internText block (getString cp n False)) (\<lambda>name.
      andThen (internText block (getString cp d False)) (\<lambda>descriptor.
      ret (memberRefBody owner classname name descriptor))))))"

fun recordRef :: "nat \<Rightarrow> u8 \<Rightarrow> constant_pool \<Rightarrow> constant_pool_record \<Rightarrow> (database, unit) prog" where
  "recordRef block owner cp (MethodrefInfo c n) = commonRecordMethodRef block owner cp c n"
| "recordRef block owner cp (ClassInfo n) = recordClassRef block owner cp n"
| "recordRef block owner cp (InterfaceMethodrefInfo c n) = commonRecordMethodRef block owner cp c n"
| "recordRef block owner cp (FieldrefInfo c n) = recordFieldRef block owner cp c n"
| "recordRef block owner cp entry = ret ()"

text \<open>The loop over the constant pool need not return: \<^verbatim>\<open>getNextIndex\<close> wraps around at 65536 slots.\<close>

definition stepRef :: "nat \<Rightarrow> u8 \<Rightarrow> constant_pool \<Rightarrow> u2 \<Rightarrow> (database, unit) prog" where
  "stepRef block owner cp index = andThen (liftR (getEntry cp index)) (recordRef block owner cp)"

partial_function (option) recordRefsFrom :: "nat \<Rightarrow> u8 \<Rightarrow> constant_pool \<Rightarrow> u2 \<Rightarrow> database \<Rightarrow> (unit result \<times> database) option" where
  "recordRefsFrom block owner cp index db =
     (if index < getPoolSize cp then
        (case stepRef block owner cp index db of (r, db') \<Rightarrow>
         (case r of Inl e \<Rightarrow> Some (Inl e, db')
          | Inr _ \<Rightarrow> Option.bind (getNextIndex cp index) (\<lambda>i. recordRefsFrom block owner cp i db')))
      else Some (Inr (), db))"

definition recordRefs :: "nat \<Rightarrow> u8 \<Rightarrow> class_file_parser \<Rightarrow> database \<Rightarrow> (unit result \<times> database) option" where
  "recordRefs block owner parser = recordRefsFrom block owner (constantPool parser) 1"

definition extractNodes :: "nat \<Rightarrow> u8 \<Rightarrow> class_file_parser \<Rightarrow> database \<Rightarrow> (unit result \<times> database) option" where
  "extractNodes block owner parser db =
     (case andThen (recordMethods block owner parser) (\<lambda>_. recordFields block owner parser) db of
        (Inl e, db') \<Rightarrow> Some (Inl e, db')
      | (Inr _, db') \<Rightarrow> recordRefs block owner parser db')"

section \<open>Steps on a well-formed database\<close>

definition graphState :: "database \<Rightarrow> file_system \<Rightarrow> table_row list list \<Rightarrow> string list list \<Rightarrow> bool" where
  "graphState db fs rss kss \<longleftrightarrow> databaseOk db fs rss kss \<and> map keyOf (dbTables db) = callGraphKeys \<and>
     (\<forall>j<10. rowSize (tableOf j db) = sizeOf (graphLayouts ! j)) \<and> length (pool (dbPool db)) < 2 ^ 64 \<and> poolSize (dbPool db) < 2 ^ 64"

lemma graphState_length: "graphState db fs rss kss \<Longrightarrow> length (dbTables db) = 10 \<and> length rss = 10 \<and> length kss = 10"
proof -
  assume g: "graphState db fs rss kss"
  then have "map keyOf (dbTables db) = callGraphKeys" by (simp add: graphState_def)
  from arg_cong [OF this, of length] show ?thesis using g by (simp add: callGraphKeys_def graphState_def databaseOk_def)
qed

lemma graphState_table:
  assumes "graphState db fs rss kss" "j < 10"
  shows "tableRep (keyAt db j) (tableOf j db) (rss ! j) (kss ! j)" "synced (tableOf j db) (rss ! j) fs" "schemaOk (tableOf j db)"
  using assms graphState_length [OF assms(1)] by (simp_all add: graphState_def databaseOk_def keyAt_def Let_def)

lemma graphState_set:
  assumes g: "graphState db fs rss kss" and j: "j < 10"
    and t: "tableRep (keyAt db j) t rs ks" "synced t rs fs" "schemaOk t" "tableFilename t = tableFilename (tableOf j db)" "rowSize t = rowSize (tableOf j db)"
    and rs: "length (rss ! j) \<le> length rs" "\<forall>i<length (rss ! j). rowBody (rs ! i) = rowBody (rss ! j ! i)"
  shows "graphState (setTable j t db) fs (rss[j := rs]) (kss[j := ks])"
proof -
  have len: "length (dbTables db) = 10" using graphState_length [OF g] by simp
  then have jl: "j < length (dbTables db)" using j by simp
  have ok: "databaseOk db fs rss kss" "map keyOf (dbTables db) = callGraphKeys" using g by (simp_all add: graphState_def)
  have "map keyOf (dbTables (setTable j t db)) = callGraphKeys" using shapeOf_keys [OF shapeOf_same [OF sameShape_set [OF t(4,5)]]] ok(2) by simp
  moreover have "rowSize (tableOf k (setTable j t db)) = sizeOf (graphLayouts ! k)" if "k < 10" for k
    using that g t(5) tableOf_set(1) [OF jl] by (simp add: graphState_def)
  moreover have "dbPool (setTable j t db) = dbPool db" by (simp add: setTable_def)
  ultimately show ?thesis using callGraphDb.databaseOk_table [OF ok jl t rs] g by (simp add: graphState_def)
qed

lemma synced_heap: "synced (t\<lparr>heap := h, nextAddress := n\<rparr>) rs fs \<longleftrightarrow> synced t rs fs"
proof -
  have "schemaImage (t\<lparr>heap := h, nextAddress := n\<rparr>) = schemaImage t" by (simp add: schemaImage_def putHeader_def)
  then show ?thesis by (simp add: synced_def cong: option.case_cong)
qed

lemma alloc_ok:
  assumes g: "graphState db fs rss kss" and j: "j < 10"
  shows "\<exists>a db'. onTable j (\<lambda>_. newRow r) db = (Inr a, db') \<and> graphState db' fs rss kss \<and> allocated (tableOf j db') a r \<and>
    dbPool db' = dbPool db \<and> (\<forall>k. k \<noteq> j \<longrightarrow> tableOf k db' = tableOf k db) \<and> length (dbTables db') = length (dbTables db)"
proof -
  let ?t = "tableOf j db" let ?a = "nextAddress ?t"
  let ?t1 = "?t\<lparr>heap := (heap ?t)(?a \<mapsto> Holds r), nextAddress := ?a + 1\<rparr>"
  note t = graphState_table [OF g j]
  have jl: "j < length (dbTables db)" using graphState_length [OF g] j by simp
  have idx: "autoIncrementIndex ?t ! i \<noteq> ?a" if "i < length (rss ! j)" for i
    using t(1) that unfolding tableRep_def by (metis nth_mem less_irrefl)
  have rep: "tableRep (keyAt db j) ?t1 (rss ! j) (kss ! j)" using t(1) idx by (auto simp: tableRep_def less_Suc_eq)
  moreover have "synced ?t1 (rss ! j) fs" "schemaOk ?t1" using t(2,3) synced_heap by (simp_all add: schemaOk_def)
  ultimately have "graphState (setTable j ?t1 db) fs (rss[j := rss ! j]) (kss[j := kss ! j])" by (intro graphState_set [OF g j]) simp_all
  moreover have "onTable j (\<lambda>_. newRow r) db = (Inr ?a, setTable j ?t1 db)" by (rule onTable_run) (simp add: newRow_def allocateRow_def)
  moreover have "allocated ?t1 ?a r" using t(1) by (auto simp: allocated_def tableRep_def)
  ultimately show ?thesis using tableOf_set(1,2) [OF jl]
    by (intro exI [of _ ?a] exI [of _ "setTable j ?t1 db"]) (simp add: setTable_def)
qed

lemma poolExtends_trans: "poolExtends p q \<Longrightarrow> poolExtends q r \<Longrightarrow> poolExtends p r"
  by (auto simp: poolExtends_def)

text \<open>Interning a text on a well-formed pool with room for it.\<close>

definition poolOk :: "string_pool \<Rightarrow> bool" where
  "poolOk p \<longleftrightarrow> (\<exists>ts. poolRep p ([] # ts)) \<and> length (pool p) < 2 ^ 64 \<and> poolSize p < 2 ^ 64"

lemma getPoolString_ok:
  assumes p: "poolOk (dbPool db)" and s: "NUL \<notin> set s" "length s + 1 \<le> poolRoom (dbPool db)"
  shows "\<exists>i q. getPoolString block s db = (Inr i, db\<lparr>dbPool := q\<rparr>) \<and> internText block (Inr s) db = (Inr (of_nat i), db\<lparr>dbPool := q\<rparr>) \<and>
    getCString q (unat (of_nat i :: u8)) = Inr s \<and> poolExtends (dbPool db) q \<and> poolRoom (dbPool db) \<le> poolRoom q + length s + 1 \<and>
    length (pool q) < 2 ^ 64 \<and> poolSize q < 2 ^ 64"
proof -
  let ?p = "dbPool db"
  obtain ts where ts: "poolRep ?p ([] # ts)" using p by (auto simp: poolOk_def)
  have sizes: "length (pool ?p) < 2 ^ 64" "poolSize ?p < 2 ^ 64" and fits: "length (pool ?p) + length s < poolSize ?p"
    using p s(2) by (auto simp: poolOk_def poolRoom_def)
  obtain i q where q: "addString block s ?p = (Inr i, q)" "getCString q i = Inr s" "poolRoom ?p \<le> poolRoom q + length s + 1"
    "length (pool q) < 2 ^ 64" "poolSize q < 2 ^ 64" "poolExtends ?p q"
  proof (cases "s \<in> set ([] # ts)")
    case True
    from addString_old [OF ts True, of block] obtain i where "poolIndex ([] # ts) s = Some i" "addString block s ?p = (Inr i, ?p)" by blast
    then show ?thesis using that [of i ?p] getCString_index [OF ts] sizes by simp
  next
    case False
    from addString_new [OF ts False s(1) fits, of block] obtain q where q: "addString block s ?p = (Inr (length (pool ?p)), q)"
      "poolRep q (([] # ts) @ [s])" "poolSize q = poolSize ?p" "length (pool q) = length (pool ?p) + length s + 1" by blast
    have "poolIndex (([] # ts) @ [s]) s = Some (length (pool ?p))" using ts False s(1) by (intro trans [OF poolIndex_new]) (simp_all add: poolRep_def)
    then have "getCString q (length (pool ?p)) = Inr s" by (rule getCString_index [OF q(2)])
    moreover have "poolExtends ?p q" using ts q(2) by (simp add: poolRep_def poolExtends_def)
    ultimately show ?thesis using that [OF q(1)] q(3,4) sizes fits by (simp add: poolRoom_def)
  qed
  have run: "getPoolString block s db = (Inr i, db\<lparr>dbPool := q\<rparr>)" using q(1) by (simp add: getPoolString_def)
  have "i < length (pool q)" using q(2) by (cases "i < length (pool q)") (auto simp: getCString_def cString_def split: if_splits)
  then have "unat (of_nat i :: u8) = i" using q(4) by (simp add: unat_of_nat_less)
  then show ?thesis using run q(2-6) by (intro exI [of _ i] exI [of _ q]) (simp add: internText_def)
qed

lemma intern_ok:
  assumes g: "graphState db fs rss kss" and s: "NUL \<notin> set s" "length s + 1 \<le> poolRoom (dbPool db)"
  shows "\<exists>h db'. internText block (Inr s) db = (Inr h, db') \<and> graphState db' fs rss kss \<and> dbTables db' = dbTables db \<and>
    getCString (dbPool db') (unat h) = Inr s \<and> poolExtends (dbPool db) (dbPool db') \<and>
    poolRoom (dbPool db) \<le> poolRoom (dbPool db') + length s + 1"
proof -
  have ok: "databaseOk db fs rss kss" "map keyOf (dbTables db) = callGraphKeys" using g by (simp_all add: graphState_def)
  have "poolOk (dbPool db)" using g by (auto simp: graphState_def databaseOk_def poolOk_def)
  from getPoolString_ok [OF this s, of block] obtain i q where q: "getPoolString block s db = (Inr i, db\<lparr>dbPool := q\<rparr>)"
    "internText block (Inr s) db = (Inr (of_nat i), db\<lparr>dbPool := q\<rparr>)" "getCString q (unat (of_nat i :: u8)) = Inr s" "poolExtends (dbPool db) q"
    "poolRoom (dbPool db) \<le> poolRoom q + length s + 1" "length (pool q) < 2 ^ 64" "poolSize q < 2 ^ 64" by blast
  have "graphState (db\<lparr>dbPool := q\<rparr>) fs rss kss" using callGraphDb.databaseOk_intern [OF ok q(1) s] g q(6,7) by (simp add: graphState_def)
  then show ?thesis using q(2-5) by (intro exI [of _ "of_nat i"] exI [of _ "db\<lparr>dbPool := q\<rparr>"]) simp
qed

lemma addOrUpdate_addRow:
  assumes "tableRep key t rs ks" "allocated t a r" "k \<notin> set ks" "key r = Inr k" "key (r\<lparr>rowId := of_nat (length rs)\<rparr>) = Inr k"
    and "length (rowBody r) + 16 = rowSize t" "length rs + 1 < 2 ^ 64"
  shows "addOrUpdate key a t = addRow key a t"
proof -
  from internalAdd_rep [OF assms(1,2,3,5,6,7)] obtain t1 where t1: "internalAdd a k t = (Inr (), t1)"
    "heap t1 a = Some (Holds (r\<lparr>rowId := of_nat (length rs)\<rparr>))" by blast
  have "heap t a = Some (Holds r)" "map_of (tableRows t) k = None"
    using assms(2,3) map_of_rep_None [OF assms(1)] by (auto simp: allocated_def)
  then show ?thesis using t1 assms(4) by (simp add: addOrUpdate_def addRow_def markNew_def)
qed

lemma ownerTables_body: "j < 10 \<Longrightarrow> rowBody r' = rowBody r \<Longrightarrow> (callGraphKeys ! j) p lk r' = (callGraphKeys ! j) p lk r"
  using callGraphDb.key_body [of j r' r p lk] by (simp add: callGraphKeys_def)

lemma enter_ok:
  assumes g: "graphState db fs rss kss" and j10: "j < 10" and a: "allocated (tableOf j db) a r0"
    and body: "length body + 16 = sizeOf (graphLayouts ! j)" and k: "keyAt db j (nodeRow body) = Inr k" and room: "length (rss ! j) + 1 < 2 ^ 64"
  shows "k \<notin> set (kss ! j) \<Longrightarrow> \<exists>db'. enterNode j a body db = (Inr (), db') \<and> dbPool db' = dbPool db \<and>
      graphState db' fs (rss[j := rss ! j @ [nodeRow body\<lparr>rowId := of_nat (length (rss ! j))\<rparr>]]) (kss[j := kss ! j @ [k]]) \<and>
      (\<forall>i. i \<noteq> j \<longrightarrow> tableOf i db' = tableOf i db) \<and> length (dbTables db') = length (dbTables db)"
    and "k \<in> set (kss ! j) \<Longrightarrow> fst (enterNode j a body db) = Inl Undefined"
proof -
  let ?t = "tableOf j db" and ?r = "nodeRow body" let ?t1 = "?t\<lparr>heap := (heap ?t)(a \<mapsto> Holds ?r)\<rparr>" let ?key = "keyAt db j"
  note t = graphState_table [OF g j10]
  have jl: "j < length (dbTables db)" using graphState_length [OF g] j10 by simp
  have key: "?key r' = ?key r" if "rowBody r' = rowBody r" for r r'
  proof -
    have "keyOf (dbTables db ! j) = callGraphKeys ! j" using g jl by (metis graphState_def nth_map)
    then show ?thesis using ownerTables_body [OF j10 that] by (simp add: keyAt_def)
  qed
  have idx: "autoIncrementIndex ?t ! i \<noteq> a" if "i < length (rss ! j)" for i
    using a t(1) that unfolding allocated_def tableRep_def by (metis nth_mem)
  have rep: "tableRep ?key ?t1 (rss ! j) (kss ! j)" using t(1) idx by (auto simp: tableRep_def)
  have alloc: "allocated ?t1 a ?r" "heap ?t a \<noteq> None" using a by (auto simp: allocated_def)
  have size: "length (rowBody ?r) + 16 = rowSize ?t1" using body g j10 by (simp add: nodeRow_def graphState_def)
  have assign: "assign a ?r ?t = (Inr (), ?t1)" using alloc(2) by auto
  { assume new: "k \<notin> set (kss ! j)"
    have k': "?key (?r\<lparr>rowId := of_nat (length (rss ! j))\<rparr>) = Inr k" using k key [of "?r\<lparr>rowId := of_nat (length (rss ! j))\<rparr>" ?r] by simp
    note fresh = rep alloc(1) new k k' size room
    from addRow_rep [OF fresh] obtain t2 where t2: "addRow ?key a ?t1 = (Inr (of_nat (length (rss ! j))), t2)"
      "tableRep ?key t2 (rss ! j @ [?r\<lparr>rowId := of_nat (length (rss ! j))\<rparr>]) (kss ! j @ [k])"
      "t2 = ?t1\<lparr>heap := (heap ?t1)(a \<mapsto> Holds (?r\<lparr>rowId := of_nat (length (rss ! j))\<rparr>)), tableRows := (k, a) # tableRows ?t1,
        autoIncrementIndex := autoIncrementIndex ?t1 @ [a], isDirty := True, dirtyRows := (dirtyRows ?t1)(of_nat (length (rss ! j)) \<mapsto> IsNew)\<rparr>" by blast
    have "synced t2 (rss ! j @ [?r\<lparr>rowId := of_nat (length (rss ! j))\<rparr>]) fs"
      by (rule synced_add [OF t(2), where d = IsNew]) (use t2(3) room in \<open>simp_all add: schemaImage_def putHeader_def\<close>)
    moreover have "schemaOk t2" "tableFilename t2 = tableFilename ?t" "rowSize t2 = rowSize ?t" using t(3) t2(3) by (simp_all add: schemaOk_def)
    ultimately have "graphState (setTable j t2 db) fs (rss[j := rss ! j @ [?r\<lparr>rowId := of_nat (length (rss ! j))\<rparr>]]) (kss[j := kss ! j @ [k]])"
      by (intro graphState_set [OF g j10 t2(2)]) (simp_all add: nth_append)
    moreover have "enterNode j a body db = (Inr (), setTable j t2 db)" unfolding enterNode_def
      by (rule onTable_run) (use assign t2(1) addOrUpdate_addRow [OF fresh] in simp)
    ultimately show "\<exists>db'. enterNode j a body db = (Inr (), db') \<and> dbPool db' = dbPool db \<and>
      graphState db' fs (rss[j := rss ! j @ [nodeRow body\<lparr>rowId := of_nat (length (rss ! j))\<rparr>]]) (kss[j := kss ! j @ [k]]) \<and>
      (\<forall>i. i \<noteq> j \<longrightarrow> tableOf i db' = tableOf i db) \<and> length (dbTables db') = length (dbTables db)"
      using tableOf_set(1,2) [OF jl] by (intro exI [of _ "setTable j t2 db"]) (simp add: setTable_def) }
  { assume old: "k \<in> set (kss ! j)"
    from addOrUpdate_stale [OF rep alloc(1) k old] show "fst (enterNode j a body db) = Inl Undefined"
      unfolding enterNode_def by (intro onTable_fails) (use assign in \<open>simp add: andThen_fails\<close>) }
qed

section \<open>Nodes and their texts\<close>

text \<open>A node is the table it goes to and its texts, in the order of the columns \<open>textColumns\<close>.\<close>

type_synonym node = "nat \<times> string list"

definition textColumns :: "nat \<Rightarrow> string list" where
  "textColumns j = (if j = 2 then [''name''] else if j = 3 \<or> j = 5 then [''name'', ''descriptor''] else [''classname'', ''name'', ''descriptor''])"

definition bodyOf :: "nat \<Rightarrow> u8 \<Rightarrow> u8 list \<Rightarrow> bytes" where
  "bodyOf j owner hs =
     (if j = 2 then classRefBody owner (hs ! 0)
      else if j = 3 then methodBody owner (hs ! 0) (hs ! 1)
      else if j = 5 then fieldBody owner (hs ! 0) (hs ! 1)
      else memberRefBody owner (hs ! 0) (hs ! 1) (hs ! 2))"

definition nameOf :: "node \<Rightarrow> string" where
  "nameOf n = snd n ! (if fst n \<in> {4, 6} then 1 else 0)"

definition nodeOk :: "node \<Rightarrow> bool" where
  "nodeOk n \<longleftrightarrow> fst n \<in> {2..6} \<and> length (snd n) = length (textColumns (fst n)) \<and> (\<forall>s\<in>set (snd n). NUL \<notin> set s)"

definition nodeRoom :: "node \<Rightarrow> nat" where
  "nodeRoom n = (\<Sum>s\<leftarrow>snd n. length s + 1)"

definition texts :: "database \<Rightarrow> u8 list \<Rightarrow> string list \<Rightarrow> bool" where
  "texts db hs ss \<longleftrightarrow> list_all2 (\<lambda>h s. getCString (dbPool db) (unat h) = Inr s) hs ss"

text \<open>A program that interns the texts \<open>ss\<close> and returns a body made of their handles.\<close>

definition interns :: "string list \<Rightarrow> (database, bytes) prog \<Rightarrow> (u8 list \<Rightarrow> bytes) \<Rightarrow> bool" where
  "interns ss fill B \<longleftrightarrow> (\<forall>db fs rss kss. graphState db fs rss kss \<longrightarrow> (\<forall>s\<in>set ss. NUL \<notin> set s) \<longrightarrow>
     (\<Sum>s\<leftarrow>ss. length s + 1) \<le> poolRoom (dbPool db) \<longrightarrow>
     (\<exists>hs db'. fill db = (Inr (B hs), db') \<and> graphState db' fs rss kss \<and> dbTables db' = dbTables db \<and> texts db' hs ss \<and>
        poolExtends (dbPool db) (dbPool db') \<and> poolRoom (dbPool db) \<le> poolRoom (dbPool db') + (\<Sum>s\<leftarrow>ss. length s + 1)))"

lemma texts_extend: "texts db hs ss \<Longrightarrow> poolExtends (dbPool db) (dbPool db') \<Longrightarrow> texts db' hs ss"
  unfolding texts_def by (erule list_all2_mono) (erule getCString_extends)

lemma interns_ret: "interns [] (ret (B [])) B"
  by (force simp: interns_def texts_def)

lemma interns_text:
  assumes "\<And>h. interns ss (cont h) (\<lambda>hs. B (h # hs))"
  shows "interns (s # ss) (andThen (internText block (Inr s)) cont) B"
  unfolding interns_def
proof (intro allI impI)
  fix db fs rss kss
  assume g: "graphState db fs rss kss" and nul: "\<forall>t\<in>set (s # ss). NUL \<notin> set t" and room: "(\<Sum>t\<leftarrow>s # ss. length t + 1) \<le> poolRoom (dbPool db)"
  from intern_ok [OF g, of s block] nul room obtain h db1 where db1: "internText block (Inr s) db = (Inr h, db1)" "graphState db1 fs rss kss"
    "dbTables db1 = dbTables db" "getCString (dbPool db1) (unat h) = Inr s" "poolExtends (dbPool db) (dbPool db1)"
    "poolRoom (dbPool db) \<le> poolRoom (dbPool db1) + length s + 1" by auto
  from assms [of h, unfolded interns_def, rule_format, OF db1(2)] nul room db1(6) obtain hs db2 where
    db2: "cont h db1 = (Inr (B (h # hs)), db2)" "graphState db2 fs rss kss" "dbTables db2 = dbTables db1" "texts db2 hs ss"
      "poolExtends (dbPool db1) (dbPool db2)" "poolRoom (dbPool db1) \<le> poolRoom (dbPool db2) + (\<Sum>t\<leftarrow>ss. length t + 1)" by auto
  have "texts db2 (h # hs) (s # ss)" using db2(4) getCString_extends [OF db1(4) db2(5)] by (simp add: texts_def)
  then show "\<exists>hs db'. andThen (internText block (Inr s)) cont db = (Inr (B hs), db') \<and> graphState db' fs rss kss \<and> dbTables db' = dbTables db \<and>
      texts db' hs (s # ss) \<and> poolExtends (dbPool db) (dbPool db') \<and> poolRoom (dbPool db) \<le> poolRoom (dbPool db') + (\<Sum>t\<leftarrow>s # ss. length t + 1)"
    using db1 db2 poolExtends_trans [OF db1(5) db2(5)] by (intro exI [of _ "h # hs"] exI [of _ db2]) simp
qed

text \<open>The name of the owner, which rows added to other tables and to the pool keep.\<close>

definition ownedBy :: "database \<Rightarrow> u8 \<Rightarrow> string \<Rightarrow> bool" where
  "ownedBy db owner strong \<longleftrightarrow> getStrongClassnameById 0 1 (dbPool db) (dbLookup db) owner = Inr strong"

lemma ownedBy_extend:
  assumes "ownedBy db owner strong" "poolExtends (dbPool db) (dbPool db')" "tableOf 0 db' = tableOf 0 db" "tableOf 1 db' = tableOf 1 db"
    and "length (dbTables db') = length (dbTables db)"
  shows "ownedBy db' owner strong"
proof -
  have "dbLookup db' 0 = dbLookup db 0" "dbLookup db' 1 = dbLookup db 1" using assms(3-5) by (auto simp: dbLookup_def fun_eq_iff)
  then show ?thesis using assms(1) getCString_extends [OF _ assms(2)]
    by (auto simp: ownedBy_def getStrongClassnameById_def getStrongClassname_def getFilename_def textColumn_def bindR_Inr_iff)
qed

lemma bodyOf_columns:
  assumes "nodeOk (j, ss)" "length hs = length ss"
  shows "length (bodyOf j owner hs) + 16 = sizeOf (graphLayouts ! j)" "column8 (graphLayouts ! j) ''ownerClass'' (nodeRow (bodyOf j owner hs)) = owner"
    "map (\<lambda>c. column8 (graphLayouts ! j) c (nodeRow (bodyOf j owner hs))) (textColumns j) = hs"
    "column8 (graphLayouts ! j) ''name'' (nodeRow (bodyOf j owner hs)) = hs ! (if j \<in> {4, 6} then 1 else 0)"
proof -
  have "j = 2 \<or> j = 3 \<or> j = 4 \<or> j = 5 \<or> j = 6" using assms(1) by (auto simp: nodeOk_def)
  moreover have "length hs = length (textColumns j)" using assms by (simp add: nodeOk_def)
  ultimately have "(length (bodyOf j owner hs) + 16 = sizeOf (graphLayouts ! j) \<and> column8 (graphLayouts ! j) ''ownerClass'' (nodeRow (bodyOf j owner hs)) = owner) \<and>
    map (\<lambda>c. column8 (graphLayouts ! j) c (nodeRow (bodyOf j owner hs))) (textColumns j) = hs \<and>
    column8 (graphLayouts ! j) ''name'' (nodeRow (bodyOf j owner hs)) = hs ! (if j \<in> {4, 6} then 1 else 0)"
    by (elim disjE) (auto simp: bodyOf_def textColumns_def graphLayouts_def layout_defs sizeOf_def column8_body nodeRow_def
        classRefBody_def methodBody_def fieldBody_def memberRefBody_def length_Suc_conv)
  then show "length (bodyOf j owner hs) + 16 = sizeOf (graphLayouts ! j)" "column8 (graphLayouts ! j) ''ownerClass'' (nodeRow (bodyOf j owner hs)) = owner"
    "map (\<lambda>c. column8 (graphLayouts ! j) c (nodeRow (bodyOf j owner hs))) (textColumns j) = hs"
    "column8 (graphLayouts ! j) ''name'' (nodeRow (bodyOf j owner hs)) = hs ! (if j \<in> {4, 6} then 1 else 0)" by simp_all
qed

definition rowTexts :: "nat \<Rightarrow> database \<Rightarrow> table_row \<Rightarrow> string list result" where
  "rowTexts j db r = mapR (\<lambda>c. textColumn (graphLayouts ! j) c (dbPool db) r) (textColumns j)"

text \<open>A live row of the owner that reads as the node.\<close>

definition readsAs :: "database \<Rightarrow> u8 \<Rightarrow> table_row \<Rightarrow> node \<Rightarrow> bool" where
  "readsAs db owner r n \<longleftrightarrow> \<not> isDeleted r \<and> column8 (graphLayouts ! fst n) ''ownerClass'' r = owner \<and> rowTexts (fst n) db r = Inr (snd n)"

abbreviation nodeKey :: "string \<Rightarrow> node \<Rightarrow> string" where
  "nodeKey strong n \<equiv> strong @ ''#'' @ nameOf n"

lemma mapR_texts: "texts db hs ss \<Longrightarrow> map f cs = hs \<Longrightarrow> mapR (\<lambda>c. getCString (dbPool db) (unat (f c))) cs = Inr ss"
  by (induction cs arbitrary: hs ss) (auto simp: texts_def list_all2_Cons1)

lemma column8_id: "16 \<le> offsetOf l c \<Longrightarrow> column8 l c (r\<lparr>rowId := i\<rparr>) = column8 l c r"
  by (simp add: column8_body)

lemma graphLayouts_offsets: "j \<in> {2..6} \<Longrightarrow> 16 \<le> offsetOf (graphLayouts ! j) ''ownerClass'' \<and> (\<forall>c\<in>set (textColumns j). 16 \<le> offsetOf (graphLayouts ! j) c)"
proof -
  assume "j \<in> {2..6}"
  then have "j = 2 \<or> j = 3 \<or> j = 4 \<or> j = 5 \<or> j = 6" by auto
  then show ?thesis by (elim disjE) (simp_all add: graphLayouts_def textColumns_def layout_defs)
qed

lemma reads_node:
  assumes "nodeOk n" "texts db hs (snd n)"
  shows "readsAs db owner (nodeRow (bodyOf (fst n) owner hs)\<lparr>rowId := i\<rparr>) n"
proof -
  let ?r = "nodeRow (bodyOf (fst n) owner hs)" let ?l = "graphLayouts ! fst n"
  have ok: "nodeOk (fst n, snd n)" "length hs = length (snd n)" using assms list_all2_lengthD by (auto simp: texts_def)
  have off: "16 \<le> offsetOf ?l ''ownerClass''" "\<forall>c\<in>set (textColumns (fst n)). 16 \<le> offsetOf ?l c" using graphLayouts_offsets assms(1) by (auto simp: nodeOk_def)
  have "map (\<lambda>c. column8 ?l c (?r\<lparr>rowId := i\<rparr>)) (textColumns (fst n)) = map (\<lambda>c. column8 ?l c ?r) (textColumns (fst n))" using off(2) by (simp add: column8_id)
  also have "\<dots> = hs" by (rule bodyOf_columns(3) [OF ok])
  finally have "rowTexts (fst n) db (?r\<lparr>rowId := i\<rparr>) = Inr (snd n)" using mapR_texts [OF assms(2)] by (simp add: rowTexts_def textColumn_def)
  moreover have "column8 ?l ''ownerClass'' (?r\<lparr>rowId := i\<rparr>) = owner" using column8_id [OF off(1)] bodyOf_columns(2) [OF ok] by simp
  moreover have "\<not> isDeleted (?r\<lparr>rowId := i\<rparr>)" by (simp add: isDeleted_def nodeRow_def)
  ultimately show ?thesis by (simp add: readsAs_def)
qed

lemma node_key:
  assumes "graphState db fs rss kss" "nodeOk n" "texts db hs (snd n)" "ownedBy db owner strong"
  shows "keyAt db (fst n) (nodeRow (bodyOf (fst n) owner hs)) = Inr (nodeKey strong n)"
proof -
  let ?j = "fst n" and ?p = "if fst n \<in> {4, 6} then 1 else 0 :: nat"
  have ok: "nodeOk (?j, snd n)" "length hs = length (snd n)" using assms(2,3) list_all2_lengthD by (auto simp: texts_def)
  have j: "?j = 2 \<or> ?j = 3 \<or> ?j = 4 \<or> ?j = 5 \<or> ?j = 6" using assms(2) by (auto simp: nodeOk_def)
  have "?p < length hs" using ok j by (auto simp: nodeOk_def textColumns_def)
  then have name: "getCString (dbPool db) (unat (hs ! ?p)) = Inr (nameOf n)" using assms(3) by (auto simp: texts_def list_all2_conv_all_nth nameOf_def)
  have len: "?j < length (dbTables db)" using graphState_length [OF assms(1)] j by auto
  have "keyOf (dbTables db ! ?j) = map keyOf (dbTables db) ! ?j" using len by simp
  also have "\<dots> = callGraphKeys ! ?j" using assms(1) by (simp add: graphState_def)
  also have "\<dots> = ownedKey (graphLayouts ! ?j) 0 1" using j by (auto simp: callGraphKeys_def graphLayouts_def)
  finally show ?thesis using bodyOf_columns(2,4) [OF ok, of owner] name assms(4) by (simp add: keyAt_def ownedKey_def textColumn_def ownedBy_def)
qed

lemma addNode_ok:
  assumes g: "graphState db fs rss kss" and n: "nodeOk n" "nodeRoom n \<le> poolRoom (dbPool db)" and fill: "interns (snd n) fill (bodyOf (fst n) owner)"
    and own: "ownedBy db owner strong" and room: "length (rss ! fst n) + 1 < 2 ^ 64"
  shows "nodeKey strong n \<notin> set (kss ! fst n) \<Longrightarrow> \<exists>db' r. addNode (fst n) blank fill db = (Inr (), db') \<and> readsAs db' owner r n \<and>
      graphState db' fs (rss[fst n := rss ! fst n @ [r]]) (kss[fst n := kss ! fst n @ [nodeKey strong n]]) \<and>
      ownedBy db' owner strong \<and> poolExtends (dbPool db) (dbPool db') \<and> poolRoom (dbPool db) \<le> poolRoom (dbPool db') + nodeRoom n"
    and "nodeKey strong n \<in> set (kss ! fst n) \<Longrightarrow> fst (addNode (fst n) blank fill db) = Inl Undefined"
proof -
  let ?j = "fst n"
  have j: "?j < 10" "?j \<in> {2..6}" "?j \<noteq> 0" "?j \<noteq> 1" using n(1) by (auto simp: nodeOk_def)
  from alloc_ok [OF g j(1), of "nodeRow blank"] obtain a db1 where db1: "onTable ?j (\<lambda>_. newRow (nodeRow blank)) db = (Inr a, db1)" "graphState db1 fs rss kss"
    "allocated (tableOf ?j db1) a (nodeRow blank)" "dbPool db1 = dbPool db" "\<forall>k. k \<noteq> ?j \<longrightarrow> tableOf k db1 = tableOf k db" "length (dbTables db1) = length (dbTables db)" by blast
  from fill [unfolded interns_def, rule_format, OF db1(2)] n db1(4) obtain hs db2 where db2: "fill db1 = (Inr (bodyOf ?j owner hs), db2)" "graphState db2 fs rss kss"
    "dbTables db2 = dbTables db1" "texts db2 hs (snd n)" "poolExtends (dbPool db) (dbPool db2)" "poolRoom (dbPool db) \<le> poolRoom (dbPool db2) + nodeRoom n"
    by (auto simp: nodeOk_def nodeRoom_def)
  have own2: "ownedBy db2 owner strong" using db1(5,6) db2(3) j by (intro ownedBy_extend [OF own db2(5)]) simp_all
  have alloc: "allocated (tableOf ?j db2) a (nodeRow blank)" using db1(3) db2(3) by simp
  have "length hs = length (snd n)" using db2(4) list_all2_lengthD by (auto simp: texts_def)
  then have body: "length (bodyOf ?j owner hs) + 16 = sizeOf (graphLayouts ! ?j)" using bodyOf_columns(1) [of "fst n" "snd n" hs owner] n(1) by simp
  note enter = enter_ok [OF db2(2) j(1) alloc body node_key [OF db2(2) n(1) db2(4) own2] room]
  have run: "addNode ?j blank fill db = enterNode ?j a (bodyOf ?j owner hs) db2" using db1(1) db2(1) by (simp add: addNode_def)
  { assume "nodeKey strong n \<notin> set (kss ! ?j)"
    from enter(1) [OF this] obtain db3 where db3: "enterNode ?j a (bodyOf ?j owner hs) db2 = (Inr (), db3)" "dbPool db3 = dbPool db2"
      "graphState db3 fs (rss[?j := rss ! ?j @ [nodeRow (bodyOf ?j owner hs)\<lparr>rowId := of_nat (length (rss ! ?j))\<rparr>]]) (kss[?j := kss ! ?j @ [nodeKey strong n]])"
      "\<forall>i. i \<noteq> ?j \<longrightarrow> tableOf i db3 = tableOf i db2" "length (dbTables db3) = length (dbTables db2)" by blast
    have "ownedBy db3 owner strong" using db3(2,4,5) j by (intro ownedBy_extend [OF own2]) simp_all
    moreover have "texts db3 hs (snd n)" using db2(4) db3(2) by (simp add: texts_def)
    from reads_node [OF n(1) this] have "readsAs db3 owner (nodeRow (bodyOf ?j owner hs)\<lparr>rowId := of_nat (length (rss ! ?j))\<rparr>) n" .
    ultimately show "\<exists>db' r. addNode ?j blank fill db = (Inr (), db') \<and> readsAs db' owner r n \<and>
      graphState db' fs (rss[?j := rss ! ?j @ [r]]) (kss[?j := kss ! ?j @ [nodeKey strong n]]) \<and>
      ownedBy db' owner strong \<and> poolExtends (dbPool db) (dbPool db') \<and> poolRoom (dbPool db) \<le> poolRoom (dbPool db') + nodeRoom n"
      using run db3 db2(5,6) by metis }
  { assume "nodeKey strong n \<in> set (kss ! ?j)"
    from enter(2) [OF this] show "fst (addNode ?j blank fill db) = Inl Undefined" using run by simp }
qed

text \<open>A sequence of nodes.\<close>

definition recordsNode :: "u8 \<Rightarrow> (database, unit) prog \<Rightarrow> node \<Rightarrow> bool" where
  "recordsNode owner m n \<longleftrightarrow> nodeOk n \<and> (\<exists>blank fill. m = addNode (fst n) blank fill \<and> interns (snd n) fill (bodyOf (fst n) owner))"

lemma reads_extend: "readsAs db owner r n \<Longrightarrow> poolExtends (dbPool db) (dbPool db') \<Longrightarrow> readsAs db' owner r n"
proof -
  assume r: "readsAs db owner r n" and e: "poolExtends (dbPool db) (dbPool db')"
  have "mapR (\<lambda>c. textColumn l c (dbPool db) r) cs = Inr ss \<Longrightarrow> mapR (\<lambda>c. textColumn l c (dbPool db') r) cs = Inr ss" for l cs ss
    using getCString_extends [OF _ e] by (induction cs arbitrary: ss) (auto simp: bindR_Inr_iff textColumn_def)
  then show ?thesis using r by (simp add: readsAs_def rowTexts_def)
qed

definition nodesOf :: "nat \<Rightarrow> node list \<Rightarrow> node list" where
  "nodesOf j ns = filter (\<lambda>n. fst n = j) ns"

text \<open>The tables \<open>rss\<close> with rows for the nodes added, as they read in \<open>db\<close>.\<close>

definition grown :: "database \<Rightarrow> u8 \<Rightarrow> node list \<Rightarrow> table_row list list \<Rightarrow> table_row list list \<Rightarrow> bool" where
  "grown db owner ns rss rss' \<longleftrightarrow> (\<forall>j<10. \<exists>new. rss' ! j = rss ! j @ new \<and> list_all2 (readsAs db owner) new (nodesOf j ns))"

definition keysGrown :: "string \<Rightarrow> node list \<Rightarrow> string list list \<Rightarrow> string list list \<Rightarrow> bool" where
  "keysGrown strong ns kss kss' \<longleftrightarrow> (\<forall>j<10. kss' ! j = kss ! j @ map (nodeKey strong) (nodesOf j ns))"

definition newNodes :: "string \<Rightarrow> node list \<Rightarrow> string list list \<Rightarrow> bool" where
  "newNodes strong ns kss \<longleftrightarrow> distinct (map (\<lambda>n. (fst n, nameOf n)) ns) \<and> (\<forall>n\<in>set ns. nodeKey strong n \<notin> set (kss ! fst n))"

lemma nodes_ok:
  assumes "list_all2 (recordsNode owner) ms ns" "graphState db fs rss kss" "ownedBy db owner strong" "newNodes strong ns kss"
    and "(\<Sum>n\<leftarrow>ns. nodeRoom n) \<le> poolRoom (dbPool db)" "\<forall>j<10. length (rss ! j) + length ns < 2 ^ 64"
  shows "\<exists>db' rss' kss'. forAll (\<lambda>m. m) ms db = (Inr (), db') \<and> graphState db' fs rss' kss' \<and> ownedBy db' owner strong \<and>
    grown db' owner ns rss rss' \<and> keysGrown strong ns kss kss' \<and> poolExtends (dbPool db) (dbPool db') \<and>
    poolRoom (dbPool db) \<le> poolRoom (dbPool db') + (\<Sum>n\<leftarrow>ns. nodeRoom n)"
  using assms
proof (induction ms ns arbitrary: db rss kss rule: list_all2_induct)
  case Nil
  then show ?case by (intro exI [of _ db] exI [of _ rss] exI [of _ kss]) (simp add: grown_def keysGrown_def nodesOf_def)
next
  case (Cons m ms n ns)
  obtain blank fill where m: "nodeOk n" "m = addNode (fst n) blank fill" "interns (snd n) fill (bodyOf (fst n) owner)" using Cons(1) by (auto simp: recordsNode_def)
  let ?j = "fst n" let ?k = "nodeKey strong n"
  have j: "?j < 10" using m(1) by (simp add: nodeOk_def)
  have lens: "length rss = 10" "length kss = 10" using graphState_length [OF Cons.prems(1)] by simp_all
  have "?k \<notin> set (kss ! ?j)" "nodeRoom n \<le> poolRoom (dbPool db)" "length (rss ! ?j) + 1 < 2 ^ 64" using Cons.prems(3-5) j by (auto simp: newNodes_def)
  from addNode_ok(1) [OF Cons.prems(1) m(1) this(2) m(3) Cons.prems(2) this(3,1), of blank] obtain db1 r where
    db1: "m db = (Inr (), db1)" "readsAs db1 owner r n" "graphState db1 fs (rss[?j := rss ! ?j @ [r]]) (kss[?j := kss ! ?j @ [?k]])"
      "ownedBy db1 owner strong" "poolExtends (dbPool db) (dbPool db1)" "poolRoom (dbPool db) \<le> poolRoom (dbPool db1) + nodeRoom n"
    unfolding m(2) by blast
  have "newNodes strong ns (kss[?j := kss ! ?j @ [?k]])" using Cons.prems(3) lens j by (force simp: newNodes_def nth_list_update)
  moreover have "\<forall>i<10. length (rss[?j := rss ! ?j @ [r]] ! i) + length ns < 2 ^ 64" using Cons.prems(5) lens j by (auto simp: nth_list_update)
  ultimately obtain db2 rss2 kss2 where db2: "forAll (\<lambda>m. m) ms db1 = (Inr (), db2)" "graphState db2 fs rss2 kss2" "ownedBy db2 owner strong"
    "grown db2 owner ns (rss[?j := rss ! ?j @ [r]]) rss2" "keysGrown strong ns (kss[?j := kss ! ?j @ [?k]]) kss2" "poolExtends (dbPool db1) (dbPool db2)"
    "poolRoom (dbPool db1) \<le> poolRoom (dbPool db2) + (\<Sum>n\<leftarrow>ns. nodeRoom n)"
    using Cons.IH [OF db1(3,4)] Cons.prems(4) db1(6) by auto
  have r2: "readsAs db2 owner r n" by (rule reads_extend [OF db1(2) db2(6)])
  have "grown db2 owner (n # ns) rss rss2"
    unfolding grown_def
  proof (intro allI impI)
    fix i :: nat assume i: "i < 10"
    then obtain new where new: "rss2 ! i = rss[?j := rss ! ?j @ [r]] ! i @ new" "list_all2 (readsAs db2 owner) new (nodesOf i ns)" using db2(4) by (auto simp: grown_def)
    show "\<exists>new. rss2 ! i = rss ! i @ new \<and> list_all2 (readsAs db2 owner) new (nodesOf i (n # ns))"
      using new r2 lens i by (intro exI [of _ "if i = ?j then r # new else new"]) (auto simp: nodesOf_def nth_list_update)
  qed
  moreover have "keysGrown strong (n # ns) kss kss2" using db2(5) lens by (auto simp: keysGrown_def nodesOf_def nth_list_update)
  ultimately show ?case using db1(1,6) db2 poolExtends_trans [OF db1(5) db2(6)]
    by (intro exI [of _ db2] exI [of _ rss2] exI [of _ kss2]) simp
qed

lemma forAll_append: "forAll f (xs @ ys) = andThen (forAll f xs) (\<lambda>_. forAll f ys)"
  by (induction xs) (auto simp: andThen_def fun_eq_iff split: prod.splits sum.splits)

text \<open>The first node whose table already holds its key ends the sequence.\<close>

lemma nodes_stale:
  assumes "list_all2 (recordsNode owner) ms ns" "recordsNode owner m n" "graphState db fs rss kss" "ownedBy db owner strong" "newNodes strong ns kss"
    and "(\<Sum>n\<leftarrow>ns @ [n]. nodeRoom n) \<le> poolRoom (dbPool db)" "\<forall>j<10. length (rss ! j) + length ns + 1 < 2 ^ 64"
    and "nodeKey strong n \<in> set (kss ! fst n) \<or> (\<exists>n'\<in>set ns. fst n' = fst n \<and> nameOf n' = nameOf n)"
  shows "fst (forAll (\<lambda>m. m) (ms @ m # rest) db) = Inl Undefined"
proof -
  have room: "(\<Sum>n\<leftarrow>ns. nodeRoom n) \<le> poolRoom (dbPool db)" "\<forall>j<10. length (rss ! j) + length ns < 2 ^ 64" using assms(6,7) by auto
  from nodes_ok [OF assms(1,3,4,5) room] obtain db1 rss1 kss1 where db1: "forAll (\<lambda>m. m) ms db = (Inr (), db1)" "graphState db1 fs rss1 kss1" "ownedBy db1 owner strong"
    "grown db1 owner ns rss rss1" "keysGrown strong ns kss kss1" "poolRoom (dbPool db) \<le> poolRoom (dbPool db1) + (\<Sum>n\<leftarrow>ns. nodeRoom n)" by blast
  obtain blank fill where m: "nodeOk n" "m = addNode (fst n) blank fill" "interns (snd n) fill (bodyOf (fst n) owner)" using assms(2) by (auto simp: recordsNode_def)
  have j: "fst n < 10" using m(1) by (simp add: nodeOk_def)
  obtain new where new: "rss1 ! fst n = rss ! fst n @ new" "list_all2 (readsAs db1 owner) new (nodesOf (fst n) ns)" using db1(4) j by (auto simp: grown_def)
  have "length new \<le> length ns" using list_all2_lengthD [OF new(2)] by (simp add: nodesOf_def)
  then have size: "length (rss1 ! fst n) + 1 < 2 ^ 64" using new(1) assms(7) [rule_format, OF j] by simp
  have keys: "kss1 ! fst n = kss ! fst n @ map (nodeKey strong) (nodesOf (fst n) ns)" using db1(5) j by (simp add: keysGrown_def)
  have "nodeKey strong n \<in> set (kss1 ! fst n)" using assms(8)
  proof
    assume "\<exists>n'\<in>set ns. fst n' = fst n \<and> nameOf n' = nameOf n"
    then obtain n' where "n' \<in> set (nodesOf (fst n) ns)" "nameOf n' = nameOf n" by (auto simp: nodesOf_def)
    then have "nodeKey strong n \<in> nodeKey strong ` set (nodesOf (fst n) ns)" by (intro image_eqI [of _ _ n']) simp_all
    then show ?thesis unfolding keys by simp
  qed (simp add: keys)
  from addNode_ok(2) [OF db1(2) m(1) _ m(3) db1(3) size this, of blank] assms(6) db1(6) have "fst (m db1) = Inl Undefined" by (simp add: m(2))
  then show ?thesis using db1(1) by (simp add: forAll_append andThen_fails)
qed

section \<open>The nodes of a class\<close>

text \<open>
  What a class contributes, read off its constant pool: a node per method, per field and per
  reference.
\<close>

definition memberNode :: "constant_pool \<Rightarrow> nat \<Rightarrow> member_info \<Rightarrow> node result" where
  "memberNode cp j m = bindR (getString cp (nameIndex m) False) (\<lambda>n. bindR (getString cp (descriptorIndex m) False) (\<lambda>d. Inr (j, [n, d])))"

definition memberRefNode :: "constant_pool \<Rightarrow> nat \<Rightarrow> u2 \<Rightarrow> u2 \<Rightarrow> node result" where
  "memberRefNode cp j c nt = bindR (bindR (getEntry cp nt) nameAndTypeInfo) (\<lambda>(n, d).
     bindR (getClassInfoName cp c) (\<lambda>owner. bindR (getString cp n False) (\<lambda>name. bindR (getString cp d False) (\<lambda>descriptor. Inr (j, [owner, name, descriptor])))))"

fun refNode :: "constant_pool \<Rightarrow> constant_pool_record \<Rightarrow> node list result" where
  "refNode cp (MethodrefInfo c n) = map_sum id (\<lambda>x. [x]) (memberRefNode cp 4 c n)"
| "refNode cp (ClassInfo n) = bindR (getString cp n False) (\<lambda>name. Inr [(2, [name])])"
| "refNode cp (InterfaceMethodrefInfo c n) = map_sum id (\<lambda>x. [x]) (memberRefNode cp 4 c n)"
| "refNode cp (FieldrefInfo c n) = map_sum id (\<lambda>x. [x]) (memberRefNode cp 6 c n)"
| "refNode cp entry = Inr []"

definition poolRecords :: "constant_pool \<Rightarrow> constant_pool_record list" where
  "poolRecords cp = List.map_filter (\<lambda>x. x) cp"

definition nodesOfClass :: "class_file_parser \<Rightarrow> node list result" where
  "nodesOfClass p = bindR (mapR (memberNode (constantPool p) 3) (methods p)) (\<lambda>ms.
     bindR (mapR (memberNode (constantPool p) 5) (classFields p)) (\<lambda>fs.
     bindR (mapR (refNode (constantPool p)) (poolRecords (tl (constantPool p)))) (\<lambda>rs. Inr (ms @ fs @ concat rs))))"

lemma interns_done: "b = B [] \<Longrightarrow> interns [] (ret b) B"
  using interns_ret by simp

lemma recordsNodeI: "nodeOk n \<Longrightarrow> m = addNode (fst n) blank fill \<Longrightarrow> interns (snd n) fill (bodyOf (fst n) owner) \<Longrightarrow> recordsNode owner m n"
  by (auto simp: recordsNode_def)

lemma andThen_liftR [simp]: "andThen (liftR (Inr x)) f = f x"
  by (rule ext) simp

lemma records_method:
  assumes "memberNode cp 3 m = Inr n" "nodeOk n" shows "recordsNode owner (recordMethod block owner cp m) n"
proof -
  obtain x y where n: "getString cp (nameIndex m) False = Inr x" "getString cp (descriptorIndex m) False = Inr y" "n = (3, [x, y])"
    using assms(1) by (auto simp: memberNode_def bindR_Inr_iff)
  show ?thesis by (rule recordsNodeI [OF assms(2)]) (auto simp: recordMethod_def n bodyOf_def intro!: interns_text interns_done)
qed

lemma records_field:
  assumes "memberNode cp 5 m = Inr n" "nodeOk n" shows "recordsNode owner (recordField block owner cp m) n"
proof -
  obtain x y where n: "getString cp (nameIndex m) False = Inr x" "getString cp (descriptorIndex m) False = Inr y" "n = (5, [x, y])"
    using assms(1) by (auto simp: memberNode_def bindR_Inr_iff)
  show ?thesis by (rule recordsNodeI [OF assms(2)]) (auto simp: recordField_def n bodyOf_def intro!: interns_text interns_done)
qed

lemma records_memberRef:
  assumes "memberRefNode cp j c nt = Inr n" "nodeOk n"
  shows "j = 4 \<Longrightarrow> recordsNode owner (commonRecordMethodRef block owner cp c nt) n" "j = 6 \<Longrightarrow> recordsNode owner (recordFieldRef block owner cp c nt) n"
proof -
  obtain i d x y z where n: "bindR (getEntry cp nt) nameAndTypeInfo = Inr (i, d)" "getClassInfoName cp c = Inr x" "getString cp i False = Inr y" "getString cp d False = Inr z"
    "n = (j, [x, y, z])" using assms(1) by (auto simp: memberRefNode_def bindR_Inr_iff)
  show "recordsNode owner (commonRecordMethodRef block owner cp c nt) n" if "j = 4"
    by (rule recordsNodeI [OF assms(2)]) (use that in \<open>auto simp: commonRecordMethodRef_def n bodyOf_def intro!: interns_text interns_done\<close>)
  show "recordsNode owner (recordFieldRef block owner cp c nt) n" if "j = 6"
    by (rule recordsNodeI [OF assms(2)]) (use that in \<open>auto simp: recordFieldRef_def n bodyOf_def intro!: interns_text interns_done\<close>)
qed

lemma records_classRef: "getString cp i False = Inr s \<Longrightarrow> nodeOk (2, [s]) \<Longrightarrow> recordsNode owner (recordClassRef block owner cp i) (2, [s])"
  by (rule recordsNodeI) (auto simp: recordClassRef_def bodyOf_def intro!: interns_text interns_done)

text \<open>A record of the constant pool that is no reference records nothing.\<close>

definition isRef :: "constant_pool_record \<Rightarrow> bool" where
  "isRef entry \<longleftrightarrow> recordTag entry \<in> {7, 9, 10, 11}"

lemma refNode_records:
  assumes "refNode cp entry = Inr ns" "\<forall>n\<in>set ns. nodeOk n"
  shows "if isRef entry then (\<exists>n. ns = [n] \<and> recordsNode owner (recordRef block owner cp entry) n) else ns = [] \<and> recordRef block owner cp entry = ret ()"
proof (cases entry)
  case (MethodrefInfo c n)
  with assms show ?thesis using records_memberRef(1) [of cp 4 c n] by (cases "memberRefNode cp 4 c n") (auto simp: isRef_def)
next
  case (InterfaceMethodrefInfo c n)
  with assms show ?thesis using records_memberRef(1) [of cp 4 c n] by (cases "memberRefNode cp 4 c n") (auto simp: isRef_def)
next
  case (FieldrefInfo c n)
  with assms show ?thesis using records_memberRef(2) [of cp 6 c n] by (cases "memberRefNode cp 6 c n") (auto simp: isRef_def)
next
  case (ClassInfo n)
  with assms show ?thesis using records_classRef [of cp n] by (auto simp: isRef_def bindR_Inr_iff)
qed (use assms in \<open>simp_all add: isRef_def\<close>)

lemma forAll_skip: "forAll (recordRef block owner cp) es = forAll (recordRef block owner cp) (filter isRef es)"
proof (induction es)
  case (Cons e es)
  have "\<not> isRef e \<Longrightarrow> recordRef block owner cp e = ret ()" by (cases e) (simp_all add: isRef_def)
  then show ?case using Cons by simp
qed simp

lemma refs_record:
  assumes "mapR (refNode cp) es = Inr nss" "\<forall>n\<in>set (concat nss). nodeOk n"
  shows "list_all2 (recordsNode owner) (map (recordRef block owner cp) (filter isRef es)) (concat nss)"
  using assms
proof (induction es arbitrary: nss)
  case (Cons e es)
  then obtain ns nss' where ns: "refNode cp e = Inr ns" "mapR (refNode cp) es = Inr nss'" "nss = ns # nss'" by (auto simp: bindR_Inr_iff)
  with refNode_records [OF ns(1), of owner block] Cons show ?case by (auto split: if_splits)
qed simp

text \<open>The loop over the pool visits its records in order.\<close>

lemma poolRecords_skip: "\<forall>k<m. xs ! k = None \<Longrightarrow> m \<le> length xs \<Longrightarrow> poolRecords xs = poolRecords (drop m xs)"
proof (induction m arbitrary: xs)
  case (Suc m)
  then obtain x xs' where xs: "xs = x # xs'" by (cases xs) auto
  have "x = None" using Suc.prems(1) xs by (metis nth_Cons_0 zero_less_Suc)
  moreover have "\<forall>k<m. xs' ! k = None" using Suc.prems(1) xs by (metis Suc_less_eq nth_Cons_Suc)
  ultimately show ?case using Suc xs by (simp add: poolRecords_def List.map_filter_simps)
qed simp

lemma recordRefsFrom_forAll:
  assumes "length cp \<le> 65535" "unat i < length cp \<longrightarrow> cp ! unat i \<noteq> None" "unat i \<le> length cp"
  shows "recordRefsFrom block owner cp i db = Some (forAll (recordRef block owner cp) (poolRecords (drop (unat i) cp)) db)"
  using assms(2,3)
proof (induction "length cp - unat i" arbitrary: i db rule: less_induct)
  case less
  have size: "i < getPoolSize cp \<longleftrightarrow> unat i < length cp" using assms(1) by (simp add: getPoolSize_def word_less_nat_alt unat_of_nat take_bit_eq_mod)
  show ?case
  proof (cases "unat i < length cp")
    case False
    then show ?thesis using size less.prems by (subst recordRefsFrom.simps) (simp add: poolRecords_def List.map_filter_simps)
  next
    case True
    then obtain e where e: "cp ! unat i = Some e" using less.prems by auto
    from getNextIndex_correct [OF assms(1) True] obtain k where k: "getNextIndex cp i = Some k" "unat i < unat k" "unat k \<le> length cp"
      "\<forall>m. unat i < m \<and> m < unat k \<longrightarrow> cp ! m = None" "unat k < length cp \<longrightarrow> cp ! unat k \<noteq> None" by blast
    have "poolRecords (drop (Suc (unat i)) cp) = poolRecords (drop (unat k - Suc (unat i)) (drop (Suc (unat i)) cp))"
      using k(2-4) by (intro poolRecords_skip) auto
    then have recs: "poolRecords (drop (unat i) cp) = e # poolRecords (drop (unat k) cp)"
      using True e k(2) by (simp add: Cons_nth_drop_Suc [symmetric] poolRecords_def List.map_filter_simps)
    have step: "stepRef block owner cp i = recordRef block owner cp e" using True e by (simp add: stepRef_def getEntry_def)
    show ?thesis
    proof (cases "recordRef block owner cp e db")
      case (Pair r db')
      have "recordRefsFrom block owner cp k db' = Some (forAll (recordRef block owner cp) (poolRecords (drop (unat k) cp)) db')"
        using less.hyps [of k db'] k True by simp
      then show ?thesis using size True k(1) Pair by (subst recordRefsFrom.simps) (cases r; simp add: step recs)
    qed
  qed
qed

lemma extractNodes_forAll:
  assumes "length (constantPool p) \<le> 65535" "1 < length (constantPool p) \<longrightarrow> constantPool p ! 1 \<noteq> None" "constantPool p \<noteq> []"
  shows "extractNodes block owner p db = Some (forAll (\<lambda>m. m) (map (recordMethod block owner (constantPool p)) (methods p) @
    map (recordField block owner (constantPool p)) (classFields p) @ map (recordRef block owner (constantPool p)) (filter isRef (poolRecords (tl (constantPool p))))) db)"
proof -
  have "recordRefs block owner p db' = Some (forAll (recordRef block owner (constantPool p)) (filter isRef (poolRecords (tl (constantPool p)))) db')" for db'
    using recordRefsFrom_forAll [of "constantPool p" 1 block owner db'] assms by (simp add: recordRefs_def drop_Suc Suc_le_eq flip: forAll_skip)
  moreover have "(case m db of (Inl e, db') \<Rightarrow> Some (Inl e, db') | (Inr x, db') \<Rightarrow> Some (f db')) = Some (andThen m (\<lambda>_. f) db)" for m :: "(database, unit) prog" and f :: "(database, unit) prog"
    by (simp add: andThen_def split: prod.split sum.split)
  ultimately show ?thesis by (simp only: extractNodes_def recordMethods_def recordFields_def forAll_append forAll_map andThen_assoc)
qed

section \<open>Extraction of a class\<close>

definition nulFree :: "node \<Rightarrow> bool" where
  "nulFree n \<longleftrightarrow> (\<forall>s\<in>set (snd n). NUL \<notin> set s)"

lemma memberNode_ok: "memberNode cp j m = Inr n \<Longrightarrow> j = 3 \<or> j = 5 \<Longrightarrow> nulFree n \<Longrightarrow> nodeOk n"
  by (auto simp: memberNode_def bindR_Inr_iff nodeOk_def nulFree_def textColumns_def)

lemma memberRefNode_ok: "memberRefNode cp j c nt = Inr n \<Longrightarrow> j = 4 \<or> j = 6 \<Longrightarrow> nulFree n \<Longrightarrow> nodeOk n"
  by (auto simp: memberRefNode_def bindR_Inr_iff nodeOk_def nulFree_def textColumns_def)

lemma refNode_ok:
  assumes "refNode cp entry = Inr ns" "n \<in> set ns" "nulFree n" shows "nodeOk n"
proof (cases entry)
  case (ClassInfo i)
  then show ?thesis using assms by (auto simp: bindR_Inr_iff nodeOk_def nulFree_def textColumns_def)
next
  case (MethodrefInfo c d)
  then show ?thesis using assms memberRefNode_ok [of cp 4 c d n] by (cases "memberRefNode cp 4 c d") auto
next
  case (InterfaceMethodrefInfo c d)
  then show ?thesis using assms memberRefNode_ok [of cp 4 c d n] by (cases "memberRefNode cp 4 c d") auto
next
  case (FieldrefInfo c d)
  then show ?thesis using assms memberRefNode_ok [of cp 6 c d n] by (cases "memberRefNode cp 6 c d") auto
qed (use assms in simp_all)

lemma mapR_all2: "mapR f xs = Inr ys \<longleftrightarrow> list_all2 (\<lambda>x y. f x = Inr y) xs ys"
  by (induction xs arbitrary: ys) (auto simp: bindR_Inr_iff list_all2_Cons1)

lemma members_record:
  assumes "mapR f xs = Inr ys" "\<forall>y\<in>set ys. Q y" "\<And>x y. f x = Inr y \<Longrightarrow> Q y \<Longrightarrow> R (g x) y"
  shows "list_all2 R (map g xs) ys"
  using assms(1,2) by (induction xs arbitrary: ys) (auto simp: bindR_Inr_iff intro: assms(3))

lemma nodesOfClass_records:
  assumes "nodesOfClass p = Inr ns" "\<forall>n\<in>set ns. nulFree n"
  shows "list_all2 (recordsNode owner) (map (recordMethod block owner (constantPool p)) (methods p) @
    map (recordField block owner (constantPool p)) (classFields p) @ map (recordRef block owner (constantPool p)) (filter isRef (poolRecords (tl (constantPool p))))) ns"
proof -
  let ?cp = "constantPool p"
  obtain ms fs rs where ns: "mapR (memberNode ?cp 3) (methods p) = Inr ms" "mapR (memberNode ?cp 5) (classFields p) = Inr fs"
    "mapR (refNode ?cp) (poolRecords (tl ?cp)) = Inr rs" "ns = ms @ fs @ concat rs" using assms(1) by (auto simp: nodesOfClass_def bindR_Inr_iff)
  have free: "\<forall>n\<in>set ms. nulFree n" "\<forall>n\<in>set fs. nulFree n" "\<forall>n\<in>set (concat rs). nulFree n" using assms(2) ns(4) by auto
  have "list_all2 (recordsNode owner) (map (recordMethod block owner ?cp) (methods p)) ms"
    by (rule members_record [OF ns(1) free(1)]) (use memberNode_ok [of ?cp 3] records_method in blast)
  moreover have "list_all2 (recordsNode owner) (map (recordField block owner ?cp) (classFields p)) fs"
    by (rule members_record [OF ns(2) free(2)]) (use memberNode_ok [of ?cp 5] records_field in blast)
  moreover have "\<forall>n\<in>set (concat rs). nodeOk n"
  proof
    fix n assume n: "n \<in> set (concat rs)"
    then obtain es where "es \<in> set rs" "n \<in> set es" by auto
    then obtain e where "refNode ?cp e = Inr es" using ns(3) by (auto simp: mapR_all2 list_all2_conv_all_nth in_set_conv_nth)
    then show "nodeOk n" using \<open>n \<in> set es\<close> free(3) n refNode_ok by blast
  qed
  from refs_record [OF ns(3) this] have "list_all2 (recordsNode owner) (map (recordRef block owner ?cp) (filter isRef (poolRecords (tl ?cp)))) (concat rs)" .
  ultimately show ?thesis unfolding ns(4) by (intro list_all2_appendI)
qed

text \<open>A constant pool with an empty slot 0 and no empty slot 1, as the parser builds it.\<close>

definition poolShape :: "constant_pool \<Rightarrow> bool" where
  "poolShape cp \<longleftrightarrow> length cp \<le> 65535 \<and> cp \<noteq> [] \<and> (1 < length cp \<longrightarrow> cp ! 1 \<noteq> None)"

definition classRoom :: "database \<Rightarrow> table_row list list \<Rightarrow> node list \<Rightarrow> bool" where
  "classRoom db rss ns \<longleftrightarrow> (\<Sum>n\<leftarrow>ns. nodeRoom n) \<le> poolRoom (dbPool db) \<and> (\<forall>j<10. length (rss ! j) + length ns < 2 ^ 64)"

lemma extractNodes_ok:
  assumes "graphState db fs rss kss" "ownedBy db owner strong" "poolShape (constantPool p)" "nodesOfClass p = Inr ns" "\<forall>n\<in>set ns. nulFree n"
    and "newNodes strong ns kss" "classRoom db rss ns"
  shows "\<exists>db' rss' kss'. extractNodes block owner p db = Some (Inr (), db') \<and> graphState db' fs rss' kss' \<and> grown db' owner ns rss rss' \<and> poolExtends (dbPool db) (dbPool db')"
proof -
  have shape: "length (constantPool p) \<le> 65535" "1 < length (constantPool p) \<longrightarrow> constantPool p ! 1 \<noteq> None" "constantPool p \<noteq> []"
    using assms(3) by (simp_all add: poolShape_def)
  have room: "(\<Sum>n\<leftarrow>ns. nodeRoom n) \<le> poolRoom (dbPool db)" "\<forall>j<10. length (rss ! j) + length ns < 2 ^ 64" using assms(7) by (simp_all add: classRoom_def)
  from nodes_ok [OF nodesOfClass_records [OF assms(4,5)] assms(1,2,6) room] extractNodes_forAll [OF shape, of block owner db]
  show ?thesis by fastforce
qed

text \<open>(C17)
  Filling the call graph from a class whose node keys are new: no two nodes of the class (methods,
  fields, references) have the same kind and name, and none of them is in the database under the
  name of the class.  This leaves out classes with overloaded methods or with references to
  constructors of two classes.  On any well-formed call-graph database that holds the class
  \<open>owner\<close>, with room for the texts and rows, the extraction returns, the database stays well
  formed (tables, keys, index, files, pool), and every table has gained exactly one live row of
  that owner per method, field and reference of the constant pool, in their order, which reads back
  as the names and descriptors of the class file.
\<close>

theorem extract_nodes_recorded:
  assumes "graphState db fs rss kss" "ownedBy db owner strong" "poolShape (constantPool p)" "nodesOfClass p = Inr ns" "\<forall>n\<in>set ns. nulFree n"
    and "newNodes strong ns kss" "classRoom db rss ns"
  shows "\<exists>db' rss' kss'. extractNodes block owner p db = Some (Inr (), db') \<and> graphState db' fs rss' kss' \<and> grown db' owner ns rss rss'"
  using extractNodes_ok [OF assms, of block] by blast

text \<open>The key of a node is its owner and its name.  When a class has two methods of one name, or
  refers to members of one name of two classes (as any two constructors), or was extracted before,
  the extraction ends in undefined behaviour at the first node whose key is taken, whatever comes
  after it.
\<close>

lemma extract_same_name_undefined:
  assumes "graphState db fs rss kss" "ownedBy db owner strong" "poolShape (constantPool p)" "nodesOfClass p = Inr (ns @ n # later)"
    and "\<forall>m\<in>set (ns @ n # later). nulFree m" "newNodes strong ns kss" "classRoom db rss (ns @ [n])"
    and "nodeKey strong n \<in> set (kss ! fst n) \<or> (\<exists>n'\<in>set ns. fst n' = fst n \<and> nameOf n' = nameOf n)"
  shows "\<exists>db'. extractNodes block owner p db = Some (Inl Undefined, db')"
proof -
  let ?ms = "map (recordMethod block owner (constantPool p)) (methods p) @ map (recordField block owner (constantPool p)) (classFields p) @
    map (recordRef block owner (constantPool p)) (filter isRef (poolRecords (tl (constantPool p))))"
  from nodesOfClass_records [OF assms(4,5), of owner block] obtain as m bs where ms: "?ms = as @ m # bs" "list_all2 (recordsNode owner) as ns" "recordsNode owner m n"
    by (auto simp: list_all2_append2 list_all2_Cons2)
  have room: "(\<Sum>n\<leftarrow>ns @ [n]. nodeRoom n) \<le> poolRoom (dbPool db)" "\<forall>j<10. length (rss ! j) + length ns + 1 < 2 ^ 64" using assms(7) by (simp_all add: classRoom_def)
  have shape: "length (constantPool p) \<le> 65535" "1 < length (constantPool p) \<longrightarrow> constantPool p ! 1 \<noteq> None" "constantPool p \<noteq> []"
    using assms(3) by (simp_all add: poolShape_def)
  from nodes_stale [OF ms(2,3) assms(1,2,6) room assms(8), of bs] have "fst (forAll (\<lambda>m. m) ?ms db) = Inl Undefined" unfolding ms(1) .
  then show ?thesis unfolding extractNodes_forAll [OF shape] by (intro exI [of _ "snd (forAll (\<lambda>m. m) ?ms db)"]) (metis prod.collapse)
qed

section \<open>A sample\<close>

text \<open>A new database with a file and a class, both without a name.\<close>

lemma add_ok:
  assumes g: "graphState db fs rss kss" and j: "j < 10" and body: "length body + 16 = sizeOf (graphLayouts ! j)"
    and key: "\<forall>db'. graphState db' fs rss kss \<longrightarrow> dbPool db' = dbPool db \<longrightarrow> keyAt db' j (nodeRow body) = Inr k"
    and k: "k \<notin> set (kss ! j)" "length (rss ! j) + 1 < 2 ^ 64"
  shows "\<exists>db'. dbPool db' = dbPool db \<and>
    graphState db' fs (rss[j := rss ! j @ [nodeRow body\<lparr>rowId := of_nat (length (rss ! j))\<rparr>]]) (kss[j := kss ! j @ [k]])"
proof -
  from alloc_ok [OF g j, of "nodeRow body"] obtain a db1 where db1: "graphState db1 fs rss kss" "allocated (tableOf j db1) a (nodeRow body)" "dbPool db1 = dbPool db" by blast
  from enter_ok(1) [OF db1(1) j db1(2) body key [rule_format, OF db1(1,3)] k(2,1)] db1(3) show ?thesis by metis
qed

lemma graphState_new:
  assumes "callGraphDbInit dir block = Inr db"
  shows "graphState db (\<lambda>_. None) (replicate 10 []) (replicate 10 [])" "\<exists>f b. dbPool db = StringPool f b"
proof -
  have new: "newTables db dir callGraphSpecs" using callGraphDbInit_ok [of dir block] assms by auto
  then have all: "list_all2 (\<lambda>(name, l, columns, key) dt. freshTable dir name l key dt) callGraphSpecs (dbTables db)" by (simp add: newTables_def)
  show pool: "\<exists>f b. dbPool db = StringPool f b" using new by (auto simp: newTables_def)
  have "map keyOf (dbTables db) = callGraphKeys" using fresh_lists(1) [OF all] callGraphSpecs_ok(3) by simp
  moreover have "databaseOk db (\<lambda>_. None) (replicate 10 []) (replicate 10 [])"
    using newTables_ok [OF new callGraphSpecs_ok(1,2)] by (simp add: callGraphSpecs_def numeral_eq_Suc)
  ultimately show "graphState db (\<lambda>_. None) (replicate 10 []) (replicate 10 [])"
    using newGraph_rowSize [OF all] pool by (auto simp: graphState_def StringPool_eq StartPoolSize_def)
qed

lemma graphState_keyAt: "graphState db fs rss kss \<Longrightarrow> j < 10 \<Longrightarrow> keyAt db j = (callGraphKeys ! j) (dbPool db) (dbLookup db)"
  using graphState_length [of db fs rss kss] by (metis graphState_def keyAt_def nth_map)

lemma graphState_lookup: "graphState db fs rss kss \<Longrightarrow> j < 10 \<Longrightarrow> dbLookup db j = lookupRows (rss ! j)"
  using graphState_length [of db fs rss kss] graphState_table(1) [of db fs rss kss j] by (intro dbLookup_rep) simp_all

abbreviation sampleFile :: table_row where "sampleFile \<equiv> nodeRow (replicate 72 0)\<lparr>rowId := 0\<rparr>"
abbreviation sampleOwner :: table_row where "sampleOwner \<equiv> nodeRow (replicate 84 0)\<lparr>rowId := 0\<rparr>"

lemma getU8_zeros: "getU8 (replicate n 0) = 0"
proof -
  have "leValue (replicate m 0) = 0" for m by (induction m) simp_all
  then show ?thesis by (simp add: getU8_def)
qed

lemma sample_state:
  "\<exists>db. graphState db (\<lambda>_. None) ((replicate 10 [])[0 := [sampleFile], 1 := [sampleOwner]]) ((replicate 10 [])[0 := [[]], 1 := [[]]]) \<and>
     ownedBy db 0 [] \<and> poolRoom (dbPool db) = StartPoolSize - 1"
proof -
  obtain db0 where db0: "callGraphDbInit ''d'' 0 = Inr db0" using callGraphDbInit_ok by blast
  note g0 = graphState_new(1) [OF db0]
  obtain f b where sp: "dbPool db0 = StringPool f b" using graphState_new(2) [OF db0] by blast
  have nil: "cString (pool (StringPool f b)) 0 = Inr []" by (simp add: StringPool_eq cString_def)
  have fileName: "textColumn FileRow ''filename'' (StringPool f b) (nodeRow (replicate 72 0)\<lparr>rowId := i\<rparr>) = Inr []" "textColumn FileRow ''filename'' (StringPool f b) (nodeRow (replicate 72 0)) = Inr []" for i
    using nil getU8_zeros by (simp_all add: textColumn_body layout_defs nodeRow_def)
  have cls: "textColumn ClassFileRow ''classname'' (StringPool f b) r = Inr []" "column8 ClassFileRow ''file'' r = 0" if "rowBody r = replicate 84 0" for r
    using nil getU8_zeros that by (simp_all add: textColumn_body column8_body layout_defs)
  have "keyAt db 0 (nodeRow (replicate 72 0)) = Inr []" if "graphState db (\<lambda>_. None) (replicate 10 []) (replicate 10 [])" "dbPool db = dbPool db0" for db
    using graphState_keyAt [OF that(1), of 0] that(2) sp fileName by (simp add: callGraphKeys_def filesKey_def)
  then have key0: "\<forall>db. graphState db (\<lambda>_. None) (replicate 10 []) (replicate 10 []) \<longrightarrow> dbPool db = dbPool db0 \<longrightarrow> keyAt db 0 (nodeRow (replicate 72 0)) = Inr []" by blast
  have sizes: "length (replicate 72 0 :: bytes) + 16 = sizeOf (graphLayouts ! 0)" "length (replicate 84 0 :: bytes) + 16 = sizeOf (graphLayouts ! 1)"
    by (simp_all add: graphLayouts_def sizeOf_def layout_defs)
  have lt: "0 < (10 :: nat)" "1 < (10 :: nat)" by simp_all
  have none: "[] \<notin> set (kss ! j)" "length (rss ! j) + 1 < 2 ^ 64" if "kss ! j = []" "rss ! j = []" for kss :: "string list list" and rss :: "table_row list list" and j using that by simp_all
  have nth: "(replicate 10 []) ! 0 = []" "(replicate 10 [])[0 := z] ! 1 = []" for z :: "'a list" by simp_all
  obtain db1 where db1: "dbPool db1 = dbPool db0"
    "graphState db1 (\<lambda>_. None) ((replicate 10 [])[0 := [sampleFile]]) ((replicate 10 [])[0 := [[]]])"
    using add_ok [OF g0 lt(1) sizes(1) key0 none [OF nth(1) nth(1)]] unfolding nth by auto
  have key1: "getStrongClassname 0 (dbPool db) (dbLookup db) r = Inr []"
    if "graphState db (\<lambda>_. None) rss kss" "rss ! 0 = [sampleFile]" "dbPool db = dbPool db0" "rowBody r = replicate 84 0" for db rss kss r
    using graphState_lookup [OF that(1), of 0] that(2,3) sp fileName(1) cls [OF that(4)] by (simp add: getStrongClassname_def getFilename_def lookupRows_def strongClassname_def)
  have "keyAt db 1 (nodeRow (replicate 84 0)) = Inr []"
    if "graphState db (\<lambda>_. None) ((replicate 10 [])[0 := [sampleFile]]) ((replicate 10 [])[0 := [[]]])" "dbPool db = dbPool db1" for db
    using graphState_keyAt [OF that(1), of 1] key1 [OF that(1), of "nodeRow (replicate 84 0)"] that(2) db1(1) by (simp add: callGraphKeys_def classFilesKey_def nodeRow_def)
  then have key2: "\<forall>db. graphState db (\<lambda>_. None) ((replicate 10 [])[0 := [sampleFile]]) ((replicate 10 [])[0 := [[]]]) \<longrightarrow> dbPool db = dbPool db1 \<longrightarrow>
    keyAt db 1 (nodeRow (replicate 84 0)) = Inr []" by blast
  obtain db2 where db2: "dbPool db2 = dbPool db0"
    "graphState db2 (\<lambda>_. None) ((replicate 10 [])[0 := [sampleFile], 1 := [sampleOwner]]) ((replicate 10 [])[0 := [[]], 1 := [[]]])"
    using add_ok [OF db1(2) lt(2) sizes(2) key2 none [OF nth(2) nth(2)]] unfolding nth db1(1) by auto
  have "ownedBy db2 0 []" using key1 [OF db2(2), of sampleOwner] db2(1) graphState_lookup [OF db2(2), of 1]
    by (simp add: ownedBy_def getStrongClassnameById_def lookupRows_def nodeRow_def)
  moreover have "poolRoom (dbPool db2) = StartPoolSize - 1" using db2(1) sp by (simp add: StringPool_eq poolRoom_def)
  ultimately show ?thesis using db2(2) by blast
qed

text \<open>A class \<^verbatim>\<open>A\<close> that only refers to itself, and one that calls two constructors.\<close>

definition sampleParser :: "constant_pool \<Rightarrow> class_file_parser" where
  "sampleParser cp = (newParser (initialReader False (Memory [] 0) 0) ''A.class'' [])\<lparr>constantPool := cp\<rparr>"

definition plainPool :: constant_pool where
  "plainPool = [None, Some (ClassInfo 2), Some (Utf8Info [65])]"

definition twoInits :: constant_pool where
  "twoInits = [None, Some (MethodrefInfo 2 4), Some (ClassInfo 3), Some (Utf8Info [65]), Some (NameAndTypeInfo 5 6),
     Some (Utf8Info (map charByte ''<init>'')), Some (Utf8Info (map charByte ''()V'')), Some (MethodrefInfo 8 4), Some (ClassInfo 9), Some (Utf8Info [66])]"

lemma plainPool_nodes: "nodesOfClass (sampleParser plainPool) = Inr [(2, [''A''])]"
  by code_simp

lemma twoInits_nodes: "nodesOfClass (sampleParser twoInits) =
    Inr ([(4, [''A'', ''<init>'', ''()V'']), (2, [''A''])] @ (4, [''B'', ''<init>'', ''()V'']) # [(2, [''B''])])"
  by code_simp

theorem extract_nodes_recorded_witness:
  "\<exists>db db' rss kss r. extractNodes 0 0 (sampleParser plainPool) db = Some (Inr (), db') \<and> graphState db' (\<lambda>_. None) rss kss \<and>
     rss ! 2 = [r] \<and> readsAs db' 0 r (2, [''A''])"
proof -
  let ?rss = "(replicate 10 [])[0 := [sampleFile], 1 := [sampleOwner]]" and ?kss = "(replicate 10 [])[0 := [[]], 1 := [[]]]"
  obtain db where db: "graphState db (\<lambda>_. None) ?rss ?kss" "ownedBy db 0 []" "poolRoom (dbPool db) = StartPoolSize - 1" using sample_state by blast
  have shape: "poolShape (constantPool (sampleParser plainPool))" by (simp add: poolShape_def sampleParser_def plainPool_def)
  have free: "\<forall>n\<in>set [(2, [''A''])]. nulFree n" by (simp add: nulFree_def)
  have new: "newNodes [] [(2, [''A''])] ?kss" by (simp add: newNodes_def)
  have room: "classRoom db ?rss [(2, [''A''])]" using db(3) by (auto simp: classRoom_def nodeRoom_def StartPoolSize_def nth_list_update)
  from extract_nodes_recorded [OF db(1,2) shape plainPool_nodes free new room] obtain db' rss kss where
    db': "extractNodes 0 0 (sampleParser plainPool) db = Some (Inr (), db')" "graphState db' (\<lambda>_. None) rss kss" "grown db' 0 [(2, [''A''])] ?rss rss" by blast
  from db'(3) [unfolded grown_def, rule_format, of 2] obtain xs where "rss ! 2 = ?rss ! 2 @ xs" "list_all2 (readsAs db' 0) xs (nodesOf 2 [(2, [''A''])])" by auto
  then obtain r where "rss ! 2 = [r]" "readsAs db' 0 r (2, [''A''])" by (auto simp: nodesOf_def list_all2_Cons2)
  then show ?thesis using db'(1,2) by blast
qed

lemma extract_same_name_undefined_witness:
  "\<exists>db db'. ownedBy db 0 [] \<and> extractNodes 0 0 (sampleParser twoInits) db = Some (Inl Undefined, db')"
proof -
  let ?rss = "(replicate 10 [])[0 := [sampleFile], 1 := [sampleOwner]]" and ?kss = "(replicate 10 [])[0 := [[]], 1 := [[]]]"
  obtain db where db: "graphState db (\<lambda>_. None) ?rss ?kss" "ownedBy db 0 []" "poolRoom (dbPool db) = StartPoolSize - 1" using sample_state by blast
  have "poolShape (constantPool (sampleParser twoInits))" by (simp add: poolShape_def sampleParser_def twoInits_def)
  moreover have "\<forall>m\<in>set ([(4, [''A'', ''<init>'', ''()V'']), (2, [''A''])] @ (4, [''B'', ''<init>'', ''()V'']) # [(2, [''B''])]). nulFree m" by (simp add: nulFree_def)
  moreover have "newNodes [] [(4, [''A'', ''<init>'', ''()V'']), (2, [''A''])] ?kss" by (simp add: newNodes_def)
  moreover have "classRoom db ?rss ([(4, [''A'', ''<init>'', ''()V'']), (2, [''A''])] @ [(4, [''B'', ''<init>'', ''()V''])])"
    using db(3) by (auto simp: classRoom_def nodeRoom_def StartPoolSize_def nth_list_update)
  moreover have "\<exists>n'\<in>set [(4, [''A'', ''<init>'', ''()V'']), (2, [''A''])]. fst n' = fst (4 :: nat, [''B'', ''<init>'', ''()V'']) \<and> nameOf n' = nameOf (4, [''B'', ''<init>'', ''()V''])"
    by (simp add: nameOf_def)
  ultimately show ?thesis using extract_same_name_undefined [OF db(1,2) _ twoInits_nodes] db(2) by blast
qed

end
