(* ===== verification/Jar_Tasks.thy ===== *)
theory Jar_Tasks
  imports Graph_Nodes Stats Digest Jar_Processor Db_Display "HOL-Library.Char_ord"
begin

text \<open>
  What is done with the class files of a jar (\<^verbatim>\<open>domain/jar/tasks\<close>): the digest task compares each
  class with its row in the database, records changes and computes a digest of the whole jar; the
  graph task fills the call-graph tables; the parser task only parses.  A task works on the
  database, on the results and on its own fields.  Files and classes are the tables 0 and 1 of
  either database.
\<close>

section \<open>State\<close>

text \<open>
  What a task is given: the options, with the input set to its jar; SHA-256; the byte order of the
  machine; the identity of the next memory block of the string pool; what \<^verbatim>\<open>readAsBinary\<close> returns;
  size and time stamp of a file.
\<close>

record task_env =
  envOptions :: options
  envHash :: "bytes \<Rightarrow> bytes"
  envHost :: bool
  envBlock :: nat
  envBuffer :: "zip_entry \<Rightarrow> bytes option"
  envStat :: "string \<Rightarrow> (u8 \<times> u8) result"

text \<open>
  What tasks and analyzers share.  \<open>ownerIndexes\<close> are the indexes of the five class-owned tables of a
  call-graph database.
\<close>

record analysis =
  taskDb :: database
  taskResults :: results
  taskLog :: "string list"
  ownerIndexes :: "(u8 \<rightharpoonup> u8 list) list"

text \<open>
  Row pointers are addresses of the store of table 0.  \<open>digestMap\<close> is a \<^verbatim>\<open>std::map\<close>: its bindings in
  ascending order of the class names.
\<close>

record jar_task = analysis +
  tempFileRow :: "nat option"
  jarFileRow :: "nat option"
  fileUnchanged :: bool
  isNewJarFile :: bool
  jarSize :: u8
  jarTimestamp :: u8
  digestMap :: "(string \<times> digest_vector) list"

definition onDb :: "(database, 'a) prog \<Rightarrow> ('s analysis_scheme, 'a) prog" where
  "onDb m = (\<lambda>t. case m (taskDb t) of (r, db) \<Rightarrow> (r, t\<lparr>taskDb := db\<rparr>))"

definition onResults :: "(results \<Rightarrow> results) \<Rightarrow> ('s analysis_scheme, unit) prog" where
  "onResults f = modify (\<lambda>t. t\<lparr>taskResults := f (taskResults t)\<rparr>)"

definition derefIn :: "nat \<Rightarrow> nat \<Rightarrow> ('s analysis_scheme, table_row) prog" where
  "derefIn j a = onDb (onTable j (\<lambda>_. deref a))"

definition getJarFileRow :: "(jar_task, nat) prog" where
  "getJarFileRow = andThen getState (\<lambda>t. case jarFileRow t of None \<Rightarrow> throw Undefined | Some a \<Rightarrow> ret a)"

definition readJarRow :: "(jar_task, table_row) prog" where
  "readJarRow = andThen getJarFileRow (derefIn 0)"

definition writeJarRow :: "(table_row \<Rightarrow> table_row) \<Rightarrow> (jar_task, unit) prog" where
  "writeJarRow f = andThen getJarFileRow (\<lambda>a. andThen (derefIn 0 a) (\<lambda>r. onDb (onTable 0 (\<lambda>_. assign a (f r)))))"

definition putU4 :: "u4 \<Rightarrow> bytes" where
  "putU4 w = leBytes 4 (unat w)"

definition column4 :: "layout \<Rightarrow> string \<Rightarrow> table_row \<Rightarrow> u4" where
  "column4 l c r = getU4 (drop (offsetOf l c) (putRow r))"

definition digestColumn :: "layout \<Rightarrow> table_row \<Rightarrow> digest_vector" where
  "digestColumn l r = take DIGEST_LENGTH (drop (offsetOf l ''digest'') (putRow r))"

definition setColumn :: "layout \<Rightarrow> string \<Rightarrow> bytes \<Rightarrow> table_row \<Rightarrow> table_row" where
  "setColumn l c bs r = (let k = offsetOf l c - 16 in r\<lparr>rowBody := take k (rowBody r) @ bs @ drop (k + length bs) (rowBody r)\<rparr>)"

definition fileBody :: "u4 \<Rightarrow> u8 \<Rightarrow> u8 \<Rightarrow> u8 \<Rightarrow> u4 \<Rightarrow> digest_vector \<Rightarrow> bytes" where
  "fileBody kind name timestamp sz classes d = putU4 kind @ putU8 name @ putU8 timestamp @ putU8 sz @ putU4 classes @ d"

definition classFileBody :: "u8 \<Rightarrow> u8 \<Rightarrow> u8 \<Rightarrow> u8 \<Rightarrow> u4 \<Rightarrow> digest_vector \<Rightarrow> bytes" where
  "classFileBody jar classname timestamp sz crc d = putU8 jar @ putU8 classname @ putU8 timestamp @ putU8 sz @ putU4 crc @ d @ putU8 0"

text \<open>The values of \<^verbatim>\<open>EntryType\<close>, and a digest column that is not set.\<close>

definition ClassfileEntry :: u4 where "ClassfileEntry = 0"
definition JarEntryType :: u4 where "JarEntryType = 1"

definition emptyDigestCol :: digest_vector where
  "emptyDigestCol = replicate DIGEST_LENGTH 0"

section \<open>Tasks on a database\<close>

definition getFileRow :: "string \<Rightarrow> (jar_task, nat option) prog" where
  "getFileRow name = andThen getState (\<lambda>t. ret (findByKey (tableOf 0 (taskDb t)) name))"

definition createJarFileRow :: "task_env \<Rightarrow> string \<Rightarrow> (jar_task, nat) prog" where
  "createJarFileRow env name =
     andThen (onDb (onTable 0 (\<lambda>_. newRow (nodeRow (fileBody ClassfileEntry 0 0 0 0 emptyDigestCol))))) (\<lambda>a.
     andThen (onDb (internText (envBlock env) (Inr name))) (\<lambda>h.
     andThen getState (\<lambda>t.
     andThen (onDb (onTable 0 (\<lambda>_. assign a (nodeRow (fileBody JarEntryType h (jarTimestamp t) (jarSize t) 0 emptyDigestCol))))) (\<lambda>_.
     ret a))))"

definition getOrCreateFileRow :: "task_env \<Rightarrow> string \<Rightarrow> (jar_task, nat) prog" where
  "getOrCreateFileRow env name =
     andThen (getFileRow name) (\<lambda>found.
     andThen (modify (\<lambda>t. t\<lparr>isNewJarFile := found = None\<rparr>)) (\<lambda>_.
     case found of Some a \<Rightarrow> ret a
     | None \<Rightarrow> andThen (createJarFileRow env name) (\<lambda>a.
         andThen (if \<not> dryRun (getSubCommandOptions (envOptions env))
                  then andThen (onDb (onTable 0 (\<lambda>key. addRow key a))) (\<lambda>_. ret ())
                  else modify (\<lambda>t. t\<lparr>tempFileRow := Some a\<rparr>)) (\<lambda>_. ret a))))"

definition hasValidFile :: "table_row \<Rightarrow> bool" where
  "hasValidFile r \<longleftrightarrow> column8 ClassFileRow ''file'' r \<noteq> - 1"

definition isClassfileUnchanged :: "jar_entry \<Rightarrow> table_row \<Rightarrow> bool" where
  "isClassfileUnchanged e r \<longleftrightarrow> column8 ClassFileRow ''size'' r = zipSize (zipEntry e) \<and> column4 ClassFileRow ''crc'' r = zipCRC (zipEntry e) \<and>
     hasValidFile r \<and> column8 ClassFileRow ''lastWriteTime'' r = entryLastWriteTime e"

definition isFileUnchanged :: "task_env \<Rightarrow> (jar_task, bool) prog" where
  "isFileUnchanged env = andThen getState (\<lambda>t.
     if useFileTimestamp (envOptions env) \<and> \<not> isNewJarFile t
     then andThen readJarRow (\<lambda>r. ret (column8 FileRow ''fileSize'' r = jarSize t \<and> column8 FileRow ''lastWriteTime'' r = jarTimestamp t))
     else ret False)"

definition getUniqueClassname :: "jar_entry \<Rightarrow> class_file_parser \<Rightarrow> string result" where
  "getUniqueClassname e p = (if isMultiReleaseEntry e then Inr (jvmClassname e) else getMainClassname p)"

definition updateFile :: "digest_vector \<Rightarrow> (jar_task, unit) prog" where
  "updateFile d = (if length d \<noteq> DIGEST_LENGTH then throw AssertFail else
     andThen (writeJarRow (setColumn FileRow ''digest'' d)) (\<lambda>_.
     andThen getState (\<lambda>t.
     andThen (writeJarRow (setColumn FileRow ''lastWriteTime'' (putU8 (jarTimestamp t)))) (\<lambda>_.
     andThen (writeJarRow (setColumn FileRow ''fileSize'' (putU8 (jarSize t)))) (\<lambda>_.
     andThen getJarFileRow (\<lambda>a. onDb (onTable 0 (\<lambda>key. updateRow key a))))))))"

definition addOrUpdateClassfile :: "task_env \<Rightarrow> jar_entry \<Rightarrow> digest_vector \<Rightarrow> class_file_parser \<Rightarrow> (jar_task, u8) prog" where
  "addOrUpdateClassfile env e d p =
     andThen (liftR (getUniqueClassname e p)) (\<lambda>classname.
     andThen readJarRow (\<lambda>jar.
     andThen (onDb (onTable 1 (\<lambda>_. newRow (nodeRow (classFileBody (rowId jar) 0 0 0 0 emptyDigestCol))))) (\<lambda>a.
     andThen (onDb (internText (envBlock env) (Inr classname))) (\<lambda>h.
     andThen (onDb (enterNode 1 a (classFileBody (rowId jar) h (entryLastWriteTime e) (zipSize (zipEntry e)) (zipCRC (zipEntry e)) d))) (\<lambda>_.
     andThen (derefIn 1 a) (\<lambda>r. ret (rowId r)))))))"

text \<open>
  The row of the class of an entry: the name it is looked up under, and the row with its address.
  A class that is not found is counted in the row of the jar.
\<close>

definition cText :: "string \<Rightarrow> string" where
  "cText s = takeWhile (\<lambda>c. c \<noteq> NUL) s"

definition countClass :: "table_row \<Rightarrow> table_row" where
  "countClass r = setColumn FileRow ''classfileCount'' (putU4 (column4 FileRow ''classfileCount'' r + 1)) r"

definition findClass :: "jar_entry \<Rightarrow> (jar_task, string \<times> (nat \<times> table_row) option) prog" where
  "findClass e =
     andThen readJarRow (\<lambda>jar. andThen getState (\<lambda>t.
     andThen (liftR (getFilename (dbPool (taskDb t)) jar)) (\<lambda>name.
     let strong = strongClassname name (cText (jvmClassname e)) in
     (case findByKey (tableOf 1 (taskDb t)) strong of
        None \<Rightarrow> andThen (writeJarRow countClass) (\<lambda>_. ret (strong, None))
      | Some c \<Rightarrow> andThen (derefIn 1 c) (\<lambda>r. ret (strong, Some (c, r)))))))"

text \<open>Parsing an entry: the constructors may throw, the verdict is that of \<^verbatim>\<open>parse\<close>.\<close>

definition parseEntry :: "task_env \<Rightarrow> jar_entry \<Rightarrow> (jar_task, bool \<times> class_file_parser) prog" where
  "parseEntry env e =
     andThen (liftR (MemoryReader (envHost env) (envBuffer env (zipEntry e)) (sint (zipSize (zipEntry e))))) (\<lambda>rd.
     andThen getState (\<lambda>t.
     case parse (newParser rd (zipName (zipEntry e)) (taskLog t)) of (r, p) \<Rightarrow>
       andThen (modify (\<lambda>t. t\<lparr>taskLog := log p\<rparr>)) (\<lambda>_. andThen (liftR r) (\<lambda>ok. ret (ok, p)))))"

section \<open>The digest task\<close>

definition mapAssign :: "string \<Rightarrow> digest_vector \<Rightarrow> (string \<times> digest_vector) list \<Rightarrow> (string \<times> digest_vector) list" where
  "mapAssign k v m = insort_key fst (k, v) (filter (\<lambda>b. fst b \<noteq> k) m)"

definition rememberDigest :: "jar_entry \<Rightarrow> digest_vector \<Rightarrow> (jar_task, unit) prog" where
  "rememberDigest e d = modify (\<lambda>t. t\<lparr>digestMap := mapAssign (jvmClassname e) d (digestMap t)\<rparr>)"

definition incParsed :: "results \<Rightarrow> results" where
  "incParsed = onJarClasses (\<lambda>c. c\<lparr>parsedCount := parsedCount c + 1\<rparr>)"

definition digestStart :: "task_env \<Rightarrow> (jar_task, bool) prog" where
  "digestStart env = (let name = input (digestOptions (envOptions env)) in
     andThen (liftR (envStat env name)) (\<lambda>(sz, timestamp).
     andThen (modify (\<lambda>t. t\<lparr>jarSize := sz, jarTimestamp := timestamp\<rparr>)) (\<lambda>_.
     andThen (getOrCreateFileRow env name) (\<lambda>a.
     andThen (modify (\<lambda>t. t\<lparr>jarFileRow := Some a\<rparr>)) (\<lambda>_.
     andThen (isFileUnchanged env) (\<lambda>unchanged.
     andThen (modify (\<lambda>t. t\<lparr>fileUnchanged := unchanged\<rparr>)) (\<lambda>_. ret (\<not> unchanged))))))))"

definition digestEntry :: "task_env \<Rightarrow> jar_entry \<Rightarrow> string \<Rightarrow> table_row option \<Rightarrow> (jar_task, digest_vector option) prog" where
  "digestEntry env e strong row =
     andThen (parseEntry env e) (\<lambda>(ok, p).
     if ok then
       andThen (liftR (digest (envHash env) p)) (\<lambda>d.
       andThen (onResults (case row of Some r \<Rightarrow> asModifiedJarClass (envOptions env) strong (d = digestColumn ClassFileRow r)
                           | None \<Rightarrow> asNewJarClass (envOptions env) strong)) (\<lambda>_.
       andThen (onResults incParsed) (\<lambda>_.
       andThen (if \<not> dryRun (digestOptions (envOptions env)) then andThen (addOrUpdateClassfile env e d p) (\<lambda>_. ret ()) else ret ()) (\<lambda>_.
       ret (Some d)))))
     else
       andThen (onResults (asFailedJarClass (envOptions env) strong)) (\<lambda>_.
       andThen (onResults (onJarClasses incErrors)) (\<lambda>_. ret None)))"

definition digestProcessEntry :: "task_env \<Rightarrow> jar_entry \<Rightarrow> (jar_task, unit) prog" where
  "digestProcessEntry env e =
     andThen (findClass e) (\<lambda>(strong, found).
     andThen (case found of
         Some (c, r) \<Rightarrow>
           if isClassfileUnchanged e r then
             andThen (onResults (asUnchangedJarClass (envOptions env) strong)) (\<lambda>_. rememberDigest e (digestColumn ClassFileRow r))
           else andThen (digestEntry env e strong (Some r)) (\<lambda>d. case d of None \<Rightarrow> ret () | Some d \<Rightarrow> rememberDigest e d)
       | None \<Rightarrow> andThen (digestEntry env e strong None) (\<lambda>d. case d of None \<Rightarrow> ret () | Some d \<Rightarrow> rememberDigest e d)) (\<lambda>_.
     andThen (onResults (onJarClasses (\<lambda>c. c\<lparr>count_cf := count_cf c + 1\<rparr>))) (\<lambda>_.
     onResults (onJarClassTask (\<lambda>c. c\<lparr>taskCount := taskCount c + 1\<rparr>)))))"

definition addClassfileCount :: "u4 \<Rightarrow> results \<Rightarrow> results" where
  "addClassfileCount n r = r\<lparr>jarfiles := (jarfiles r)\<lparr>classfileCount := classfileCount (jarfiles r) + n\<rparr>\<rparr>"

text \<open>The digest of the jar: the bytes of all digests of the map, in its order.\<close>

definition jarDigest :: "(bytes \<Rightarrow> bytes) \<Rightarrow> (string \<times> digest_vector) list \<Rightarrow> digest_vector" where
  "jarDigest hash m = digestVector hash (concat (map (take DIGEST_LENGTH \<circ> snd) m))"

definition digestEnd :: "task_env \<Rightarrow> (jar_task, unit) prog" where
  "digestEnd env = (let opts = envOptions env; name = input (digestOptions opts) in
     andThen (onResults (onJarTask (\<lambda>c. c\<lparr>taskCount := taskCount c + 1\<rparr>))) (\<lambda>_.
     andThen readJarRow (\<lambda>jar. let n = column4 FileRow ''classfileCount'' jar in
     andThen (onResults (addClassfileCount n)) (\<lambda>_. andThen getState (\<lambda>t.
     if fileUnchanged t then
       andThen (onResults (onJarClassTask (\<lambda>c. c\<lparr>taskCount := taskCount c + n, unchangedCount := unchangedCount c + n\<rparr>))) (\<lambda>_.
       onResults (asUnchangedJar opts name))
     else let d = jarDigest (envHash env) (digestMap t) in
       andThen (onResults (if isNewJarFile t then asNewJar opts name else asModifiedJar opts name (digestColumn FileRow jar = d))) (\<lambda>_.
       if \<not> dryRun (digestOptions opts) then updateFile d else ret ()))))))"

text \<open>A run of the jar processor on this task, the entries one after the other.\<close>

definition runDigest :: "task_env \<Rightarrow> zip_entry list \<Rightarrow> (jar_task, unit) prog" where
  "runDigest env es = andThen (digestStart env) (\<lambda>go.
     andThen (if go then runTasks (digestProcessEntry env) es else ret ()) (\<lambda>_.
     andThen (digestEnd env) (\<lambda>_. onResults (\<lambda>r. r\<lparr>jarfiles := (jarfiles r)\<lparr>jarParsedCount := jarParsedCount (jarfiles r) + 1\<rparr>\<rparr>))))"

section \<open>The graph task\<close>

definition graphStart :: "task_env \<Rightarrow> (jar_task, bool) prog" where
  "graphStart env = (let name = input (callGraphOptions (envOptions env)) in
     andThen (liftR (envStat env name)) (\<lambda>(sz, timestamp).
     andThen (modify (\<lambda>t. t\<lparr>jarSize := sz, jarTimestamp := timestamp\<rparr>)) (\<lambda>_.
     andThen (getOrCreateFileRow env name) (\<lambda>a.
     andThen (modify (\<lambda>t. t\<lparr>jarFileRow := Some a\<rparr>)) (\<lambda>_.
     andThen (isFileUnchanged env) (\<lambda>unchanged.
     andThen (modify (\<lambda>t. t\<lparr>fileUnchanged := unchanged\<rparr>)) (\<lambda>_. ret (\<not> unchanged))))))))"

definition ownedTables :: "'s analysis_scheme \<Rightarrow> class_owned_table list" where
  "ownedTables t = map2 (\<lambda>j idx. \<lparr>ownedTable = tableOf j (taskDb t), ownerClassIndex = idx\<rparr>) [2, 3, 4, 5, 6] (ownerIndexes t)"

definition deleteGraphClass :: "u8 \<Rightarrow> ('s analysis_scheme, nat) prog" where
  "deleteGraphClass classId = (\<lambda>t. case deleteClassAll classId (ownedTables t) of (r, cts) \<Rightarrow>
     (r, t\<lparr>taskDb := fold (\<lambda>(j, ct). setTable j (ownedTable ct)) (zip [2, 3, 4, 5, 6] cts) (taskDb t), ownerIndexes := map ownerClassIndex cts\<rparr>))"

text \<open>The extraction need not return, so neither need the task.\<close>

definition processClassFile :: "task_env \<Rightarrow> jar_entry \<Rightarrow> string \<Rightarrow> table_row option \<Rightarrow> jar_task \<Rightarrow> (unit result \<times> jar_task) option" where
  "processClassFile env e strong row t =
     (case andThen (case row of None \<Rightarrow> ret () | Some r \<Rightarrow> andThen (deleteGraphClass (rowId r)) (\<lambda>_. ret ())) (\<lambda>_. parseEntry env e) t of
        (Inl err, t) \<Rightarrow> Some (Inl err, t)
      | (Inr (ok, p), t) \<Rightarrow>
          if ok then
            (case andThen (addOrUpdateClassfile env e emptyDigestCol p) (\<lambda>i.
                 andThen (onDb (onTable 1 (\<lambda>_. getRow i))) (\<lambda>a. andThen (derefIn 1 a) (\<lambda>r. ret (rowId r)))) t of
               (Inl err, t) \<Rightarrow> Some (Inl err, t)
             | (Inr owner, t) \<Rightarrow> map_option (\<lambda>(r, db). (r, t\<lparr>taskDb := db\<rparr>)) (extractNodes (envBlock env) owner p (taskDb t)))
          else Some (andThen (onResults (asFailedJarClass (envOptions env) strong)) (\<lambda>_. onResults (onJarClasses incErrors)) t))"

definition graphProcessEntry :: "task_env \<Rightarrow> jar_entry \<Rightarrow> jar_task \<Rightarrow> (unit result \<times> jar_task) option" where
  "graphProcessEntry env e t =
     (case findClass e t of
        (Inl err, t) \<Rightarrow> Some (Inl err, t)
      | (Inr (strong, found), t) \<Rightarrow>
          map_option (\<lambda>(r, t). andThen (\<lambda>t. (r, t)) (\<lambda>_. onResults (onJarClasses (\<lambda>c. c\<lparr>count_cf := count_cf c + 1\<rparr>))) t)
            (case found of
               Some (c, r) \<Rightarrow> if isClassfileUnchanged e r then Some (onResults (asUnchangedJarClass (envOptions env) strong) t)
                 else processClassFile env e strong (Some r) t
             | None \<Rightarrow> processClassFile env e strong None t))"

definition graphEnd :: "(jar_task, unit) prog" where
  "graphEnd = andThen readJarRow (\<lambda>jar.
     andThen (onResults (addClassfileCount (column4 FileRow ''classfileCount'' jar))) (\<lambda>_.
     andThen getState (\<lambda>t. if fileUnchanged t then onResults (onJarTask incUnchanged) else ret ())))"

section \<open>The parser task\<close>

text \<open>
  \<open>onParserDone\<close> is the callback of the task.  An entry is counted after its reader was constructed and
  before it is parsed.
\<close>

definition parserProcessEntry :: "task_env \<Rightarrow> (class_file_parser \<Rightarrow> (jar_task, unit) prog) \<Rightarrow> jar_entry \<Rightarrow> (jar_task, unit) prog" where
  "parserProcessEntry env onParserDone e =
     andThen (liftR (MemoryReader (envHost env) (envBuffer env (zipEntry e)) (sint (zipSize (zipEntry e))))) (\<lambda>_.
     andThen (onResults (onJarClasses (\<lambda>c. c\<lparr>count_cf := count_cf c + 1\<rparr>))) (\<lambda>_.
     andThen (parseEntry env e) (\<lambda>(ok, p).
     andThen (onResults (if ok then incParsed else onJarClasses incErrors)) (\<lambda>_. onParserDone p))))"

section \<open>A dry run over a known jar\<close>

text \<open>The database with another row of the jar, and the columns of that row.\<close>

definition jarDb :: "database \<Rightarrow> nat \<Rightarrow> table_row \<Rightarrow> database" where
  "jarDb db a jar = setTable 0 ((tableOf 0 db)\<lparr>heap := (heap (tableOf 0 db))(a \<mapsto> Holds jar)\<rparr>) db"

lemma jarDb_tables:
  assumes "dbTables db \<noteq> []"
  shows "heap (tableOf 0 (jarDb db a jar)) a = Some (Holds jar)" "tableOf 1 (jarDb db a jar) = tableOf 1 db" "dbPool (jarDb db a jar) = dbPool db"
    "jarDb (jarDb db a jar) a jar' = jarDb db a jar'"
proof -
  have "0 < length (dbTables db)" using assms by simp
  note t = tableOf_set(1) [OF this]
  show "heap (tableOf 0 (jarDb db a jar)) a = Some (Holds jar)" "tableOf 1 (jarDb db a jar) = tableOf 1 db" using t by (simp_all add: jarDb_def)
  show "dbPool (jarDb db a jar) = dbPool db" by (simp add: jarDb_def setTable_def)
  show "jarDb (jarDb db a jar) a jar' = jarDb db a jar'" using t assms by (simp add: jarDb_def setTable_def)
qed

lemma jarDb_self: "heap (tableOf 0 db) a = Some (Holds jar) \<Longrightarrow> jarDb db a jar = db"
  by (simp add: jarDb_def fun_upd_idem)

lemma derefIn_ok: "heap (tableOf j (taskDb t)) a = Some (Holds r) \<Longrightarrow> derefIn j a t = (Inr r, t)"
  by (simp add: derefIn_def onDb_def onTable_def deref_def)

lemma readJarRow_ok: "jarFileRow t = Some a \<Longrightarrow> heap (tableOf 0 (taskDb t)) a = Some (Holds r) \<Longrightarrow> readJarRow t = (Inr r, t)"
  by (simp add: readJarRow_def getJarFileRow_def derefIn_ok)

lemma writeJarRow_ok:
  assumes "jarFileRow t = Some a" "heap (tableOf 0 (taskDb t)) a = Some (Holds r)"
  shows "writeJarRow f t = (Inr (), t\<lparr>taskDb := jarDb (taskDb t) a (f r)\<rparr>)"
  using assms by (simp add: writeJarRow_def getJarFileRow_def derefIn_ok onDb_def onTable_def assign_def jarDb_def)

lemma length_putU4 [simp]: "length (putU4 w) = 4"
  by (simp add: putU4_def)

lemma FileRow_offsets: "offsetOf FileRow ''filename'' = 20" "offsetOf FileRow ''lastWriteTime'' = 28" "offsetOf FileRow ''fileSize'' = 36"
  "offsetOf FileRow ''classfileCount'' = 44" "offsetOf FileRow ''digest'' = 48"
  by (simp_all add: layout_defs)

lemma countClass_columns:
  assumes "length (rowBody r) = 72"
  shows "length (rowBody (countClass r)) = 72" "digestColumn FileRow (countClass r) = digestColumn FileRow r" "getFilename p (countClass r) = getFilename p r"
proof -
  have body: "rowBody (countClass r) = take 28 (rowBody r) @ putU4 (column4 FileRow ''classfileCount'' r + 1) @ drop 32 (rowBody r)"
    by (simp add: countClass_def setColumn_def FileRow_offsets Let_def)
  then show "length (rowBody (countClass r)) = 72" using assms by simp
  show "digestColumn FileRow (countClass r) = digestColumn FileRow r" using assms body by (simp add: digestColumn_def FileRow_offsets putRow_def drop_append)
  have "take 8 (drop 4 (rowBody (countClass r))) = take 8 (drop 4 (rowBody r))" using assms by (simp add: body drop_take)
  then show "getFilename p (countClass r) = getFilename p r" by (simp add: getFilename_def textColumn_body FileRow_offsets getU8_def)
qed

text \<open>An entry that holds an encoded class, whose digest is then defined by the class alone.\<close>

definition entryOk :: "task_env \<Rightarrow> class_file \<Rightarrow> jar_entry \<Rightarrow> bool" where
  "entryOk env cf e \<longleftrightarrow> sizedClassFile cf \<and> envBuffer env (zipEntry e) = Some (encClassFile cf) \<and>
     zipSize (zipEntry e) = of_nat (length (encClassFile cf)) \<and> length (encClassFile cf) < 2 ^ 32"

definition parsedClass :: "class_file \<Rightarrow> class_file_parser" where
  "parsedClass cf = (newParser (initialReader False (Memory [] 0) 0) [] [])\<lparr>constantPool := poolOf (cfPool cf), mainClassInfo := cfMain cf,
     interfaces := cfInterfaces cf, classFields := cfFields cf, methods := cfMethods cf, attributes := cfAttributes cf\<rparr>"

lemma digest_fields:
  assumes "constantPool q = constantPool p" "mainClassInfo q = mainClassInfo p" "interfaces q = interfaces p"
    "attributes q = attributes p" "methods q = methods p" "classFields q = classFields p"
  shows "digest hash q = digest hash p"
  by (simp add: digest_def classBuffer_def digestPublicMethods_def digestPublicFields_def digestInterfaces_def assms)

lemma parseEntry_ok:
  assumes "entryOk env cf e"
  shows "\<exists>p. parseEntry env e t = (Inr (True, p), t) \<and> parsedAs cf p \<and> digest hash p = digest hash (parsedClass cf)"
proof -
  let ?b = "encClassFile cf"
  have e: "sizedClassFile cf" "length (?b @ []) < 2 ^ 32" "envBuffer env (zipEntry e) = Some (?b @ [])" "sint (zipSize (zipEntry e)) = int (length (?b @ []))"
    using assms by (simp_all add: entryOk_def signed_of_nat signed_take_bit_int_eq_self_iff)
  obtain r p where p: "MemoryReader (envHost env) (Some (?b @ [])) (int (length (?b @ []))) = Inr r"
    "parse (newParser r (zipName (zipEntry e)) (taskLog t)) = (Inr True, p)" "parsedAs cf p" "log p = taskLog t"
    using memory_parse [OF e(1,2), of "envHost env" "zipName (zipEntry e)" "taskLog t"] by blast
  have "parseEntry env e t = (Inr (True, p), t)" using p(1,2,4) e(3,4) by (simp add: parseEntry_def)
  moreover have "digest hash p = digest hash (parsedClass cf)"
    by (rule digest_fields) (use p(3) in \<open>simp_all add: parsedAs_def parsedClass_def newParser_def\<close>)
  ultimately show ?thesis using p(3) by blast
qed

text \<open>
  The digest a run takes for an entry: the one stored for its class when the entry is the one the
  class was digested from, else the one of the class in the entry.
\<close>

definition takenDigest :: "task_env \<Rightarrow> database \<Rightarrow> string \<Rightarrow> class_file \<Rightarrow> jar_entry \<Rightarrow> digest_vector result" where
  "takenDigest env db name cf e =
     (case Option.bind (findByKey (tableOf 1 db) (strongClassname name (cText (jvmClassname e)))) (\<lambda>c. heap (tableOf 1 db) c) of
        Some (Holds r) \<Rightarrow> if isClassfileUnchanged e r then Inr (digestColumn ClassFileRow r) else digest (envHash env) (parsedClass cf)
      | _ \<Rightarrow> digest (envHash env) (parsedClass cf))"

text \<open>The row of a jar, also after classes were counted in it, and the entries whose class the database does not know.\<close>

definition jarRow :: "database \<Rightarrow> string \<Rightarrow> table_row \<Rightarrow> bool" where
  "jarRow db name r \<longleftrightarrow> length (rowBody r) = 72 \<and> getFilename (dbPool db) r = Inr name"

lemma countClass_iterated:
  "jarRow db name r \<Longrightarrow> jarRow db name ((countClass ^^ n) r) \<and> digestColumn FileRow ((countClass ^^ n) r) = digestColumn FileRow r"
  by (induction n) (simp_all add: jarRow_def countClass_columns)

definition unknownClass :: "database \<Rightarrow> string \<Rightarrow> jar_entry \<Rightarrow> bool" where
  "unknownClass db name e \<longleftrightarrow> findByKey (tableOf 1 db) (strongClassname name (cText (jvmClassname e))) = None"

text \<open>The states of a dry run over the jar whose row \<open>jar\<close> has the address \<open>a\<close>, after \<open>n\<close> classes were counted.\<close>

definition dryState :: "database \<Rightarrow> nat \<Rightarrow> table_row \<Rightarrow> nat \<Rightarrow> task_result \<Rightarrow> jar_task \<Rightarrow> bool" where
  "dryState db a jar n c t \<longleftrightarrow> jarFileRow t = Some a \<and> \<not> fileUnchanged t \<and> \<not> isNewJarFile t \<and> jarTaskResult (jarfiles (taskResults t)) = c \<and>
     taskDb t = jarDb db a ((countClass ^^ n) jar)"

lemma jarTask_reports [simp]:
  "jarTaskResult (jarfiles (asModifiedJarClass opts s b r)) = jarTaskResult (jarfiles r)"
  "jarTaskResult (jarfiles (asNewJarClass opts s r)) = jarTaskResult (jarfiles r)"
  "jarTaskResult (jarfiles (asUnchangedJarClass opts s r)) = jarTaskResult (jarfiles r)"
  "jarTaskResult (jarfiles (incParsed r)) = jarTaskResult (jarfiles r)"
  "jarTaskResult (jarfiles (onJarClasses f r)) = jarTaskResult (jarfiles r)"
  "jarTaskResult (jarfiles (onJarClassTask g r)) = jarTaskResult (jarfiles r)"
  by (simp_all add: asModifiedJarClass_def asNewJarClass_def asUnchangedJarClass_def incParsed_def onJarClassTask_def onJarClasses_def
      inDiff_def addModifiedClass_def addNewClass_def addUnchangedClass_def addClass_def)

lemma onResults_ok: "onResults f t = (Inr (), t\<lparr>taskResults := f (taskResults t)\<rparr>)"
  by (simp add: onResults_def)

lemma dryState_results: "dryState db a jar n c t \<Longrightarrow> jarTaskResult (jarfiles r) = c \<Longrightarrow> dryState db a jar n c (t\<lparr>taskResults := r, digestMap := m\<rparr>)"
  by (simp add: dryState_def)

lemma findClass_dry:
  assumes "dryState db a jar n c t" "jarRow db name jar" "dbTables db \<noteq> []"
    and "\<forall>k b. findByKey (tableOf 1 db) k = Some b \<longrightarrow> (\<exists>r. heap (tableOf 1 db) b = Some (Holds r))"
  shows "\<exists>t' found. findClass e t = (Inr (strongClassname name (cText (jvmClassname e)), found), t') \<and>
    dryState db a jar (if unknownClass db name e then Suc n else n) c t' \<and>
    digestMap t' = digestMap t \<and> (case found of None \<Rightarrow> findByKey (tableOf 1 db) (strongClassname name (cText (jvmClassname e))) = None
      | Some (b, r) \<Rightarrow> findByKey (tableOf 1 db) (strongClassname name (cText (jvmClassname e))) = Some b \<and> heap (tableOf 1 db) b = Some (Holds r))"
proof -
  let ?s = "strongClassname name (cText (jvmClassname e))"
  let ?jar = "(countClass ^^ n) jar"
  have t: "jarFileRow t = Some a" "taskDb t = jarDb db a ?jar" "getFilename (dbPool db) ?jar = Inr name"
    using assms(1) countClass_iterated [OF assms(2)] by (simp_all add: dryState_def jarRow_def)
  have row: "heap (tableOf 0 (taskDb t)) a = Some (Holds ?jar)" and tabs: "tableOf 1 (taskDb t) = tableOf 1 db" "dbPool (taskDb t) = dbPool db"
    using jarDb_tables [OF assms(3)] t(2) by simp_all
  note run = readJarRow_ok [OF t(1) row]
  show ?thesis
  proof (cases "findByKey (tableOf 1 db) ?s")
    case None
    let ?t = "t\<lparr>taskDb := jarDb db a (countClass ?jar)\<rparr>"
    have "findClass e t = (Inr (?s, None), ?t)" using run tabs None t(2,3) writeJarRow_ok [OF t(1) row, of countClass] jarDb_tables(4) [OF assms(3)]
      by (simp add: findClass_def)
    moreover have "dryState db a jar (Suc n) c ?t" using assms(1) by (simp add: dryState_def)
    ultimately show ?thesis using None by (intro exI [of _ ?t] exI [of _ None]) (simp add: unknownClass_def)
  next
    case (Some b)
    then obtain r where r: "heap (tableOf 1 db) b = Some (Holds r)" using assms(4) by blast
    then have "findClass e t = (Inr (?s, Some (b, r)), t)" using run tabs Some t(3) derefIn_ok [of t 1 b r] by (simp add: findClass_def)
    then show ?thesis using Some r assms(1) by (intro exI [of _ t] exI [of _ "Some (b, r)"]) (simp add: unknownClass_def)
  qed
qed

lemma digestEntry_dry:
  assumes "dryState db a jar n c t" "entryOk env cf e" "dryRun (digestOptions (envOptions env))" "digest (envHash env) (parsedClass cf) = Inr x"
  shows "\<exists>t'. digestEntry env e s row t = (Inr (Some x), t') \<and> dryState db a jar n c t' \<and> digestMap t' = digestMap t"
proof -
  let ?f = "case row of Some r \<Rightarrow> asModifiedJarClass (envOptions env) s (x = digestColumn ClassFileRow r) | None \<Rightarrow> asNewJarClass (envOptions env) s"
  let ?t = "t\<lparr>taskResults := incParsed (?f (taskResults t))\<rparr>"
  obtain p where p: "parseEntry env e t = (Inr (True, p), t)" "digest (envHash env) p = Inr x"
    using parseEntry_ok [OF assms(2), of t "envHash env"] assms(4) by auto
  have "digestEntry env e s row t = (Inr (Some x), ?t)" using p assms(3) by (simp add: digestEntry_def onResults_ok)
  moreover have "jarTaskResult (jarfiles (incParsed (?f (taskResults t)))) = c" using assms(1) by (cases row) (simp_all add: dryState_def)
  then have "dryState db a jar n c ?t" using assms(1) by (simp add: dryState_def)
  ultimately show ?thesis by auto
qed

lemma digestProcessEntry_dry:
  assumes t: "dryState db a jar n c t" and jar: "jarRow db name jar" and db: "dbTables db \<noteq> []" "\<forall>k b. findByKey (tableOf 1 db) k = Some b \<longrightarrow> (\<exists>r. heap (tableOf 1 db) b = Some (Holds r))"
    and e: "entryOk env cf e" "dryRun (digestOptions (envOptions env))" "takenDigest env db name cf e = Inr x"
  shows "\<exists>t'. digestProcessEntry env e t = (Inr (), t') \<and> dryState db a jar (if unknownClass db name e then Suc n else n) c t' \<and> digestMap t' = mapAssign (jvmClassname e) x (digestMap t)"
proof -
  let ?s = "strongClassname name (cText (jvmClassname e))" and ?n = "if unknownClass db name e then Suc n else n"
  let ?count = "\<lambda>r. onJarClassTask (\<lambda>c. c\<lparr>taskCount := taskCount c + 1\<rparr>) (onJarClasses (\<lambda>c. c\<lparr>count_cf := count_cf c + 1\<rparr>) r)"
  let ?done = "\<lambda>t :: jar_task. t\<lparr>taskResults := ?count (taskResults t), digestMap := mapAssign (jvmClassname e) x (digestMap t)\<rparr>"
  obtain t1 found where t1: "findClass e t = (Inr (?s, found), t1)" "dryState db a jar ?n c t1" "digestMap t1 = digestMap t"
    and found: "case found of None \<Rightarrow> findByKey (tableOf 1 db) ?s = None
      | Some (b, r) \<Rightarrow> findByKey (tableOf 1 db) ?s = Some b \<and> heap (tableOf 1 db) b = Some (Holds r)"
    using findClass_dry [OF t jar db, of e] by blast
  have finish: "dryState db a jar ?n c (?done u)" if "dryState db a jar ?n c u" for u
    using that by (intro dryState_results) (simp_all add: dryState_def)
  show ?thesis
  proof (cases "case found of Some (b, r) \<Rightarrow> isClassfileUnchanged e r | None \<Rightarrow> False")
    case True
    then obtain b r where r: "found = Some (b, r)" "isClassfileUnchanged e r" by (auto split: option.splits)
    have x: "x = digestColumn ClassFileRow r" using e(3) found r by (simp add: takenDigest_def)
    let ?t = "t1\<lparr>taskResults := asUnchangedJarClass (envOptions env) ?s (taskResults t1)\<rparr>"
    have "dryState db a jar ?n c ?t" using t1(2) by (simp add: dryState_def)
    moreover have "digestProcessEntry env e t = (Inr (), ?done ?t)" using t1(1) r x by (simp add: digestProcessEntry_def onResults_ok rememberDigest_def)
    ultimately show ?thesis using finish [of ?t] t1(3) by (intro exI [of _ "?done ?t"]) simp
  next
    case False
    then have x: "digest (envHash env) (parsedClass cf) = Inr x" using e(3) found by (auto simp: takenDigest_def split: option.splits if_splits)
    obtain t2 where t2: "digestEntry env e ?s (map_option snd found) t1 = (Inr (Some x), t2)" "dryState db a jar ?n c t2" "digestMap t2 = digestMap t1"
      using digestEntry_dry [OF t1(2) e(1,2) x] by blast
    have "digestProcessEntry env e t = (Inr (), ?done t2)"
    proof (cases found)
      case None
      then show ?thesis using t1(1) t2(1) by (simp add: digestProcessEntry_def onResults_ok rememberDigest_def)
    next
      case (Some br)
      then show ?thesis using t1(1) t2(1) False by (cases br) (simp add: digestProcessEntry_def onResults_ok rememberDigest_def)
    qed
    then show ?thesis using finish [OF t2(2)] t1(3) t2(3) by (intro exI [of _ "?done t2"]) simp
  qed
qed

lemma mapProg_dry:
  assumes "dryState db a jar n c t" "dbTables db \<noteq> []" "\<forall>k b. findByKey (tableOf 1 db) k = Some b \<longrightarrow> (\<exists>r. heap (tableOf 1 db) b = Some (Holds r))"
    and "dryRun (digestOptions (envOptions env))" "\<forall>e\<in>set es. entryOk env (cls e) e \<and> takenDigest env db name (cls e) e = Inr (dg e)"
    and "jarRow db name jar"
  shows "\<exists>ys t'. mapProg (digestProcessEntry env) es t = (Inr ys, t') \<and> dryState db a jar (n + length (filter (unknownClass db name) es)) c t' \<and>
    digestMap t' = fold (\<lambda>e. mapAssign (jvmClassname e) (dg e)) es (digestMap t)"
  using assms(1,5)
proof (induction es arbitrary: t n)
  case (Cons e es)
  obtain t1 where t1: "digestProcessEntry env e t = (Inr (), t1)" "dryState db a jar (if unknownClass db name e then Suc n else n) c t1" "digestMap t1 = mapAssign (jvmClassname e) (dg e) (digestMap t)"
    using digestProcessEntry_dry [OF Cons.prems(1) assms(6,2,3), of env "cls e" e "dg e"] assms(4) Cons.prems(2) by auto
  have "\<forall>e\<in>set es. entryOk env (cls e) e \<and> takenDigest env db name (cls e) e = Inr (dg e)" using Cons.prems(2) by simp
  from Cons.IH [OF t1(2) this] obtain ys t2 where "mapProg (digestProcessEntry env) es t1 = (Inr ys, t2)"
    "dryState db a jar ((if unknownClass db name e then Suc n else n) + length (filter (unknownClass db name) es)) c t2"
    "digestMap t2 = fold (\<lambda>e. mapAssign (jvmClassname e) (dg e)) es (digestMap t1)" by blast
  then show ?case using t1(1,3) by (intro exI [of _ "() # ys"] exI [of _ t2]) (simp split: if_splits)
qed simp

text \<open>Bindings entered under distinct names end up sorted by name, whatever the order.\<close>

lemma fold_mapAssign:
  assumes "distinct (map f es)" "f ` set es \<inter> fst ` set m = {}" "sorted (map fst m)" "distinct (map fst m)"
  shows "sorted (map fst (fold (\<lambda>e. mapAssign (f e) (g e)) es m)) \<and> distinct (map fst (fold (\<lambda>e. mapAssign (f e) (g e)) es m)) \<and>
    set (fold (\<lambda>e. mapAssign (f e) (g e)) es m) = (\<lambda>e. (f e, g e)) ` set es \<union> set m"
  using assms
proof (induction es arbitrary: m)
  case (Cons e es)
  have "filter (\<lambda>b. fst b \<noteq> f e) m = m" using Cons.prems(2) by (intro filter_True) force
  then have step: "mapAssign (f e) (g e) m = insort_key fst (f e, g e) m" by (simp add: mapAssign_def)
  have keys: "mset (map fst (insort_key fst (f e, g e) m)) = mset (f e # map fst m)" by (simp add: mset_map mset_insort)
  have new: "f e \<notin> fst ` set m" using Cons.prems(2) by auto
  have "distinct (map fst (insort_key fst (f e, g e) m))" using Cons.prems(4) new by (subst mset_eq_imp_distinct_iff [OF keys]) simp
  moreover have "f ` set es \<inter> fst ` set (insort_key fst (f e, g e) m) = {}" using Cons.prems(1,2) by (auto simp: set_insort_key)
  ultimately show ?case using Cons.IH [of "insort_key fst (f e, g e) m"] Cons.prems(1,3) step sorted_insort_key [of fst "(f e, g e)" m]
    by (auto simp: set_insort_key)
qed simp

lemma fold_mapAssign_sorted:
  assumes "mset es' = mset es" "distinct (map f es)"
  shows "fold (\<lambda>e. mapAssign (f e) (g e)) es' [] = sort_key fst (map (\<lambda>e. (f e, g e)) es)"
proof -
  let ?R = "fold (\<lambda>e. mapAssign (f e) (g e)) es' []" and ?S = "sort_key fst (map (\<lambda>e. (f e, g e)) es)"
  have eq: "set es' = set es" "distinct (map f es')" using assms mset_eq_setD mset_eq_imp_distinct_iff [of "map f es'" "map f es"] by (auto simp: mset_map)
  have R: "sorted (map fst ?R)" "distinct (map fst ?R)" "set ?R = (\<lambda>e. (f e, g e)) ` set es" using fold_mapAssign [OF eq(2), of "[]" g] eq(1) by simp_all
  have "mset (map fst ?S) = mset (map f es)" by (simp add: mset_map image_mset.compositionality comp_def)
  then have S: "distinct (map fst ?S)" using assms(2) mset_eq_imp_distinct_iff by blast
  have "set ?S = set ?R" using R(3) by simp
  moreover from this have "inj_on fst (set ?R \<union> set ?S)" using R(2) by (simp add: distinct_map)
  ultimately show ?thesis using R S by (intro map_sorted_distinct_set_unique [of fst]) simp_all
qed

text \<open>A database with well-formed tables of files and classes.\<close>

definition jarStore :: "database \<Rightarrow> table_row list \<Rightarrow> string list \<Rightarrow> table_row list \<Rightarrow> string list \<Rightarrow> bool" where
  "jarStore db rs ks cs cks \<longleftrightarrow> 1 < length (dbTables db) \<and>
     tableRep (keyAt db 0) (tableOf 0 db) rs ks \<and> keyOf (dbTables db ! 0) = filesKey \<and> rowSize (tableOf 0 db) = sizeOf FileRow \<and>
     tableRep (keyAt db 1) (tableOf 1 db) cs cks \<and> keyOf (dbTables db ! 1) = classFilesKey 0 \<and> rowSize (tableOf 1 db) = sizeOf ClassFileRow"

lemma jarStore_file:
  assumes "jarStore db rs ks cs cks" "i < length rs" "ks ! i = name"
  shows "\<exists>a. findByKey (tableOf 0 db) name = Some a \<and> heap (tableOf 0 db) a = Some (Holds (rs ! i)) \<and> autoIncrementIndex (tableOf 0 db) ! i = a \<and>
    length (rowBody (rs ! i)) = 72 \<and> getFilename (dbPool db) (rs ! i) = Inr name"
proof -
  let ?a = "autoIncrementIndex (tableOf 0 db) ! i"
  have t: "tableRep (keyAt db 0) (tableOf 0 db) rs ks" "keyAt db 0 = filesKey (dbPool db) (dbLookup db)" "rowSize (tableOf 0 db) = 88"
    using assms(1) unfolding jarStore_def keyAt_def by (auto simp: sizeOf_def layout_defs)
  have "map_of (tableRows (tableOf 0 db)) name = Some ?a" using map_of_rep [OF t(1)] assms(2,3) by blast
  then show ?thesis using t assms(2,3) by (simp add: findByKey_def tableRep_def filesKey_def getFilename_def)
qed

lemma jarStore_class:
  assumes "jarStore db rs ks cs cks"
  shows "findByKey (tableOf 1 db) k = Some b \<longleftrightarrow> (\<exists>i<length cs. cks ! i = k \<and> autoIncrementIndex (tableOf 1 db) ! i = b)"
    "i < length cs \<Longrightarrow> heap (tableOf 1 db) (autoIncrementIndex (tableOf 1 db) ! i) = Some (Holds (cs ! i))"
proof -
  have t: "tableRep (keyAt db 1) (tableOf 1 db) cs cks" using assms by (simp add: jarStore_def)
  show "findByKey (tableOf 1 db) k = Some b \<longleftrightarrow> (\<exists>i<length cs. cks ! i = k \<and> autoIncrementIndex (tableOf 1 db) ! i = b)"
    using map_of_rep [OF t] by (simp add: findByKey_def)
  show "i < length cs \<Longrightarrow> heap (tableOf 1 db) (autoIncrementIndex (tableOf 1 db) ! i) = Some (Holds (cs ! i))" using t by (simp add: tableRep_def)
qed

definition newTask :: "database \<Rightarrow> results \<Rightarrow> string list \<Rightarrow> jar_task" where
  "newTask db res lg = \<lparr>taskDb = db, taskResults = res, taskLog = lg, ownerIndexes = replicate 5 Map.empty, tempFileRow = None, jarFileRow = None, fileUnchanged = False,
     isNewJarFile = False, jarSize = 0, jarTimestamp = 0, digestMap = []\<rparr>"

definition sameFile :: "task_env \<Rightarrow> u8 \<Rightarrow> u8 \<Rightarrow> table_row \<Rightarrow> bool" where
  "sameFile env sz timestamp r \<longleftrightarrow> useFileTimestamp (envOptions env) \<and> column8 FileRow ''fileSize'' r = sz \<and> column8 FileRow ''lastWriteTime'' r = timestamp"

lemma digestStart_known:
  assumes "findByKey (tableOf 0 db) name = Some a" "heap (tableOf 0 db) a = Some (Holds jar)" "input (digestOptions (envOptions env)) = name"
    and "envStat env name = Inr (sz, timestamp)"
  shows "digestStart env (newTask db res lg) = (Inr (\<not> sameFile env sz timestamp jar),
    (newTask db res lg)\<lparr>jarSize := sz, jarTimestamp := timestamp, jarFileRow := Some a, fileUnchanged := sameFile env sz timestamp jar\<rparr>)"
proof -
  have "getOrCreateFileRow env name t = (Inr a, t\<lparr>isNewJarFile := False\<rparr>)" if "taskDb t = db" for t
    using that assms(1) by (simp add: getOrCreateFileRow_def getFileRow_def)
  moreover have "isFileUnchanged env t = (Inr (sameFile env sz timestamp jar), t)"
    if "taskDb t = db" "jarFileRow t = Some a" "\<not> isNewJarFile t" "jarSize t = sz" "jarTimestamp t = timestamp" for t
    using that assms(2) readJarRow_ok [of t a jar] by (simp add: isFileUnchanged_def sameFile_def)
  ultimately show ?thesis using assms(3,4) by (simp add: digestStart_def newTask_def)
qed

lemma digestEnd_dry:
  assumes t: "dryState db a r n c t" and r: "jarRow db name r" and db: "dbTables db \<noteq> []" and dry: "dryRun (digestOptions (envOptions env))"
  shows "\<exists>t'. digestEnd env t = (Inr (), t') \<and> taskDb t' = taskDb t \<and>
    jarTaskResult (jarfiles (taskResults t')) = incSame (digestColumn FileRow r = jarDigest (envHash env) (digestMap t)) (c\<lparr>taskCount := taskCount c + 1\<rparr>)"
proof -
  define jar where "jar = (countClass ^^ n) r"
  have jar: "jarFileRow t = Some a" "taskDb t = jarDb db a jar" "digestColumn FileRow jar = digestColumn FileRow r"
    using t countClass_iterated [OF r] by (simp_all add: dryState_def jar_def)
  have row: "heap (tableOf 0 (jarDb db a jar)) a = Some (Holds jar)" by (rule jarDb_tables(1) [OF db])
  have "readJarRow (t\<lparr>taskResults := r\<rparr>) = (Inr jar, t\<lparr>taskResults := r\<rparr>)" for r using jar(1,2) row by (intro readJarRow_ok) simp_all
  then show ?thesis using t jar(3) dry
    by (simp add: digestEnd_def Let_def onResults_ok dryState_def addClassfileCount_def asModifiedJar_def onJarTask_def inDiff_def addModifiedFile_def addFile_def)
qed

text \<open>(C10)
  A dry run over a jar that the database knows, whose size or time stamp differs from the recorded ones, and
  whose class entries are all encoded class files with pairwise distinct class names and defined digests.  The
  run returns and leaves the database as it is, except that the count of classes in the row of the jar grows by
  the number of entries whose class the database does not know; nothing else of that row changes.  It counts
  the jar as having the same public digest exactly when the digest stored for it is the hash of the digests of
  its classes in the order of their names, where an unchanged class contributes its stored digest and any other
  class the digest of its parsed content.  The order of the entries in the archive does not matter.
\<close>

theorem dry_run_compares_digests:
  assumes "jarStore db rs ks cs cks" "i < length rs" "ks ! i = name" "input (digestOptions (envOptions env)) = name"
    and "dryRun (digestOptions (envOptions env))" "envStat env name = Inr (sz, timestamp)" "\<not> sameFile env sz timestamp (rs ! i)"
    and "\<forall>e\<in>set (classEntries es). entryOk env (cls e) e \<and> takenDigest env db name (cls e) e = Inr (dg e)"
    and "distinct (map jvmClassname (classEntries es))" "mset es' = mset es"
  shows "\<exists>a t. runDigest env es' (newTask db res lg) = (Inr (), t) \<and> findByKey (tableOf 0 db) name = Some a \<and>
    taskDb t = jarDb db a ((countClass ^^ length (filter (unknownClass db name) (classEntries es))) (rs ! i)) \<and>
    jarTaskResult (jarfiles (taskResults t)) =
      incSame (digestColumn FileRow (rs ! i) = jarDigest (envHash env) (sort_key fst (map (\<lambda>e. (jvmClassname e, dg e)) (classEntries es))))
        ((jarTaskResult (jarfiles res))\<lparr>taskCount := taskCount (jarTaskResult (jarfiles res)) + 1\<rparr>)"
proof -
  let ?c = "jarTaskResult (jarfiles res)" and ?d = "digestColumn FileRow (rs ! i)"
  obtain a where a: "findByKey (tableOf 0 db) name = Some a" "heap (tableOf 0 db) a = Some (Holds (rs ! i))" "length (rowBody (rs ! i)) = 72"
    "getFilename (dbPool db) (rs ! i) = Inr name" using jarStore_file [OF assms(1-3)] by blast
  have db: "dbTables db \<noteq> []" "\<forall>k b. findByKey (tableOf 1 db) k = Some b \<longrightarrow> (\<exists>r. heap (tableOf 1 db) b = Some (Holds r))"
    using assms(1) jarStore_class [OF assms(1)] by (auto simp: jarStore_def)
  let ?t = "(newTask db res lg)\<lparr>jarSize := sz, jarTimestamp := timestamp, jarFileRow := Some a, fileUnchanged := False\<rparr>"
  have start: "digestStart env (newTask db res lg) = (Inr True, ?t)" using digestStart_known [OF a(1,2) assms(4,6), of res lg] assms(7) by simp
  have jar: "jarRow db name (rs ! i)" using a(3,4) by (simp add: jarRow_def)
  have t: "dryState db a (rs ! i) 0 ?c ?t" using jarDb_self [OF a(2)] by (simp add: dryState_def newTask_def)
  have same: "mset (classEntries es') = mset (classEntries es)" using assms(10) by (simp add: classEntries_def mset_filter mset_map)
  then have "\<forall>e\<in>set (classEntries es'). entryOk env (cls e) e \<and> takenDigest env db name (cls e) e = Inr (dg e)" using assms(8) mset_eq_setD by blast
  let ?n = "length (filter (unknownClass db name) (classEntries es))"
  have "length (filter (unknownClass db name) (classEntries es')) = ?n" using same by (metis mset_filter size_mset)
  with mapProg_dry [OF t db assms(5) _ jar, of "classEntries es'" cls dg] \<open>\<forall>e\<in>set (classEntries es'). _\<close>
  obtain ys t1 where t1: "mapProg (digestProcessEntry env) (classEntries es') ?t = (Inr ys, t1)"
    "dryState db a (rs ! i) ?n ?c t1" "digestMap t1 = fold (\<lambda>e. mapAssign (jvmClassname e) (dg e)) (classEntries es') []" by (auto simp: newTask_def)
  have "digestMap t1 = sort_key fst (map (\<lambda>e. (jvmClassname e, dg e)) (classEntries es))" using t1(3) fold_mapAssign_sorted [OF same assms(9)] by simp
  with digestEnd_dry [OF t1(2) jar db(1) assms(5)] obtain t2 where t2: "digestEnd env t1 = (Inr (), t2)" "taskDb t2 = taskDb t1"
    "jarTaskResult (jarfiles (taskResults t2)) = incSame (?d = jarDigest (envHash env) (sort_key fst (map (\<lambda>e. (jvmClassname e, dg e)) (classEntries es))))
      (?c\<lparr>taskCount := taskCount ?c + 1\<rparr>)" by auto
  let ?t3 = "t2\<lparr>taskResults := (taskResults t2)\<lparr>jarfiles := (jarfiles (taskResults t2))\<lparr>jarParsedCount := jarParsedCount (jarfiles (taskResults t2)) + 1\<rparr>\<rparr>\<rparr>"
  have "runDigest env es' (newTask db res lg) = (Inr (), ?t3)" using start t1(1) t2(1) by (simp add: runDigest_def runTasks_classes onResults_ok)
  moreover have "taskDb t1 = jarDb db a ((countClass ^^ ?n) (rs ! i))" using t1(2) by (simp add: dryState_def)
  ultimately show ?thesis using a(1) t2(2,3) by (intro exI [of _ a] exI [of _ ?t3]) simp
qed

section \<open>A changed class\<close>

lemma tableRep_key: "tableRep key t rs ks \<Longrightarrow> (\<And>i. i < length rs \<Longrightarrow> key' (rs ! i) = Inr (ks ! i)) \<Longrightarrow> tableRep key' t rs ks"
  by (simp add: tableRep_def)

lemma tableRep_fresh:
  assumes "tableRep key t rs ks"
  shows "tableRep key (t\<lparr>heap := (heap t)(nextAddress t \<mapsto> c), nextAddress := nextAddress t + 1\<rparr>) rs ks"
    "Db_Table.allocated (t\<lparr>heap := (heap t)(nextAddress t \<mapsto> Holds r), nextAddress := nextAddress t + 1\<rparr>) (nextAddress t) r"
proof -
  have "autoIncrementIndex t ! i \<noteq> nextAddress t" if "i < length rs" for i
    using assms that unfolding tableRep_def by (metis nth_mem less_irrefl)
  then show "tableRep key (t\<lparr>heap := (heap t)(nextAddress t \<mapsto> c), nextAddress := nextAddress t + 1\<rparr>) rs ks"
    using assms by (auto simp: tableRep_def less_Suc_eq)
  show "Db_Table.allocated (t\<lparr>heap := (heap t)(nextAddress t \<mapsto> Holds r), nextAddress := nextAddress t + 1\<rparr>) (nextAddress t) r"
    using assms by (auto simp: Db_Table.allocated_def tableRep_def)
qed

lemma newRow_ok: "newRow r t = (Inr (nextAddress t), t\<lparr>heap := (heap t)(nextAddress t \<mapsto> Holds r), nextAddress := nextAddress t + 1\<rparr>)"
  by (cases t) (simp add: newRow_def allocateRow_def)

lemma classFileBody_columns:
  "column8 ClassFileRow ''file'' (nodeRow (classFileBody jar h ts sz crc d)) = jar"
  "column8 ClassFileRow ''classname'' (nodeRow (classFileBody jar h ts sz crc d)) = h"
  by (simp_all add: column8_body nodeRow_def classFileBody_def layout_defs)

lemma enterNode_stale:
  assumes "keyAt db j (nodeRow body) = Inr k" "tableRep (keyAt db j) (tableOf j db) rs ks" "Db_Table.allocated (tableOf j db) a r" "k \<in> set ks"
  shows "fst (enterNode j a body db) = Inl Undefined"
proof -
  let ?t = "tableOf j db" let ?t' = "?t\<lparr>heap := (heap ?t)(a \<mapsto> Holds (nodeRow body))\<rparr>"
  have "autoIncrementIndex ?t ! i \<noteq> a" if "i < length rs" for i
    using assms(2,3) that unfolding Db_Table.allocated_def tableRep_def by (metis nth_mem)
  then have "tableRep (keyAt db j) ?t' rs ks" using assms(2) by (auto simp: tableRep_def)
  moreover have "Db_Table.allocated ?t' a (nodeRow body)" "heap ?t a \<noteq> None" using assms(3) by (auto simp: Db_Table.allocated_def)
  ultimately have "fst (addOrUpdate (keyAt db j) a ?t') = Inl Undefined" "assign a (nodeRow body) ?t = (Inr (), ?t')"
    using addOrUpdate_stale assms(1,4) by auto
  then show ?thesis unfolding enterNode_def by (intro onTable_fails) (simp add: andThen_fails)
qed

lemma addOrUpdateClassfile_stale:
  assumes store: "jarStore (taskDb t) rs ks cs cks" and pool: "poolOk (dbPool (taskDb t))"
    and i: "i < length rs" "ks ! i = name" "jarFileRow t = Some (autoIncrementIndex (tableOf 0 (taskDb t)) ! i)"
    and cn: "getUniqueClassname e p = Inr cn" "NUL \<notin> set cn" "length cn + 1 \<le> poolRoom (dbPool (taskDb t))" "strongClassname name cn \<in> set cks"
  shows "fst (addOrUpdateClassfile env e d p t) = Inl Undefined"
proof -
  let ?db = "taskDb t" let ?t0 = "tableOf 0 ?db" and ?t1 = "tableOf 1 ?db" let ?jar = "rs ! i" let ?a = "nextAddress ?t1"
  let ?blank = "nodeRow (classFileBody (rowId ?jar) 0 0 0 0 emptyDigestCol)"
  let ?t1' = "?t1\<lparr>heap := (heap ?t1)(?a \<mapsto> Holds ?blank), nextAddress := ?a + 1\<rparr>"
  define db1 where "db1 = setTable 1 ?t1' ?db"
  have len: "1 < length (dbTables ?db)" and rep0: "tableRep (keyAt ?db 0) ?t0 rs ks" and rep1: "tableRep (keyAt ?db 1) ?t1 cs cks"
    and key1: "keyOf (dbTables ?db ! 1) = classFilesKey 0" using store by (simp_all add: jarStore_def)
  obtain jarcell: "heap ?t0 (autoIncrementIndex ?t0 ! i) = Some (Holds ?jar)" and name: "getFilename (dbPool ?db) ?jar = Inr name"
    using jarStore_file [OF store i(1,2)] by blast
  have id: "rowId ?jar = of_nat i" "length rs < 2 ^ 64" using rep0 i(1) by (simp_all add: tableRep_def)
  have tabs: "tableOf 0 db1 = ?t0" "tableOf 1 db1 = ?t1'" "dbPool db1 = dbPool ?db" "length (dbTables db1) = length (dbTables ?db)"
    "keyOf (dbTables db1 ! 1) = classFilesKey 0"
    using tableOf_set(1,2) [OF len] tableOf_set(3) [of 1 ?t1' ?db 1] key1 by (simp_all add: db1_def setTable_def)
  from getPoolString_ok [of db1 cn "envBlock env"] pool cn(2,3) tabs(3) obtain h q where
    q: "internText (envBlock env) (Inr cn) db1 = (Inr h, db1\<lparr>dbPool := q\<rparr>)" "getCString q (unat h) = Inr cn" "poolExtends (dbPool ?db) q" by auto
  let ?db2 = "db1\<lparr>dbPool := q\<rparr>" let ?body = "classFileBody (rowId ?jar) h (entryLastWriteTime e) (zipSize (zipEntry e)) (zipCRC (zipEntry e)) d"
  have l0: "0 < length (dbTables ?db2)" "0 < length (dbTables ?db)" using tabs(4) len by auto
  have r0: "tableRep (keyAt ?db 0) (tableOf 0 ?db2) rs ks" using rep0 tabs(1) by simp
  have look: "dbLookup ?db2 0 = lookupRows rs" "dbLookup ?db 0 = lookupRows rs"
    by (rule dbLookup_rep [OF l0(1) r0], rule dbLookup_rep [OF l0(2) rep0])
  have keyAt2: "keyAt ?db2 1 = classFilesKey 0 q (dbLookup ?db2)" using tabs(5) by (simp add: keyAt_def)
  have "keyAt ?db2 1 (nodeRow ?body) = Inr (strongClassname name cn)"
    using keyAt2 look(1) id i(1) q(2) name getCString_extends [OF _ q(3)]
    by (auto simp: classFilesKey_def getStrongClassname_def classFileBody_columns textColumn_def lookupRows_def unat_of_nat_less getFilename_def bindR_Inr_iff)
  moreover have "tableRep (keyAt ?db2 1) (tableOf 1 ?db2) cs cks"
  proof (rule tableRep_key)
    show "tableRep (keyAt ?db 1) (tableOf 1 ?db2) cs cks" using tableRep_fresh(1) [OF rep1] tabs(2) by simp
    show "keyAt ?db2 1 (cs ! k) = Inr (cks ! k)" if "k < length cs" for k
    proof -
      have "classFilesKey 0 (dbPool ?db) (dbLookup ?db) (cs ! k) = Inr (cks ! k)" using rep1 key1 that by (simp add: tableRep_def keyAt_def)
      then show ?thesis unfolding keyAt2 using look getCString_extends [OF _ q(3)]
        by (auto simp: classFilesKey_def getStrongClassname_def textColumn_def getFilename_def bindR_Inr_iff)
    qed
  qed
  moreover have "Db_Table.allocated (tableOf 1 ?db2) ?a ?blank" using tableRep_fresh(2) [OF rep1] tabs(2) by simp
  ultimately have stale: "fst (enterNode 1 ?a ?body ?db2) = Inl Undefined" by (intro enterNode_stale) (use cn(4) in simp_all)
  have "readJarRow t = (Inr ?jar, t)" by (rule readJarRow_ok [OF i(3) jarcell])
  moreover have "onDb (onTable 1 (\<lambda>_. newRow ?blank)) t = (Inr ?a, t\<lparr>taskDb := db1\<rparr>)"
    by (simp add: db1_def onDb_def onTable_def newRow_ok)
  moreover have "onDb (internText (envBlock env) (Inr cn)) (t\<lparr>taskDb := db1\<rparr>) = (Inr h, t\<lparr>taskDb := ?db2\<rparr>)" using q(1) by (simp add: onDb_def)
  moreover have "fst (onDb (enterNode 1 ?a ?body) (t\<lparr>taskDb := ?db2\<rparr>)) = Inl Undefined" using stale by (auto simp: onDb_def split: prod.split)
  ultimately show ?thesis using cn(1) by (simp add: addOrUpdateClassfile_def andThen_fails)
qed

lemma findClass_known:
  assumes store: "jarStore (taskDb t) rs ks cs cks" and i: "i < length rs" "ks ! i = name" "jarFileRow t = Some (autoIncrementIndex (tableOf 0 (taskDb t)) ! i)"
    and k: "k < length cs" "cks ! k = strongClassname name (cText (jvmClassname e))"
  shows "findClass e t = (Inr (cks ! k, Some (autoIncrementIndex (tableOf 1 (taskDb t)) ! k, cs ! k)), t)"
proof -
  obtain jarcell: "heap (tableOf 0 (taskDb t)) (autoIncrementIndex (tableOf 0 (taskDb t)) ! i) = Some (Holds (rs ! i))"
    and name: "getFilename (dbPool (taskDb t)) (rs ! i) = Inr name" using jarStore_file [OF store i(1,2)] by blast
  let ?b = "autoIncrementIndex (tableOf 1 (taskDb t)) ! k"
  have "findByKey (tableOf 1 (taskDb t)) (cks ! k) = Some ?b" using jarStore_class(1) [OF store] k(1) by blast
  moreover have "derefIn 1 ?b t = (Inr (cs ! k), t)" by (rule derefIn_ok [OF jarStore_class(2) [OF store k(1)]])
  ultimately show ?thesis using readJarRow_ok [OF i(3) jarcell] name k(2) by (simp add: findClass_def)
qed

lemma deleteOwned_none: "\<forall>ct\<in>set cts. ownerClassIndex ct = Map.empty \<Longrightarrow> deleteClassAll classId cts = (Inr 0, cts)"
  by (induction cts) (simp_all add: deleteClass_def fun_upd_idem)

lemma deleteGraphClass_none:
  assumes "ownerIndexes t = replicate 5 Map.empty"
  shows "deleteGraphClass classId t = (Inr 0, t)"
proof -
  have idx: "ownerIndexes t = [Map.empty, Map.empty, Map.empty, Map.empty, Map.empty]" using assms by (simp add: numeral_eq_Suc)
  have "deleteClassAll classId (ownedTables t) = (Inr 0, ownedTables t)" by (rule deleteOwned_none) (simp add: ownedTables_def idx)
  then show ?thesis by (simp add: deleteGraphClass_def ownedTables_def idx)
qed

text \<open>(C11)
  A class of a known jar whose entry has changed since it was recorded: outside a dry run both the
  digest task and the graph task end in undefined behaviour, because the row they enter for the
  class has the key of the stored one, which is not removed first.  (For the graph task,
  \<^verbatim>\<open>deleteClass\<close> finds nothing to delete: the indexes it consults are empty.)
\<close>

theorem changed_class_undefined:
  assumes "jarStore (taskDb t) rs ks cs cks" "poolOk (dbPool (taskDb t))" "i < length rs" "ks ! i = name"
    and "jarFileRow t = Some (autoIncrementIndex (tableOf 0 (taskDb t)) ! i)" "ownerIndexes t = replicate 5 Map.empty"
    and "k < length cs" "cks ! k = strongClassname name (jvmClassname e)" "\<not> isClassfileUnchanged e (cs ! k)"
    and "entryOk env cf e" "digest (envHash env) (parsedClass cf) = Inr d" "getMainClassname (parsedClass cf) = Inr (jvmClassname e)"
    and "NUL \<notin> set (jvmClassname e)" "length (jvmClassname e) + 1 \<le> poolRoom (dbPool (taskDb t))" "\<not> dryRun (digestOptions (envOptions env))"
  shows "fst (digestProcessEntry env e t) = Inl Undefined \<and> (\<exists>t'. graphProcessEntry env e t = Some (Inl Undefined, t'))"
proof -
  have "cText (jvmClassname e) = jvmClassname e" using assms(13) by (auto simp: cText_def takeWhile_eq_all_conv)
  then have found: "findClass e t = (Inr (cks ! k, Some (autoIncrementIndex (tableOf 1 (taskDb t)) ! k, cs ! k)), t)"
    using findClass_known [OF assms(1,3,4,5,7)] assms(8) by simp
  have mem: "strongClassname name (jvmClassname e) \<in> set cks" using assms(1,7,8) nth_mem [of k cks] by (simp add: jarStore_def tableRep_def)
  obtain p where p: "parseEntry env e t = (Inr (True, p), t)" "parsedAs cf p" "digest (envHash env) p = Inr d"
    using parseEntry_ok [OF assms(10), of t "envHash env"] assms(11) by auto
  have "getMainClassname p = getMainClassname (parsedClass cf)" using p(2) by (simp add: getMainClassname_def parsedAs_def parsedClass_def)
  then have cn: "getUniqueClassname e p = Inr (jvmClassname e)" using assms(12) by (simp add: getUniqueClassname_def)
  have stale: "fst (addOrUpdateClassfile env e x p (t\<lparr>taskResults := r\<rparr>)) = Inl Undefined" for x r
    by (rule addOrUpdateClassfile_stale [where rs = rs and ks = ks and cs = cs and cks = cks and i = i and name = name and cn = "jvmClassname e"])
      (use assms(1-5,13,14) cn mem in simp_all)
  have "fst (digestEntry env e (cks ! k) (Some (cs ! k)) t) = Inl Undefined" using p assms(15) stale by (simp add: digestEntry_def onResults_ok andThen_fails)
  then have digest: "fst (digestProcessEntry env e t) = Inl Undefined" using found assms(9) by (simp add: digestProcessEntry_def andThen_fails)
  have "fst (addOrUpdateClassfile env e emptyDigestCol p t) = Inl Undefined" using stale [of emptyDigestCol "taskResults t"] by simp
  then obtain t' where t': "addOrUpdateClassfile env e emptyDigestCol p t = (Inl Undefined, t')" by (cases "addOrUpdateClassfile env e emptyDigestCol p t") auto
  have "processClassFile env e (cks ! k) (Some (cs ! k)) t = Some (Inl Undefined, t')"
    using p(1) t' deleteGraphClass_none [OF assms(6)] by (simp add: processClassFile_def)
  then show ?thesis using found assms(9) digest by (simp add: graphProcessEntry_def)
qed

section \<open>A sample\<close>

definition blankClass :: class_file where
  "blankClass = \<lparr>cfMinor = 0, cfMajor = 52, cfPool = [], cfMain = \<lparr>classAccessFlags = 0x21, thisClass = 0, superClass = 0\<rparr>, cfInterfaces = [],
     cfFields = [], cfMethods = [], cfAttributes = []\<rparr>"

definition sampleEntry :: "string \<Rightarrow> zip_entry" where
  "sampleEntry name = \<lparr>zipName = name, zipIsFile = True, zipDate = 0, zipSize = of_nat (length (encClassFile blankClass)), zipCRC = 0,
     zipContent = encClassFile blankClass\<rparr>"

definition sampleEnv :: "bool \<Rightarrow> task_env" where
  "sampleEnv dry = \<lparr>envOptions = defaultOptions\<lparr>isPublicDigest := True, digestOptions := defaultSubCommand\<lparr>dryRun := dry\<rparr>\<rparr>, envHash = paddedHash,
     envHost = False, envBlock = 0, envBuffer = Some \<circ> zipContent, envStat = \<lambda>_. Inr (1, 1)\<rparr>"

lemma blankClass_digest: "\<exists>d. digest paddedHash (parsedClass blankClass) = Inr d"
  by (simp add: digest_def classBuffer_def parsedClass_def blankClass_def newParser_def digestClassInfo_def digestUtf8Entry_def
      digestAttributes_def digestPublicMethods_def digestPublicFields_def digestInterfaces_def)

lemma blankClass_entry: "entryOk (sampleEnv dry) blankClass (newJarEntry (sampleEntry name))"
  by (simp add: entryOk_def sampleEnv_def sampleEntry_def newJarEntry_def Let_def sizedClassFile_def blankClass_def poolOf_def slots_def
      encClassFile_def encContents_def)

lemma sample_store: "\<exists>db. jarStore db [sampleFile] [[]] [sampleOwner] [[]] \<and> poolOk (dbPool db) \<and> poolRoom (dbPool db) = StartPoolSize - 1"
proof -
  let ?rss = "(replicate 10 [])[0 := [sampleFile], 1 := [sampleOwner]]" and ?kss = "(replicate 10 [])[0 := [[]], 1 := [[]]]"
  obtain db where db: "graphState db (\<lambda>_. None) ?rss ?kss" "poolRoom (dbPool db) = StartPoolSize - 1" using sample_state by blast
  have len: "length (dbTables db) = 10" using graphState_length [OF db(1)] by simp
  have key: "keyOf (dbTables db ! j) = callGraphKeys ! j" if "j < 10" for j using db(1) that len by (metis graphState_def nth_map)
  have "rowSize (tableOf j db) = sizeOf (graphLayouts ! j)" if "j < 10" for j using db(1) that by (simp add: graphState_def)
  from this [of 0] this [of 1] have size: "rowSize (tableOf 0 db) = sizeOf FileRow" "rowSize (tableOf 1 db) = sizeOf ClassFileRow" by (simp_all add: graphLayouts_def)
  have "jarStore db [sampleFile] [[]] [sampleOwner] [[]]"
    using graphState_table(1) [OF db(1), of 0] graphState_table(1) [OF db(1), of 1] key [of 0] key [of 1] size len
    by (simp add: jarStore_def callGraphKeys_def)
  moreover have "poolOk (dbPool db)" using db(1) by (auto simp: graphState_def databaseOk_def poolOk_def)
  ultimately show ?thesis using db(2) by blast
qed

theorem dry_run_compares_digests_witness:
  "\<exists>db t d. digest paddedHash (parsedClass blankClass) = Inr d \<and>
     runDigest (sampleEnv True) [sampleEntry ''A.class''] (newTask db newResults []) = (Inr (), t) \<and>
     jarTaskResult (jarfiles (taskResults t)) =
       incSame (digestColumn FileRow sampleFile = jarDigest paddedHash [(''A'', d)]) (noTaskResult\<lparr>taskCount := 1\<rparr>)"
proof -
  obtain db where db: "jarStore db [sampleFile] [[]] [sampleOwner] [[]]" using sample_store by blast
  obtain d where d: "digest paddedHash (parsedClass blankClass) = Inr d" using blankClass_digest by blast
  let ?e = "newJarEntry (sampleEntry ''A.class'')" let ?env = "sampleEnv True"
  have es: "classEntries [sampleEntry ''A.class''] = [?e]" and cn: "jvmClassname ?e = ''A''"
    by (simp_all add: classEntries_def newJarEntry_def sampleEntry_def ClassFileExt_def ExtensionLength_def suffix_def Let_def)
  have "findByKey (tableOf 1 db) (strongClassname [] ''A'') = None"
  proof (cases "findByKey (tableOf 1 db) (strongClassname [] ''A'')")
    case (Some b)
    then show ?thesis using jarStore_class(1) [OF db] by (simp add: strongClassname_def)
  qed
  then have "takenDigest ?env db [] blankClass ?e = Inr d" using d cn by (simp add: takenDigest_def cText_def sampleEnv_def)
  moreover have "column8 FileRow ''fileSize'' sampleFile = 0" using getU8_zeros by (simp add: column8_body FileRow_offsets nodeRow_def)
  then have "\<not> sameFile ?env 1 1 ([sampleFile] ! 0)" by (simp add: sameFile_def)
  moreover have "input (digestOptions (envOptions ?env)) = []" "dryRun (digestOptions (envOptions ?env))" "envStat ?env [] = Inr (1, 1)"
    by (simp_all add: sampleEnv_def defaultSubCommand_def)
  ultimately obtain t where "runDigest ?env [sampleEntry ''A.class''] (newTask db newResults []) = (Inr (), t)"
    "jarTaskResult (jarfiles (taskResults t)) = incSame (digestColumn FileRow sampleFile = jarDigest paddedHash [(''A'', d)])
       ((jarTaskResult (jarfiles newResults))\<lparr>taskCount := taskCount (jarTaskResult (jarfiles newResults)) + 1\<rparr>)"
    using dry_run_compares_digests [OF db, of 0 "[]" ?env 1 1 "[sampleEntry ''A.class'']" "\<lambda>_. blankClass" "\<lambda>_. d" "[sampleEntry ''A.class'']" newResults "[]"]
      blankClass_entry es cn by (auto simp: sampleEnv_def)
  then show ?thesis using d by (intro exI [of _ db] exI [of _ t] exI [of _ d]) (simp add: newResults_def noTaskResult_def)
qed

theorem changed_class_undefined_witness:
  "\<exists>t. fst (digestProcessEntry (sampleEnv False) (newJarEntry (sampleEntry ''.class'')) t) = Inl Undefined \<and>
     (\<exists>t'. graphProcessEntry (sampleEnv False) (newJarEntry (sampleEntry ''.class'')) t = Some (Inl Undefined, t'))"
proof -
  obtain db where db: "jarStore db [sampleFile] [[]] [sampleOwner] [[]]" "poolOk (dbPool db)" "poolRoom (dbPool db) = StartPoolSize - 1" using sample_store by blast
  obtain d where d: "digest (envHash (sampleEnv False)) (parsedClass blankClass) = Inr d" using blankClass_digest by (auto simp: sampleEnv_def)
  let ?e = "newJarEntry (sampleEntry ''.class'')" let ?t = "(newTask db newResults [])\<lparr>jarFileRow := Some (autoIncrementIndex (tableOf 0 db) ! 0)\<rparr>"
  have t: "taskDb ?t = db" "jarFileRow ?t = Some (autoIncrementIndex (tableOf 0 db) ! 0)" "ownerIndexes ?t = replicate 5 Map.empty" by (simp_all add: newTask_def)
  have cn: "jvmClassname ?e = []" by (simp add: newJarEntry_def sampleEntry_def ClassFileExt_def ExtensionLength_def suffix_def Let_def)
  have "column8 ClassFileRow ''size'' sampleOwner = 0" using getU8_zeros by (simp add: column8_body layout_defs nodeRow_def)
  then have "\<not> isClassfileUnchanged ?e ([sampleOwner] ! 0)"
    by (simp add: isClassfileUnchanged_def newJarEntry_def sampleEntry_def Let_def blankClass_def encClassFile_def encContents_def)
  moreover have "getMainClassname (parsedClass blankClass) = Inr (jvmClassname ?e)"
    by (simp add: cn getMainClassname_def getClassInfoName_def parsedClass_def blankClass_def newParser_def)
  moreover have "\<not> dryRun (digestOptions (envOptions (sampleEnv False)))" by (simp add: sampleEnv_def)
  ultimately have "fst (digestProcessEntry (sampleEnv False) ?e ?t) = Inl Undefined \<and> (\<exists>t'. graphProcessEntry (sampleEnv False) ?e ?t = Some (Inl Undefined, t'))"
    by (intro changed_class_undefined [where rs = "[sampleFile]" and ks = "[[]]" and cs = "[sampleOwner]" and cks = "[[]]" and i = 0 and k = 0 and name = "[]" and cf = blankClass and d = d])
      (use db t cn d blankClass_entry in \<open>simp_all add: strongClassname_def StartPoolSize_def\<close>)
  then show ?thesis by blast
qed

end
