(* ===== verification/Graph_Export.thy ===== *)
theory Graph_Export
  imports Graph_Link
begin

text \<open>
  The exporter of the call graph (\<^verbatim>\<open>app/commands/callgraph/CallGraphExporter.cpp\<close>): a node per
  class, a node per unresolved name, an edge per row of the edge tables and per unresolved
  reference, and the text of the DOT and GML files.  Parameters are the working directory and
  which files can be opened.  Log lines are left out.
\<close>

section \<open>Nodes and edges\<close>

record node_record =
  nodeId :: int
  nodeLabel :: string
  isMissing :: bool

record edge_record =
  edgeFrom :: int
  edgeTo :: int
  edgeLabel :: string
  edgeColor :: string
  edgeStyle :: string

record exporter =
  nodes :: "node_record list"
  classNodeIds :: "u8 \<rightharpoonup> int"
  missingNodeIds :: "string \<rightharpoonup> int"
  edges :: "edge_record list"

definition kClassEdgeColor :: string where "kClassEdgeColor = ''#4F81BD''"
definition kMethodEdgeColor :: string where "kMethodEdgeColor = ''#70AD47''"
definition kFieldEdgeColor :: string where "kFieldEdgeColor = ''#ED7D31''"
definition kMissingColor :: string where "kMissingColor = ''#C00000''"

text \<open>\<^verbatim>\<open>static_cast<int>\<close> of a size.\<close>

definition castInt :: "nat \<Rightarrow> int" where
  "castInt n = sint (of_nat n :: 32 word)"

definition newExporter :: exporter where
  "newExporter = \<lparr>nodes = [], classNodeIds = Map.empty, missingNodeIds = Map.empty, edges = []\<rparr>"

text \<open>\<^verbatim>\<open>forEach\<close> with a callback that may fail.\<close>

fun forCells :: "table \<Rightarrow> (table_row \<Rightarrow> 's \<Rightarrow> 's result) \<Rightarrow> nat list \<Rightarrow> 's \<Rightarrow> 's result" where
  "forCells t func [] s = Inr s"
| "forCells t func (a # as) s = bindR (cellRow t a) (\<lambda>r. bindR (if isDeleted r then Inr s else func r s) (forCells t func as))"

definition forRowsOf :: "nat \<Rightarrow> database \<Rightarrow> (table_row \<Rightarrow> 's \<Rightarrow> 's result) \<Rightarrow> 's \<Rightarrow> 's result" where
  "forRowsOf j db func = forCells (tableOf j db) func (autoIncrementIndex (tableOf j db))"

definition addClassNode :: "u8 \<Rightarrow> string \<Rightarrow> exporter \<Rightarrow> exporter" where
  "addClassNode i label x = (let nodeId = castInt (length (nodes x)) in
     x\<lparr>nodes := nodes x @ [\<lparr>nodeId = nodeId, nodeLabel = label, isMissing = False\<rparr>], classNodeIds := (classNodeIds x)(i \<mapsto> nodeId)\<rparr>)"

definition buildClassNodes :: "database \<Rightarrow> exporter \<Rightarrow> exporter result" where
  "buildClassNodes db x = forRowsOf 1 db (\<lambda>row x.
       bindR (getStrongClassname 0 (dbPool db) (dbLookup db) row) (\<lambda>label. Inr (addClassNode (rowId row) label x)))
     (x\<lparr>nodes := [], classNodeIds := Map.empty, missingNodeIds := Map.empty\<rparr>)"

definition getClassNodeId :: "u8 \<Rightarrow> exporter \<Rightarrow> int" where
  "getClassNodeId classId x = (case classNodeIds x classId of None \<Rightarrow> - 1 | Some i \<Rightarrow> i)"

definition getMissingNodeId :: "string \<Rightarrow> exporter \<Rightarrow> int \<times> exporter" where
  "getMissingNodeId label x = (case missingNodeIds x label of
       Some i \<Rightarrow> (i, x)
     | None \<Rightarrow> (let nodeId = castInt (length (nodes x)) in
         (nodeId, x\<lparr>nodes := nodes x @ [\<lparr>nodeId = nodeId, nodeLabel = label, isMissing = True\<rparr>],
            missingNodeIds := (missingNodeIds x)(label \<mapsto> nodeId)\<rparr>)))"

definition pushEdge :: "int \<Rightarrow> int \<Rightarrow> string \<Rightarrow> string \<Rightarrow> string \<Rightarrow> exporter \<Rightarrow> exporter" where
  "pushEdge from to label color style x =
     x\<lparr>edges := edges x @ [\<lparr>edgeFrom = from, edgeTo = to, edgeLabel = label, edgeColor = color, edgeStyle = style\<rparr>]\<rparr>"

text \<open>An unresolved reference: the node of \<open>key\<close> is made when it is first seen.\<close>

definition pushMissing :: "int \<Rightarrow> string \<Rightarrow> string \<Rightarrow> exporter \<Rightarrow> exporter" where
  "pushMissing from key label x = (case getMissingNodeId key x of (missingId, x') \<Rightarrow> pushEdge from missingId label kMissingColor ''dashed'' x')"

definition classEdge :: "table_row \<Rightarrow> exporter \<Rightarrow> exporter result" where
  "classEdge edgeRow x =
     (let fromId = getClassNodeId (column8 ClassRefEdgeRow ''ownerClass'' edgeRow) x;
          toId = getClassNodeId (column8 ClassRefEdgeRow ''to'' edgeRow) x
      in Inr (if 0 \<le> fromId \<and> 0 \<le> toId then pushEdge fromId toId ''class'' kClassEdgeColor ''solid'' x else x))"

definition missingClass :: "database \<Rightarrow> table_row \<Rightarrow> exporter \<Rightarrow> exporter result" where
  "missingClass db refRow x =
     (if column8 ClassRefRow ''edgeCount'' refRow = 0 then
        (let fromId = getClassNodeId (column8 ClassRefRow ''ownerClass'' refRow) x in
         if fromId < 0 then Inr x
         else bindR (textColumn ClassRefRow ''name'' (dbPool db) refRow) (\<lambda>targetName.
           Inr (pushMissing fromId (targetName @ '' (missing)'') targetName x)))
      else Inr x)"

definition collectClassEdges :: "database \<Rightarrow> exporter \<Rightarrow> exporter result" where
  "collectClassEdges db x = bindR (forRowsOf 7 db classEdge x) (forRowsOf 2 db (missingClass db))"

text \<open>
  \<^verbatim>\<open>collectMethodEdges\<close> and \<^verbatim>\<open>collectFieldEdges\<close> are the same code on other tables.  \<^verbatim>\<open>getRow\<close> indexes its
  vector unchecked and never returns a null pointer for a row that exists.
\<close>

definition memberEdge :: "ref_types \<Rightarrow> layout \<Rightarrow> string \<Rightarrow> database \<Rightarrow> table_row \<Rightarrow> exporter \<Rightarrow> exporter result" where
  "memberEdge types le color db edgeRow x =
     (let fromId = getClassNodeId (column8 le ''ownerClass'' edgeRow) x in
      bindR (fst (getRow (column8 le ''to'' edgeRow) (tableOf (targetTable types) db))) (\<lambda>a.
      if fromId < 0 then Inr x
      else bindR (cellRow (tableOf (targetTable types) db) a) (\<lambda>memberRow.
        let toId = getClassNodeId (column8 (targetLayout types) ''ownerClass'' memberRow) x in
        if toId < 0 then Inr x
        else bindR (textColumn (targetLayout types) ''descriptor'' (dbPool db) memberRow) (\<lambda>descriptor.
          bindR (ownedKey (targetLayout types) 0 1 (dbPool db) (dbLookup db) memberRow) (\<lambda>name.
            Inr (pushEdge fromId toId (name @ '' '' @ descriptor) color ''solid'' x))))))"

definition missingMember :: "ref_types \<Rightarrow> database \<Rightarrow> table_row \<Rightarrow> exporter \<Rightarrow> exporter result" where
  "missingMember types db refRow x =
     (if column8 (refLayout types) ''edgeCount'' refRow = 0 then
        (let fromId = getClassNodeId (column8 (refLayout types) ''ownerClass'' refRow) x in
         if fromId < 0 then Inr x
         else bindR (textColumn (refLayout types) ''classname'' (dbPool db) refRow) (\<lambda>owner.
           bindR (textColumn (refLayout types) ''name'' (dbPool db) refRow) (\<lambda>memberName.
           bindR (textColumn (refLayout types) ''descriptor'' (dbPool db) refRow) (\<lambda>descriptor.
             let missingKey = owner @ ''#'' @ memberName @ '' '' @ descriptor in
             Inr (pushMissing fromId missingKey (missingKey @ '' (missing)'') x)))))
      else Inr x)"

definition collectMethodEdges :: "database \<Rightarrow> exporter \<Rightarrow> exporter result" where
  "collectMethodEdges db x = bindR (forRowsOf 8 db (memberEdge methodTypes MethodRefEdgeRow kMethodEdgeColor db) x)
     (forRowsOf 4 db (missingMember methodTypes db))"

definition collectFieldEdges :: "database \<Rightarrow> exporter \<Rightarrow> exporter result" where
  "collectFieldEdges db x = bindR (forRowsOf 9 db (memberEdge fieldTypes FieldRefEdgeRow kFieldEdgeColor db) x)
     (forRowsOf 6 db (missingMember fieldTypes db))"

definition collectEdges :: "database \<Rightarrow> exporter \<Rightarrow> exporter result" where
  "collectEdges db x = bindR (collectClassEdges db (x\<lparr>edges := []\<rparr>)) (\<lambda>x. bindR (collectMethodEdges db x) (collectFieldEdges db))"

section \<open>The files\<close>

definition escapeForDot :: "string \<Rightarrow> string" where
  "escapeForDot v = concat (map (\<lambda>c. if c = CHR 0x22 then [CHR 0x5C, CHR 0x22] else [c]) v)"

definition escapeForGml :: "string \<Rightarrow> string" where
  "escapeForGml v = concat (map (\<lambda>c. if c = CHR 0x22 then [CHR 0x5C, CHR 0x22] else if c = CHR 0x5C then [CHR 0x5C, CHR 0x5C] else [c]) v)"

abbreviation quoted :: "string \<Rightarrow> string" where
  "quoted s \<equiv> [CHR 0x22] @ s @ [CHR 0x22]"

abbreviation newline :: string where
  "newline \<equiv> [CHR 0x0A]"

definition dotNode :: "node_record \<Rightarrow> string" where
  "dotNode n = ''  n'' @ intToString (nodeId n) @ '' [label='' @ quoted (escapeForDot (nodeLabel n)) @ '', color='' @
     quoted (if isMissing n then kMissingColor else ''#333333'') @ ''];'' @ newline"

definition dotEdge :: "edge_record \<Rightarrow> string" where
  "dotEdge e = ''  n'' @ intToString (edgeFrom e) @ '' -> n'' @ intToString (edgeTo e) @ '' [label='' @ quoted (escapeForDot (edgeLabel e)) @
     '', color='' @ quoted (edgeColor e) @ '', style='' @ quoted (edgeStyle e) @ ''];'' @ newline"

definition dotText :: "exporter \<Rightarrow> string" where
  "dotText x = ''digraph CallGraph {'' @ newline @ ''  rankdir=LR;'' @ newline @ ''  node [shape=box, fontname='' @ quoted ''Helvetica'' @ ''];'' @ newline @
     concat (map dotNode (nodes x)) @ concat (map dotEdge (edges x)) @ ''}'' @ newline"

definition gmlNode :: "node_record \<Rightarrow> string" where
  "gmlNode n = ''  node ['' @ newline @ ''    id '' @ intToString (nodeId n) @ newline @ ''    label '' @ quoted (escapeForGml (nodeLabel n)) @ newline @
     ''    graphics ['' @ newline @ ''      fill '' @ quoted (if isMissing n then kMissingColor else ''#FFFFFF'') @ newline @
     ''    ]'' @ newline @ ''  ]'' @ newline"

definition gmlEdge :: "edge_record \<Rightarrow> string" where
  "gmlEdge e = ''  edge ['' @ newline @ ''    source '' @ intToString (edgeFrom e) @ newline @ ''    target '' @ intToString (edgeTo e) @ newline @
     ''    label '' @ quoted (escapeForGml (edgeLabel e)) @ newline @ ''    graphics ['' @ newline @ ''      fill '' @ quoted (edgeColor e) @ newline @
     (if edgeStyle e = ''dashed'' then ''      pattern '' @ quoted ''dashed'' @ newline else []) @ ''    ]'' @ newline @ ''  ]'' @ newline"

definition gmlText :: "exporter \<Rightarrow> string" where
  "gmlText x = ''graph ['' @ newline @ ''  directed 1'' @ newline @ concat (map gmlNode (nodes x)) @ concat (map gmlEdge (edges x)) @ '']'' @ newline"

text \<open>
  \<^verbatim>\<open>writeDot\<close> and \<^verbatim>\<open>writeGml\<close>: \<open>opens\<close> tells which paths can be opened for writing; the directory that
  \<^verbatim>\<open>ensureOutputDir\<close> fails to create shows there.
\<close>

definition writeText :: "(string \<Rightarrow> bool) \<Rightarrow> string \<Rightarrow> string \<Rightarrow> file_system \<Rightarrow> bool \<times> file_system" where
  "writeText opens path content fs = (if opens path then (True, fs(path \<mapsto> map charByte content)) else (False, fs))"

definition ensureOutputDir :: "string \<Rightarrow> string \<Rightarrow> string" where
  "ensureOutputDir cwd outputDir = pathJoin (if outputDir = [] then cwd else outputDir) ''callgraph''"

definition exportRun :: "string \<Rightarrow> (string \<Rightarrow> bool) \<Rightarrow> string \<Rightarrow> bool \<Rightarrow> bool \<Rightarrow> database \<Rightarrow> file_system \<Rightarrow> (bool \<times> file_system) result" where
  "exportRun cwd opens outputDir exportDot exportGml db fs =
     bindR (buildClassNodes db newExporter) (\<lambda>x.
     if nodes x = [] then Inr (False, fs)
     else bindR (collectEdges db x) (\<lambda>x.
       if \<not> exportDot \<and> \<not> exportGml then Inr (True, fs)
       else (let graphDir = ensureOutputDir cwd outputDir;
                 (dotOk, fs1) = (if exportDot then writeText opens (pathJoin graphDir ''callgraph.dot'') (dotText x) fs else (True, fs));
                 (gmlOk, fs2) = (if exportGml then writeText opens (pathJoin graphDir ''callgraph.gml'') (gmlText x) fs1 else (True, fs1))
             in Inr (dotOk \<and> gmlOk, fs2))))"

section \<open>Loops over rows\<close>

fun rowFold :: "(table_row \<Rightarrow> 's \<Rightarrow> 's result) \<Rightarrow> table_row list \<Rightarrow> 's \<Rightarrow> 's result" where
  "rowFold func [] s = Inr s"
| "rowFold func (r # rs) s = bindR (if isDeleted r then Inr s else func r s) (rowFold func rs)"

lemma forCells_rows: "mapR (cellRow t) as = Inr rs \<Longrightarrow> forCells t func as = rowFold func rs"
proof (induction as arbitrary: rs)
  case (Cons a as)
  then obtain r rs' where r: "cellRow t a = Inr r" "mapR (cellRow t) as = Inr rs'" "rs = r # rs'" by (auto simp: bindR_Inr_iff)
  from Cons.IH [OF r(2)] show ?case by (rule_tac ext) (simp add: r)
qed auto

lemma forRowsOf_rows: "rowsOf (tableOf j db) = Inr rs \<Longrightarrow> forRowsOf j db func s = rowFold func rs s"
  by (simp add: forRowsOf_def rowsOf_def forCells_rows)

section \<open>The exported graph\<close>

text \<open>
  The identifier of a node is its position, an entry of the maps leads to a node of its kind and
  every missing node is listed under its label; an edge joins a class node with a node.
\<close>

definition graphClosed :: "exporter \<Rightarrow> bool" where
  "graphClosed x \<longleftrightarrow>
     (\<forall>i<length (nodes x). nodeId (nodes x ! i) = int i) \<and>
     (\<forall>c k. classNodeIds x c = Some k \<longrightarrow> (\<exists>i<length (nodes x). k = int i \<and> \<not> isMissing (nodes x ! i))) \<and>
     (\<forall>s k. missingNodeIds x s = Some k \<longrightarrow> (\<exists>i<length (nodes x). k = int i)) \<and>
     (\<forall>i<length (nodes x). isMissing (nodes x ! i) \<longrightarrow> missingNodeIds x (nodeLabel (nodes x ! i)) = Some (int i)) \<and>
     (\<forall>e\<in>set (edges x). (\<exists>i<length (nodes x). edgeFrom e = int i \<and> \<not> isMissing (nodes x ! i)) \<and> (\<exists>i<length (nodes x). edgeTo e = int i))"

lemma castInt_small: "n < 2 ^ 31 \<Longrightarrow> castInt n = int n"
  by (simp add: castInt_def signed_of_nat signed_take_bit_int_eq_self_iff)

lemma graphClosed_edge:
  assumes "graphClosed x" "i < length (nodes x)" "\<not> isMissing (nodes x ! i)" "k < length (nodes x)"
  shows "graphClosed (pushEdge (int i) (int k) label color style x)"
  using assms by (auto simp: graphClosed_def pushEdge_def)

lemma graphClosed_class: "graphClosed x \<Longrightarrow> 0 \<le> getClassNodeId c x \<Longrightarrow>
    \<exists>i<length (nodes x). getClassNodeId c x = int i \<and> \<not> isMissing (nodes x ! i)"
  by (auto simp: graphClosed_def getClassNodeId_def split: option.splits)

lemma graphClosed_append:
  assumes x: "graphClosed x" and n: "nodeId n = int (length (nodes x))" "isMissing n \<Longrightarrow> mm (nodeLabel n) = Some (int (length (nodes x)))"
    and cm: "\<And>c k. cm c = Some k \<Longrightarrow> classNodeIds x c = Some k \<or> k = int (length (nodes x)) \<and> \<not> isMissing n"
    and mm: "\<And>s k. mm s = Some k \<Longrightarrow> missingNodeIds x s = Some k \<or> k = int (length (nodes x))"
      "\<And>s k. missingNodeIds x s = Some k \<Longrightarrow> mm s = Some k"
  shows "graphClosed (x\<lparr>nodes := nodes x @ [n], classNodeIds := cm, missingNodeIds := mm\<rparr>)" (is "graphClosed ?x")
proof -
  let ?l = "length (nodes x)"
  have at: "nodes ?x ! i = (if i < ?l then nodes x ! i else n)" if "i < length (nodes ?x)" for i using that by (simp add: nth_append)
  have len: "length (nodes ?x) = Suc ?l" by simp
  have old: "\<exists>i<length (nodes ?x). k = int i \<and> \<not> isMissing (nodes ?x ! i)" if "\<exists>i<?l. k = int i \<and> \<not> isMissing (nodes x ! i)" for k
    using that at len by (metis less_SucI)
  have old': "\<exists>i<length (nodes ?x). k = int i" if "\<exists>i<?l. k = int i" for k using that len by (metis less_SucI)
  have "\<forall>i<length (nodes ?x). nodeId (nodes ?x ! i) = int i" using x n(1) by (auto simp: graphClosed_def nth_append less_Suc_eq)
  moreover have "\<exists>i<length (nodes ?x). k = int i \<and> \<not> isMissing (nodes ?x ! i)" if "classNodeIds ?x c = Some k" for c k
  proof -
    have "cm c = Some k" using that by simp
    from cm [OF this] show ?thesis
    proof
      assume "classNodeIds x c = Some k"
      then show ?thesis using x unfolding graphClosed_def by (intro old) blast
    qed (auto intro!: exI [of _ ?l])
  qed
  moreover have "\<exists>i<length (nodes ?x). k = int i" if "missingNodeIds ?x s = Some k" for s k
  proof -
    have "mm s = Some k" using that by simp
    from mm(1) [OF this] show ?thesis
    proof
      assume "missingNodeIds x s = Some k"
      then show ?thesis using x unfolding graphClosed_def by (intro old') blast
    qed auto
  qed
  moreover have "missingNodeIds ?x (nodeLabel (nodes ?x ! i)) = Some (int i)" if "i < length (nodes ?x)" "isMissing (nodes ?x ! i)" for i
  proof (cases "i < ?l")
    case True
    then have "missingNodeIds x (nodeLabel (nodes x ! i)) = Some (int i)" using x that(2) at [OF that(1)] by (simp add: graphClosed_def)
    from mm(2) [OF this] show ?thesis using True at [OF that(1)] by simp
  qed (use that n(2) at in \<open>auto simp: less_Suc_eq\<close>)
  moreover have "(\<exists>i<length (nodes ?x). edgeFrom e = int i \<and> \<not> isMissing (nodes ?x ! i)) \<and> (\<exists>i<length (nodes ?x). edgeTo e = int i)" if "e \<in> set (edges ?x)" for e
    using that x old [of "edgeFrom e"] old' [of "edgeTo e"] by (simp add: graphClosed_def)
  ultimately show ?thesis unfolding graphClosed_def by blast
qed

lemma graphClosed_addClass:
  assumes "graphClosed x" "length (nodes x) < 2 ^ 31"
  shows "graphClosed (addClassNode c label x)"
proof -
  have "castInt (length (nodes x)) = int (length (nodes x))" using assms(2) by (rule castInt_small)
  moreover have "graphClosed (x\<lparr>nodes := nodes x @ [\<lparr>nodeId = int (length (nodes x)), nodeLabel = label, isMissing = False\<rparr>],
      classNodeIds := (classNodeIds x)(c \<mapsto> int (length (nodes x))), missingNodeIds := missingNodeIds x\<rparr>)"
    by (rule graphClosed_append [OF assms(1)]) (auto split: if_splits)
  ultimately show ?thesis by (simp add: addClassNode_def Let_def)
qed

lemma graphClosed_missing:
  assumes "graphClosed x" "length (nodes x) < 2 ^ 31" "getMissingNodeId label x = (k, x')"
  shows "graphClosed x' \<and> (\<exists>i<length (nodes x'). k = int i) \<and> classNodeIds x' = classNodeIds x \<and> edges x' = edges x \<and>
    length (nodes x') \<le> length (nodes x) + 1 \<and> filter (\<lambda>n. \<not> isMissing n) (nodes x') = filter (\<lambda>n. \<not> isMissing n) (nodes x) \<and> (\<forall>i<length (nodes x). i < length (nodes x') \<and> nodes x' ! i = nodes x ! i)"
proof (cases "missingNodeIds x label")
  case None
  have c: "castInt (length (nodes x)) = int (length (nodes x))" using assms(2) by (rule castInt_small)
  let ?n = "\<lparr>nodeId = int (length (nodes x)), nodeLabel = label, isMissing = True\<rparr>"
  have x': "x' = x\<lparr>nodes := nodes x @ [?n], missingNodeIds := (missingNodeIds x)(label \<mapsto> int (length (nodes x)))\<rparr>" and k: "k = int (length (nodes x))"
    using assms(3) None c by (auto simp: getMissingNodeId_def Let_def)
  have "graphClosed (x\<lparr>nodes := nodes x @ [?n], classNodeIds := classNodeIds x, missingNodeIds := (missingNodeIds x)(label \<mapsto> int (length (nodes x)))\<rparr>)"
    by (rule graphClosed_append [OF assms(1)]) (use None in \<open>auto split: if_splits\<close>)
  then have "graphClosed x'" by (simp add: x')
  then show ?thesis by (auto simp: x' k nth_append)
next
  case (Some i)
  then show ?thesis using assms by (auto simp: getMissingNodeId_def graphClosed_def)
qed

abbreviation classNodes :: "exporter \<Rightarrow> node_record list" where
  "classNodes x \<equiv> filter (\<lambda>n. \<not> isMissing n) (nodes x)"

text \<open>
  What a callback of the exporter promises: it keeps the graph closed and the nodes of the classes
  as they are, and adds at most one node.
\<close>

locale export_step =
  fixes step :: "table_row \<Rightarrow> exporter \<Rightarrow> exporter result"
  assumes step_ok: "graphClosed x \<Longrightarrow> length (nodes x) + 1 < 2 ^ 31 \<Longrightarrow> step r x = Inr x' \<Longrightarrow>
    graphClosed x' \<and> length (nodes x') \<le> length (nodes x) + 1 \<and> classNodeIds x' = classNodeIds x \<and> classNodes x' = classNodes x"
begin

lemma fold_ok: "graphClosed x \<Longrightarrow> length (nodes x) + length rs < 2 ^ 31 \<Longrightarrow> rowFold step rs x = Inr x' \<Longrightarrow>
    graphClosed x' \<and> length (nodes x') \<le> length (nodes x) + length rs \<and> classNodeIds x' = classNodeIds x \<and> classNodes x' = classNodes x"
proof (induction rs arbitrary: x)
  case (Cons r rs)
  then obtain x1 where x1: "(if isDeleted r then Inr x else step r x) = Inr x1" "rowFold step rs x1 = Inr x'" by (auto simp: bindR_Inr_iff)
  then have "graphClosed x1 \<and> length (nodes x1) \<le> length (nodes x) + 1 \<and> classNodeIds x1 = classNodeIds x \<and> classNodes x1 = classNodes x"
    using step_ok [of x r x1] Cons.prems by (auto split: if_splits)
  with Cons.IH [of x1] x1(2) Cons.prems(2) show ?case by auto
qed simp

end

interpretation class_edges: export_step classEdge
proof
  fix x r x' assume x: "graphClosed x" "classEdge r x = Inr x'"
  show "graphClosed x' \<and> length (nodes x') \<le> length (nodes x) + 1 \<and> classNodeIds x' = classNodeIds x \<and> classNodes x' = classNodes x"
  proof (cases "0 \<le> getClassNodeId (column8 ClassRefEdgeRow ''ownerClass'' r) x \<and> 0 \<le> getClassNodeId (column8 ClassRefEdgeRow ''to'' r) x")
    case True
    then obtain i k where "i < length (nodes x)" "\<not> isMissing (nodes x ! i)" "k < length (nodes x)"
      "getClassNodeId (column8 ClassRefEdgeRow ''ownerClass'' r) x = int i" "getClassNodeId (column8 ClassRefEdgeRow ''to'' r) x = int k"
      using graphClosed_class [OF x(1)] by metis
    then show ?thesis using x graphClosed_edge [OF x(1)] by (auto simp: classEdge_def Let_def pushEdge_def)
  qed (use x in \<open>auto simp: classEdge_def Let_def\<close>)
qed

lemma pushMissing_ok:
  assumes "graphClosed x" "length (nodes x) + 1 < 2 ^ 31" "0 \<le> getClassNodeId c x"
    and x'_def: "x' = pushMissing (getClassNodeId c x) key label x"
  shows "graphClosed x' \<and> length (nodes x') \<le> length (nodes x) + 1 \<and> classNodeIds x' = classNodeIds x \<and> classNodes x' = classNodes x"
proof -
  obtain k x1 where x1: "getMissingNodeId key x = (k, x1)" by (cases "getMissingNodeId key x")
  have "length (nodes x) < 2 ^ 31" using assms(2) by simp
  from graphClosed_missing [OF assms(1) this x1] obtain m where m: "graphClosed x1" "m < length (nodes x1)" "k = int m" "classNodeIds x1 = classNodeIds x" "classNodes x1 = classNodes x"
    "length (nodes x1) \<le> length (nodes x) + 1" "\<forall>i<length (nodes x). i < length (nodes x1) \<and> nodes x1 ! i = nodes x ! i" by blast
  obtain i where i: "i < length (nodes x)" "getClassNodeId c x = int i" "\<not> isMissing (nodes x ! i)" using graphClosed_class [OF assms(1,3)] by blast
  have "x' = pushEdge (int i) (int m) label kMissingColor ''dashed'' x1" by (simp add: x'_def pushMissing_def x1 i(2) m(3))
  then show ?thesis using graphClosed_edge [OF m(1), of i m] m i by (auto simp: pushEdge_def)
qed

interpretation class_refs: export_step "missingClass db" for db
proof
  fix x r x' assume x: "graphClosed x" "length (nodes x) + 1 < 2 ^ 31" "missingClass db r x = Inr x'"
  then show "graphClosed x' \<and> length (nodes x') \<le> length (nodes x) + 1 \<and> classNodeIds x' = classNodeIds x \<and> classNodes x' = classNodes x"
    using pushMissing_ok [OF x(1,2)] by (auto simp: missingClass_def Let_def bindR_Inr_iff not_less split: if_splits)
qed

interpretation member_refs: export_step "missingMember types db" for types db
proof
  fix x r x' assume x: "graphClosed x" "length (nodes x) + 1 < 2 ^ 31" "missingMember types db r x = Inr x'"
  then show "graphClosed x' \<and> length (nodes x') \<le> length (nodes x) + 1 \<and> classNodeIds x' = classNodeIds x \<and> classNodes x' = classNodes x"
    using pushMissing_ok [OF x(1,2)] by (auto simp: missingMember_def Let_def bindR_Inr_iff not_less split: if_splits)
qed

interpretation member_edges: export_step "memberEdge types le color db" for types le color db
proof
  fix x r x' assume x: "graphClosed x" "memberEdge types le color db r x = Inr x'"
  let ?from = "getClassNodeId (column8 le ''ownerClass'' r) x" and ?to = "\<lambda>m. getClassNodeId (column8 (targetLayout types) ''ownerClass'' m) x"
  have "x' = x \<or> (\<exists>m label. 0 \<le> ?from \<and> 0 \<le> ?to m \<and> x' = pushEdge ?from (?to m) label color ''solid'' x)"
    using x(2) by (auto simp: memberEdge_def Let_def bindR_Inr_iff not_less split: if_splits)
  then show "graphClosed x' \<and> length (nodes x') \<le> length (nodes x) + 1 \<and> classNodeIds x' = classNodeIds x \<and> classNodes x' = classNodes x"
  proof
    assume "\<exists>m label. 0 \<le> ?from \<and> 0 \<le> ?to m \<and> x' = pushEdge ?from (?to m) label color ''solid'' x"
    then obtain m label where m: "0 \<le> ?from" "0 \<le> ?to m" "x' = pushEdge ?from (?to m) label color ''solid'' x" by blast
    obtain i k where "i < length (nodes x)" "?from = int i" "\<not> isMissing (nodes x ! i)" "k < length (nodes x)" "?to m = int k"
      using graphClosed_class [OF x(1) m(1)] graphClosed_class [OF x(1) m(2)] by blast
    then show ?thesis using m(3) graphClosed_edge [OF x(1)] by (auto simp: pushEdge_def)
  qed (use x in simp)
qed

lemma rowFold_append: "rowFold f (rs @ qs) x = bindR (rowFold f rs x) (rowFold f qs)"
proof (induction rs arbitrary: x)
  case (Cons r rs)
  then show ?case by (cases "if isDeleted r then Inr x else f r x") simp_all
qed simp

lemma rowFold_total: "\<forall>r\<in>set rs. \<not> isDeleted r \<longrightarrow> (\<forall>x. \<exists>x'. f r x = Inr x') \<Longrightarrow> \<exists>x'. rowFold f rs x = Inr x'"
proof (induction rs arbitrary: x)
  case (Cons r rs)
  obtain x1 where "(if isDeleted r then Inr x else f r x) = Inr x1" using Cons.prems by (cases "isDeleted r") (simp, metis list.set_intros(1))
  moreover obtain x' where "rowFold f rs x1 = Inr x'" using Cons.IH [of x1] Cons.prems by auto
  ultimately show ?case by simp
qed simp

abbreviation live :: "table_row list \<Rightarrow> table_row list" where
  "live rs \<equiv> filter (\<lambda>r. \<not> isDeleted r) rs"

text \<open>Live classes become nodes, in the order of the table.\<close>

lemma buildClassNodes_rows:
  assumes rows: "rowsOf (tableOf 1 db) = Inr rs" and names: "\<forall>r\<in>set rs. \<not> isDeleted r \<longrightarrow> getStrongClassname 0 (dbPool db) (dbLookup db) r = Inr (label r)"
    and ids: "distinct (map rowId rs)" and len: "length rs < 2 ^ 31"
  shows "\<exists>x. buildClassNodes db newExporter = Inr x \<and> graphClosed x \<and> map nodeLabel (nodes x) = map label (live rs) \<and>
    (\<forall>n\<in>set (nodes x). \<not> isMissing n) \<and> edges x = [] \<and>
    (\<forall>i<length (live rs). classNodeIds x (rowId (live rs ! i)) = Some (int i)) \<and> dom (classNodeIds x) = rowId ` set (live rs) \<and> missingNodeIds x = Map.empty"
proof -
  let ?f = "\<lambda>row x. bindR (getStrongClassname 0 (dbPool db) (dbLookup db) row) (\<lambda>label. Inr (addClassNode (rowId row) label x))"
  have start: "newExporter\<lparr>nodes := [], classNodeIds := Map.empty, missingNodeIds := Map.empty\<rparr> = newExporter" by (simp add: newExporter_def)
  have "\<exists>x. rowFold ?f rs newExporter = Inr x \<and> graphClosed x \<and> map nodeLabel (nodes x) = map label (live rs) \<and>
    (\<forall>n\<in>set (nodes x). \<not> isMissing n) \<and> edges x = [] \<and>
    (\<forall>i<length (live rs). classNodeIds x (rowId (live rs ! i)) = Some (int i)) \<and> dom (classNodeIds x) = rowId ` set (live rs) \<and> missingNodeIds x = Map.empty"
    using names ids len
  proof (induction rs rule: rev_induct)
    case Nil
    show ?case by (simp add: newExporter_def graphClosed_def)
  next
    case (snoc r rs)
    then obtain x where x: "rowFold ?f rs newExporter = Inr x" "graphClosed x" "map nodeLabel (nodes x) = map label (live rs)"
      "\<forall>n\<in>set (nodes x). \<not> isMissing n" "edges x = []"
      "\<forall>i<length (live rs). classNodeIds x (rowId (live rs ! i)) = Some (int i)" "dom (classNodeIds x) = rowId ` set (live rs)" "missingNodeIds x = Map.empty" by auto
    show ?case
    proof (cases "isDeleted r")
      case True
      then show ?thesis using x by (auto simp: rowFold_append)
    next
      case False
      let ?x = "addClassNode (rowId r) (label r) x"
      have count: "length (nodes x) = length (live rs)" using arg_cong [OF x(3), of length] by simp
      have small: "length (nodes x) < 2 ^ 31" using snoc.prems(3) le_less_trans [OF length_filter_le [of "\<lambda>r. \<not> isDeleted r" rs], of "2 ^ 31"] by (simp add: count)
      have cast: "castInt (length (nodes x)) = int (length (live rs))" using castInt_small [OF small] by (simp add: count)
      have other: "rowId (live rs ! i) \<noteq> rowId r" if "i < length (live rs)" for i
    proof -
          have "live rs ! i \<in> set rs" using nth_mem [OF that] by simp
          then have "rowId (live rs ! i) \<in> rowId ` set rs" by (rule imageI)
          then show ?thesis using snoc.prems(2) by auto
        qed
      have "classNodeIds ?x (rowId ((live rs @ [r]) ! i)) = Some (int i)" if "i < Suc (length (live rs))" for i
        using that x(6) other [of i] cast by (cases "i < length (live rs)") (auto simp: addClassNode_def Let_def nth_append less_Suc_eq)
      moreover have "rowFold ?f (rs @ [r]) newExporter = Inr ?x" using x(1) False snoc.prems(1) by (simp add: rowFold_append)
      moreover have "graphClosed ?x" by (rule graphClosed_addClass [OF x(2) small])
      ultimately show ?thesis using x False by (auto simp: addClassNode_def Let_def)
    qed
  qed
  then show ?thesis unfolding buildClassNodes_def start forRowsOf_rows [OF rows] .
qed

text \<open>
  The texts the exporter reads: names of the live classes and references, and for the edges to
  members the row they point to.
\<close>

definition textOk :: "layout \<Rightarrow> database \<Rightarrow> string list \<Rightarrow> table_row \<Rightarrow> bool" where
  "textOk l db cs r \<longleftrightarrow> (\<forall>c\<in>set cs. \<exists>s. textColumn l c (dbPool db) r = Inr s)"

definition targetOk :: "ref_types \<Rightarrow> layout \<Rightarrow> database \<Rightarrow> table_row \<Rightarrow> bool" where
  "targetOk types le db e \<longleftrightarrow> (\<exists>a m s. fst (getRow (column8 le ''to'' e) (tableOf (targetTable types) db)) = Inr a \<and>
     cellRow (tableOf (targetTable types) db) a = Inr m \<and> textOk (targetLayout types) db [''descriptor''] m \<and>
     ownedKey (targetLayout types) 0 1 (dbPool db) (dbLookup db) m = Inr s)"

definition exportable :: "database \<Rightarrow> table_row list list \<Rightarrow> bool" where
  "exportable db rss \<longleftrightarrow> (\<forall>j<10. rowsOf (tableOf j db) = Inr (rss ! j)) \<and> distinct (map rowId (rss ! 1)) \<and>
     (\<forall>r\<in>set (live (rss ! 1)). \<exists>s. getStrongClassname 0 (dbPool db) (dbLookup db) r = Inr s) \<and>
     (\<forall>r\<in>set (live (rss ! 2)). textOk ClassRefRow db [''name''] r) \<and>
     (\<forall>r\<in>set (live (rss ! 4)). textOk MethodRefRow db [''classname'', ''name'', ''descriptor''] r) \<and>
     (\<forall>r\<in>set (live (rss ! 6)). textOk FieldRefRow db [''classname'', ''name'', ''descriptor''] r) \<and>
     (\<forall>r\<in>set (live (rss ! 8)). targetOk methodTypes MethodRefEdgeRow db r) \<and> (\<forall>r\<in>set (live (rss ! 9)). targetOk fieldTypes FieldRefEdgeRow db r) \<and>
     length (rss ! 1) + length (rss ! 2) + length (rss ! 4) + length (rss ! 6) + length (rss ! 7) + length (rss ! 8) + length (rss ! 9) < 2 ^ 31"

lemma steps_total:
  "\<exists>x'. classEdge r x = Inr x'"
  "textOk ClassRefRow db [''name''] r \<Longrightarrow> \<exists>x'. missingClass db r x = Inr x'"
  "textOk (refLayout types) db [''classname'', ''name'', ''descriptor''] r \<Longrightarrow> \<exists>x'. missingMember types db r x = Inr x'"
  "targetOk types le db r \<Longrightarrow> \<exists>x'. memberEdge types le color db r x = Inr x'"
proof -
  show "\<exists>x'. classEdge r x = Inr x'" by (simp add: classEdge_def Let_def)
  show "textOk ClassRefRow db [''name''] r \<Longrightarrow> \<exists>x'. missingClass db r x = Inr x'" by (auto simp: textOk_def missingClass_def Let_def)
  show "textOk (refLayout types) db [''classname'', ''name'', ''descriptor''] r \<Longrightarrow> \<exists>x'. missingMember types db r x = Inr x'"
    by (auto simp: textOk_def missingMember_def Let_def)
  show "targetOk types le db r \<Longrightarrow> \<exists>x'. memberEdge types le color db r x = Inr x'"
    by (auto simp: targetOk_def textOk_def memberEdge_def Let_def)
qed

lemma missing_distinct:
  assumes "graphClosed x" shows "distinct (map nodeLabel (filter isMissing (nodes x)))"
proof -
  have "\<And>ns. (\<forall>i<length ns. isMissing (ns ! i) \<longrightarrow> missingNodeIds x (nodeLabel (ns ! i)) = Some (int i)) \<Longrightarrow> distinct (map nodeLabel (filter isMissing ns))"
  proof -
    fix ns assume "\<forall>i<length ns. isMissing (ns ! i) \<longrightarrow> missingNodeIds x (nodeLabel (ns ! i)) = Some (int i)"
    then show "distinct (map nodeLabel (filter isMissing ns))"
    proof (induction ns rule: rev_induct)
      case (snoc n ns)
      have old: "\<forall>i<length ns. isMissing (ns ! i) \<longrightarrow> missingNodeIds x (nodeLabel (ns ! i)) = Some (int i)"
        using snoc.prems by (metis length_append_singleton less_SucI nth_append)
      have "nodeLabel n \<noteq> nodeLabel m" if "isMissing n" "m \<in> set ns" "isMissing m" for m
      proof -
        obtain i where i: "i < length ns" "m = ns ! i" using \<open>m \<in> set ns\<close> by (auto simp: in_set_conv_nth)
        have "missingNodeIds x (nodeLabel n) = Some (int (length ns))" using snoc.prems that(1) by (metis length_append_singleton lessI nth_append_length)
        moreover have "missingNodeIds x (nodeLabel m) = Some (int i)" using old i that(3) by simp
        ultimately show ?thesis using i(1) by auto
      qed
      then show ?case using snoc.IH [OF old] by auto
    qed simp
  qed
  note at = this
  show ?thesis by (rule at) (use assms in \<open>simp add: graphClosed_def\<close>)
qed

lemma collect_total:
  assumes "exportable db rss"
  shows "\<exists>x'. rowFold classEdge (rss ! 7) x = Inr x'" "\<exists>x'. rowFold (missingClass db) (rss ! 2) x = Inr x'"
    "\<exists>x'. rowFold (memberEdge methodTypes MethodRefEdgeRow color db) (rss ! 8) x = Inr x'" "\<exists>x'. rowFold (missingMember methodTypes db) (rss ! 4) x = Inr x'"
    "\<exists>x'. rowFold (memberEdge fieldTypes FieldRefEdgeRow color db) (rss ! 9) x = Inr x'" "\<exists>x'. rowFold (missingMember fieldTypes db) (rss ! 6) x = Inr x'"
proof -
  have types: "refLayout methodTypes = MethodRefRow" "refLayout fieldTypes = FieldRefRow" by (simp_all add: methodTypes_def fieldTypes_def)
  show "\<exists>x'. rowFold classEdge (rss ! 7) x = Inr x'" by (rule rowFold_total) (simp add: steps_total)
  show "\<exists>x'. rowFold (missingClass db) (rss ! 2) x = Inr x'" by (rule rowFold_total) (use assms steps_total(2) in \<open>simp add: exportable_def\<close>)
  show "\<exists>x'. rowFold (memberEdge methodTypes MethodRefEdgeRow color db) (rss ! 8) x = Inr x'"
    by (rule rowFold_total) (use assms steps_total(4) in \<open>simp add: exportable_def\<close>)
  show "\<exists>x'. rowFold (missingMember methodTypes db) (rss ! 4) x = Inr x'"
    by (rule rowFold_total) (use assms steps_total(3) [of methodTypes] in \<open>simp add: exportable_def types\<close>)
  show "\<exists>x'. rowFold (memberEdge fieldTypes FieldRefEdgeRow color db) (rss ! 9) x = Inr x'"
    by (rule rowFold_total) (use assms steps_total(4) in \<open>simp add: exportable_def\<close>)
  show "\<exists>x'. rowFold (missingMember fieldTypes db) (rss ! 6) x = Inr x'"
    by (rule rowFold_total) (use assms steps_total(3) [of fieldTypes] in \<open>simp add: exportable_def types\<close>)
qed

lemma collectEdges_ok:
  assumes "exportable db rss" "graphClosed x0" "length (nodes x0) \<le> length (rss ! 1)" "edges x0 = []"
  shows "\<exists>x. collectEdges db x0 = Inr x \<and> graphClosed x \<and> classNodes x = classNodes x0"
proof -
  note total = collect_total [OF assms(1)]
  have rows: "rowsOf (tableOf j db) = Inr (rss ! j)" if "j < 10" for j using assms(1) that by (simp add: exportable_def)
  have size: "length (nodes x0) + length (rss ! 2) + length (rss ! 4) + length (rss ! 6) + length (rss ! 7) + length (rss ! 8) + length (rss ! 9) < 2 ^ 31"
    using assms(1,3) by (simp add: exportable_def)
  obtain x1 where x1: "rowFold classEdge (rss ! 7) x0 = Inr x1" using total(1) by blast
  obtain x2 where x2: "rowFold (missingClass db) (rss ! 2) x1 = Inr x2" using total(2) by blast
  obtain x3 where x3: "rowFold (memberEdge methodTypes MethodRefEdgeRow kMethodEdgeColor db) (rss ! 8) x2 = Inr x3" using total(3) by blast
  obtain x4 where x4: "rowFold (missingMember methodTypes db) (rss ! 4) x3 = Inr x4" using total(4) by blast
  obtain x5 where x5: "rowFold (memberEdge fieldTypes FieldRefEdgeRow kFieldEdgeColor db) (rss ! 9) x4 = Inr x5" using total(5) by blast
  obtain x where x: "rowFold (missingMember fieldTypes db) (rss ! 6) x5 = Inr x" using total(6) by blast
  have "x0\<lparr>edges := []\<rparr> = x0" using assms(4) by simp
  then have "collectEdges db x0 = Inr x"
    using x1 x2 x3 x4 x5 x by (simp add: collectEdges_def collectClassEdges_def collectMethodEdges_def collectFieldEdges_def forRowsOf_rows [OF rows])
  moreover have "graphClosed x \<and> classNodes x = classNodes x0"
    using class_edges.fold_ok [OF assms(2) _ x1] class_refs.fold_ok [OF _ _ x2] member_edges.fold_ok [OF _ _ x3] member_refs.fold_ok [OF _ _ x4]
      member_edges.fold_ok [OF _ _ x5] member_refs.fold_ok [OF _ _ x] size by simp
  ultimately show ?thesis by blast
qed

section \<open>What is drawn\<close>

text \<open>
  The graph as a picture of the tables: an edge leaves a class, given by its position among the live
  classes, and ends at a class or at an unresolved name.
\<close>

datatype edge_end = ToClass nat | ToMissing string

record drawn_edge =
  drawnFrom :: nat
  drawnTo :: edge_end
  drawnLabel :: string
  drawnColor :: string
  drawnStyle :: string

definition classPos :: "table_row list \<Rightarrow> u8 \<Rightarrow> nat option" where
  "classPos rs c = List.find (\<lambda>i. rowId (live rs ! i) = c) [0..<length (live rs)]"

definition orEmpty :: "string result \<Rightarrow> string" where
  "orEmpty r = (case r of Inl e \<Rightarrow> [] | Inr s \<Rightarrow> s)"

abbreviation textOf :: "layout \<Rightarrow> string \<Rightarrow> database \<Rightarrow> table_row \<Rightarrow> string" where
  "textOf l c db r \<equiv> orEmpty (textColumn l c (dbPool db) r)"

abbreviation solidTo :: "nat \<Rightarrow> nat \<Rightarrow> string \<Rightarrow> string \<Rightarrow> drawn_edge" where
  "solidTo i k label color \<equiv> \<lparr>drawnFrom = i, drawnTo = ToClass k, drawnLabel = label, drawnColor = color, drawnStyle = ''solid''\<rparr>"

abbreviation dashedTo :: "nat \<Rightarrow> string \<Rightarrow> string \<Rightarrow> drawn_edge" where
  "dashedTo i key label \<equiv> \<lparr>drawnFrom = i, drawnTo = ToMissing key, drawnLabel = label, drawnColor = kMissingColor, drawnStyle = ''dashed''\<rparr>"

definition drawnClass :: "table_row list \<Rightarrow> table_row \<Rightarrow> drawn_edge list" where
  "drawnClass cs e = (case (classPos cs (column8 ClassRefEdgeRow ''ownerClass'' e), classPos cs (column8 ClassRefEdgeRow ''to'' e)) of
     (Some i, Some k) \<Rightarrow> [solidTo i k ''class'' kClassEdgeColor] | _ \<Rightarrow> [])"

definition unresolvedClass :: "table_row list \<Rightarrow> database \<Rightarrow> table_row \<Rightarrow> drawn_edge list" where
  "unresolvedClass cs db r = (if column8 ClassRefRow ''edgeCount'' r \<noteq> 0 then [] else case classPos cs (column8 ClassRefRow ''ownerClass'' r) of
     None \<Rightarrow> [] | Some i \<Rightarrow> [dashedTo i (textOf ClassRefRow ''name'' db r @ '' (missing)'') (textOf ClassRefRow ''name'' db r)])"

definition drawnMember :: "ref_types \<Rightarrow> layout \<Rightarrow> string \<Rightarrow> table_row list \<Rightarrow> table_row list \<Rightarrow> database \<Rightarrow> table_row \<Rightarrow> drawn_edge list" where
  "drawnMember types le color cs ms db e = (let m = ms ! unat (column8 le ''to'' e) in
     case (classPos cs (column8 le ''ownerClass'' e), classPos cs (column8 (targetLayout types) ''ownerClass'' m)) of
       (Some i, Some k) \<Rightarrow> [solidTo i k (orEmpty (ownedKey (targetLayout types) 0 1 (dbPool db) (dbLookup db) m) @ '' '' @
          textOf (targetLayout types) ''descriptor'' db m) color]
     | _ \<Rightarrow> [])"

definition unresolvedMember :: "ref_types \<Rightarrow> table_row list \<Rightarrow> database \<Rightarrow> table_row \<Rightarrow> drawn_edge list" where
  "unresolvedMember types cs db r = (if column8 (refLayout types) ''edgeCount'' r \<noteq> 0 then [] else
     case classPos cs (column8 (refLayout types) ''ownerClass'' r) of
       None \<Rightarrow> []
     | Some i \<Rightarrow> (let key = textOf (refLayout types) ''classname'' db r @ ''#'' @ textOf (refLayout types) ''name'' db r @ '' '' @
           textOf (refLayout types) ''descriptor'' db r
         in [dashedTo i key (key @ '' (missing)'')]))"

definition drawnEdges :: "database \<Rightarrow> table_row list list \<Rightarrow> drawn_edge list" where
  "drawnEdges db rss = (let drawn = \<lambda>f rs. concat (map f (live rs)); cs = rss ! 1 in
     drawn (drawnClass cs) (rss ! 7) @ drawn (unresolvedClass cs db) (rss ! 2) @
     drawn (drawnMember methodTypes MethodRefEdgeRow kMethodEdgeColor cs (rss ! 3) db) (rss ! 8) @ drawn (unresolvedMember methodTypes cs db) (rss ! 4) @
     drawn (drawnMember fieldTypes FieldRefEdgeRow kFieldEdgeColor cs (rss ! 5) db) (rss ! 9) @ drawn (unresolvedMember fieldTypes cs db) (rss ! 6))"

text \<open>An edge of the exporter draws an edge of the picture.\<close>

definition draws :: "exporter \<Rightarrow> edge_record \<Rightarrow> drawn_edge \<Rightarrow> bool" where
  "draws x e d \<longleftrightarrow> edgeFrom e = int (drawnFrom d) \<and> edgeLabel e = drawnLabel d \<and> edgeColor e = drawnColor d \<and> edgeStyle e = drawnStyle d \<and>
     (case drawnTo d of
        ToClass k \<Rightarrow> edgeTo e = int k
      | ToMissing s \<Rightarrow> \<exists>i<length (nodes x). edgeTo e = int i \<and> isMissing (nodes x ! i) \<and> nodeLabel (nodes x ! i) = s)"

definition draw :: "drawn_edge \<Rightarrow> exporter \<Rightarrow> exporter" where
  "draw d x = (case drawnTo d of
     ToClass k \<Rightarrow> pushEdge (int (drawnFrom d)) (int k) (drawnLabel d) (drawnColor d) (drawnStyle d) x
   | ToMissing s \<Rightarrow> (case getMissingNodeId s x of (k, x') \<Rightarrow> pushEdge (int (drawnFrom d)) k (drawnLabel d) (drawnColor d) (drawnStyle d) x'))"

definition nodeAt :: "table_row list \<Rightarrow> u8 \<Rightarrow> int" where
  "nodeAt cs c = (case classPos cs c of None \<Rightarrow> - 1 | Some i \<Rightarrow> int i)"

lemma draw_classes [simp]: "getClassNodeId c (draw d x) = getClassNodeId c x"
  by (auto simp: draw_def getMissingNodeId_def pushEdge_def getClassNodeId_def Let_def split: edge_end.splits option.splits)

lemma fold_draw_classes [simp]: "getClassNodeId c (fold draw ds x) = getClassNodeId c x"
  by (induction ds arbitrary: x) simp_all

text \<open>A callback of the exporter draws the edges that \<open>drawn\<close> gives for its row.\<close>

locale drawing_step =
  fixes classes :: "table_row list" and step :: "table_row \<Rightarrow> exporter \<Rightarrow> exporter result"
    and readable :: "table_row \<Rightarrow> bool" and drawn :: "table_row \<Rightarrow> drawn_edge list"
  assumes step_draws: "readable r \<Longrightarrow> \<forall>c. getClassNodeId c x = nodeAt classes c \<Longrightarrow> step r x = Inr (fold draw (drawn r) x)"
    and one_edge: "length (drawn r) \<le> 1"
begin

lemma fold_draws: "\<forall>r\<in>set (live rs). readable r \<Longrightarrow> \<forall>c. getClassNodeId c x = nodeAt classes c \<Longrightarrow>
    rowFold step rs x = Inr (fold draw (concat (map drawn (live rs))) x)"
proof (induction rs arbitrary: x)
  case (Cons r rs)
  then show ?case using step_draws [of r x] by (cases "isDeleted r") simp_all
qed simp

lemma edges_bound: "length (concat (map drawn (live rs))) \<le> length rs"
proof (induction rs)
  case (Cons r rs)
  then show ?case using one_edge [of r] by auto
qed simp

end

interpretation class_drawing: drawing_step cs classEdge "\<lambda>_. True" "drawnClass cs" for cs
  by unfold_locales (auto simp: classEdge_def drawnClass_def nodeAt_def draw_def Let_def split: option.splits)

interpretation class_missing: drawing_step cs "missingClass db" "textOk ClassRefRow db [''name'']" "unresolvedClass cs db" for cs db
  by unfold_locales (auto simp: missingClass_def unresolvedClass_def nodeAt_def draw_def textOk_def orEmpty_def pushMissing_def Let_def split: option.splits prod.splits)

interpretation member_missing: drawing_step cs "missingMember types db" "textOk (refLayout types) db [''classname'', ''name'', ''descriptor'']" "unresolvedMember types cs db"
  for cs types db
  by unfold_locales (auto simp: missingMember_def unresolvedMember_def nodeAt_def draw_def textOk_def orEmpty_def pushMissing_def Let_def split: option.splits prod.splits)

lemma mapR_nth: "mapR f xs = Inr ys \<Longrightarrow> i < length xs \<Longrightarrow> f (xs ! i) = Inr (ys ! i)"
proof (induction xs arbitrary: ys i)
  case (Cons x xs)
  then show ?case by (cases i) (auto simp: bindR_Inr_iff)
qed simp

text \<open>The row an edge points to is the one at its identifier.\<close>

lemma targetOk_row:
  assumes "targetOk types le db e" "rowsOf (tableOf (targetTable types) db) = Inr ms"
  shows "\<exists>a. fst (getRow (column8 le ''to'' e) (tableOf (targetTable types) db)) = Inr a \<and>
    cellRow (tableOf (targetTable types) db) a = Inr (ms ! unat (column8 le ''to'' e)) \<and> textOk (targetLayout types) db [''descriptor''] (ms ! unat (column8 le ''to'' e)) \<and>
    (\<exists>s. ownedKey (targetLayout types) 0 1 (dbPool db) (dbLookup db) (ms ! unat (column8 le ''to'' e)) = Inr s)"
proof -
  let ?t = "tableOf (targetTable types) db" and ?i = "unat (column8 le ''to'' e)"
  obtain a m s where a: "fst (getRow (column8 le ''to'' e) ?t) = Inr a" "cellRow ?t a = Inr m" "textOk (targetLayout types) db [''descriptor''] m"
    "ownedKey (targetLayout types) 0 1 (dbPool db) (dbLookup db) m = Inr s" using assms(1) by (auto simp: targetOk_def)
  have "?i < length (autoIncrementIndex ?t) \<and> a = autoIncrementIndex ?t ! ?i"
    using a(1) by (auto simp: getRow_def andThen_def getState_def ret_def throw_def split: if_splits)
  then have "m = ms ! ?i" using assms(2) a(2) mapR_nth unfolding rowsOf_def by fastforce
  then show ?thesis using a by blast
qed

interpretation member_drawing: drawing_step cs "memberEdge types le color db"
    "\<lambda>r. targetOk types le db r \<and> rowsOf (tableOf (targetTable types) db) = Inr ms" "drawnMember types le color cs ms db" for cs types le color db ms
proof
  fix r x assume r: "targetOk types le db r \<and> rowsOf (tableOf (targetTable types) db) = Inr ms" and x: "\<forall>c. getClassNodeId c x = nodeAt cs c"
  then show "memberEdge types le color db r x = Inr (fold draw (drawnMember types le color cs ms db r) x)"
    using targetOk_row [of types le db r ms] by (auto simp: memberEdge_def drawnMember_def nodeAt_def draw_def textOk_def orEmpty_def Let_def split: option.splits)
qed (auto simp: drawnMember_def Let_def split: option.splits)

lemma nodeAt_built:
  assumes "\<forall>i<length (live cs). classNodeIds x (rowId (live cs ! i)) = Some (int i)" "dom (classNodeIds x) = rowId ` set (live cs)"
  shows "\<forall>c. getClassNodeId c x = nodeAt cs c"
proof
  fix c
  show "getClassNodeId c x = nodeAt cs c"
  proof (cases "classPos cs c")
    case None
    then have "\<forall>i<length (live cs). rowId (live cs ! i) \<noteq> c" by (simp add: classPos_def find_None_iff)
    then have "c \<notin> dom (classNodeIds x)" unfolding assms(2) by (metis imageE in_set_conv_nth)
    then show ?thesis using None by (simp add: nodeAt_def getClassNodeId_def domIff)
  next
    case (Some i)
    then have "i < length (live cs)" "rowId (live cs ! i) = c" by (auto simp: classPos_def find_Some_iff)
    then show ?thesis using assms(1) Some by (auto simp: nodeAt_def getClassNodeId_def)
  qed
qed

lemma collectEdges_draws:
  assumes "exportable db rss" "\<forall>c. getClassNodeId c x = nodeAt (rss ! 1) c" "edges x = []"
  shows "collectEdges db x = Inr (fold draw (drawnEdges db rss) x)"
proof -
  have rows: "rowsOf (tableOf j db) = Inr (rss ! j)" if "j < 10" for j using assms(1) that by (simp add: exportable_def)
  have types: "refLayout methodTypes = MethodRefRow" "refLayout fieldTypes = FieldRefRow" "targetTable methodTypes = 3" "targetTable fieldTypes = 5"
    by (simp_all add: methodTypes_def fieldTypes_def)
  note refs = member_missing.fold_draws [where types = methodTypes and cs = "rss ! 1" and db = db, unfolded types]
    member_missing.fold_draws [where types = fieldTypes and cs = "rss ! 1" and db = db, unfolded types]
    member_drawing.fold_draws [where types = methodTypes and cs = "rss ! 1" and db = db and ms = "rss ! 3", unfolded types]
    member_drawing.fold_draws [where types = fieldTypes and cs = "rss ! 1" and db = db and ms = "rss ! 5", unfolded types]
  have "x\<lparr>edges := []\<rparr> = x" using assms(3) by simp
  moreover have "\<forall>r\<in>set (live (rss ! 2)). textOk ClassRefRow db [''name''] r"
    "\<forall>r\<in>set (live (rss ! 4)). textOk MethodRefRow db [''classname'', ''name'', ''descriptor''] r"
    "\<forall>r\<in>set (live (rss ! 6)). textOk FieldRefRow db [''classname'', ''name'', ''descriptor''] r"
    "\<forall>r\<in>set (live (rss ! 8)). targetOk methodTypes MethodRefEdgeRow db r \<and> rowsOf (tableOf 3 db) = Inr (rss ! 3)"
    "\<forall>r\<in>set (live (rss ! 9)). targetOk fieldTypes FieldRefEdgeRow db r \<and> rowsOf (tableOf 5 db) = Inr (rss ! 5)"
    using assms(1) rows unfolding exportable_def by simp_all
  ultimately show ?thesis
    by (simp add: collectEdges_def collectClassEdges_def collectMethodEdges_def collectFieldEdges_def drawnEdges_def Let_def forRowsOf_rows [OF rows]
        class_drawing.fold_draws [where cs = "rss ! 1"] class_missing.fold_draws [where cs = "rss ! 1"] refs assms(2) del: One_nat_def)
qed

lemma drawnEdges_bound:
  "length (drawnEdges db rss) \<le> length (rss ! 2) + length (rss ! 4) + length (rss ! 6) + length (rss ! 7) + length (rss ! 8) + length (rss ! 9)"
  unfolding drawnEdges_def Let_def length_append
  using class_drawing.edges_bound [of "rss ! 1" "rss ! 7"] class_missing.edges_bound [of "rss ! 1" db "rss ! 2"]
    member_missing.edges_bound [of methodTypes "rss ! 1" db "rss ! 4"] member_missing.edges_bound [of fieldTypes "rss ! 1" db "rss ! 6"]
    member_drawing.edges_bound [of methodTypes MethodRefEdgeRow kMethodEdgeColor "rss ! 1" "rss ! 3" db "rss ! 8"]
    member_drawing.edges_bound [of fieldTypes FieldRefEdgeRow kFieldEdgeColor "rss ! 1" "rss ! 5" db "rss ! 9"]
  by linarith

text \<open>The state of the exporter after the edges \<open>ds\<close>: each is there, and a missing node stands for each unresolved name.\<close>

definition drawnSo :: "drawn_edge list \<Rightarrow> exporter \<Rightarrow> bool" where
  "drawnSo ds x \<longleftrightarrow> list_all2 (draws x) (edges x) ds \<and> nodeLabel ` set (filter isMissing (nodes x)) = {s. ToMissing s \<in> drawnTo ` set ds} \<and>
     (\<forall>s k. missingNodeIds x s = Some k \<longrightarrow> (\<exists>i<length (nodes x). k = int i \<and> isMissing (nodes x ! i) \<and> nodeLabel (nodes x ! i) = s))"

lemma draws_more:
  assumes "list_all2 (draws x) es ds" "nodes x' = nodes x @ ns"
  shows "list_all2 (draws x') es ds"
proof -
  have "draws x' e d" if old: "draws x e d" for e d
  proof (cases "drawnTo d")
    case (ToMissing s)
    then obtain i where "i < length (nodes x)" "edgeTo e = int i \<and> isMissing (nodes x ! i) \<and> nodeLabel (nodes x ! i) = s" using old by (auto simp: draws_def)
    then show ?thesis using old ToMissing assms(2) by (auto simp: draws_def nth_append intro!: exI [of _ i])
  qed (use old in \<open>simp add: draws_def\<close>)
  then show ?thesis using assms(1) list_all2_mono by blast
qed

lemma drawnSo_draw:
  assumes "drawnSo ds x" "length (nodes x) < 2 ^ 31"
  shows "drawnSo (ds @ [d]) (draw d x) \<and> length (nodes (draw d x)) \<le> length (nodes x) + 1"
proof (cases "drawnTo d")
  case (ToClass k)
  let ?x = "draw d x"
  have x: "nodes ?x = nodes x" "missingNodeIds ?x = missingNodeIds x" by (simp_all add: draw_def ToClass pushEdge_def)
  have "list_all2 (draws ?x) (edges ?x) (ds @ [d])"
    using draws_more [of x "edges x" ds ?x "[]"] assms(1) x(1) by (auto simp: drawnSo_def draw_def ToClass pushEdge_def draws_def intro!: list_all2_appendI)
  then show ?thesis using assms(1) by (auto simp: drawnSo_def x ToClass)
next
  case (ToMissing s)
  let ?x = "draw d x"
  show ?thesis
  proof (cases "missingNodeIds x s")
    case None
    have x: "nodes ?x = nodes x @ [\<lparr>nodeId = int (length (nodes x)), nodeLabel = s, isMissing = True\<rparr>]"
      "missingNodeIds ?x = (missingNodeIds x)(s \<mapsto> int (length (nodes x)))"
      "edges ?x = edges x @ [\<lparr>edgeFrom = int (drawnFrom d), edgeTo = int (length (nodes x)), edgeLabel = drawnLabel d, edgeColor = drawnColor d, edgeStyle = drawnStyle d\<rparr>]"
      using castInt_small [OF assms(2)] by (simp_all add: draw_def ToMissing getMissingNodeId_def None pushEdge_def Let_def)
    have "list_all2 (draws ?x) (edges ?x) (ds @ [d])"
      using draws_more [of x "edges x" ds ?x, OF _ x(1)] assms(1) by (auto simp: drawnSo_def x draws_def ToMissing nth_append intro!: list_all2_appendI)
    moreover have "\<exists>i<length (nodes ?x). k = int i \<and> isMissing (nodes ?x ! i) \<and> nodeLabel (nodes ?x ! i) = l" if new: "missingNodeIds ?x l = Some k" for l k
    proof (cases "l = s")
      case False
      then obtain i where "i < length (nodes x)" "k = int i \<and> isMissing (nodes x ! i) \<and> nodeLabel (nodes x ! i) = l"
        using new assms(1) unfolding drawnSo_def by (metis fun_upd_other x(2))
      then show ?thesis by (auto simp: x nth_append intro!: exI [of _ i])
    qed (use new in \<open>auto simp: x nth_append\<close>)
    ultimately show ?thesis using assms(1) by (auto simp: drawnSo_def x(1) ToMissing)
  next
    case (Some k)
    then obtain i where i: "i < length (nodes x)" "k = int i" "isMissing (nodes x ! i)" "nodeLabel (nodes x ! i) = s" using assms(1) unfolding drawnSo_def by blast
    have x: "nodes ?x = nodes x" "missingNodeIds ?x = missingNodeIds x"
      "edges ?x = edges x @ [\<lparr>edgeFrom = int (drawnFrom d), edgeTo = k, edgeLabel = drawnLabel d, edgeColor = drawnColor d, edgeStyle = drawnStyle d\<rparr>]"
      by (simp_all add: draw_def ToMissing getMissingNodeId_def Some pushEdge_def)
    have "list_all2 (draws ?x) (edges ?x) (ds @ [d])"
      using draws_more [of x "edges x" ds ?x "[]"] assms(1) i by (auto simp: drawnSo_def x draws_def ToMissing intro!: list_all2_appendI)
    moreover have "s \<in> nodeLabel ` set (filter isMissing (nodes x))" using i nth_mem [OF i(1)] by (auto intro!: image_eqI [of _ _ "nodes x ! i"])
    ultimately show ?thesis using assms(1) by (auto simp: drawnSo_def x(1,2) ToMissing)
  qed
qed

lemma drawnSo_fold:
  assumes "drawnSo [] x" "length (nodes x) + length ds < 2 ^ 31"
  shows "drawnSo ds (fold draw ds x) \<and> length (nodes (fold draw ds x)) \<le> length (nodes x) + length ds"
  using assms
proof (induction ds rule: rev_induct)
  case (snoc d ds)
  then show ?case using drawnSo_draw [of ds "fold draw ds x" d] by simp
qed simp

lemma distinct_singleton_set: "distinct xs \<Longrightarrow> set xs = {a} \<Longrightarrow> xs = [a]"
  by (cases xs; cases "List.tl xs") auto

text \<open>(C18)
  The exporter draws the call graph.  On tables that hold what it reads (\<open>exportable\<close>: the rows can
  be read, the identifiers of the classes differ, the texts are in the pool, edges point to rows and
  there are fewer rows than an int counts), the nodes are numbered by position.  There is one for
  each live class, in the order of the table and with its strong name, and exactly one for each
  unresolved name.  The edges are those of the picture of the tables, in its order: one per row of
  an edge table whose two classes are live and one per unresolved reference of a live class, with
  its label, colour and style.  So every edge leaves a class and ends at a node.  An export to
  both formats, where files can be opened, writes the texts of this graph; without a live class
  it fails and writes nothing.
\<close>

theorem export_graph_closed:
  assumes "exportable db rss"
  shows "\<exists>x0 x. buildClassNodes db newExporter = Inr x0 \<and> collectEdges db x0 = Inr x \<and> map nodeId (nodes x) = map int [0..<length (nodes x)] \<and>
    list_all2 (\<lambda>r n. getStrongClassname 0 (dbPool db) (dbLookup db) r = Inr (nodeLabel n)) (live (rss ! 1)) (classNodes x) \<and>
    distinct (map nodeLabel (filter isMissing (nodes x))) \<and> set (map nodeLabel (filter isMissing (nodes x))) = {s. ToMissing s \<in> drawnTo ` set (drawnEdges db rss)} \<and>
    list_all2 (draws x) (edges x) (drawnEdges db rss) \<and>
    (\<forall>e\<in>set (edges x). \<exists>i<length (nodes x). \<exists>k<length (nodes x). edgeFrom e = int i \<and> \<not> isMissing (nodes x ! i) \<and> edgeTo e = int k) \<and>
    (let dir = ensureOutputDir cwd outputDir in exportRun cwd (\<lambda>_. True) outputDir True True db fs =
       (if live (rss ! 1) = [] then Inr (False, fs)
        else Inr (True, fs(pathJoin dir ''callgraph.dot'' \<mapsto> map charByte (dotText x), pathJoin dir ''callgraph.gml'' \<mapsto> map charByte (gmlText x)))))"
proof -
  have rows: "rowsOf (tableOf 1 db) = Inr (rss ! 1)" and ids: "distinct (map rowId (rss ! 1))" "length (rss ! 1) < 2 ^ 31" using assms by (simp_all add: exportable_def)
  let ?label = "\<lambda>r. projr (getStrongClassname 0 (dbPool db) (dbLookup db) r)"
  have names: "\<forall>r\<in>set (rss ! 1). \<not> isDeleted r \<longrightarrow> getStrongClassname 0 (dbPool db) (dbLookup db) r = Inr (?label r)"
    using assms by (auto simp: exportable_def)
  from buildClassNodes_rows [OF rows names ids] obtain x0 where x0: "buildClassNodes db newExporter = Inr x0" "graphClosed x0"
    "map nodeLabel (nodes x0) = map ?label (live (rss ! 1))" "\<forall>n\<in>set (nodes x0). \<not> isMissing n" "edges x0 = []"
    "\<forall>i<length (live (rss ! 1)). classNodeIds x0 (rowId (live (rss ! 1) ! i)) = Some (int i)" "dom (classNodeIds x0) = rowId ` set (live (rss ! 1))"
    "missingNodeIds x0 = Map.empty" by blast
  have n0: "length (nodes x0) = length (live (rss ! 1))" using arg_cong [OF x0(3), of length] by simp
  then have "length (nodes x0) \<le> length (rss ! 1)" by simp
  from collectEdges_ok [OF assms x0(2) this x0(5)] obtain x where x: "collectEdges db x0 = Inr x" "graphClosed x" "classNodes x = nodes x0"
    using x0(4) by (auto simp: filter_id_conv)
  have "map nodeId (nodes x) = map int [0..<length (nodes x)]" using x(2) by (intro nth_equalityI) (simp_all add: graphClosed_def)
  moreover have "getStrongClassname 0 (dbPool db) (dbLookup db) (live (rss ! 1) ! i) = Inr (nodeLabel (nodes x0 ! i))" if "i < length (nodes x0)" for i
  proof -
    have "nodeLabel (nodes x0 ! i) = ?label (live (rss ! 1) ! i)" using arg_cong [OF x0(3), of "\<lambda>xs. xs ! i"] that n0 by simp
    moreover have "live (rss ! 1) ! i \<in> set (live (rss ! 1))" using that n0 by (intro nth_mem) simp
    ultimately show ?thesis using names by auto
  qed
  then have "list_all2 (\<lambda>r n. getStrongClassname 0 (dbPool db) (dbLookup db) r = Inr (nodeLabel n)) (live (rss ! 1)) (classNodes x)"
    unfolding x(3) using n0 by (simp add: list_all2_conv_all_nth)
  moreover have "\<forall>e\<in>set (edges x). \<exists>i<length (nodes x). \<exists>k<length (nodes x). edgeFrom e = int i \<and> \<not> isMissing (nodes x ! i) \<and> edgeTo e = int k"
    using x(2) unfolding graphClosed_def by blast
  moreover have "drawnSo (drawnEdges db rss) x"
  proof -
    have "x = fold draw (drawnEdges db rss) x0" using collectEdges_draws [OF assms nodeAt_built [OF x0(6,7)] x0(5)] x(1) by simp
    moreover have "drawnSo [] x0" using x0(4,5,8) by (auto simp: drawnSo_def)
    moreover have "length (nodes x0) + length (drawnEdges db rss) < 2 ^ 31"
      using assms n0 length_filter_le [of "\<lambda>r. \<not> isDeleted r" "rss ! 1"] drawnEdges_bound [of db rss] unfolding exportable_def by linarith
    ultimately show ?thesis using drawnSo_fold by blast
  qed
  moreover have "nodes x0 = [] \<longleftrightarrow> live (rss ! 1) = []" using n0 by (metis length_0_conv)
  then have "exportRun cwd (\<lambda>_. True) outputDir True True db fs = (if live (rss ! 1) = [] then Inr (False, fs)
      else Inr (True, fs(pathJoin (ensureOutputDir cwd outputDir) ''callgraph.dot'' \<mapsto> map charByte (dotText x),
        pathJoin (ensureOutputDir cwd outputDir) ''callgraph.gml'' \<mapsto> map charByte (gmlText x))))"
    using x0(1) x(1) by (simp add: exportRun_def writeText_def Let_def)
  ultimately show ?thesis unfolding Let_def drawnSo_def using x0(1) x(1) missing_distinct [OF x(2)]
    by (intro exI [of _ x0] exI [of _ x] conjI) simp_all
qed

section \<open>Where class edges start\<close>

lemma rowFold_invariant:
  assumes "\<And>r x x'. r \<in> set rs \<Longrightarrow> P x \<Longrightarrow> f r x = Inr x' \<Longrightarrow> P x'" "P x" "rowFold f rs x = Inr x'"
  shows "P x'"
  using assms
proof (induction rs arbitrary: x)
  case (Cons r rs)
  then obtain x1 where x1: "(if isDeleted r then Inr x else f r x) = Inr x1" "rowFold f rs x1 = Inr x'" by (auto simp: bindR_Inr_iff)
  have "P x1" using x1(1) Cons.prems(1) [of r x x1] Cons.prems(2) by (auto split: if_splits)
  with Cons x1(2) show ?case by (meson list.set_intros(2))
qed simp

lemma buildClassNodes_edges: "rowsOf (tableOf 1 db) = Inr rs \<Longrightarrow> buildClassNodes db newExporter = Inr x \<Longrightarrow> edges x = []"
  unfolding buildClassNodes_def
  by (subst (asm) forRowsOf_rows, assumption, erule rowFold_invariant [rotated 2])
    (auto simp: newExporter_def addClassNode_def Let_def bindR_Inr_iff)

lemma collectClassEdges_source:
  assumes "rowsOf (tableOf 7 db) = Inr es" "rowsOf (tableOf 2 db) = Inr rs" "\<forall>e\<in>set es. column8 ClassRefEdgeRow ''ownerClass'' e = 0"
    and "edges x0 = []" "collectClassEdges db x0 = Inr x"
  shows "\<forall>e\<in>set (edges x). edgeStyle e = ''solid'' \<longrightarrow> edgeFrom e = getClassNodeId 0 x0"
proof -
  let ?P = "\<lambda>x. classNodeIds x = classNodeIds x0 \<and> (\<forall>e\<in>set (edges x). edgeStyle e = ''solid'' \<longrightarrow> edgeFrom e = getClassNodeId 0 x0)"
  obtain x1 where x1: "rowFold classEdge es x0 = Inr x1" "rowFold (missingClass db) rs x1 = Inr x"
    using assms(5) by (auto simp: collectClassEdges_def bindR_Inr_iff forRowsOf_rows [OF assms(1)] forRowsOf_rows [OF assms(2)])
  have "?P x1"
  proof (rule rowFold_invariant [where P = ?P, OF _ _ x1(1)])
    fix r x x' assume r: "r \<in> set es" "?P x" "classEdge r x = Inr x'"
    then have "getClassNodeId (column8 ClassRefEdgeRow ''ownerClass'' r) x = getClassNodeId 0 x0" using assms(3) by (simp add: getClassNodeId_def)
    then show "?P x'" using r by (auto simp: classEdge_def Let_def pushEdge_def split: if_splits)
  qed (simp add: assms(4))
  have "?P x"
  proof (rule rowFold_invariant [where P = ?P, OF _ \<open>?P x1\<close> x1(2)])
    fix r x x' assume r: "?P x" "missingClass db r x = Inr x'"
    have "x' = x \<or> (\<exists>key label from. x' = pushMissing from key label x)"
      using r(2) by (auto simp: missingClass_def Let_def bindR_Inr_iff split: if_splits)
    moreover have "?P (pushMissing from key label x)" for key label "from"
      using r(1) by (auto simp: pushMissing_def getMissingNodeId_def Let_def pushEdge_def split: option.splits)
    ultimately show "?P x'" using r(1) by auto
  qed
  then show ?thesis by simp
qed

text \<open>The edges between classes that the exporter draws after linking all start at the node of the class with
  identifier 0, whichever class holds the reference: linking leaves the owner of these edges unset.\<close>

lemma class_edges_one_source:
  assumes "graphOk db rss" "reorders classOrder" "reorders memberOrder"
    and "length (rss ! 2) * length (rss ! 1) < 2 ^ 64" "length (rss ! 4) * length (rss ! 3) < 2 ^ 64" "length (rss ! 6) * length (rss ! 5) < 2 ^ 64"
    and "linkRefNodes classOrder memberOrder db = (Inr (), db')" "buildClassNodes db' newExporter = Inr x0" "collectClassEdges db' x0 = Inr x"
  shows "\<forall>e\<in>set (edges x). edgeStyle e = ''solid'' \<longrightarrow> edgeFrom e = getClassNodeId 0 x0"
proof -
  from linkRefNodes_joined [OF assms(1-6)] assms(7) have "joined 2 1 7 ClassRefRow ClassFileRow (\<lambda>_. 0) sameClass (rss ! 2) (rss ! 1) db'" by auto
  then obtain rs cs es where rows: "rowsOf (tableOf 2 db') = Inr rs" "rowsOf (tableOf 1 db') = Inr cs" "rowsOf (tableOf 7 db') = Inr es"
    and bodies: "mset (map rowBody es) = mset (concat (map (\<lambda>r. map (\<lambda>t. edgeBody 0 (rowId r) (rowId t)) (filter (sameClass r) (rss ! 1))) (rss ! 2)))"
    by (auto simp: joined_def)
  have "column8 ClassRefEdgeRow ''ownerClass'' e = 0" if "e \<in> set es" for e
  proof -
    have "rowBody e \<in> set (map rowBody es)" using that by simp
    also have "\<dots> = set (concat (map (\<lambda>r. map (\<lambda>t. edgeBody 0 (rowId r) (rowId t)) (filter (sameClass r) (rss ! 1))) (rss ! 2)))" by (rule mset_eq_setD [OF bodies])
    finally obtain a b where "rowBody e = edgeBody 0 a b" by auto
    then show ?thesis by (simp add: column8_body layout_defs edgeBody_def)
  qed
  then show ?thesis using collectClassEdges_source [OF rows(3,1) _ buildClassNodes_edges [OF rows(2) assms(8)] assms(9)] by blast
qed

definition zeroRow :: "nat \<Rightarrow> u8 \<Rightarrow> table_row" where
  "zeroRow n i = \<lparr>rowFlags = 0, rowId = i, rowBody = replicate n 0\<rparr>"

definition ownedRef :: table_row where
  "ownedRef = \<lparr>rowFlags = 0, rowId = 0, rowBody = putU8 1 @ replicate 16 0\<rparr>"

abbreviation twoClasses :: "table_row list list" where
  "twoClasses \<equiv> (replicate 10 [])[0 := [zeroRow 72 0], 1 := [zeroRow 84 0, zeroRow 84 1], 2 := [ownedRef]]"

lemma zeroRow_simps [simp]: "rowId (zeroRow n i) = i" "\<not> isDeleted (zeroRow n i)" "length (rowBody (zeroRow n i)) = n"
  "16 \<le> offsetOf l c \<Longrightarrow> column8 l c (zeroRow n i) = 0"
proof -
  have z: "leValue (replicate m 0) = 0" for m by (induction m) simp_all
  show "16 \<le> offsetOf l c \<Longrightarrow> column8 l c (zeroRow n i) = 0" by (simp add: column8_body zeroRow_def getU8_def z)
qed (simp_all add: zeroRow_def isDeleted_def)

lemma graphOk_cells: "graphOk db rss \<Longrightarrow> j < 10 \<Longrightarrow> cells (tableOf j db) (autoIncrementIndex (tableOf j db)) (rss ! j)"
  by (simp add: graphOk_def)

lemma cells_fresh: "(\<forall>i<length rs. rowId (rs ! i) = of_nat i) \<Longrightarrow> length rs < 2 ^ 64 \<Longrightarrow>
    cells (t\<lparr>heap := map_of (zip [0..<length rs] (map Holds rs)), autoIncrementIndex := [0..<length rs]\<rparr>) [0..<length rs] rs"
  using map_of_zip_nth [of "[0..<length rs]" "map Holds rs"] by (simp add: cells_def)

lemma twoClasses_graph: "\<exists>db f b. graphOk db twoClasses \<and> dbPool db = StringPool f b"
proof -
  obtain db0 where db0: "callGraphDbInit ''d'' 0 = Inr db0" "newTables db0 ''d'' callGraphSpecs" using callGraphDbInit_ok by blast
  let ?t = "\<lambda>j rs. (tableOf j db0)\<lparr>heap := map_of (zip [0..<length rs] (map Holds rs)), autoIncrementIndex := [0..<length rs]\<rparr>"
  let ?cs = "[zeroRow 84 0, zeroRow 84 1]"
  let ?db1 = "setTable 0 (?t 0 [zeroRow 72 0]) db0" let ?db2 = "setTable 1 (?t 1 ?cs) ?db1" let ?db3 = "setTable 2 (?t 2 [ownedRef]) ?db2"
  have two: "\<forall>i<length ?cs. rowId (?cs ! i) = of_nat i" by (auto simp: less_Suc_eq)
  have size: "sizeOf (graphLayouts ! 0) = 88" "sizeOf (graphLayouts ! 1) = 100" "sizeOf (graphLayouts ! 2) = 40" by (simp_all add: graphLayouts_def sizeOf_def layout_defs)
  have ok1: "graphOk ?db1 ((replicate 10 [])[0 := [zeroRow 72 0]])"
    by (rule graphOk_put [OF graphOk_new [OF db0(1)]]) (use cells_fresh [of "[zeroRow 72 0]" "tableOf 0 db0"] size in auto)
  have ok2: "graphOk ?db2 ((replicate 10 [])[0 := [zeroRow 72 0], 1 := ?cs])"
    by (rule graphOk_put [OF ok1]) (use cells_fresh [OF two, of "tableOf 1 db0"] size in auto)
  have "graphOk ?db3 twoClasses"
    by (rule graphOk_put [OF ok2]) (use cells_fresh [of "[ownedRef]" "tableOf 2 db0"] size in \<open>auto simp: ownedRef_def\<close>)
  moreover have "dbPool ?db3 = dbPool db0" by (simp add: setTable_def)
  ultimately show ?thesis using db0(2) unfolding newTables_def by metis
qed

lemma zero_name:
  assumes "graphOk db twoClasses" "dbPool db = StringPool f b" "tableOf 0 db' = tableOf 0 db" "length (dbTables db') = length (dbTables db)"
    and "column8 ClassFileRow ''file'' r = 0" "column8 ClassFileRow ''classname'' r = 0"
  shows "getStrongClassname 0 (dbPool db) (dbLookup db') r = Inr []"
proof -
  have c: "cells (tableOf 0 db) (autoIncrementIndex (tableOf 0 db)) [zeroRow 72 0]" using graphOk_cells [OF assms(1), of 0] by simp
  have "cellRow (tableOf 0 db) (autoIncrementIndex (tableOf 0 db) ! 0) = Inr (zeroRow 72 0)" using c by (simp add: cells_def cellRow_def)
  moreover have "getRow 0 (tableOf 0 db) = (Inr (autoIncrementIndex (tableOf 0 db) ! 0), tableOf 0 db)" using getRow_cells [OF c, of 0] by simp
  ultimately have "dbLookup db' 0 0 = Inr (zeroRow 72 0)" using graphOk_tables [OF assms(1)] assms(3,4) by (simp add: dbLookup_def)
  moreover have "getCString (dbPool db) 0 = Inr []" by (simp add: assms(2) StringPool_eq getCString_def cString_def)
  moreover have "offsetOf FileRow ''filename'' = 20" by (simp add: layout_defs)
  ultimately show ?thesis using assms(5,6) by (simp add: getStrongClassname_def textColumn_def getFilename_def strongClassname_def)
qed

theorem export_graph_closed_witness:
  "\<exists>db x0 x e. rowsOf (tableOf 1 db) = Inr [zeroRow 84 0, zeroRow 84 1] \<and> buildClassNodes db newExporter = Inr x0 \<and> collectEdges db x0 = Inr x \<and>
     map nodeLabel (classNodes x) = [[], []] \<and> map nodeLabel (filter isMissing (nodes x)) = ['' (missing)''] \<and>
     edges x = [e] \<and> edgeFrom e = 1 \<and> edgeStyle e = ''dashed''"
proof -
  obtain db f b where db: "graphOk db twoClasses" "dbPool db = StringPool f b" using twoClasses_graph by blast
  have rows: "rowsOf (tableOf j db) = Inr (twoClasses ! j)" if "j < 10" for j using graphOk_rows [OF db(1) that] .
  have off: "offsetOf ClassFileRow ''file'' = 16" "offsetOf ClassFileRow ''classname'' = 24" "offsetOf ClassRefRow ''name'' = 24" by (simp_all add: layout_defs)
  have name: "getStrongClassname 0 (dbPool db) (dbLookup db) (zeroRow 84 i) = Inr []" for i by (rule zero_name [OF db]) (simp_all add: off)
  have "column8 ClassRefRow ''name'' ownedRef = 0" using getU8_putU8 [of 0 "replicate 8 0"] by (simp add: column8_body off ownedRef_def getU8_def numeral_eq_Suc)
  then have empty_name: "textColumn ClassRefRow ''name'' (dbPool db) ownedRef = Inr []"
    by (simp add: textColumn_def db(2) StringPool_eq getCString_def cString_def)
  then have "exportable db twoClasses" using rows name by (simp add: exportable_def textOk_def)
  from export_graph_closed [OF this] obtain x0 x where x: "buildClassNodes db newExporter = Inr x0" "collectEdges db x0 = Inr x"
    "list_all2 (\<lambda>r n. getStrongClassname 0 (dbPool db) (dbLookup db) r = Inr (nodeLabel n)) (live (twoClasses ! 1)) (classNodes x)"
    "distinct (map nodeLabel (filter isMissing (nodes x)))" "set (map nodeLabel (filter isMissing (nodes x))) = {s. ToMissing s \<in> drawnTo ` set (drawnEdges db twoClasses)}"
    "list_all2 (draws x) (edges x) (drawnEdges db twoClasses)" by blast
  have "column8 ClassRefRow ''ownerClass'' ownedRef = 1" by (simp add: column8_body layout_defs ownedRef_def)
  moreover have "column8 ClassRefRow ''edgeCount'' ownedRef = 0" "\<not> isDeleted ownedRef"
    by (simp_all add: column8_body layout_defs ownedRef_def getU8_def isDeleted_def numeral_eq_Suc)
  ultimately have "drawnEdges db twoClasses = [dashedTo 1 '' (missing)'' []]"
    by (simp add: drawnEdges_def Let_def unresolvedClass_def orEmpty_def empty_name classPos_def)
  then have "set (map nodeLabel (filter isMissing (nodes x))) = {'' (missing)''}" "\<exists>e. edges x = [e] \<and> edgeFrom e = 1 \<and> edgeStyle e = ''dashed''"
    using x(5,6) by (auto simp: list_all2_Cons2 draws_def)
  moreover from this(1) have "map nodeLabel (filter isMissing (nodes x)) = ['' (missing)'']" using x(4)
    by (metis distinct_singleton_set)
  moreover have "map nodeLabel (classNodes x) = [[], []]" using x(3) by (auto simp: name list_all2_Cons1)
  moreover have "rowsOf (tableOf 1 db) = Inr [zeroRow 84 0, zeroRow 84 1]" using rows [of 1] by simp
  moreover from calculation(2) obtain e where "edges x = [e]" "edgeFrom e = 1" "edgeStyle e = ''dashed''" by blast
  ultimately show ?thesis using x(1,2) by (intro exI [of _ db] exI [of _ x0] exI [of _ x] exI [of _ e] conjI)
qed

lemma class_edges_one_source_witness:
  "\<exists>db db' x0 x. rowsOf (tableOf 2 db) = Inr [ownedRef] \<and> column8 ClassRefRow ''ownerClass'' ownedRef = 1 \<and>
     linkRefNodes rev rev db = (Inr (), db') \<and> buildClassNodes db' newExporter = Inr x0 \<and> collectClassEdges db' x0 = Inr x \<and>
     getClassNodeId 0 x0 = 0 \<and> getClassNodeId 1 x0 = 1 \<and> (\<forall>e\<in>set (edges x). edgeStyle e = ''solid'' \<longrightarrow> edgeFrom e = 0)"
proof -
  obtain db f b where db: "graphOk db twoClasses" "dbPool db = StringPool f b" using twoClasses_graph by blast
  have order: "reorders (rev :: nat list \<Rightarrow> nat list)" "reorders (rev :: u8 list \<Rightarrow> u8 list)" by (simp_all add: reorders_def)
  have room: "length (twoClasses ! 2) * length (twoClasses ! 1) < 2 ^ 64" "length (twoClasses ! 4) * length (twoClasses ! 3) < 2 ^ 64"
    "length (twoClasses ! 6) * length (twoClasses ! 5) < 2 ^ 64" by simp_all
  from linkRefNodes_joined [OF db(1) order room] obtain db' where db': "linkRefNodes rev rev db = (Inr (), db')"
    "joined 2 1 7 ClassRefRow ClassFileRow (\<lambda>_. 0) sameClass [ownedRef] [zeroRow 84 0, zeroRow 84 1] db'" "keepsOthers {1..9} db db'" by auto
  have off: "offsetOf ClassFileRow ''file'' = 16" "offsetOf ClassFileRow ''classname'' = 24" "offsetOf ClassFileRow ''refCount'' = 92"
    "offsetOf ClassRefRow ''edgeCount'' = 32" by (simp_all add: layout_defs)
  let ?c = "\<lambda>n i. addColumn8 ClassFileRow ''refCount'' n (zeroRow 84 i)"
  from db'(2) obtain n m k es where rows: "rowsOf (tableOf 1 db') = Inr [?c n 0, ?c m 1]" "rowsOf (tableOf 2 db') = Inr [addColumn8 ClassRefRow ''edgeCount'' k ownedRef]"
    "rowsOf (tableOf 7 db') = Inr es" and k: "k = of_nat (length (filter (sameClass ownedRef) [zeroRow 84 0, zeroRow 84 1]))" by (auto simp: joined_def)
  have holds: "holdsColumn ClassFileRow ''refCount'' (zeroRow 84 i)" for i by (simp add: holdsColumn_def off)
  have pool: "dbPool db' = dbPool db" "tableOf 0 db' = tableOf 0 db" "length (dbTables db') = length (dbTables db)" using db'(3) by (auto simp: keepsOthers_def)
  have name: "getStrongClassname 0 (dbPool db') (dbLookup db') (?c j i) = Inr []" for i j
    unfolding pool(1) by (rule zero_name [OF db pool(2,3)]) (simp_all add: column8_other [OF holds] off)
  from buildClassNodes_rows [OF rows(1), of "\<lambda>_. []"] name obtain x0 where x0: "buildClassNodes db' newExporter = Inr x0"
    "classNodeIds x0 0 = Some 0" "classNodeIds x0 1 = Some 1" by (auto simp: All_less_Suc)
  have "column8 ClassRefRow ''name'' ownedRef = 0" by (simp add: column8_body layout_defs ownedRef_def getU8_def numeral_eq_Suc)
  moreover have "\<not> isDeleted ownedRef" by (simp add: ownedRef_def isDeleted_def)
  ultimately have "k = 2" by (simp add: k sameClass_def off)
  moreover have "holdsColumn ClassRefRow ''edgeCount'' ownedRef" by (simp add: holdsColumn_def off ownedRef_def)
  ultimately have "column8 ClassRefRow ''edgeCount'' (addColumn8 ClassRefRow ''edgeCount'' k ownedRef) = column8 ClassRefRow ''edgeCount'' ownedRef + 2"
    by (simp add: addColumn8_def holdsColumn_def)
  also have "column8 ClassRefRow ''edgeCount'' ownedRef = 0" by (simp add: column8_body off ownedRef_def getU8_def numeral_eq_Suc)
  finally have "missingClass db' (addColumn8 ClassRefRow ''edgeCount'' k ownedRef) x = Inr x" for x by (simp add: missingClass_def)
  moreover obtain x1 where "rowFold classEdge es x0 = Inr x1" using rowFold_total [of es classEdge x0] steps_total(1) by blast
  ultimately have x: "collectClassEdges db' x0 = Inr x1"
    by (simp add: collectClassEdges_def forRowsOf_rows [OF rows(3)] forRowsOf_rows [OF rows(2)])
  have "\<forall>e\<in>set (edges x1). edgeStyle e = ''solid'' \<longrightarrow> edgeFrom e = 0"
    using class_edges_one_source [OF db(1) order room db'(1) x0(1) x] x0(2) by (simp add: getClassNodeId_def)
  moreover have "column8 ClassRefRow ''ownerClass'' ownedRef = 1" by (simp add: column8_body layout_defs ownedRef_def)
  moreover have "rowsOf (tableOf 2 db) = Inr [ownedRef]" using graphOk_rows [OF db(1), of 2] by simp
  ultimately show ?thesis using db'(1) x0 x
    by (intro exI [of _ db] exI [of _ db'] exI [of _ x0] exI [of _ x1] conjI) (simp_all add: getClassNodeId_def)
qed

section \<open>Labels\<close>

text \<open>
  A reader of quoted labels: up to a double quote, a backslash taking the next character as it is.
  A GML label is read back unchanged; a DOT label that ends in a backslash swallows the quote that
  closes it.
\<close>

fun readQuoted :: "string \<Rightarrow> (string \<times> string) option" where
  "readQuoted [] = None"
| "readQuoted [c] = (if c = CHR 0x22 then Some ([], []) else None)"
| "readQuoted (c # d # cs) =
     (if c = CHR 0x22 then Some ([], d # cs)
      else if c = CHR 0x5C then map_option (\<lambda>(s, rest). (d # s, rest)) (readQuoted cs)
      else map_option (\<lambda>(s, rest). (c # s, rest)) (readQuoted (d # cs)))"

lemma readQuoted_char: "c \<noteq> CHR 0x22 \<Longrightarrow> c \<noteq> CHR 0x5C \<Longrightarrow> readQuoted (c # cs) = map_option (\<lambda>(s, rest). (c # s, rest)) (readQuoted cs)"
  by (cases cs) simp_all

lemma readQuoted_end: "readQuoted (CHR 0x22 # rest) = Some ([], rest)"
  by (cases rest) simp_all

lemma escapeForGml_roundtrip: "readQuoted (escapeForGml s @ [CHR 0x22] @ rest) = Some (s, rest)"
proof (induction s)
  case Nil
  then show ?case by (simp add: escapeForGml_def readQuoted_end)
next
  case (Cons c s)
  then show ?case
    using readQuoted_char [of c "escapeForGml s @ CHR 0x22 # rest"] by (auto simp: escapeForGml_def)
qed

lemma escapeForDot_roundtrip: "CHR 0x5C \<notin> set s \<Longrightarrow> escapeForDot s = escapeForGml s"
  by (induction s) (auto simp: escapeForDot_def escapeForGml_def)

lemma escapeForDot_backslash: "readQuoted (escapeForDot [CHR 0x5C] @ [CHR 0x22] @ rest) = map_option (\<lambda>(s, r). (CHR 0x22 # s, r)) (readQuoted rest)"
  by (simp add: escapeForDot_def)

end
