(* ===== verification/Analyzers.thy ===== *)
theory Analyzers
  imports Jar_Tasks Graph_Export
begin

text \<open>
  The analyzers (\<^verbatim>\<open>app/Analyzer.cpp\<close>, \<^verbatim>\<open>app/commands/digest/DigestAnalyzer.cpp\<close>,
  \<^verbatim>\<open>app/commands/callgraph/CallGraphAnalyzer.cpp\<close>): what is done with a class file on disk, from its
  size and time stamp over the parser to the rows of the database and the report, and which files
  of the input are analysed.
\<close>

section \<open>Shared steps\<close>

text \<open>\<open>envFiles\<close> is the content of the files on disk, \<open>envDir\<close> the regular files below a directory.\<close>

record analyzer_env = task_env +
  envFiles :: "string \<Rightarrow> bytes option"
  envDir :: "string \<Rightarrow> string list"

definition lookupRow :: "nat \<Rightarrow> string \<Rightarrow> (analysis, (nat \<times> table_row) option) prog" where
  "lookupRow j k = andThen getState (\<lambda>s. case findByKey (tableOf j (taskDb s)) k of
     None \<Rightarrow> ret None | Some a \<Rightarrow> andThen (derefIn j a) (\<lambda>r. ret (Some (a, r))))"

definition logLine :: "string \<Rightarrow> (analysis, unit) prog" where
  "logLine msg = modify (\<lambda>s. s\<lparr>taskLog := taskLog s @ [msg]\<rparr>)"

definition reportR :: "(results \<Rightarrow> results result) \<Rightarrow> (analysis, unit) prog" where
  "reportR f = andThen getState (\<lambda>s. andThen (liftR (f (taskResults s))) (\<lambda>r. onResults (\<lambda>_. r)))"

definition parseFile :: "analyzer_env \<Rightarrow> string \<Rightarrow> (analysis, bool \<times> class_file_parser) prog" where
  "parseFile env name =
     andThen (liftR (FileReader (envHost env) (envFiles env) name)) (\<lambda>rd.
     andThen getState (\<lambda>s.
     case parse (newParser rd name (taskLog s)) of (r, p) \<Rightarrow>
       andThen (modify (\<lambda>s. s\<lparr>taskLog := log p\<rparr>)) (\<lambda>_. andThen (liftR r) (\<lambda>ok. ret (ok, p)))))"

definition onStandalone :: "(classfile_stats \<Rightarrow> classfile_stats) \<Rightarrow> results \<Rightarrow> results" where
  "onStandalone f r = r\<lparr>standaloneClassfiles := f (standaloneClassfiles r)\<rparr>"

definition incStandaloneParsed :: "results \<Rightarrow> results" where
  "incStandaloneParsed = onStandalone (\<lambda>c. c\<lparr>parsedCount := parsedCount c + 1\<rparr>)"

text \<open>\<^verbatim>\<open>DigestAnalyzer::isFileUnchanged\<close>, and the same test in the call-graph analyzer.\<close>

definition fileIsUnchanged :: "analyzer_env \<Rightarrow> u8 \<Rightarrow> u8 \<Rightarrow> table_row option \<Rightarrow> bool" where
  "fileIsUnchanged env sz timestamp row = (case row of None \<Rightarrow> False | Some r \<Rightarrow>
     useFileTimestamp (envOptions env) \<and> column8 FileRow ''fileSize'' r = sz \<and> column8 FileRow ''lastWriteTime'' r = timestamp)"

text \<open>Entering a row that \<^verbatim>\<open>add\<close> must find new, and its identifier.\<close>

definition enterNew :: "nat \<Rightarrow> nat \<Rightarrow> bytes \<Rightarrow> (database, u8) prog" where
  "enterNew j a body = onTable j (\<lambda>key. andThen (assign a (nodeRow body)) (\<lambda>_. addRow key a))"

definition addNewNode :: "nat \<Rightarrow> bytes \<Rightarrow> (database, bytes) prog \<Rightarrow> (database, u8) prog" where
  "addNewNode j blank fill = andThen (onTable j (\<lambda>_. newRow (nodeRow blank))) (\<lambda>a. andThen fill (enterNew j a))"

section \<open>The digest analyzer\<close>

definition updateDbInMemory :: "analyzer_env \<Rightarrow> string \<Rightarrow> u8 \<Rightarrow> u8 \<Rightarrow> class_file_parser \<Rightarrow> digest_vector \<Rightarrow> (analysis, unit) prog" where
  "updateDbInMemory env name sz timestamp p d =
     andThen (onDb (onTable 0 (\<lambda>_. newRow (nodeRow (fileBody ClassfileEntry 0 0 0 0 emptyDigestCol))))) (\<lambda>a.
     andThen (onDb (internText (envBlock env) (Inr name))) (\<lambda>h.
     andThen (onDb (enterNode 0 a (fileBody ClassfileEntry h timestamp sz 0 d))) (\<lambda>_.
     andThen (derefIn 0 a) (\<lambda>f.
     andThen (onDb (addNode 1 (classFileBody (rowId f) 0 0 0 0 emptyDigestCol)
       (andThen (internText (envBlock env) (getMainClassname p)) (\<lambda>h. ret (classFileBody (rowId f) h timestamp sz 0 d))))) (\<lambda>_. ret ())))))"

definition digestDoClassFile :: "analyzer_env \<Rightarrow> string \<Rightarrow> (analysis, unit) prog" where
  "digestDoClassFile env name = (let opts = envOptions env in
     andThen (liftR (envStat env name)) (\<lambda>(sz, timestamp).
     andThen (lookupRow 0 name) (\<lambda>found.
     andThen (onResults (onClassTask (\<lambda>c. c\<lparr>taskCount := taskCount c + 1\<rparr>))) (\<lambda>_.
     if \<not> fileIsUnchanged env sz timestamp (map_option snd found) then
       andThen (parseFile env name) (\<lambda>(ok, p).
       if ok then
         andThen (liftR (getMainClassname p)) (\<lambda>classname. let strong = strongClassname (cText name) (cText classname) in
         andThen (liftR (digest (envHash env) p)) (\<lambda>d.
         andThen (case found of
             Some (a, r) \<Rightarrow>
               andThen (if d = digestColumn FileRow r then logLine (''Same public digest of changed file:'' @ name) else ret ()) (\<lambda>_.
               reportR (asModifiedClassFile opts (d = digestColumn FileRow r) strong))
           | None \<Rightarrow> reportR (asNewClassFile opts strong)) (\<lambda>_.
         andThen (onResults incStandaloneParsed) (\<lambda>_.
         if \<not> dryRun (digestOptions opts) then updateDbInMemory env name sz timestamp p d else ret ()))))
       else onResults (asFailedClassFile opts name))
     else onResults (asUnchangedClassFile opts name)))))"

section \<open>The call-graph analyzer\<close>

text \<open>
  The file and class rows of a class that is to be extracted: the identifier of the class row, the
  parsed class, its name, and whether it replaces an older one.
\<close>

definition replaceClassRow :: "string \<Rightarrow> (nat \<times> table_row) option \<Rightarrow> (analysis, unit) prog" where
  "replaceClassRow strong old = (case old of None \<Rightarrow> ret () | Some (c, r) \<Rightarrow>
     andThen (deleteGraphClass (rowId r)) (\<lambda>_.
     andThen (onDb (onTable 1 (\<lambda>_. archiveRow c strong))) (\<lambda>_.
     andThen (derefIn 1 c) (\<lambda>r. andThen (onDb (onTable 1 (\<lambda>_. deleteRow (rowId r)))) (\<lambda>_. ret ())))))"

definition recordClassFile :: "analyzer_env \<Rightarrow> string \<Rightarrow> u8 \<Rightarrow> u8 \<Rightarrow> class_file_parser \<Rightarrow> (analysis, (u8 \<times> string \<times> bool) option) prog" where
  "recordClassFile env name sz timestamp p =
     andThen (onDb (addNode 0 (fileBody ClassfileEntry 0 0 0 0 emptyDigestCol)
       (andThen (internText (envBlock env) (Inr name)) (\<lambda>h. ret (fileBody ClassfileEntry h timestamp sz 1 emptyDigestCol))))) (\<lambda>_.
     andThen (lookupRow 0 name) (\<lambda>stored. case stored of
       None \<Rightarrow> andThen (logLine (''Failed to upsert file row for '' @ name)) (\<lambda>_. ret None)
     | Some (f, fileRow) \<Rightarrow>
         andThen (liftR (getMainClassname p)) (\<lambda>classname. let strong = strongClassname (cText name) (cText classname) in
         andThen (lookupRow 1 strong) (\<lambda>old.
         andThen (replaceClassRow strong old) (\<lambda>_.
         andThen (onDb (addNewNode 1 (classFileBody (rowId fileRow) 0 0 0 0 emptyDigestCol)
           (andThen (internText (envBlock env) (Inr classname)) (\<lambda>h. ret (classFileBody (rowId fileRow) h timestamp sz 0 emptyDigestCol))))) (\<lambda>i.
         ret (Some (i, strong, old \<noteq> None))))))))"

definition graphDoClassFile :: "analyzer_env \<Rightarrow> string \<Rightarrow> analysis \<Rightarrow> (unit result \<times> analysis) option" where
  "graphDoClassFile env name s = (let opts = envOptions env in
     case andThen (liftR (envStat env name)) (\<lambda>(sz, timestamp).
          andThen (lookupRow 0 name) (\<lambda>found.
          andThen (onResults (onClassTask (\<lambda>c. c\<lparr>taskCount := taskCount c + 1\<rparr>))) (\<lambda>_.
          if fileIsUnchanged env sz timestamp (map_option snd found) then andThen (onResults (asUnchangedClassFile opts name)) (\<lambda>_. ret None)
          else andThen (parseFile env name) (\<lambda>(ok, p).
            if \<not> ok then andThen (onResults (asFailedClassFile opts name)) (\<lambda>_. ret None)
            else andThen (onResults incStandaloneParsed) (\<lambda>_.
              andThen (recordClassFile env name sz timestamp p) (\<lambda>r. ret (map_option (Pair p) r))))))) s of
       (Inl e, s) \<Rightarrow> Some (Inl e, s)
     | (Inr None, s) \<Rightarrow> Some (Inr (), s)
     | (Inr (Some (p, i, strong, modified)), s) \<Rightarrow>
         map_option (\<lambda>(r, db). andThen (\<lambda>s. (r, s\<lparr>taskDb := db\<rparr>)) (\<lambda>_.
           reportR (if modified then asModifiedClassFile opts False strong else asNewClassFile opts strong)) s)
           (extractNodes (envBlock env) i p (taskDb s)))"

text \<open>
  The end of an analysis: the references are linked, the graph is exported, and the database is
  written unless this is a dry run or a server.  \<open>cwd\<close> and \<open>canWrite\<close> are those of the exporter.
\<close>

definition graphEndAnalysis :: "analyzer_env \<Rightarrow> string \<Rightarrow> (string \<Rightarrow> bool) \<Rightarrow> (nat list \<Rightarrow> nat list) \<Rightarrow> (u8 list \<Rightarrow> u8 list) \<Rightarrow> database \<Rightarrow> file_system \<Rightarrow> (database \<times> file_system) result" where
  "graphEndAnalysis env cwd canWrite classOrder memberOrder db fs = (let opts = envOptions env; cg = callGraphOptions opts in
     case linkRefNodes classOrder memberOrder db of (Inl e, _) \<Rightarrow> Inl e
     | (Inr _, db) \<Rightarrow>
         bindR (if exportDot cg \<or> exportGml cg
                then bindR (exportRun cwd canWrite (outputDir opts) (exportDot cg) (exportGml cg) db fs) (\<lambda>(ok, fs). Inr fs) else Inr fs) (\<lambda>fs.
         if \<not> dryRun cg \<and> \<not> isServerMode (server cg) then dbStop db fs else Inr (db, fs)))"

definition digestEndAnalysis :: "analyzer_env \<Rightarrow> database \<Rightarrow> file_system \<Rightarrow> (database \<times> file_system) result" where
  "digestEndAnalysis env db fs = (let dg = digestOptions (envOptions env) in
     if \<not> dryRun dg \<and> \<not> isServerMode (server dg) then dbStop db fs else Inr (db, fs))"

section \<open>The input\<close>

text \<open>The files of the input that are analysed, jars and class files, in the order of the directory.\<close>

datatype work_item = JarFile string | ClassFile string

definition processFile_item :: "string \<Rightarrow> work_item list" where
  "processFile_item path = (if isJarPath path then [JarFile path] else if isClassfilePath path then [ClassFile path] else [])"

definition inputItems :: "analyzer_env \<Rightarrow> work_item list" where
  "inputItems env = (let inp = getSubCommandOptions (envOptions env) in
     if isDir inp then concat (map processFile_item (envDir env (input inp)))
     else if isJar inp then [JarFile (input inp)]
     else if isClassFile inp then [ClassFile (input inp)] else [])"

text \<open>What the analyzers do with an item.  \<open>archive\<close> gives the entries of a jar.\<close>

definition withTask :: "(jar_task, unit) prog \<Rightarrow> (analysis, unit) prog" where
  "withTask m = (\<lambda>s. case m (newTask (taskDb s) (taskResults s) (taskLog s)) of
     (r, t) \<Rightarrow> (r, s\<lparr>taskDb := taskDb t, taskResults := taskResults t, taskLog := taskLog t\<rparr>))"

fun digestItem :: "analyzer_env \<Rightarrow> (string \<Rightarrow> zip_entry list) \<Rightarrow> work_item \<Rightarrow> (analysis, unit) prog" where
  "digestItem env archive (JarFile f) =
     andThen (onResults (\<lambda>r. r\<lparr>jarfiles := (jarfiles r)\<lparr>jarCount := jarCount (jarfiles r) + 1\<rparr>\<rparr>)) (\<lambda>_.
     withTask (runDigest (task_env.truncate (env\<lparr>envOptions := (envOptions env)\<lparr>digestOptions := (digestOptions (envOptions env))\<lparr>input := f\<rparr>\<rparr>\<rparr>)) (archive f)))"
| "digestItem env archive (ClassFile f) =
     andThen (onResults (onStandalone (\<lambda>c. c\<lparr>count_cf := count_cf c + 1\<rparr>))) (\<lambda>_. digestDoClassFile env f)"

definition parseClassFile :: "analyzer_env \<Rightarrow> (class_file_parser \<Rightarrow> (analysis, unit) prog) \<Rightarrow> string \<Rightarrow> (analysis, unit) prog" where
  "parseClassFile env classFileParserDone f =
     andThen (parseFile env f) (\<lambda>(ok, p).
     andThen (onResults (onStandalone (\<lambda>c. if ok then c\<lparr>parsedCount := parsedCount c + 1\<rparr> else incErrors c))) (\<lambda>_. classFileParserDone p))"

section \<open>Entering a row\<close>

lemma enterNew_ok:
  assumes g: "graphState db fs rss kss" and j: "j < 10" and a: "Db_Table.allocated (tableOf j db) a r0"
    and body: "length body + 16 = sizeOf (graphLayouts ! j)" and k: "keyAt db j (nodeRow body) = Inr k" "k \<notin> set (kss ! j)" and room: "length (rss ! j) + 1 < 2 ^ 64"
    and run: "enterNode j a body db = (Inr (), db')"
  shows "enterNew j a body db = (Inr (of_nat (length (rss ! j))), db')"
proof -
  let ?t = "tableOf j db" and ?r = "nodeRow body" and ?key = "keyAt db j" let ?t1 = "?t\<lparr>heap := (heap ?t)(a \<mapsto> Holds ?r)\<rparr>"
  note t = graphState_table [OF g j]
  have "autoIncrementIndex ?t ! i \<noteq> a" if "i < length (rss ! j)" for i
    using a t(1) that unfolding Db_Table.allocated_def tableRep_def by (metis nth_mem)
  then have rep: "tableRep ?key ?t1 (rss ! j) (kss ! j)" using t(1) by (auto simp: tableRep_def)
  have alloc: "Db_Table.allocated ?t1 a ?r" "heap ?t a \<noteq> None" using a by (auto simp: Db_Table.allocated_def)
  have "?key (?r\<lparr>rowId := of_nat (length (rss ! j))\<rparr>) = Inr k"
    using k(1) graphState_keyAt [OF g j] ownerTables_body [OF j, of "?r\<lparr>rowId := of_nat (length (rss ! j))\<rparr>" ?r] by simp
  moreover have "length (rowBody ?r) + 16 = rowSize ?t1" using body g j by (simp add: nodeRow_def graphState_def)
  ultimately have same: "addOrUpdate ?key a ?t1 = addRow ?key a ?t1" "\<exists>t2. addRow ?key a ?t1 = (Inr (of_nat (length (rss ! j))), t2)"
    using addOrUpdate_addRow [OF rep alloc(1) k(2,1)] addRow_rep [OF rep alloc(1) k(2,1)] room by blast+
  have "assign a ?r ?t = (Inr (), ?t1)" using alloc(2) by auto
  then show ?thesis using run same by (auto simp: enterNew_def enterNode_def onTable_def)
qed

text \<open>Allocating, filling and entering a row whose key is new, with \<^verbatim>\<open>addOrUpdate\<close> and with \<^verbatim>\<open>add\<close>.\<close>

lemma insert_ok:
  assumes g: "graphState db fs rss kss" and j: "j < 10" and ss: "\<forall>s\<in>set ss. NUL \<notin> set s" "(\<Sum>s\<leftarrow>ss. length s + 1) \<le> poolRoom (dbPool db)"
    and fill: "interns ss fill B" and body: "\<And>hs. length (B hs) + 16 = sizeOf (graphLayouts ! j)"
    and key: "\<And>db' hs. graphState db' fs rss kss \<Longrightarrow> texts db' hs ss \<Longrightarrow> poolExtends (dbPool db) (dbPool db') \<Longrightarrow> keyAt db' j (nodeRow (B hs)) = Inr k"
    and k: "k \<notin> set (kss ! j)" "length (rss ! j) + 1 < 2 ^ 64"
  shows "\<exists>db' hs. addNode j blank fill db = (Inr (), db') \<and> addNewNode j blank fill db = (Inr (of_nat (length (rss ! j))), db') \<and>
    graphState db' fs (rss[j := rss ! j @ [nodeRow (B hs)\<lparr>rowId := of_nat (length (rss ! j))\<rparr>]]) (kss[j := kss ! j @ [k]]) \<and> texts db' hs ss \<and>
    poolExtends (dbPool db) (dbPool db') \<and> poolRoom (dbPool db) \<le> poolRoom (dbPool db') + (\<Sum>s\<leftarrow>ss. length s + 1)"
proof -
  from alloc_ok [OF g j, of "nodeRow blank"] obtain a db1 where db1: "onTable j (\<lambda>_. newRow (nodeRow blank)) db = (Inr a, db1)" "graphState db1 fs rss kss"
    "Db_Table.allocated (tableOf j db1) a (nodeRow blank)" "dbPool db1 = dbPool db" by blast
  from fill [unfolded interns_def, rule_format, OF db1(2)] ss db1(4) obtain hs db2 where db2: "fill db1 = (Inr (B hs), db2)" "graphState db2 fs rss kss"
    "dbTables db2 = dbTables db1" "texts db2 hs ss" "poolExtends (dbPool db) (dbPool db2)" "poolRoom (dbPool db) \<le> poolRoom (dbPool db2) + (\<Sum>s\<leftarrow>ss. length s + 1)"
    by auto
  have alloc: "Db_Table.allocated (tableOf j db2) a (nodeRow blank)" using db1(3) db2(3) by simp
  note k2 = key [OF db2(2,4,5)]
  from enter_ok(1) [OF db2(2) j alloc body k2 k(2,1)] obtain db3 where db3: "enterNode j a (B hs) db2 = (Inr (), db3)" "dbPool db3 = dbPool db2"
    "graphState db3 fs (rss[j := rss ! j @ [nodeRow (B hs)\<lparr>rowId := of_nat (length (rss ! j))\<rparr>]]) (kss[j := kss ! j @ [k]])" by blast
  have "enterNew j a (B hs) db2 = (Inr (of_nat (length (rss ! j))), db3)" by (rule enterNew_ok [OF db2(2) j alloc body k2 k db3(1)])
  then have "addNode j blank fill db = (Inr (), db3)" "addNewNode j blank fill db = (Inr (of_nat (length (rss ! j))), db3)"
    using db1(1) db2(1) db3(1) by (simp_all add: addNode_def addNewNode_def)
  moreover have "texts db3 hs ss" using db2(4) db3(2) by (simp add: texts_def)
  ultimately show ?thesis using db2(5,6) db3(2,3) by (intro exI [of _ db3] exI [of _ hs]) simp
qed

lemma fileBody_columns:
  "length (fileBody kind h ts sz n emptyDigestCol) + 16 = sizeOf (graphLayouts ! 0)"
  "column8 FileRow ''filename'' (nodeRow (fileBody kind h ts sz n d)) = h"
  "column8 FileRow ''lastWriteTime'' (nodeRow (fileBody kind h ts sz n d)) = ts"
  "column8 FileRow ''fileSize'' (nodeRow (fileBody kind h ts sz n d)) = sz"
  by (simp_all add: column8_body nodeRow_def fileBody_def layout_defs graphLayouts_def sizeOf_def emptyDigestCol_def DIGEST_LENGTH_def drop_append)

lemma classFileBody_length: "length (classFileBody f h ts sz crc emptyDigestCol) + 16 = sizeOf (graphLayouts ! 1)"
  by (simp add: classFileBody_def layout_defs graphLayouts_def sizeOf_def emptyDigestCol_def DIGEST_LENGTH_def)

lemma column8_kept: "16 \<le> offsetOf l c \<Longrightarrow> column8 l c (r\<lparr>rowId := i\<rparr>) = column8 l c r"
  by (simp add: column8_body)

lemma rows_offsets: "16 \<le> offsetOf FileRow ''filename''" "16 \<le> offsetOf FileRow ''lastWriteTime''" "16 \<le> offsetOf FileRow ''fileSize''"
  "16 \<le> offsetOf ClassFileRow ''file''" "16 \<le> offsetOf ClassFileRow ''classname''"
  by (simp_all add: layout_defs)

text \<open>A row of the files table, and a row of the classes table that refers to it.\<close>

definition fileReads :: "string_pool \<Rightarrow> table_row \<Rightarrow> string \<Rightarrow> u8 \<Rightarrow> u8 \<Rightarrow> bool" where
  "fileReads p r name sz timestamp \<longleftrightarrow> textColumn FileRow ''filename'' p r = Inr name \<and> column8 FileRow ''fileSize'' r = sz \<and>
     column8 FileRow ''lastWriteTime'' r = timestamp"

definition classReads :: "string_pool \<Rightarrow> table_row \<Rightarrow> string \<Rightarrow> u8 \<Rightarrow> bool" where
  "classReads p r classname f \<longleftrightarrow> textColumn ClassFileRow ''classname'' p r = Inr classname \<and> column8 ClassFileRow ''file'' r = f"

lemma reads_kept: "fileReads p r name sz ts \<Longrightarrow> poolExtends p q \<Longrightarrow> fileReads q r name sz ts" "classReads p r cn f \<Longrightarrow> poolExtends p q \<Longrightarrow> classReads q r cn f"
  by (auto simp: fileReads_def classReads_def textColumn_def intro: getCString_extends)

lemma file_row_ok:
  assumes g: "graphState db fs rss kss" and name: "NUL \<notin> set name" "length name + 1 \<le> poolRoom (dbPool db)" "name \<notin> set (kss ! 0)" "length (rss ! 0) + 1 < 2 ^ 64"
  shows "\<exists>db' f. addNode 0 blank (andThen (internText block (Inr name)) (\<lambda>h. ret (fileBody ClassfileEntry h ts sz 1 emptyDigestCol))) db = (Inr (), db') \<and>
    graphState db' fs (rss[0 := rss ! 0 @ [f]]) (kss[0 := kss ! 0 @ [name]]) \<and> fileReads (dbPool db') f name sz ts \<and> rowId f = of_nat (length (rss ! 0)) \<and>
    poolExtends (dbPool db) (dbPool db') \<and> poolRoom (dbPool db) \<le> poolRoom (dbPool db') + length name + 1"
proof -
  let ?B = "\<lambda>hs. fileBody ClassfileEntry (hs ! 0) ts sz 1 emptyDigestCol" and ?fill = "andThen (internText block (Inr name)) (\<lambda>h. ret (fileBody ClassfileEntry h ts sz 1 emptyDigestCol))"
  have fill: "interns [name] ?fill ?B" by (auto intro!: interns_text interns_done)
  have reads: "fileReads (dbPool db') (nodeRow (?B hs)\<lparr>rowId := i\<rparr>) name sz ts" if "texts db' hs [name]" for db' hs i
    using that by (auto simp: fileReads_def texts_def list_all2_Cons2 textColumn_def column8_kept rows_offsets fileBody_columns)
  have key: "keyAt db' 0 (nodeRow (?B hs)) = Inr name" if "graphState db' fs rss kss" "texts db' hs [name]" for db' hs
    using that graphState_keyAt [OF that(1), of 0] by (auto simp: callGraphKeys_def filesKey_def texts_def list_all2_Cons2 textColumn_def fileBody_columns)
  from insert_ok [OF g _ _ _ fill fileBody_columns(1) key name(3,4), of blank] name(1,2) obtain db' hs where
    db': "addNode 0 blank ?fill db = (Inr (), db')" "graphState db' fs (rss[0 := rss ! 0 @ [nodeRow (?B hs)\<lparr>rowId := of_nat (length (rss ! 0))\<rparr>]]) (kss[0 := kss ! 0 @ [name]])"
      "texts db' hs [name]" "poolExtends (dbPool db) (dbPool db')" "poolRoom (dbPool db) \<le> poolRoom (dbPool db') + length name + 1" by auto
  then show ?thesis using reads by (intro exI [of _ db'] exI [of _ "nodeRow (?B hs)\<lparr>rowId := of_nat (length (rss ! 0))\<rparr>"]) simp
qed

lemma class_row_ok:
  assumes g: "graphState db fs rss kss" and i: "i < length (rss ! 0)" "fileReads (dbPool db) (rss ! 0 ! i) name sz' ts'"
    and cn: "NUL \<notin> set cn" "length cn + 1 \<le> poolRoom (dbPool db)" "strongClassname name cn \<notin> set (kss ! 1)" "length (rss ! 1) + 1 < 2 ^ 64"
  shows "\<exists>db' c. addNewNode 1 blank (andThen (internText block (Inr cn)) (\<lambda>h. ret (classFileBody (of_nat i) h ts sz 0 emptyDigestCol))) db = (Inr (of_nat (length (rss ! 1))), db') \<and>
    graphState db' fs (rss[1 := rss ! 1 @ [c]]) (kss[1 := kss ! 1 @ [strongClassname name cn]]) \<and> classReads (dbPool db') c cn (of_nat i) \<and>
    ownedBy db' (of_nat (length (rss ! 1))) (strongClassname name cn) \<and>
    poolExtends (dbPool db) (dbPool db') \<and> poolRoom (dbPool db) \<le> poolRoom (dbPool db') + length cn + 1"
proof -
  let ?B = "\<lambda>hs. classFileBody (of_nat i) (hs ! 0) ts sz 0 emptyDigestCol"
  let ?fill = "andThen (internText block (Inr cn)) (\<lambda>h. ret (classFileBody (of_nat i) h ts sz 0 emptyDigestCol))"
  have fill: "interns [cn] ?fill ?B" by (auto intro!: interns_text interns_done)
  have reads: "classReads (dbPool db') (nodeRow (?B hs)\<lparr>rowId := n\<rparr>) cn (of_nat i)" if "texts db' hs [cn]" for db' hs n
    using that by (auto simp: classReads_def texts_def list_all2_Cons2 textColumn_def column8_kept rows_offsets classFileBody_columns)
  have lt: "unat (of_nat i :: u8) = i" using graphState_table(1) [OF g, of 0] i(1) by (simp add: tableRep_def unat_of_nat_less)
  have strong: "getStrongClassname 0 (dbPool db') (dbLookup db') r = Inr (strongClassname name cn)"
    if "graphState db' fs rss' kss'" "rss' ! 0 = rss ! 0" "poolExtends (dbPool db) (dbPool db')" "classReads (dbPool db') r cn (of_nat i)" for db' r rss' kss'
    using that(2,4) graphState_lookup [OF that(1), of 0] lt i(1) reads_kept(1) [OF i(2) that(3)]
    by (simp add: getStrongClassname_def classReads_def fileReads_def lookupRows_def getFilename_def)
  have key: "keyAt db' 1 (nodeRow (?B hs)) = Inr (strongClassname name cn)" if "graphState db' fs rss kss" "texts db' hs [cn]" "poolExtends (dbPool db) (dbPool db')" for db' hs
    using graphState_keyAt [OF that(1), of 1] strong [OF that(1) refl that(3)] reads [OF that(2), of "- 1"] by (simp add: callGraphKeys_def classFilesKey_def nodeRow_def)
  from insert_ok [OF g _ _ _ fill classFileBody_length key cn(3,4), of blank] cn(1,2) obtain db' hs where
    db': "addNewNode 1 blank ?fill db = (Inr (of_nat (length (rss ! 1))), db')"
      "graphState db' fs (rss[1 := rss ! 1 @ [nodeRow (?B hs)\<lparr>rowId := of_nat (length (rss ! 1))\<rparr>]]) (kss[1 := kss ! 1 @ [strongClassname name cn]])"
      "texts db' hs [cn]" "poolExtends (dbPool db) (dbPool db')" "poolRoom (dbPool db) \<le> poolRoom (dbPool db') + length cn + 1" by auto
  let ?c = "nodeRow (?B hs)\<lparr>rowId := of_nat (length (rss ! 1))\<rparr>"
  have len: "length rss = 10" using graphState_length [OF g] by simp
  have "dbLookup db' 1 (of_nat (length (rss ! 1))) = Inr ?c" using graphState_lookup [OF db'(2), of 1] cn(4) len by (simp add: lookupRows_def unat_of_nat_less)
  moreover have "getStrongClassname 0 (dbPool db') (dbLookup db') ?c = Inr (strongClassname name cn)"
    by (rule strong [OF db'(2) _ db'(4) reads [OF db'(3)]]) simp
  ultimately have "ownedBy db' (of_nat (length (rss ! 1))) (strongClassname name cn)" by (simp add: ownedBy_def getStrongClassnameById_def)
  then show ?thesis using db' reads [OF db'(3)] by (intro exI [of _ db'] exI [of _ ?c]) simp
qed

section \<open>A new class file\<close>

lemma lookupRow_new:
  assumes "graphState (taskDb s) fs rss kss" "j < 10" "k \<notin> set (kss ! j)"
  shows "lookupRow j k s = (Inr None, s)"
proof -
  have "map_of (tableRows (tableOf j (taskDb s))) k = None" using map_of_rep_None [OF graphState_table(1) [OF assms(1,2)]] assms(3) by blast
  then show ?thesis by (simp add: lookupRow_def findByKey_def)
qed

lemma lookupRow_found:
  assumes "graphState (taskDb s) fs rss kss" "j < 10" "i < length (rss ! j)" "kss ! j ! i = k"
  shows "\<exists>a. lookupRow j k s = (Inr (Some (a, rss ! j ! i)), s)"
proof -
  let ?t = "tableOf j (taskDb s)"
  note rep = graphState_table(1) [OF assms(1,2)]
  have "map_of (tableRows ?t) k = Some (autoIncrementIndex ?t ! i)" using map_of_rep [OF rep] assms(3,4) by blast
  moreover have "heap ?t (autoIncrementIndex ?t ! i) = Some (Holds (rss ! j ! i))" using rep assms(3) by (simp add: tableRep_def)
  ultimately show ?thesis using derefIn_ok [of s j "autoIncrementIndex ?t ! i"] by (simp add: lookupRow_def findByKey_def)
qed

lemma recordClassFile_ok:
  assumes g: "graphState (taskDb s) fs rss kss" and name: "NUL \<notin> set name" "name \<notin> set (kss ! 0)"
    and cn: "getMainClassname p = Inr cn" "NUL \<notin> set cn" "strongClassname name cn \<notin> set (kss ! 1)"
    and room: "length name + length cn + 2 \<le> poolRoom (dbPool (taskDb s))" "length (rss ! 0) + 1 < 2 ^ 64" "length (rss ! 1) + 1 < 2 ^ 64"
  shows "\<exists>db f c. recordClassFile env name sz ts p s = (Inr (Some (of_nat (length (rss ! 1)), strongClassname name cn, False)), s\<lparr>taskDb := db\<rparr>) \<and>
    graphState db fs (rss[0 := rss ! 0 @ [f], 1 := rss ! 1 @ [c]]) (kss[0 := kss ! 0 @ [name], 1 := kss ! 1 @ [strongClassname name cn]]) \<and>
    fileReads (dbPool db) f name sz ts \<and> classReads (dbPool db) c cn (of_nat (length (rss ! 0))) \<and>
    ownedBy db (of_nat (length (rss ! 1))) (strongClassname name cn) \<and> poolRoom (dbPool (taskDb s)) \<le> poolRoom (dbPool db) + length name + length cn + 2"
proof -
  have lens: "length rss = 10" "length kss = 10" using graphState_length [OF g] by simp_all
  have texts: "cText name = name" "cText cn = cn" using name(1) cn(2) by (auto simp: cText_def takeWhile_eq_all_conv)
  from file_row_ok [OF g name(1) _ name(2) room(2), of "fileBody ClassfileEntry 0 0 0 0 emptyDigestCol" "envBlock env" ts sz] room(1) obtain db1 f where
    db1: "addNode 0 (fileBody ClassfileEntry 0 0 0 0 emptyDigestCol) (andThen (internText (envBlock env) (Inr name)) (\<lambda>h. ret (fileBody ClassfileEntry h ts sz 1 emptyDigestCol))) (taskDb s) = (Inr (), db1)"
      "graphState db1 fs (rss[0 := rss ! 0 @ [f]]) (kss[0 := kss ! 0 @ [name]])" "fileReads (dbPool db1) f name sz ts" "rowId f = of_nat (length (rss ! 0))"
      "poolRoom (dbPool (taskDb s)) \<le> poolRoom (dbPool db1) + length name + 1" by auto
  let ?s = "s\<lparr>taskDb := db1\<rparr>" let ?rss = "rss[0 := rss ! 0 @ [f]]" and ?kss = "kss[0 := kss ! 0 @ [name]]"
  have g1: "graphState (taskDb ?s) fs ?rss ?kss" using db1(2) by simp
  have last: "?rss ! 0 ! length (rss ! 0) = f" "length (rss ! 0) < length (?rss ! 0)" "?kss ! 0 ! length (rss ! 0) = name" "?rss ! 1 = rss ! 1" "?kss ! 1 = kss ! 1"
    using lens graphState_table(1) [OF g, of 0] by (simp_all add: tableRep_def nth_append)
  obtain a where a: "lookupRow 0 name ?s = (Inr (Some (a, f)), ?s)" using lookupRow_found [OF g1 _ last(2,3)] last(1) by auto
  have old: "lookupRow 1 (strongClassname name cn) ?s = (Inr None, ?s)" using lookupRow_new [OF g1, of 1] last(5) cn(3) by simp
  from class_row_ok [OF db1(2) last(2) _ cn(2), unfolded last, OF db1(3) _ cn(3) room(3), of "classFileBody (rowId f) 0 0 0 0 emptyDigestCol" "envBlock env" ts sz] room(1) db1(5)
  obtain db2 c where db2: "addNewNode 1 (classFileBody (rowId f) 0 0 0 0 emptyDigestCol)
      (andThen (internText (envBlock env) (Inr cn)) (\<lambda>h. ret (classFileBody (rowId f) h ts sz 0 emptyDigestCol))) db1 = (Inr (of_nat (length (rss ! 1))), db2)"
    "graphState db2 fs (?rss[1 := rss ! 1 @ [c]]) (?kss[1 := kss ! 1 @ [strongClassname name cn]])" "classReads (dbPool db2) c cn (of_nat (length (rss ! 0)))"
    "ownedBy db2 (of_nat (length (rss ! 1))) (strongClassname name cn)" "poolExtends (dbPool db1) (dbPool db2)"
    "poolRoom (dbPool db1) \<le> poolRoom (dbPool db2) + length cn + 1" by (auto simp: db1(4))
  have "recordClassFile env name sz ts p s = (Inr (Some (of_nat (length (rss ! 1)), strongClassname name cn, False)), s\<lparr>taskDb := db2\<rparr>)"
    using db1(1) db2(1) a old cn(1) texts by (simp add: recordClassFile_def onDb_def replaceClassRow_def Let_def)
  then show ?thesis using db2 reads_kept(1) [OF db1(3) db2(5)] db1(5) by (intro exI [of _ db2] exI [of _ f] exI [of _ c]) simp
qed

lemma parseFile_ok:
  assumes "sizedClassFile cf" "envFiles env name = Some (encClassFile cf)" "length (encClassFile cf) < 2 ^ 32"
  shows "\<exists>p. parseFile env name s = (Inr (True, p), s) \<and> parsedAs cf p"
proof -
  obtain r p where p: "FileReader (envHost env) (envFiles env) name = Inr r" "parse (newParser r name (taskLog s)) = (Inr True, p)" "parsedAs cf p" "log p = taskLog s"
    using file_parse [OF assms(1), of "envFiles env" name "[]" "envHost env" "taskLog s"] assms(2,3) by auto
  then have "parseFile env name s = (Inr (True, p), s)" by (simp add: parseFile_def)
  then show ?thesis using p(3) by blast
qed

lemma nodesOfClass_parsed: "parsedAs cf p \<Longrightarrow> nodesOfClass p = nodesOfClass (parsedClass cf) \<and> getMainClassname p = getMainClassname (parsedClass cf) \<and> constantPool p = poolOf (cfPool cf)"
  by (simp add: nodesOfClass_def getMainClassname_def parsedAs_def parsedClass_def)

lemma all2_right: "list_all2 R xs ys \<Longrightarrow> (\<And>x y. R x y \<Longrightarrow> P y) \<Longrightarrow> \<forall>y\<in>set ys. P y"
  by (induction rule: list_all2_induct) auto

lemma asNewClassFile_ok:
  assumes "strong \<noteq> []"
  shows "\<exists>r'. asNewClassFile opts strong r = Inr r' \<and> newFile (taskResult (standaloneClassfiles r')) = newFile (taskResult (standaloneClassfiles r)) + 1"
  using strongFile_ok [OF assms]
  by (simp add: asNewClassFile_def inDiffFile_def onClassTask_def incNew_def addNewFile_def addFile_def addNewClass_def addClass_def)

lemma newNodes_cong: "newNodes strong ns kss \<Longrightarrow> \<forall>n\<in>set ns. kss' ! fst n = kss ! fst n \<Longrightarrow> newNodes strong ns kss'"
  by (simp add: newNodes_def)

text \<open>(C16)
  From an encoded class file on disk to the call graph.  Neither the file nor its class nor a node of
  it is known to the database, and no two of its nodes (methods, fields, references) have the same kind and name: the statement leaves out
  classes with overloaded methods or with references to constructors of two classes.  There is room
  in the pool and in the tables, and no text holds a zero byte.  Then the analyzer returns with the
  class counted as new, on a database that is well formed again and has gained a row for the file
  with its name, size and time stamp, a row for the class that refers to it, and, owned by that
  class, the rows of its methods, fields and references as the class file lists them.
\<close>

theorem callgraph_records_class_file:
  assumes "graphState (taskDb s) fs rss kss" "envStat env name = Inr (sz, ts)" "NUL \<notin> set name" "name \<noteq> []" "name \<notin> set (kss ! 0)"
    and "sizedClassFile cf" "envFiles env name = Some (encClassFile cf)" "length (encClassFile cf) < 2 ^ 32" "poolShape (poolOf (cfPool cf))"
    and "getMainClassname (parsedClass cf) = Inr cn" "NUL \<notin> set cn" "strongClassname name cn \<notin> set (kss ! 1)"
    and "nodesOfClass (parsedClass cf) = Inr ns" "\<forall>n\<in>set ns. nulFree n" "newNodes (strongClassname name cn) ns kss"
    and "length name + length cn + 2 + (\<Sum>n\<leftarrow>ns. nodeRoom n) \<le> poolRoom (dbPool (taskDb s))" "\<forall>j<10. length (rss ! j) + length ns + 1 < 2 ^ 64"
  shows "\<exists>s' f c rss' kss'. graphDoClassFile env name s = Some (Inr (), s') \<and> graphState (taskDb s') fs rss' kss' \<and>
    fileReads (dbPool (taskDb s')) f name sz ts \<and> classReads (dbPool (taskDb s')) c cn (of_nat (length (rss ! 0))) \<and>
    grown (taskDb s') (of_nat (length (rss ! 1))) ns (rss[0 := rss ! 0 @ [f], 1 := rss ! 1 @ [c]]) rss' \<and>
    newFile (taskResult (standaloneClassfiles (taskResults s'))) = newFile (taskResult (standaloneClassfiles (taskResults s))) + 1"
proof -
  let ?strong = "strongClassname name cn" and ?owner = "of_nat (length (rss ! 1)) :: u8"
  let ?r1 = "incStandaloneParsed (onClassTask (\<lambda>c. c\<lparr>taskCount := taskCount c + 1\<rparr>) (taskResults s))" let ?s1 = "s\<lparr>taskResults := ?r1\<rparr>"
  have lens: "length rss = 10" "length kss = 10" using graphState_length [OF assms(1)] by simp_all
  obtain p where p: "parseFile env name (s\<lparr>taskResults := onClassTask (\<lambda>c. c\<lparr>taskCount := taskCount c + 1\<rparr>) (taskResults s)\<rparr>) =
      (Inr (True, p), s\<lparr>taskResults := onClassTask (\<lambda>c. c\<lparr>taskCount := taskCount c + 1\<rparr>) (taskResults s)\<rparr>)" "parsedAs cf p"
    using parseFile_ok [OF assms(6-8)] by blast
  note same = nodesOfClass_parsed [OF p(2)]
  have rows: "length (rss ! 0) + 1 < 2 ^ 64" "length (rss ! 1) + 1 < 2 ^ 64" using assms(17) [rule_format, of 0] assms(17) [rule_format, of 1] by simp_all
  from recordClassFile_ok [of ?s1 fs rss kss name p cn env sz ts] assms same rows obtain db f c where
    db: "recordClassFile env name sz ts p ?s1 = (Inr (Some (?owner, ?strong, False)), ?s1\<lparr>taskDb := db\<rparr>)"
      "graphState db fs (rss[0 := rss ! 0 @ [f], 1 := rss ! 1 @ [c]]) (kss[0 := kss ! 0 @ [name], 1 := kss ! 1 @ [?strong]])"
      "fileReads (dbPool db) f name sz ts" "classReads (dbPool db) c cn (of_nat (length (rss ! 0)))" "ownedBy db ?owner ?strong"
      "poolRoom (dbPool (taskDb s)) \<le> poolRoom (dbPool db) + length name + length cn + 2" by auto
  let ?rss = "rss[0 := rss ! 0 @ [f], 1 := rss ! 1 @ [c]]" and ?kss = "kss[0 := kss ! 0 @ [name], 1 := kss ! 1 @ [?strong]]"
  have nodes: "nodesOfClass p = Inr ns" using same assms(13) by simp
  have tables: "\<forall>n\<in>set ns. fst n \<noteq> 0 \<and> fst n \<noteq> 1"
    by (rule all2_right [OF nodesOfClass_records [OF nodes assms(14), of ?owner 0]]) (auto simp: recordsNode_def nodeOk_def)
  have new: "newNodes ?strong ns ?kss" by (rule newNodes_cong [OF assms(15)]) (use tables in \<open>metis nth_list_update_neq\<close>)
  have room: "classRoom db ?rss ns" using assms(16,17) db(6) lens by (auto simp: classRoom_def nth_list_update)
  from extractNodes_ok [OF db(2,5) _ nodes assms(14) new room, of "envBlock env"] same assms(9) obtain db' rss' kss' where
    db': "extractNodes (envBlock env) ?owner p db = Some (Inr (), db')" "graphState db' fs rss' kss'" "grown db' ?owner ns ?rss rss'" "poolExtends (dbPool db) (dbPool db')" by auto
  have look: "lookupRow 0 name s = (Inr None, s)" using lookupRow_new [OF assms(1), of 0] assms(5) by simp
  have "?strong \<noteq> []" using assms(4) by (simp add: strongClassname_def)
  then obtain r2 where r2: "asNewClassFile (envOptions env) ?strong ?r1 = Inr r2" "newFile (taskResult (standaloneClassfiles r2)) = newFile (taskResult (standaloneClassfiles ?r1)) + 1"
    using asNewClassFile_ok by blast
  have count: "newFile (taskResult (standaloneClassfiles r2)) = newFile (taskResult (standaloneClassfiles (taskResults s))) + 1"
    using r2(2) by (simp add: incStandaloneParsed_def onStandalone_def onClassTask_def)
  have "graphDoClassFile env name s = Some (Inr (), s\<lparr>taskDb := db', taskResults := r2\<rparr>)"
    using assms(2) look p(1) db(1) db'(1) r2(1) by (simp add: graphDoClassFile_def onResults_ok fileIsUnchanged_def reportR_def)
  then show ?thesis using db'(2,3) reads_kept [OF _ db'(4)] db(3,4) count
    by (intro exI [of _ "s\<lparr>taskDb := db', taskResults := r2\<rparr>"] exI [of _ f] exI [of _ c] exI [of _ rss'] exI [of _ kss']) simp
qed

section \<open>A changed class file\<close>

lemma file_stale:
  assumes store: "jarStore db rs ks cs cks" and pool: "poolOk (dbPool db)" and name: "NUL \<notin> set name" "length name + 1 \<le> poolRoom (dbPool db)" "name \<in> set ks"
  shows "\<exists>a db1 h db2. onTable 0 (\<lambda>_. newRow blank) db = (Inr a, db1) \<and> internText block (Inr name) db1 = (Inr h, db2) \<and>
    (\<forall>k ts sz n d. fst (enterNode 0 a (fileBody k h ts sz n d) db2) = Inl Undefined)"
proof -
  let ?t = "tableOf 0 db" let ?a = "nextAddress ?t" let ?t' = "?t\<lparr>heap := (heap ?t)(?a \<mapsto> Holds blank), nextAddress := ?a + 1\<rparr>"
  define db1 where "db1 = setTable 0 ?t' db"
  have len: "0 < length (dbTables db)" and rep: "tableRep (keyAt db 0) ?t rs ks" and fkey: "keyOf (dbTables db ! 0) = filesKey"
    using store by (auto simp: jarStore_def)
  have tabs: "tableOf 0 db1 = ?t'" "dbPool db1 = dbPool db" "keyOf (dbTables db1 ! 0) = filesKey"
    using tableOf_set(1) [OF len] tableOf_set(3) [of 0 ?t' db 0] fkey by (simp_all add: db1_def setTable_def)
  have new: "onTable 0 (\<lambda>_. newRow blank) db = (Inr ?a, db1)" by (simp add: db1_def onTable_def newRow_ok)
  from getPoolString_ok [of db1 name block] pool name(1,2) tabs(2) obtain h q where
    q: "internText block (Inr name) db1 = (Inr h, db1\<lparr>dbPool := q\<rparr>)" "getCString q (unat h) = Inr name" "poolExtends (dbPool db) q" by auto
  let ?db2 = "db1\<lparr>dbPool := q\<rparr>"
  have keyAt2: "keyAt ?db2 0 = filesKey q (dbLookup ?db2)" using tabs(3) by (simp add: keyAt_def)
  have "tableRep (keyAt ?db2 0) (tableOf 0 ?db2) rs ks"
  proof (rule tableRep_key)
    show "tableRep (keyAt db 0) (tableOf 0 ?db2) rs ks" using tableRep_fresh(1) [OF rep] tabs(1) by simp
    show "keyAt ?db2 0 (rs ! k) = Inr (ks ! k)" if "k < length rs" for k
    proof -
      have "filesKey (dbPool db) (dbLookup db) (rs ! k) = Inr (ks ! k)" using rep fkey that by (simp add: tableRep_def keyAt_def)
      then show ?thesis unfolding keyAt2 using getCString_extends [OF _ q(3)] by (simp add: filesKey_def textColumn_def)
    qed
  qed
  moreover have "keyAt ?db2 0 (nodeRow (fileBody k h ts sz n d)) = Inr name" for k ts sz n d
    using keyAt2 q(2) by (simp add: filesKey_def textColumn_def fileBody_columns)
  moreover have "Db_Table.allocated (tableOf 0 ?db2) ?a blank" using tableRep_fresh(2) [OF rep] tabs(1) by simp
  ultimately have "fst (enterNode 0 ?a (fileBody k h ts sz n d) ?db2) = Inl Undefined" for k ts sz n d
    by (intro enterNode_stale) (use name(3) in simp_all)
  then show ?thesis using new q(1) by blast
qed

lemma onDb_fails: "fst (m (taskDb s)) = Inl e \<Longrightarrow> fst (onDb m s) = Inl e"
  by (auto simp: onDb_def split: prod.split)

lemma rows_stale:
  assumes store: "jarStore (taskDb s) rs ks cs cks" "poolOk (dbPool (taskDb s))" "NUL \<notin> set name" "length name + 1 \<le> poolRoom (dbPool (taskDb s))" "name \<in> set ks"
  shows "fst (updateDbInMemory env name sz ts p d s) = Inl Undefined" "fst (recordClassFile env name sz ts p s) = Inl Undefined"
proof -
  let ?blank = "nodeRow (fileBody ClassfileEntry 0 0 0 0 emptyDigestCol)"
  from file_stale [OF assms, of ?blank "envBlock env"] obtain a db1 h db2 where
    db: "onTable 0 (\<lambda>_. newRow ?blank) (taskDb s) = (Inr a, db1)" "internText (envBlock env) (Inr name) db1 = (Inr h, db2)"
      "fst (enterNode 0 a (fileBody k h ts sz n d) db2) = Inl Undefined" for k ts sz n d by blast
  have "onDb (onTable 0 (\<lambda>_. newRow ?blank)) s = (Inr a, s\<lparr>taskDb := db1\<rparr>)" using db(1) by (simp add: onDb_def)
  moreover have "onDb (internText (envBlock env) (Inr name)) (s\<lparr>taskDb := db1\<rparr>) = (Inr h, s\<lparr>taskDb := db2\<rparr>)" using db(2) by (simp add: onDb_def)
  moreover have "fst (onDb (enterNode 0 a (fileBody ClassfileEntry h ts sz 0 d)) (s\<lparr>taskDb := db2\<rparr>)) = Inl Undefined" by (rule onDb_fails) (simp add: db(3))
  ultimately show "fst (updateDbInMemory env name sz ts p d s) = Inl Undefined" by (simp add: updateDbInMemory_def andThen_fails)
  let ?fill = "andThen (internText (envBlock env) (Inr name)) (\<lambda>h. ret (fileBody ClassfileEntry h ts sz 1 emptyDigestCol))"
  have "fst (addNode 0 (fileBody ClassfileEntry 0 0 0 0 emptyDigestCol) ?fill (taskDb s)) = Inl Undefined" using db by (simp add: addNode_def)
  then have "fst (onDb (addNode 0 (fileBody ClassfileEntry 0 0 0 0 emptyDigestCol) ?fill) s) = Inl Undefined" by (rule onDb_fails)
  then show "fst (recordClassFile env name sz ts p s) = Inl Undefined" unfolding recordClassFile_def by (rule andThen_fails)
qed

lemma asModifiedClassFile_ok: "strong \<noteq> [] \<Longrightarrow> \<exists>r'. asModifiedClassFile opts b strong r = Inr r'"
  using strongFile_ok [of strong] by (simp add: asModifiedClassFile_def inDiffFile_def)

text \<open>A standalone class file that has changed since it was recorded: both analyzers enter a second
  row for the file under the key of the stored one, so that, outside a dry run of the digest
  analyzer, they end in undefined behaviour.
\<close>

lemma changed_file_undefined:
  assumes "jarStore (taskDb s) rs ks cs cks" "poolOk (dbPool (taskDb s))" "i < length rs" "ks ! i = name" "envStat env name = Inr (sz, ts)"
    and "\<not> fileIsUnchanged env sz ts (Some (rs ! i))" "NUL \<notin> set name" "strongClassname (cText name) (cText cn) \<noteq> []" "length name + 1 \<le> poolRoom (dbPool (taskDb s))"
    and "sizedClassFile cf" "envFiles env name = Some (encClassFile cf)" "length (encClassFile cf) < 2 ^ 32"
    and "getMainClassname (parsedClass cf) = Inr cn" "digest (envHash env) (parsedClass cf) = Inr d" "\<not> dryRun (digestOptions (envOptions env))"
  shows "fst (digestDoClassFile env name s) = Inl Undefined \<and> (\<exists>s'. graphDoClassFile env name s = Some (Inl Undefined, s'))"
proof -
  let ?r1 = "onClassTask (\<lambda>c. c\<lparr>taskCount := taskCount c + 1\<rparr>) (taskResults s)"
  obtain a where a: "findByKey (tableOf 0 (taskDb s)) name = Some a" "heap (tableOf 0 (taskDb s)) a = Some (Holds (rs ! i))"
    using jarStore_file [OF assms(1,3,4)] by blast
  have look: "lookupRow 0 name s = (Inr (Some (a, rs ! i)), s)" using a derefIn_ok [of s 0 a] by (simp add: lookupRow_def)
  obtain p where p: "parseFile env name (s\<lparr>taskResults := ?r1\<rparr>) = (Inr (True, p), s\<lparr>taskResults := ?r1\<rparr>)" "parsedAs cf p" using parseFile_ok [OF assms(10-12)] by blast
  have mem: "name \<in> set ks" using assms(1,3,4) nth_mem [of i ks] by (simp add: jarStore_def tableRep_def)
  have stale: "fst (updateDbInMemory env name sz ts p x (s\<lparr>taskLog := l, taskResults := r\<rparr>)) = Inl Undefined"
    "fst (recordClassFile env name sz ts p (s\<lparr>taskResults := r\<rparr>)) = Inl Undefined" for x r l
    using assms(1,2,7,9) mem by (intro rows_stale; simp)+
  let ?strong = "strongClassname (cText name) (cText cn)"
  obtain r2 where r2: "asModifiedClassFile (envOptions env) (d = digestColumn FileRow (rs ! i)) ?strong ?r1 = Inr r2" using asModifiedClassFile_ok [OF assms(8)] by blast
  have dig: "digest (envHash env) p = Inr d" using p(2) assms(14) digest_fields [of p "parsedClass cf"] by (simp add: parsedAs_def parsedClass_def)
  have cn: "getMainClassname p = Inr cn" using nodesOfClass_parsed [OF p(2)] assms(13) by simp
  let ?report = "andThen (if d = digestColumn FileRow (rs ! i) then logLine (''Same public digest of changed file:'' @ name) else ret ()) (\<lambda>_.
    reportR (asModifiedClassFile (envOptions env) (d = digestColumn FileRow (rs ! i)) ?strong))"
  obtain l where "?report (s\<lparr>taskResults := ?r1\<rparr>) = (Inr (), s\<lparr>taskResults := r2, taskLog := l\<rparr>)"
  proof (cases "d = digestColumn FileRow (rs ! i)")
    case True
    then show ?thesis using r2 that [of "taskLog s @ [''Same public digest of changed file:'' @ name]"] by (simp add: logLine_def reportR_def onResults_ok)
  next
    case False
    then show ?thesis using r2 that [of "taskLog s"] by (simp add: reportR_def onResults_ok)
  qed
  then have "fst (digestDoClassFile env name s) = Inl Undefined" using assms(5,6,15) look p(1) dig cn stale(1)
    by (simp add: digestDoClassFile_def onResults_ok Let_def)
  moreover obtain s' where "recordClassFile env name sz ts p (s\<lparr>taskResults := incStandaloneParsed ?r1\<rparr>) = (Inl Undefined, s')"
    using stale(2) [of "incStandaloneParsed ?r1"] by (cases "recordClassFile env name sz ts p (s\<lparr>taskResults := incStandaloneParsed ?r1\<rparr>)") auto
  then have "graphDoClassFile env name s = Some (Inl Undefined, s')" using assms(5,6) look p(1) by (simp add: graphDoClassFile_def onResults_ok)
  ultimately show ?thesis by blast
qed

section \<open>A sample\<close>

definition refClass :: class_file where
  "refClass = \<lparr>cfMinor = 0, cfMajor = 52, cfPool = [Utf8Info [65], ClassInfo 1], cfMain = \<lparr>classAccessFlags = 0x21, thisClass = 2, superClass = 0\<rparr>,
     cfInterfaces = [], cfFields = [], cfMethods = [], cfAttributes = []\<rparr>"

definition sampleAnalyzer :: analyzer_env where
  "sampleAnalyzer = \<lparr>envOptions = defaultOptions\<lparr>isCallGraph := True\<rparr>, envHash = paddedHash, envHost = False, envBlock = 0, envBuffer = \<lambda>_. None,
     envStat = \<lambda>_. Inr (77, 1), envFiles = \<lambda>_. Some (encClassFile refClass), envDir = \<lambda>_. []\<rparr>"

lemma refClass_ok: "sizedClassFile refClass" "length (encClassFile refClass) < 2 ^ 32" "poolShape (poolOf (cfPool refClass))"
  by (simp_all add: sizedClassFile_def refClass_def poolOf_def slots_def encClassFile_def encContents_def encRecord_def poolShape_def)

lemma refClass_nodes: "nodesOfClass (parsedClass refClass) = Inr [(2, [''A''])]" "getMainClassname (parsedClass refClass) = Inr ''A''"
  by code_simp+

lemma refClass_digest: "\<exists>d. digest paddedHash (parsedClass refClass) = Inr d"
  by (simp add: digest_def classBuffer_def parsedClass_def refClass_def newParser_def digestClassInfo_def digestUtf8Entry_def poolOf_def slots_def getEntry_def
      digestAttributes_def digestPublicMethods_def digestPublicFields_def digestInterfaces_def)

definition newAnalysis :: "database \<Rightarrow> analysis" where
  "newAnalysis db = \<lparr>taskDb = db, taskResults = newResults, taskLog = [], ownerIndexes = replicate 5 Map.empty\<rparr>"

theorem callgraph_records_class_file_witness:
  "\<exists>db s' f c rss kss r. graphDoClassFile sampleAnalyzer ''A.class'' (newAnalysis db) = Some (Inr (), s') \<and> graphState (taskDb s') (\<lambda>_. None) rss kss \<and>
     rss ! 0 = [f] \<and> rss ! 1 = [c] \<and> rss ! 2 = [r] \<and> fileReads (dbPool (taskDb s')) f ''A.class'' 77 1 \<and> classReads (dbPool (taskDb s')) c ''A'' 0 \<and>
     readsAs (taskDb s') 0 r (2, [''A''])"
proof -
  obtain db where init: "callGraphDbInit ''d'' 0 = Inr db" using callGraphDbInit_ok by blast
  let ?s = "newAnalysis db" and ?rss = "replicate 10 [] :: table_row list list" and ?kss = "replicate 10 [] :: string list list"
  have g: "graphState (taskDb ?s) (\<lambda>_. None) ?rss ?kss" using graphState_new(1) [OF init] by (simp add: newAnalysis_def)
  have room: "poolRoom (dbPool (taskDb ?s)) = StartPoolSize - 1" using graphState_new(2) [OF init] by (auto simp: newAnalysis_def StringPool_eq poolRoom_def)
  have env: "envStat sampleAnalyzer ''A.class'' = Inr (77, 1)" "envFiles sampleAnalyzer ''A.class'' = Some (encClassFile refClass)" by (simp_all add: sampleAnalyzer_def)
  have "newNodes (strongClassname ''A.class'' ''A'') [(2, [''A''])] ?kss" "\<forall>n\<in>set [(2, [''A''])]. nulFree n" by (simp_all add: newNodes_def nulFree_def)
  moreover have "length ''A.class'' + length ''A'' + 2 + (\<Sum>n\<leftarrow>[(2, [''A''])]. nodeRoom n) \<le> poolRoom (dbPool (taskDb ?s))"
    using room by (simp add: StartPoolSize_def nodeRoom_def)
  ultimately obtain s' f c rss kss where s': "graphDoClassFile sampleAnalyzer ''A.class'' ?s = Some (Inr (), s')" "graphState (taskDb s') (\<lambda>_. None) rss kss"
    "fileReads (dbPool (taskDb s')) f ''A.class'' 77 1" "classReads (dbPool (taskDb s')) c ''A'' (of_nat (length (?rss ! 0)))"
    "grown (taskDb s') (of_nat (length (?rss ! 1))) [(2, [''A''])] (?rss[0 := ?rss ! 0 @ [f], 1 := ?rss ! 1 @ [c]]) rss"
    using callgraph_records_class_file [OF g env(1) _ _ _ refClass_ok(1) env(2) refClass_ok(2,3) refClass_nodes(2) _ _ refClass_nodes(1)] by auto
  note grow = s'(5) [unfolded grown_def, rule_format]
  have rows: "rss ! 0 = [f]" "rss ! 1 = [c]" "\<exists>r. rss ! 2 = [r] \<and> readsAs (taskDb s') 0 r (2, [''A''])"
    using grow [of 0] grow [of 1] grow [of 2] by (auto simp: nodesOf_def list_all2_Cons2)
  then obtain r where r: "rss ! 2 = [r]" "readsAs (taskDb s') 0 r (2, [''A''])" by blast
  have "classReads (dbPool (taskDb s')) c ''A'' 0" using s'(4) by simp
  then show ?thesis using s'(1-3) rows(1,2) r
    by (intro exI [of _ db] exI [of _ s'] exI [of _ f] exI [of _ c] exI [of _ rss] exI [of _ kss] exI [of _ r] conjI)
qed

lemma changed_file_undefined_witness:
  "\<exists>s s'. fst (digestDoClassFile sampleAnalyzer [] s) = Inl Undefined \<and> graphDoClassFile sampleAnalyzer [] s = Some (Inl Undefined, s')"
proof -
  obtain db where db: "jarStore db [sampleFile] [[]] [sampleOwner] [[]]" "poolOk (dbPool db)" "poolRoom (dbPool db) = StartPoolSize - 1" using sample_store by blast
  obtain d where d: "digest (envHash sampleAnalyzer) (parsedClass refClass) = Inr d" using refClass_digest by (auto simp: sampleAnalyzer_def)
  have t: "taskDb (newAnalysis db) = db" by (simp add: newAnalysis_def)
  have env: "envStat sampleAnalyzer [] = Inr (77, 1)" "envFiles sampleAnalyzer [] = Some (encClassFile refClass)" "\<not> dryRun (digestOptions (envOptions sampleAnalyzer))"
    by (simp_all add: sampleAnalyzer_def defaultOptions_def defaultSubCommand_def)
  have "column8 FileRow ''fileSize'' sampleFile = 0" using getU8_zeros by (simp add: column8_body FileRow_offsets nodeRow_def)
  then have "\<not> fileIsUnchanged sampleAnalyzer 77 1 (Some ([sampleFile] ! 0))" by (simp add: fileIsUnchanged_def)
  moreover have "strongClassname (cText []) (cText ''A'') \<noteq> []" by (simp add: strongClassname_def cText_def)
  ultimately have "fst (digestDoClassFile sampleAnalyzer [] (newAnalysis db)) = Inl Undefined \<and> (\<exists>s'. graphDoClassFile sampleAnalyzer [] (newAnalysis db) = Some (Inl Undefined, s'))"
    by (intro changed_file_undefined [where rs = "[sampleFile]" and ks = "[[]]" and cs = "[sampleOwner]" and cks = "[[]]" and i = 0 and sz = 77 and ts = 1 and cn = "''A''" and cf = refClass and d = d])
      (use db t env refClass_ok refClass_nodes(2) d in \<open>simp_all add: StartPoolSize_def\<close>)
  then show ?thesis by blast
qed

end
