(* ===== verification/Printers.thy ===== *)
theory Printers
  imports Attributes Stats Db_Database "HOL-Library.Char_ord" "HOL-Library.List_Lexorder"
begin

text \<open>
  The printers of a parsed class: its constant pool on the console
  (\<^verbatim>\<open>app/classfile/constantpool/printer/ConstantPoolPrinter.cpp\<close>) and as a page of linked entries
  (\<^verbatim>\<open>printer/nav/HtmlGen.cpp\<close>), and its declaration (\<^verbatim>\<open>app/classfile/ParserPrinter.cpp\<close>).  What is sent
  to the console is the text of the result; \<^verbatim>\<open>catch (...)\<close> in \<^verbatim>\<open>print\<close> has nothing to catch, since
  lookups assert and do not throw.
\<close>

section \<open>Names of tags and kinds\<close>

definition poolTagToString :: "(u1 \<times> string \<times> string) list" where
  "poolTagToString =
     [(0, ''empty'', ''Empty''), (1, ''utf8'', ''UTF8 String''), (2, ''unicode'', ''Unicode''), (3, ''int'', ''Int''), (4, ''float'', ''Float''),
      (5, ''long'', ''Long''), (6, ''double'', ''Double''), (7, ''class'', ''Class Ref''), (8, ''string'', ''String''), (9, ''fieldref'', ''Field Ref''),
      (10, ''methodref'', ''Method Ref''), (11, ''iface-methodref'', ''IFACE Method Ref''), (12, ''name-type'', ''Name & Type''),
      (15, ''member-handle'', ''Method Handle''), (16, ''member-type'', ''Method Type''), (17, ''dynamic'', ''Dynamic''),
      (18, ''invk-dynamic'', ''Invoke Dynamic''), (19, ''module'', ''Module''), (20, ''package'', ''Package'')]"

definition tagToString :: "bool \<Rightarrow> u1 \<Rightarrow> string result" where
  "tagToString descriptive tag = (if unat tag < 21
     then (case map_of poolTagToString tag of None \<Rightarrow> Inl Undefined | Some (short, long) \<Rightarrow> Inr (if descriptive then long else short))
     else Inr (''Invalid pool tag:'' @ natToString (unat tag)))"

definition refKinds :: "string list" where
  "refKinds = [[], ''REF_getField'', ''REF_getStatic'', ''REF_putField'', ''REF_putStatic'', ''REF_invokeVirtual'', ''REF_invokeStatic'',
     ''REF_invokeSpecial'', ''REF_newInvokeSpecial'', ''REF_invokeInterface'']"

definition refKindToString :: "u1 \<Rightarrow> string" where
  "refKindToString kind = (if unat kind < length refKinds then refKinds ! unat kind else ''Invalid MethodHandleSubtypes tag:'' @ natToString (unat kind))"

text \<open>The tags whose short names the options list; no name selects every tag.\<close>

definition filterTags :: "string list \<Rightarrow> u1 list" where
  "filterTags names = map fst (filter (\<lambda>(tag, short, long). short \<in> set names) poolTagToString)"

definition applyFilter_tag :: "string list \<Rightarrow> u1 \<Rightarrow> bool" where
  "applyFilter_tag names tag \<longleftrightarrow> filterTags names = [] \<or> tag \<in> set (filterTags names)"

section \<open>Walking the pool\<close>

partial_function (option) walkPool :: "(u2 \<Rightarrow> constant_pool_record \<Rightarrow> 'a list result) \<Rightarrow> constant_pool \<Rightarrow> u2 \<Rightarrow> 'a list result option" where
  "walkPool visit cp index =
     (if index < getPoolSize cp then
        (case bindR (getEntry cp index) (visit index) of
           Inl e \<Rightarrow> Some (Inl e)
         | Inr xs \<Rightarrow> Option.bind (getNextIndex cp index) (\<lambda>i. Option.bind (walkPool visit cp i) (\<lambda>r. Some (bindR r (\<lambda>ys. Inr (xs @ ys))))))
      else Some (Inr []))"

declare walkPool.simps [code]

abbreviation u2Text :: "u2 \<Rightarrow> string" where
  "u2Text i \<equiv> natToString (unat i)"

text \<open>The owner, name and descriptor of a member reference, and the name and descriptor alone.\<close>

definition nameAndType :: "constant_pool \<Rightarrow> u2 \<Rightarrow> (string \<times> string) result" where
  "nameAndType cp nameAndTypeIndex =
     bindR (bindR (getEntry cp nameAndTypeIndex) nameAndTypeInfo) (\<lambda>(n, d).
     bindR (getString cp n False) (\<lambda>name. bindR (getString cp d False) (\<lambda>descriptor. Inr (name, descriptor))))"

definition memberText :: "constant_pool \<Rightarrow> u2 \<Rightarrow> u2 \<Rightarrow> string result" where
  "memberText cp classIndex nameAndTypeIndex =
     bindR (nameAndType cp nameAndTypeIndex) (\<lambda>(name, descriptor). bindR (getClassInfoName cp classIndex) (\<lambda>owner.
     Inr (owner @ '': '' @ name @ '':'' @ descriptor)))"

section \<open>The console\<close>

definition printHeader :: "bool \<Rightarrow> u2 \<Rightarrow> constant_pool_record \<Rightarrow> string result" where
  "printHeader descriptive index entry = bindR (tagToString descriptive (recordTag entry)) (\<lambda>tag. Inr (u2Text index @ [CHR 0x09] @ tag @ [CHR 0x09]))"

definition printRefExtraInfo :: "constant_pool \<Rightarrow> u2 \<Rightarrow> u2 \<Rightarrow> string result" where
  "printRefExtraInfo cp classIndex nameAndTypeIndex =
     bindR (memberText cp classIndex nameAndTypeIndex) (\<lambda>s. Inr (u2Text classIndex @ '':'' @ u2Text nameAndTypeIndex @ '' '' @ s))"

fun printEntry :: "bool \<Rightarrow> constant_pool \<Rightarrow> u2 \<Rightarrow> constant_pool_record \<Rightarrow> string result" where
  "printEntry descriptive cp index (Utf8Info bs) = Inr (getAsUtf8 bs True)"
| "printEntry descriptive cp index (FloatInfo v) = Inr (floatToString v)"
| "printEntry descriptive cp index (IntegerInfo v) = Inr (intToString (sint v))"
| "printEntry descriptive cp index (LongInfo h l) = Inr (intToString (sint (getLongLong h l)))"
| "printEntry descriptive cp index (DoubleInfo h l) = Inr (doubleToString (getDouble h l))"
| "printEntry descriptive cp index (ClassInfo n) = bindR (getClassname cp n) (\<lambda>name. Inr (''idx:'' @ u2Text n @ '' '' @ name))"
| "printEntry descriptive cp index (StringInfo i) = bindR (getString cp i True) (\<lambda>s. Inr (u2Text i @ '' '' @ s))"
| "printEntry descriptive cp index (NameAndTypeInfo n d) =
     bindR (getString cp n False) (\<lambda>name. bindR (getString cp d False) (\<lambda>descriptor.
     Inr (u2Text n @ '':'' @ u2Text d @ '' '' @ name @ '':'' @ descriptor)))"
| "printEntry descriptive cp index (MethodrefInfo c n) = printRefExtraInfo cp c n"
| "printEntry descriptive cp index (MethodHandleInfo kind i) = Inr (''ref-kind:'' @ refKindToString kind @ '', idx:'' @ u2Text i)"
| "printEntry descriptive cp index (InvokeDynamicInfo b n) =
     bindR (nameAndType cp n) (\<lambda>(name, descriptor).
     Inr (''Bootstrap MT idx:'' @ u2Text b @ '',N&T:'' @ u2Text n @ '' '' @ name @ '':'' @ descriptor))"
| "printEntry descriptive cp index (MethodTypeInfo d) = getString cp d False"
| "printEntry descriptive cp index (FieldrefInfo c n) = printRefExtraInfo cp c n"
| "printEntry descriptive cp index (InterfaceMethodrefInfo c n) = printRefExtraInfo cp c n"
| "printEntry descriptive cp index (ModuleInfo n) = getString cp n False"
| "printEntry descriptive cp index (PackageInfo n) = printHeader descriptive index (PackageInfo n)"
| "printEntry descriptive cp index (DynamicInfo b n) = printHeader descriptive index (DynamicInfo b n)"

definition entryLine :: "bool \<Rightarrow> constant_pool \<Rightarrow> u2 \<Rightarrow> constant_pool_record \<Rightarrow> string result" where
  "entryLine descriptive cp index entry = bindR (printHeader descriptive index entry) (\<lambda>h. bindR (printEntry descriptive cp index entry) (\<lambda>t. Inr (h @ t)))"

definition printPool :: "parse_options \<Rightarrow> class_file_parser \<Rightarrow> string list result option" where
  "printPool opts p =
     bindO (Some (getMainClassname p)) (\<lambda>classname.
     bindO (walkPool (\<lambda>index entry. if \<not> applyFilter_tag (cpoolFilter opts) (recordTag entry) then Inr []
         else bindR (entryLine (descriptiveCPoolEntries opts) (constantPool p) index entry) (\<lambda>l. Inr [l])) (constantPool p) 1) (\<lambda>ls.
     Some (Inr ((''Constant Pool for: '' @ classname) # ls))))"

section \<open>The page\<close>

text \<open>A line of the page is a list of pieces, so that the links on it can be told from the text.\<close>

datatype piece = Plain string | EntryLink u2 | ClassLink string

abbreviation squote :: "string \<Rightarrow> string" where
  "squote s \<equiv> [CHR 0x27] @ s @ [CHR 0x27]"

abbreviation dquote :: "string \<Rightarrow> string" where
  "dquote s \<equiv> [CHR 0x22] @ s @ [CHR 0x22]"

definition generateEntryLink :: "u2 \<Rightarrow> string" where
  "generateEntryLink index = ''<a class='' @ squote ''entry-link'' @ '' href='' @ squote (''#entry-'' @ u2Text index) @
     '' onclick='' @ squote (''selectEntryById('' @ dquote (''entry-'' @ u2Text index) @ '');'') @ ''>'' @ u2Text index @ ''</a>''"

definition generateClassLink :: "string \<Rightarrow> string" where
  "generateClassLink classname = ''<span class='' @ squote ''link'' @ '' onclick='' @ squote (''navigateTo('' @ dquote classname @ '')'') @ ''>'' @ classname @ ''</span>''"

primrec pieceText :: "piece \<Rightarrow> string" where
  "pieceText (Plain s) = s"
| "pieceText (EntryLink i) = generateEntryLink i"
| "pieceText (ClassLink c) = generateClassLink c"

definition htmlHeader :: "bool \<Rightarrow> u2 \<Rightarrow> constant_pool_record \<Rightarrow> piece list result" where
  "htmlHeader descriptive index entry = bindR (tagToString descriptive (recordTag entry)) (\<lambda>tag.
     Inr [Plain (''<span class='' @ squote ''index'' @ ''>'' @ u2Text index @ ''</span><span class='' @ squote ''type'' @ ''>'' @ tag @ ''</span>'')])"

definition htmlRefExtraInfo :: "constant_pool \<Rightarrow> u2 \<Rightarrow> u2 \<Rightarrow> piece list result" where
  "htmlRefExtraInfo cp classIndex nameAndTypeIndex =
     bindR (memberText cp classIndex nameAndTypeIndex) (\<lambda>s. Inr [EntryLink classIndex, Plain '':'', EntryLink nameAndTypeIndex, Plain ('' '' @ s)])"

fun htmlEntry :: "bool \<Rightarrow> constant_pool \<Rightarrow> u2 \<Rightarrow> constant_pool_record \<Rightarrow> piece list result" where
  "htmlEntry descriptive cp index (Utf8Info bs) = Inr [Plain (getAsUtf8 bs True)]"
| "htmlEntry descriptive cp index (FloatInfo v) = Inr [Plain (floatToString v)]"
| "htmlEntry descriptive cp index (IntegerInfo v) = Inr [Plain (intToString (sint v))]"
| "htmlEntry descriptive cp index (LongInfo h l) = Inr [Plain (intToString (sint (getLongLong h l)))]"
| "htmlEntry descriptive cp index (DoubleInfo h l) = Inr [Plain (doubleToString (getDouble h l))]"
| "htmlEntry descriptive cp index (ClassInfo n) = bindR (getClassname cp n) (\<lambda>classname. Inr [EntryLink n, Plain '' '', ClassLink classname])"
| "htmlEntry descriptive cp index (StringInfo i) = bindR (getString cp i True) (\<lambda>s. Inr [EntryLink i, Plain ('' '' @ s)])"
| "htmlEntry descriptive cp index (NameAndTypeInfo n d) =
     bindR (getString cp n False) (\<lambda>name. bindR (getString cp d False) (\<lambda>descriptor.
     Inr [EntryLink n, Plain '':'', EntryLink d, Plain ('' '' @ name @ '':'' @ descriptor)]))"
| "htmlEntry descriptive cp index (MethodrefInfo c n) = htmlRefExtraInfo cp c n"
| "htmlEntry descriptive cp index (MethodHandleInfo kind i) = Inr [Plain (''ref-kind:'' @ refKindToString kind @ '', ''), EntryLink i]"
| "htmlEntry descriptive cp index (InvokeDynamicInfo b n) =
     bindR (nameAndType cp n) (\<lambda>(name, descriptor).
     Inr [Plain ''Bootstrap MT '', EntryLink b, Plain '', N&T:'', EntryLink n, Plain ('' '' @ name @ '':'' @ descriptor)])"
| "htmlEntry descriptive cp index (MethodTypeInfo d) = bindR (getString cp d False) (\<lambda>s. Inr [Plain s])"
| "htmlEntry descriptive cp index (FieldrefInfo c n) = htmlRefExtraInfo cp c n"
| "htmlEntry descriptive cp index (InterfaceMethodrefInfo c n) = htmlRefExtraInfo cp c n"
| "htmlEntry descriptive cp index (ModuleInfo n) = bindR (getString cp n False) (\<lambda>s. Inr [Plain s])"
| "htmlEntry descriptive cp index (PackageInfo n) = htmlHeader descriptive index (PackageInfo n)"
| "htmlEntry descriptive cp index (DynamicInfo b n) = htmlHeader descriptive index (DynamicInfo b n)"

definition htmlLine :: "bool \<Rightarrow> constant_pool \<Rightarrow> u2 \<Rightarrow> constant_pool_record \<Rightarrow> piece list result" where
  "htmlLine descriptive cp index entry = bindR (htmlHeader descriptive index entry) (\<lambda>h. bindR (htmlEntry descriptive cp index entry) (\<lambda>t. Inr (h @ t)))"

text \<open>The lines of the page, each with the index that is the number of its element.\<close>

definition generateCPoolEntries :: "bool \<Rightarrow> constant_pool \<Rightarrow> (u2 \<times> piece list) list result option" where
  "generateCPoolEntries descriptive cp = walkPool (\<lambda>index entry. bindR (htmlLine descriptive cp index entry) (\<lambda>l. Inr [(index, l)])) cp 1"

definition entryDiv :: "u2 \<times> piece list \<Rightarrow> string" where
  "entryDiv l = ''<div id='' @ squote (''entry-'' @ u2Text (fst l)) @ '' class='' @ squote ''entry-line'' @ ''>'' @ concat (map pieceText (snd l)) @ ''</div>''"

text \<open>\<^verbatim>\<open>printClassInfo\<close> enters in the sorted set the names it links to.\<close>

primrec linkedClass :: "piece \<Rightarrow> string list" where
  "linkedClass (Plain s) = []"
| "linkedClass (EntryLink i) = []"
| "linkedClass (ClassLink c) = [c]"

definition classRefSet :: "(u2 \<times> piece list) list \<Rightarrow> string list" where
  "classRefSet ls = sort (remdups (concat (map (concat \<circ> map linkedClass \<circ> snd) ls)))"

definition generateClassRefs :: "string \<Rightarrow> (u2 \<times> piece list) list \<Rightarrow> string list" where
  "generateClassRefs mainClassname ls =
     map (\<lambda>classname. ''<div>'' @ generateClassLink classname @ ''</div>'') (filter (\<lambda>classname. classname \<noteq> mainClassname) (classRefSet ls))"

definition generateSuperclassInfo :: "class_file_parser \<Rightarrow> string result" where
  "generateSuperclassInfo p = (let index = superClass (mainClassInfo p) in
     if index > 0 then bindR (getClassInfoName (constantPool p) index) (\<lambda>s. Inr (''Superclass: '' @ generateClassLink s)) else Inr [])"

text \<open>The values handed to the templates, and the files written.  The template engine is a parameter, and so
  are the names of the directories found below a directory once the page is written.\<close>

datatype json = JText string | JTexts "string list"

record html_env =
  renderClass :: "(string \<times> json) list \<Rightarrow> string"
  renderImplementations :: "(string \<times> json) list \<Rightarrow> string"
  subdirectories :: "string \<Rightarrow> string list"

text \<open>\<^verbatim>\<open>operator/\<close> on paths: an absolute right operand replaces the left one.\<close>

definition pathAppend :: "string \<Rightarrow> string \<Rightarrow> string" where
  "pathAppend dir name = (if name \<noteq> [] \<and> hd name = CHR ''/'' then name else pathJoin dir name)"

definition getClassRootDir :: "options \<Rightarrow> string \<Rightarrow> string" where
  "getClassRootDir opts mainClassname = pathAppend (pathAppend (outputDir opts) ''nav'') mainClassname"

definition getClassHtmlIndexFilename :: "options \<Rightarrow> string \<Rightarrow> string" where
  "getClassHtmlIndexFilename opts mainClassname = pathAppend (getClassRootDir opts mainClassname) ''index.html''"

definition getClassHtmlFilename :: "options \<Rightarrow> string \<Rightarrow> string \<Rightarrow> string" where
  "getClassHtmlFilename opts mainClassname implementation = pathAppend (pathAppend (getClassRootDir opts mainClassname) implementation) ''cpool.html''"

definition classData :: "string \<Rightarrow> string \<Rightarrow> string \<Rightarrow> (u2 \<times> piece list) list \<Rightarrow> (string \<times> json) list" where
  "classData mainClassname super implementation ls =
     [(''classname'', JText mainClassname), (''superClass'', JText super), (''implementation'', JText implementation),
      (''cpoolEntries'', JText (join (map entryDiv ls) [CHR 0x0A])), (''classRefs'', JText (join (generateClassRefs mainClassname ls) [CHR 0x0A]))]"

definition htmlGen :: "html_env \<Rightarrow> options \<Rightarrow> class_file_parser \<Rightarrow> (string \<times> string) list result option" where
  "htmlGen env opts p =
     bindO (Some (getMainClassname p)) (\<lambda>mainClassname. let implementation = pathFilename (filename p) in
     bindO (generateCPoolEntries (descriptiveCPoolEntries (parseOptions opts)) (constantPool p)) (\<lambda>ls.
     bindO (Some (generateSuperclassInfo p)) (\<lambda>super.
     Some (Inr [(getClassHtmlFilename opts mainClassname implementation, renderClass env (classData mainClassname super implementation ls)),
                (getClassHtmlIndexFilename opts mainClassname, renderImplementations env
                  [(''classname'', JText mainClassname), (''implementations'', JTexts (subdirectories env (getClassRootDir opts mainClassname)))])]))))"

section \<open>The declaration\<close>

abbreviation newline :: string where
  "newline \<equiv> [CHR 0x0A]"

definition attributesToString :: "bool \<Rightarrow> class_file_parser \<Rightarrow> attribute_info list \<Rightarrow> string result option" where
  "attributesToString host p as =
     bindO (mapO (attributeToString host (attributesBigEndian p) (constantPool p)) as) (\<lambda>parts. let result = join parts (newline @ newline) in
     Some (Inr (if result = [] then [] else ''/*'' @ newline @ result @ newline @ ''*/'' @ newline)))"

definition outputMethod :: "bool \<Rightarrow> class_file_parser \<Rightarrow> member_info \<Rightarrow> string result option" where
  "outputMethod host p m =
     bindO (Some (getString (constantPool p) (nameIndex m) False)) (\<lambda>name.
     bindO (Some (getString (constantPool p) (descriptorIndex m) False)) (\<lambda>desc.
     bindO (MethodDescriptorParser desc) (\<lambda>d.
     bindO (attributesToString host p (memberAttributes m)) (\<lambda>as.
     Some (Inr (join [as, accessToString (accessFlags m), descriptorToString (returnType d), name @ argumentsToString d] '' '' @ '';'' @ newline))))))"

definition outputMethods :: "bool \<Rightarrow> class_file_parser \<Rightarrow> string result option" where
  "outputMethods host p =
     bindO (mapO (\<lambda>m. bindO (outputMethod host p m) (\<lambda>s. Some (Inr (s @ newline)))) (methods p)) (\<lambda>ls.
     Some (Inr (newline @ ''//Methods: '' @ natToString (length (methods p)) @ newline @ ''//-----------------------------------'' @ newline @ concat ls @ newline)))"

definition outputField :: "bool \<Rightarrow> class_file_parser \<Rightarrow> member_info \<Rightarrow> string result option" where
  "outputField host p f =
     bindO (Some (getString (constantPool p) (nameIndex f) False)) (\<lambda>name.
     bindO (Some (getString (constantPool p) (descriptorIndex f) False)) (\<lambda>desc.
     bindO (DescriptorParser desc) (\<lambda>d.
     bindO (attributesToString host p (memberAttributes f)) (\<lambda>as.
     Some (Inr (join [as, accessToString (accessFlags f), descriptorToString d, name] '' '' @ '';''))))))"

definition outputFields :: "bool \<Rightarrow> class_file_parser \<Rightarrow> string result option" where
  "outputFields host p =
     bindO (mapO (\<lambda>f. bindO (outputField host p f) (\<lambda>s. Some (Inr (s @ newline @ newline)))) (classFields p)) (\<lambda>ls.
     Some (Inr (newline @ ''//Fields: '' @ natToString (length (classFields p)) @ newline @ ''//------------------------------------'' @ newline @ concat ls @ newline)))"

definition outputClass :: "bool \<Rightarrow> class_file_parser \<Rightarrow> string result option" where
  "outputClass host p = (let info = mainClassInfo p in
     bindO (attributesToString host p (attributes p)) (\<lambda>as.
     bindO (Some (getClassInfoName (constantPool p) (thisClass info))) (\<lambda>classname.
     bindO (Some (if superClass info \<noteq> 0 then bindR (getClassInfoName (constantPool p) (superClass info)) (\<lambda>s. Inr ('' extends '' @ s)) else Inr [])) (\<lambda>extends.
     Some (Inr (newline @ ''//Class '' @ newline @ ''//------------------------------------'' @ newline @ as @ accessToString (classAccessFlags info) @
       '' '' @ (if isInterface (classAccessFlags info) then ''interface'' else ''class'') @ '' '' @ classname @ extends @ newline))))))"

definition parserPrinter :: "bool \<Rightarrow> class_file_parser \<Rightarrow> string result option" where
  "parserPrinter host p =
     bindO (outputClass host p) (\<lambda>c. bindO (outputMethods host p) (\<lambda>ms. bindO (outputFields host p) (\<lambda>fs. Some (Inr (c @ ms @ fs)))))"

section \<open>Choice of a printer\<close>

text \<open>What \<^verbatim>\<open>Analyzer::classFileParserDone\<close> prints for a parsed class: the console text and the files.\<close>

definition classFileParserDone :: "bool \<Rightarrow> html_env \<Rightarrow> options \<Rightarrow> class_file_parser \<Rightarrow> (string \<times> (string \<times> string) list) result option" where
  "classFileParserDone host env opts p = (let po = parseOptions opts in
     if \<not> parseSucceed p then Some (Inr ([], []))
     else bindO (if printConstantPool po then bindO (printPool po p) (\<lambda>ls. Some (Inr (concat (map (\<lambda>l. l @ newline) ls), [])))
         else if printCPoolHtmlNav po then bindO (htmlGen env opts p) (\<lambda>fs. Some (Inr ([], fs))) else Some (Inr ([], []))) (\<lambda>(out, fs).
       if print po then bindO (parserPrinter host p) (\<lambda>s. Some (Inr (out @ s, fs))) else Some (Inr (out, fs))))"

section \<open>The walk visits every record\<close>

definition entriesFrom :: "constant_pool \<Rightarrow> nat \<Rightarrow> (u2 \<times> constant_pool_record) list" where
  "entriesFrom cp k = concat (map (\<lambda>i. case cp ! i of None \<Rightarrow> [] | Some r \<Rightarrow> [(of_nat i, r)]) [k..<length cp])"

text \<open>The records of a pool with their indexes, in order: what the printers have to show.\<close>

definition poolEntries :: "constant_pool \<Rightarrow> (u2 \<times> constant_pool_record) list" where
  "poolEntries cp = entriesFrom cp 1"

lemma unat_index: "k < 65536 \<Longrightarrow> unat (of_nat k :: u2) = k"
  by (simp add: unat_of_nat take_bit_eq_mod)

lemma entriesFrom_skip:
  assumes "i \<le> j" "j \<le> length cp" "\<forall>k. i \<le> k \<and> k < j \<longrightarrow> cp ! k = None"
  shows "entriesFrom cp i = entriesFrom cp j"
proof -
  have "[i..<length cp] = [i..<j] @ [j..<length cp]" using upt_add_eq_append [OF assms(1), of "length cp - j"] assms(2) by simp
  moreover have "concat (map (\<lambda>k. case cp ! k of None \<Rightarrow> [] | Some r \<Rightarrow> [(of_nat k, r)]) [i..<j]) = []" using assms(3) by auto
  ultimately show ?thesis by (simp add: entriesFrom_def)
qed

lemma entriesFrom_step:
  assumes "unat i < j" "j \<le> length cp" "\<forall>k. unat i < k \<and> k < j \<longrightarrow> cp ! k = None" "cp ! unat i = Some r"
  shows "entriesFrom cp (unat i) = (i, r) # entriesFrom cp j"
proof -
  have "entriesFrom cp (unat i) = (i, r) # entriesFrom cp (Suc (unat i))"
    using assms(1,2,4) by (simp add: entriesFrom_def upt_conv_Cons)
  then show ?thesis using entriesFrom_skip [of "Suc (unat i)" j cp] assms by simp
qed

lemma walkPool_entries:
  assumes "length cp \<le> 65535" "unat i \<le> length cp" "unat i < length cp \<longrightarrow> cp ! unat i \<noteq> None"
  shows "walkPool visit cp i = Some (bindR (mapR (\<lambda>(k, r). visit k r) (entriesFrom cp (unat i))) (\<lambda>xs. Inr (concat xs)))"
  using assms(2,3)
proof (induction "length cp - unat i" arbitrary: i rule: less_induct)
  case less
  have sz: "i < getPoolSize cp \<longleftrightarrow> unat i < length cp"
    using assms(1) unat_index [of "length cp"] by (simp add: getPoolSize_def word_less_nat_alt)
  show ?case
  proof (cases "unat i < length cp")
    case False
    then show ?thesis using sz by (subst walkPool.simps) (simp add: entriesFrom_def)
  next
    case True
    then obtain r where r: "cp ! unat i = Some r" using less.prems by blast
    obtain j where j: "getNextIndex cp i = Some j" "unat i < unat j" "unat j \<le> length cp"
        "\<forall>k. unat i < k \<and> k < unat j \<longrightarrow> cp ! k = None" "unat j < length cp \<longrightarrow> cp ! unat j \<noteq> None"
      using getNextIndex_correct [OF assms(1) True] by blast
    have e: "getEntry cp i = Inr r" using True r by (simp add: getEntry_Inr_iff)
    have IH: "walkPool visit cp j = Some (bindR (mapR (\<lambda>(k, r). visit k r) (entriesFrom cp (unat j))) (\<lambda>xs. Inr (concat xs)))"
      using less.hyps [of j] j True by simp
    show ?thesis
      using True sz e j(1) IH entriesFrom_step [OF j(2-4) r]
      by (subst walkPool.simps) (cases "visit i r"; cases "mapR (\<lambda>(k, r). visit k r) (entriesFrom cp (unat j))"; simp)
  qed
qed

lemma poolEntries_iff:
  assumes "length cp \<le> 65535" "hd cp = None" "cp \<noteq> []"
  shows "(i, r) \<in> set (poolEntries cp) \<longleftrightarrow> getEntry cp i = Inr r"
proof -
  have "unat i \<noteq> 0" if "cp ! unat i = Some r" using that assms(2,3) by (metis hd_conv_nth option.distinct(1))
  moreover have "unat (of_nat k :: u2) = k" if "k < length cp" for k using that assms(1) unat_index by simp
  ultimately show ?thesis
    by (auto simp: poolEntries_def entriesFrom_def getEntry_Inr_iff split: option.splits intro!: bexI [of _ "unat i"])
qed

lemma poolEntries_sorted:
  assumes "length cp \<le> 65535"
  shows "sorted_wrt (<) (map (unat \<circ> fst) (poolEntries cp))"
proof -
  have "map (unat \<circ> fst) (entriesFrom cp k) = filter (\<lambda>i. cp ! i \<noteq> None) [k..<length cp]" for k
  proof -
    have "map (unat \<circ> fst) (concat (map (\<lambda>i. case cp ! i of None \<Rightarrow> [] | Some r \<Rightarrow> [(of_nat i :: u2, r)]) xs)) = filter (\<lambda>i. cp ! i \<noteq> None) xs"
      if "set xs \<subseteq> {..<length cp}" for xs
      using that by (induction xs) (use assms unat_index in \<open>auto split: option.splits\<close>)
    from this [of "[k..<length cp]"] show ?thesis unfolding entriesFrom_def by (simp add: atLeastLessThan_def)
  qed
  then show ?thesis by (simp add: poolEntries_def sorted_wrt_filter)
qed

text \<open>A walk that shows the records which satisfy \<open>q\<close>, one item each.\<close>

lemma walkPool_listing:
  assumes "length cp \<le> 65535" "cp \<noteq> []" "1 < length cp \<longrightarrow> cp ! 1 \<noteq> None"
  shows "walkPool (\<lambda>i r. if \<not> q r then Inr [] else bindR (f i r) (\<lambda>l. Inr [l])) cp 1 = Some (mapR (\<lambda>(i, r). f i r) (filter (\<lambda>(i, r). q r) (poolEntries cp)))"
proof -
  have "bindR (mapR (\<lambda>(i, r). if \<not> q r then Inr [] else bindR (f i r) (\<lambda>l. Inr [l])) es) (\<lambda>xs. Inr (concat xs)) = mapR (\<lambda>(i, r). f i r) (filter (\<lambda>(i, r). q r) es)" for es
  proof (induction es)
    case Nil show ?case by simp
  next
    case (Cons x xs)
    obtain i r where x: "x = (i, r)" by (cases x)
    show ?case using Cons.IH [symmetric]
      by (cases "f i r"; cases "mapR (\<lambda>(i, r). if \<not> q r then Inr [] else bindR (f i r) (\<lambda>l. Inr [l])) xs") (auto simp: x)
  qed
  note items = this
  have one: "unat (1 :: u2) = 1" "1 \<le> length cp" using assms(2) by (cases cp; simp)+
  show ?thesis unfolding walkPool_entries [OF assms(1), of 1, unfolded one, OF one(2) assms(3)] items poolEntries_def ..
qed

lemma mapR_all_ok: "(\<And>x. x \<in> set xs \<Longrightarrow> isOk (f x)) \<Longrightarrow> \<exists>ys. mapR f xs = Inr ys \<and> list_all2 (\<lambda>x y. f x = Inr y) xs ys"
proof (induction xs)
  case Nil show ?case by simp
next
  case (Cons x xs)
  then obtain ys where "mapR f xs = Inr ys" "list_all2 (\<lambda>x y. f x = Inr y) xs ys" by auto
  moreover obtain y where "f x = Inr y" using Cons.prems [of x] by (auto simp: isOk_iff)
  ultimately show ?case by auto
qed

section \<open>Every record of a well-formed pool has a text\<close>

lemma tagToString_ok: "isOk (tagToString descriptive (recordTag r))"
  by (cases r) (simp_all add: tagToString_def poolTagToString_def)

lemma nameAndType_ok: "wfPool cp \<Longrightarrow> entryIs isNameAndType cp n \<Longrightarrow> isOk (nameAndType cp n)"
  using wfPool_entry [of cp n] by (fastforce simp: entry_iffs nameAndType_def getString_def)

lemma memberText_ok: "wfPool cp \<Longrightarrow> entryIs isClassInfo cp c \<Longrightarrow> entryIs isNameAndType cp n \<Longrightarrow> isOk (memberText cp c n)"
  using nameAndType_ok [of cp n] getClassInfoName_class [of cp c]
  by (cases "nameAndType cp n"; cases "getClassInfoName cp c") (auto simp: memberText_def)

lemma isOk_bindR: "isOk r \<Longrightarrow> (\<And>x. r = Inr x \<Longrightarrow> isOk (f x)) \<Longrightarrow> isOk (bindR r f)"
  by (cases r) auto

lemmas entry_ok = isOk_bindR tagToString_ok nameAndType_ok memberText_ok getString_utf8 getClassname_utf8

lemma entryLine_ok:
  assumes "wfPool cp" "getEntry cp i = Inr r"
  shows "isOk (entryLine descriptive cp i r)" "isOk (htmlLine descriptive cp i r)"
proof -
  have "isOk (printHeader descriptive i r)" "isOk (htmlHeader descriptive i r)" for r
    unfolding printHeader_def htmlHeader_def by (auto intro!: entry_ok)
  moreover have "isOk (printEntry descriptive cp i r)" "isOk (htmlEntry descriptive cp i r)"
    using wfPool_entry [OF assms] assms(1) calculation
    by (cases r; auto simp: printRefExtraInfo_def htmlRefExtraInfo_def intro!: entry_ok)+
  ultimately show "isOk (entryLine descriptive cp i r)" "isOk (htmlLine descriptive cp i r)"
    unfolding entryLine_def htmlLine_def by (auto intro!: isOk_bindR)
qed

lemma pool_walk_ok:
  assumes "wfPool cp" "1 < length cp \<longrightarrow> cp ! 1 \<noteq> None" "\<And>i r. getEntry cp i = Inr r \<Longrightarrow> isOk (f i r)"
  shows "\<exists>ls. walkPool (\<lambda>i r. if \<not> q r then Inr [] else bindR (f i r) (\<lambda>l. Inr [l])) cp 1 = Some (Inr ls) \<and>
    list_all2 (\<lambda>(i, r) l. f i r = Inr l) (filter (\<lambda>(i, r). q r) (poolEntries cp)) ls"
proof -
  have cp: "length cp \<le> 65535" "hd cp = None" "cp \<noteq> []" using assms(1) by (auto simp: wfPool_def)
  let ?es = "filter (\<lambda>(i, r). q r) (poolEntries cp)"
  have "isOk (case x of (i, r) \<Rightarrow> f i r)" if "x \<in> set ?es" for x
    using that poolEntries_iff [OF cp] assms(3) by auto
  then obtain ys where "mapR (\<lambda>(i, r). f i r) ?es = Inr ys" "list_all2 (\<lambda>x y. (case x of (i, r) \<Rightarrow> f i r) = Inr y) ?es ys"
    using mapR_all_ok [of ?es "\<lambda>(i, r). f i r"] by blast
  then show ?thesis unfolding walkPool_listing [OF cp(1,3) assms(2)] by (auto elim!: list_all2_mono)
qed

lemma printPool_lines:
  assumes "wfPool (constantPool p)" "1 < length (constantPool p) \<longrightarrow> constantPool p ! 1 \<noteq> None" "getMainClassname p = Inr classname"
  shows "\<exists>ls. printPool opts p = Some (Inr ((''Constant Pool for: '' @ classname) # ls)) \<and>
    list_all2 (\<lambda>(i, r) l. entryLine (descriptiveCPoolEntries opts) (constantPool p) i r = Inr l)
      (filter (\<lambda>(i, r). applyFilter_tag (cpoolFilter opts) (recordTag r)) (poolEntries (constantPool p))) ls"
  using pool_walk_ok [OF assms(1,2), of "entryLine (descriptiveCPoolEntries opts) (constantPool p)" "\<lambda>r. applyFilter_tag (cpoolFilter opts) (recordTag r)"]
    entryLine_ok(1) [OF assms(1)] assms(3)
  by (auto simp: printPool_def)

text \<open>(C23) Printing the constant pool of a class whose pool is well formed always ends without a fault: the title,
  then one line for each record whose tag the filter selects, in index order, with the unused slots after long
  and double constants passed over.\<close>

theorem pool_listing_complete:
  assumes "wfPool (constantPool p)" "1 < length (constantPool p) \<longrightarrow> constantPool p ! 1 \<noteq> None" "getMainClassname p = Inr classname"
  shows "\<exists>ls. printPool opts p = Some (Inr ((''Constant Pool for: '' @ classname) # ls)) \<and>
    list_all2 (\<lambda>(i, r) l. entryLine (descriptiveCPoolEntries opts) (constantPool p) i r = Inr l)
      (filter (\<lambda>(i, r). applyFilter_tag (cpoolFilter opts) (recordTag r)) (poolEntries (constantPool p))) ls \<and>
    sorted_wrt (<) (map (unat \<circ> fst) (poolEntries (constantPool p))) \<and>
    (\<forall>i r. (i, r) \<in> set (poolEntries (constantPool p)) \<longleftrightarrow> getEntry (constantPool p) i = Inr r)"
proof -
  have "length (constantPool p) \<le> 65535" "hd (constantPool p) = None" "constantPool p \<noteq> []" using assms(1) by (auto simp: wfPool_def)
  then show ?thesis using printPool_lines [OF assms, of opts] poolEntries_sorted poolEntries_iff by blast
qed

definition printedClass :: class_file_parser where
  "printedClass = (newParser (initialReader True (Memory [] 0) 0) ''dir/A.class'' [])
     \<lparr>constantPool := [None, Some (ClassInfo 2), Some (Utf8Info [65]), Some (LongInfo 0 7), None, Some (ClassInfo 6), Some (Utf8Info [66]),
        Some (Utf8Info [40, 73, 41, 86]), Some (Utf8Info [91, 73]), Some (Utf8Info [102]), Some (InvokeDynamicInfo 0 11), Some (NameAndTypeInfo 9 7)],
      mainClassInfo := \<lparr>classAccessFlags = 1, thisClass = 1, superClass = 5\<rparr>,
      methods := [\<lparr>accessFlags = 1, nameIndex = 9, descriptorIndex = 7, memberAttributes = []\<rparr>],
      classFields := [\<lparr>accessFlags = 2, nameIndex = 9, descriptorIndex = 8, memberAttributes = []\<rparr>]\<rparr>"

lemma printedClass_simps [simp]:
  "constantPool printedClass = [None, Some (ClassInfo 2), Some (Utf8Info [65]), Some (LongInfo 0 7), None, Some (ClassInfo 6), Some (Utf8Info [66]),
     Some (Utf8Info [40, 73, 41, 86]), Some (Utf8Info [91, 73]), Some (Utf8Info [102]), Some (InvokeDynamicInfo 0 11), Some (NameAndTypeInfo 9 7)]"
  "mainClassInfo printedClass = \<lparr>classAccessFlags = 1, thisClass = 1, superClass = 5\<rparr>"
  "methods printedClass = [\<lparr>accessFlags = 1, nameIndex = 9, descriptorIndex = 7, memberAttributes = []\<rparr>]"
  "classFields printedClass = [\<lparr>accessFlags = 2, nameIndex = 9, descriptorIndex = 8, memberAttributes = []\<rparr>]"
  "attributes printedClass = []" "filename printedClass = ''dir/A.class''"
  by (simp_all add: printedClass_def newParser_def)

lemma printedClass_ok:
  "wfPool (constantPool printedClass)" "1 < length (constantPool printedClass) \<longrightarrow> constantPool printedClass ! 1 \<noteq> None"
  "getMainClassname printedClass = Inr ''A''" "getClassInfoName (constantPool printedClass) 5 = Inr ''B''"
  by (simp_all add: wfPool_def entryIs_def getEntry_def isUtf8_def isClassInfo_def getMainClassname_def getClassInfoName_def getClassname_def
      getAsUtf8_def byteChar_def char_of_def bit_0)

definition classesOnly :: parse_options where
  "classesOnly = defaultParse\<lparr>cpoolFilter := [''class'', ''long''], descriptiveCPoolEntries := False\<rparr>"

theorem pool_listing_complete_witness:
  "printPool classesOnly printedClass = Some (Inr [''Constant Pool for: A'', ''1'' @ [CHR 0x09] @ ''class'' @ [CHR 0x09] @ ''idx:2 A'',
     ''3'' @ [CHR 0x09] @ ''long'' @ [CHR 0x09] @ ''7'', ''5'' @ [CHR 0x09] @ ''class'' @ [CHR 0x09] @ ''idx:6 B''])"
proof -
  have es: "filter (\<lambda>(i, r). applyFilter_tag (cpoolFilter classesOnly) (recordTag r)) (poolEntries (constantPool printedClass)) =
      [(1, ClassInfo 2), (3, LongInfo 0 7), (5, ClassInfo 6)]"
    by (simp add: poolEntries_def entriesFrom_def upt_rec classesOnly_def defaultParse_def sub_command_options.defs parse_options.defs
        applyFilter_tag_def filterTags_def poolTagToString_def)
  have "entryLine False (constantPool printedClass) 1 (ClassInfo 2) = Inr (''1'' @ [CHR 0x09] @ ''class'' @ [CHR 0x09] @ ''idx:2 A'')"
    "entryLine False (constantPool printedClass) 3 (LongInfo 0 7) = Inr (''3'' @ [CHR 0x09] @ ''long'' @ [CHR 0x09] @ ''7'')"
    "entryLine False (constantPool printedClass) 5 (ClassInfo 6) = Inr (''5'' @ [CHR 0x09] @ ''class'' @ [CHR 0x09] @ ''idx:6 B'')"
    by (simp_all add: entryLine_def printHeader_def tagToString_def poolTagToString_def getClassname_def getEntry_def getAsUtf8_def
        byteChar_def char_of_def bit_0 getLongLong_def intToString_def natToString.simps digitChar_def)
  moreover have "descriptiveCPoolEntries classesOnly = False" by (simp add: classesOnly_def)
  ultimately show ?thesis using pool_listing_complete [OF printedClass_ok(1-3), of classesOnly] unfolding es
    by (auto simp: list_all2_Cons1)
qed

section \<open>The links of the page\<close>

lemma generateCPoolEntries_lines:
  assumes "wfPool cp" "1 < length cp \<longrightarrow> cp ! 1 \<noteq> None"
  shows "\<exists>ls. generateCPoolEntries descriptive cp = Some (Inr ls) \<and>
    list_all2 (\<lambda>(i, r) (k, l). k = i \<and> htmlLine descriptive cp i r = Inr l) (poolEntries cp) ls"
proof -
  let ?f = "\<lambda>i r. bindR (htmlLine descriptive cp i r) (\<lambda>l. Inr (i, l))"
  have visit: "(\<lambda>i r. bindR (htmlLine descriptive cp i r) (\<lambda>l. Inr [(i, l)])) = (\<lambda>i r. if \<not> True then Inr [] else bindR (?f i r) (\<lambda>l. Inr [l]))"
  proof (intro ext)
    show "bindR (htmlLine descriptive cp i r) (\<lambda>l. Inr [(i, l)]) = (if \<not> True then Inr [] else bindR (?f i r) (\<lambda>l. Inr [l]))" for i r
      by (cases "htmlLine descriptive cp i r") simp_all
  qed
  have ok: "isOk (?f i r)" if "getEntry cp i = Inr r" for i r
    using entryLine_ok(2) [OF assms(1) that, of descriptive] by (auto simp: isOk_iff)
  obtain ls where ls: "generateCPoolEntries descriptive cp = Some (Inr ls)" "list_all2 (\<lambda>(i, r) l. ?f i r = Inr l) (poolEntries cp) ls"
    using pool_walk_ok [where f = ?f and q = "\<lambda>_. True", OF assms ok] by (auto simp: generateCPoolEntries_def visit)
  have "k = i \<and> htmlLine descriptive cp i r = Inr l" if "?f i r = Inr (k, l)" for i r k l
    using that by (cases "htmlLine descriptive cp i r") auto
  then show ?thesis using ls by (auto elim!: list_all2_mono)
qed

text \<open>The index of a bootstrap method does not point into the pool, and the target of a method handle is not
  part of well-formedness.\<close>

fun linksIntoPool :: "constant_pool_record \<Rightarrow> bool" where
  "linksIntoPool (MethodHandleInfo _ _) = False"
| "linksIntoPool (InvokeDynamicInfo _ _) = False"
| "linksIntoPool _ = True"

lemma bindR_Inr: "bindR r f = Inr y \<longleftrightarrow> (\<exists>x. r = Inr x \<and> f x = Inr y)"
  by (cases r) auto

lemma htmlHeader_pieces: "htmlHeader descriptive i r = Inr l \<Longrightarrow> EntryLink k \<notin> set l \<and> concat (map linkedClass l) = []"
  by (auto simp: htmlHeader_def bindR_Inr)

lemma htmlLine_links:
  assumes "wfPool cp" "getEntry cp i = Inr r" "htmlLine descriptive cp i r = Inr l" "linksIntoPool r" "EntryLink k \<in> set l"
  shows "\<exists>r'. getEntry cp k = Inr r'"
proof -
  obtain h t where l: "htmlHeader descriptive i r = Inr h" "htmlEntry descriptive cp i r = Inr t" "l = h @ t"
    using assms(3) by (auto simp: htmlLine_def bindR_Inr)
  then have "EntryLink k \<in> set t" using assms(5) htmlHeader_pieces by fastforce
  then show ?thesis using wfPool_entry [OF assms(1,2)] l(2) assms(4) htmlHeader_pieces [of descriptive i r t]
    by (cases r) (auto simp: entryIs_iff htmlRefExtraInfo_def bindR_Inr)
qed

lemma htmlLine_classes:
  assumes "htmlLine descriptive cp i r = Inr l"
  shows "set (concat (map linkedClass l)) = {c. \<exists>n. r = ClassInfo n \<and> getClassname cp n = Inr c}"
proof -
  obtain h t where l: "htmlHeader descriptive i r = Inr h" "htmlEntry descriptive cp i r = Inr t" "l = h @ t"
    using assms by (auto simp: htmlLine_def bindR_Inr)
  have "concat (map linkedClass h) = []" using htmlHeader_pieces [OF l(1)] by simp
  moreover have "set (concat (map linkedClass t)) = {c. \<exists>n. r = ClassInfo n \<and> getClassname cp n = Inr c}"
    using l(2) htmlHeader_pieces [of descriptive i r t] by (cases r) (auto simp: htmlRefExtraInfo_def bindR_Inr)
  ultimately show ?thesis using l(3) by simp
qed

lemma classRefSet_names:
  assumes "wfPool cp" "list_all2 (\<lambda>(i, r) (k, l). k = i \<and> htmlLine descriptive cp i r = Inr l) (poolEntries cp) ls"
  shows "classRefSet ls = sorted_list_of_set {c. \<exists>i n. getEntry cp i = Inr (ClassInfo n) \<and> getClassname cp n = Inr c}"
proof -
  have cp: "length cp \<le> 65535" "hd cp = None" "cp \<noteq> []" using assms(1) by (auto simp: wfPool_def)
  have "set (concat (map (concat \<circ> map linkedClass \<circ> snd) ls)) = (\<Union>(i, r) \<in> set es. {c. \<exists>n. r = ClassInfo n \<and> getClassname cp n = Inr c})"
    if "list_all2 (\<lambda>(i, r) (k, l). k = i \<and> htmlLine descriptive cp i r = Inr l) es ls" for es
    using that
  proof (induction rule: list_all2_induct)
    case Nil show ?case by simp
  next
    case (Cons x xs y ys)
    obtain i r l where "x = (i, r)" "y = (i, l)" "htmlLine descriptive cp i r = Inr l" using Cons.hyps(1) by (cases x; cases y) auto
    then show ?case using Cons.IH htmlLine_classes [of descriptive cp i r l] by simp
  qed
  from this [OF assms(2)] have "set (concat (map (concat \<circ> map linkedClass \<circ> snd) ls)) = {c. \<exists>i n. getEntry cp i = Inr (ClassInfo n) \<and> getClassname cp n = Inr c}"
    using poolEntries_iff [OF cp] by fastforce
  then show ?thesis by (simp only: classRefSet_def sorted_list_of_set_sort_remdups [symmetric])
qed

lemma htmlGen_page:
  assumes "wfPool (constantPool p)" "1 < length (constantPool p) \<longrightarrow> constantPool p ! 1 \<noteq> None" "getMainClassname p = Inr classname"
    and "superClass (mainClassInfo p) = 0 \<or> entryIs isClassInfo (constantPool p) (superClass (mainClassInfo p))"
  shows "\<exists>ls super. htmlGen env opts p = Some (Inr
      [(getClassHtmlFilename opts classname (pathFilename (filename p)), renderClass env (classData classname super (pathFilename (filename p)) ls)),
       (getClassHtmlIndexFilename opts classname, renderImplementations env
         [(''classname'', JText classname), (''implementations'', JTexts (subdirectories env (getClassRootDir opts classname)))])]) \<and>
    generateSuperclassInfo p = Inr super \<and>
    list_all2 (\<lambda>(i, r) (k, l). k = i \<and> htmlLine (descriptiveCPoolEntries (parseOptions opts)) (constantPool p) i r = Inr l) (poolEntries (constantPool p)) ls"
proof -
  have "isOk (generateSuperclassInfo p)"
    using assms(4) getClassInfoName_class [OF assms(1)] by (auto simp: generateSuperclassInfo_def Let_def word_gt_0 intro!: isOk_bindR)
  then show ?thesis using generateCPoolEntries_lines [OF assms(1,2), of "descriptiveCPoolEntries (parseOptions opts)"] assms(3)
    by (auto simp: htmlGen_def Let_def isOk_iff)
qed

lemma page_links:
  assumes "wfPool cp" "list_all2 (\<lambda>(i, r) (k, l). k = i \<and> htmlLine descriptive cp i r = Inr l) (poolEntries cp) ls"
  shows "map fst ls = map fst (poolEntries cp)" "fst ` set ls = {i. \<exists>r. getEntry cp i = Inr r}"
    and "(i, l) \<in> set ls \<Longrightarrow> \<exists>r. getEntry cp i = Inr r \<and> htmlLine descriptive cp i r = Inr l"
    and "getEntry cp i = Inr r \<Longrightarrow> \<exists>l. (i, l) \<in> set ls \<and> htmlLine descriptive cp i r = Inr l"
proof -
  have cp: "length cp \<le> 65535" "hd cp = None" "cp \<noteq> []" using assms(1) by (auto simp: wfPool_def)
  note iff = poolEntries_iff [OF cp]
  show m: "map fst ls = map fst (poolEntries cp)"
    using assms(2) by (induction rule: list_all2_induct) (auto split: prod.splits)
  have "fst ` set ls = fst ` set (poolEntries cp)" using arg_cong [OF m, of set] by simp
  also have "\<dots> = {i. \<exists>r. (i, r) \<in> set (poolEntries cp)}" by (auto intro: rev_image_eqI)
  finally show "fst ` set ls = {i. \<exists>r. getEntry cp i = Inr r}" by (simp only: iff)
  have line: "j < length ls \<Longrightarrow> case poolEntries cp ! j of (i, r) \<Rightarrow> fst (ls ! j) = i \<and> htmlLine descriptive cp i r = Inr (snd (ls ! j))" for j
    using list_all2_nthD2 [OF assms(2), of j] by (auto split: prod.splits)
  have len: "length (poolEntries cp) = length ls" using assms(2) by (rule list_all2_lengthD)
  show "\<exists>r. getEntry cp i = Inr r \<and> htmlLine descriptive cp i r = Inr l" if "(i, l) \<in> set ls"
  proof -
    obtain j where j: "j < length ls" "ls ! j = (i, l)" using \<open>(i, l) \<in> set ls\<close> by (auto simp: in_set_conv_nth)
    obtain r where r: "poolEntries cp ! j = (i, r)" "htmlLine descriptive cp i r = Inr l" using line [OF j(1)] j(2) by (auto split: prod.splits)
    have "(i, r) \<in> set (poolEntries cp)" using nth_mem [of j "poolEntries cp"] j(1) r(1) len by simp
    then show ?thesis using iff r(2) by blast
  qed
  show "\<exists>l. (i, l) \<in> set ls \<and> htmlLine descriptive cp i r = Inr l" if "getEntry cp i = Inr r"
  proof -
    have "(i, r) \<in> set (poolEntries cp)" using \<open>getEntry cp i = Inr r\<close> iff by blast
    then obtain j where j: "j < length ls" "poolEntries cp ! j = (i, r)" by (auto simp: in_set_conv_nth len)
    then have "ls ! j = (i, snd (ls ! j))" "htmlLine descriptive cp i r = Inr (snd (ls ! j))" using line [OF j(1)] by (auto simp: prod_eq_iff)
    then show ?thesis using nth_mem [OF j(1)] by (intro exI [of _ "snd (ls ! j)"]) simp
  qed
qed

text \<open>(C24) The page of a class with a well-formed pool is always written.  It has one element for each record of the
  pool, numbered by the index of the record and in index order; its list of classes holds the names of the class
  records, sorted and without repetition, other than the class itself; and every link to another entry leads to an
  element of the page, except on the lines of method handles and dynamic call sites.\<close>

theorem html_page_navigates:
  assumes "wfPool (constantPool p)" "1 < length (constantPool p) \<longrightarrow> constantPool p ! 1 \<noteq> None" "getMainClassname p = Inr classname"
    and "superClass (mainClassInfo p) = 0 \<or> entryIs isClassInfo (constantPool p) (superClass (mainClassInfo p))"
  shows "\<exists>ls super. htmlGen env opts p = Some (Inr
      [(getClassHtmlFilename opts classname (pathFilename (filename p)), renderClass env (classData classname super (pathFilename (filename p)) ls)),
       (getClassHtmlIndexFilename opts classname, renderImplementations env
         [(''classname'', JText classname), (''implementations'', JTexts (subdirectories env (getClassRootDir opts classname)))])]) \<and>
    map fst ls = map fst (poolEntries (constantPool p)) \<and>
    generateClassRefs classname ls = map (\<lambda>c. ''<div>'' @ generateClassLink c @ ''</div>'') (filter (\<lambda>c. c \<noteq> classname)
      (sorted_list_of_set {c. \<exists>i n. getEntry (constantPool p) i = Inr (ClassInfo n) \<and> getClassname (constantPool p) n = Inr c})) \<and>
    (\<forall>i r l k. (i, l) \<in> set ls \<and> getEntry (constantPool p) i = Inr r \<and> linksIntoPool r \<and> EntryLink k \<in> set l \<longrightarrow> k \<in> fst ` set ls)"
proof -
  from htmlGen_page [OF assms, of env opts] obtain ls super where
    page: "htmlGen env opts p = Some (Inr
      [(getClassHtmlFilename opts classname (pathFilename (filename p)), renderClass env (classData classname super (pathFilename (filename p)) ls)),
       (getClassHtmlIndexFilename opts classname, renderImplementations env
         [(''classname'', JText classname), (''implementations'', JTexts (subdirectories env (getClassRootDir opts classname)))])])"
    and ls: "list_all2 (\<lambda>(i, r) (k, l). k = i \<and> htmlLine (descriptiveCPoolEntries (parseOptions opts)) (constantPool p) i r = Inr l) (poolEntries (constantPool p)) ls"
    by blast
  note links = page_links [OF assms(1) ls]
  have "k \<in> fst ` set ls" if "(i, l) \<in> set ls" "getEntry (constantPool p) i = Inr r" "linksIntoPool r" "EntryLink k \<in> set l" for i r l k
    using links(3) [OF that(1)] htmlLine_links [OF assms(1) that(2) _ that(3,4)] that(2) unfolding links(2) by auto
  moreover note links(1)
  moreover have "generateClassRefs classname ls = map (\<lambda>c. ''<div>'' @ generateClassLink c @ ''</div>'') (filter (\<lambda>c. c \<noteq> classname)
      (sorted_list_of_set {c. \<exists>i n. getEntry (constantPool p) i = Inr (ClassInfo n) \<and> getClassname (constantPool p) n = Inr c}))"
    by (simp only: generateClassRefs_def classRefSet_names [OF assms(1) ls])
  ultimately show ?thesis using page by blast
qed

definition sampleHtml :: html_env where
  "sampleHtml = \<lparr>renderClass = (\<lambda>_. ''class''), renderImplementations = (\<lambda>_. ''index''), subdirectories = (\<lambda>_. [''A.class''])\<rparr>"

theorem html_page_navigates_witness:
  "\<exists>ls super. htmlGen sampleHtml (defaultOptions\<lparr>outputDir := ''out''\<rparr>) printedClass = Some (Inr
      [(''out/nav/A/A.class/cpool.html'', renderClass sampleHtml (classData ''A'' super ''A.class'' ls)),
       (''out/nav/A/index.html'', renderImplementations sampleHtml [(''classname'', JText ''A''), (''implementations'', JTexts (subdirectories sampleHtml ''out/nav/A''))])]) \<and>
    map fst ls = [1, 2, 3, 5, 6, 7, 8, 9, 10, 11] \<and> generateClassRefs ''A'' ls = [''<div>'' @ generateClassLink ''B'' @ ''</div>'']"
proof -
  let ?o = "defaultOptions\<lparr>outputDir := ''out''\<rparr>"
  let ?cp = "constantPool printedClass"
  have "superClass (mainClassInfo printedClass) = 0 \<or> entryIs isClassInfo ?cp (superClass (mainClassInfo printedClass))"
    by (simp add: entryIs_def isClassInfo_def getEntry_def)
  note page = html_page_navigates [OF printedClass_ok(1-3) this, of sampleHtml ?o]
  have names: "{c. \<exists>i n. getEntry ?cp i = Inr (ClassInfo n) \<and> getClassname ?cp n = Inr c} = {''A'', ''B''}"
  proof -
    have "getEntry ?cp i = Inr (ClassInfo n) \<longleftrightarrow> (i, ClassInfo n) \<in> set (poolEntries ?cp)" for i n
      using poolEntries_iff [of ?cp i "ClassInfo n"] by simp
    moreover have "(i, ClassInfo n) \<in> set (poolEntries ?cp) \<longleftrightarrow> (i, n) \<in> {(1, 2), (5, 6)}" for i n
      by (simp add: poolEntries_def entriesFrom_def upt_rec)
    moreover have "getClassname ?cp 2 = Inr ''A''" "getClassname ?cp 6 = Inr ''B''"
      by (simp_all add: getClassname_def getEntry_def getAsUtf8_def byteChar_def char_of_def bit_0)
    ultimately show ?thesis by auto
  qed
  have ids: "map fst (poolEntries ?cp) = [1, 2, 3, 5, 6, 7, 8, 9, 10, 11]" by (simp add: poolEntries_def entriesFrom_def upt_rec)
  have files: "getClassHtmlFilename ?o ''A'' ''A.class'' = ''out/nav/A/A.class/cpool.html''"
    "getClassHtmlIndexFilename ?o ''A'' = ''out/nav/A/index.html''" "getClassRootDir ?o ''A'' = ''out/nav/A''" "pathFilename (filename printedClass) = ''A.class''"
    by (simp_all add: getClassHtmlFilename_def getClassHtmlIndexFilename_def getClassRootDir_def pathAppend_def pathJoin_def pathFilename_def)
  have refs: "filter (\<lambda>c. c \<noteq> ''A'') (sorted_list_of_set {''A'', ''B''}) = [''B'']" by (simp add: less_char_def)
  show ?thesis using page unfolding names ids files refs list.map by (elim exE conjE) (intro exI conjI; assumption)
qed

text \<open>The number of a bootstrap method is an index of the attribute \<^verbatim>\<open>BootstrapMethods\<close>, but the page links it as
  an entry of the pool: the link of the first one leads nowhere.\<close>

lemma bootstrap_link_dead:
  assumes "wfPool cp" "list_all2 (\<lambda>(i, r) (k, l). k = i \<and> htmlLine descriptive cp i r = Inr l) (poolEntries cp) ls"
    and "getEntry cp i = Inr (InvokeDynamicInfo 0 n)"
  shows "\<exists>l. (i, l) \<in> set ls \<and> EntryLink 0 \<in> set l \<and> 0 \<notin> fst ` set ls"
proof -
  obtain l where "(i, l) \<in> set ls" "htmlLine descriptive cp i (InvokeDynamicInfo 0 n) = Inr l" using page_links(4) [OF assms] by blast
  moreover have "0 \<notin> fst ` set ls" unfolding page_links(2) [OF assms(1,2)]
    using wfPool_zero [OF assms(1), of "\<lambda>_. True"] by (auto simp: entryIs_iff)
  ultimately show ?thesis by (auto simp: htmlLine_def bindR_Inr)
qed

section \<open>The text of a declaration\<close>

fun javaType :: "ftype \<Rightarrow> string" where
  "javaType (Prim c) = the (primitiveName c)"
| "javaType (Obj n) = pathToClassname n"
| "javaType (Arr t) = javaType t @ ''[]''"

lemma typeDescriptor_text: "dimensions (typeDescriptor t) \<ge> 0 \<and> descriptorToString (typeDescriptor t) = javaType t"
proof (induction t)
  case (Prim c) show ?case by (simp add: descriptorToString_def emptyDescriptor_def)
next
  case (Obj n)
  have "(\<lambda>c. if c \<noteq> CHR ''/'' then c else CHR ''.'') = (\<lambda>c. if c = CHR ''/'' then CHR ''.'' else c)" by auto
  then show ?case by (simp add: descriptorToString_def emptyDescriptor_def pathToClassname_def)
next
  case (Arr t)
  then have "nat (dimensions (typeDescriptor t) + 1) = Suc (nat (dimensions (typeDescriptor t)))" by linarith
  moreover have "concat (replicate (Suc k) ''[]'') = concat (replicate k ''[]'') @ ''[]''" for k by (induction k) simp_all
  ultimately show ?case using Arr by (auto simp: descriptorToString_def Let_def)
qed

lemma appendArguments_text:
  "appendArguments s False as = s @ concat (map (\<lambda>a. '', '' @ descriptorToString a) as)"
  by (induction as arbitrary: s) simp_all

lemma foldl_join: "foldl (\<lambda>x y. x @ d @ y) s ps = s @ concat (map (\<lambda>p. d @ p) ps)"
  by (induction ps arbitrary: s) simp_all

lemma argumentsToString_text: "argumentsToString m = ''('' @ join (map descriptorToString (arguments m)) '', '' @ '')''"
  by (cases "arguments m") (simp_all add: argumentsToString_def appendArguments_text join_def foldl_join [of "'', ''", simplified] comp_def)

text \<open>What a method and a field of a class declare: their names and their types.\<close>

definition methodDeclares :: "constant_pool \<Rightarrow> member_info \<Rightarrow> string \<times> ftype list \<times> ftype \<Rightarrow> bool" where
  "methodDeclares cp m = (\<lambda>(n, args, r). getString cp (nameIndex m) False = Inr n \<and>
     getString cp (descriptorIndex m) False = Inr (printMethod args r) \<and> list_all wfType args \<and> wfType r)"

definition fieldDeclares :: "constant_pool \<Rightarrow> member_info \<Rightarrow> string \<times> ftype \<Rightarrow> bool" where
  "fieldDeclares cp f = (\<lambda>(n, t). getString cp (nameIndex f) False = Inr n \<and> getString cp (descriptorIndex f) False = Inr (printType t) \<and> wfType t)"

definition memberLine :: "string \<Rightarrow> member_info \<Rightarrow> string \<Rightarrow> string \<Rightarrow> string" where
  "memberLine attrs m ty rest = attrs @ '' '' @ accessToString (accessFlags m) @ '' '' @ ty @ '' '' @ rest @ '';''"

lemma outputMethod_text:
  assumes "methodDeclares (constantPool p) m (n, args, r)" "attributesToString host p (memberAttributes m) = Some (Inr attrs)"
  shows "outputMethod host p m = Some (Inr (memberLine attrs m (javaType r) (n @ ''('' @ join (map javaType args) '', '' @ '')'') @ newline))"
  using assms typeDescriptor_text method_descriptor_parsed [of args r]
  by (simp add: methodDeclares_def outputMethod_def memberLine_def join_def argumentsToString_text comp_def)

lemma outputField_text:
  assumes "fieldDeclares (constantPool p) f (n, t)" "attributesToString host p (memberAttributes f) = Some (Inr attrs)"
  shows "outputField host p f = Some (Inr (memberLine attrs f (javaType t) n))"
  using assms typeDescriptor_text descriptor_parsed [of t]
  by (simp add: fieldDeclares_def outputField_def memberLine_def join_def)

lemma mapO_list_all2:
  assumes "list_all2 q xs ys" "\<And>x y. q x y \<Longrightarrow> x \<in> set xs \<Longrightarrow> f x = Some (Inr (g x y))"
  shows "mapO f xs = Some (Inr (map2 g xs ys))"
  using assms by (induction rule: list_all2_induct) simp_all

definition methodLine :: "(member_info \<Rightarrow> string) \<Rightarrow> member_info \<Rightarrow> string \<times> ftype list \<times> ftype \<Rightarrow> string" where
  "methodLine attrs m = (\<lambda>(n, args, r). memberLine (attrs m) m (javaType r) (n @ ''('' @ join (map javaType args) '', '' @ '')'') @ newline @ newline)"

definition fieldLine :: "(member_info \<Rightarrow> string) \<Rightarrow> member_info \<Rightarrow> string \<times> ftype \<Rightarrow> string" where
  "fieldLine attrs f = (\<lambda>(n, t). memberLine (attrs f) f (javaType t) n @ newline @ newline)"

lemma outputMethods_text:
  assumes "list_all2 (methodDeclares (constantPool p)) (methods p) ms" "\<forall>m \<in> set (methods p). attributesToString host p (memberAttributes m) = Some (Inr (attrs m))"
  shows "outputMethods host p = Some (Inr (newline @ ''//Methods: '' @ natToString (length (methods p)) @ newline @
    ''//-----------------------------------'' @ newline @ concat (map2 (methodLine attrs) (methods p) ms) @ newline))"
proof -
  have "mapO (\<lambda>m. bindO (outputMethod host p m) (\<lambda>s. Some (Inr (s @ newline)))) (methods p) = Some (Inr (map2 (methodLine attrs) (methods p) ms))"
    using assms(1) by (rule mapO_list_all2) (use assms(2) outputMethod_text in \<open>auto simp: methodLine_def split: prod.splits\<close>)
  then show ?thesis by (simp add: outputMethods_def)
qed

lemma outputFields_text:
  assumes "list_all2 (fieldDeclares (constantPool p)) (classFields p) fs" "\<forall>f \<in> set (classFields p). attributesToString host p (memberAttributes f) = Some (Inr (attrs f))"
  shows "outputFields host p = Some (Inr (newline @ ''//Fields: '' @ natToString (length (classFields p)) @ newline @
    ''//------------------------------------'' @ newline @ concat (map2 (fieldLine attrs) (classFields p) fs) @ newline))"
proof -
  have "mapO (\<lambda>f. bindO (outputField host p f) (\<lambda>s. Some (Inr (s @ newline @ newline)))) (classFields p) = Some (Inr (map2 (fieldLine attrs) (classFields p) fs))"
    using assms(1) by (rule mapO_list_all2) (use assms(2) outputField_text in \<open>auto simp: fieldLine_def split: prod.splits\<close>)
  then show ?thesis by (simp add: outputFields_def)
qed

text \<open>(C25) The declaration of a class whose methods and fields have well-formed descriptors: the class with its
  superclass, then every method, with its return type, name and argument types in the notation of Java, and every
  field with its type, in the order of the class file, each after its attributes and access flags.\<close>

theorem class_declaration_text:
  assumes "list_all2 (methodDeclares (constantPool p)) (methods p) ms" "list_all2 (fieldDeclares (constantPool p)) (classFields p) fs"
    and "\<forall>m \<in> set (methods p) \<union> set (classFields p). attributesToString host p (memberAttributes m) = Some (Inr (attrs m))"
    and "attributesToString host p (attributes p) = Some (Inr classAttrs)" "getMainClassname p = Inr classname"
    and "superClass (mainClassInfo p) \<noteq> 0" "getClassInfoName (constantPool p) (superClass (mainClassInfo p)) = Inr super"
  shows "parserPrinter host p = Some (Inr (
    newline @ ''//Class '' @ newline @ ''//------------------------------------'' @ newline @
    classAttrs @ accessToString (classAccessFlags (mainClassInfo p)) @ '' '' @
    (if isInterface (classAccessFlags (mainClassInfo p)) then ''interface'' else ''class'') @ '' '' @ classname @ '' extends '' @ super @ newline @
    newline @ ''//Methods: '' @ natToString (length (methods p)) @ newline @ ''//-----------------------------------'' @ newline @
    concat (map2 (methodLine attrs) (methods p) ms) @ newline @
    newline @ ''//Fields: '' @ natToString (length (classFields p)) @ newline @ ''//------------------------------------'' @ newline @
    concat (map2 (fieldLine attrs) (classFields p) fs) @ newline))"
proof -
  have "outputClass host p = Some (Inr (newline @ ''//Class '' @ newline @ ''//------------------------------------'' @ newline @
    classAttrs @ accessToString (classAccessFlags (mainClassInfo p)) @ '' '' @
    (if isInterface (classAccessFlags (mainClassInfo p)) then ''interface'' else ''class'') @ '' '' @ classname @ '' extends '' @ super @ newline))"
    using assms(4-7) by (simp add: outputClass_def getMainClassname_def)
  moreover have "\<forall>m \<in> set (methods p). attributesToString host p (memberAttributes m) = Some (Inr (attrs m))"
    "\<forall>f \<in> set (classFields p). attributesToString host p (memberAttributes f) = Some (Inr (attrs f))" using assms(3) by blast+
  ultimately show ?thesis using outputMethods_text [OF assms(1), of host attrs] outputFields_text [OF assms(2), of host attrs]
    by (simp add: parserPrinter_def)
qed

theorem class_declaration_text_witness:
  "parserPrinter False printedClass = Some (Inr (
    newline @ ''//Class '' @ newline @ ''//------------------------------------'' @ newline @ ''public class A extends B'' @ newline @
    newline @ ''//Methods: 1'' @ newline @ ''//-----------------------------------'' @ newline @ '' public void f(int);'' @ newline @ newline @ newline @
    newline @ ''//Fields: 1'' @ newline @ ''//------------------------------------'' @ newline @ '' private int[] f;'' @ newline @ newline @ newline))"
proof -
  let ?cp = "constantPool printedClass"
  have members: "list_all2 (methodDeclares ?cp) (methods printedClass) [(''f'', [Prim CHR ''I''], Prim CHR ''V'')]"
    "list_all2 (fieldDeclares ?cp) (classFields printedClass) [(''f'', Arr (Prim CHR ''I''))]"
    by (simp_all add: methodDeclares_def fieldDeclares_def getString_def getEntry_def getAsUtf8_def printMethod_def primitiveName.simps
        byteChar_def char_of_def bit_0)
  have attrs: "\<forall>m \<in> set (methods printedClass) \<union> set (classFields printedClass). attributesToString False printedClass (memberAttributes m) = Some (Inr ((\<lambda>_. []) m))"
    "attributesToString False printedClass (attributes printedClass) = Some (Inr [])" by (simp_all add: attributesToString_def join_def)
  have super: "superClass (mainClassInfo printedClass) \<noteq> 0" "getClassInfoName ?cp (superClass (mainClassInfo printedClass)) = Inr ''B''"
    using printedClass_ok(4) by simp_all
  have flags: "natToString (Suc 0) = ''1''" "accessToString 1 = ''public''" "accessToString 2 = ''private''"
    by (simp_all add: natToString.simps digitChar_def accessToString_def accessModifiers_def toLower_def tolowerChar_def char_of_def bit_0)
  show ?thesis using class_declaration_text [OF members attrs printedClass_ok(3) super]
    by (simp add: methodLine_def fieldLine_def memberLine_def primitiveName.simps flags isInterface_def JVM_ACC_INTERFACE_def join_def)
qed

end
