(* ===== verification/Digest_Server.thy ===== *)
theory Digest_Server
  imports Analyzers Printers
begin

text \<open>
  The digest server (\<^verbatim>\<open>app/server/digest/ServiceImpl.cpp\<close>, \<^verbatim>\<open>app/server/RequestContext.cpp\<close>) and its client
  (\<^verbatim>\<open>ServerCommand.cpp\<close>).  The messages of the protocol are records with the fields of \<^verbatim>\<open>Server.proto\<close>; the
  remote calls, generated by gRPC, are parameters.  What the server does with a request is the analysis of
  \<^verbatim>\<open>app/Analyzer.cpp\<close>; how it waits for its end is a step relation.
\<close>

section \<open>Messages\<close>

record diff_request =
  requestInput :: string
  requestDryRun :: bool

record file_digest_result =
  fdFilename :: string
  fdIsNew :: bool
  fdIsModified :: bool
  fdIsSameDigest :: bool
  fdFailed :: bool

record class_digest_result =
  cdStrongClassname :: string
  cdIsNew :: bool
  cdIsModified :: bool
  cdIsSameDigest :: bool
  cdFailed :: bool

record diff_response =
  responseFiles :: "file_digest_result list"
  responseClassfiles :: "class_digest_result list"

datatype grpc_status = StatusOk | StatusFailed string

section \<open>The server\<close>

definition fileToMessage :: "file_result \<Rightarrow> file_digest_result" where
  "fileToMessage f = \<lparr>fdFilename = fileResultName f, fdIsNew = fileIsNew f, fdIsModified = fileIsModified f,
     fdIsSameDigest = fileIsSamePublicDigest f, fdFailed = fileFailed f\<rparr>"

definition classToMessage :: "class_result \<Rightarrow> class_digest_result" where
  "classToMessage c = \<lparr>cdStrongClassname = classResultName c, cdIsNew = classIsNew c, cdIsModified = classIsModified c,
     cdIsSameDigest = classIsSamePublicDigest c, cdFailed = classFailed c\<rparr>"

definition reportToResponse :: "results \<Rightarrow> diff_response" where
  "reportToResponse r = \<lparr>responseFiles = map fileToMessage (fileResults r), responseClassfiles = map classToMessage (classResults r)\<rparr>"

text \<open>The options of a request; \<open>isDirectory\<close> and \<open>fileExists\<close> answer for the file system of the server.\<close>

definition requestContext :: "string \<Rightarrow> options" where
  "requestContext logName = defaultOptions\<lparr>isPublicDigest := True, digestOptions := defaultSubCommand\<lparr>server := defaultServer\<lparr>isServerMode := True\<rparr>\<rparr>,
     logFile := logName\<rparr>"

definition updateRequest :: "(string \<Rightarrow> bool) \<Rightarrow> (string \<Rightarrow> bool) \<Rightarrow> diff_request \<Rightarrow> options \<Rightarrow> bool \<times> options" where
  "updateRequest isDirectory fileExists request opts =
     (case processInput isDirectory fileExists
        ((digestOptions opts)\<lparr>input := requestInput request, dryRun := requestDryRun request, isDiff := True\<rparr>) of
      (ok, d) \<Rightarrow> (ok, opts\<lparr>digestOptions := d\<rparr>))"

text \<open>
  The analysis of the base class: a jar goes through the parser task, a class file through
  \<open>parseClassFile\<close>.  The callback of a parsed class prints nothing under the options of a request
  (\<open>request_prints_nothing\<close>), so it is left out here.
\<close>

definition runParser :: "task_env \<Rightarrow> zip_entry list \<Rightarrow> (jar_task, unit) prog" where
  "runParser env es = andThen (runTasks (parserProcessEntry env (\<lambda>_. ret ())) es) (\<lambda>_.
     onResults (\<lambda>r. r\<lparr>jarfiles := (jarfiles r)\<lparr>jarParsedCount := jarParsedCount (jarfiles r) + 1\<rparr>\<rparr>))"

fun parserItem :: "analyzer_env \<Rightarrow> (string \<Rightarrow> zip_entry list) \<Rightarrow> work_item \<Rightarrow> (analysis, unit) prog" where
  "parserItem env archive (JarFile f) =
     andThen (onResults (\<lambda>r. r\<lparr>jarfiles := (jarfiles r)\<lparr>jarCount := jarCount (jarfiles r) + 1\<rparr>\<rparr>)) (\<lambda>_.
     withTask (runParser (task_env.truncate (env\<lparr>envOptions := (envOptions env)\<lparr>digestOptions := (digestOptions (envOptions env))\<lparr>input := f\<rparr>\<rparr>\<rparr>)) (archive f)))"
| "parserItem env archive (ClassFile f) =
     andThen (onResults (onStandalone (\<lambda>c. c\<lparr>count_cf := count_cf c + 1\<rparr>))) (\<lambda>_. parseClassFile env (\<lambda>_. ret ()) f)"

definition parserRun :: "analyzer_env \<Rightarrow> (string \<Rightarrow> zip_entry list) \<Rightarrow> (analysis, unit list) prog" where
  "parserRun env archive = mapProg (parserItem env archive) (inputItems env)"

definition serverDiff :: "analyzer_env \<Rightarrow> (string \<Rightarrow> zip_entry list) \<Rightarrow> (string \<Rightarrow> bool) \<Rightarrow> (string \<Rightarrow> bool) \<Rightarrow> string \<Rightarrow> database \<Rightarrow> diff_request \<Rightarrow> (grpc_status \<times> diff_response) result" where
  "serverDiff env archive isDirectory fileExists logName db request =
     (case updateRequest isDirectory fileExists request (requestContext logName) of
        (False, opts) \<Rightarrow> Inr (StatusFailed (''Invalid Input: '' @ requestInput request), \<lparr>responseFiles = [], responseClassfiles = []\<rparr>)
      | (True, opts) \<Rightarrow> (case parserRun (env\<lparr>envOptions := opts\<rparr>) archive \<lparr>taskDb = db, taskResults = newResults, taskLog = [], ownerIndexes = []\<rparr> of
            (Inl e, s) \<Rightarrow> Inl e
          | (Inr _, s) \<Rightarrow> Inr (StatusOk, reportToResponse (taskResults s))))"

text \<open>
  \<^verbatim>\<open>start\<close>: \<open>locked\<close> is the outcome of \<^verbatim>\<open>try_lock\<close>, None an \<^verbatim>\<open>interprocess_exception\<close>.  It returns whether the
  lock was taken; the second component is whether a server ever listened, which needs a database and a
  handle.
\<close>

definition serviceInit :: "bool \<Rightarrow> bool \<Rightarrow> bool" where
  "serviceInit opensDatabase getsHandle = (if opensDatabase then getsHandle else False)"

definition serviceStart :: "bool option \<Rightarrow> bool \<Rightarrow> bool \<Rightarrow> bool \<times> bool" where
  "serviceStart locked opensDatabase getsHandle = (case locked of
     Some True \<Rightarrow> (True, serviceInit opensDatabase getsHandle) | Some False \<Rightarrow> (False, False) | None \<Rightarrow> (False, False))"

section \<open>The client\<close>

definition fileFromMessage :: "file_digest_result \<Rightarrow> file_result" where
  "fileFromMessage d = \<lparr>fileResultName = fdFilename d, fileIsNew = fdIsNew d, fileIsModified = fdIsModified d,
     fileIsSamePublicDigest = fdIsSameDigest d, fileFailed = fdFailed d\<rparr>"

definition classFromMessage :: "class_digest_result \<Rightarrow> class_result" where
  "classFromMessage d = \<lparr>classResultName = cdStrongClassname d, classIsNew = cdIsNew d, classIsModified = cdIsModified d,
     classIsSamePublicDigest = cdIsSameDigest d, classFailed = cdFailed d\<rparr>"

definition responseToReport :: "diff_response \<Rightarrow> results \<Rightarrow> results" where
  "responseToReport response r =
     fold (\<lambda>d. addClass (classFromMessage d)) (responseClassfiles response) (fold (\<lambda>d. addFile (fileFromMessage d)) (responseFiles response) r)"

definition optionsToRequest :: "options \<Rightarrow> diff_request" where
  "optionsToRequest opts = \<lparr>requestInput = input (digestOptions opts), requestDryRun = dryRun (digestOptions opts)\<rparr>"

text \<open>The remote calls and the start of a server.\<close>

record server_stub =
  stubQuit :: grpc_status
  stubDiff :: "diff_request \<Rightarrow> grpc_status \<times> diff_response"
  serverStarter :: bool

definition stopRemote :: "server_stub \<Rightarrow> bool" where
  "stopRemote stub \<longleftrightarrow> stubQuit stub = StatusOk"

definition diffRemote :: "server_stub \<Rightarrow> options \<Rightarrow> results \<Rightarrow> bool \<times> results" where
  "diffRemote stub opts r = (case stubDiff stub (optionsToRequest opts) of
     (StatusOk, response) \<Rightarrow> (True, responseToReport response r) | (StatusFailed msg, response) \<Rightarrow> (False, r))"

definition serverCommand :: "server_stub \<Rightarrow> options \<Rightarrow> results \<Rightarrow> bool \<times> results" where
  "serverCommand stub opts r =
     (if stopServer (server (digestOptions opts)) then (stopRemote stub, r)
      else if isClientMode (client (digestOptions opts)) then diffRemote stub opts r
      else (serverStarter stub, r))"

section \<open>The end of the server\<close>

text \<open>
  \<^verbatim>\<open>waitForShutDown\<close> tests the flag under a mutex and sleeps on a condition variable; \<^verbatim>\<open>signalQuick\<close>, called by
  \<^verbatim>\<open>Quit\<close>, sets the flag and notifies without the mutex.  Falling asleep releases the mutex in one step;
  \<^verbatim>\<open>notify_one\<close> wakes a thread that sleeps at that moment and is otherwise without effect.  A sleeping
  thread may also wake up by itself, as the standard allows, and tests the flag again.  Requests to quit
  come one after the other.  The steps interleave: the flag is a plain \<^verbatim>\<open>bool\<close> that \<^verbatim>\<open>signalQuick\<close> writes without
  the mutex, so the race between that write and the test is undefined in C++, and the relation shows
  only what happens where each access is indivisible and seen at once.
\<close>

datatype wait_state = Testing | FallingAsleep | Asleep | ShutDown
datatype quit_state = NoQuit | FlagSet | QuitAnswered

record service_state =
  quickReceived :: bool
  waiting :: wait_state
  quitting :: quit_state

inductive sstep :: "service_state \<Rightarrow> service_state \<Rightarrow> bool" where
  test_true: "waiting s = Testing \<Longrightarrow> quickReceived s \<Longrightarrow> sstep s (s\<lparr>waiting := ShutDown\<rparr>)"
| test_false: "waiting s = Testing \<Longrightarrow> \<not> quickReceived s \<Longrightarrow> sstep s (s\<lparr>waiting := FallingAsleep\<rparr>)"
| sleep: "waiting s = FallingAsleep \<Longrightarrow> sstep s (s\<lparr>waiting := Asleep\<rparr>)"
| spurious: "waiting s = Asleep \<Longrightarrow> sstep s (s\<lparr>waiting := Testing\<rparr>)"
| set_flag: "quitting s = NoQuit \<Longrightarrow> sstep s (s\<lparr>quickReceived := True, quitting := FlagSet\<rparr>)"
| notify: "quitting s = FlagSet \<Longrightarrow> sstep s (s\<lparr>waiting := (if waiting s = Asleep then Testing else waiting s), quitting := QuitAnswered\<rparr>)"
| next_quit: "quitting s = QuitAnswered \<Longrightarrow> sstep s (s\<lparr>quitting := NoQuit\<rparr>)"

inductive_cases sstepE: "sstep s t"

definition listening :: service_state where
  "listening = \<lparr>quickReceived = False, waiting = Testing, quitting = NoQuit\<rparr>"

text \<open>The server ends only after a request to quit.\<close>

lemma shutdown_requested: "sstep\<^sup>*\<^sup>* listening s \<Longrightarrow> waiting s = ShutDown \<longrightarrow> quickReceived s"
  by (induction rule: rtranclp_induct) (auto simp: listening_def elim!: sstepE split: if_splits)

text \<open>When the thread is asleep, a request to quit ends the server.\<close>

lemma quit_wakes:
  assumes "waiting s = Asleep" "quitting s = NoQuit"
  shows "\<exists>t. sstep\<^sup>*\<^sup>* s t \<and> waiting t = ShutDown"
proof -
  let ?a = "s\<lparr>quickReceived := True, quitting := FlagSet\<rparr>" let ?b = "?a\<lparr>waiting := Testing, quitting := QuitAnswered\<rparr>"
  have "sstep s ?a" using assms by (intro set_flag)
  moreover have "sstep ?a ?b" using notify [of ?a] assms by simp
  moreover have "sstep ?b (?b\<lparr>waiting := ShutDown\<rparr>)" by (intro test_true) simp_all
  ultimately have "sstep\<^sup>*\<^sup>* s (?b\<lparr>waiting := ShutDown\<rparr>)" by (meson r_into_rtranclp rtranclp_trans)
  then show ?thesis by (metis service_state.select_convs(2) service_state.surjective service_state.update_convs(2))
qed

text \<open>The write and the test of the flag can come at the same time, from the start: nothing orders them.\<close>

lemma flag_race: "\<exists>t u. sstep listening t \<and> quickReceived t \<and> sstep listening u \<and> waiting u = FallingAsleep"
  using set_flag [of listening] test_false [of listening] by (fastforce simp: listening_def)

text \<open>
  A notification can be lost.  When the request arrives after the flag was tested and before the thread
  sleeps, it is answered with success and the thread sleeps on with the flag set; nothing but another
  request or a wake-up without a notification can then follow.
\<close>

lemma quit_can_be_lost:
  "\<exists>s. sstep\<^sup>*\<^sup>* listening s \<and> quitting s = QuitAnswered \<and> quickReceived s \<and> waiting s = Asleep \<and>
     (\<forall>t. sstep s t \<longleftrightarrow> t = s\<lparr>quitting := NoQuit\<rparr> \<or> t = s\<lparr>waiting := Testing\<rparr>)"
proof -
  let ?tested = "listening\<lparr>waiting := FallingAsleep\<rparr>"
  let ?set = "?tested\<lparr>quickReceived := True, quitting := FlagSet\<rparr>"
  let ?answered = "?set\<lparr>waiting := FallingAsleep, quitting := QuitAnswered\<rparr>"
  let ?lost = "?answered\<lparr>waiting := Asleep\<rparr>"
  have "sstep listening ?tested" by (intro test_false) (simp_all add: listening_def)
  moreover have "sstep ?tested ?set" by (intro set_flag) (simp add: listening_def)
  moreover have "sstep ?set ?answered" using notify [of ?set] by simp
  moreover have "sstep ?answered ?lost" by (intro sleep) simp
  ultimately have "sstep\<^sup>*\<^sup>* listening ?lost" by (meson r_into_rtranclp rtranclp_trans)
  moreover have "sstep ?lost (?lost\<lparr>quitting := NoQuit\<rparr>)" "sstep ?lost (?lost\<lparr>waiting := Testing\<rparr>)" by (rule next_quit, simp, rule spurious, simp)
  moreover have "sstep ?lost t \<Longrightarrow> t = ?lost\<lparr>quitting := NoQuit\<rparr> \<or> t = ?lost\<lparr>waiting := Testing\<rparr>" for t
    by (erule sstepE) simp_all
  moreover have "quitting ?lost = QuitAnswered" "quickReceived ?lost" "waiting ?lost = Asleep" by simp_all
  ultimately show ?thesis by (intro exI [of _ ?lost] conjI allI iffI) auto
qed

section \<open>A report crosses the wire unchanged\<close>

lemma messages [simp]: "fileFromMessage (fileToMessage f) = f" "classFromMessage (classToMessage c) = c"
  by (simp_all add: fileFromMessage_def fileToMessage_def classFromMessage_def classToMessage_def)

lemma fold_addFile: "fold (\<lambda>d. addFile (g d)) ds r = r\<lparr>fileResults := fileResults r @ map g ds\<rparr>"
  by (induction ds arbitrary: r) (simp_all add: addFile_def)

lemma fold_addClass: "fold (\<lambda>d. addClass (g d)) ds r = r\<lparr>classResults := classResults r @ map g ds\<rparr>"
  by (induction ds arbitrary: r) (simp_all add: addClass_def)

lemma report_transfer:
  "responseToReport (reportToResponse r) r0 = r0\<lparr>fileResults := fileResults r0 @ fileResults r, classResults := classResults r0 @ classResults r\<rparr>"
  by (simp add: responseToReport_def reportToResponse_def fold_addFile fold_addClass comp_def)

section \<open>The server reports nothing\<close>

definition sameReport :: "results \<Rightarrow> results \<Rightarrow> bool" where
  "sameReport r r' \<longleftrightarrow> fileResults r' = fileResults r \<and> classResults r' = classResults r"

definition keepsReport :: "('s analysis_scheme, 'a) prog \<Rightarrow> bool" where
  "keepsReport m \<longleftrightarrow> (\<forall>s. sameReport (taskResults s) (taskResults (snd (m s))))"

named_theorems keeps

lemma keeps_basic [keeps]: "keepsReport (ret x)" "keepsReport (liftR r)" "keepsReport getState" "keepsReport (throw e)"
  by (simp_all add: keepsReport_def sameReport_def ret_def liftR_def getState_def throw_def)

lemma keeps_andThen [keeps]: "keepsReport m \<Longrightarrow> (\<And>x. keepsReport (f x)) \<Longrightarrow> keepsReport (andThen m f)"
  unfolding keepsReport_def sameReport_def andThen_def by (auto split: prod.splits sum.splits) (metis snd_conv)+

lemma keeps_log [keeps]: "keepsReport (modify (\<lambda>s. s\<lparr>taskLog := l\<rparr>))"
  by (simp add: keepsReport_def sameReport_def modify_def)

lemma keeps_onResults [keeps]: "(\<And>r. sameReport r (f r)) \<Longrightarrow> keepsReport (onResults f)"
  by (simp add: keepsReport_def onResults_def modify_def)

lemma keeps_prod [keeps]: "(\<And>a b. keepsReport (f a b)) \<Longrightarrow> keepsReport (case x of (a, b) \<Rightarrow> f a b)"
  by (cases x) simp

lemma keeps_mapProg [keeps]: "(\<And>x. keepsReport (f x)) \<Longrightarrow> keepsReport (mapProg f xs)"
  by (induction xs) (auto intro!: keeps)

lemma sameReport_counts [keeps]:
  "sameReport r (onJarClasses f r)" "sameReport r (incParsed r)" "sameReport r (onStandalone g r)" "sameReport r (r\<lparr>jarfiles := j\<rparr>)"
  by (simp_all add: sameReport_def onJarClasses_def incParsed_def onStandalone_def)

lemma keeps_parseFile [keeps]: "keepsReport (parseFile env f)"
  unfolding parseFile_def by (auto intro!: keeps)

lemma keeps_parseEntry [keeps]: "keepsReport (parseEntry env e)"
  unfolding parseEntry_def by (auto intro!: keeps)

lemma keeps_runParser: "keepsReport (runParser env es)"
  unfolding runParser_def runTasks_classes parserProcessEntry_def by (auto intro!: keeps)

lemma keeps_withTask [keeps]: "keepsReport m \<Longrightarrow> keepsReport (withTask m)"
  by (auto simp: keepsReport_def withTask_def newTask_def sameReport_def split: prod.splits) (metis analysis.select_convs(2) snd_conv)+

lemma keeps_parserItem [keeps]: "keepsReport (parserItem env archive it)"
  by (cases it) (auto simp: parseClassFile_def intro!: keeps keeps_runParser)

lemma serverDiff_empty:
  assumes "serverDiff env archive isDirectory fileExists logName db request = Inr (st, response)"
  shows "response = \<lparr>responseFiles = [], responseClassfiles = []\<rparr>"
proof -
  have "sameReport (taskResults s) (taskResults s')" if "parserRun e archive s = (r, s')" for e s r s'
    using keeps_mapProg [of "parserItem e archive" "inputItems e"] keeps_parserItem that unfolding parserRun_def keepsReport_def by (metis snd_conv)
  then show ?thesis using assms
    by (fastforce simp: serverDiff_def reportToResponse_def sameReport_def newResults_def split: prod.splits bool.splits sum.splits)
qed

text \<open>The callback of the analysis is silent under the options of a request.\<close>

lemma request_prints_nothing: "classFileParserDone host html (snd (updateRequest isDirectory fileExists request (requestContext logName))) p = Some (Inr ([], []))"
  by (simp add: classFileParserDone_def Let_def updateRequest_def requestContext_def defaultOptions_def defaultParse_def sub_command_options.defs
      parse_options.defs split: prod.splits)

end
