(* ===== verification/Commands.thy ===== *)
theory Commands
  imports Digest_Server
begin

text \<open>
  The commands (\<^verbatim>\<open>app/commands/Parse.cpp\<close>, \<^verbatim>\<open>digest/PublicDigest.cpp\<close>, \<^verbatim>\<open>callgraph/CallGraph.cpp\<close>,
  \<^verbatim>\<open>Query.h\<close>) and the start of the program (\<^verbatim>\<open>interfaces/tarracsh/TarracshCli.cpp\<close>): which part runs under which
  options, and the exit code.  The command line itself is parsed by CLI11; what it found is an argument, and so
  are the outcomes of opening a database, of an analysis and of a query.
\<close>

section \<open>Surroundings\<close>

text \<open>
  \<open>gotServer\<close>: the sub-command \<^verbatim>\<open>server\<close> was given.  \<open>opensDb\<close>: \<^verbatim>\<open>create\<close> returned a database.  \<open>analyzes\<close>: what
  a run of the analyzer makes of the results.  \<open>answersQuery\<close>: the verdict of \<^verbatim>\<open>ExecuteQuery\<close>.
\<close>

record command_env =
  onDirectory :: "string \<Rightarrow> bool"
  onFile :: "string \<Rightarrow> bool"
  gotServer :: bool
  opensDb :: "options \<Rightarrow> bool"
  analyzes :: "options \<Rightarrow> results \<Rightarrow> results"
  answersQuery :: "bool \<Rightarrow> string \<Rightarrow> bool \<Rightarrow> bool"
  remote :: server_stub

text \<open>A command returns its exit code, the results, and the lines of the report it prints.\<close>

type_synonym outcome = "int \<times> results \<times> string list"

abbreviation exitCode :: "outcome \<Rightarrow> int" where
  "exitCode r \<equiv> fst r"

section \<open>Queries\<close>

definition queryRun :: "command_env \<Rightarrow> options \<Rightarrow> bool" where
  "queryRun env opts = (let sub = getSubCommandOptions opts in answersQuery env (isPublicDigest opts) (queryValue sub) (displayRaw sub))"

section \<open>parse\<close>

definition parseRun :: "command_env \<Rightarrow> options \<Rightarrow> results \<Rightarrow> outcome" where
  "parseRun env opts r =
     (case processInput (onDirectory env) (onFile env) (sub_command_options.truncate (parseOptions opts)) of
        (True, sub) \<Rightarrow> (0, analyzes env (opts\<lparr>parseOptions := sub_command_options.extend sub (parse_options.fields (print (parseOptions opts))
            (printConstantPool (parseOptions opts)) (printCPoolHtmlNav (parseOptions opts)) (descriptiveCPoolEntries (parseOptions opts))
            (cpoolFilter (parseOptions opts)))\<rparr>) r, [])
      | (False, sub) \<Rightarrow> (1, r, []))"

section \<open>public-digest\<close>

definition runAsStandalone :: "command_env \<Rightarrow> options \<Rightarrow> results \<Rightarrow> bool \<times> results" where
  "runAsStandalone env opts r = (if opensDb env opts then (True, analyzes env opts r) else (False, r))"

definition digestInput :: "command_env \<Rightarrow> options \<Rightarrow> results \<Rightarrow> outcome" where
  "digestInput env opts r =
     (case processInput (onDirectory env) (onFile env) (digestOptions opts) of
        (True, sub) \<Rightarrow> (let opts = opts\<lparr>digestOptions := sub\<rparr> in
          case (if isClientMode (client sub) then serverCommand (remote env) opts r else runAsStandalone env opts r) of (ok, r') \<Rightarrow>
            (if ok then 0 else 1, r', if ok \<and> isDiff sub then printReport opts r' else []))
      | (False, sub) \<Rightarrow> (1, r, []))"

text \<open>\<^verbatim>\<open>result = runAsServer()\<close> converts the truth value to an exit code.\<close>

definition publicDigestRun :: "command_env \<Rightarrow> options \<Rightarrow> results \<Rightarrow> outcome" where
  "publicDigestRun env opts r =
     (let opts = opts\<lparr>digestOptions := (digestOptions opts)\<lparr>server := (server (digestOptions opts))\<lparr>isServerMode := gotServer env\<rparr>\<rparr>\<rparr> in
      if isServerMode (server (digestOptions opts)) then (case serverCommand (remote env) opts r of (ok, r') \<Rightarrow> (if ok then 1 else 0, r', []))
      else if queryValue (digestOptions opts) \<noteq> [] then (if queryRun env opts then 0 else 1, r, [])
      else digestInput env opts r)"

section \<open>call-graph\<close>

definition processGraphInput :: "command_env \<Rightarrow> options \<Rightarrow> results \<Rightarrow> outcome" where
  "processGraphInput env opts r = (let cg = callGraphOptions opts in
     case processInput (onDirectory env) (onFile env) (sub_command_options.truncate cg) of
        (True, sub) \<Rightarrow> (let opts = opts\<lparr>callGraphOptions := sub_command_options.extend sub (call_graph_options.fields (exportDot cg) (exportGml cg))\<rparr> in
          case (if isClientMode (client sub) then (False, r) else runAsStandalone env opts r) of (ok, r') \<Rightarrow>
            (if ok then 0 else 1, r', if ok then printReport opts r' else []))
      | (False, sub) \<Rightarrow> (1, r, []))"

text \<open>The flag is set in the options of the other command.\<close>

definition callGraphRun :: "command_env \<Rightarrow> options \<Rightarrow> results \<Rightarrow> outcome" where
  "callGraphRun env opts r =
     (let opts = opts\<lparr>digestOptions := (digestOptions opts)\<lparr>server := (server (digestOptions opts))\<lparr>isServerMode := gotServer env\<rparr>\<rparr>\<rparr> in
      if isServerMode (server (callGraphOptions opts)) then (0, r, [])
      else if queryValue (callGraphOptions opts) \<noteq> [] then (if queryRun env opts then 0 else 1, r, [])
      else processGraphInput env opts r)"

section \<open>The program\<close>

datatype sub_command = DigestCommand | CallGraphCommand | ParseCommand

text \<open>What CLI11 reports: the options it stored and the sub-command, or an exit code with or without help.\<close>

datatype cli_result = Parsed options "sub_command option" | HelpShown int | CliError int

definition selectCommand :: "sub_command option \<Rightarrow> options \<Rightarrow> int \<times> options" where
  "selectCommand cmd opts = (case cmd of
     Some DigestCommand \<Rightarrow> (0, opts\<lparr>isPublicDigest := True\<rparr>) | Some CallGraphCommand \<Rightarrow> (0, opts\<lparr>isCallGraph := True\<rparr>)
   | Some ParseCommand \<Rightarrow> (0, opts\<lparr>isParse := True\<rparr>) | None \<Rightarrow> (1, opts))"

definition defaultPaths :: "string \<Rightarrow> options \<Rightarrow> options" where
  "defaultPaths home opts =
     (let opts = (if outputDir opts = [] then opts\<lparr>outputDir := pathAppend (pathAppend home ''tarracsh'') ''output''\<rparr> else opts)
      in if logFile opts = [] then opts\<lparr>logFile := pathAppend (outputDir opts) ''output.log''\<rparr> else opts)"

definition startProgram :: "command_env \<Rightarrow> string \<Rightarrow> cli_result \<Rightarrow> results \<Rightarrow> outcome" where
  "startProgram env home cli r = (case cli of
     HelpShown code \<Rightarrow> (code, r, []) | CliError code \<Rightarrow> (code, r, [])
   | Parsed opts cmd \<Rightarrow> (case selectCommand cmd opts of (code, opts) \<Rightarrow> (let opts = defaultPaths home opts in
       if code \<noteq> 0 then (code, r, [])
       else if isPublicDigest opts then publicDigestRun env opts r
       else if isCallGraph opts then callGraphRun env opts r
       else if isParse opts then parseRun env opts r
       else (0, r, []))))"

section \<open>Exit codes\<close>

text \<open>Elsewhere 0 is success; a server that started and stopped as it should makes the program exit with 1, and one
  that could not start with 0.\<close>

lemma server_exit_inverted:
  assumes "gotServer env" "\<not> stopServer (server (digestOptions opts))" "\<not> isClientMode (client (digestOptions opts))"
  shows "exitCode (publicDigestRun env opts r) = (if serverStarter (remote env) then 1 else 0)"
  using assms by (simp add: publicDigestRun_def serverCommand_def Let_def)

text \<open>The sub-command \<^verbatim>\<open>server\<close> of \<^verbatim>\<open>call-graph\<close> is not honoured.\<close>

lemma callgraph_server_ignored:
  assumes "\<not> isServerMode (server (callGraphOptions opts))" "queryValue (callGraphOptions opts) = []"
  shows "callGraphRun env opts r =
    processGraphInput env (opts\<lparr>digestOptions := (digestOptions opts)\<lparr>server := (server (digestOptions opts))\<lparr>isServerMode := gotServer env\<rparr>\<rparr>\<rparr>) r"
  using assms by (simp add: callGraphRun_def Let_def)

section \<open>A comparison against the server\<close>

lemma processInput_keeps:
  "processInput isDirectory fileExists sub = (ok, sub') \<Longrightarrow> input sub' = input sub \<and> dryRun sub' = dryRun sub \<and> isDiff sub' = isDiff sub \<and>
     client sub' = client sub \<and> server sub' = server sub \<and> queryValue sub' = queryValue sub"
  by (auto simp: processInput_def Let_def split: if_splits)

lemma processInput_server: "fst (processInput isDirectory fileExists (sub\<lparr>server := x\<rparr>)) = fst (processInput isDirectory fileExists sub)"
  by (simp add: processInput_def Let_def)

text \<open>A comparison against the server finds nothing.  The server hands the request to the analysis of the base class,
  which parses the input and never reports on it: whatever the input and whatever the database hold, when the
  server answers that all went well, the client exits with 0 and prints a report without a file or class.\<close>

lemma server_diff_reports_nothing:
  assumes "serverDiff senv archive isDirectory fileExists logName db (optionsToRequest opts) = Inr (StatusOk, response)"
    and "stubDiff (remote env) (optionsToRequest opts) = (StatusOk, response)"
    and "\<not> gotServer env" "queryValue (digestOptions opts) = []" "isClientMode (client (digestOptions opts))"
    and "\<not> stopServer (server (digestOptions opts))" "isDiff (digestOptions opts)" "\<not> verbose opts"
    and "fst (processInput (onDirectory env) (onFile env) (digestOptions opts))"
  shows "publicDigestRun env opts newResults = (0, newResults, ['''', ''Files:'', '''', ''Classes:'', ''''])"
proof -
  let ?sub = "(digestOptions opts)\<lparr>server := (server (digestOptions opts))\<lparr>isServerMode := False\<rparr>\<rparr>"
  let ?opts = "opts\<lparr>digestOptions := ?sub\<rparr>"
  have empty: "response = \<lparr>responseFiles = [], responseClassfiles = []\<rparr>" by (rule serverDiff_empty [OF assms(1)])
  obtain sub where sub: "processInput (onDirectory env) (onFile env) ?sub = (True, sub)" 
    using assms(9) by (metis processInput_server prod.exhaust_sel)
  note kept = processInput_keeps [OF sub]
  have "optionsToRequest (?opts\<lparr>digestOptions := sub\<rparr>) = optionsToRequest opts" using kept by (simp add: optionsToRequest_def)
  then have "serverCommand (remote env) (?opts\<lparr>digestOptions := sub\<rparr>) newResults = (True, newResults)"
    using kept assms(2,5,6) by (simp add: serverCommand_def diffRemote_def empty responseToReport_def)
  moreover have "printReport (?opts\<lparr>digestOptions := sub\<rparr>) newResults = ['''', ''Files:'', '''', ''Classes:'', '''']"
    using assms(8) by (simp add: printReport_def newResults_def)
  ultimately have "digestInput env ?opts newResults = (0, newResults, ['''', ''Files:'', '''', ''Classes:'', ''''])"
    using sub kept assms(5,7) by (simp add: digestInput_def)
  then show ?thesis using assms(3,4) by (simp add: publicDigestRun_def)
qed

definition clientOptions :: options where
  "clientOptions = defaultOptions\<lparr>isPublicDigest := True,
     digestOptions := defaultSubCommand\<lparr>input := ''j.jar'', isDiff := True, client := defaultClient\<lparr>isClientMode := True\<rparr>\<rparr>\<rparr>"

definition sampleCommand :: command_env where
  "sampleCommand = \<lparr>onDirectory = (\<lambda>_. False), onFile = (\<lambda>_. True), gotServer = False, opensDb = (\<lambda>_. True), analyzes = (\<lambda>_ r. r),
     answersQuery = (\<lambda>_ _ _. True), remote = \<lparr>stubQuit = StatusOk, stubDiff = (\<lambda>_. (StatusOk, \<lparr>responseFiles = [], responseClassfiles = []\<rparr>)), serverStarter = True\<rparr>\<rparr>"

lemma clientOptions_simps:
  "digestOptions clientOptions = defaultSubCommand\<lparr>input := ''j.jar'', isDiff := True, client := defaultClient\<lparr>isClientMode := True\<rparr>\<rparr>" "\<not> verbose clientOptions"
  by (simp_all add: clientOptions_def defaultOptions_def)

lemma request_jar:
  "updateRequest (\<lambda>_. False) (\<lambda>_. True) (optionsToRequest clientOptions) (requestContext ''log'') =
     (True, (requestContext ''log'')\<lparr>digestOptions := defaultSubCommand\<lparr>server := defaultServer\<lparr>isServerMode := True\<rparr>, input := ''j.jar'', isDiff := True, isJar := True\<rparr>\<rparr>)"
  by (simp add: updateRequest_def processInput_def optionsToRequest_def clientOptions_simps requestContext_def defaultOptions_def defaultSubCommand_def
      isJarPath_def pathExtension_def pathFilename_def Let_def)

lemma server_diff_reports_nothing_witness:
  "\<exists>response. serverDiff sampleAnalyzer (\<lambda>_. []) (\<lambda>_. False) (\<lambda>_. True) ''log'' (newDatabase ''d'' 0) (optionsToRequest clientOptions) = Inr (StatusOk, response) \<and>
     publicDigestRun sampleCommand clientOptions newResults = (0, newResults, ['''', ''Files:'', '''', ''Classes:'', ''''])"
proof -
  let ?o = "(requestContext ''log'')\<lparr>digestOptions := defaultSubCommand\<lparr>server := defaultServer\<lparr>isServerMode := True\<rparr>, input := ''j.jar'', isDiff := True, isJar := True\<rparr>\<rparr>"
  let ?db = "newDatabase ''d'' 0"
  have items: "inputItems (sampleAnalyzer\<lparr>envOptions := ?o\<rparr>) = [JarFile ''j.jar'']"
    by (simp add: inputItems_def getSubCommandOptions_def requestContext_def defaultOptions_def defaultSubCommand_def Let_def)
  obtain s where "parserRun (sampleAnalyzer\<lparr>envOptions := ?o\<rparr>) (\<lambda>_. []) \<lparr>taskDb = ?db, taskResults = newResults, taskLog = [], ownerIndexes = []\<rparr> = (Inr [()], s)"
    unfolding parserRun_def items by (simp add: runParser_def withTask_def onResults_def modify_def andThen_def ret_def split: prod.splits)
  then have server: "serverDiff sampleAnalyzer (\<lambda>_. []) (\<lambda>_. False) (\<lambda>_. True) ''log'' ?db (optionsToRequest clientOptions) = Inr (StatusOk, reportToResponse (taskResults s))"
    by (simp add: serverDiff_def request_jar)
  have empty: "reportToResponse (taskResults s) = \<lparr>responseFiles = [], responseClassfiles = []\<rparr>" by (rule serverDiff_empty [OF server])
  have "publicDigestRun sampleCommand clientOptions newResults = (0, newResults, ['''', ''Files:'', '''', ''Classes:'', ''''])"
    by (rule server_diff_reports_nothing [OF server])
      (simp_all add: sampleCommand_def clientOptions_simps empty defaultSubCommand_def defaultServer_def defaultClient_def processInput_def isJarPath_def pathExtension_def
        pathFilename_def Let_def)
  then show ?thesis using server by blast
qed

end
