(* ===== verification/Spec2Isabelle.thy ===== *)
theory Spec2Isabelle
  imports Attributes Digest Db_Display Table_Refinement Query_Parser Stats Jar_Processor Cf_Diff Commands
begin

text \<open>
  \<^bold>\<open>Tarracsh: a verification library.\<close>

  Tarracsh reads Java class files, single or in jars, prints them, digests their public interface
  into an embedded database, builds a call-graph database, answers queries on these databases and
  compares two class files.  File names below are relative to \<^verbatim>\<open>src/src/\<close>.

  \<^bold>\<open>The parts and how they interact.\<close>  A byte reader (\<^verbatim>\<open>domain/classfile/reader\<close>) delivers a class file
  to the parser (\<^verbatim>\<open>ClassFileParser.cpp\<close>), which fills a constant pool and the lists of members and
  attributes.  Printers of descriptors, signatures, annotations and attributes turn their parts into
  text; the digest (\<^verbatim>\<open>domain/digest\<close>) hashes the public ones; \<^verbatim>\<open>cfdiff\<close> compares two of them.  A jar
  processor (\<^verbatim>\<open>domain/jar\<close>) feeds the entries of an archive to a task on a thread pool.  Results go
  to tables of an embedded database (\<^verbatim>\<open>infrastructure/db\<close>), which keeps texts in a string pool and
  rows in memory and in files, and to the counters of a report (\<^verbatim>\<open>domain/stats\<close>).  Queries are
  parsed, walked by a listener and answered by a parallel scan of one table.  The call graph
  (\<^verbatim>\<open>app/commands/callgraph\<close>) joins the references of all classes with their targets and exports
  the result as a DOT or GML file.  The commands choose among these parts by the options, and a
  server answers requests for a comparison.

  \<^bold>\<open>Theories.\<close>
  \<^item> \<open>Prelude\<close>: integer types, faults, programs over a state (\<open>prog\<close>), results, runs that may not
    end, text of numbers.
  \<^item> \<open>Reader\<close> (\<^verbatim>\<open>reader/ClassFileReader.*, MemoryReader.*, FileReader.h, VectorReader.h\<close>): bounds, byte
    order, both byte sources, the reader of attribute bodies.  The locale \<open>class_file_source\<close> states what the
    parser relies on and is interpreted on memory and on files.
  \<^item> \<open>String_Utils\<close> (\<^verbatim>\<open>infrastructure/string/StringUtils.h\<close>), \<open>Access_Modifiers\<close>
    (\<^verbatim>\<open>AccessModifiers.h\<close>), \<open>Descriptors\<close> (\<^verbatim>\<open>SignatureScanner.h, DescriptorParser.h,
    MethodDescriptorParser.h\<close>), \<open>Constant_Pool\<close> (\<^verbatim>\<open>constantpool/*\<close>).
  \<^item> \<open>Class_File_Parser\<close> (\<^verbatim>\<open>ClassFileParser.cpp\<close>): the parse, the format as an encoder, the round trip
    on both sources, and that no buffer makes the parse misbehave.
  \<^item> \<open>Signature_Parser\<close> (\<^verbatim>\<open>signature/*\<close>), \<open>Annotations\<close> (\<^verbatim>\<open>AnnotationsParser.cpp\<close>), \<open>Attributes\<close>
    (\<^verbatim>\<open>AttributesManager.h\<close>): decoding and text, round trips and termination.
  \<^item> \<open>Digest\<close> (\<^verbatim>\<open>domain/digest\<close>): what enters the digest and what does not.
  \<^item> \<open>String_Pool\<close>, \<open>Db_Columns\<close>, \<open>Db_Table\<close>, \<open>Db_Database\<close>, \<open>Db_Display\<close> (\<^verbatim>\<open>infrastructure/db\<close>),
    \<open>Domain_Tables\<close> (\<^verbatim>\<open>domain/db\<close>): the pool, the table with its heap of rows, its index and its
    file, several tables that refer to each other, the ten tables of the program, the text of rows.
    Durability, restart, listing by several threads, the display of rows.
  \<^item> \<open>Table_Refinement\<close>: a table is an append-only store of rows under distinct keys, operation by operation
    and answer by answer; deleting sets the flag of a row.
  \<^item> \<open>Query\<close>, \<open>Query_Parser\<close> (\<^verbatim>\<open>infrastructure/db/query\<close>): the rules of the generated parser accept
    exactly the grammar; a query with plain literals lists exactly the rows that satisfy its expression.
  \<^item> \<open>Stats\<close> (\<^verbatim>\<open>domain/Options.*, domain/stats\<close>): counters and report; every counter is the
    number of its calls, and the order of the calls does not matter.
  \<^item> \<open>Jar_Processor\<close> (\<^verbatim>\<open>domain/jar/Processor.cpp, JarEntry.h\<close>): the two threads as a step relation;
    every run ends, with the outcome of processing the entries one after the other, within the
    bound on buffers.
  \<^item> \<open>Cf_Diff\<close> (\<^verbatim>\<open>interfaces/cfdiff/ClassfileDiffApp.cpp\<close>): the count of differences, independent of
    the order of hash maps.
  \<^item> \<open>Graph_Nodes\<close> (\<^verbatim>\<open>domain/graph/ClassfileProcessor.cpp\<close>): the rows a class contributes to the
    call-graph tables, when no two nodes of it have one kind and name.
  \<^item> \<open>Jar_Tasks\<close> (\<^verbatim>\<open>domain/jar/tasks\<close>): what is done with the classes of a jar.  A dry run compares the
    digest of the whole jar with the stored one, whatever the order of its entries; a changed class
    cannot be recorded.
  \<^item> \<open>Analyzers\<close> (\<^verbatim>\<open>Analyzer.cpp, DigestAnalyzer.cpp, CallGraphAnalyzer.cpp\<close>): from a class file on disk
    to its rows in the database.  A new file whose node names differ is recorded with all its nodes.
  \<^item> \<open>Graph_Link\<close> (\<^verbatim>\<open>CallGraphAnalyzer.*\<close>): linking is a join of references and targets on the
    database.  The locale \<open>linking\<close> is interpreted on class and on member links.
  \<^item> \<open>Graph_Export\<close> (\<^verbatim>\<open>CallGraphExporter.*\<close>): the nodes and edges of the exported graph are
    those of a picture of the tables; where class edges start; labels.  The locale \<open>export_step\<close> states what
    each callback keeps, \<open>drawing_step\<close> what it draws.
  \<^item> \<open>Printers\<close> (\<^verbatim>\<open>ConstantPoolPrinter.cpp, HtmlGen.cpp, ParserPrinter.cpp\<close>): the text of the constant pool and of
    the declaration of a class, the page of linked entries.  Every record of a well-formed pool is
    shown once, in order; the links of the page lead to entries of the page.
  \<^item> \<open>Digest_Server\<close> (\<^verbatim>\<open>app/server\<close>): requests, responses and the end of the server as a step relation; a
    report crosses the wire unchanged.  \<open>Commands\<close> (\<^verbatim>\<open>app/commands/*,
    TarracshCli.cpp\<close>): which part runs and the exit code; what the server's analysis puts into a response.
  \<^item> This theory: from the bytes of a class file to its text and to its digest.

  \<^bold>\<open>How code is represented.\<close>  A class or structure is a record, a union with a tag a datatype, a
  member function a program over the record of its object.  Integers have the width of the source
  (\<open>u1\<close> to \<open>u8\<close>) wherever they can wrap; sizes that cannot are natural numbers.  An exception, a
  failing \<^verbatim>\<open>assert\<close> and undefined behaviour are faults; asserts are taken to be active.  Rows are
  allocated in an explicit store, and memory blocks of the pool have an identity, where the code
  frees or moves what it still refers to.  A loop that can run forever is a partial function into
  options, and None is a run without end; theorems that a call returns are stated as such.

  \<^bold>\<open>Fuel.\<close>  The parser of generic signatures takes six units per character and 24 more, the reader of
  annotations one per byte of the body and one more, the rule for query expressions one per token.
  The bounds are shown to be enough on every input for the signatures of types
  (\<open>parseTypeSig_terminates\<close>), for annotations (\<open>annotations_read_terminates\<close>) and for query expressions
  (\<open>expr_complete\<close>).  For the signatures of classes and methods no bound is enough on every input: their
  loop over formal type parameters may never end (\<open>formal_parameters_loop_forever\<close>), and \<open>OutOfFuel\<close>
  stands for that run.

  \<^bold>\<open>Parameters.\<close>  Code outside the repository is an argument: SHA-256 (\<open>hash\<close>), the calendar text of
  time stamps (\<open>datetime\<close>), regular expressions (\<open>regex_engine\<close>), the lexer and the prediction of
  the ANTLR run-time library (\<open>predictsOper\<close>), the iteration order of hash maps (\<open>rearranges\<close>, \<open>reorders\<close>),
  the archive library, the template engine of the pages, the remote calls of gRPC, the byte order and the number of threads of the machine.

  \<^bold>\<open>Not modelled.\<close>  The declaration of options to CLI11, logging, timers, profiling and the progress
  thread are effects of libraries with no decision of their own.  Locks are left out where an
  operation runs wholly under one lock; memory exhaustion and failing writes are left out.  The
  wide-character conversions of \<^verbatim>\<open>StringUtils.h\<close> have no caller.
\<close>

section \<open>From the bytes of a class file to its text and its digest\<close>

text \<open>(C4)
  From bytes to text: a class file in memory that carries a \<^verbatim>\<open>RuntimeVisibleAnnotations\<close> attribute is
  parsed, and the parser hands the attribute with its constant pool and the byte order it found
  to the attribute printer, which prints exactly the encoded annotations, on big-endian and
  little-endian machines alike.
\<close>

theorem class_annotations_text:
  assumes "sizedClassFile cf" "length (encClassFile cf @ rest) < 2 ^ 32" "a \<in> set (cfAttributes cf)"
    and "getString (poolOf (cfPool cf)) (attrNameIndex a) False = Inr ''RuntimeVisibleAnnotations''"
    and "attrInfo a = encAnnotations as" "\<forall>x\<in>set as. wfAnnotation x" "length as < 65536" "length (attrInfo a) < 2 ^ 31"
  shows "\<exists>r p. MemoryReader host (Some (encClassFile cf @ rest)) (int (length (encClassFile cf @ rest))) = Inr r \<and>
    parse (newParser r name lg) = (Inr True, p) \<and> a \<in> set (attributes p) \<and>
    attributeToString host (attributesBigEndian p) (constantPool p) a =
      bindO (annotationsToString (poolOf (cfPool cf)) as) (\<lambda>s. Some (Inr (''Attr - RuntimeVisibleAnnotations '' @ s)))"
proof -
  obtain r p where p: "MemoryReader host (Some (encClassFile cf @ rest)) (int (length (encClassFile cf @ rest))) = Inr r"
    "parse (newParser r name lg) = (Inr True, p)" "parsedAs cf p" "attributesBigEndian p = host"
    using memory_parse [OF assms(1,2), of host name lg] by blast
  have pool: "constantPool p = poolOf (cfPool cf)" "attributes p = cfAttributes cf" using p(3) by (simp_all add: parsedAs_def)
  have v: "vrAt (newVectorReader host host (attrInfo a)) (encAnnotations as)" using newVectorReader_at assms(5,8) by simp
  from annotations_text [OF assms(6,7) v] obtain v' where
    "toStringRuntimeAnnotations (poolOf (cfPool cf)) (newVectorReader host host (attrInfo a)) =
       map_option (\<lambda>r. (r, v')) (annotationsToString (poolOf (cfPool cf)) as)" by blast
  moreover have "getTag ''RuntimeVisibleAnnotations'' = RuntimeVisibleAnnotationsTag" by (simp add: getTag_def tagsMap_def)
  ultimately have "attributeToString host (attributesBigEndian p) (constantPool p) a =
      bindO (annotationsToString (poolOf (cfPool cf)) as) (\<lambda>s. Some (Inr (''Attr - RuntimeVisibleAnnotations '' @ s)))"
    using assms(4) p(4) pool
    by (simp add: attributeToString_def getType_def toStringFunc_def spaced_def thenRun_def retRun_def split: option.split sum.split)
  with p pool assms(3) show ?thesis by auto
qed

definition annotatedClass :: class_file where
  "annotatedClass = \<lparr>cfMinor = 0, cfMajor = 52,
     cfPool = [Utf8Info (map charByte ''A''), ClassInfo 1, Utf8Info (map charByte ''RuntimeVisibleAnnotations''),
       Utf8Info (map charByte ''LT;''), Utf8Info (map charByte ''v''), IntegerInfo 7],
     cfMain = \<lparr>classAccessFlags = 0x21, thisClass = 2, superClass = 0\<rparr>, cfInterfaces = [], cfFields = [], cfMethods = [],
     cfAttributes = [\<lparr>attrNameIndex = 3, attrLength = 11,
       attrInfo = encAnnotations [Annotation 4 [AnnotationValuePair 5 (ConstValue (charByte CHR ''I'') 6)]], attrOwner = ClassFileOwner\<rparr>]\<rparr>"

lemma annotatedClass_sized: "sizedClassFile annotatedClass" "length (encClassFile annotatedClass @ []) < 2 ^ 32"
  by (simp_all add: sizedClassFile_def annotatedClass_def poolOf_def slots_def sizedAttribute_def encAnnotations_def
      encClassFile_def encContents_def encRecord_def encAttribute_def)

lemma annotatedClass_text:
  "annotationsToString (poolOf (cfPool annotatedClass)) [Annotation 4 [AnnotationValuePair 5 (ConstValue (charByte CHR ''I'') 6)]] = Some (Inr ''T: (v=(7))'')"
  by code_simp

theorem class_annotations_text_witness:
  "\<exists>a r p. MemoryReader False (Some (encClassFile annotatedClass @ [])) (int (length (encClassFile annotatedClass @ []))) = Inr r \<and>
    parse (newParser r ''A.class'' []) = (Inr True, p) \<and> a \<in> set (attributes p) \<and>
    attributeToString False (attributesBigEndian p) (constantPool p) a = Some (Inr ''Attr - RuntimeVisibleAnnotations T: (v=(7))'')"
proof -
  let ?as = "[Annotation 4 [AnnotationValuePair 5 (ConstValue (charByte CHR ''I'') 6)]]"
  let ?a = "hd (cfAttributes annotatedClass)"
  have "getString (poolOf (cfPool annotatedClass)) (attrNameIndex ?a) False = Inr ''RuntimeVisibleAnnotations''"
    by (simp add: annotatedClass_def poolOf_def slots_def getString_def getEntry_def getAsUtf8_def)
  moreover have "?a \<in> set (cfAttributes annotatedClass)" "attrInfo ?a = encAnnotations ?as" by (simp_all add: annotatedClass_def)
  moreover have "\<forall>x\<in>set ?as. wfAnnotation x" "length ?as < 65536" "length (attrInfo ?a) < 2 ^ 31"
    by (simp_all add: annotatedClass_def constantTag_def encAnnotations_def)
  ultimately show ?thesis
    using class_annotations_text [OF annotatedClass_sized, of ?a ?as False "''A.class''" "[]"] annotatedClass_text
    by (auto intro!: exI [of _ ?a])
qed

text \<open>(C5)
  The digest of a class does not depend on where it is read from: the class parsed from a buffer
  on one machine and the class parsed from a file, of that content and any bytes behind it, on a
  machine of either byte order have the same digest.
\<close>

theorem digest_source_independent:
  assumes "sizedClassFile cf" "length (encClassFile cf @ rest) < 2 ^ 32" "length (encClassFile cf @ rest') < 2 ^ 32"
    and "fs name' = Some (encClassFile cf @ rest')"
  shows "\<exists>r p r' p'. MemoryReader host (Some (encClassFile cf @ rest)) (int (length (encClassFile cf @ rest))) = Inr r \<and>
    parse (newParser r name lg) = (Inr True, p) \<and> FileReader host' fs name' = Inr r' \<and>
    parse (newParser r' name' lg') = (Inr True, p') \<and> digest hash p' = digest hash p"
proof -
  obtain r p where p: "MemoryReader host (Some (encClassFile cf @ rest)) (int (length (encClassFile cf @ rest))) = Inr r"
    "parse (newParser r name lg) = (Inr True, p)" "parsedAs cf p"
    using memory_parse [OF assms(1,2), of host name lg] by blast
  obtain r' p' where p': "FileReader host' fs name' = Inr r'" "parse (newParser r' name' lg') = (Inr True, p')" "parsedAs cf p'"
    using file_parse [of cf fs name' rest' host' lg'] assms by blast
  have "digest hash p' = digest hash p" by (rule digest_fields) (use p(3) p'(3) in \<open>simp_all add: parsedAs_def\<close>)
  with p p' show ?thesis by blast
qed

theorem digest_source_independent_witness:
  "\<exists>r p r' p'. MemoryReader False (Some (encClassFile annotatedClass @ [])) (int (length (encClassFile annotatedClass @ []))) = Inr r \<and>
     parse (newParser r ''A.class'' []) = (Inr True, p) \<and> FileReader True [''A.class'' \<mapsto> encClassFile annotatedClass @ [9]] ''A.class'' = Inr r' \<and>
     parse (newParser r' ''A.class'' []) = (Inr True, p') \<and> digest paddedHash p' = digest paddedHash p"
proof -
  have "length (encClassFile annotatedClass @ [9]) < 2 ^ 32" using annotatedClass_sized(2)
    by (simp add: annotatedClass_def encAnnotations_def encClassFile_def encContents_def encRecord_def encAttribute_def)
  from digest_source_independent [OF annotatedClass_sized this, of "[''A.class'' \<mapsto> encClassFile annotatedClass @ [9]]" "''A.class''"
      False "''A.class''" "[]" True "[]" paddedHash] show ?thesis by auto
qed

end
